(* ===== verification/Prelude.thy ===== *)
theory Prelude
  imports Main "HOL-Library.Word" "HOL-Library.List_Lexorder" "HOL-Library.Char_ord"
    "HOL-Library.Sublist"
begin

text \<open>
  Shared vocabulary of the development: the result type of fallible operations, bytes and
  big-endian integers (Go's \<^verbatim>\<open>encoding/binary\<close>), the few string functions of Go's standard
  library that the modelled code calls, and list and map lemmas that several components use.

  Conventions.  A Go \<^verbatim>\<open>string\<close> is a \<^typ>\<open>string\<close> (a list of 8-bit characters, as Go's strings
  are lists of bytes); a Go \<^verbatim>\<open>[]byte\<close> is a list of \<open>8 word\<close>; an \<^verbatim>\<open>error\<close> result is the
  left injection of a sum; \<^verbatim>\<open>time.Time\<close> and \<^verbatim>\<open>time.Duration\<close> are integers counting
  nanoseconds.  A Go map whose iteration order matters is never iterated by the model in an
  order of its own choice: the order is an argument of the operation.
\<close>

unbundle bit_operations_syntax

section \<open>Collections of facts\<close>

named_theorems codec_simps \<open>decoding equations of the byte codecs\<close>
named_theorems inv_intros \<open>introduction rules for the components' invariants\<close>

section \<open>Results\<close>

definition bindR :: "'e + 'a \<Rightarrow> ('a \<Rightarrow> 'e + 'b) \<Rightarrow> 'e + 'b" where
  "bindR m f = (case m of Inl e \<Rightarrow> Inl e | Inr x \<Rightarrow> f x)"

lemma bindR_simps [simp]: "bindR (Inl e) f = Inl e" "bindR (Inr x) f = f x"
  by (simp_all add: bindR_def)

lemma bindR_eq_Inr: "bindR m f = Inr y \<longleftrightarrow> (\<exists>x. m = Inr x \<and> f x = Inr y)"
  by (cases m) auto

lemma bindR_eq_Inl: "bindR m f = Inl e \<longleftrightarrow> m = Inl e \<or> (\<exists>x. m = Inr x \<and> f x = Inl e)"
  by (cases m) auto

text \<open>Go's \<^verbatim>\<open>fmt.Errorf("...: %w", err)\<close>: the error is wrapped, a value is passed on.\<close>

definition mapErr :: "('e \<Rightarrow> 'f) \<Rightarrow> 'e + 'a \<Rightarrow> 'f + 'a" where
  "mapErr g m = (case m of Inl e \<Rightarrow> Inl (g e) | Inr x \<Rightarrow> Inr x)"

lemma mapErr_simps [simp]: "mapErr g (Inl e) = Inl (g e)" "mapErr g (Inr x) = Inr x"
  by (simp_all add: mapErr_def)

lemma mapErr_eq_Inr [simp]: "mapErr g m = Inr x \<longleftrightarrow> m = Inr x"
  by (cases m) auto

section \<open>Bytes and big-endian integers\<close>

type_synonym byte = "8 word"
type_synonym bytes = "8 word list"

definition put_u16 :: "16 word \<Rightarrow> bytes" where
  "put_u16 w = [ucast (drop_bit 8 w), ucast w]"

fun get_u16 :: "bytes \<Rightarrow> 16 word" where
  "get_u16 (a # b # _) = push_bit 8 (ucast a) OR ucast b"
| "get_u16 _ = 0"

definition put_u32 :: "32 word \<Rightarrow> bytes" where
  "put_u32 w = [ucast (drop_bit 24 w), ucast (drop_bit 16 w), ucast (drop_bit 8 w), ucast w]"

fun get_u32 :: "bytes \<Rightarrow> 32 word" where
  "get_u32 (a # b # c # d # _) =
     push_bit 24 (ucast a) OR push_bit 16 (ucast b) OR push_bit 8 (ucast c) OR ucast d"
| "get_u32 _ = 0"

definition put_u64 :: "64 word \<Rightarrow> bytes" where
  "put_u64 w = map (\<lambda>k. ucast (drop_bit (8 * k) w)) (rev [0..<8])"

lemma length_put [simp]:
  "length (put_u16 w) = 2" "length (put_u32 v) = 4" "length (put_u64 u) = 8"
  by (simp_all add: put_u16_def put_u32_def put_u64_def)

lemma get_put_u16 [simp, codec_simps]: "get_u16 (put_u16 w @ r) = w"
  unfolding put_u16_def by simp (rule bit_word_eqI, auto simp: bit_simps)

lemma get_put_u16_Nil [simp, codec_simps]: "get_u16 (put_u16 w) = w"
  using get_put_u16 [of w "[]"] by simp

lemma get_put_u32 [simp, codec_simps]: "get_u32 (put_u32 w @ r) = w"
proof (rule bit_word_eqI)
  fix n assume "n < LENGTH(32)"
  then consider "n < 8" | "8 \<le> n" "n < 16" | "16 \<le> n" "n < 24" | "24 \<le> n" "n < 32"
    by fastforce
  then show "bit (get_u32 (put_u32 w @ r)) n = bit w n"
    by cases (auto simp: put_u32_def bit_simps)
qed

lemma get_put_u32_Nil [simp, codec_simps]: "get_u32 (put_u32 w) = w"
  using get_put_u32 [of w "[]"] by simp

lemma put_get_u16: "length bs = 2 \<Longrightarrow> put_u16 (get_u16 bs) = bs"
proof -
  assume "length bs = 2"
  then obtain a b where bs: "bs = [a, b]"
    by (auto simp: numeral_2_eq_2 length_Suc_conv)
  have "ucast (drop_bit 8 (get_u16 [a, b])) = a" "ucast (get_u16 [a, b]) = b"
    by (rule bit_word_eqI, auto simp: bit_simps dest: bit_imp_le_length)+
  then show ?thesis by (simp add: bs put_u16_def)
qed

lemma put_get_u32: "length bs = 4 \<Longrightarrow> put_u32 (get_u32 bs) = bs"
proof -
  assume "length bs = 4"
  then obtain a b c d where bs: "bs = [a, b, c, d]"
    by (auto simp: numeral_eq_Suc length_Suc_conv)
  have "ucast (drop_bit 24 (get_u32 [a, b, c, d])) = a"
    "ucast (drop_bit 16 (get_u32 [a, b, c, d])) = b"
    "ucast (drop_bit 8 (get_u32 [a, b, c, d])) = c" "ucast (get_u32 [a, b, c, d]) = d"
    by (rule bit_word_eqI, auto simp: bit_simps dest: bit_imp_le_length)+
  then show ?thesis by (simp add: bs put_u32_def)
qed

lemma put_u64_inject [simp]: "put_u64 v = put_u64 w \<longleftrightarrow> v = w"
proof
  assume eq: "put_u64 v = put_u64 w"
  have byte: "bit (ucast (drop_bit (8 * k) v) :: byte) j = bit (ucast (drop_bit (8 * k) w) :: byte) j"
    if "k < 8" for k j
    using eq that unfolding put_u64_def map_eq_conv by auto
  show "v = w"
  proof (rule bit_word_eqI)
    fix n assume "n < LENGTH(64)"
    then have "n div 8 < 8" "n mod 8 < 8" "8 * (n div 8) + n mod 8 = n" by auto
    then show "bit v n = bit w n"
      using byte [of "n div 8" "n mod 8"] by (simp add: bit_simps)
  qed
qed simp

section \<open>Characters and bytes\<close>

definition byte_of_char :: "char \<Rightarrow> byte" where
  "byte_of_char c = word_of_nat (of_char c)"

definition char_of_byte :: "byte \<Rightarrow> char" where
  "char_of_byte b = char_of (unat b)"

lemma char_of_byte_of_char [simp]: "char_of_byte (byte_of_char c) = c"
  by (simp add: char_of_byte_def byte_of_char_def unat_of_nat)

lemma byte_of_char_of_byte [simp]: "byte_of_char (char_of_byte b) = b"
proof -
  have "of_char (char_of (unat b)) = (unat b :: nat)"
    using unsigned_less [of b, where 'a = nat] by simp
  then show ?thesis by (simp add: char_of_byte_def byte_of_char_def)
qed

definition bytes_of_string :: "string \<Rightarrow> bytes" where
  "bytes_of_string s = map byte_of_char s"

definition string_of_bytes :: "bytes \<Rightarrow> string" where
  "string_of_bytes bs = map char_of_byte bs"

lemma string_bytes_inverse [simp]:
  "string_of_bytes (bytes_of_string s) = s" "bytes_of_string (string_of_bytes bs) = bs"
  by (simp_all add: string_of_bytes_def bytes_of_string_def comp_def)

lemma length_bytes_of_string [simp]: "length (bytes_of_string s) = length s"
  by (simp add: bytes_of_string_def)

lemma length_string_of_bytes [simp]: "length (string_of_bytes bs) = length bs"
  by (simp add: string_of_bytes_def)

lemma string_of_bytes_Nil [simp]: "string_of_bytes [] = []"
  by (simp add: string_of_bytes_def)

lemma bytes_of_string_simps [simp]:
  "bytes_of_string [] = []" "bytes_of_string (s @ t) = bytes_of_string s @ bytes_of_string t"
  "bytes_of_string s = bytes_of_string t \<longleftrightarrow> s = t"
  by (simp_all add: bytes_of_string_def inj_map_eq_map [OF inj_on_inverseI [of UNIV char_of_byte]])

lemma bindR_not_Inl: "m \<noteq> Inl e \<Longrightarrow> (\<And>x. m = Inr x \<Longrightarrow> f x \<noteq> Inl e) \<Longrightarrow> bindR m f \<noteq> Inl e"
  by (cases m) auto

lemma if_not_Inl: "(b \<Longrightarrow> x \<noteq> Inl e) \<Longrightarrow> (\<not> b \<Longrightarrow> y \<noteq> Inl e) \<Longrightarrow> (if b then x else y) \<noteq> Inl e"
  by simp

lemma drop_split: "drop k xs = take n (drop k xs) @ drop (k + n) xs"
  by (metis append_take_drop_id drop_drop add.commute)


lemma case_Inr_ex: "(case m of Inl _ \<Rightarrow> False | Inr p \<Rightarrow> P p) \<Longrightarrow> \<exists>p. m = Inr p \<and> P p"
  by (cases m) auto

section \<open>Event systems\<close>

text \<open>Executions of a component whose state changes by events: each event has a guard and an effect.  The
  locale gives every execution the invariant that the single events keep.\<close>

inductive steps :: "('e \<Rightarrow> 's \<Rightarrow> bool) \<Rightarrow> ('e \<Rightarrow> 's \<Rightarrow> 's) \<Rightarrow> 's \<Rightarrow> 's \<Rightarrow> bool"
  for guard :: "'e \<Rightarrow> 's \<Rightarrow> bool" and eff :: "'e \<Rightarrow> 's \<Rightarrow> 's" where
  steps_refl: "steps guard eff s s"
| steps_event: "steps guard eff s t \<Longrightarrow> guard e t \<Longrightarrow> steps guard eff s (eff e t)"

text \<open>A list of events whose guards hold one after the other.\<close>

fun run_ok :: "('e \<Rightarrow> 's \<Rightarrow> bool) \<Rightarrow> ('e \<Rightarrow> 's \<Rightarrow> 's) \<Rightarrow> 'e list \<Rightarrow> 's \<Rightarrow> bool" where
  "run_ok guard eff [] s \<longleftrightarrow> True"
| "run_ok guard eff (e # es) s \<longleftrightarrow> guard e s \<and> run_ok guard eff es (eff e s)"

lemma steps_trans: "steps guard eff t u \<Longrightarrow> steps guard eff s t \<Longrightarrow> steps guard eff s u"
  by (induction rule: steps.induct) (auto intro: steps_event)

lemma steps_run: "run_ok guard eff es s \<Longrightarrow> steps guard eff s (fold eff es s)"
  by (induction es arbitrary: s) (auto intro: steps_refl steps_trans [OF _ steps_event [OF steps_refl]])

locale event_system =
  fixes guard :: "'e \<Rightarrow> 's \<Rightarrow> bool" and eff :: "'e \<Rightarrow> 's \<Rightarrow> 's" and init :: 's and good :: "'s \<Rightarrow> bool"
  assumes good_init: "good init"
    and good_event: "good s \<Longrightarrow> guard e s \<Longrightarrow> good (eff e s)"
begin

lemma good_steps: "steps guard eff s t \<Longrightarrow> good s \<Longrightarrow> good t"
  by (induction rule: steps.induct) (auto intro: good_event)

lemma good_reached: "steps guard eff init t \<Longrightarrow> good t"
  using good_steps good_init by blast

lemma stable_steps:
  assumes "steps guard eff s t" "good s" "P s" "\<And>e u. good u \<Longrightarrow> guard e u \<Longrightarrow> P u \<Longrightarrow> P (eff e u)"
  shows "P t"
proof -
  from assms(1,2,3) have "good t \<and> P t"
    by (induction rule: steps.induct) (auto intro: good_event assms(4))
  then show ?thesis ..
qed

end

end
