(* ===== verification/Udp_Proxy.thy ===== *)
theory Udp_Proxy
  imports Prelude
begin

text \<open>
  The UDP proxy of the server: the goroutines that \<^verbatim>\<open>UDPProxy.Run\<close> of \<^verbatim>\<open>server/proxy/udp.go\<close> starts, \<^verbatim>\<open>Close\<close>, and the
  forwarder of \<^verbatim>\<open>pkg/proto/udp/udp.go\<close>.  The forwarder puts the datagrams of users into \<^verbatim>\<open>sendCh\<close>; the dispatcher obtains one work
  connection after the other and runs a sender and a reader on it; a datagram that could not be sent on one connection is
  handed to the next.  \<^verbatim>\<open>Close\<close> may be called by the control and is called by the forwarder when its socket fails.

  Each select, channel operation and read or write of a connection is a step of its goroutine; steps interleave freely.  The
  lists \<open>offered\<close>, \<open>sent\<close>, \<open>arrived\<close> and \<open>toUser\<close> record what happened and are not read by the program.  Packets are of any type;
  \<open>encodes\<close> says which of them the message codec can write.  The request for a work connection is the one of
  \<^verbatim>\<open>Conn_Request\<close>; here it yields a connection, an error, or is given up on shutdown.  Cancelling the sender and closing the connection, which
  the dispatcher does one after the other, are one step, as are the end of a worker and its two \<^verbatim>\<open>Done\<close> calls.
\<close>

section \<open>State\<close>

text \<open>The dispatcher: before the first connection, at the top of the loop, waiting for a work connection, after a failed request,
  preparing a connection, serving it, waiting for its two workers (shutting down or not), returned.\<close>

datatype dispatcher_pc = DSleep | DTop | DRequest | DBackoff | DPrepare nat | DServe nat | DJoin nat bool | DEnd

datatype 'p connSender_pc = SNone | SWant | SCheck 'p | SWrite 'p | SEnd "'p option"

datatype 'p connReader_pc = RNone | RRead | RDeliver 'p | RSignal | REnd

text \<open>The forwarder's reading side and its writer goroutine.\<close>

datatype fwd_pc = FRead | FStop | FSocket | FJoin | FEnd

datatype 'p writer_pc = WTake | WHold 'p | WWrite 'p | WEnd

text \<open>A caller of \<^verbatim>\<open>Close\<close>: the first one runs the body of \<^verbatim>\<open>shutdownOnce\<close>, the others wait for it.\<close>

datatype closer_pc = CNone | CEnter | CShut "nat option" | CWait | CRelease | CEnd

datatype once = NotRun | RunningOnce nat | HasRun

record 'p udpProxy =
  sendCh :: "'p list"
  readCh :: "'p list"
  reconnectCh :: bool
  doneCh :: bool
  isClosed :: bool
  workConn :: "nat option"
  nextConn :: nat
  openConns :: "nat set"
  udpOpen :: bool
  stopWriter :: bool
  pendingPacket :: "'p option"
  canceled :: bool
  disp :: dispatcher_pc
  sender :: "'p connSender_pc"
  reader :: "'p connReader_pc"
  fwd :: fwd_pc
  writer :: "'p writer_pc"
  closers :: "nat \<Rightarrow> closer_pc"
  shutdownOnce :: once
  workers :: nat
  releaseOnce :: bool
  releases :: nat
  offered :: "'p list"
  sent :: "'p list"
  arrived :: "'p list"
  toUser :: "'p list"

definition udpChanCap :: nat where "udpChanCap = 1024"

text \<open>The state after \<^verbatim>\<open>Run\<close>: caller 0 of \<^verbatim>\<open>Close\<close> is the control, caller 1 the forwarder.\<close>

definition udpRun :: "'p udpProxy" where
  "udpRun = \<lparr>sendCh = [], readCh = [], reconnectCh = False, doneCh = False, isClosed = False, workConn = None, nextConn = 0, openConns = {},
     udpOpen = True, stopWriter = False, pendingPacket = None, canceled = False, disp = DSleep, sender = SNone, reader = RNone, fwd = FRead,
     writer = WTake, closers = (\<lambda>_. CNone), shutdownOnce = NotRun, workers = 2, releaseOnce = False, releases = 0, offered = [], sent = [], arrived = [],
     toUser = []\<rparr>"

section \<open>Steps\<close>

datatype 'p uevent =
    UUser 'p                    \<comment> \<open>a user's datagram arrives\<close>
  | UUserErr                    \<comment> \<open>reading the socket fails\<close>
  | UStop                       \<comment> \<open>the forwarder closes stopWriter\<close>
  | USocket                     \<comment> \<open>the forwarder closes the socket\<close>
  | UJoin                       \<comment> \<open>the writer has ended: the forwarder is done and calls Close\<close>
  | UWTake | UWStop | UWCheck | UWWrite
  | UWake | UTop | UGot | UNoConn | URetry | UNoCipher | UNoCodec | UPublish | UReconnect | UDone | UJoined
  | USTake | USCancel | USCheck | USWrite | USFail
  | URead 'p | UPing | UReadErr | UDeliver | USignal | ULeave
  | UClose nat | UEnter nat | UShut nat | UFollow nat | UWait nat | URelease nat

text \<open>
  Closing a wrapped work connection.  With a bandwidth limiter the wrapper's close function is \<^verbatim>\<open>func() error { return rwc.Close() }\<close>
  where \<^verbatim>\<open>rwc\<close> is the variable that holds the wrapper itself, so the close function calls the wrapper again and never the
  connection below; \<open>limited\<close> says that a limiter is set.
\<close>

definition closeWorkConn :: "bool \<Rightarrow> nat \<Rightarrow> 'p udpProxy \<Rightarrow> 'p udpProxy" where
  "closeWorkConn limited c s = (if limited then s else s\<lparr>openConns := openConns s - {c}\<rparr>)"

fun connOf :: "dispatcher_pc \<Rightarrow> nat option" where
  "connOf (DServe c) = Some c"
| "connOf (DJoin c b) = Some c"
| "connOf _ = None"

definition closePayload :: "bool \<Rightarrow> 'p udpProxy \<Rightarrow> 'p udpProxy" where
  "closePayload limited s = (case connOf (disp s) of None \<Rightarrow> s | Some c \<Rightarrow> closeWorkConn limited c s)"

definition connUp :: "'p udpProxy \<Rightarrow> bool" where
  "connUp s \<longleftrightarrow> (case connOf (disp s) of None \<Rightarrow> False | Some c \<Rightarrow> c \<in> openConns s)"

text \<open>The forwarder.  A datagram that finds \<^verbatim>\<open>sendCh\<close> full is dropped.\<close>

definition forwardUser :: "'p \<Rightarrow> 'p udpProxy \<Rightarrow> 'p udpProxy" where
  "forwardUser p s = (if length (sendCh s) < udpChanCap then s\<lparr>sendCh := sendCh s @ [p], offered := offered s @ [p]\<rparr> else s)"

definition forwardEnd :: "'p udpProxy \<Rightarrow> 'p udpProxy" where
  "forwardEnd s = s\<lparr>fwd := FEnd, workers := workers s - 1, closers := (closers s)(1 := CEnter)\<rparr>"

definition forwardWrite :: "'p udpProxy \<Rightarrow> 'p udpProxy" where
  "forwardWrite s = (case writer s of
     WWrite p \<Rightarrow> s\<lparr>writer := WTake, toUser := (if udpOpen s then toUser s @ [p] else toUser s)\<rparr>
   | _ \<Rightarrow> s)"

text \<open>The dispatcher.\<close>

definition dispEnd :: "'p udpProxy \<Rightarrow> 'p udpProxy" where
  "dispEnd s = s\<lparr>disp := DEnd, workers := workers s - 1\<rparr>"

definition dispTop :: "'p udpProxy \<Rightarrow> 'p udpProxy" where
  "dispTop s = (if doneCh s then dispEnd s else s\<lparr>disp := DRequest\<rparr>)"

text \<open>\<^verbatim>\<open>wait\<close> prefers shutdown when both are ready, and then closes the connection it received.\<close>

definition dispGot :: "'p udpProxy \<Rightarrow> 'p udpProxy" where
  "dispGot s = (if doneCh s then dispEnd s
     else s\<lparr>disp := DPrepare (nextConn s), openConns := insert (nextConn s) (openConns s), nextConn := Suc (nextConn s)\<rparr>)"

definition replaceWorkConn :: "bool \<Rightarrow> nat \<Rightarrow> 'p udpProxy \<Rightarrow> bool \<times> 'p udpProxy" where
  "replaceWorkConn limited c s =
     (if isClosed s then (False, closeWorkConn limited c s)
      else (True, case workConn s of
         None \<Rightarrow> s\<lparr>workConn := Some c\<rparr>
       | Some old \<Rightarrow> closeWorkConn limited old (s\<lparr>workConn := Some c\<rparr>)))"

definition startConnWorkers :: "nat \<Rightarrow> 'p udpProxy \<Rightarrow> 'p udpProxy" where
  "startConnWorkers c s = s\<lparr>disp := DServe c, reader := RRead,
     sender := (case pendingPacket s of None \<Rightarrow> SWant | Some p \<Rightarrow> SCheck p),
     pendingPacket := None, canceled := False, workers := workers s + 2\<rparr>"

definition dispPublish :: "bool \<Rightarrow> nat \<Rightarrow> 'p udpProxy \<Rightarrow> 'p udpProxy" where
  "dispPublish limited c s =
     (case replaceWorkConn limited c s of (ok, s') \<Rightarrow> if ok then startConnWorkers c s' else dispEnd s')"

definition dispCancel :: "bool \<Rightarrow> nat \<Rightarrow> bool \<Rightarrow> 'p udpProxy \<Rightarrow> 'p udpProxy" where
  "dispCancel limited c down s = closeWorkConn limited c (s\<lparr>canceled := True, disp := DJoin c down\<rparr>)"

definition dispJoined :: "bool \<Rightarrow> 'p udpProxy \<Rightarrow> 'p udpProxy" where
  "dispJoined down s =
     (let s = s\<lparr>pendingPacket := (case sender s of SEnd r \<Rightarrow> r | _ \<Rightarrow> None), sender := SNone, reader := RNone\<rparr>
      in if down then dispEnd s else s\<lparr>disp := DTop\<rparr>)"

text \<open>The sender of a work connection.\<close>

definition senderReturn :: "'p option \<Rightarrow> 'p udpProxy \<Rightarrow> 'p udpProxy" where
  "senderReturn r s = s\<lparr>sender := SEnd r, workers := workers s - 1\<rparr>"

definition connSenderCheck :: "'p \<Rightarrow> 'p udpProxy \<Rightarrow> 'p udpProxy" where
  "connSenderCheck p s = (if canceled s \<or> doneCh s then senderReturn (Some p) s else s\<lparr>sender := SWrite p\<rparr>)"

text \<open>The reader.\<close>

definition readerReturn :: "'p udpProxy \<Rightarrow> 'p udpProxy" where
  "readerReturn s = s\<lparr>reader := REnd, workers := workers s - 1\<rparr>"

definition deliverWorkConnPacket :: "'p \<Rightarrow> 'p udpProxy \<Rightarrow> 'p udpProxy" where
  "deliverWorkConnPacket p s = s\<lparr>reader := RRead, readCh := readCh s @ [p], arrived := arrived s @ [p]\<rparr>"

text \<open>\<^verbatim>\<open>Close\<close>: the two halves of \<^verbatim>\<open>initiateShutdown\<close>, under the mutex and after it, and the release of the port.\<close>

definition initiateShutdown :: "nat \<Rightarrow> 'p udpProxy \<Rightarrow> 'p udpProxy" where
  "initiateShutdown k s = s\<lparr>shutdownOnce := RunningOnce k, isClosed := True, doneCh := True,
     closers := (closers s)(k := CShut (workConn s)), workConn := None\<rparr>"

definition closeConns :: "bool \<Rightarrow> nat \<Rightarrow> 'p udpProxy \<Rightarrow> 'p udpProxy" where
  "closeConns limited k s =
     (let s' = (case closers s k of CShut (Some c) \<Rightarrow> closeWorkConn limited c s | _ \<Rightarrow> s)
      in s'\<lparr>udpOpen := False, shutdownOnce := HasRun, closers := (closers s')(k := CWait)\<rparr>)"

definition releaseUDPPort :: "nat \<Rightarrow> 'p udpProxy \<Rightarrow> 'p udpProxy" where
  "releaseUDPPort k s = s\<lparr>closers := (closers s)(k := CEnd), releaseOnce := True,
     releases := (if releaseOnce s then releases s else Suc (releases s))\<rparr>"

text \<open>When a step is possible.  A read or write of a closed connection only fails; so does a read of the closed socket.\<close>

fun uguard :: "('p \<Rightarrow> bool) \<Rightarrow> 'p uevent \<Rightarrow> 'p udpProxy \<Rightarrow> bool" where
  "uguard encodes (UUser p) s \<longleftrightarrow> fwd s = FRead \<and> udpOpen s"
| "uguard encodes UUserErr s \<longleftrightarrow> fwd s = FRead"
| "uguard encodes UStop s \<longleftrightarrow> fwd s = FStop"
| "uguard encodes USocket s \<longleftrightarrow> fwd s = FSocket"
| "uguard encodes UJoin s \<longleftrightarrow> fwd s = FJoin \<and> writer s = WEnd"
| "uguard encodes UWTake s \<longleftrightarrow> writer s = WTake \<and> readCh s \<noteq> []"
| "uguard encodes UWStop s \<longleftrightarrow> stopWriter s \<and> (case writer s of WTake \<Rightarrow> True | WHold p \<Rightarrow> True | _ \<Rightarrow> False)"
| "uguard encodes UWCheck s \<longleftrightarrow> \<not> stopWriter s \<and> (case writer s of WHold p \<Rightarrow> True | _ \<Rightarrow> False)"
| "uguard encodes UWWrite s \<longleftrightarrow> (case writer s of WWrite p \<Rightarrow> True | _ \<Rightarrow> False)"
| "uguard encodes UWake s \<longleftrightarrow> disp s = DSleep"
| "uguard encodes UTop s \<longleftrightarrow> disp s = DTop"
| "uguard encodes UGot s \<longleftrightarrow> disp s = DRequest"
| "uguard encodes UNoConn s \<longleftrightarrow> disp s = DRequest"
| "uguard encodes URetry s \<longleftrightarrow> disp s = DBackoff"
| "uguard encodes UNoCipher s \<longleftrightarrow> (case disp s of DPrepare c \<Rightarrow> True | _ \<Rightarrow> False)"
| "uguard encodes UNoCodec s \<longleftrightarrow> (case disp s of DPrepare c \<Rightarrow> True | _ \<Rightarrow> False)"
| "uguard encodes UPublish s \<longleftrightarrow> (case disp s of DPrepare c \<Rightarrow> True | _ \<Rightarrow> False)"
| "uguard encodes UReconnect s \<longleftrightarrow> reconnectCh s \<and> (case disp s of DServe c \<Rightarrow> True | _ \<Rightarrow> False)"
| "uguard encodes UDone s \<longleftrightarrow> doneCh s \<and>
     (case disp s of DSleep \<Rightarrow> True | DRequest \<Rightarrow> True | DBackoff \<Rightarrow> True | DServe c \<Rightarrow> True | _ \<Rightarrow> False)"
| "uguard encodes UJoined s \<longleftrightarrow> (case disp s of DJoin c b \<Rightarrow> True | _ \<Rightarrow> False) \<and>
     (case sender s of SEnd r \<Rightarrow> True | _ \<Rightarrow> False) \<and> reader s = REnd"
| "uguard encodes USTake s \<longleftrightarrow> sender s = SWant \<and> sendCh s \<noteq> []"
| "uguard encodes USCancel s \<longleftrightarrow> sender s = SWant \<and> (canceled s \<or> doneCh s)"
| "uguard encodes USCheck s \<longleftrightarrow> (case sender s of SCheck p \<Rightarrow> True | _ \<Rightarrow> False)"
| "uguard encodes USWrite s \<longleftrightarrow> (case sender s of SWrite p \<Rightarrow> encodes p | _ \<Rightarrow> False) \<and> connUp s"
| "uguard encodes USFail s \<longleftrightarrow> (case sender s of SWrite p \<Rightarrow> True | _ \<Rightarrow> False)"
| "uguard encodes (URead p) s \<longleftrightarrow> reader s = RRead \<and> connUp s"
| "uguard encodes UPing s \<longleftrightarrow> reader s = RRead \<and> connUp s"
| "uguard encodes UReadErr s \<longleftrightarrow> reader s = RRead"
| "uguard encodes UDeliver s \<longleftrightarrow> (case reader s of RDeliver p \<Rightarrow> True | _ \<Rightarrow> False) \<and> length (readCh s) < udpChanCap"
| "uguard encodes USignal s \<longleftrightarrow> reader s = RSignal \<and> \<not> reconnectCh s"
| "uguard encodes ULeave s \<longleftrightarrow> doneCh s \<and> (case reader s of RDeliver p \<Rightarrow> True | RSignal \<Rightarrow> True | _ \<Rightarrow> False)"
| "uguard encodes (UClose k) s \<longleftrightarrow> k \<noteq> 1 \<and> closers s k = CNone"
| "uguard encodes (UEnter k) s \<longleftrightarrow> closers s k = CEnter \<and> shutdownOnce s = NotRun"
| "uguard encodes (UShut k) s \<longleftrightarrow> (case closers s k of CShut c \<Rightarrow> True | _ \<Rightarrow> False)"
| "uguard encodes (UFollow k) s \<longleftrightarrow> closers s k = CEnter \<and> shutdownOnce s = HasRun"
| "uguard encodes (UWait k) s \<longleftrightarrow> closers s k = CWait \<and> workers s = 0"
| "uguard encodes (URelease k) s \<longleftrightarrow> closers s k = CRelease"

fun uhappen :: "bool \<Rightarrow> 'p uevent \<Rightarrow> 'p udpProxy \<Rightarrow> 'p udpProxy" where
  "uhappen limited (UUser p) s = forwardUser p s"
| "uhappen limited UUserErr s = s\<lparr>fwd := FStop\<rparr>"
| "uhappen limited UStop s = s\<lparr>fwd := FSocket, stopWriter := True\<rparr>"
| "uhappen limited USocket s = s\<lparr>fwd := FJoin, udpOpen := False\<rparr>"
| "uhappen limited UJoin s = forwardEnd s"
| "uhappen limited UWTake s = s\<lparr>writer := WHold (hd (readCh s)), readCh := tl (readCh s)\<rparr>"
| "uhappen limited UWStop s = s\<lparr>writer := WEnd\<rparr>"
| "uhappen limited UWCheck s = (case writer s of WHold p \<Rightarrow> s\<lparr>writer := WWrite p\<rparr> | _ \<Rightarrow> s)"
| "uhappen limited UWWrite s = forwardWrite s"
| "uhappen limited UWake s = s\<lparr>disp := DTop\<rparr>"
| "uhappen limited UTop s = dispTop s"
| "uhappen limited UGot s = dispGot s"
| "uhappen limited UNoConn s = (if doneCh s then dispEnd s else s\<lparr>disp := DBackoff\<rparr>)"
| "uhappen limited URetry s = s\<lparr>disp := DTop\<rparr>"
| "uhappen limited UNoCipher s = (case disp s of DPrepare c \<Rightarrow> closeWorkConn False c (s\<lparr>disp := DTop\<rparr>) | _ \<Rightarrow> s)"
| "uhappen limited UNoCodec s = (case disp s of DPrepare c \<Rightarrow> closeWorkConn limited c (s\<lparr>disp := DTop\<rparr>) | _ \<Rightarrow> s)"
| "uhappen limited UPublish s = (case disp s of DPrepare c \<Rightarrow> dispPublish limited c s | _ \<Rightarrow> s)"
| "uhappen limited UReconnect s = (case disp s of DServe c \<Rightarrow> dispCancel limited c False (s\<lparr>reconnectCh := False\<rparr>) | _ \<Rightarrow> s)"
| "uhappen limited UDone s = (case disp s of DServe c \<Rightarrow> dispCancel limited c True s | _ \<Rightarrow> dispEnd s)"
| "uhappen limited UJoined s = (case disp s of DJoin c b \<Rightarrow> dispJoined b s | _ \<Rightarrow> s)"
| "uhappen limited USTake s = s\<lparr>sender := SCheck (hd (sendCh s)), sendCh := tl (sendCh s)\<rparr>"
| "uhappen limited USCancel s = senderReturn None s"
| "uhappen limited USCheck s = (case sender s of SCheck p \<Rightarrow> connSenderCheck p s | _ \<Rightarrow> s)"
| "uhappen limited USWrite s = (case sender s of SWrite p \<Rightarrow> s\<lparr>sender := SWant, sent := sent s @ [p]\<rparr> | _ \<Rightarrow> s)"
| "uhappen limited USFail s = (case sender s of SWrite p \<Rightarrow> senderReturn (Some p) (closePayload limited s) | _ \<Rightarrow> s)"
| "uhappen limited (URead p) s = s\<lparr>reader := RDeliver p\<rparr>"
| "uhappen limited UPing s = s"
| "uhappen limited UReadErr s = (closePayload limited s)\<lparr>reader := RSignal\<rparr>"
| "uhappen limited UDeliver s = (case reader s of RDeliver p \<Rightarrow> deliverWorkConnPacket p s | _ \<Rightarrow> s)"
| "uhappen limited USignal s = readerReturn (s\<lparr>reconnectCh := True\<rparr>)"
| "uhappen limited ULeave s = readerReturn (case reader s of RDeliver p \<Rightarrow> closePayload limited s | _ \<Rightarrow> s)"
| "uhappen limited (UClose k) s = s\<lparr>closers := (closers s)(k := CEnter)\<rparr>"
| "uhappen limited (UEnter k) s = initiateShutdown k s"
| "uhappen limited (UShut k) s = closeConns limited k s"
| "uhappen limited (UFollow k) s = s\<lparr>closers := (closers s)(k := CWait)\<rparr>"
| "uhappen limited (UWait k) s = s\<lparr>closers := (closers s)(k := CRelease)\<rparr>"
| "uhappen limited (URelease k) s = releaseUDPPort k s"

section \<open>Invariants\<close>

fun held :: "'p connSender_pc \<Rightarrow> 'p list" where
  "held (SCheck p) = [p]"
| "held (SWrite p) = [p]"
| "held (SEnd (Some p)) = [p]"
| "held _ = []"

definition heldPending :: "'p option \<Rightarrow> 'p list" where
  "heldPending r = (case r of None \<Rightarrow> [] | Some p \<Rightarrow> [p])"

fun heldReply :: "'p writer_pc \<Rightarrow> 'p list" where
  "heldReply (WHold p) = [p]"
| "heldReply (WWrite p) = [p]"
| "heldReply _ = []"

text \<open>The workers of a connection exist exactly while the dispatcher serves or joins it.\<close>

definition shapeI :: "'p udpProxy \<Rightarrow> bool" where
  "shapeI s \<longleftrightarrow> (sender s = SNone \<longleftrightarrow> connOf (disp s) = None) \<and> (reader s = RNone \<longleftrightarrow> connOf (disp s) = None) \<and>
     (connOf (disp s) \<noteq> None \<longrightarrow> pendingPacket s = None)"

definition queueI :: "('p \<Rightarrow> bool) \<Rightarrow> 'p udpProxy \<Rightarrow> bool" where
  "queueI encodes s \<longleftrightarrow> offered s = sent s @ held (sender s) @ heldPending (pendingPacket s) @ sendCh s \<and> (\<forall>p\<in>set (sent s). encodes p)"

definition replyI :: "'p udpProxy \<Rightarrow> bool" where
  "replyI s \<longleftrightarrow> (\<exists>lost. arrived s = toUser s @ lost @ heldReply (writer s) @ readCh s \<and> (udpOpen s \<and> writer s \<noteq> WEnd \<longrightarrow> lost = []))"

definition busy :: "bool \<Rightarrow> nat" where "busy b = (if b then 1 else 0)"

fun sending :: "'p connSender_pc \<Rightarrow> bool" where
  "sending SNone = False"
| "sending (SEnd r) = False"
| "sending _ = True"

fun reading :: "'p connReader_pc \<Rightarrow> bool" where
  "reading RNone = False"
| "reading REnd = False"
| "reading _ = True"

fun serving :: "dispatcher_pc \<Rightarrow> bool" where
  "serving (DServe c) = True"
| "serving _ = False"

fun joining :: "dispatcher_pc \<Rightarrow> bool" where
  "joining (DJoin c b) = True"
| "joining _ = False"

definition workersI :: "'p udpProxy \<Rightarrow> bool" where
  "workersI s \<longleftrightarrow> workers s = busy (disp s \<noteq> DEnd) + busy (fwd s \<noteq> FEnd) + busy (sending (sender s)) + busy (reading (reader s))"

text \<open>The reconnect token: set by the reader when it ends, consumed once by the dispatcher.\<close>

definition tokenI :: "'p udpProxy \<Rightarrow> bool" where
  "tokenI s \<longleftrightarrow> doneCh s \<or>
     (reconnectCh s \<longrightarrow> reader s = REnd \<and> serving (disp s)) \<and> (reader s = REnd \<longrightarrow> reconnectCh s \<or> joining (disp s)) \<and>
     (joining (disp s) \<longrightarrow> reader s = REnd)"

definition forwardI :: "'p udpProxy \<Rightarrow> bool" where
  "forwardI s \<longleftrightarrow> (fwd s \<in> {FSocket, FJoin, FEnd} \<longrightarrow> stopWriter s) \<and> (fwd s \<in> {FJoin, FEnd} \<longrightarrow> \<not> udpOpen s) \<and>
     (fwd s = FEnd \<longrightarrow> writer s = WEnd) \<and> (fwd s = FEnd \<longleftrightarrow> closers s 1 \<noteq> CNone)"

fun shutting :: "closer_pc \<Rightarrow> bool" where
  "shutting (CShut c) = True"
| "shutting _ = False"

definition onceI :: "'p udpProxy \<Rightarrow> bool" where
  "onceI s \<longleftrightarrow> (isClosed s \<longleftrightarrow> doneCh s) \<and> (doneCh s \<longleftrightarrow> shutdownOnce s \<noteq> NotRun) \<and>
     (\<forall>k. shutdownOnce s = RunningOnce k \<longleftrightarrow> shutting (closers s k)) \<and>
     (shutdownOnce s = HasRun \<longrightarrow> \<not> udpOpen s) \<and> (doneCh s \<longrightarrow> workConn s = None) \<and>
     (\<forall>k. closers s k \<in> {CWait, CRelease, CEnd} \<longrightarrow> shutdownOnce s = HasRun)"

definition releaseI :: "'p udpProxy \<Rightarrow> bool" where
  "releaseI s \<longleftrightarrow> (\<forall>k. closers s k \<in> {CRelease, CEnd} \<longrightarrow> workers s = 0) \<and> (\<forall>k. closers s k = CEnd \<longrightarrow> releaseOnce s) \<and>
     releases s = busy (releaseOnce s) \<and> (releaseOnce s \<longrightarrow> workers s = 0)"

definition captured :: "(nat \<Rightarrow> closer_pc) \<Rightarrow> nat set" where
  "captured f = {c. \<exists>k. f k = CShut (Some c)}"

definition connI :: "'p udpProxy \<Rightarrow> bool" where
  "connI s \<longleftrightarrow> (\<forall>c\<in>openConns s. c < nextConn s \<and> (disp s = DPrepare c \<or> workConn s = Some c \<or> c \<in> captured (closers s)))"

lemmas udp_defs = forwardUser_def forwardEnd_def forwardWrite_def dispEnd_def dispTop_def dispGot_def replaceWorkConn_def
  startConnWorkers_def dispPublish_def dispCancel_def dispJoined_def senderReturn_def connSenderCheck_def readerReturn_def
  deliverWorkConnPacket_def initiateShutdown_def closeConns_def releaseUDPPort_def closePayload_def closeWorkConn_def

lemmas pc_splits = dispatcher_pc.splits connSender_pc.splits connReader_pc.splits writer_pc.splits closer_pc.splits option.splits

lemma shape_step: "uguard encodes e s \<Longrightarrow> shapeI s \<Longrightarrow> shapeI (uhappen limited e s)"
  by (cases e) (auto simp: shapeI_def udp_defs Let_def split: pc_splits if_splits)

lemma queue_step: "uguard encodes e s \<Longrightarrow> shapeI s \<Longrightarrow> queueI encodes s \<Longrightarrow> queueI encodes (uhappen limited e s)"
  by (cases e) (auto simp: shapeI_def queueI_def udp_defs heldPending_def Let_def neq_Nil_conv split: pc_splits if_splits)

lemma udp_pcs:
  "connOf d = None \<longleftrightarrow> \<not> serving d \<and> \<not> joining d"
  by (cases d) auto

lemma workers_step: "uguard encodes e s \<Longrightarrow> shapeI s \<Longrightarrow> workersI s \<Longrightarrow> workersI (uhappen limited e s)"
  by (cases e) (simp_all add: shapeI_def workersI_def busy_def udp_defs Let_def split: pc_splits)

lemma reply_step: "uguard encodes e s \<Longrightarrow> replyI s \<Longrightarrow> replyI (uhappen limited e s)"
  by (cases e) (auto simp: replyI_def udp_defs Let_def neq_Nil_conv split: pc_splits)

lemma token_step: "uguard encodes e s \<Longrightarrow> shapeI s \<Longrightarrow> tokenI s \<Longrightarrow> tokenI (uhappen limited e s)"
  by (cases e) (auto simp: shapeI_def tokenI_def udp_pcs udp_defs Let_def split: pc_splits)

lemma forward_step: "uguard encodes e s \<Longrightarrow> forwardI s \<Longrightarrow> forwardI (uhappen limited e s)"
  by (cases e) (auto simp: forwardI_def udp_defs Let_def split: pc_splits)

text \<open>Steps other than those of the callers of \<^verbatim>\<open>Close\<close> leave their state alone.\<close>

fun byCaller :: "'p uevent \<Rightarrow> bool" where
  "byCaller UJoin = True"
| "byCaller (UClose k) = True"
| "byCaller (UEnter k) = True"
| "byCaller (UShut k) = True"
| "byCaller (UFollow k) = True"
| "byCaller (UWait k) = True"
| "byCaller (URelease k) = True"
| "byCaller _ = False"

lemma caller_frame:
  assumes "\<not> byCaller e"
  shows "closers (uhappen limited e s) = closers s" "isClosed (uhappen limited e s) = isClosed s" "doneCh (uhappen limited e s) = doneCh s"
    "shutdownOnce (uhappen limited e s) = shutdownOnce s" "releaseOnce (uhappen limited e s) = releaseOnce s"
    "releases (uhappen limited e s) = releases s"
  using assms by (cases e; simp add: udp_defs Let_def split: pc_splits)+

lemma workConn_frame: "\<not> byCaller e \<Longrightarrow> isClosed s \<Longrightarrow> workConn (uhappen limited e s) = workConn s"
  by (cases e) (simp_all add: udp_defs Let_def split: pc_splits)

lemma udpOpen_step: "\<not> udpOpen s \<Longrightarrow> \<not> udpOpen (uhappen limited e s)"
  by (cases e) (simp_all add: udp_defs Let_def split: pc_splits)

lemma shutting_iff: "shutting p \<longleftrightarrow> (\<exists>c. p = CShut c)"
  by (cases p) auto

lemma once_running: "onceI s \<Longrightarrow> closers s k = CShut c \<Longrightarrow> shutdownOnce s = RunningOnce k"
  by (auto simp: onceI_def shutting_iff)

lemma once_shut:
  assumes "onceI s" "closers s k = CShut c"
  shows "onceI (closeConns limited k s)"
proof -
  have sim: "closeConns limited k s = (closeConns limited k s)\<lparr>closers := (closers s)(k := CWait), shutdownOnce := HasRun, udpOpen := False\<rparr>"
    "isClosed (closeConns limited k s) = isClosed s" "doneCh (closeConns limited k s) = doneCh s" "workConn (closeConns limited k s) = workConn s"
    by (auto simp: udp_defs Let_def split: pc_splits)
  have "shutdownOnce s = RunningOnce k" using assms by (rule once_running)
  then show ?thesis
    using assms sim(2-4) by (subst sim(1)) (auto simp: onceI_def)
qed

lemma once_step:
  assumes "uguard encodes e s" "onceI s" "forwardI s"
  shows "onceI (uhappen limited e s)"
proof (cases "byCaller e")
  case False
  then show ?thesis
    using assms(2) caller_frame[OF False, of limited s] workConn_frame[OF False, of s limited] udpOpen_step[of s limited e]
    by (simp add: onceI_def)
next
  case True
  then show ?thesis
  proof (cases "\<exists>k. e = UShut k")
    case True
    then show ?thesis using assms by (auto intro: once_shut split: closer_pc.splits)
  next
    case False
    then show ?thesis
      using assms(1,2) assms(3)[unfolded forwardI_def] \<open>byCaller e\<close> by (cases e) (auto simp: onceI_def udp_defs Let_def split: pc_splits)
  qed
qed

text \<open>Once a caller has waited, no goroutine is left to add workers.\<close>

lemma workers_zero: "workersI s \<Longrightarrow> workers s = 0 \<longleftrightarrow> disp s = DEnd \<and> fwd s = FEnd \<and> \<not> sending (sender s) \<and> \<not> reading (reader s)"
  by (auto simp: workersI_def busy_def)

lemma workers_end:
  assumes "uguard encodes e s" "shapeI s" "workersI s" "workers s = 0"
  shows "workers (uhappen limited e s) = 0"
  using assms(1,2,4) assms(4)[unfolded workers_zero[OF assms(3)]]
  by (cases e) (auto simp: shapeI_def udp_pcs udp_defs Let_def split: pc_splits)

lemma release_step:
  assumes "uguard encodes e s" "forwardI s" "shapeI s" "workersI s" "releaseI s"
  shows "releaseI (uhappen limited e s)"
proof (cases "byCaller e")
  case False
  then show ?thesis
    using assms(5) caller_frame[OF False, of limited s] workers_end[OF assms(1,3,4), of limited]
    by (simp add: releaseI_def)
next
  case True
  then show ?thesis
    using assms(1,5) assms(2)[unfolded forwardI_def] workers_end[OF assms(1,3,4), of limited]
    by (cases e) (auto simp: releaseI_def busy_def udp_defs Let_def split: pc_splits if_splits)
qed

lemma captured_upd:
  "\<not> shutting (f k) \<Longrightarrow> captured (f(k := p)) = captured f \<union> (case p of CShut (Some c) \<Rightarrow> {c} | _ \<Rightarrow> {})"
  by (auto simp: captured_def shutting_iff split: closer_pc.splits option.splits if_splits)

lemma once_unique: "onceI s \<Longrightarrow> closers s k = CShut r \<Longrightarrow> closers s k' = CShut r' \<Longrightarrow> k' = k"
  using once_running[of s k r] once_running[of s k' r'] by simp

lemma captured_shut: "onceI s \<Longrightarrow> closers s k = CShut r \<Longrightarrow> captured (closers s) = set_option r"
  using once_unique by (cases r) (fastforce simp: captured_def)+

lemma conn_caller:
  assumes "uguard encodes e s" "byCaller e" "onceI s" "forwardI s" "connI s"
  shows "connI (uhappen False e s)"
proof (cases "\<exists>k. e = UShut k")
  case True
  then obtain k r where k: "e = UShut k" "closers s k = CShut r" using assms(1) by (auto split: closer_pc.splits)
  have "captured ((closers s)(k := CWait)) = {}"
    using once_unique[OF assms(3) k(2)] by (auto simp: captured_def)
  then show ?thesis
    using assms(5) k captured_shut[OF assms(3) k(2)] by (cases r) (auto simp: connI_def udp_defs Let_def)
next
  case False
  then show ?thesis
    using assms(1,2,5) assms(4)[unfolded forwardI_def]
    by (cases e) (auto simp: connI_def captured_upd udp_defs Let_def split: pc_splits)
qed

lemma conn_step:
  assumes "uguard encodes e s" "onceI s" "forwardI s" "connI s"
  shows "connI (uhappen False e s)"
proof (cases "byCaller e")
  case True then show ?thesis using assms conn_caller by blast
next
  case False
  then show ?thesis
    using assms(1,4) by (cases e) (auto simp: connI_def udp_defs Let_def split: pc_splits)
qed

definition uinv :: "('p \<Rightarrow> bool) \<Rightarrow> 'p udpProxy \<Rightarrow> bool" where
  "uinv encodes s \<longleftrightarrow> shapeI s \<and> queueI encodes s \<and> replyI s \<and> workersI s \<and> tokenI s \<and> forwardI s \<and> onceI s \<and> releaseI s"

lemma uinv_init: "uinv encodes udpRun"
  by (simp add: uinv_def udpRun_def shapeI_def queueI_def replyI_def workersI_def tokenI_def forwardI_def onceI_def releaseI_def heldPending_def busy_def)

lemma uinv_step: "uguard encodes e s \<Longrightarrow> uinv encodes s \<Longrightarrow> uinv encodes (uhappen limited e s)"
  by (simp add: uinv_def shape_step queue_step reply_step workers_step token_step forward_step once_step release_step)

interpretation udp: event_system "uguard encodes" "uhappen limited" udpRun "uinv encodes"
  for encodes limited
  by unfold_locales (auto intro: uinv_init uinv_step)

lemma connI_init: "connI udpRun"
  by (simp add: connI_def udpRun_def)

lemma conn_inv: "uguard encodes e s \<Longrightarrow> uinv encodes s \<Longrightarrow> connI s \<Longrightarrow> connI (uhappen False e s)"
  by (simp add: uinv_def conn_step)

interpretation unlimited: event_system "uguard encodes" "uhappen False" udpRun "\<lambda>s. uinv encodes s \<and> connI s"
  for encodes
  by unfold_locales (auto intro: uinv_init uinv_step connI_init conn_inv)

section \<open>Progress of a shutdown\<close>

text \<open>Steps that depend on the world outside: datagrams of users, messages of the client, failures of an open socket or connection, calls of
  \<^verbatim>\<open>Close\<close>.\<close>

fun uinput :: "'p udpProxy \<Rightarrow> 'p uevent \<Rightarrow> bool" where
  "uinput s (UUser p) = True"
| "uinput s (URead p) = True"
| "uinput s UPing = True"
| "uinput s (UClose k) = True"
| "uinput s UReadErr = connUp s"
| "uinput s UUserErr = udpOpen s"
| "uinput s _ = False"

fun rankD :: "dispatcher_pc \<Rightarrow> nat" where
  "rankD (DServe c) = 6"
| "rankD (DJoin c b) = 5"
| "rankD DSleep = 4"
| "rankD DBackoff = 4"
| "rankD (DPrepare c) = 4"
| "rankD DTop = 3"
| "rankD DRequest = 1"
| "rankD DEnd = 0"

fun rankF :: "fwd_pc \<Rightarrow> nat" where
  "rankF FRead = 13"
| "rankF FStop = 12"
| "rankF FSocket = 11"
| "rankF FJoin = 10"
| "rankF FEnd = 0"

fun rankS :: "'p connSender_pc \<Rightarrow> nat" where
  "rankS (SWrite p) = 3"
| "rankS SWant = 2"
| "rankS (SCheck p) = 1"
| "rankS _ = 0"

fun rankR :: "'p connReader_pc \<Rightarrow> nat" where
  "rankR (RDeliver p) = 8"
| "rankR RRead = 3"
| "rankR RSignal = 1"
| "rankR _ = 0"

fun rankW :: "'p writer_pc \<Rightarrow> nat" where
  "rankW (WHold p) = 3"
| "rankW (WWrite p) = 2"
| "rankW WTake = 1"
| "rankW WEnd = 0"

fun rankC :: "closer_pc \<Rightarrow> nat" where
  "rankC CEnter = 4"
| "rankC (CShut c) = 3"
| "rankC CWait = 2"
| "rankC CRelease = 1"
| "rankC _ = 0"

definition callRank :: "(nat \<Rightarrow> closer_pc) \<Rightarrow> nat" where
  "callRank f = (\<Sum>k\<in>{k. f k \<noteq> CNone}. rankC (f k))"

definition umeasure :: "'p udpProxy \<Rightarrow> nat" where
  "umeasure s = rankD (disp s) + rankF (fwd s) + rankS (sender s) + rankR (reader s) + rankW (writer s) + 4 * length (readCh s) +
     callRank (closers s)"

lemma callRank_upd:
  assumes "finite {k. f k \<noteq> CNone}" "p \<noteq> CNone"
  shows "callRank (f(k := p)) + rankC (f k) = callRank f + rankC p"
proof -
  define A where "A = {j. f j \<noteq> CNone} - {k}"
  have A: "finite A" "k \<notin> A" "{j. (f(k := p)) j \<noteq> CNone} = insert k A" using assms by (auto simp: A_def)
  have sums: "(\<Sum>j\<in>A. rankC ((f(k := p)) j)) = (\<Sum>j\<in>A. rankC (f j))" using A(2) by (intro sum.cong) auto
  have "callRank (f(k := p)) = rankC p + (\<Sum>j\<in>A. rankC (f j))"
    unfolding callRank_def A(3) sum.insert[OF A(1,2)] sums by simp
  moreover have "{j. f j \<noteq> CNone} = (if f k = CNone then A else insert k A)" by (auto simp: A_def)
  then have "callRank f = rankC (f k) + (\<Sum>j\<in>A. rankC (f j))"
    using A(1,2) by (auto simp: callRank_def)
  ultimately show ?thesis by simp
qed

definition finiteI :: "'p udpProxy \<Rightarrow> bool" where
  "finiteI s \<longleftrightarrow> finite {k. closers s k \<noteq> CNone}"

lemma finite_upd: "finite {k. f k \<noteq> CNone} \<Longrightarrow> finite {j. (f(k := p)) j \<noteq> CNone}"
  by (rule finite_subset[of _ "insert k {k. f k \<noteq> CNone}"]) auto

lemma finite_step: "finiteI s \<Longrightarrow> finiteI (uhappen limited e s)"
  by (cases e) (auto simp: finiteI_def udp_defs Let_def simp del: fun_upd_apply intro: finite_upd split: pc_splits)

interpretation callers: event_system "uguard encodes" "uhappen limited" udpRun finiteI
  for encodes limited
  by unfold_locales (simp_all add: finite_step, simp add: finiteI_def udpRun_def)

lemma measure_step:
  assumes "uguard encodes e s" "\<not> uinput s e" "uinv encodes s" "finiteI s" "doneCh s"
  shows "umeasure (uhappen limited e s) < umeasure s"
proof (cases "byCaller e")
  case False
  have "isClosed s" using assms(3,5) by (simp add: uinv_def onceI_def)
  moreover have "callRank (closers (uhappen limited e s)) = callRank (closers s)" by (simp add: caller_frame[OF False])
  ultimately show ?thesis
    using False assms(1,2,5)
    by (cases e) (auto simp: umeasure_def udp_defs Let_def neq_Nil_conv split: pc_splits)
next
  case True
  have upd: "callRank ((closers s)(k := p)) + rankC (closers s k) = callRank (closers s) + rankC p" if "p \<noteq> CNone" for k p
    using assms(4) callRank_upd that by (simp add: finiteI_def)
  note defs = umeasure_def udp_defs Let_def
  show ?thesis
  proof (cases e)
    case UJoin
    then have "closers s 1 = CNone" using assms(1,3) by (simp add: uinv_def forwardI_def)
    then show ?thesis using UJoin assms(1) upd[of CEnter 1] by (simp add: defs)
  next
    case (UEnter k) then show ?thesis using assms(1) upd[of "CShut (workConn s)" k] by (simp add: defs)
  next
    case (UShut k) then show ?thesis using assms(1) upd[of CWait k] by (auto simp: defs split: closer_pc.splits option.splits)
  next
    case (UFollow k) then show ?thesis using assms(1) upd[of CWait k] by (simp add: defs)
  next
    case (UWait k) then show ?thesis using assms(1) upd[of CRelease k] by (simp add: defs)
  next
    case (URelease k) then show ?thesis using assms(1) upd[of CEnd k] by (simp add: defs)
  qed (use True assms(2) in auto)
qed

lemma quiet_end:
  assumes stuck: "\<And>e. uguard encodes e s \<Longrightarrow> uinput s e" and inv: "uinv encodes s" "connI s" and down: "doneCh s"
  shows "disp s = DEnd \<and> fwd s = FEnd \<and> writer s = WEnd \<and> sender s = SNone \<and> reader s = RNone \<and> (\<forall>k. closers s k \<in> {CNone, CEnd})"
proof -
  have once: "onceI s" and forward: "forwardI s" and shape: "shapeI s" and work: "workersI s" using inv by (simp_all add: uinv_def)
  have no: "\<not> uguard encodes e s" if "\<not> uinput s e" for e using stuck that by blast
  have run: "shutdownOnce s = HasRun"
  proof (cases "shutdownOnce s")
    case (RunningOnce k)
    then obtain c where "closers s k = CShut c" using once by (auto simp: onceI_def shutting_iff)
    then show ?thesis using no[of "UShut k"] by simp
  qed (use once down in \<open>auto simp: onceI_def\<close>)
  then have closed: "\<not> udpOpen s" "workConn s = None" "\<And>k. \<not> shutting (closers s k)" using once down by (auto simp: onceI_def)
  have prep: "disp s \<noteq> DPrepare c" for c using no[of UPublish] by auto
  then have "openConns s = {}" using inv(2) closed by (auto simp: connI_def captured_def shutting_iff)
  then have "\<not> connUp s" by (auto simp: connUp_def split: option.splits)
  then have reader: "\<not> reading (reader s)"
    using no[of UReadErr] no[of ULeave] down by (cases "reader s") auto
  have sender: "\<not> sending (sender s)"
    using no[of USCancel] no[of USCheck] no[of USFail] down by (cases "sender s") auto
  have disp: "disp s = DEnd"
  proof (cases "disp s")
    case (DJoin c b)
    then have "sender s \<noteq> SNone" "reader s \<noteq> RNone" using shape by (auto simp: shapeI_def)
    then show ?thesis using DJoin reader sender no[of UJoined] by (cases "sender s"; cases "reader s") auto
  qed (use no[of UWake] no[of UTop] no[of UDone] prep down in auto)
  have writer: "writer s \<noteq> WEnd \<Longrightarrow> stopWriter s \<Longrightarrow> False"
    using no[of UWStop] no[of UWWrite] by (cases "writer s") auto
  have fwd: "fwd s = FEnd"
    using no[of UUserErr] no[of UStop] no[of USocket] no[of UJoin] closed(1) forward writer by (cases "fwd s") (auto simp: forwardI_def)
  have "workers s = 0" using workers_zero[OF work] disp fwd sender reader by simp
  then have "closers s k \<in> {CNone, CEnd}" for k
    using no[of "UFollow k"] no[of "UWait k"] no[of "URelease k"] run closed(3)[of k] by (cases "closers s k") auto
  then show ?thesis
    using disp fwd forward shape by (auto simp: forwardI_def shapeI_def)
qed

section \<open>Properties\<close>


text \<open>A run in which the first connection fails while a datagram is being written, and the next one carries it.\<close>

definition reconnectRun :: "nat uevent list" where
  "reconnectRun = [UWake, UTop, UUser 1, UUser 2, UGot, UPublish, USTake, USCheck, USFail, UReadErr, USignal, UReconnect, UJoined,
     UTop, UGot, UPublish, UUser 3, USCheck, USWrite, USTake, USCheck, USWrite, URead 7, UDeliver, UWTake, UWCheck, UWWrite]"


definition proxyEnded :: "'p udpProxy \<Rightarrow> bool" where
  "proxyEnded s \<longleftrightarrow> disp s = DEnd \<and> fwd s = FEnd \<and> writer s = WEnd \<and> sender s = SNone \<and> reader s = RNone"

lemma closed_ended:
  assumes "uinv encodes s" "closers s k = CEnd"
  shows "proxyEnded s \<and> \<not> udpOpen s \<and> releases s = 1"
proof -
  have *: "workers s = 0" "releases s = 1" "\<not> udpOpen s"
    using assms by (auto simp: uinv_def releaseI_def onceI_def busy_def)
  then have "disp s = DEnd" "fwd s = FEnd" using assms(1) workers_zero by (auto simp: uinv_def)
  then show ?thesis using * assms(1) by (auto simp: proxyEnded_def uinv_def shapeI_def forwardI_def)
qed

lemma closed_conns:
  assumes "uinv encodes s" "connI s" "closers s k = CEnd"
  shows "openConns s = {}"
proof -
  have "disp s = DEnd" "workConn s = None" "\<And>k. \<not> shutting (closers s k)"
    using closed_ended[OF assms(1,3)] assms(1,3) by (auto simp: proxyEnded_def uinv_def onceI_def)
  then show ?thesis using assms(2) by (auto simp: connI_def captured_def shutting_iff)
qed


text \<open>The control closes the proxy while a datagram is being sent.\<close>

definition closeRun :: "nat uevent list" where
  "closeRun = [UWake, UTop, UUser 1, UGot, UPublish, USTake, USCheck, UClose 0, UEnter 0, UShut 0, USFail, UReadErr, ULeave, UDone, UJoined,
     UUserErr, UStop, UWStop, USocket, UJoin, UFollow 1, UWait 1, UWait 0, URelease 0, URelease 1]"


definition limitedRun :: "nat uevent list" where
  "limitedRun = [UWake, UTop, UGot, UPublish, UClose 0, UEnter 0, UShut 0, USCancel, UDone, UUserErr, UStop, UWStop, USocket, UJoin, UFollow 1]"

text \<open>With a bandwidth limiter \<^verbatim>\<open>Close\<close> does not close the work connection: there is an execution in which the control called \<^verbatim>\<open>Close\<close>, the
  shutdown has begun and all that is left to do is to wait for the client; heartbeats of the client keep it so, and \<^verbatim>\<open>Close\<close> has not returned.\<close>

theorem udp_limited_close_waits:
  "\<exists>s. steps (uguard encodes) (uhappen True) (udpRun :: nat udpProxy) s \<and> closers s 0 = CWait \<and> openConns s = {0} \<and> releases s = 0 \<and>
     (\<nexists>e. uguard encodes e s \<and> \<not> uinput s e) \<and> uguard encodes UPing s \<and> uhappen True UPing s = s"
proof (intro exI conjI)
  let ?s = "fold (uhappen True) limitedRun udpRun"
  have "run_ok (uguard encodes) (uhappen True) limitedRun udpRun"
    by (simp add: limitedRun_def udpRun_def udp_defs Let_def udpChanCap_def connUp_def)
  then show "steps (uguard encodes) (uhappen True) udpRun ?s" by (rule steps_run)
  have s: "?s = udpRun\<lparr>doneCh := True, isClosed := True, nextConn := 1, openConns := {0}, udpOpen := False, stopWriter := True,
      canceled := True, disp := DJoin 0 True, sender := SEnd None, reader := RRead, fwd := FEnd, writer := WEnd,
      closers := (\<lambda>_. CNone)(0 := CWait, 1 := CWait), shutdownOnce := HasRun, workers := 2\<rparr>"
    by (auto simp: limitedRun_def udpRun_def udp_defs Let_def udpChanCap_def)
  show "closers ?s 0 = CWait" "openConns ?s = {0}" "releases ?s = 0" "uguard encodes UPing ?s"
    unfolding s by (simp_all add: udpRun_def connUp_def)
  show "\<nexists>e. uguard encodes e ?s \<and> \<not> uinput ?s e"
  proof clarify
    fix e assume "uguard encodes e ?s" "\<not> uinput ?s e"
    then show False unfolding s by (cases e) (auto simp: udpRun_def connUp_def split: if_splits)
  qed
qed simp

text \<open>A datagram that the codec cannot write is never passed over: nothing accepted after it is ever sent.\<close>

lemma udp_unencodable_blocks:
  assumes "steps (uguard encodes) (uhappen limited) udpRun s" "offered s = before @ p # after" "\<not> encodes p"
  shows "\<exists>rest. before = sent s @ rest"
proof -
  have "queueI encodes s" using udp.good_reached[OF assms(1)] by (simp add: uinv_def)
  then obtain rest where rest: "before @ p # after = sent s @ rest" "\<forall>q\<in>set (sent s). encodes q"
    using assms(2) by (auto simp: queueI_def)
  then show ?thesis
    using assms(3) by (auto simp: append_eq_append_conv2 Cons_eq_append_conv) (metis in_set_conv_decomp)
qed

end
