(* ===== verification/Go_Strings.thy ===== *)
theory Go_Strings
  imports Prelude
begin

text \<open>
  The string functions of Go's standard library that the modelled code calls: \<^verbatim>\<open>strconv\<close>,
  \<^verbatim>\<open>strings\<close> and \<^verbatim>\<open>net.SplitHostPort\<close>/\<^verbatim>\<open>JoinHostPort\<close>.  Strings are byte strings; the case
  mapping and the white space are those of ASCII, the range in which the configuration and the
  addresses the code passes to them lie.
\<close>

section \<open>strconv\<close>

definition digit_char :: "nat \<Rightarrow> char" where
  "digit_char d = char_of (48 + d)"

definition digit_value :: "char \<Rightarrow> nat option" where
  "digit_value c = (let n = of_char c in if 48 \<le> n \<and> n \<le> 57 then Some (n - 48) else None)"

fun utoa :: "nat \<Rightarrow> string" where
  "utoa n = (if n < 10 then [digit_char n] else utoa (n div 10) @ [digit_char (n mod 10)])"

declare utoa.simps [simp del]

definition Itoa :: "int \<Rightarrow> string" where
  "Itoa i = (if i < 0 then CHR ''-'' # utoa (nat (- i)) else utoa (nat i))"

fun parse_digits :: "nat \<Rightarrow> string \<Rightarrow> nat option" where
  "parse_digits acc [] = Some acc"
| "parse_digits acc (c # cs) =
     (case digit_value c of None \<Rightarrow> None | Some d \<Rightarrow> parse_digits (10 * acc + d) cs)"

text \<open>\<^verbatim>\<open>strconv.ParseInt(s, 10, 64)\<close>, also \<^verbatim>\<open>strconv.Atoi\<close> on a 64-bit platform.\<close>

definition ParseInt64 :: "string \<Rightarrow> int option" where
  "ParseInt64 s =
     (let neg = (case s of c # _ \<Rightarrow> c = CHR ''-'' | [] \<Rightarrow> False);
          body = (case s of c # cs \<Rightarrow> if c = CHR ''-'' \<or> c = CHR ''+'' then cs else s | [] \<Rightarrow> s)
      in if body = [] then None
         else (case parse_digits 0 body of
                 None \<Rightarrow> None
               | Some n \<Rightarrow>
                   let i = (if neg then - int n else int n)
                   in if - (2 ^ 63) \<le> i \<and> i < 2 ^ 63 then Some i else None))"

lemma digit_value_char [simp]: "d < 10 \<Longrightarrow> digit_value (digit_char d) = Some d"
  by (simp add: digit_value_def digit_char_def)

lemma utoa_nonempty [simp]: "utoa n \<noteq> []"
  by (subst utoa.simps) simp

lemma parse_digits_append:
  "parse_digits acc (xs @ ys) =
     (case parse_digits acc xs of None \<Rightarrow> None | Some n \<Rightarrow> parse_digits n ys)"
  by (induction xs arbitrary: acc) (auto split: option.splits)

lemma parse_digits_utoa: "parse_digits 0 (utoa n) = Some n"
proof (induction n rule: utoa.induct)
  case (1 n)
  show ?case
  proof (cases "n < 10")
    case True
    then show ?thesis by (subst utoa.simps) simp
  next
    case False
    with "1.IH" have "parse_digits 0 (utoa (n div 10)) = Some (n div 10)" by simp
    with False show ?thesis by (subst utoa.simps) (simp add: parse_digits_append)
  qed
qed

lemma utoa_digits: "c \<in> set (utoa n) \<Longrightarrow> digit_value c \<noteq> None"
proof (induction n rule: utoa.induct)
  case (1 n)
  show ?case
  proof (cases "n < 10")
    case True
    then show ?thesis using "1.prems" by (subst (asm) utoa.simps) simp
  next
    case False
    then show ?thesis using "1.prems" "1.IH" by (subst (asm) utoa.simps) auto
  qed
qed

lemma sign_not_digit [simp]: "digit_value CHR ''-'' = None" "digit_value CHR ''+'' = None"
  "digit_value CHR '':'' = None" "digit_value CHR ''['' = None" "digit_value CHR '']'' = None"
  "digit_value CHR '','' = None" "digit_value CHR '' '' = None" "digit_value CHR ''.'' = None"
  by (simp_all add: digit_value_def)

lemma ParseInt64_Itoa:
  assumes "- (2 ^ 63) \<le> i" "i < 2 ^ 63"
  shows "ParseInt64 (Itoa i) = Some i"
proof (cases "i < 0")
  case True
  then show ?thesis using assms
    by (simp add: ParseInt64_def Itoa_def parse_digits_utoa Let_def)
next
  case False
  obtain c cs where u: "utoa (nat i) = c # cs" by (cases "utoa (nat i)") auto
  then have "digit_value c \<noteq> None" using utoa_digits [of c "nat i"] by simp
  then have "c \<noteq> CHR ''-''" "c \<noteq> CHR ''+''" by auto
  with False assms u show ?thesis
    using parse_digits_utoa [of "nat i"]
    by (simp add: ParseInt64_def Itoa_def Let_def)
qed

section \<open>strings\<close>

definition ascii_lower :: "char \<Rightarrow> char" where
  "ascii_lower c = (let n = of_char c :: nat in if 65 \<le> n \<and> n \<le> 90 then char_of (n + 32) else c)"

definition ToLower :: "string \<Rightarrow> string" where
  "ToLower s = map ascii_lower s"

lemma ascii_lower_idem [simp]: "ascii_lower (ascii_lower c) = ascii_lower c"
  by (simp add: ascii_lower_def Let_def)

lemma ToLower_idem [simp]: "ToLower (ToLower s) = ToLower s"
  by (simp add: ToLower_def)

definition is_space :: "char \<Rightarrow> bool" where
  "is_space c \<longleftrightarrow> c \<in> {CHR '' '', CHR 0x09, CHR 0x0A, CHR 0x0B, CHR 0x0C, CHR 0x0D}"

definition TrimSpace :: "string \<Rightarrow> string" where
  "TrimSpace s = rev (dropWhile is_space (rev (dropWhile is_space s)))"

fun Split :: "string \<Rightarrow> char \<Rightarrow> string list" where
  "Split [] c = [[]]"
| "Split (x # xs) c =
     (if x = c then [] # Split xs c
      else (case Split xs c of p # ps \<Rightarrow> (x # p) # ps | [] \<Rightarrow> [[x]]))"

fun Join :: "string list \<Rightarrow> char \<Rightarrow> string" where
  "Join [] c = []"
| "Join [p] c = p"
| "Join (p # ps) c = p @ c # Join ps c"

lemma Split_nonempty [simp]: "Split s c \<noteq> []"
  by (induction s) (auto split: list.splits)

lemma Join_Cons: "ps \<noteq> [] \<Longrightarrow> Join (p # ps) c = p @ c # Join ps c"
  by (cases ps) auto

lemma Join_Split [simp]: "Join (Split s c) c = s"
proof (induction s)
  case Nil
  show ?case by simp
next
  case (Cons x xs)
  obtain p ps where ps: "Split xs c = p # ps" by (cases "Split xs c") auto
  then show ?case using Cons.IH by (cases ps) (auto simp: Join_Cons)
qed

lemma Split_no_sep: "p \<in> set (Split s c) \<Longrightarrow> c \<notin> set p"
  by (induction s arbitrary: p) (auto split: if_splits list.splits)

lemma Split_single: "c \<notin> set s \<Longrightarrow> Split s c = [s]"
  by (induction s) auto

lemma Split_append: "c \<notin> set p \<Longrightarrow> Split (p @ c # s) c = p # Split s c"
  by (induction p) auto

lemma Split_Join: "ps \<noteq> [] \<Longrightarrow> (\<forall>p\<in>set ps. c \<notin> set p) \<Longrightarrow> Split (Join ps c) c = ps"
  by (induction ps c rule: Join.induct) (auto simp: Split_single Split_append)

text \<open>\<^verbatim>\<open>strings.CutPrefix\<close> and \<^verbatim>\<open>strings.CutSuffix\<close>\<close>

definition CutPrefix :: "string \<Rightarrow> string \<Rightarrow> string option" where
  "CutPrefix s p = (if take (length p) s = p then Some (drop (length p) s) else None)"

definition HasPrefix :: "string \<Rightarrow> string \<Rightarrow> bool" where
  "HasPrefix s p \<longleftrightarrow> take (length p) s = p"

lemma HasPrefix_prefix: "HasPrefix s p \<longleftrightarrow> prefix p s"
  by (auto simp: HasPrefix_def prefix_def) (metis append_take_drop_id)

lemma CutPrefix_append [simp]: "CutPrefix (p @ s) p = Some s"
  by (simp add: CutPrefix_def)

lemma CutPrefix_Some: "CutPrefix s p = Some r \<longleftrightarrow> s = p @ r"
  by (auto simp: CutPrefix_def) (metis append_take_drop_id)

section \<open>net.SplitHostPort\<close>

text \<open>Positions as in \<^verbatim>\<open>bytealg\<close>: the index of the first or last occurrence, if any.\<close>

fun IndexByte :: "string \<Rightarrow> char \<Rightarrow> nat option" where
  "IndexByte [] c = None"
| "IndexByte (x # xs) c = (if x = c then Some 0 else map_option Suc (IndexByte xs c))"

fun LastIndexByte :: "string \<Rightarrow> char \<Rightarrow> nat option" where
  "LastIndexByte [] c = None"
| "LastIndexByte (x # xs) c =
     (case LastIndexByte xs c of
        Some i \<Rightarrow> Some (Suc i)
      | None \<Rightarrow> if x = c then Some 0 else None)"

datatype addr_error =
    MissingPort
  | TooManyColons
  | MissingBracket
  | UnexpectedOpenBracket
  | UnexpectedCloseBracket

definition split_host :: "string \<Rightarrow> nat \<Rightarrow> addr_error + (string \<times> nat \<times> nat)" where
  "split_host hp i =
     (if hp \<noteq> [] \<and> hd hp = CHR ''['' then
        (case IndexByte hp (CHR '']'') of
           None \<Rightarrow> Inl MissingBracket
         | Some e \<Rightarrow>
             if e + 1 = length hp then Inl MissingPort
             else if e + 1 = i then Inr (take (e - 1) (drop 1 hp), 1, e + 1)
             else if hp ! (e + 1) = CHR '':'' then Inl TooManyColons
             else Inl MissingPort)
      else
        (let host = take i hp in
         if IndexByte host (CHR '':'') \<noteq> None then Inl TooManyColons else Inr (host, 0, 0)))"

definition SplitHostPort :: "string \<Rightarrow> addr_error + (string \<times> string)" where
  "SplitHostPort hp =
     (case LastIndexByte hp (CHR '':'') of
        None \<Rightarrow> Inl MissingPort
      | Some i \<Rightarrow>
          bindR (split_host hp i) (\<lambda>(host, j, k).
            if IndexByte (drop j hp) (CHR ''['') \<noteq> None then Inl UnexpectedOpenBracket
            else if IndexByte (drop k hp) (CHR '']'') \<noteq> None then Inl UnexpectedCloseBracket
            else Inr (host, drop (i + 1) hp)))"

definition JoinHostPort :: "string \<Rightarrow> string \<Rightarrow> string" where
  "JoinHostPort host port =
     (if IndexByte host (CHR '':'') \<noteq> None then ''['' @ host @ '']:'' @ port else host @ '':'' @ port)"

lemma IndexByte_None [simp]: "IndexByte s c = None \<longleftrightarrow> c \<notin> set s"
  by (induction s) auto

lemma LastIndexByte_None [simp]: "LastIndexByte s c = None \<longleftrightarrow> c \<notin> set s"
  by (induction s) (auto split: option.splits)

lemma LastIndexByte_append: "c \<notin> set p \<Longrightarrow> LastIndexByte (h @ c # p) c = Some (length h)"
  by (induction h) (auto split: option.splits)

lemma LastIndexByte_Some:
  "LastIndexByte s c = Some i \<Longrightarrow> i < length s \<and> s ! i = c \<and> c \<notin> set (drop (Suc i) s)"
  by (induction s arbitrary: i) (auto split: option.splits if_splits)

text \<open>A host without brackets and colons, as every IPv4 address is, splits off its port.\<close>

lemma SplitHostPort_plain:
  assumes "set host \<inter> {CHR '':'', CHR ''['', CHR '']''} = {}"
    and "set port \<inter> {CHR '':'', CHR ''['', CHR '']''} = {}"
  shows "SplitHostPort (host @ CHR '':'' # port) = Inr (host, port)"
proof -
  have "LastIndexByte (host @ CHR '':'' # port) (CHR '':'') = Some (length host)"
    using assms by (intro LastIndexByte_append) auto
  moreover have "\<not> hd (host @ CHR '':'' # port) = CHR ''[''"
    using assms by (cases host) auto
  ultimately show ?thesis
    using assms by (auto simp: SplitHostPort_def split_host_def Let_def)
qed

end
