(* ===== verification/Vhost_Router.thy ===== *)
theory Vhost_Router
  imports Go_Strings
begin

text \<open>
  The virtual host router of \<^verbatim>\<open>pkg/util/vhost/router.go\<close> and the listener lookup of the muxer in
  \<^verbatim>\<open>pkg/util/vhost/vhost.go\<close>.  What the router promises its clients is the locale \<open>route_index\<close>: a
  finite map from domain, user and location to payloads, looked up by longest location prefix.
\<close>

section \<open>The promise\<close>

datatype router_error = ErrRouterConfigConflict

locale route_index =
  fixes wf :: "'r \<Rightarrow> bool"
    and table :: "'r \<Rightarrow> string \<times> string \<times> string \<Rightarrow> 'p option"
    and add :: "string \<Rightarrow> string \<Rightarrow> string \<Rightarrow> 'p \<Rightarrow> 'r \<Rightarrow> (router_error + unit) \<times> 'r"
    and del :: "string \<Rightarrow> string \<Rightarrow> string \<Rightarrow> 'r \<Rightarrow> 'r"
    and get :: "string \<Rightarrow> string \<Rightarrow> string \<Rightarrow> 'r \<Rightarrow> (string \<times> 'p) option"
  assumes add_conflict:
      "wf r \<Longrightarrow> table r (ToLower d, u, l) \<noteq> None \<Longrightarrow> add d l u p r = (Inl ErrRouterConfigConflict, r)"
    and add_new:
      "wf r \<Longrightarrow> table r (ToLower d, u, l) = None \<Longrightarrow>
       \<exists>r'. add d l u p r = (Inr (), r') \<and> wf r' \<and> table r' = (table r)((ToLower d, u, l) \<mapsto> p)"
    and del_wf: "wf r \<Longrightarrow> wf (del d l u r)"
    and del_table: "wf r \<Longrightarrow> table (del d l u r) = (table r)((ToLower d, u, l) := None)"
    and get_longest:
      "wf r \<Longrightarrow> get h path u r = Some (l, p) \<longleftrightarrow>
         table r (ToLower h, u, l) = Some p \<and> prefix l path \<and>
         (\<forall>l'. table r (ToLower h, u, l') \<noteq> None \<longrightarrow> prefix l' path \<longrightarrow> length l' \<le> length l)"
begin

lemma add_wf: "wf r \<Longrightarrow> wf (snd (add d l u p r))"
  using add_new [of r d u l p] add_conflict [of r d u l p] by (cases "table r (ToLower d, u, l)") fastforce+

lemma add_ok_iff: "wf r \<Longrightarrow> fst (add d l u p r) = Inr () \<longleftrightarrow> table r (ToLower d, u, l) = None"
  using add_new [of r d u l p] add_conflict [of r d u l p] by (cases "table r (ToLower d, u, l)") fastforce+

lemma add_table: "wf r \<Longrightarrow> table r (ToLower d, u, l) = None \<Longrightarrow>
    table (snd (add d l u p r)) = (table r)((ToLower d, u, l) \<mapsto> p)"
  using add_new [of r d u l p] by fastforce

lemma add_after_del: "wf r \<Longrightarrow> fst (add d l u p (del d l u r)) = Inr ()"
  by (simp add: add_ok_iff del_wf del_table)

lemma del_after_add:
  assumes "wf r" "table r (ToLower d, u, l) = None"
  shows "table (del d l u (snd (add d l u p r))) = table r"
  using assms by (auto simp: del_table add_wf add_table fun_upd_idem)

lemma get_after_add:
  assumes "wf r" "table r (ToLower d, u, l) = None" "prefix l path"
    and "\<And>l'. table r (ToLower d, u, l') \<noteq> None \<Longrightarrow> prefix l' path \<Longrightarrow> length l' \<le> length l"
  shows "get d path u (snd (add d l u p r)) = Some (l, p)"
  using assms by (auto simp: get_longest add_wf add_table)

end

section \<open>The router\<close>

record 'p router =
  rdomain :: string
  rlocation :: string
  rhttpUser :: string
  rpayload :: 'p

type_synonym 'p routers = "string \<rightharpoonup> (string \<rightharpoonup> 'p router list)"

definition NewRouters :: "'p routers" where "NewRouters = Map.empty"

text \<open>The routers of a domain and user; none when either map has no entry.\<close>

definition routersOf :: "string \<Rightarrow> string \<Rightarrow> 'p routers \<Rightarrow> 'p router list" where
  "routersOf host httpUser r =
     (case r host of
        None \<Rightarrow> []
      | Some byUser \<Rightarrow> (case byUser httpUser of None \<Rightarrow> [] | Some vrs \<Rightarrow> vrs))"

definition exist :: "string \<Rightarrow> string \<Rightarrow> string \<Rightarrow> 'p routers \<Rightarrow> 'p router option" where
  "exist host path httpUser r = find (\<lambda>vr. path = rlocation vr) (routersOf host httpUser r)"

text \<open>\<^verbatim>\<open>slices.SortFunc\<close> with the reversed comparison of locations.\<close>

definition sortRouters :: "'p router list \<Rightarrow> 'p router list" where
  "sortRouters vrs = rev (sort_key rlocation vrs)"

definition RoutersAdd :: "string \<Rightarrow> string \<Rightarrow> string \<Rightarrow> 'p \<Rightarrow> 'p routers \<Rightarrow> (router_error + unit) \<times> 'p routers" where
  "RoutersAdd domain0 location httpUser payload r =
     (let domain = ToLower domain0 in
      if exist domain location httpUser r \<noteq> None then (Inl ErrRouterConfigConflict, r)
      else
        let byUser = (case r domain of None \<Rightarrow> Map.empty | Some m \<Rightarrow> m);
            vrs = (case byUser httpUser of None \<Rightarrow> [] | Some v \<Rightarrow> v);
            vr = \<lparr>rdomain = domain, rlocation = location, rhttpUser = httpUser, rpayload = payload\<rparr>
        in (Inr (), r(domain \<mapsto> byUser(httpUser \<mapsto> sortRouters (vrs @ [vr])))))"

definition RoutersDel :: "string \<Rightarrow> string \<Rightarrow> string \<Rightarrow> 'p routers \<Rightarrow> 'p routers" where
  "RoutersDel domain0 location httpUser r =
     (let domain = ToLower domain0 in
      case r domain of
        None \<Rightarrow> r
      | Some byUser \<Rightarrow>
          (case byUser httpUser of
             None \<Rightarrow> r
           | Some vrs \<Rightarrow>
               r(domain \<mapsto> byUser(httpUser \<mapsto> filter (\<lambda>vr. rlocation vr \<noteq> location) vrs))))"

definition getLocked :: "string \<Rightarrow> string \<Rightarrow> string \<Rightarrow> 'p routers \<Rightarrow> 'p router option" where
  "getLocked host path httpUser r = find (\<lambda>vr. HasPrefix path (rlocation vr)) (routersOf host httpUser r)"

definition RoutersGet :: "string \<Rightarrow> string \<Rightarrow> string \<Rightarrow> 'p routers \<Rightarrow> 'p router option" where
  "RoutersGet host path httpUser r = getLocked (ToLower host) path httpUser r"

definition getExactOrAllUsersLocked :: "string \<Rightarrow> string \<Rightarrow> string \<Rightarrow> 'p routers \<Rightarrow> 'p router option" where
  "getExactOrAllUsersLocked host path httpUser r =
     (case getLocked host path httpUser r of
        Some vr \<Rightarrow> Some vr
      | None \<Rightarrow>
          (case getLocked host path '''' r of
             Some vr \<Rightarrow> Some vr
           | None \<Rightarrow> None))"

text \<open>The loop over the remaining labels of the host name.\<close>

fun wildcardWalk :: "string list \<Rightarrow> string \<Rightarrow> string \<Rightarrow> 'p routers \<Rightarrow> 'p router option" where
  "wildcardWalk hostSplit path httpUser r =
     (if length hostSplit \<ge> 3 then
        (let host = Join (hostSplit[0 := ''*'']) CHR ''.'' in
         case getExactOrAllUsersLocked host path httpUser r of
           Some vr \<Rightarrow> Some vr
         | None \<Rightarrow> wildcardWalk (drop 1 (hostSplit[0 := ''*''])) path httpUser r)
      else getExactOrAllUsersLocked ''*'' path httpUser r)"

declare wildcardWalk.simps [simp del]

definition getByRoute :: "string \<Rightarrow> string \<Rightarrow> string \<Rightarrow> 'p routers \<Rightarrow> 'p router option" where
  "getByRoute host0 path httpUser r =
     (let host = ToLower host0 in
      case getExactOrAllUsersLocked host path httpUser r of
        Some vr \<Rightarrow> Some vr
      | None \<Rightarrow> wildcardWalk (Split host CHR ''.'') path httpUser r)"

text \<open>The muxer's lookup: it lower-cases the path too.\<close>

definition getListener :: "string \<Rightarrow> string \<Rightarrow> string \<Rightarrow> 'p routers \<Rightarrow> 'p option" where
  "getListener name path httpUser r = map_option rpayload (getByRoute name path httpUser r)"

definition muxer_lookup :: "(string \<Rightarrow> string) \<Rightarrow> 'p routers \<Rightarrow> 'p option" where
  "muxer_lookup reqInfo r =
     getListener (ToLower (reqInfo ''Host'')) (ToLower (reqInfo ''Path'')) (reqInfo ''HTTPUser'') r"

section \<open>Invariant and abstraction\<close>

definition routers_ok :: "'p routers \<Rightarrow> bool" where
  "routers_ok r \<longleftrightarrow>
     (\<forall>d u. sorted_wrt (\<lambda>a b. rlocation b < rlocation a) (routersOf d u r) \<and>
        (\<forall>vr \<in> set (routersOf d u r). rdomain vr = d \<and> rhttpUser vr = u) \<and>
        (routersOf d u r \<noteq> [] \<longrightarrow> ToLower d = d))"

definition route_table :: "'p routers \<Rightarrow> string \<times> string \<times> string \<Rightarrow> 'p option" where
  "route_table r = (\<lambda>(d, u, l). map_option rpayload (exist d l u r))"

definition route_get :: "string \<Rightarrow> string \<Rightarrow> string \<Rightarrow> 'p routers \<Rightarrow> (string \<times> 'p) option" where
  "route_get host path httpUser r =
     map_option (\<lambda>vr. (rlocation vr, rpayload vr)) (RoutersGet host path httpUser r)"

lemma desc_distinct: "sorted_wrt (\<lambda>a b. rlocation b < rlocation a) vrs \<Longrightarrow> distinct (map rlocation vrs)"
  by (induction vrs) auto

lemma sortRouters_set [simp]: "set (sortRouters vrs) = set vrs"
  by (simp add: sortRouters_def)

lemma sorted_strict:
  "sorted (map rlocation xs) \<Longrightarrow> distinct (map rlocation xs) \<Longrightarrow> sorted_wrt (\<lambda>a b. rlocation a < rlocation b) xs"
  by (induction xs) (auto simp: less_le)

lemma sortRouters_desc:
  assumes "distinct (map rlocation vrs)"
  shows "sorted_wrt (\<lambda>a b. rlocation b < rlocation a) (sortRouters vrs)"
proof -
  have "distinct (map rlocation (sort_key rlocation vrs))"
    using assms by (simp add: distinct_map)
  then show ?thesis
    using sorted_strict [of "sort_key rlocation vrs"] by (simp add: sortRouters_def sorted_wrt_rev)
qed

lemma routersOf_upd:
  "routersOf d u (r(d' \<mapsto> m(u' \<mapsto> vrs))) =
   (if d = d' then (if u = u' then vrs else (case m u of None \<Rightarrow> [] | Some v \<Rightarrow> v)) else routersOf d u r)"
  by (simp add: routersOf_def)

lemma routersOf_Add:
  assumes "exist (ToLower domain) location httpUser r = None"
  shows "routersOf d u (snd (RoutersAdd domain location httpUser payload r)) =
    (if d = ToLower domain \<and> u = httpUser
     then sortRouters (routersOf d u r @ [\<lparr>rdomain = d, rlocation = location, rhttpUser = u, rpayload = payload\<rparr>])
     else routersOf d u r)"
  using assms by (auto simp: RoutersAdd_def Let_def routersOf_def split: option.splits)

lemma routersOf_Del:
  "routersOf d u (RoutersDel domain location httpUser r) =
    (if d = ToLower domain \<and> u = httpUser
     then filter (\<lambda>vr. rlocation vr \<noteq> location) (routersOf d u r) else routersOf d u r)"
  by (auto simp: RoutersDel_def Let_def routersOf_def split: option.splits)

lemma find_None_iff': "find P xs = None \<longleftrightarrow> (\<forall>x\<in>set xs. \<not> P x)"
  by (induction xs) auto

lemma exist_None: "exist d l u r = None \<longleftrightarrow> l \<notin> rlocation ` set (routersOf d u r)"
  by (auto simp: exist_def find_None_iff')

lemma find_key:
  "distinct (map f xs) \<Longrightarrow> find (\<lambda>x. l = f x) xs = Some y \<longleftrightarrow> y \<in> set xs \<and> f y = l"
  by (induction xs) (auto simp: image_iff)

lemma exist_Some:
  "routers_ok r \<Longrightarrow> exist d l u r = Some vr \<longleftrightarrow> vr \<in> set (routersOf d u r) \<and> rlocation vr = l"
  unfolding exist_def by (rule find_key) (simp add: routers_ok_def desc_distinct)

lemma table_Some:
  "routers_ok r \<Longrightarrow>
   route_table r (d, u, l) = Some p \<longleftrightarrow> (\<exists>vr \<in> set (routersOf d u r). rlocation vr = l \<and> rpayload vr = p)"
  by (auto simp: route_table_def exist_Some)

lemma table_None: "route_table r (d, u, l) = None \<longleftrightarrow> l \<notin> rlocation ` set (routersOf d u r)"
  by (simp add: route_table_def exist_None)

lemma routers_ok_Add:
  assumes "routers_ok r" "exist (ToLower domain) location httpUser r = None"
  shows "routers_ok (snd (RoutersAdd domain location httpUser payload r))"
proof -
  have "distinct (map rlocation (routersOf d u r))" for d u using assms(1) by (simp add: routers_ok_def desc_distinct)
  then show ?thesis
    using assms unfolding routers_ok_def routersOf_Add [OF assms(2)]
    by (auto simp: exist_None intro!: sortRouters_desc)
qed

lemma routers_ok_Del: "routers_ok r \<Longrightarrow> routers_ok (RoutersDel domain location httpUser r)"
  unfolding routers_ok_def routersOf_Del by (auto intro: sorted_wrt_filter)

lemma table_Add:
  assumes "routers_ok r" "exist (ToLower domain) location httpUser r = None"
  shows "route_table (snd (RoutersAdd domain location httpUser payload r)) =
         (route_table r)((ToLower domain, httpUser, location) \<mapsto> payload)"
proof (rule ext)
  fix k :: "string \<times> string \<times> string"
  obtain d u l where k: "k = (d, u, l)" by (cases k)
  let ?r = "snd (RoutersAdd domain location httpUser payload r)"
  have "route_table ?r (d, u, l) = Some p \<longleftrightarrow>
      ((route_table r)((ToLower domain, httpUser, location) \<mapsto> payload)) (d, u, l) = Some p" for p
    using assms(2)
    by (auto simp: table_Some [OF assms(1)] table_Some [OF routers_ok_Add [OF assms]] routersOf_Add [OF assms(2)]
        exist_None)
  then show "route_table ?r k = ((route_table r)((ToLower domain, httpUser, location) \<mapsto> payload)) k"
    unfolding k by (metis option.exhaust)
qed

lemma table_Del:
  assumes "routers_ok r"
  shows "route_table (RoutersDel domain location httpUser r) =
         (route_table r)((ToLower domain, httpUser, location) := None)"
proof (rule ext)
  fix k :: "string \<times> string \<times> string"
  obtain d u l where k: "k = (d, u, l)" by (cases k)
  let ?r = "RoutersDel domain location httpUser r"
  have "route_table ?r (d, u, l) = Some p \<longleftrightarrow>
      ((route_table r)((ToLower domain, httpUser, location) := None)) (d, u, l) = Some p" for p
    by (auto simp: table_Some [OF assms] table_Some [OF routers_ok_Del [OF assms]] routersOf_Del)
  then show "route_table ?r k = ((route_table r)((ToLower domain, httpUser, location) := None)) k"
    unfolding k by (metis option.exhaust)
qed

text \<open>Among the prefixes of one path, the lexicographically greater is the longer.\<close>

lemma prefix_le_length:
  assumes "prefix (a :: string) p" "prefix b p" "a < b"
  shows "length a < length b"
proof -
  have "prefix a b \<or> prefix b a" using assms(1,2) by (rule prefix_same_cases)
  moreover have "\<not> prefix b a"
  proof
    assume "prefix b a"
    then obtain t where "a = b @ t" by (auto simp: prefix_def)
    with assms(3) have "b @ t < b" by simp
    moreover have "b \<le> b @ t" by (induction b) auto
    ultimately show False by simp
  qed
  ultimately show ?thesis using prefix_length_less [of a b] assms(3) by (auto simp: strict_prefix_def)
qed

lemma find_desc:
  assumes "sorted_wrt (\<lambda>a b. rlocation b < rlocation a) vrs"
  shows "find (\<lambda>vr. HasPrefix path (rlocation vr)) vrs = Some vr \<longleftrightarrow>
     vr \<in> set vrs \<and> prefix (rlocation vr) path \<and>
     (\<forall>w \<in> set vrs. prefix (rlocation w) path \<longrightarrow> length (rlocation w) \<le> length (rlocation vr))"
  using assms
proof (induction vrs)
  case (Cons x xs)
  have less: "rlocation w < rlocation x" if "w \<in> set xs" for w using Cons.prems that by simp
  show ?case
  proof (cases "prefix (rlocation x) path")
    case True
    have "length (rlocation w) < length (rlocation x)" if "w \<in> set xs" "prefix (rlocation w) path" for w
      using prefix_le_length [OF that(2) True less [OF that(1)]] .
    with True show ?thesis by (auto simp: HasPrefix_prefix dest: less_imp_le) (metis leD)
  next
    case False
    with Cons show ?thesis by (auto simp: HasPrefix_prefix)
  qed
qed simp

lemma getLocked_longest:
  assumes "routers_ok r"
  shows "getLocked h path u r = Some vr \<longleftrightarrow>
     vr \<in> set (routersOf h u r) \<and> prefix (rlocation vr) path \<and>
     (\<forall>w \<in> set (routersOf h u r). prefix (rlocation w) path \<longrightarrow> length (rlocation w) \<le> length (rlocation vr))"
  unfolding getLocked_def by (rule find_desc) (use assms in \<open>simp add: routers_ok_def\<close>)

lemma getLocked_None:
  "getLocked h path u r = None \<longleftrightarrow> (\<forall>l. route_table r (h, u, l) \<noteq> None \<longrightarrow> \<not> prefix l path)"
  by (auto simp: getLocked_def find_None_iff' HasPrefix_prefix table_None image_iff)

lemma route_get_longest:
  assumes "routers_ok r"
  shows "route_get h path u r = Some (l, p) \<longleftrightarrow>
     route_table r (ToLower h, u, l) = Some p \<and> prefix l path \<and>
     (\<forall>l'. route_table r (ToLower h, u, l') \<noteq> None \<longrightarrow> prefix l' path \<longrightarrow> length l' \<le> length l)"
  unfolding route_get_def RoutersGet_def table_None not_not table_Some [OF assms]
  by (auto simp: getLocked_longest [OF assms])

interpretation routes: route_index routers_ok route_table RoutersAdd RoutersDel route_get
proof unfold_locales
  fix r :: "'a routers" and d u l p
  assume "routers_ok r" "route_table r (ToLower d, u, l) \<noteq> None"
  then show "RoutersAdd d l u p r = (Inl ErrRouterConfigConflict, r)"
    by (auto simp: RoutersAdd_def Let_def route_table_def)
next
  fix r :: "'a routers" and d u l p
  assume a: "routers_ok r" "route_table r (ToLower d, u, l) = None"
  then have e: "exist (ToLower d) l u r = None" by (simp add: route_table_def)
  then have "fst (RoutersAdd d l u p r) = Inr ()" by (simp add: RoutersAdd_def Let_def)
  then have "RoutersAdd d l u p r = (Inr (), snd (RoutersAdd d l u p r))" by (metis prod.collapse)
  with routers_ok_Add [OF a(1) e] table_Add [OF a(1) e]
  show "\<exists>r'. RoutersAdd d l u p r = (Inr (), r') \<and> routers_ok r' \<and>
      route_table r' = (route_table r)((ToLower d, u, l) \<mapsto> p)" by blast
qed (auto simp: routers_ok_Del table_Del route_get_longest)

section \<open>Routing precedence\<close>

text \<open>The wildcard hosts tried for a host name, most specific first.\<close>

fun wildcards :: "string list \<Rightarrow> string list" where
  "wildcards (a # b # c # ls) = Join (''*'' # b # c # ls) CHR ''.'' # wildcards (b # c # ls)"
| "wildcards _ = []"

definition route_candidates :: "string \<Rightarrow> string \<Rightarrow> (string \<times> string) list" where
  "route_candidates host httpUser =
     concat (map (\<lambda>h. [(h, httpUser), (h, '''')]) (host # wildcards (Split host CHR ''.'') @ [''*'']))"

fun first_match :: "('a \<Rightarrow> 'b option) \<Rightarrow> 'a list \<Rightarrow> 'b option" where
  "first_match f [] = None"
| "first_match f (x # xs) = (case f x of Some y \<Rightarrow> Some y | None \<Rightarrow> first_match f xs)"

lemma first_match_append: "first_match f (xs @ ys) =
    (case first_match f xs of Some y \<Rightarrow> Some y | None \<Rightarrow> first_match f ys)"
  by (induction xs) (auto split: option.splits)

lemma first_match_Some:
  "first_match f xs = Some y \<longleftrightarrow> (\<exists>us x vs. xs = us @ x # vs \<and> f x = Some y \<and> (\<forall>u\<in>set us. f u = None))"
proof (induction xs)
  case (Cons x xs)
  show ?case
  proof (cases "f x")
    case None
    with Cons show ?thesis by (auto simp: Cons_eq_append_conv) (metis append_Cons list.set_intros(1) set_ConsD)+
  next
    case (Some z)
    then have "(\<exists>us x' vs. x # xs = us @ x' # vs \<and> f x' = Some y \<and> (\<forall>u\<in>set us. f u = None)) \<longleftrightarrow> z = y"
      by (metis append_eq_Cons_conv append_Nil list.sel(1) list.set_intros(1) option.distinct(1) option.inject
          empty_iff list.set(1))
    with Some show ?thesis by simp
  qed
qed simp

lemma first_match_None: "first_match f xs = None \<longleftrightarrow> (\<forall>x\<in>set xs. f x = None)"
  by (induction xs) (auto split: option.splits)

lemma exact_or_all: "getExactOrAllUsersLocked h path u r =
    first_match (\<lambda>(h, u). getLocked h path u r) [(h, u), (h, '''')]"
  by (simp add: getExactOrAllUsersLocked_def split: option.splits)

lemma wildcardWalk_eq:
  "wildcardWalk labels path u r =
   first_match (\<lambda>(h, u). getLocked h path u r) (concat (map (\<lambda>h. [(h, u), (h, '''')]) (wildcards labels @ [''*''])))"
proof (induction labels rule: wildcards.induct)
  case (1 a b c ls)
  show ?case
    by (subst wildcardWalk.simps)
       (use 1 in \<open>simp add: exact_or_all first_match_append split: option.splits\<close>)
qed (subst wildcardWalk.simps, simp add: exact_or_all)+

lemma getByRoute_eq:
  "getByRoute host path u r =
   first_match (\<lambda>(h, u). getLocked h path u r) (route_candidates (ToLower host) u)"
  by (simp add: getByRoute_def Let_def exact_or_all wildcardWalk_eq route_candidates_def first_match_append
      split: option.splits)

lemma getByRoute_table:
  assumes "routers_ok r" "getByRoute host path user r = Some vr"
  shows "\<exists>h u. route_table r (h, u, rlocation vr) = Some (rpayload vr) \<and> prefix (rlocation vr) path"
proof -
  obtain h u where "getLocked h path u r = Some vr"
    using assms(2) unfolding getByRoute_eq first_match_Some by fastforce
  then have "vr \<in> set (routersOf h u r)" "prefix (rlocation vr) path" by (auto simp: getLocked_longest [OF assms(1)])
  then show ?thesis unfolding table_Some [OF assms(1)] by blast
qed

section \<open>Properties\<close>

text \<open>The routers a server can hold: the empty one, changed by registrations (accepted or refused) and removals.\<close>

inductive built :: "'p routers \<Rightarrow> bool" where
  built_new: "built NewRouters"
| built_add: "built r \<Longrightarrow> built (snd (RoutersAdd d l u p r))"
| built_del: "built r \<Longrightarrow> built (RoutersDel d l u r)"

lemma routers_ok_New: "routers_ok NewRouters"
  by (simp add: routers_ok_def routersOf_def NewRouters_def)

lemma built_ok: "built r \<Longrightarrow> routers_ok r"
  by (induction rule: built.induct) (auto simp: routers_ok_New routes.add_wf routes.del_wf)

text \<open>C15. The vhost router implements a map from (lower-cased domain, user, location) to payloads.  In every
  router a server can hold, a registration is accepted exactly when its key is free; an accepted one binds that
  key and changes no other, a refused one leaves the table as it was; a removal unbinds exactly its key, and
  the same registration is accepted again after it.\<close>

theorem router_refines_map:
  fixes r :: "'p routers"
  assumes "built r"
  shows "(fst (RoutersAdd d l u p r) = Inr () \<longleftrightarrow> route_table r (ToLower d, u, l) = None) \<and>
    route_table (snd (RoutersAdd d l u p r)) =
      (if route_table r (ToLower d, u, l) = None then (route_table r)((ToLower d, u, l) \<mapsto> p) else route_table r) \<and>
    route_table (RoutersDel d l u r) = (route_table r)((ToLower d, u, l) := None) \<and>
    fst (RoutersAdd d l u p (RoutersDel d l u r)) = Inr ()"
  using routes.add_ok_iff [OF built_ok [OF assms(1)]] routes.add_table [OF built_ok [OF assms(1)]]
    routes.del_table [OF built_ok [OF assms(1)]] routes.add_after_del [OF built_ok [OF assms(1)]]
    routes.add_conflict [OF built_ok [OF assms(1)], of d u l p]
  by auto

definition demo_routes :: "nat routers" where
  "demo_routes = snd (RoutersAdd ''*.example.com'' ''/api'' '''' 3
     (snd (RoutersAdd ''*.example.com'' ''/'' '''' 2 (snd (RoutersAdd ''A.example.com'' ''/x'' ''bob'' 1 NewRouters)))))"

lemma built_demo: "built demo_routes"
  unfolding demo_routes_def by (intro built_add built_new)

theorem router_refines_map_witness:
  "fst (RoutersAdd ''a.EXAMPLE.com'' ''/x'' ''bob'' 7 (RoutersDel ''a.EXAMPLE.com'' ''/x'' ''bob'' demo_routes)) = Inr ()"
  using router_refines_map [OF built_demo] by blast

text \<open>C16. A request is routed by precedence.  The hosts tried are the lower-cased request host, then the
  wildcards \<^verbatim>\<open>*.suffix\<close> from the most specific one down to two labels after the star, then the bare star; each for
  the request's user and then for all users.  The lookup answers with the longest matching location of the first
  candidate that has any location which is a prefix of the path, and answers nothing only when no candidate has
  one.\<close>

theorem route_precedence:
  fixes r :: "'p routers"
  assumes "built r"
  shows "case getByRoute host path user r of
      None \<Rightarrow> \<forall>(h, u) \<in> set (route_candidates (ToLower host) user).
                \<forall>l. route_table r (h, u, l) \<noteq> None \<longrightarrow> \<not> prefix l path
    | Some vr \<Rightarrow> \<exists>before h u after. route_candidates (ToLower host) user = before @ (h, u) # after \<and>
        route_table r (h, u, rlocation vr) = Some (rpayload vr) \<and> prefix (rlocation vr) path \<and>
        (\<forall>l. route_table r (h, u, l) \<noteq> None \<longrightarrow> prefix l path \<longrightarrow> length l \<le> length (rlocation vr)) \<and>
        (\<forall>(h', u') \<in> set before. \<forall>l. route_table r (h', u', l) \<noteq> None \<longrightarrow> \<not> prefix l path)"
proof (cases "getByRoute host path user r")
  case None
  then have "\<forall>(h, u) \<in> set (route_candidates (ToLower host) user). getLocked h path u r = None"
    by (auto simp: getByRoute_eq first_match_None)
  with None show ?thesis by (auto simp: getLocked_None)
next
  case (Some vr)
  then obtain us h u vs where c: "route_candidates (ToLower host) user = us @ (h, u) # vs"
    and g: "getLocked h path u r = Some vr" and n: "\<forall>(h', u') \<in> set us. getLocked h' path u' r = None"
    unfolding getByRoute_eq first_match_Some by fastforce
  note ok = built_ok [OF assms]
  from g have "vr \<in> set (routersOf h u r)" "prefix (rlocation vr) path"
    and m: "\<forall>w \<in> set (routersOf h u r). prefix (rlocation w) path \<longrightarrow> length (rlocation w) \<le> length (rlocation vr)"
    by (auto simp: getLocked_longest [OF ok])
  moreover from this(1) have "route_table r (h, u, rlocation vr) = Some (rpayload vr)"
    unfolding table_Some [OF ok] by blast
  moreover have "\<forall>l. route_table r (h, u, l) \<noteq> None \<longrightarrow> prefix l path \<longrightarrow> length l \<le> length (rlocation vr)"
    using m by (auto simp: table_None)
  moreover have "\<forall>(h', u') \<in> set us. \<forall>l. route_table r (h', u', l) \<noteq> None \<longrightarrow> \<not> prefix l path"
    using n by (auto simp: getLocked_None)
  ultimately show ?thesis using c Some by simp blast
qed

theorem route_precedence_witness:
  "\<exists>vr. getByRoute ''a.Example.com'' ''/api/v1'' ''bob'' demo_routes = Some vr \<and> rpayload vr = 3 \<and>
     prefix (rlocation vr) ''/api/v1''"
proof -
  have "map_option rpayload (getByRoute ''a.Example.com'' ''/api/v1'' ''bob'' demo_routes) = Some 3"
    by code_simp
  then obtain vr where g: "getByRoute ''a.Example.com'' ''/api/v1'' ''bob'' demo_routes = Some vr" "rpayload vr = 3"
    by auto
  from route_precedence [OF built_demo, of "''a.Example.com''" "''bob''" "''/api/v1''"] g show ?thesis by auto
qed

end
