(* ===== verification/Http_Group.thy ===== *)
theory Http_Group
  imports Vhost_Router "HOL-Library.Multiset" "HOL-Library.AList"
begin

text \<open>
  HTTP load-balancing groups: \<^verbatim>\<open>server/group/http.go\<close> and the group registry of
  \<^verbatim>\<open>server/group/registry.go\<close>, on top of the vhost router.  The first proxy of a group adds one route
  for all of them, the last one removes it; requests on the route are dealt out in turn.

  A group is shared by pointer between the registry, the router's payload and the goroutines that
  register and unregister proxies, so groups live in a store.  \<^verbatim>\<open>Register\<close> looks the group up and
  then registers with it under the group's lock, and \<^verbatim>\<open>UnRegister\<close> works the same way; other goroutines
  run in between, so each is two steps and the group found first is remembered per goroutine.
\<close>

section \<open>Data\<close>

datatype group_error = ErrGroupAuthFailed | ErrGroupParamsInvalid | ErrProxyRepeated | ErrRoute router_error | errGroupStale

text \<open>What a route leads to: a group, or a single proxy that registered the route itself.\<close>

datatype payload = HGroup nat | HProxy string

record route_config =
  Domain :: string
  Location :: string
  RouteByHTTPUser :: string
  CreateConnFn :: nat

record HTTPGroup =
  hgroup :: string
  groupKey :: string
  domain :: string
  location :: string
  routeByHTTPUser :: string
  createFuncs :: "(string \<times> nat) list"
  pxyNames :: "string list"
  gindex :: "64 word"

record HTTPGroupController =
  hstore :: "HTTPGroup list"
  groups :: "string \<rightharpoonup> nat"
  vhostRouter :: "payload routers"

definition NewHTTPGroupController :: HTTPGroupController where
  "NewHTTPGroupController = \<lparr>hstore = [], groups = Map.empty, vhostRouter = NewRouters\<rparr>"

definition NewHTTPGroup :: HTTPGroup where
  "NewHTTPGroup = \<lparr>hgroup = '''', groupKey = '''', domain = '''', location = '''', routeByHTTPUser = '''',
     createFuncs = [], pxyNames = [], gindex = 0\<rparr>"

definition grp :: "nat \<Rightarrow> HTTPGroupController \<Rightarrow> HTTPGroup" where
  "grp a ctl = hstore ctl ! a"

definition setGrp :: "nat \<Rightarrow> HTTPGroup \<Rightarrow> HTTPGroupController \<Rightarrow> HTTPGroupController" where
  "setGrp a g ctl = ctl\<lparr>hstore := (hstore ctl)[a := g]\<rparr>"

section \<open>The registry of groups\<close>

definition getOrCreate :: "string \<Rightarrow> HTTPGroupController \<Rightarrow> nat \<times> HTTPGroupController" where
  "getOrCreate key ctl =
     (case groups ctl key of
        Some a \<Rightarrow> (a, ctl)
      | None \<Rightarrow>
          let a = length (hstore ctl) in
          (a, ctl\<lparr>hstore := hstore ctl @ [NewHTTPGroup], groups := (groups ctl)(key \<mapsto> a)\<rparr>))"

definition isCurrent :: "string \<Rightarrow> nat \<Rightarrow> HTTPGroupController \<Rightarrow> bool" where
  "isCurrent key a ctl \<longleftrightarrow> groups ctl key = Some a"

definition removeIf :: "string \<Rightarrow> nat \<Rightarrow> HTTPGroupController \<Rightarrow> HTTPGroupController" where
  "removeIf key a ctl =
     (case groups ctl key of
        None \<Rightarrow> ctl
      | Some b \<Rightarrow> if b = a then ctl\<lparr>groups := (groups ctl)(key := None)\<rparr> else ctl)"

section \<open>Registration\<close>

text \<open>The end of \<^verbatim>\<open>Register\<close>: the proxy joins.\<close>

definition joinGroup :: "nat \<Rightarrow> string \<Rightarrow> route_config \<Rightarrow> HTTPGroupController \<Rightarrow> (group_error + unit) \<times> HTTPGroupController" where
  "joinGroup a proxyName rc ctl =
     (let g = grp a ctl in
      if map_of (createFuncs g) proxyName \<noteq> None then (Inl ErrProxyRepeated, ctl)
      else (Inr (), setGrp a (g\<lparr>createFuncs := AList.update proxyName (CreateConnFn rc) (createFuncs g),
                                pxyNames := pxyNames g @ [proxyName]\<rparr>) ctl))"

definition GroupRegister ::
  "nat \<Rightarrow> string \<Rightarrow> string \<Rightarrow> string \<Rightarrow> route_config \<Rightarrow> HTTPGroupController \<Rightarrow> (group_error + unit) \<times> HTTPGroupController" where
  "GroupRegister a proxyName gname key rc ctl =
     (if \<not> isCurrent gname a ctl then (Inl errGroupStale, ctl)
      else if createFuncs (grp a ctl) = [] then
        (case RoutersAdd (Domain rc) (Location rc) (RouteByHTTPUser rc) (HGroup a) (vhostRouter ctl) of
           (Inl e, r) \<Rightarrow> (Inl (ErrRoute e), ctl)
         | (Inr _, r) \<Rightarrow>
             joinGroup a proxyName rc
               (setGrp a ((grp a ctl)\<lparr>hgroup := gname, groupKey := key, domain := Domain rc, location := Location rc,
                                      routeByHTTPUser := RouteByHTTPUser rc\<rparr>) (ctl\<lparr>vhostRouter := r\<rparr>)))
      else
        let g = grp a ctl in
        if hgroup g \<noteq> gname \<or> domain g \<noteq> Domain rc \<or> location g \<noteq> Location rc \<or> routeByHTTPUser g \<noteq> RouteByHTTPUser rc
          then (Inl ErrGroupParamsInvalid, ctl)
        else if groupKey g \<noteq> key then (Inl ErrGroupAuthFailed, ctl)
        else joinGroup a proxyName rc ctl)"

definition GroupUnRegister :: "nat \<Rightarrow> string \<Rightarrow> HTTPGroupController \<Rightarrow> HTTPGroupController" where
  "GroupUnRegister a proxyName ctl =
     (let g = (grp a ctl)\<lparr>createFuncs := AList.delete proxyName (createFuncs (grp a ctl)),
                          pxyNames := remove1 proxyName (pxyNames (grp a ctl))\<rparr>;
          ctl1 = setGrp a g ctl in
      if createFuncs g = [] then
        removeIf (hgroup g) a
          (ctl1\<lparr>vhostRouter := RoutersDel (domain g) (location g) (routeByHTTPUser g) (vhostRouter ctl1)\<rparr>)
      else ctl1)"

section \<open>Dealing out requests\<close>

text \<open>The position the next request takes; \<^verbatim>\<open>index.Add(1)\<close> comes first and wraps around.\<close>

definition nextName :: "HTTPGroup \<Rightarrow> string option" where
  "nextName g =
     (if pxyNames g = [] then None
      else Some (pxyNames g ! (unat (gindex g + 1) mod length (pxyNames g))))"

definition bump :: "nat \<Rightarrow> HTTPGroupController \<Rightarrow> HTTPGroupController" where
  "bump a ctl = setGrp a ((grp a ctl)\<lparr>gindex := gindex (grp a ctl) + 1\<rparr>) ctl"

definition createConn :: "nat \<Rightarrow> HTTPGroupController \<Rightarrow> nat option \<times> HTTPGroupController" where
  "createConn a ctl =
     ((case nextName (grp a ctl) of None \<Rightarrow> None | Some name \<Rightarrow> map_of (createFuncs (grp a ctl)) name), bump a ctl)"

definition chooseEndpoint :: "nat \<Rightarrow> HTTPGroupController \<Rightarrow> string option \<times> HTTPGroupController" where
  "chooseEndpoint a ctl =
     ((case nextName (grp a ctl) of None \<Rightarrow> None | Some name \<Rightarrow> if name = '''' then None else Some name), bump a ctl)"

definition createConnByEndpoint :: "nat \<Rightarrow> string \<Rightarrow> HTTPGroupController \<Rightarrow> nat option" where
  "createConnByEndpoint a endpoint ctl = map_of (createFuncs (grp a ctl)) endpoint"

section \<open>Executions\<close>

text \<open>Goroutines that have looked up a group and are about to register with it or to leave it.\<close>

record hsys =
  hctl :: HTTPGroupController
  joining :: "nat \<rightharpoonup> nat \<times> string \<times> string \<times> string \<times> route_config"
  leaving :: "nat \<rightharpoonup> nat \<times> string"

definition hstart :: hsys where
  "hstart = \<lparr>hctl = NewHTTPGroupController, joining = Map.empty, leaving = Map.empty\<rparr>"

datatype hevent =
    HGet nat string string string route_config
  | HTry nat
  | HLeave nat string string
  | HUnRegister nat
  | HRequest nat
  | HProxyAdd string string string string
  | HProxyDel string string string

text \<open>A goroutine does one thing at a time.  A proxy leaves the group it is in, once; a single proxy removes only
  the route it added.\<close>

fun hguard :: "hevent \<Rightarrow> hsys \<Rightarrow> bool" where
  "hguard (HGet t name gname key rc) s \<longleftrightarrow> joining s t = None"
| "hguard (HTry t) s \<longleftrightarrow> joining s t \<noteq> None"
| "hguard (HLeave t name gname) s \<longleftrightarrow> leaving s t = None \<and>
     (case groups (hctl s) gname of
        None \<Rightarrow> False
      | Some a \<Rightarrow> name \<in> set (pxyNames (grp a (hctl s))) \<and> (a, name) \<notin> ran (leaving s))"
| "hguard (HUnRegister t) s \<longleftrightarrow> leaving s t \<noteq> None"
| "hguard (HRequest a) s \<longleftrightarrow> a < length (hstore (hctl s))"
| "hguard (HProxyAdd d l u name) s \<longleftrightarrow> True"
| "hguard (HProxyDel d l u) s \<longleftrightarrow> (\<exists>name. route_table (vhostRouter (hctl s)) (ToLower d, u, l) = Some (HProxy name))"

text \<open>One round of the loop in \<^verbatim>\<open>Register\<close>: a stale group is looked up again.\<close>

definition tryRegister :: "nat \<Rightarrow> hsys \<Rightarrow> hsys" where
  "tryRegister t s =
     (case joining s t of
        None \<Rightarrow> s
      | Some (a, name, gname, key, rc) \<Rightarrow>
          (case GroupRegister a name gname key rc (hctl s) of
             (Inl errGroupStale, ctl) \<Rightarrow>
               let (b, ctl1) = getOrCreate gname ctl in
               s\<lparr>hctl := ctl1, joining := (joining s)(t \<mapsto> (b, name, gname, key, rc))\<rparr>
           | (_, ctl) \<Rightarrow> s\<lparr>hctl := ctl, joining := (joining s)(t := None)\<rparr>))"

fun hhappen :: "hevent \<Rightarrow> hsys \<Rightarrow> hsys" where
  "hhappen (HGet t name gname key rc) s =
     (let (a, ctl) = getOrCreate gname (hctl s) in
      s\<lparr>hctl := ctl, joining := (joining s)(t \<mapsto> (a, name, gname, key, rc))\<rparr>)"
| "hhappen (HTry t) s = tryRegister t s"
| "hhappen (HLeave t name gname) s =
     (case groups (hctl s) gname of None \<Rightarrow> s | Some a \<Rightarrow> s\<lparr>leaving := (leaving s)(t \<mapsto> (a, name))\<rparr>)"
| "hhappen (HUnRegister t) s =
     (case leaving s t of
        None \<Rightarrow> s
      | Some (a, name) \<Rightarrow> s\<lparr>hctl := GroupUnRegister a name (hctl s), leaving := (leaving s)(t := None)\<rparr>)"
| "hhappen (HRequest a) s = s\<lparr>hctl := snd (chooseEndpoint a (hctl s))\<rparr>"
| "hhappen (HProxyAdd d l u name) s =
     s\<lparr>hctl := (hctl s)\<lparr>vhostRouter := snd (RoutersAdd d l u (HProxy name) (vhostRouter (hctl s)))\<rparr>\<rparr>"
| "hhappen (HProxyDel d l u) s =
     s\<lparr>hctl := (hctl s)\<lparr>vhostRouter := RoutersDel d l u (vhostRouter (hctl s))\<rparr>\<rparr>"

section \<open>Invariant\<close>

definition group_ok :: "HTTPGroup \<Rightarrow> bool" where
  "group_ok g \<longleftrightarrow> distinct (pxyNames g) \<and> distinct (map fst (createFuncs g)) \<and> set (pxyNames g) = fst ` set (createFuncs g)"

definition route_of :: "HTTPGroup \<Rightarrow> string \<times> string \<times> string" where
  "route_of g = (ToLower (domain g), routeByHTTPUser g, location g)"

definition ctl_ok :: "HTTPGroupController \<Rightarrow> bool" where
  "ctl_ok c \<longleftrightarrow> routers_ok (vhostRouter c) \<and> (\<forall>g\<in>set (hstore c). group_ok g) \<and>
     (\<forall>n a. groups c n = Some a \<longrightarrow> a < length (hstore c)) \<and>
     (\<forall>a<length (hstore c). createFuncs (grp a c) \<noteq> [] \<longrightarrow>
        groups c (hgroup (grp a c)) = Some a \<and> route_table (vhostRouter c) (route_of (grp a c)) = Some (HGroup a)) \<and>
     (\<forall>k a. route_table (vhostRouter c) k = Some (HGroup a) \<longrightarrow>
        a < length (hstore c) \<and> createFuncs (grp a c) \<noteq> [] \<and> k = route_of (grp a c))"

definition hinv :: "hsys \<Rightarrow> bool" where
  "hinv s \<longleftrightarrow> ctl_ok (hctl s) \<and>
     (\<forall>t a x. joining s t = Some (a, x) \<longrightarrow> a < length (hstore (hctl s))) \<and>
     (\<forall>t a name. leaving s t = Some (a, name) \<longrightarrow> a < length (hstore (hctl s)) \<and> name \<in> set (pxyNames (grp a (hctl s)))) \<and>
     (\<forall>t t' x. leaving s t = Some x \<longrightarrow> leaving s t' = Some x \<longrightarrow> t = t')"

lemma group_ok_New: "group_ok NewHTTPGroup"
  by (simp add: group_ok_def NewHTTPGroup_def)

lemma ctl_okD:
  assumes "ctl_ok c"
  shows "routers_ok (vhostRouter c)" "\<And>a. a < length (hstore c) \<Longrightarrow> group_ok (grp a c)"
    "\<And>n a. groups c n = Some a \<Longrightarrow> a < length (hstore c)"
    "\<And>a. a < length (hstore c) \<Longrightarrow> createFuncs (grp a c) \<noteq> [] \<Longrightarrow>
       groups c (hgroup (grp a c)) = Some a \<and> route_table (vhostRouter c) (route_of (grp a c)) = Some (HGroup a)"
    "\<And>k a. route_table (vhostRouter c) k = Some (HGroup a) \<Longrightarrow>
       a < length (hstore c) \<and> createFuncs (grp a c) \<noteq> [] \<and> k = route_of (grp a c)"
  using assms by (auto simp: ctl_ok_def grp_def)

lemma ctl_okI:
  assumes "routers_ok (vhostRouter c)" "\<And>a. a < length (hstore c) \<Longrightarrow> group_ok (grp a c)"
    "\<And>n a. groups c n = Some a \<Longrightarrow> a < length (hstore c)"
    "\<And>a. a < length (hstore c) \<Longrightarrow> createFuncs (grp a c) \<noteq> [] \<Longrightarrow>
       groups c (hgroup (grp a c)) = Some a \<and> route_table (vhostRouter c) (route_of (grp a c)) = Some (HGroup a)"
    "\<And>k a. route_table (vhostRouter c) k = Some (HGroup a) \<Longrightarrow>
       a < length (hstore c) \<and> createFuncs (grp a c) \<noteq> [] \<and> k = route_of (grp a c)"
  shows "ctl_ok c"
  using assms unfolding ctl_ok_def grp_def by (auto simp: in_set_conv_nth)

lemma grp_setGrp [simp]: "a < length (hstore c) \<Longrightarrow> grp b (setGrp a g c) = (if b = a then g else grp b c)"
  by (simp add: grp_def setGrp_def)

lemma setGrp_fields [simp]: "length (hstore (setGrp a g c)) = length (hstore c)" "groups (setGrp a g c) = groups c"
  "vhostRouter (setGrp a g c) = vhostRouter c"
  by (simp_all add: setGrp_def)

lemma grp_fields [simp]: "grp a (c\<lparr>vhostRouter := r\<rparr>) = grp a c" "grp a (c\<lparr>groups := m\<rparr>) = grp a c"
  by (simp_all add: grp_def)

lemma ctl_ok_New: "ctl_ok NewHTTPGroupController"
  using routers_ok_New [where 'a = payload]
  by (auto simp: ctl_ok_def NewHTTPGroupController_def NewRouters_def route_table_def exist_def routersOf_def)

lemma getOrCreate_ok:
  assumes "ctl_ok c" "getOrCreate key c = (a, c')"
  shows "ctl_ok c' \<and> a < length (hstore c') \<and> groups c' key = Some a \<and> length (hstore c) \<le> length (hstore c') \<and>
     vhostRouter c' = vhostRouter c \<and> (\<forall>b<length (hstore c). grp b c' = grp b c)"
proof (cases "groups c key")
  case (Some b)
  with assms ctl_okD(3) [OF assms(1)] show ?thesis by (auto simp: getOrCreate_def)
next
  case None
  then have c': "c' = c\<lparr>hstore := hstore c @ [NewHTTPGroup], groups := (groups c)(key \<mapsto> length (hstore c))\<rparr>"
    and a: "a = length (hstore c)" using assms(2) by (auto simp: getOrCreate_def Let_def)
  have g: "grp b c' = grp b c" if "b < length (hstore c)" for b using that by (simp add: grp_def c' nth_append)
  have n: "grp (length (hstore c)) c' = NewHTTPGroup" by (simp add: grp_def c')
  have "ctl_ok c'"
  proof (rule ctl_okI)
    show "routers_ok (vhostRouter c')" using ctl_okD(1) [OF assms(1)] by (simp add: c')
    show "group_ok (grp b c')" if "b < length (hstore c')" for b
      using that ctl_okD(2) [OF assms(1), of b] group_ok_New g [of b] n by (cases "b < length (hstore c)") (auto simp: c' less_Suc_eq)
    show "b < length (hstore c')" if "groups c' n = Some b" for n b
      using that ctl_okD(3) [OF assms(1), of n b] by (auto simp: c' split: if_splits)
    show "groups c' (hgroup (grp b c')) = Some b \<and> route_table (vhostRouter c') (route_of (grp b c')) = Some (HGroup b)"
      if "b < length (hstore c')" "createFuncs (grp b c') \<noteq> []" for b
    proof -
      have b: "b < length (hstore c)"
        using that n by (cases "b = length (hstore c)") (auto simp: c' NewHTTPGroup_def)
      with that(2) g [of b] ctl_okD(4) [OF assms(1), of b] None show ?thesis by (auto simp: c')
    qed
    show "b < length (hstore c') \<and> createFuncs (grp b c') \<noteq> [] \<and> k = route_of (grp b c')"
      if "route_table (vhostRouter c') k = Some (HGroup b)" for k b
      using that ctl_okD(5) [OF assms(1), of k b] g [of b] by (auto simp: c')
  qed
  then show ?thesis using g a by (auto simp: c')
qed

lemma group_ok_names: "group_ok g \<Longrightarrow> map_of (createFuncs g) n = None \<longleftrightarrow> n \<notin> set (pxyNames g)"
  by (simp add: group_ok_def map_of_eq_None_iff)

lemma group_ok_empty: "group_ok g \<Longrightarrow> createFuncs g = [] \<longleftrightarrow> pxyNames g = []"
  by (auto simp: group_ok_def)

lemma update_nonempty: "AList.update k v xs \<noteq> []"
  by (cases xs) auto

lemma update_new: "map_of xs k = None \<Longrightarrow> AList.update k v xs = xs @ [(k, v)]"
  by (induction xs) (auto split: if_splits)

lemma group_ok_join:
  assumes "group_ok g" "map_of (createFuncs g) name = None"
  shows "group_ok (g\<lparr>createFuncs := AList.update name f (createFuncs g), pxyNames := pxyNames g @ [name]\<rparr>)"
  using assms by (auto simp: group_ok_def update_new map_of_eq_None_iff)

lemma GroupRegister_Inl:
  assumes "ctl_ok c" "a < length (hstore c)" "fst (GroupRegister a name gname key rc c) = Inl e"
  shows "snd (GroupRegister a name gname key rc c) = c"
  using assms
  by (auto simp: GroupRegister_def joinGroup_def Let_def grp_def setGrp_def split: if_splits prod.splits sum.splits)

lemma GroupRegister_Inr:
  assumes "ctl_ok c" "a < length (hstore c)" "GroupRegister a name gname key rc c = (Inr (), c')"
  obtains g r where "c' = setGrp a g (c\<lparr>vhostRouter := r\<rparr>)" "routers_ok r"
    "route_table r = (route_table (vhostRouter c))(route_of g \<mapsto> HGroup a)"
    "createFuncs (grp a c) \<noteq> [] \<Longrightarrow> route_of g = route_of (grp a c)"
    "createFuncs (grp a c) = [] \<Longrightarrow> route_table (vhostRouter c) (route_of g) = None"
    "group_ok g" "createFuncs g \<noteq> []" "hgroup g = gname" "groups c gname = Some a"
    "pxyNames g = pxyNames (grp a c) @ [name]"
proof -
  let ?g = "grp a c"
  have cur: "groups c gname = Some a" using assms(3) by (auto simp: GroupRegister_def isCurrent_def split: if_splits)
  have gok: "group_ok ?g" by (rule ctl_okD(2) [OF assms(1,2)])
  note rok = ctl_okD(1) [OF assms(1)]
  show thesis
  proof (cases "createFuncs ?g = []")
    case True
    let ?g1 = "?g\<lparr>hgroup := gname, groupKey := key, domain := Domain rc, location := Location rc, routeByHTTPUser := RouteByHTTPUser rc\<rparr>"
    let ?g2 = "?g1\<lparr>createFuncs := AList.update name (CreateConnFn rc) [], pxyNames := pxyNames ?g @ [name]\<rparr>"
    obtain r where r: "RoutersAdd (Domain rc) (Location rc) (RouteByHTTPUser rc) (HGroup a) (vhostRouter c) = (Inr (), r)"
      using assms(3) True cur by (auto simp: GroupRegister_def isCurrent_def split: prod.splits sum.splits)
    then have t: "route_table (vhostRouter c) (route_of ?g2) = None"
      using routes.add_ok_iff [OF rok, of "Domain rc" "Location rc" "RouteByHTTPUser rc" "HGroup a"] by (simp add: route_of_def)
    have c': "c' = setGrp a ?g2 (c\<lparr>vhostRouter := r\<rparr>)"
      using assms(2,3) True cur r by (simp add: GroupRegister_def isCurrent_def joinGroup_def Let_def grp_def setGrp_def)
    have r': "routers_ok r" "route_table r = (route_table (vhostRouter c))(route_of ?g2 \<mapsto> HGroup a)"
      using routes.add_wf [OF rok, of "Domain rc" "Location rc" "RouteByHTTPUser rc" "HGroup a"]
        routes.add_table [OF rok, of "Domain rc" "RouteByHTTPUser rc" "Location rc" "HGroup a"] t r
      by (simp_all add: route_of_def)
    have "group_ok ?g2" using gok True by (auto simp: group_ok_def)
    then show thesis using that [OF c' r'] t True cur by (simp add: update_nonempty)
  next
    case False
    let ?g1 = "?g\<lparr>createFuncs := AList.update name (CreateConnFn rc) (createFuncs ?g), pxyNames := pxyNames ?g @ [name]\<rparr>"
    have j: "hgroup ?g = gname" "map_of (createFuncs ?g) name = None" "c' = setGrp a ?g1 c"
      using assms(3) False cur by (auto simp: GroupRegister_def isCurrent_def joinGroup_def Let_def split: if_splits)
    have "route_table (vhostRouter c) (route_of ?g) = Some (HGroup a)" using ctl_okD(4) [OF assms(1,2) False] by simp
    then have t: "route_table (vhostRouter c) = (route_table (vhostRouter c))(route_of ?g1 \<mapsto> HGroup a)"
      by (auto simp: route_of_def fun_upd_idem)
    show thesis
      by (rule that [of ?g1 "vhostRouter c"])
         (use rok t j False cur group_ok_join [OF gok j(2)] in \<open>auto simp: update_nonempty route_of_def\<close>)
  qed
qed

lemma GroupRegister_ok:
  assumes "ctl_ok c" "a < length (hstore c)" "GroupRegister a name gname key rc c = (Inr (), c')"
  shows "ctl_ok c'"
  using assms
proof (rule GroupRegister_Inr)
  fix g r
  assume c': "c' = setGrp a g (c\<lparr>vhostRouter := r\<rparr>)" and rok: "routers_ok r"
    and rt: "route_table r = (route_table (vhostRouter c))(route_of g \<mapsto> HGroup a)"
    and old: "createFuncs (grp a c) \<noteq> [] \<Longrightarrow> route_of g = route_of (grp a c)"
    and new: "createFuncs (grp a c) = [] \<Longrightarrow> route_table (vhostRouter c) (route_of g) = None"
    and g: "group_ok g" "createFuncs g \<noteq> []" "hgroup g = gname" "groups c gname = Some a"
  have a: "a < length (hstore (c\<lparr>vhostRouter := r\<rparr>))" using assms(2) by simp
  have gr: "grp b c' = (if b = a then g else grp b c)" for b unfolding c' using grp_setGrp [OF a] by simp
  have other: "route_of (grp b c) \<noteq> route_of g" if "b < length (hstore c)" "createFuncs (grp b c) \<noteq> []" "b \<noteq> a" for b
    using that ctl_okD(4) [OF assms(1) that(1,2)] ctl_okD(4) [OF assms(1,2)] old new
    by (cases "createFuncs (grp a c) = []") auto
  show ?thesis
  proof (rule ctl_okI)
    show "routers_ok (vhostRouter c')" using rok by (simp add: c')
    show "group_ok (grp b c')" if "b < length (hstore c')" for b
      using that g(1) ctl_okD(2) [OF assms(1), of b] by (simp add: gr) (simp add: c')
    show "b < length (hstore c')" if "groups c' n = Some b" for n b
      using that ctl_okD(3) [OF assms(1), of n b] by (simp add: c')
    show "groups c' (hgroup (grp b c')) = Some b \<and> route_table (vhostRouter c') (route_of (grp b c')) = Some (HGroup b)"
      if "b < length (hstore c')" "createFuncs (grp b c') \<noteq> []" for b
    proof (cases "b = a")
      case False
      with that have b: "b < length (hstore c)" "createFuncs (grp b c) \<noteq> []" by (auto simp: gr) (simp add: c')
      with ctl_okD(4) [OF assms(1) b] other [OF b False] False show ?thesis by (simp add: gr) (simp add: c' rt)
    qed (use g rt in \<open>simp add: gr, simp add: c'\<close>)
    show "b < length (hstore c') \<and> createFuncs (grp b c') \<noteq> [] \<and> k = route_of (grp b c')"
      if "route_table (vhostRouter c') k = Some (HGroup b)" for k b
    proof (cases "k = route_of g")
      case True
      with that rt have "b = a" by (simp add: c')
      with True g assms(2) show ?thesis by (simp add: gr) (simp add: c')
    next
      case False
      with that rt have "route_table (vhostRouter c) k = Some (HGroup b)" by (simp add: c')
      from ctl_okD(5) [OF assms(1) this] old False show ?thesis by (auto simp: gr) (simp_all add: c')
    qed
  qed
qed

lemma group_ok_leave:
  assumes "group_ok g"
  shows "group_ok (g\<lparr>createFuncs := AList.delete name (createFuncs g), pxyNames := remove1 name (pxyNames g)\<rparr>)"
  using assms by (auto simp: group_ok_def AList.delete_eq image_iff distinct_map_filter)

lemma removeIf_fields [simp]: "hstore (removeIf k a c) = hstore c" "vhostRouter (removeIf k a c) = vhostRouter c"
  "grp b (removeIf k a c) = grp b c"
  "groups (removeIf k a c) = (if groups c k = Some a then (groups c)(k := None) else groups c)"
  by (auto simp: removeIf_def grp_def split: option.splits)

lemma GroupUnRegister_ok:
  assumes "ctl_ok c" "a < length (hstore c)" "name \<in> set (pxyNames (grp a c))"
  shows "ctl_ok (GroupUnRegister a name c) \<and> length (hstore (GroupUnRegister a name c)) = length (hstore c) \<and>
     (\<forall>b. pxyNames (grp b (GroupUnRegister a name c)) =
        (if b = a then remove1 name (pxyNames (grp b c)) else pxyNames (grp b c)))"
proof -
  let ?g = "(grp a c)\<lparr>createFuncs := AList.delete name (createFuncs (grp a c)), pxyNames := remove1 name (pxyNames (grp a c))\<rparr>"
  let ?c = "GroupUnRegister a name c"
  have ne: "createFuncs (grp a c) \<noteq> []" using assms(3) group_ok_empty [OF ctl_okD(2) [OF assms(1,2)]] by auto
  note a4 = ctl_okD(4) [OF assms(1,2) ne]
  have gok: "group_ok ?g" by (rule group_ok_leave [OF ctl_okD(2) [OF assms(1,2)]])
  define r where "r = RoutersDel (domain (grp a c)) (location (grp a c)) (routeByHTTPUser (grp a c)) (vhostRouter c)"
  have r: "routers_ok r" "route_table r = (route_table (vhostRouter c))(route_of (grp a c) := None)"
    unfolding r_def using routes.del_wf [OF ctl_okD(1) [OF assms(1)]] routes.del_table [OF ctl_okD(1) [OF assms(1)]]
    by (simp_all add: route_of_def)
  have len: "length (hstore ?c) = length (hstore c)" by (simp add: GroupUnRegister_def Let_def)
  have gr: "grp b ?c = (if b = a then ?g else grp b c)" for b using assms(2) by (simp add: GroupUnRegister_def Let_def)
  have vr: "vhostRouter ?c = (if createFuncs ?g = [] then r else vhostRouter c)"
    by (simp add: GroupUnRegister_def Let_def r_def)
  have gs: "groups ?c = (if createFuncs ?g = [] then (groups c)(hgroup (grp a c) := None) else groups c)"
    using a4 by (simp add: GroupUnRegister_def Let_def)
  have ro: "route_of ?g = route_of (grp a c)" by (simp add: route_of_def)
  have "ctl_ok ?c"
  proof (rule ctl_okI)
    show "routers_ok (vhostRouter ?c)" using r(1) ctl_okD(1) [OF assms(1)] by (simp add: vr)
    show "group_ok (grp b ?c)" if "b < length (hstore ?c)" for b
      using that gok ctl_okD(2) [OF assms(1), of b] by (simp add: gr len)
    show "b < length (hstore ?c)" if "groups ?c n = Some b" for n b
      using that ctl_okD(3) [OF assms(1), of n b] by (auto simp: gs len split: if_splits)
    show "groups ?c (hgroup (grp b ?c)) = Some b \<and> route_table (vhostRouter ?c) (route_of (grp b ?c)) = Some (HGroup b)"
      if "b < length (hstore ?c)" "createFuncs (grp b ?c) \<noteq> []" for b
    proof (cases "b = a")
      case True
      with that a4 show ?thesis by (simp add: gr vr gs route_of_def)
    next
      case False
      with that have b: "b < length (hstore c)" "createFuncs (grp b c) \<noteq> []" by (simp_all add: gr len)
      with ctl_okD(4) [OF assms(1) b] a4 False show ?thesis by (auto simp: gr vr gs r(2))
    qed
    show "b < length (hstore ?c) \<and> createFuncs (grp b ?c) \<noteq> [] \<and> k = route_of (grp b ?c)"
      if "route_table (vhostRouter ?c) k = Some (HGroup b)" for k b
    proof -
      have "route_table (vhostRouter c) k = Some (HGroup b)" using that by (auto simp: vr r(2) split: if_splits)
      note old = ctl_okD(5) [OF assms(1) this]
      show ?thesis
      proof (cases "b = a")
        case True
        with old that have "createFuncs ?g \<noteq> []" by (auto simp: vr r(2) split: if_splits)
        with True old show ?thesis by (simp add: gr len route_of_def)
      qed (use old in \<open>simp add: gr len\<close>)
    qed
  qed
  then show ?thesis by (simp add: gr len)
qed

lemma hinvD:
  assumes "hinv s"
  shows "ctl_ok (hctl s)" "\<And>t a x. joining s t = Some (a, x) \<Longrightarrow> a < length (hstore (hctl s))"
    "\<And>t a name. leaving s t = Some (a, name) \<Longrightarrow> a < length (hstore (hctl s)) \<and> name \<in> set (pxyNames (grp a (hctl s)))"
    "\<And>t t' x. leaving s t = Some x \<Longrightarrow> leaving s t' = Some x \<Longrightarrow> t = t'"
  using assms unfolding hinv_def by blast+

text \<open>A controller that keeps its groups and their members keeps the rest of the invariant.\<close>

lemma hinv_mono:
  assumes "hinv s" "ctl_ok c" "length (hstore (hctl s)) \<le> length (hstore c)"
    and "\<And>b. b < length (hstore (hctl s)) \<Longrightarrow> set (pxyNames (grp b (hctl s))) \<subseteq> set (pxyNames (grp b c))"
  shows "hinv (s\<lparr>hctl := c\<rparr>)"
  unfolding hinv_def
proof (intro conjI allI impI)
  show "ctl_ok (hctl (s\<lparr>hctl := c\<rparr>))" using assms(2) by simp
next
  fix t a x assume "joining (s\<lparr>hctl := c\<rparr>) t = Some (a, x)"
  then show "a < length (hstore (hctl (s\<lparr>hctl := c\<rparr>)))" using hinvD(2) [OF assms(1)] assms(3) by fastforce
next
  fix t a name assume "leaving (s\<lparr>hctl := c\<rparr>) t = Some (a, name)"
  then have "leaving s t = Some (a, name)" by simp
  from hinvD(3) [OF assms(1) this] assms(3) assms(4) [of a]
  show "a < length (hstore (hctl (s\<lparr>hctl := c\<rparr>)))" "name \<in> set (pxyNames (grp a (hctl (s\<lparr>hctl := c\<rparr>))))" by auto
next
  fix t t' x assume "leaving (s\<lparr>hctl := c\<rparr>) t = Some x" "leaving (s\<lparr>hctl := c\<rparr>) t' = Some x"
  then show "t = t'" using hinvD(4) [OF assms(1)] by simp
qed

lemma hinv_joining: "hinv s \<Longrightarrow> a < length (hstore (hctl s)) \<Longrightarrow> hinv (s\<lparr>joining := (joining s)(t \<mapsto> (a, x))\<rparr>)"
  "hinv s \<Longrightarrow> hinv (s\<lparr>joining := (joining s)(t := None)\<rparr>)"
  unfolding hinv_def by auto

lemma hinv_Get:
  assumes "hinv s" "getOrCreate gname (hctl s) = (a, c)"
  shows "hinv (s\<lparr>hctl := c, joining := (joining s)(t \<mapsto> (a, x))\<rparr>)"
proof -
  note g = getOrCreate_ok [OF hinvD(1) [OF assms(1)] assms(2)]
  have "hinv (s\<lparr>hctl := c\<rparr>)" by (rule hinv_mono [OF assms(1)]) (use g in auto)
  from hinv_joining(1) [OF this, of a t x] g show ?thesis by simp
qed

lemma hinv_Try:
  assumes "hinv s"
  shows "hinv (tryRegister t s)"
proof (cases "joining s t")
  case (Some j)
  obtain a name gname key rc where j: "j = (a, name, gname, key, rc)" by (cases j)
  have a: "a < length (hstore (hctl s))" using hinvD(2) [OF assms] Some j by blast
  note cok = hinvD(1) [OF assms]
  obtain res c where g: "GroupRegister a name gname key rc (hctl s) = (res, c)" by fastforce
  show ?thesis
  proof (cases res)
    case (Inl e)
    then have c: "c = hctl s" using GroupRegister_Inl [OF cok a, of name gname key rc e] g by simp
    show ?thesis
    proof (cases "e = errGroupStale")
      case True
      obtain b c1 where b: "getOrCreate gname c = (b, c1)" by fastforce
      with True Some j g Inl c hinv_Get [OF assms, of gname b c1 t "(name, gname, key, rc)"] show ?thesis
        by (simp add: tryRegister_def)
    next
      case False
      with Some j g Inl c hinv_joining(2) [OF assms, of t] show ?thesis
        by (cases e) (simp_all add: tryRegister_def)
    qed
  next
    case (Inr u)
    then have gr: "GroupRegister a name gname key rc (hctl s) = (Inr (), c)" using g by simp
    have "hinv (s\<lparr>hctl := c\<rparr>)"
    proof (rule hinv_mono [OF assms GroupRegister_ok [OF cok a gr]])
      show "length (hstore (hctl s)) \<le> length (hstore c)" by (rule GroupRegister_Inr [OF cok a gr]) simp
      show "set (pxyNames (grp b (hctl s))) \<subseteq> set (pxyNames (grp b c))" if "b < length (hstore (hctl s))" for b
        by (rule GroupRegister_Inr [OF cok a gr]) (use a in auto)
    qed
    from hinv_joining(2) [OF this, of t] Some j g Inr show ?thesis by (simp add: tryRegister_def)
  qed
qed (use assms in \<open>simp add: tryRegister_def\<close>)

lemma hinv_Leave:
  assumes "hinv s" "hguard (HLeave t name gname) s"
  shows "hinv (hhappen (HLeave t name gname) s)"
proof -
  obtain a where a: "groups (hctl s) gname = Some a" "name \<in> set (pxyNames (grp a (hctl s)))" "(a, name) \<notin> ran (leaving s)"
    using assms(2) by (auto split: option.splits)
  from ctl_okD(3) [OF hinvD(1) [OF assms(1)] a(1)] assms(1) a show ?thesis
    unfolding hinv_def by (auto simp: ran_def)
qed

lemma hinv_UnRegister:
  assumes "hinv s"
  shows "hinv (hhappen (HUnRegister t) s)"
proof (cases "leaving s t")
  case (Some x)
  obtain a name where x: "x = (a, name)" by (cases x)
  note l = hinvD(3) [OF assms Some [unfolded x]]
  let ?c = "GroupUnRegister a name (hctl s)"
  note u = GroupUnRegister_ok [OF hinvD(1) [OF assms] l [THEN conjunct1] l [THEN conjunct2]]
  have "name' \<in> set (pxyNames (grp b ?c))" if "leaving s t' = Some (b, name')" "t' \<noteq> t" for t' b name'
  proof -
    have "(b, name') \<noteq> (a, name)" using that hinvD(4) [OF assms, of t' _ t] Some x by auto
    with hinvD(3) [OF assms that(1)] u show ?thesis by (auto simp: in_set_remove1)
  qed
  moreover have "b < length (hstore ?c)" if "leaving s t' = Some (b, name')" for t' b name'
    using hinvD(3) [OF assms that] u by simp
  moreover have "b < length (hstore ?c)" if "joining s t' = Some (b, y)" for t' b y
    using hinvD(2) [OF assms that] u by simp
  ultimately show ?thesis using u hinvD(4) [OF assms] Some x unfolding hinv_def by (auto split: if_splits)
qed (use assms in simp)

lemma bump_fields: "a < length (hstore c) \<Longrightarrow> grp b (bump a c) = (if b = a then (grp a c)\<lparr>gindex := gindex (grp a c) + 1\<rparr> else grp b c)"
  "length (hstore (bump a c)) = length (hstore c)" "groups (bump a c) = groups c" "vhostRouter (bump a c) = vhostRouter c"
  by (simp_all add: bump_def)

lemma ctl_ok_bump:
  assumes "ctl_ok c" "a < length (hstore c)"
  shows "ctl_ok (bump a c)"
proof (rule ctl_okI)
  have s: "createFuncs (grp b (bump a c)) = createFuncs (grp b c)" "hgroup (grp b (bump a c)) = hgroup (grp b c)"
    "route_of (grp b (bump a c)) = route_of (grp b c)" "group_ok (grp b (bump a c)) = group_ok (grp b c)" for b
    using assms(2) by (auto simp: bump_fields route_of_def group_ok_def)
  note f = bump_fields(2,3,4) s
  show "routers_ok (vhostRouter (bump a c))" using ctl_okD(1) [OF assms(1)] by (simp add: f)
  show "group_ok (grp b (bump a c))" if "b < length (hstore (bump a c))" for b
    using that ctl_okD(2) [OF assms(1)] by (simp add: f)
  show "b < length (hstore (bump a c))" if "groups (bump a c) n = Some b" for n b
    using that ctl_okD(3) [OF assms(1)] by (simp add: f)
  show "groups (bump a c) (hgroup (grp b (bump a c))) = Some b \<and>
      route_table (vhostRouter (bump a c)) (route_of (grp b (bump a c))) = Some (HGroup b)"
    if "b < length (hstore (bump a c))" "createFuncs (grp b (bump a c)) \<noteq> []" for b
    using that ctl_okD(4) [OF assms(1), of b] by (simp add: f)
  show "b < length (hstore (bump a c)) \<and> createFuncs (grp b (bump a c)) \<noteq> [] \<and> k = route_of (grp b (bump a c))"
    if "route_table (vhostRouter (bump a c)) k = Some (HGroup b)" for k b
    using that ctl_okD(5) [OF assms(1), of k b] by (simp add: f)
qed

lemma ctl_ok_router:
  assumes "ctl_ok c" "routers_ok r"
    and "\<And>k a. route_table r k = Some (HGroup a) \<longleftrightarrow> route_table (vhostRouter c) k = Some (HGroup a)"
  shows "ctl_ok (c\<lparr>vhostRouter := r\<rparr>)"
  using assms unfolding ctl_ok_def by simp

lemma hinv_event:
  assumes "hinv s" "hguard e s"
  shows "hinv (hhappen e s)"
proof (cases e)
  case (HGet t name gname key rc)
  obtain a c where "getOrCreate gname (hctl s) = (a, c)" by fastforce
  with hinv_Get [OF assms(1) this] HGet show ?thesis by simp
next
  case (HTry t)
  with hinv_Try [OF assms(1)] show ?thesis by simp
next
  case (HLeave t name gname)
  with hinv_Leave assms show ?thesis by blast
next
  case (HUnRegister t)
  with hinv_UnRegister assms show ?thesis by blast
next
  case (HRequest a)
  with assms(2) have a: "a < length (hstore (hctl s))" by simp
  have "hinv (s\<lparr>hctl := bump a (hctl s)\<rparr>)"
    by (rule hinv_mono [OF assms(1) ctl_ok_bump [OF hinvD(1) [OF assms(1)] a]]) (use a in \<open>auto simp: bump_fields\<close>)
  with HRequest show ?thesis by (simp add: chooseEndpoint_def)
next
  case (HProxyAdd d l u name)
  let ?r = "vhostRouter (hctl s)"
  note rok = ctl_okD(1) [OF hinvD(1) [OF assms(1)]]
  have t: "route_table (snd (RoutersAdd d l u (HProxy name) ?r)) =
      (if route_table ?r (ToLower d, u, l) = None then (route_table ?r)((ToLower d, u, l) \<mapsto> HProxy name) else route_table ?r)"
    using routes.add_table [OF rok] routes.add_conflict [OF rok, of d u l "HProxy name"] by simp
  have "ctl_ok ((hctl s)\<lparr>vhostRouter := snd (RoutersAdd d l u (HProxy name) ?r)\<rparr>)"
    by (rule ctl_ok_router [OF hinvD(1) [OF assms(1)] routes.add_wf [OF rok]]) (auto simp: t split: if_splits)
  from hinv_mono [OF assms(1) this] HProxyAdd show ?thesis by simp
next
  case (HProxyDel d l u)
  let ?r = "vhostRouter (hctl s)"
  note rok = ctl_okD(1) [OF hinvD(1) [OF assms(1)]]
  have "ctl_ok ((hctl s)\<lparr>vhostRouter := RoutersDel d l u ?r\<rparr>)"
    by (rule ctl_ok_router [OF hinvD(1) [OF assms(1)] routes.del_wf [OF rok]])
       (use assms(2) HProxyDel in \<open>auto simp: routes.del_table [OF rok]\<close>)
  from hinv_mono [OF assms(1) this] HProxyDel show ?thesis by simp
qed

lemma hinv_start: "hinv hstart"
  using ctl_ok_New by (simp add: hinv_def hstart_def)

interpretation http_groups: event_system hguard hhappen hstart hinv
  by unfold_locales (auto simp: hinv_start hinv_event)

section \<open>Properties\<close>

lemma nextName_member: "group_ok g \<Longrightarrow> pxyNames g \<noteq> [] \<Longrightarrow> \<exists>name f. nextName g = Some name \<and> name \<in> set (pxyNames g) \<and> map_of (createFuncs g) name = Some f"
  unfolding nextName_def using group_ok_names
  by (metis length_greater_0_conv mod_less_divisor nth_mem option.exhaust)

text \<open>C17. Group routes and groups stay in step.  However proxies join and leave their groups, compete for routes and
  look groups up while others disappear, a route leads to a group exactly when the group has members, and a group with
  members is the registered one of its name; so a request that is routed to a group is given a member that has a
  connection function.\<close>

theorem group_route_serves:
  assumes "steps hguard hhappen hstart s"
  shows "((\<exists>k. route_table (vhostRouter (hctl s)) k = Some (HGroup a)) \<longleftrightarrow>
            a < length (hstore (hctl s)) \<and> pxyNames (grp a (hctl s)) \<noteq> []) \<and>
         (a < length (hstore (hctl s)) \<longrightarrow> pxyNames (grp a (hctl s)) \<noteq> [] \<longrightarrow> groups (hctl s) (hgroup (grp a (hctl s))) = Some a) \<and>
         (getByRoute host path user (vhostRouter (hctl s)) = Some vr \<longrightarrow> rpayload vr = HGroup a \<longrightarrow>
            '''' \<notin> set (pxyNames (grp a (hctl s))) \<longrightarrow>
            (\<exists>name f. fst (chooseEndpoint a (hctl s)) = Some name \<and> createConnByEndpoint a name (hctl s) = Some f))"
proof -
  have ok: "ctl_ok (hctl s)" using hinvD(1) [OF http_groups.good_reached [OF assms]] .
  have iff: "(\<exists>k. route_table (vhostRouter (hctl s)) k = Some (HGroup a)) \<longleftrightarrow>
      a < length (hstore (hctl s)) \<and> pxyNames (grp a (hctl s)) \<noteq> []"
    using ctl_okD(4,5) [OF ok] group_ok_empty [OF ctl_okD(2) [OF ok]] by metis
  have "\<exists>name f. fst (chooseEndpoint a (hctl s)) = Some name \<and> createConnByEndpoint a name (hctl s) = Some f"
    if "getByRoute host path user (vhostRouter (hctl s)) = Some vr" "rpayload vr = HGroup a"
      "'''' \<notin> set (pxyNames (grp a (hctl s)))"
  proof -
    have "a < length (hstore (hctl s))" "pxyNames (grp a (hctl s)) \<noteq> []"
      using getByRoute_table [OF ctl_okD(1) [OF ok] that(1)] that(2) iff by auto
    from nextName_member [OF ctl_okD(2) [OF ok this(1)] this(2)] that(3) show ?thesis
      by (auto simp: chooseEndpoint_def createConnByEndpoint_def)
  qed
  moreover have "groups (hctl s) (hgroup (grp a (hctl s))) = Some a"
    if "a < length (hstore (hctl s))" "pxyNames (grp a (hctl s)) \<noteq> []"
    using ctl_okD(4) [OF ok that(1)] group_ok_empty [OF ctl_okD(2) [OF ok that(1)]] that(2) by simp
  ultimately show ?thesis using iff by blast
qed

definition demo_rc :: "nat \<Rightarrow> route_config" where
  "demo_rc f = \<lparr>Domain = ''Example.com'', Location = ''/'', RouteByHTTPUser = '''', CreateConnFn = f\<rparr>"

definition demo_groups :: hsys where
  "demo_groups = fold hhappen [HGet 0 ''p1'' ''g'' ''k'' (demo_rc 7), HTry 0, HGet 1 ''p2'' ''g'' ''k'' (demo_rc 8), HTry 1] hstart"

lemma demo_groups_reached: "steps hguard hhappen hstart demo_groups"
  unfolding demo_groups_def
proof (rule steps_run)
  have "joining (hhappen (HTry 0) (hhappen (HGet 0 ''p1'' ''g'' ''k'' (demo_rc 7)) hstart)) 1 = None"
    by code_simp
  then show "run_ok hguard hhappen [HGet 0 ''p1'' ''g'' ''k'' (demo_rc 7), HTry 0, HGet 1 ''p2'' ''g'' ''k'' (demo_rc 8), HTry 1] hstart"
    by (simp add: hstart_def split_beta)
qed

theorem group_route_serves_witness:
  "\<exists>vr name f. getByRoute ''example.com'' ''/x'' '''' (vhostRouter (hctl demo_groups)) = Some vr \<and>
     fst (chooseEndpoint 0 (hctl demo_groups)) = Some name \<and> createConnByEndpoint 0 name (hctl demo_groups) = Some f"
proof -
  have "map_option rpayload (getByRoute ''example.com'' ''/x'' '''' (vhostRouter (hctl demo_groups))) = Some (HGroup 0)"
    by code_simp
  then obtain vr where v: "getByRoute ''example.com'' ''/x'' '''' (vhostRouter (hctl demo_groups)) = Some vr" "rpayload vr = HGroup 0"
    by auto
  have "pxyNames (grp 0 (hctl demo_groups)) = [''p1'', ''p2'']" by code_simp
  with group_route_serves [OF demo_groups_reached, of 0 "''example.com''" "''/x''" "''''" vr] v show ?thesis by auto
qed

text \<open>Successive choices of an endpoint.\<close>

fun chooses :: "nat \<Rightarrow> nat \<Rightarrow> HTTPGroupController \<Rightarrow> string option list \<times> HTTPGroupController" where
  "chooses a 0 ctl = ([], ctl)"
| "chooses a (Suc n) ctl =
     (let (e, ctl1) = chooseEndpoint a ctl; (es, ctl2) = chooses a n ctl1 in (e # es, ctl2))"

lemma chooses_eq:
  assumes "a < length (hstore c)" "pxyNames (grp a c) \<noteq> []" "'''' \<notin> set (pxyNames (grp a c))"
    and "unat (gindex (grp a c)) + n < 2 ^ 64"
  shows "fst (chooses a n c) =
    map (\<lambda>i. Some (pxyNames (grp a c) ! ((unat (gindex (grp a c)) + 1 + i) mod length (pxyNames (grp a c))))) [0..<n]"
  using assms
proof (induction n arbitrary: c)
  case (Suc n)
  let ?g = "grp a c" and ?c = "bump a c"
  have i: "unat (gindex ?g + 1) = unat (gindex ?g) + 1"
    using Suc.prems(4) by (simp add: unat_word_ariths)
  have g: "grp a ?c = ?g\<lparr>gindex := gindex ?g + 1\<rparr>" using Suc.prems(1) by (simp add: bump_fields)
  have "pxyNames ?g ! (unat (gindex ?g + 1) mod length (pxyNames ?g)) \<noteq> ''''"
    using Suc.prems(2,3) by (metis length_greater_0_conv mod_less_divisor nth_mem)
  then have e: "chooseEndpoint a c = (Some (pxyNames ?g ! ((unat (gindex ?g) + 1) mod length (pxyNames ?g))), ?c)"
    using Suc.prems(2) i by (simp add: chooseEndpoint_def nextName_def)
  have "fst (chooses a n ?c) = map (\<lambda>k. Some (pxyNames ?g ! ((unat (gindex ?g) + 1 + 1 + k) mod length (pxyNames ?g)))) [0..<n]"
    using Suc.IH [of ?c] Suc.prems by (simp add: g i bump_fields(2))
  then show ?case by (simp add: e split_beta upt_conv_Cons map_Suc_upt [symmetric] comp_def del: upt_Suc map_Suc_upt)
qed simp

lemma mset_rotated: "mset (map (\<lambda>i. f (xs ! ((k + i) mod length xs))) [0..<length xs]) = mset (map f xs)"
proof -
  have "map (\<lambda>i. xs ! ((k + i) mod length xs)) [0..<length xs] = rotate k xs"
    by (intro nth_equalityI) (auto simp: nth_rotate)
  then have "map (\<lambda>i. f (xs ! ((k + i) mod length xs))) [0..<length xs] = map f (rotate k xs)"
    by (metis (mono_tags, lifting) map_map comp_def map_cong)
  moreover have "mset (rotate k xs) = mset xs"
    unfolding rotate_drop_take by (metis append_take_drop_id mset_append union_commute)
  ultimately show ?thesis by (metis mset_map)
qed

text \<open>Requests are dealt out evenly: as many successive choices as a group has members pick every member exactly
  once, in whatever position the group's counter stands, as long as it does not wrap around on the way.\<close>

theorem round_robin_fair:
  assumes "steps hguard hhappen hstart s" "a < length (hstore (hctl s))"
    and "pxyNames (grp a (hctl s)) \<noteq> []" "'''' \<notin> set (pxyNames (grp a (hctl s)))"
    and "unat (gindex (grp a (hctl s))) + length (pxyNames (grp a (hctl s))) < 2 ^ 64"
  shows "mset (fst (chooses a (length (pxyNames (grp a (hctl s)))) (hctl s))) = mset (map Some (pxyNames (grp a (hctl s)))) \<and>
         distinct (pxyNames (grp a (hctl s)))"
proof -
  have "group_ok (grp a (hctl s))"
    by (rule ctl_okD(2) [OF hinvD(1) [OF http_groups.good_reached [OF assms(1)]] assms(2)])
  then show ?thesis
    unfolding chooses_eq [OF assms(2-5)] mset_rotated by (simp add: group_ok_def)
qed

theorem round_robin_fair_witness:
  "mset (fst (chooses 0 2 (hctl demo_groups))) = {#Some ''p1'', Some ''p2''#}"
proof -
  have g: "pxyNames (grp 0 (hctl demo_groups)) = [''p1'', ''p2'']" "unat (gindex (grp 0 (hctl demo_groups))) = 0"
    "length (hstore (hctl demo_groups)) = 1" by code_simp+
  from round_robin_fair [OF demo_groups_reached, of 0] show ?thesis
    unfolding g by (simp add: numeral_2_eq_2 [symmetric] del: chooses.simps One_nat_def)
qed

end
