(* ===== verification/Port_Manager.thy ===== *)
theory Port_Manager
  imports Prelude
begin

text \<open>
  The port manager of \<^verbatim>\<open>server/ports/ports.go\<close>.  \<^verbatim>\<open>PortCtx\<close> values are shared between the used
  and the reserved map and mutated through either, so they live in a store and the maps hold
  addresses.  Every method runs under the manager's lock.  What a method takes from its
  environment is an argument: the result of probing a port by binding it (\<open>avail\<close>), the clock
  (\<open>now\<close>, in nanoseconds) and the order in which a map is iterated (\<open>order\<close>).
\<close>

section \<open>Data\<close>

record ports_range =
  RStart :: int
  REnd :: int
  RSingle :: int

record port_ctx =
  ProxyName :: string
  CPort :: int
  Closed :: bool
  UpdateTime :: int

record manager =
  store :: "port_ctx list"
  reservedPorts :: "string \<rightharpoonup> nat"
  usedPorts :: "int \<rightharpoonup> nat"
  freePorts :: "int set"

datatype port_error = ErrPortAlreadyUsed | ErrPortNotAllowed | ErrPortUnAvailable | ErrNoAvailablePort

definition MinPort :: int where "MinPort = 1"
definition MaxPort :: int where "MaxPort = 65535"

text \<open>24 hours in nanoseconds.\<close>

definition MaxPortReservedDuration :: int where
  "MaxPortReservedDuration = 24 * 3600 * 1000000000"

section \<open>Operations\<close>

definition range_ports :: "ports_range \<Rightarrow> int set" where
  "range_ports r = (if RSingle r > 0 then {RSingle r} else {RStart r..REnd r})"

definition allowed_ports :: "ports_range list \<Rightarrow> int set" where
  "allowed_ports allowPorts =
     (if allowPorts \<noteq> [] then \<Union> (set (map range_ports allowPorts)) else {MinPort..MaxPort})"

definition NewManager :: "ports_range list \<Rightarrow> manager" where
  "NewManager allowPorts =
     \<lparr>store = [], reservedPorts = Map.empty, usedPorts = Map.empty, freePorts = allowed_ports allowPorts\<rparr>"

definition markPortAcquiredLocked :: "string \<Rightarrow> int \<Rightarrow> port_ctx \<Rightarrow> manager \<Rightarrow> manager" where
  "markPortAcquiredLocked name port ctx pm =
     (let a = length (store pm) in
      pm\<lparr>store := store pm @ [ctx],
         usedPorts := (usedPorts pm)(port \<mapsto> a),
         reservedPorts := (reservedPorts pm)(name \<mapsto> a),
         freePorts := freePorts pm - {port}\<rparr>)"

text \<open>The context \<open>Acquire\<close> allocates, with the port it is given when the call succeeds.\<close>

definition newCtx :: "int \<Rightarrow> string \<Rightarrow> int \<Rightarrow> port_ctx" where
  "newCtx now name port = \<lparr>ProxyName = name, CPort = port, Closed = False, UpdateTime = now\<rparr>"

text \<open>The first available port among the first \<open>maxTryTimes\<close> that the iteration meets; 0 for none.\<close>

fun tryPorts :: "(int \<Rightarrow> bool) \<Rightarrow> nat \<Rightarrow> int list \<Rightarrow> int option" where
  "tryPorts avail n [] = None"
| "tryPorts avail n (k # ks) =
     (if n = 0 then None else if avail k then Some k else tryPorts avail (n - 1) ks)"

definition maxTryTimes :: nat where "maxTryTimes = 5"

definition reservedPort :: "(int \<Rightarrow> bool) \<Rightarrow> string \<Rightarrow> manager \<Rightarrow> int option" where
  "reservedPort avail name pm =
     (case reservedPorts pm name of
        None \<Rightarrow> None
      | Some a \<Rightarrow> let p = CPort (store pm ! a) in if avail p then Some p else None)"

definition Acquire ::
    "(int \<Rightarrow> bool) \<Rightarrow> int \<Rightarrow> int list \<Rightarrow> string \<Rightarrow> int \<Rightarrow> manager \<Rightarrow> (port_error + int) \<times> manager" where
  "Acquire avail now order name port pm =
     (let grant = (\<lambda>p. markPortAcquiredLocked name p (newCtx now name p) pm) in
      if port = 0 then
        (case reservedPort avail name pm of
           Some p \<Rightarrow> (Inr p, grant p)
         | None \<Rightarrow>
             (case tryPorts avail maxTryTimes order of
                None \<Rightarrow> (Inl ErrNoAvailablePort, pm)
              | Some p \<Rightarrow> (if p = 0 then Inl ErrNoAvailablePort else Inr p, grant p)))
      else if port \<in> freePorts pm then
        (if avail port then (Inr port, grant port) else (Inl ErrPortUnAvailable, pm))
      else if usedPorts pm port \<noteq> None then (Inl ErrPortAlreadyUsed, pm)
      else (Inl ErrPortNotAllowed, pm))"

definition Release :: "int \<Rightarrow> int \<Rightarrow> manager \<Rightarrow> manager" where
  "Release now port pm =
     (case usedPorts pm port of
        None \<Rightarrow> pm
      | Some a \<Rightarrow>
          pm\<lparr>freePorts := insert port (freePorts pm),
             usedPorts := (usedPorts pm)(port := None),
             store := (store pm)[a := (store pm ! a)\<lparr>Closed := True, UpdateTime := now\<rparr>]\<rparr>)"

definition stale :: "int \<Rightarrow> port_ctx \<Rightarrow> bool" where
  "stale now ctx \<longleftrightarrow> Closed ctx \<and> now - UpdateTime ctx > MaxPortReservedDuration"

fun clean_loop :: "int \<Rightarrow> string list \<Rightarrow> manager \<Rightarrow> manager" where
  "clean_loop now [] pm = pm"
| "clean_loop now (name # names) pm =
     clean_loop now names
       (case reservedPorts pm name of
          None \<Rightarrow> pm
        | Some a \<Rightarrow>
            if stale now (store pm ! a) then pm\<lparr>reservedPorts := (reservedPorts pm)(name := None)\<rparr> else pm)"

definition cleanReservedPortsOnce :: "int \<Rightarrow> string list \<Rightarrow> manager \<Rightarrow> manager" where
  "cleanReservedPortsOnce now order pm = clean_loop now order pm"

section \<open>Executions\<close>

datatype port_op =
    OpAcquire "int \<Rightarrow> bool" int "int list" string int
  | OpRelease int int
  | OpClean int "string list"

text \<open>An iteration of a map meets each key once.\<close>

fun op_ok :: "port_op \<Rightarrow> manager \<Rightarrow> bool" where
  "op_ok (OpAcquire avail now order name port) pm \<longleftrightarrow> distinct order \<and> set order = freePorts pm"
| "op_ok (OpRelease now port) pm \<longleftrightarrow> True"
| "op_ok (OpClean now order) pm \<longleftrightarrow> distinct order \<and> set order = dom (reservedPorts pm)"

fun perform :: "port_op \<Rightarrow> manager \<Rightarrow> manager" where
  "perform (OpAcquire avail now order name port) pm = snd (Acquire avail now order name port pm)"
| "perform (OpRelease now port) pm = Release now port pm"
| "perform (OpClean now order) pm = cleanReservedPortsOnce now order pm"

inductive reachable :: "ports_range list \<Rightarrow> manager \<Rightarrow> bool" for allow where
  init: "reachable allow (NewManager allow)"
| step: "reachable allow pm \<Longrightarrow> op_ok opn pm \<Longrightarrow> reachable allow (perform opn pm)"

section \<open>Invariant\<close>

text \<open>
  Used and free ports partition the allowed ones, a used port's context carries that port and is
  open, and reservations point to contexts of the same proxy on an allowed port.
\<close>

definition inv :: "int set \<Rightarrow> manager \<Rightarrow> bool" where
  "inv allowed pm \<longleftrightarrow>
     dom (usedPorts pm) \<inter> freePorts pm = {} \<and>
     dom (usedPorts pm) \<union> freePorts pm = allowed \<and>
     (\<forall>p a. usedPorts pm p = Some a \<longrightarrow>
        a < length (store pm) \<and> CPort (store pm ! a) = p \<and> \<not> Closed (store pm ! a)) \<and>
     (\<forall>n a. reservedPorts pm n = Some a \<longrightarrow>
        a < length (store pm) \<and> ProxyName (store pm ! a) = n \<and> CPort (store pm ! a) \<in> allowed)"

lemma invD:
  assumes "inv allowed pm"
  shows "dom (usedPorts pm) \<inter> freePorts pm = {}" "dom (usedPorts pm) \<union> freePorts pm = allowed"
    "usedPorts pm p = Some a \<Longrightarrow> a < length (store pm) \<and> CPort (store pm ! a) = p \<and> \<not> Closed (store pm ! a)"
    "reservedPorts pm n = Some a \<Longrightarrow>
       a < length (store pm) \<and> ProxyName (store pm ! a) = n \<and> CPort (store pm ! a) \<in> allowed"
  using assms unfolding inv_def by blast+

lemma inv_NewManager: "inv (allowed_ports allow) (NewManager allow)"
  by (simp add: inv_def NewManager_def)

lemma inv_mark:
  assumes "inv allowed pm" "p \<in> allowed"
  shows "inv allowed (markPortAcquiredLocked name p (newCtx now name p) pm)"
  using assms
  by (auto simp: inv_def markPortAcquiredLocked_def newCtx_def Let_def nth_append intro: less_SucI split: if_splits)

lemma tryPorts_Some: "tryPorts avail n ks = Some p \<Longrightarrow> p \<in> set ks \<and> avail p"
  by (induction ks arbitrary: n) (auto split: if_splits)

lemma reservedPort_Some:
  "inv allowed pm \<Longrightarrow> reservedPort avail name pm = Some p \<Longrightarrow> p \<in> allowed \<and> avail p"
  by (auto simp: reservedPort_def Let_def inv_def split: option.splits if_splits)

lemma Acquire_cases:
  obtains (refused) e where "Acquire avail now order name port pm = (Inl e, pm)"
  | (granted) p r where
      "Acquire avail now order name port pm = (r, markPortAcquiredLocked name p (newCtx now name p) pm)"
      "r = Inr p \<or> p = 0 \<and> port = 0 \<and> r = Inl ErrNoAvailablePort" "avail p" "r = Inr p \<longrightarrow> port = 0 \<or> p = port"
      "port = 0 \<and> reservedPort avail name pm = Some p \<or> p \<in> set order \<union> freePorts pm"
proof (cases "port = 0")
  case True
  show thesis
  proof (cases "reservedPort avail name pm")
    case None
    show thesis
    proof (cases "tryPorts avail maxTryTimes order")
      case None
      with True \<open>reservedPort avail name pm = None\<close> show thesis
        by (intro refused) (simp add: Acquire_def Let_def)
    next
      case (Some p)
      with True \<open>reservedPort avail name pm = None\<close> tryPorts_Some [OF Some] show thesis
        by (intro granted [of "if p = 0 then Inl ErrNoAvailablePort else Inr p" p])
           (simp_all add: Acquire_def Let_def)
    qed
  next
    case (Some p)
    then have "avail p" by (auto simp: reservedPort_def Let_def split: option.splits if_splits)
    with True Some show thesis
      by (intro granted [of "Inr p" p]) (simp_all add: Acquire_def Let_def)
  qed
next
  case False
  show thesis
  proof (cases "port \<in> freePorts pm \<and> avail port")
    case True
    with False show thesis by (intro granted [of "Inr port" port]) (simp_all add: Acquire_def Let_def)
  next
    case False
    with \<open>port \<noteq> 0\<close> have "\<exists>e. Acquire avail now order name port pm = (Inl e, pm)"
      by (simp add: Acquire_def Let_def)
    with refused show thesis by blast
  qed
qed

lemma inv_Acquire:
  assumes "inv allowed pm" "set order = freePorts pm"
  shows "inv allowed (snd (Acquire avail now order name port pm))"
proof (cases rule: Acquire_cases [of avail now order name port pm])
  case refused
  with assms show ?thesis by simp
next
  case (granted p r)
  then have "p \<in> allowed"
    using reservedPort_Some [OF assms(1)] assms(2) invD(2) [OF assms(1)] by blast
  with granted(1) assms(1) show ?thesis by (simp add: inv_mark)
qed

lemma inv_Release:
  assumes "inv allowed pm" shows "inv allowed (Release now port pm)"
proof (cases "usedPorts pm port")
  case None
  then show ?thesis using assms by (simp add: Release_def)
next
  case (Some a)
  let ?pm = "Release now port pm"
  have a: "a < length (store pm)" "CPort (store pm ! a) = port" using invD(3) [OF assms Some] by auto
  have other: "b \<noteq> a" if "usedPorts pm p = Some b" "p \<noteq> port" for p b
    using invD(3) [OF assms that(1)] a(2) that(2) by auto
  have st: "store ?pm ! b = (if b = a then (store pm ! a)\<lparr>Closed := True, UpdateTime := now\<rparr> else store pm ! b)"
    "length (store ?pm) = length (store pm)" for b
    using a(1) by (simp_all add: Release_def Some)
  have fl: "freePorts ?pm = insert port (freePorts pm)" "usedPorts ?pm = (usedPorts pm)(port := None)"
    "reservedPorts ?pm = reservedPorts pm"
    by (simp_all add: Release_def Some)
  have "port \<in> dom (usedPorts pm)" using Some by blast
  show ?thesis unfolding inv_def st fl
  proof (intro conjI allI impI)
    show "dom ((usedPorts pm)(port := None)) \<inter> insert port (freePorts pm) = {}"
      using invD(1) [OF assms] by auto
    show "dom ((usedPorts pm)(port := None)) \<union> insert port (freePorts pm) = allowed"
      using invD(2) [OF assms] \<open>port \<in> dom (usedPorts pm)\<close> by auto
  next
    fix p b
    assume "((usedPorts pm)(port := None)) p = Some b"
    then have "usedPorts pm p = Some b" "p \<noteq> port" by (auto split: if_splits)
    with invD(3) [OF assms] other
    show "b < length (store pm)"
      "CPort (if b = a then (store pm ! a)\<lparr>Closed := True, UpdateTime := now\<rparr> else store pm ! b) = p"
      "\<not> Closed (if b = a then (store pm ! a)\<lparr>Closed := True, UpdateTime := now\<rparr> else store pm ! b)"
      by auto
  next
    fix n b
    assume "reservedPorts pm n = Some b"
    with invD(4) [OF assms, of n b]
    show "b < length (store pm)"
      "ProxyName (if b = a then (store pm ! a)\<lparr>Closed := True, UpdateTime := now\<rparr> else store pm ! b) = n"
      "CPort (if b = a then (store pm ! a)\<lparr>Closed := True, UpdateTime := now\<rparr> else store pm ! b) \<in> allowed"
      by auto
  qed
qed

lemma clean_loop_fields:
  "store (clean_loop now names pm) = store pm \<and> usedPorts (clean_loop now names pm) = usedPorts pm \<and>
   freePorts (clean_loop now names pm) = freePorts pm"
  by (induction names arbitrary: pm) (auto split: option.splits)

lemma clean_loop_reserved:
  "reservedPorts (clean_loop now names pm) n =
   (case reservedPorts pm n of
      None \<Rightarrow> None
    | Some a \<Rightarrow> if n \<in> set names \<and> stale now (store pm ! a) then None else Some a)"
  by (induction names arbitrary: pm) (auto split: option.splits if_splits)

lemma inv_clean: "inv allowed pm \<Longrightarrow> inv allowed (cleanReservedPortsOnce now order pm)"
  unfolding inv_def cleanReservedPortsOnce_def
  by (auto simp: clean_loop_fields clean_loop_reserved split: option.splits if_splits)

lemma inv_perform: "inv allowed pm \<Longrightarrow> op_ok opn pm \<Longrightarrow> inv allowed (perform opn pm)"
  by (cases opn) (auto intro: inv_Acquire inv_Release inv_clean)

lemma reachable_inv: "reachable allow pm \<Longrightarrow> inv (allowed_ports allow) pm"
  by (induction rule: reachable.induct) (auto intro: inv_NewManager inv_perform)

section \<open>What callers get\<close>

text \<open>The proxy to which a port is currently granted.\<close>

definition holder :: "manager \<Rightarrow> int \<Rightarrow> string option" where
  "holder pm p = map_option (\<lambda>a. ProxyName (store pm ! a)) (usedPorts pm p)"

lemma holder_mark:
  assumes "inv allowed pm"
  shows "holder (markPortAcquiredLocked name p (newCtx now name p) pm) q =
         (if q = p then Some name else holder pm q)"
proof (cases "usedPorts pm q")
  case None
  then show ?thesis by (simp add: holder_def markPortAcquiredLocked_def newCtx_def Let_def)
next
  case (Some a)
  with invD(3) [OF assms Some] show ?thesis
    by (simp add: holder_def markPortAcquiredLocked_def newCtx_def Let_def nth_append)
qed

text \<open>C23. The port ledger stays consistent: in every state the manager can reach, whatever proxies
  acquire and release and whenever reservations are cleaned, each allowed port is either free or
  granted and never both, and a granted port's record carries that port and is not closed.\<close>

theorem ports_partitioned:
  assumes "reachable allow pm"
  shows "dom (usedPorts pm) \<inter> freePorts pm = {} \<and>
         dom (usedPorts pm) \<union> freePorts pm = allowed_ports allow \<and>
         (\<forall>p a. usedPorts pm p = Some a \<longrightarrow> CPort (store pm ! a) = p \<and> \<not> Closed (store pm ! a))"
  using reachable_inv [OF assms] unfolding inv_def by blast

definition demo_allow :: "ports_range list" where
  "demo_allow = [\<lparr>RStart = 0, REnd = 0, RSingle = 6000\<rparr>]"

definition demo_pm :: manager where
  "demo_pm = perform (OpAcquire (\<lambda>_. True) 2 [6000] ''b'' 6000)
     (perform (OpRelease 1 6000) (perform (OpAcquire (\<lambda>_. True) 0 [6000] ''a'' 6000) (NewManager demo_allow)))"

lemmas port_eval = demo_allow_def NewManager_def allowed_ports_def range_ports_def Acquire_def Release_def
  markPortAcquiredLocked_def newCtx_def reservedPort_def Let_def

lemma demo_pm_eval:
  "demo_pm = \<lparr>store = [\<lparr>ProxyName = ''a'', CPort = 6000, Closed = True, UpdateTime = 1\<rparr>,
                       \<lparr>ProxyName = ''b'', CPort = 6000, Closed = False, UpdateTime = 2\<rparr>],
     reservedPorts = [''a'' \<mapsto> 0, ''b'' \<mapsto> 1], usedPorts = [6000 \<mapsto> 1], freePorts = {}\<rparr>"
  by (auto simp: demo_pm_def port_eval)

lemma demo_pm_reachable: "reachable demo_allow demo_pm"
  unfolding demo_pm_def
  by (intro reachable.step reachable.init) (auto simp: port_eval)

theorem ports_partitioned_witness:
  "dom (usedPorts demo_pm) \<inter> freePorts demo_pm = {} \<and>
   dom (usedPorts demo_pm) \<union> freePorts demo_pm = allowed_ports demo_allow \<and>
   usedPorts demo_pm 6000 = Some 1 \<and> CPort (store demo_pm ! 1) = 6000 \<and> \<not> Closed (store demo_pm ! 1)"
proof -
  have u: "usedPorts demo_pm 6000 = Some 1" by (simp add: demo_pm_eval)
  with ports_partitioned [OF demo_pm_reachable] show ?thesis by blast
qed

text \<open>A successful Acquire gives an allowed port that could be bound, records the caller as its
  holder, takes it off the free list and disturbs no other port; a port asked for by number is the
  port given and was free, so no port asked for by number is ever granted twice.\<close>

theorem acquire_grants:
  assumes "reachable allow pm" "set order = freePorts pm"
    and "Acquire avail now order name port pm = (Inr p, pm')"
  shows "p \<in> allowed_ports allow \<and> avail p \<and> p \<notin> freePorts pm' \<and>
         (port \<noteq> 0 \<longrightarrow> p = port \<and> holder pm p = None) \<and>
         (\<forall>q. holder pm' q = (if q = p then Some name else holder pm q))"
proof (cases rule: Acquire_cases [of avail now order name port pm])
  case (refused e)
  with assms(3) show ?thesis by simp
next
  case (granted p' r)
  note i = reachable_inv [OF assms(1)]
  have p: "p' = p" "pm' = markPortAcquiredLocked name p (newCtx now name p) pm"
    using granted(1,2) assms(3) by auto
  have "p \<in> allowed_ports allow"
    using granted(5) reservedPort_Some [OF i] invD(2) [OF i] assms(2) p(1) by blast
  moreover have "port \<noteq> 0 \<longrightarrow> p = port \<and> holder pm p = None"
    using granted(4,5) assms p(1) granted(1) invD(1) [OF i] by (auto simp: holder_def)
  moreover have "holder pm' q = (if q = p then Some name else holder pm q)" for q
    unfolding p(2) by (rule holder_mark [OF i])
  moreover have "p \<notin> freePorts pm'" by (simp add: p(2) markPortAcquiredLocked_def Let_def)
  ultimately show ?thesis using granted(3) p(1) by blast
qed

theorem acquire_grants_witness:
  "\<exists>pm'. Acquire (\<lambda>_. True) 0 [6000] ''a'' 6000 (NewManager demo_allow) = (Inr 6000, pm') \<and>
      holder pm' 6000 = Some ''a''"
proof -
  have s: "set [6000] = freePorts (NewManager demo_allow)" by (simp add: port_eval)
  obtain pm' where a: "Acquire (\<lambda>_. True) 0 [6000] ''a'' 6000 (NewManager demo_allow) = (Inr 6000, pm')"
    by (simp add: port_eval)
  with acquire_grants [OF reachable.init s a] show ?thesis by auto
qed

section \<open>Sticky ports\<close>

primrec performs :: "port_op list \<Rightarrow> manager \<Rightarrow> manager" where
  "performs [] pm = pm"
| "performs (o1 # os) pm = performs os (perform o1 pm)"

primrec ops_ok :: "port_op list \<Rightarrow> manager \<Rightarrow> bool" where
  "ops_ok [] pm \<longleftrightarrow> True"
| "ops_ok (o1 # os) pm \<longleftrightarrow> op_ok o1 pm \<and> ops_ok os (perform o1 pm)"

text \<open>Operations of other proxies, and cleanings within a day of time \<open>t\<close>.\<close>

fun quiet :: "string \<Rightarrow> int \<Rightarrow> port_op \<Rightarrow> bool" where
  "quiet name t (OpAcquire avail now order n port) \<longleftrightarrow> n \<noteq> name"
| "quiet name t (OpRelease now port) \<longleftrightarrow> True"
| "quiet name t (OpClean now order) \<longleftrightarrow> now - t \<le> MaxPortReservedDuration"

definition parked :: "string \<Rightarrow> int \<Rightarrow> int \<Rightarrow> manager \<Rightarrow> bool" where
  "parked name p t pm \<longleftrightarrow>
     (\<exists>a. reservedPorts pm name = Some a \<and> a < length (store pm) \<and> CPort (store pm ! a) = p \<and>
          UpdateTime (store pm ! a) = t \<and> a \<notin> ran (usedPorts pm))"

lemma parked_mark:
  "parked name p t pm \<Longrightarrow> n \<noteq> name \<Longrightarrow> parked name p t (markPortAcquiredLocked n q (newCtx now n q) pm)"
  by (auto simp: parked_def markPortAcquiredLocked_def newCtx_def Let_def nth_append ran_def
      intro: less_SucI split: if_splits)

lemma parked_Release: "parked name p t pm \<Longrightarrow> parked name p t (Release now q pm)"
proof (cases "usedPorts pm q")
  case (Some b)
  assume "parked name p t pm"
  then obtain a where a: "reservedPorts pm name = Some a" "a < length (store pm)" "CPort (store pm ! a) = p"
    "UpdateTime (store pm ! a) = t" "a \<notin> ran (usedPorts pm)" unfolding parked_def by blast
  then have "a \<noteq> b" using Some by (auto simp: ran_def)
  with a show ?thesis by (auto simp: parked_def Release_def Some ran_def)
qed (simp add: Release_def)

lemma parked_clean:
  "parked name p t pm \<Longrightarrow> now - t \<le> MaxPortReservedDuration \<Longrightarrow>
   parked name p t (cleanReservedPortsOnce now order pm)"
  by (auto simp: parked_def cleanReservedPortsOnce_def clean_loop_fields clean_loop_reserved stale_def)

lemma parked_perform: "parked name p t pm \<Longrightarrow> quiet name t opn \<Longrightarrow> parked name p t (perform opn pm)"
proof (cases opn)
  case (OpAcquire avail now order n port)
  assume "parked name p t pm" "quiet name t opn"
  then show ?thesis
    using OpAcquire by (cases rule: Acquire_cases [of avail now order n port pm]) (auto intro: parked_mark)
qed (auto intro: parked_Release parked_clean)

lemma parked_performs:
  "parked name p t pm \<Longrightarrow> list_all (quiet name t) os \<Longrightarrow> parked name p t (performs os pm)"
  by (induction os arbitrary: pm) (auto intro: parked_perform)

lemma Release_parks:
  assumes "inv allowed pm" "usedPorts pm p = Some a" "reservedPorts pm name = Some a"
  shows "parked name p t (Release t p pm)"
proof -
  have a: "a < length (store pm)" "CPort (store pm ! a) = p" using invD(3) [OF assms(1,2)] by auto
  have "usedPorts pm q \<noteq> Some a" if "q \<noteq> p" for q
    using invD(3) [OF assms(1), of q a] a(2) that by auto
  with a assms(2,3) show ?thesis
    by (auto simp: parked_def Release_def ran_def)
qed

text \<open>Ports are sticky: a proxy that releases its port and asks for any port again gets the
  same port back, if it can still be bound, no matter what other proxies acquire and release
  meanwhile, as long as reservations are not cleaned later than 24 hours after the release.\<close>

theorem released_port_sticky:
  assumes "reachable allow pm" "usedPorts pm p = Some a" "reservedPorts pm name = Some a"
    and "ops_ok os (Release t p pm)" "list_all (quiet name t) os" "avail p"
  shows "fst (Acquire avail now order name 0 (performs os (Release t p pm))) = Inr p"
proof -
  have "parked name p t (performs os (Release t p pm))"
    using Release_parks [OF reachable_inv [OF assms(1)] assms(2,3)] assms(5) by (rule parked_performs)
  with assms(6) show ?thesis
    by (auto simp: parked_def Acquire_def reservedPort_def Let_def)
qed

theorem released_port_sticky_witness:
  "fst (Acquire (\<lambda>_. True) 9 [] ''b'' 0
      (performs [OpAcquire (\<lambda>_. True) 4 [6000] ''c'' 6000, OpClean 5 [''a'', ''b'', ''c''], OpRelease 6 6000]
        (Release 3 6000 demo_pm))) = Inr 6000"
proof (rule released_port_sticky [OF demo_pm_reachable])
  show "usedPorts demo_pm 6000 = Some 1" "reservedPorts demo_pm ''b'' = Some 1"
    by (simp_all add: demo_pm_eval)
  show "ops_ok [OpAcquire (\<lambda>_. True) 4 [6000] ''c'' 6000, OpClean 5 [''a'', ''b'', ''c''], OpRelease 6 6000]
        (Release 3 6000 demo_pm)"
    by (auto simp: demo_pm_eval port_eval split: if_splits)
qed (simp_all add: MaxPortReservedDuration_def)

text \<open>The reservation path can grant a port twice: there is a reachable state in which one
  proxy has been granted a port that it has not bound yet, and another proxy that asks for any
  port is granted the same one.\<close>

lemma reserved_port_double_grant:
  "\<exists>allow pm avail. reachable allow pm \<and> holder pm 6000 = Some ''b'' \<and>
     fst (Acquire avail 3 [] ''a'' 0 pm) = Inr 6000 \<and> set [] = freePorts pm"
proof (intro exI conjI)
  show "reachable demo_allow demo_pm" by (rule demo_pm_reachable)
  show "fst (Acquire (\<lambda>_. True) 3 [] ''a'' 0 demo_pm) = Inr 6000"
    "holder demo_pm 6000 = Some ''b''" "set [] = freePorts demo_pm"
    by (simp_all add: demo_pm_eval port_eval holder_def)
qed

end
