(* ===== verification/Listener_Group.thy ===== *)
theory Listener_Group
  imports Vhost_Router Port_Manager
begin

text \<open>
  Listener-based load-balancing groups: \<^verbatim>\<open>server/group/base.go\<close>, \<^verbatim>\<open>listener.go\<close>, \<^verbatim>\<open>tcp.go\<close>, \<^verbatim>\<open>https.go\<close> and
  \<^verbatim>\<open>tcpmux.go\<close>.  The first listener of a group takes the real resource, a port of the port manager or a
  route of a muxer; the others share it, and the last one to close gives it back.  What a group needs of
  its resource is the locale \<open>group_resource\<close>; the three kinds of groups are instances of one scheme.

  As in the HTTP groups, looking a group up and listening on it are two steps; \<^verbatim>\<open>Listen\<close> itself and
  \<^verbatim>\<open>closeListener\<close> run under the group's lock.  Channels count their closings.
\<close>

section \<open>Data\<close>

datatype 'e lgroup_error = GroupAuthFailed | GroupParamsInvalid | GroupDifferentPort | GroupStale | ResourceErr 'e

text \<open>A group with the parameters \<open>bparams\<close> its first listener fixed; \<open>realOpen\<close> says that the real listener is open.\<close>

record 'p baseGroup =
  bgroup :: string
  bgroupKey :: string
  acceptChCloses :: nat
  realOpen :: bool
  lns :: "nat list"
  bparams :: 'p

record ('p, 'r) groupCtl =
  gstore :: "'p baseGroup list"
  registry :: "string \<rightharpoonup> nat"
  resource :: 'r
  lnGroup :: "nat list"
  closedLns :: "nat set"

definition newGroup :: "'p \<Rightarrow> 'p baseGroup" where
  "newGroup p = \<lparr>bgroup = '''', bgroupKey = '''', acceptChCloses = 0, realOpen = False, lns = [], bparams = p\<rparr>"

definition newCtl :: "'r \<Rightarrow> ('p, 'r) groupCtl" where
  "newCtl r = \<lparr>gstore = [], registry = Map.empty, resource = r, lnGroup = [], closedLns = {}\<rparr>"

definition lgrp :: "nat \<Rightarrow> ('p, 'r) groupCtl \<Rightarrow> 'p baseGroup" where
  "lgrp a ctl = gstore ctl ! a"

definition setLgrp :: "nat \<Rightarrow> 'p baseGroup \<Rightarrow> ('p, 'r) groupCtl \<Rightarrow> ('p, 'r) groupCtl" where
  "setLgrp a g ctl = ctl\<lparr>gstore := (gstore ctl)[a := g]\<rparr>"

section \<open>Shared plumbing\<close>

definition registryGetOrCreate :: "'p \<Rightarrow> string \<Rightarrow> ('p, 'r) groupCtl \<Rightarrow> nat \<times> ('p, 'r) groupCtl" where
  "registryGetOrCreate p0 key ctl =
     (case registry ctl key of
        Some a \<Rightarrow> (a, ctl)
      | None \<Rightarrow>
          let a = length (gstore ctl) in
          (a, ctl\<lparr>gstore := gstore ctl @ [newGroup p0], registry := (registry ctl)(key \<mapsto> a)\<rparr>))"

definition registryRemoveIf :: "string \<Rightarrow> nat \<Rightarrow> ('p, 'r) groupCtl \<Rightarrow> ('p, 'r) groupCtl" where
  "registryRemoveIf key a ctl =
     (case registry ctl key of
        None \<Rightarrow> ctl
      | Some b \<Rightarrow> if b = a then ctl\<lparr>registry := (registry ctl)(key := None)\<rparr> else ctl)"

definition initBase :: "string \<Rightarrow> string \<Rightarrow> 'p \<Rightarrow> 'p baseGroup \<Rightarrow> 'p baseGroup" where
  "initBase gname key p g = g\<lparr>bgroup := gname, bgroupKey := key, acceptChCloses := 0, realOpen := True, bparams := p\<rparr>"

definition newListener :: "nat \<Rightarrow> ('p, 'r) groupCtl \<Rightarrow> nat \<times> ('p, 'r) groupCtl" where
  "newListener a ctl =
     (let l = length (lnGroup ctl) in
      (l, setLgrp a ((lgrp a ctl)\<lparr>lns := lns (lgrp a ctl) @ [l]\<rparr>) (ctl\<lparr>lnGroup := lnGroup ctl @ [a]\<rparr>)))"

text \<open>\<^verbatim>\<open>closeListener\<close>, called once per listener; \<open>cleanup\<close> gives the resource back.\<close>

definition closeListener :: "('p \<Rightarrow> 'r \<Rightarrow> 'r) \<Rightarrow> nat \<Rightarrow> ('p, 'r) groupCtl \<Rightarrow> ('p, 'r) groupCtl" where
  "closeListener cleanup l ctl0 =
     (let ctl = ctl0\<lparr>closedLns := insert l (closedLns ctl0)\<rparr>;
          a = lnGroup ctl ! l;
          g = (lgrp a ctl)\<lparr>lns := remove1 l (lns (lgrp a ctl))\<rparr> in
      if lns g = [] then
        registryRemoveIf (bgroup g) a
          (setLgrp a (g\<lparr>acceptChCloses := acceptChCloses g + 1, realOpen := False\<rparr>)
            (ctl\<lparr>resource := cleanup (bparams g) (resource ctl)\<rparr>))
      else setLgrp a g ctl)"

section \<open>TCP groups\<close>

record tcp_params =
  taddr :: string
  tport :: int
  realPort :: int

definition noTcp :: tcp_params where "noTcp = \<lparr>taddr = '''', tport = 0, realPort = 0\<rparr>"

text \<open>What the operating system and the clock contribute to a call, with the proxy's request.\<close>

record tcp_call =
  avail :: "int \<Rightarrow> bool"
  now :: int
  order :: "int list"
  listenOk :: "int \<Rightarrow> bool"
  proxyName :: string
  caddr :: string
  cport :: int

datatype tcp_error = AcquireErr port_error | NetListenErr

definition TCPGroupListen ::
  "nat \<Rightarrow> string \<Rightarrow> string \<Rightarrow> tcp_call \<Rightarrow> (tcp_params, manager) groupCtl \<Rightarrow>
   (tcp_error lgroup_error + nat \<times> int) \<times> (tcp_params, manager) groupCtl" where
  "TCPGroupListen a gname key c ctl =
     (if registry ctl gname \<noteq> Some a then (Inl GroupStale, ctl)
      else if lns (lgrp a ctl) = [] then
        (case Acquire (avail c) (now c) (order c) (proxyName c) (cport c) (resource ctl) of
           (Inl e, pm) \<Rightarrow> (Inl (ResourceErr (AcquireErr e)), ctl\<lparr>resource := pm\<rparr>)
         | (Inr port, pm) \<Rightarrow>
             if \<not> listenOk c port then (Inl (ResourceErr NetListenErr), ctl\<lparr>resource := Release (now c) port pm\<rparr>)
             else
               let p = \<lparr>taddr = caddr c, tport = cport c, realPort = port\<rparr>;
                   (l, ctl1) = newListener a (setLgrp a (initBase gname key p (lgrp a ctl)) (ctl\<lparr>resource := pm\<rparr>))
               in (Inr (l, port), ctl1))
      else
        let g = lgrp a ctl in
        if bgroup g \<noteq> gname \<or> taddr (bparams g) \<noteq> caddr c then (Inl GroupParamsInvalid, ctl)
        else if tport (bparams g) \<noteq> cport c then (Inl GroupDifferentPort, ctl)
        else if bgroupKey g \<noteq> key then (Inl GroupAuthFailed, ctl)
        else (case newListener a ctl of (l, ctl1) \<Rightarrow> (Inr (l, realPort (bparams g)), ctl1)))"

definition tcpCleanup :: "int \<Rightarrow> tcp_params \<Rightarrow> manager \<Rightarrow> manager" where
  "tcpCleanup t p pm = Release t (realPort p) pm"

section \<open>HTTPS and TCPMux groups\<close>

record mux_params =
  mdomain :: string
  mlocation :: string
  mrouteByHTTPUser :: string
  musername :: string
  mpassword :: string

definition noMux :: mux_params where
  "noMux = \<lparr>mdomain = '''', mlocation = '''', mrouteByHTTPUser = '''', musername = '''', mpassword = ''''\<rparr>"

text \<open>\<^verbatim>\<open>Muxer.Listen\<close> and the muxer listener's \<^verbatim>\<open>Close\<close>; the payload stands for the listener.\<close>

definition MuxerListen :: "mux_params \<Rightarrow> mux_params routers \<Rightarrow> (router_error + mux_params) \<times> mux_params routers" where
  "MuxerListen cfg r =
     (case RoutersAdd (mdomain cfg) (mlocation cfg) (mrouteByHTTPUser cfg) cfg r of
        (Inl e, r1) \<Rightarrow> (Inl e, r1)
      | (Inr _, r1) \<Rightarrow> (Inr cfg, r1))"

definition MuxListenerClose :: "mux_params \<Rightarrow> mux_params routers \<Rightarrow> mux_params routers" where
  "MuxListenerClose l r = RoutersDel (mdomain l) (mlocation l) (mrouteByHTTPUser l) r"

definition HTTPSGroupListen ::
  "nat \<Rightarrow> string \<Rightarrow> string \<Rightarrow> mux_params \<Rightarrow> (mux_params, mux_params routers) groupCtl \<Rightarrow>
   (router_error lgroup_error + nat) \<times> (mux_params, mux_params routers) groupCtl" where
  "HTTPSGroupListen a gname key rc ctl =
     (if registry ctl gname \<noteq> Some a then (Inl GroupStale, ctl)
      else if lns (lgrp a ctl) = [] then
        (case MuxerListen rc (resource ctl) of
           (Inl e, r) \<Rightarrow> (Inl (ResourceErr e), ctl\<lparr>resource := r\<rparr>)
         | (Inr p, r) \<Rightarrow>
             (case newListener a (setLgrp a (initBase gname key p (lgrp a ctl)) (ctl\<lparr>resource := r\<rparr>)) of
                (l, ctl1) \<Rightarrow> (Inr l, ctl1)))
      else
        let g = lgrp a ctl in
        if bgroup g \<noteq> gname \<or> mdomain (bparams g) \<noteq> mdomain rc then (Inl GroupParamsInvalid, ctl)
        else if bgroupKey g \<noteq> key then (Inl GroupAuthFailed, ctl)
        else (case newListener a ctl of (l, ctl1) \<Rightarrow> (Inr l, ctl1)))"

definition HTTPConnectListen ::
  "nat \<Rightarrow> string \<Rightarrow> string \<Rightarrow> mux_params \<Rightarrow> (mux_params, mux_params routers) groupCtl \<Rightarrow>
   (router_error lgroup_error + nat) \<times> (mux_params, mux_params routers) groupCtl" where
  "HTTPConnectListen a gname key rc ctl =
     (if registry ctl gname \<noteq> Some a then (Inl GroupStale, ctl)
      else if lns (lgrp a ctl) = [] then
        (case MuxerListen rc (resource ctl) of
           (Inl e, r) \<Rightarrow> (Inl (ResourceErr e), ctl\<lparr>resource := r\<rparr>)
         | (Inr p, r) \<Rightarrow>
             (case newListener a (setLgrp a (initBase gname key p (lgrp a ctl)) (ctl\<lparr>resource := r\<rparr>)) of
                (l, ctl1) \<Rightarrow> (Inr l, ctl1)))
      else
        let g = lgrp a ctl in
        if bgroup g \<noteq> gname \<or> mdomain (bparams g) \<noteq> mdomain rc \<or> mrouteByHTTPUser (bparams g) \<noteq> mrouteByHTTPUser rc \<or>
           musername (bparams g) \<noteq> musername rc \<or> mpassword (bparams g) \<noteq> mpassword rc
          then (Inl GroupParamsInvalid, ctl)
        else if bgroupKey g \<noteq> key then (Inl GroupAuthFailed, ctl)
        else (case newListener a ctl of (l, ctl1) \<Rightarrow> (Inr l, ctl1)))"

section \<open>The common scheme\<close>

text \<open>The three \<^verbatim>\<open>Listen\<close> methods differ in the resource they take and in the parameters that must agree.\<close>

definition groupListen ::
  "('c \<Rightarrow> 'r \<Rightarrow> ('e + 'p) \<times> 'r) \<Rightarrow> ('p \<Rightarrow> 'c \<Rightarrow> 'e lgroup_error option) \<Rightarrow>
   nat \<Rightarrow> string \<Rightarrow> string \<Rightarrow> 'c \<Rightarrow> ('p, 'r) groupCtl \<Rightarrow> ('e lgroup_error + nat) \<times> ('p, 'r) groupCtl" where
  "groupListen acquire mismatch a gname key c ctl =
     (if registry ctl gname \<noteq> Some a then (Inl GroupStale, ctl)
      else if lns (lgrp a ctl) = [] then
        (case acquire c (resource ctl) of
           (Inl e, r) \<Rightarrow> (Inl (ResourceErr e), ctl\<lparr>resource := r\<rparr>)
         | (Inr p, r) \<Rightarrow>
             (case newListener a (setLgrp a (initBase gname key p (lgrp a ctl)) (ctl\<lparr>resource := r\<rparr>)) of
                (l, ctl1) \<Rightarrow> (Inr l, ctl1)))
      else if bgroup (lgrp a ctl) \<noteq> gname then (Inl GroupParamsInvalid, ctl)
      else (case mismatch (bparams (lgrp a ctl)) c of
              Some e \<Rightarrow> (Inl e, ctl)
            | None \<Rightarrow>
                if bgroupKey (lgrp a ctl) \<noteq> key then (Inl GroupAuthFailed, ctl)
                else (case newListener a ctl of (l, ctl1) \<Rightarrow> (Inr l, ctl1))))"

record ('p, 'r) lsys =
  lctl :: "('p, 'r) groupCtl"
  pending :: "nat \<rightharpoonup> nat \<times> string"

definition lstart :: "'r \<Rightarrow> ('p, 'r) lsys" where
  "lstart r = \<lparr>lctl = newCtl r, pending = Map.empty\<rparr>"

text \<open>The steps: a goroutine looks up a group, tries to listen on it (and looks it up again when it is stale), a
  listener is closed at some time, and other users of the resource act.\<close>

datatype ('c, 'o) levent =
    LGet nat string
  | LTry nat string 'c
  | LClose int nat
  | LEnv 'o

definition openGroups :: "('p, 'r) groupCtl \<Rightarrow> 'p set" where
  "openGroups ctl = bparams ` {g \<in> set (gstore ctl). lns g \<noteq> []}"

fun lguard :: "('c \<Rightarrow> 'p set \<Rightarrow> 'r \<Rightarrow> bool) \<Rightarrow> ('o \<Rightarrow> 'p set \<Rightarrow> 'r \<Rightarrow> bool) \<Rightarrow> ('c, 'o) levent \<Rightarrow> ('p, 'r) lsys \<Rightarrow> bool" where
  "lguard allowed envOk (LGet t gname) s \<longleftrightarrow> pending s t = None"
| "lguard allowed envOk (LTry t key c) s \<longleftrightarrow> pending s t \<noteq> None \<and> allowed c (openGroups (lctl s)) (resource (lctl s))"
| "lguard allowed envOk (LClose t l) s \<longleftrightarrow> l < length (lnGroup (lctl s)) \<and> l \<notin> closedLns (lctl s)"
| "lguard allowed envOk (LEnv x) s \<longleftrightarrow> envOk x (openGroups (lctl s)) (resource (lctl s))"

text \<open>One round of the loop in the controllers' \<^verbatim>\<open>Listen\<close>: a stale group is looked up again.\<close>

definition tryListen ::
  "(nat \<Rightarrow> string \<Rightarrow> string \<Rightarrow> 'c \<Rightarrow> ('p, 'r) groupCtl \<Rightarrow> ('e lgroup_error + 'l) \<times> ('p, 'r) groupCtl) \<Rightarrow>
   'p \<Rightarrow> nat \<Rightarrow> string \<Rightarrow> 'c \<Rightarrow> ('p, 'r) lsys \<Rightarrow> ('p, 'r) lsys" where
  "tryListen listen p0 t key c s =
     (case pending s t of
        None \<Rightarrow> s
      | Some (a, gname) \<Rightarrow>
          (case listen a gname key c (lctl s) of
             (Inl GroupStale, ctl) \<Rightarrow>
               let (b, ctl1) = registryGetOrCreate p0 gname ctl in
               s\<lparr>lctl := ctl1, pending := (pending s)(t \<mapsto> (b, gname))\<rparr>
           | (_, ctl) \<Rightarrow> s\<lparr>lctl := ctl, pending := (pending s)(t := None)\<rparr>))"

fun lhappen :: "(nat \<Rightarrow> string \<Rightarrow> string \<Rightarrow> 'c \<Rightarrow> ('p, 'r) groupCtl \<Rightarrow> ('e lgroup_error + 'l) \<times> ('p, 'r) groupCtl) \<Rightarrow>
   (int \<Rightarrow> 'p \<Rightarrow> 'r \<Rightarrow> 'r) \<Rightarrow> ('o \<Rightarrow> 'r \<Rightarrow> 'r) \<Rightarrow> 'p \<Rightarrow> ('c, 'o) levent \<Rightarrow> ('p, 'r) lsys \<Rightarrow> ('p, 'r) lsys" where
  "lhappen listen cleanup env p0 (LGet t gname) s =
     (let (a, ctl) = registryGetOrCreate p0 gname (lctl s) in s\<lparr>lctl := ctl, pending := (pending s)(t \<mapsto> (a, gname))\<rparr>)"
| "lhappen listen cleanup env p0 (LTry t key c) s = tryListen listen p0 t key c s"
| "lhappen listen cleanup env p0 (LClose t l) s = s\<lparr>lctl := closeListener (cleanup t) l (lctl s)\<rparr>"
| "lhappen listen cleanup env p0 (LEnv x) s = s\<lparr>lctl := (lctl s)\<lparr>resource := env x (resource (lctl s))\<rparr>\<rparr>"

section \<open>What a group needs of its resource\<close>

locale group_resource =
  fixes acquire :: "'c \<Rightarrow> 'r \<Rightarrow> ('e + 'p) \<times> 'r"
    and release :: "int \<Rightarrow> 'p \<Rightarrow> 'r \<Rightarrow> 'r"
    and env :: "'o \<Rightarrow> 'r \<Rightarrow> 'r"
    and rok :: "'r \<Rightarrow> bool"
    and holds :: "'p \<Rightarrow> 'r \<Rightarrow> bool"
    and clash :: "'p \<Rightarrow> 'p \<Rightarrow> bool"
    and allowed :: "'c \<Rightarrow> 'p set \<Rightarrow> 'r \<Rightarrow> bool"
    and envOk :: "'o \<Rightarrow> 'p set \<Rightarrow> 'r \<Rightarrow> bool"
  assumes acquire_rok: "rok r \<Longrightarrow> allowed c B r \<Longrightarrow> rok (snd (acquire c r))"
    and acquire_keeps: "rok r \<Longrightarrow> allowed c B r \<Longrightarrow> q \<in> B \<Longrightarrow> holds q r \<Longrightarrow> holds q (snd (acquire c r))"
    and acquire_holds: "rok r \<Longrightarrow> allowed c B r \<Longrightarrow> acquire c r = (Inr p, r') \<Longrightarrow> holds p r'"
    and acquire_fresh: "rok r \<Longrightarrow> allowed c B r \<Longrightarrow> acquire c r = (Inr p, r') \<Longrightarrow> q \<in> B \<Longrightarrow> holds q r \<Longrightarrow> \<not> clash p q"
    and release_rok: "rok r \<Longrightarrow> rok (release t p r)"
    and release_keeps: "rok r \<Longrightarrow> \<not> clash p q \<Longrightarrow> holds q r \<Longrightarrow> holds q (release t p r)"
    and release_frees: "rok r \<Longrightarrow> \<not> holds p (release t p r)"
    and clash_sym: "clash p q \<Longrightarrow> clash q p"
    and env_rok: "rok r \<Longrightarrow> envOk x B r \<Longrightarrow> rok (env x r)"
    and env_keeps: "rok r \<Longrightarrow> envOk x B r \<Longrightarrow> q \<in> B \<Longrightarrow> holds q r \<Longrightarrow> holds q (env x r)"

text \<open>A \<^verbatim>\<open>Listen\<close> method that follows the scheme over such a resource.\<close>

locale listener_groups = group_resource acquire release env rok holds clash allowed envOk
  for acquire :: "'c \<Rightarrow> 'r \<Rightarrow> ('e + 'p) \<times> 'r" and release :: "int \<Rightarrow> 'p \<Rightarrow> 'r \<Rightarrow> 'r" and env :: "'o \<Rightarrow> 'r \<Rightarrow> 'r"
    and rok holds clash allowed envOk +
  fixes listen :: "nat \<Rightarrow> string \<Rightarrow> string \<Rightarrow> 'c \<Rightarrow> ('p, 'r) groupCtl \<Rightarrow> ('e lgroup_error + 'l) \<times> ('p, 'r) groupCtl"
    and mismatch :: "'p \<Rightarrow> 'c \<Rightarrow> 'e lgroup_error option"
    and p0 :: 'p
    and r0 :: 'r
  assumes listen_scheme: "snd (listen a gname key c ctl) = snd (groupListen acquire mismatch a gname key c ctl)"
    and listen_stale: "fst (listen a gname key c ctl) = Inl GroupStale \<Longrightarrow> snd (listen a gname key c ctl) = ctl"
    and rok_init: "rok r0"
begin

definition gok :: "('p, 'r) groupCtl \<Rightarrow> nat \<Rightarrow> bool" where
  "gok ctl a \<longleftrightarrow> distinct (lns (lgrp a ctl)) \<and>
     (\<forall>l\<in>set (lns (lgrp a ctl)). l < length (lnGroup ctl) \<and> lnGroup ctl ! l = a) \<and>
     (if lns (lgrp a ctl) = [] then \<not> realOpen (lgrp a ctl) \<and> acceptChCloses (lgrp a ctl) \<le> 1
      else registry ctl (bgroup (lgrp a ctl)) = Some a \<and> realOpen (lgrp a ctl) \<and> acceptChCloses (lgrp a ctl) = 0 \<and>
           holds (bparams (lgrp a ctl)) (resource ctl))"

definition cok :: "('p, 'r) groupCtl \<Rightarrow> bool" where
  "cok ctl \<longleftrightarrow> rok (resource ctl) \<and>
     (\<forall>n a. registry ctl n = Some a \<longrightarrow> a < length (gstore ctl)) \<and>
     (\<forall>a<length (gstore ctl). gok ctl a) \<and>
     (\<forall>a<length (gstore ctl). \<forall>b<length (gstore ctl). a \<noteq> b \<longrightarrow> lns (lgrp a ctl) \<noteq> [] \<longrightarrow> lns (lgrp b ctl) \<noteq> [] \<longrightarrow>
        \<not> clash (bparams (lgrp a ctl)) (bparams (lgrp b ctl))) \<and>
     (\<forall>l<length (lnGroup ctl). lnGroup ctl ! l < length (gstore ctl) \<and>
        (l \<notin> closedLns ctl \<longleftrightarrow> l \<in> set (lns (lgrp (lnGroup ctl ! l) ctl)))) \<and>
     (\<forall>l\<in>closedLns ctl. l < length (lnGroup ctl))"

definition linv :: "('p, 'r) lsys \<Rightarrow> bool" where
  "linv s \<longleftrightarrow> cok (lctl s) \<and> (\<forall>t a n. pending s t = Some (a, n) \<longrightarrow> a < length (gstore (lctl s)))"

end

section \<open>The invariant of the scheme\<close>

lemma lgrp_simps [simp]: "lgrp a (ctl\<lparr>resource := r\<rparr>) = lgrp a ctl" "lgrp a (ctl\<lparr>registry := m\<rparr>) = lgrp a ctl"
  "lgrp a (ctl\<lparr>lnGroup := x\<rparr>) = lgrp a ctl" "lgrp a (ctl\<lparr>closedLns := y\<rparr>) = lgrp a ctl"
  "a < length (gstore ctl) \<Longrightarrow> lgrp b (setLgrp a g ctl) = (if b = a then g else lgrp b ctl)"
  by (simp_all add: lgrp_def setLgrp_def)

lemma setLgrp_simps [simp]: "length (gstore (setLgrp a g ctl)) = length (gstore ctl)" "registry (setLgrp a g ctl) = registry ctl"
  "resource (setLgrp a g ctl) = resource ctl" "lnGroup (setLgrp a g ctl) = lnGroup ctl" "closedLns (setLgrp a g ctl) = closedLns ctl"
  by (simp_all add: setLgrp_def)

lemma registryRemoveIf_simps [simp]: "gstore (registryRemoveIf k a ctl) = gstore ctl" "resource (registryRemoveIf k a ctl) = resource ctl"
  "lnGroup (registryRemoveIf k a ctl) = lnGroup ctl" "closedLns (registryRemoveIf k a ctl) = closedLns ctl"
  "lgrp b (registryRemoveIf k a ctl) = lgrp b ctl"
  "registry (registryRemoveIf k a ctl) = (if registry ctl k = Some a then (registry ctl)(k := None) else registry ctl)"
  by (auto simp: registryRemoveIf_def lgrp_def split: option.splits)

lemma openGroups_iff: "q \<in> openGroups ctl \<longleftrightarrow> (\<exists>a<length (gstore ctl). lns (lgrp a ctl) \<noteq> [] \<and> q = bparams (lgrp a ctl))"
  by (auto simp: openGroups_def lgrp_def in_set_conv_nth)

context listener_groups
begin

lemma cokD:
  assumes "cok ctl"
  shows "rok (resource ctl)" "\<And>n a. registry ctl n = Some a \<Longrightarrow> a < length (gstore ctl)"
    "\<And>a. a < length (gstore ctl) \<Longrightarrow> gok ctl a"
    "\<And>a b. a < length (gstore ctl) \<Longrightarrow> b < length (gstore ctl) \<Longrightarrow> a \<noteq> b \<Longrightarrow> lns (lgrp a ctl) \<noteq> [] \<Longrightarrow> lns (lgrp b ctl) \<noteq> [] \<Longrightarrow>
        \<not> clash (bparams (lgrp a ctl)) (bparams (lgrp b ctl))"
    "\<And>l. l < length (lnGroup ctl) \<Longrightarrow> lnGroup ctl ! l < length (gstore ctl)"
    "\<And>l. l < length (lnGroup ctl) \<Longrightarrow> l \<notin> closedLns ctl \<longleftrightarrow> l \<in> set (lns (lgrp (lnGroup ctl ! l) ctl))"
    "\<And>l. l \<in> closedLns ctl \<Longrightarrow> l < length (lnGroup ctl)"
  using assms by (auto simp: cok_def)

lemma cok_open_holds: "cok ctl \<Longrightarrow> q \<in> openGroups ctl \<Longrightarrow> holds q (resource ctl)"
  using cokD(3) by (fastforce simp: openGroups_iff gok_def)

lemma cok_resource:
  assumes "cok ctl" "rok r" "\<And>q. q \<in> openGroups ctl \<Longrightarrow> holds q r"
  shows "cok (ctl\<lparr>resource := r\<rparr>)"
proof -
  have "gok (ctl\<lparr>resource := r\<rparr>) a" if "a < length (gstore ctl)" for a
    using cokD(3) [OF assms(1) that] assms(3) [of "bparams (lgrp a ctl)"] that
    by (auto simp: gok_def openGroups_iff)
  then show ?thesis using assms(1,2) unfolding cok_def by simp
qed

lemma cok_init: "cok (newCtl r0)"
  using rok_init by (simp add: cok_def newCtl_def)

lemma cok_getOrCreate:
  assumes "cok ctl" "registryGetOrCreate p gname ctl = (a, ctl')"
  shows "cok ctl' \<and> a < length (gstore ctl') \<and> length (gstore ctl) \<le> length (gstore ctl')"
proof (cases "registry ctl gname")
  case (Some b)
  with assms cokD(2) [OF assms(1)] show ?thesis by (auto simp: registryGetOrCreate_def)
next
  case None
  then have c: "ctl' = ctl\<lparr>gstore := gstore ctl @ [newGroup p], registry := (registry ctl)(gname \<mapsto> length (gstore ctl))\<rparr>"
    "a = length (gstore ctl)" using assms(2) by (auto simp: registryGetOrCreate_def Let_def)
  have g: "lgrp b ctl' = lgrp b ctl" if "b < length (gstore ctl)" for b using that by (simp add: lgrp_def c nth_append)
  have n: "lns (lgrp (length (gstore ctl)) ctl') = []" "\<not> realOpen (lgrp (length (gstore ctl)) ctl')"
    "acceptChCloses (lgrp (length (gstore ctl)) ctl') = 0" by (simp_all add: lgrp_def c newGroup_def)
  have "gok ctl' b" if "b < length (gstore ctl')" for b
  proof (cases "b < length (gstore ctl)")
    case True
    with cokD(3) [OF assms(1) True] g [OF True] None show ?thesis by (auto simp: gok_def) (auto simp: c split: if_splits)
  next
    case False
    with that have "b = length (gstore ctl)" by (simp add: c)
    with n show ?thesis by (simp add: gok_def)
  qed
  moreover have "\<not> clash (bparams (lgrp x ctl')) (bparams (lgrp y ctl'))"
    if "x < length (gstore ctl')" "y < length (gstore ctl')" "x \<noteq> y" "lns (lgrp x ctl') \<noteq> []" "lns (lgrp y ctl') \<noteq> []" for x y
  proof -
    have "x < length (gstore ctl)" "y < length (gstore ctl)" using that n by (auto simp: c less_Suc_eq)
    with cokD(4) [OF assms(1), of x y] that g show ?thesis by simp
  qed
  moreover have "lnGroup ctl' ! l < length (gstore ctl') \<and> (l \<notin> closedLns ctl' \<longleftrightarrow> l \<in> set (lns (lgrp (lnGroup ctl' ! l) ctl')))"
    if "l < length (lnGroup ctl')" for l
    using that cokD(5,6) [OF assms(1), of l] g by (simp add: c)
  moreover have "b < length (gstore ctl')" if "registry ctl' n = Some b" for n b
    using that cokD(2) [OF assms(1), of n b] by (auto simp: c split: if_splits)
  ultimately show ?thesis using cokD(1,7) [OF assms(1)] unfolding cok_def by (simp add: c)
qed

text \<open>Adding a listener to a group that is open and registered.\<close>

lemma cok_newListener:
  assumes "rok (resource ctl)" "\<And>n b. registry ctl n = Some b \<Longrightarrow> b < length (gstore ctl)" "a < length (gstore ctl)"
    and "\<And>b. b < length (gstore ctl) \<Longrightarrow> b \<noteq> a \<Longrightarrow> gok ctl b"
    and "distinct (lns (lgrp a ctl))" "\<And>l. l \<in> set (lns (lgrp a ctl)) \<Longrightarrow> l < length (lnGroup ctl) \<and> lnGroup ctl ! l = a"
    and "registry ctl (bgroup (lgrp a ctl)) = Some a" "realOpen (lgrp a ctl)" "acceptChCloses (lgrp a ctl) = 0"
    and "holds (bparams (lgrp a ctl)) (resource ctl)"
    and "\<And>b. b < length (gstore ctl) \<Longrightarrow> b \<noteq> a \<Longrightarrow> lns (lgrp b ctl) \<noteq> [] \<Longrightarrow> \<not> clash (bparams (lgrp a ctl)) (bparams (lgrp b ctl))"
    and "\<And>b d. b < length (gstore ctl) \<Longrightarrow> d < length (gstore ctl) \<Longrightarrow> b \<noteq> d \<Longrightarrow> b \<noteq> a \<Longrightarrow> d \<noteq> a \<Longrightarrow> lns (lgrp b ctl) \<noteq> [] \<Longrightarrow>
        lns (lgrp d ctl) \<noteq> [] \<Longrightarrow> \<not> clash (bparams (lgrp b ctl)) (bparams (lgrp d ctl))"
    and "\<And>l. l < length (lnGroup ctl) \<Longrightarrow> lnGroup ctl ! l < length (gstore ctl) \<and> (l \<notin> closedLns ctl \<longleftrightarrow> l \<in> set (lns (lgrp (lnGroup ctl ! l) ctl)))"
    and "\<And>l. l \<in> closedLns ctl \<Longrightarrow> l < length (lnGroup ctl)"
  shows "cok (snd (newListener a ctl))"
proof -
  let ?n = "length (lnGroup ctl)" and ?c = "snd (newListener a ctl)"
  have f: "gstore ?c = (gstore ctl)[a := (lgrp a ctl)\<lparr>lns := lns (lgrp a ctl) @ [?n]\<rparr>]" "registry ?c = registry ctl"
    "resource ?c = resource ctl" "lnGroup ?c = lnGroup ctl @ [a]" "closedLns ?c = closedLns ctl"
    by (simp_all add: newListener_def Let_def setLgrp_def)
  have g: "lgrp b ?c = (if b = a then (lgrp a ctl)\<lparr>lns := lns (lgrp a ctl) @ [?n]\<rparr> else lgrp b ctl)" for b
    using assms(3) by (simp add: lgrp_def f)
  have "gok ?c b" if "b < length (gstore ctl)" for b
  proof (cases "b = a")
    case True
    with assms(5-10) show ?thesis by (auto simp: gok_def g f nth_append intro: less_SucI)
  next
    case False
    with assms(4) [OF that] show ?thesis by (auto simp: gok_def g f nth_append less_SucI split: if_splits)
  qed
  moreover have "\<not> clash (bparams (lgrp x ?c)) (bparams (lgrp y ?c))"
    if "x < length (gstore ctl)" "y < length (gstore ctl)" "x \<noteq> y" "lns (lgrp x ?c) \<noteq> []" "lns (lgrp y ?c) \<noteq> []" for x y
    using that assms(11) [of y] assms(11) [of x] assms(12) [of x y] clash_sym by (auto simp: g split: if_splits)
  moreover have "lnGroup ?c ! l < length (gstore ctl) \<and> (l \<notin> closedLns ?c \<longleftrightarrow> l \<in> set (lns (lgrp (lnGroup ?c ! l) ?c)))"
    if "l < Suc ?n" for l
  proof (cases "l = ?n")
    case True
    with assms(3,14) show ?thesis by (auto simp: f g)
  next
    case False
    with that have "l < ?n" by simp
    with assms(13) [OF this] show ?thesis by (auto simp: f g nth_append)
  qed
  ultimately show ?thesis
    using assms(1,2,14) unfolding cok_def by (auto simp: f intro: less_SucI)
qed

end

context listener_groups
begin

lemma cok_join:
  assumes "cok ctl" "a < length (gstore ctl)" "lns (lgrp a ctl) \<noteq> []"
  shows "cok (snd (newListener a ctl))"
proof -
  have op: "distinct (lns (lgrp a ctl))" "\<And>l. l \<in> set (lns (lgrp a ctl)) \<Longrightarrow> l < length (lnGroup ctl) \<and> lnGroup ctl ! l = a"
    "registry ctl (bgroup (lgrp a ctl)) = Some a" "realOpen (lgrp a ctl)" "acceptChCloses (lgrp a ctl) = 0"
    "holds (bparams (lgrp a ctl)) (resource ctl)"
    using cokD(3) [OF assms(1,2)] assms(3) by (auto simp: gok_def)
  show ?thesis
    by (rule cok_newListener) (use assms cokD [OF assms(1)] op in auto)
qed

lemma cok_first:
  assumes "cok ctl" "registry ctl gname = Some a" "lns (lgrp a ctl) = []"
    and "acquire c (resource ctl) = (Inr p, r)" "allowed c (openGroups ctl) (resource ctl)"
  shows "cok (snd (newListener a (setLgrp a (initBase gname key p (lgrp a ctl)) (ctl\<lparr>resource := r\<rparr>))))"
proof -
  let ?c = "setLgrp a (initBase gname key p (lgrp a ctl)) (ctl\<lparr>resource := r\<rparr>)"
  have a: "a < length (gstore ctl)" by (rule cokD(2) [OF assms(1,2)])
  then have "a < length (gstore (ctl\<lparr>resource := r\<rparr>))" by simp
  note s = lgrp_simps(5) [OF this]
  have g: "lgrp b ?c = (if b = a then initBase gname key p (lgrp a ctl) else lgrp b ctl)" for b
    by (simp only: s lgrp_simps(1))
  have i: "lns (initBase gname key p (lgrp a ctl)) = []" "bgroup (initBase gname key p (lgrp a ctl)) = gname"
    "realOpen (initBase gname key p (lgrp a ctl))" "acceptChCloses (initBase gname key p (lgrp a ctl)) = 0"
    "bparams (initBase gname key p (lgrp a ctl)) = p" by (simp_all add: initBase_def assms(3))
  have rk: "rok r" using acquire_rok [OF cokD(1) [OF assms(1)] assms(5)] assms(4) by simp
  have hp: "holds p r" by (rule acquire_holds [OF cokD(1) [OF assms(1)] assms(5,4)])
  have op: "bparams (lgrp b ctl) \<in> openGroups ctl" if "b < length (gstore ctl)" "lns (lgrp b ctl) \<noteq> []" for b
    using that by (auto simp: openGroups_iff)
  have keep: "holds q r" if "q \<in> openGroups ctl" for q
    using acquire_keeps [OF cokD(1) [OF assms(1)] assms(5) that cok_open_holds [OF assms(1) that]] assms(4) by simp
  have fresh: "\<not> clash p q" if "q \<in> openGroups ctl" for q
    by (rule acquire_fresh [OF cokD(1) [OF assms(1)] assms(5,4) that cok_open_holds [OF assms(1) that]])
  have gk: "gok ?c b" if "b < length (gstore ctl)" "b \<noteq> a" for b
    using cokD(3) [OF assms(1) that(1)] keep [OF op [OF that(1)]] that(2) unfolding gok_def g by (cases "lns (lgrp b ctl) = []") auto
  have ln: "lnGroup ctl ! l < length (gstore ctl) \<and> (l \<notin> closedLns ctl \<longleftrightarrow> l \<in> set (lns (lgrp (lnGroup ctl ! l) ?c)))"
    if "l < length (lnGroup ctl)" for l
    using cokD(5,6) [OF assms(1) that] assms(3) by (auto simp: g i)
  show ?thesis
    by (rule cok_newListener)
       (use a assms(1,2) rk hp gk i ln cokD(2,7) [OF assms(1)] cokD(4) [OF assms(1)] fresh op in \<open>auto simp: g\<close>)
qed

lemma cok_listen:
  assumes "cok ctl" "a < length (gstore ctl)" "allowed c (openGroups ctl) (resource ctl)"
  shows "cok (snd (listen a gname key c ctl)) \<and> length (gstore (snd (listen a gname key c ctl))) = length (gstore ctl)"
proof -
  have n: "length (gstore (snd (newListener b x))) = length (gstore x)" for b and x :: "('p, 'r) groupCtl"
    by (simp add: newListener_def Let_def)
  have "cok (snd (groupListen acquire mismatch a gname key c ctl)) \<and>
      length (gstore (snd (groupListen acquire mismatch a gname key c ctl))) = length (gstore ctl)"
  proof (cases "registry ctl gname = Some a \<and> lns (lgrp a ctl) = []")
    case True
    show ?thesis
    proof (cases "acquire c (resource ctl)")
      case (Pair x r)
      show ?thesis
      proof (cases x)
        case (Inl e)
        have "cok (ctl\<lparr>resource := r\<rparr>)"
          by (rule cok_resource [OF assms(1)])
             (use acquire_rok [OF cokD(1) [OF assms(1)] assms(3)] acquire_keeps [OF cokD(1) [OF assms(1)] assms(3)]
                cok_open_holds [OF assms(1)] Pair in auto)
        with True Pair Inl show ?thesis by (simp add: groupListen_def)
      next
        case (Inr p)
        with cok_first [OF assms(1) _ _ _ assms(3), of gname a p r key] True Pair n show ?thesis
          by (simp add: groupListen_def split_beta)
      qed
    qed
  next
    case False
    then show ?thesis using assms cok_join [OF assms(1,2)] n
      by (auto simp: groupListen_def split_beta split: option.splits)
  qed
  then show ?thesis by (simp add: listen_scheme)
qed

lemma cok_close:
  assumes "cok ctl" "l < length (lnGroup ctl)" "l \<notin> closedLns ctl"
  shows "cok (closeListener (release t) l ctl) \<and> length (gstore (closeListener (release t) l ctl)) = length (gstore ctl)"
proof -
  define a where "a = lnGroup ctl ! l"
  let ?g = "(lgrp a ctl)\<lparr>lns := remove1 l (lns (lgrp a ctl))\<rparr>" and ?c = "closeListener (release t) l ctl"
  have a: "a < length (gstore ctl)" "l \<in> set (lns (lgrp a ctl))" using cokD(5,6) [OF assms(1,2)] assms(3) by (simp_all add: a_def)
  have ga: "gok ctl a" by (rule cokD(3) [OF assms(1) a(1)])
  then have op: "registry ctl (bgroup (lgrp a ctl)) = Some a" "realOpen (lgrp a ctl)" "acceptChCloses (lgrp a ctl) = 0"
    "distinct (lns (lgrp a ctl))" "holds (bparams (lgrp a ctl)) (resource ctl)"
    using a(2) by (auto simp: gok_def split: if_splits)
  let ?last = "lns ?g = []"
  have len: "length (gstore ?c) = length (gstore ctl)" by (simp add: closeListener_def Let_def)
  have f: "lnGroup ?c = lnGroup ctl" "closedLns ?c = insert l (closedLns ctl)"
    "resource ?c = (if ?last then release t (bparams (lgrp a ctl)) (resource ctl) else resource ctl)"
    "registry ?c = (if ?last then (registry ctl)(bgroup (lgrp a ctl) := None) else registry ctl)"
    using op(1) by (simp_all add: closeListener_def Let_def a_def)
  have g: "lgrp b ?c = (if b = a then (if ?last then ?g\<lparr>acceptChCloses := 1, realOpen := False\<rparr> else ?g) else lgrp b ctl)" for b
    using a(1) op(3) by (simp add: closeListener_def Let_def a_def [symmetric])
  have gl: "lns (lgrp b ?c) = (if b = a then remove1 l (lns (lgrp a ctl)) else lns (lgrp b ctl))" for b by (simp add: g)
  have gp: "bparams (lgrp b ?c) = bparams (lgrp b ctl)" "bgroup (lgrp b ?c) = bgroup (lgrp b ctl)" for b by (simp_all add: g)
  have ne: "lns (lgrp b ctl) \<noteq> []" if "lns (lgrp b ?c) \<noteq> []" for b using that a(2) by (auto simp: gl split: if_splits)
  have "gok ?c b" if "b < length (gstore ctl)" for b
  proof (cases "b = a")
    case True
    then show ?thesis using ga op a by (auto simp: gok_def g f dest: notin_set_remove1 set_remove1_subset [THEN subsetD])
  next
    case False
    have nc: "\<not> clash (bparams (lgrp a ctl)) (bparams (lgrp b ctl))" if "lns (lgrp b ctl) \<noteq> []"
      using cokD(4) [OF assms(1) a(1) \<open>b < length (gstore ctl)\<close>] False a(2) that by force
    have "holds (bparams (lgrp b ctl)) (resource ?c)" if "lns (lgrp b ctl) \<noteq> []"
      using release_keeps [OF cokD(1) [OF assms(1)] nc [OF that]] cokD(3) [OF assms(1) \<open>b < length (gstore ctl)\<close>] that
      by (auto simp: f gok_def)
    moreover have "registry ?c (bgroup (lgrp b ctl)) = Some b" if "lns (lgrp b ctl) \<noteq> []"
      using cokD(3) [OF assms(1) \<open>b < length (gstore ctl)\<close>] that op(1) False by (auto simp: f gok_def)
    ultimately show ?thesis using cokD(3) [OF assms(1) that] False unfolding gok_def
      by (cases "lns (lgrp b ctl) = []") (auto simp: g f(1))
  qed
  moreover have "\<not> clash (bparams (lgrp x ?c)) (bparams (lgrp y ?c))"
    if "x < length (gstore ctl)" "y < length (gstore ctl)" "x \<noteq> y" "lns (lgrp x ?c) \<noteq> []" "lns (lgrp y ?c) \<noteq> []" for x y
    using cokD(4) [OF assms(1) that(1,2,3)] ne [OF that(4)] ne [OF that(5)] by (simp add: gp)
  moreover have "k \<notin> closedLns ?c \<longleftrightarrow> k \<in> set (lns (lgrp (lnGroup ctl ! k) ?c))" if "k < length (lnGroup ctl)" for k
    using cokD(6) [OF assms(1) that] op(4) a(2) a_def by (auto simp: f gl)
  moreover have "rok (resource ?c)" using cokD(1) [OF assms(1)] release_rok by (simp add: f)
  ultimately show ?thesis
    using cokD(2,5,7) [OF assms(1)] assms(2) unfolding cok_def by (auto simp: len f split: if_splits)
qed

lemma linv_event:
  assumes "linv s" "lguard allowed envOk e s"
  shows "linv (lhappen listen release env p0 e s)"
proof (cases e)
  case (LGet t gname)
  obtain a c where g: "registryGetOrCreate p0 gname (lctl s) = (a, c)" by fastforce
  from cok_getOrCreate [OF _ g] assms(1) show ?thesis
    by (auto simp: LGet g linv_def intro: less_le_trans)
next
  case (LTry t key c)
  then obtain a gname where p: "pending s t = Some (a, gname)" using assms(2) by auto
  have a: "a < length (gstore (lctl s))" "cok (lctl s)" using assms(1) p by (auto simp: linv_def)
  obtain x ctl where l: "listen a gname key c (lctl s) = (x, ctl)" by fastforce
  have ok: "cok ctl" "length (gstore ctl) = length (gstore (lctl s))"
    using cok_listen [OF a(2,1), of c gname key] assms(2) LTry l by auto
  show ?thesis
  proof (cases "x = Inl GroupStale")
    case True
    obtain b c1 where g: "registryGetOrCreate p0 gname ctl = (b, c1)" by fastforce
    from cok_getOrCreate [OF ok(1) g] assms(1) ok(2) show ?thesis
      by (auto simp: LTry tryListen_def p l True g linv_def intro: less_le_trans)
  next
    case False
    then have "lhappen listen release env p0 e s = s\<lparr>lctl := ctl, pending := (pending s)(t := None)\<rparr>"
      by (cases x) (auto simp: LTry tryListen_def p l split: lgroup_error.split)
    with ok assms(1) show ?thesis by (auto simp: linv_def)
  qed
next
  case (LClose t l)
  with cok_close [of "lctl s" l t] assms show ?thesis by (auto simp: linv_def)
next
  case (LEnv x)
  with assms have "cok ((lctl s)\<lparr>resource := env x (resource (lctl s))\<rparr>)"
    by (intro cok_resource) (auto simp: linv_def intro: env_rok env_keeps cokD(1) cok_open_holds)
  with assms(1) LEnv show ?thesis by (simp add: linv_def)
qed

sublocale event_system "lguard allowed envOk" "lhappen listen release env p0" "lstart r0" linv
proof unfold_locales
  show "linv (lstart r0)" by (simp add: linv_def lstart_def cok_init)
qed (rule linv_event)

text \<open>What the three kinds of groups get.\<close>

lemma reached_group:
  assumes "steps (lguard allowed envOk) (lhappen listen release env p0) (lstart r0) s" "a < length (gstore (lctl s))"
  shows "(if lns (lgrp a (lctl s)) = [] then \<not> realOpen (lgrp a (lctl s)) \<and> acceptChCloses (lgrp a (lctl s)) \<le> 1
      else registry (lctl s) (bgroup (lgrp a (lctl s))) = Some a \<and> realOpen (lgrp a (lctl s)) \<and>
        acceptChCloses (lgrp a (lctl s)) = 0 \<and> holds (bparams (lgrp a (lctl s))) (resource (lctl s)))"
proof -
  have "gok (lctl s) a" using good_reached [OF assms(1)] cokD(3) assms(2) by (simp add: linv_def)
  then show ?thesis unfolding gok_def by blast
qed

lemma reached_last_close:
  assumes "steps (lguard allowed envOk) (lhappen listen release env p0) (lstart r0) s"
    and "a < length (gstore (lctl s))" "lns (lgrp a (lctl s)) = [l]"
  shows "\<not> holds (bparams (lgrp a (lctl s))) (resource (closeListener (release t) l (lctl s))) \<and>
     registry (closeListener (release t) l (lctl s)) (bgroup (lgrp a (lctl s))) = None"
proof -
  have c: "cok (lctl s)" using good_reached [OF assms(1)] by (simp add: linv_def)
  have g: "lnGroup (lctl s) ! l = a" "registry (lctl s) (bgroup (lgrp a (lctl s))) = Some a"
    using cokD(3) [OF c assms(2)] assms(3) by (auto simp: gok_def)
  show ?thesis using release_frees [OF cokD(1) [OF c]] g assms(3) by (simp add: closeListener_def Let_def)
qed

end

section \<open>TCP groups follow the scheme\<close>

definition tcpAcquire :: "tcp_call \<Rightarrow> manager \<Rightarrow> (tcp_error + tcp_params) \<times> manager" where
  "tcpAcquire c pm =
     (case Acquire (avail c) (now c) (order c) (proxyName c) (cport c) pm of
        (Inl e, pm1) \<Rightarrow> (Inl (AcquireErr e), pm1)
      | (Inr port, pm1) \<Rightarrow>
          if \<not> listenOk c port then (Inl NetListenErr, Release (now c) port pm1)
          else (Inr \<lparr>taddr = caddr c, tport = cport c, realPort = port\<rparr>, pm1))"

definition tcpMismatch :: "tcp_params \<Rightarrow> tcp_call \<Rightarrow> tcp_error lgroup_error option" where
  "tcpMismatch p c =
     (if taddr p \<noteq> caddr c then Some GroupParamsInvalid else if tport p \<noteq> cport c then Some GroupDifferentPort else None)"

text \<open>What is known of the operating system: a port on which a group listens cannot be bound or listened on again.
  The order is an iteration of the free ports.\<close>

definition tcpAllowed :: "tcp_call \<Rightarrow> tcp_params set \<Rightarrow> manager \<Rightarrow> bool" where
  "tcpAllowed c B pm \<longleftrightarrow> set (order c) = freePorts pm \<and> (\<forall>q\<in>B. \<not> avail c (realPort q) \<and> \<not> listenOk c (realPort q))"

text \<open>Other users of the port manager bind only ports that can be bound and release only ports of their own.\<close>

fun tcpEnvOk :: "port_op \<Rightarrow> tcp_params set \<Rightarrow> manager \<Rightarrow> bool" where
  "tcpEnvOk (OpAcquire av t ord name port) B pm \<longleftrightarrow> set ord = freePorts pm \<and> distinct ord \<and> (\<forall>q\<in>B. \<not> av (realPort q))"
| "tcpEnvOk (OpRelease t port) B pm \<longleftrightarrow> port \<notin> realPort ` B"
| "tcpEnvOk (OpClean t ord) B pm \<longleftrightarrow> op_ok (OpClean t ord) pm"

lemma Acquire_used:
  assumes "Acquire av t ord name port pm = (x, pm')"
  shows "usedPorts pm q \<noteq> None \<Longrightarrow> usedPorts pm' q \<noteq> None" "x = Inr p \<Longrightarrow> usedPorts pm' p \<noteq> None \<and> av p"
  using assms
  by (cases rule: Acquire_cases [of av t ord name port pm];
      auto simp: markPortAcquiredLocked_def Let_def)+

lemma Release_used: "usedPorts (Release t port pm) = (usedPorts pm)(port := None)"
  by (auto simp: Release_def fun_upd_idem split: option.splits)

lemma TCPGroupListen_scheme:
  "snd (TCPGroupListen a gname key c ctl) = snd (groupListen tcpAcquire tcpMismatch a gname key c ctl)"
  by (auto simp: TCPGroupListen_def groupListen_def tcpAcquire_def tcpMismatch_def Let_def split_beta split: sum.splits prod.splits)

interpretation tcp_groups: listener_groups tcpAcquire tcpCleanup perform "inv (allowed_ports allow)"
  "\<lambda>p pm. usedPorts pm (realPort p) \<noteq> None" "\<lambda>p q. realPort p = realPort q" tcpAllowed tcpEnvOk
  TCPGroupListen tcpMismatch noTcp "NewManager allow" for allow
proof unfold_locales
  fix pm c B
  assume i: "inv (allowed_ports allow) pm" and a: "tcpAllowed c B pm"
  obtain x pm1 where q: "Acquire (avail c) (now c) (order c) (proxyName c) (cport c) pm = (x, pm1)" by fastforce
  have i1: "inv (allowed_ports allow) pm1" using inv_Acquire [OF i, of "order c"] a q by (metis snd_conv tcpAllowed_def)
  show "inv (allowed_ports allow) (snd (tcpAcquire c pm))"
    using i1 inv_Release [OF i1] by (auto simp: tcpAcquire_def q split: sum.splits)
  fix r :: tcp_params assume r: "r \<in> B" "usedPorts pm (realPort r) \<noteq> None"
  have "usedPorts pm1 (realPort r) \<noteq> None" using Acquire_used(1) [OF q r(2)] .
  moreover have "realPort r \<noteq> port" if "x = Inr port" for port
    using Acquire_used(2) [OF q that] a r(1) by (auto simp: tcpAllowed_def)
  ultimately show "usedPorts (snd (tcpAcquire c pm)) (realPort r) \<noteq> None"
    by (auto simp: tcpAcquire_def q Release_used split: sum.splits)
next
  fix pm c B p pm'
  assume "tcpAcquire c pm = (Inr p, pm')"
  then show "usedPorts pm' (realPort p) \<noteq> None"
    by (auto simp: tcpAcquire_def split: prod.splits sum.splits if_splits dest: Acquire_used(2))
next
  fix pm c B p pm' q
  assume "tcpAllowed c B pm" "tcpAcquire c pm = (Inr p, pm')" "q \<in> B"
  then show "realPort p \<noteq> realPort q"
    by (auto simp: tcpAcquire_def tcpAllowed_def split: prod.splits sum.splits if_splits)
next
  fix pm x B
  assume i: "inv (allowed_ports allow) pm" and e: "tcpEnvOk x B pm"
  have "op_ok x pm" using e by (cases x) auto
  then show "inv (allowed_ports allow) (perform x pm)" by (rule inv_perform [OF i])
  fix q :: tcp_params assume "q \<in> B" "usedPorts pm (realPort q) \<noteq> None"
  then show "usedPorts (perform x pm) (realPort q) \<noteq> None"
  proof (cases x)
    case (OpAcquire av t ord name port)
    obtain y pm1 where "Acquire av t ord name port pm = (y, pm1)" by fastforce
    with Acquire_used(1) [OF this \<open>usedPorts pm (realPort q) \<noteq> None\<close>] OpAcquire show ?thesis by simp
  qed (use \<open>q \<in> B\<close> \<open>usedPorts pm (realPort q) \<noteq> None\<close> e in
      \<open>auto simp: Release_used cleanReservedPortsOnce_def clean_loop_fields\<close>)
next
  fix a gname key c ctl
  assume "fst (TCPGroupListen a gname key c ctl) = Inl GroupStale"
  then show "snd (TCPGroupListen a gname key c ctl) = ctl"
    by (auto simp: TCPGroupListen_def Let_def split_beta split: if_splits sum.splits prod.splits)
qed (auto simp: inv_Release tcpCleanup_def Release_used TCPGroupListen_scheme inv_NewManager)

section \<open>HTTPS and TCPMux groups follow the scheme\<close>

definition muxKey :: "mux_params \<Rightarrow> string \<times> string \<times> string" where
  "muxKey p = (ToLower (mdomain p), mrouteByHTTPUser p, mlocation p)"

definition httpsMismatch :: "mux_params \<Rightarrow> mux_params \<Rightarrow> router_error lgroup_error option" where
  "httpsMismatch p rc = (if mdomain p \<noteq> mdomain rc then Some GroupParamsInvalid else None)"

definition tcpmuxMismatch :: "mux_params \<Rightarrow> mux_params \<Rightarrow> router_error lgroup_error option" where
  "tcpmuxMismatch p rc =
     (if mdomain p \<noteq> mdomain rc \<or> mrouteByHTTPUser p \<noteq> mrouteByHTTPUser rc \<or> musername p \<noteq> musername rc \<or> mpassword p \<noteq> mpassword rc
      then Some GroupParamsInvalid else None)"

text \<open>Proxies without a group use the muxer, too; they close only listeners of their own.\<close>

datatype mux_op = MListen mux_params | MClose mux_params

fun muxPerform :: "mux_op \<Rightarrow> mux_params routers \<Rightarrow> mux_params routers" where
  "muxPerform (MListen p) r = snd (MuxerListen p r)"
| "muxPerform (MClose p) r = MuxListenerClose p r"

fun muxEnvOk :: "mux_op \<Rightarrow> mux_params set \<Rightarrow> mux_params routers \<Rightarrow> bool" where
  "muxEnvOk (MListen p) B r \<longleftrightarrow> True"
| "muxEnvOk (MClose p) B r \<longleftrightarrow> muxKey p \<notin> muxKey ` B"

lemma MuxerListen_table:
  assumes "routers_ok r"
  shows "routers_ok (snd (MuxerListen p r))"
    "route_table (snd (MuxerListen p r)) = (if route_table r (muxKey p) = None then (route_table r)(muxKey p \<mapsto> p) else route_table r)"
    "fst (MuxerListen p r) = Inr q \<longleftrightarrow> route_table r (muxKey p) = None \<and> q = p"
proof -
  obtain x r1 where m: "RoutersAdd (mdomain p) (mlocation p) (mrouteByHTTPUser p) p r = (x, r1)" by fastforce
  have s: "snd (MuxerListen p r) = r1" by (simp add: MuxerListen_def m split: sum.splits)
  show "routers_ok (snd (MuxerListen p r))"
    using routes.add_wf [OF assms, of "mdomain p" "mlocation p" "mrouteByHTTPUser p" p] m s by simp
  show "route_table (snd (MuxerListen p r)) = (if route_table r (muxKey p) = None then (route_table r)(muxKey p \<mapsto> p) else route_table r)"
    using routes.add_table [OF assms, of "mdomain p" "mrouteByHTTPUser p" "mlocation p" p]
      routes.add_conflict [OF assms, of "mdomain p" "mrouteByHTTPUser p" "mlocation p" p] m s by (auto simp: muxKey_def)
  show "fst (MuxerListen p r) = Inr q \<longleftrightarrow> route_table r (muxKey p) = None \<and> q = p"
    using routes.add_ok_iff [OF assms, of "mdomain p" "mlocation p" "mrouteByHTTPUser p" p] m
    by (cases x) (auto simp: MuxerListen_def muxKey_def)
qed

lemma MuxListenerClose_table:
  assumes "routers_ok r"
  shows "routers_ok (MuxListenerClose p r)" "route_table (MuxListenerClose p r) = (route_table r)(muxKey p := None)"
  using routes.del_wf [OF assms] routes.del_table [OF assms] by (simp_all add: MuxListenerClose_def muxKey_def)

interpretation mux: group_resource MuxerListen "\<lambda>t. MuxListenerClose" muxPerform routers_ok
  "\<lambda>p r. route_table r (muxKey p) \<noteq> None" "\<lambda>p q. muxKey p = muxKey q" "\<lambda>c B r. True" muxEnvOk
proof unfold_locales
  fix r c p r' B q
  assume r: "routers_ok r" "MuxerListen c r = (Inr p, r')"
  then have e: "route_table r (muxKey c) = None" "p = c" using MuxerListen_table(3) [OF r(1), of c p] by simp_all
  then show "route_table r' (muxKey p) \<noteq> None" using MuxerListen_table(2) [OF r(1), of c] r(2) by simp
  assume "route_table r (muxKey q) \<noteq> None"
  with e show "muxKey p \<noteq> muxKey q" by metis
next
  fix r :: "mux_params routers" and x :: mux_op and B q
  assume r: "routers_ok r" "muxEnvOk x B r"
  show "routers_ok (muxPerform x r)" using r(1) by (cases x) (simp_all add: MuxerListen_table MuxListenerClose_table)
  assume "q \<in> B" "route_table r (muxKey q) \<noteq> None"
  then show "route_table (muxPerform x r) (muxKey q) \<noteq> None"
    using r by (cases x) (auto simp: MuxerListen_table MuxListenerClose_table image_iff)
qed (auto simp: MuxerListen_table MuxListenerClose_table)

interpretation https_groups: listener_groups MuxerListen "\<lambda>t. MuxListenerClose" muxPerform routers_ok
  "\<lambda>p r. route_table r (muxKey p) \<noteq> None" "\<lambda>p q. muxKey p = muxKey q" "\<lambda>c B r. True" muxEnvOk
  HTTPSGroupListen httpsMismatch noMux NewRouters
proof unfold_locales
  fix a gname key c ctl
  show "snd (HTTPSGroupListen a gname key c ctl) = snd (groupListen MuxerListen httpsMismatch a gname key c ctl)"
    by (auto simp: HTTPSGroupListen_def groupListen_def httpsMismatch_def Let_def)
  assume "fst (HTTPSGroupListen a gname key c ctl) = Inl GroupStale"
  then show "snd (HTTPSGroupListen a gname key c ctl) = ctl"
    by (auto simp: HTTPSGroupListen_def Let_def split_beta split: if_splits sum.splits prod.splits)
qed (rule routers_ok_New)

interpretation tcpmux_groups: listener_groups MuxerListen "\<lambda>t. MuxListenerClose" muxPerform routers_ok
  "\<lambda>p r. route_table r (muxKey p) \<noteq> None" "\<lambda>p q. muxKey p = muxKey q" "\<lambda>c B r. True" muxEnvOk
  HTTPConnectListen tcpmuxMismatch noMux NewRouters
proof unfold_locales
  fix a gname key c ctl
  show "snd (HTTPConnectListen a gname key c ctl) = snd (groupListen MuxerListen tcpmuxMismatch a gname key c ctl)"
    by (auto simp: HTTPConnectListen_def groupListen_def tcpmuxMismatch_def Let_def)
  assume "fst (HTTPConnectListen a gname key c ctl) = Inl GroupStale"
  then show "snd (HTTPConnectListen a gname key c ctl) = ctl"
    by (auto simp: HTTPConnectListen_def Let_def split_beta split: if_splits sum.splits prod.splits)
qed (rule routers_ok_New)

section \<open>Properties\<close>


definition demo_call :: "string \<Rightarrow> tcp_call" where
  "demo_call name = \<lparr>avail = (\<lambda>_. True), now = 0, order = [6000], listenOk = (\<lambda>_. True), proxyName = name,
     caddr = ''0.0.0.0'', cport = 6000\<rparr>"

definition demo_tcp :: "(tcp_params, manager) lsys" where
  "demo_tcp = fold (lhappen TCPGroupListen tcpCleanup perform noTcp) [LGet 0 ''g'', LTry 0 ''k'' (demo_call ''p'')]
     (lstart (NewManager demo_allow))"

lemma demo_tcp_eval:
  "lctl demo_tcp = \<lparr>gstore = [\<lparr>bgroup = ''g'', bgroupKey = ''k'', acceptChCloses = 0, realOpen = True, lns = [0],
       bparams = \<lparr>taddr = ''0.0.0.0'', tport = 6000, realPort = 6000\<rparr>\<rparr>],
     registry = [''g'' \<mapsto> 0],
     resource = \<lparr>store = [\<lparr>ProxyName = ''p'', CPort = 6000, Closed = False, UpdateTime = 0\<rparr>],
       reservedPorts = [''p'' \<mapsto> 0], usedPorts = [6000 \<mapsto> 0], freePorts = {}\<rparr>,
     lnGroup = [0], closedLns = {}\<rparr>"
  by (simp add: demo_tcp_def tryListen_def lstart_def newCtl_def registryGetOrCreate_def TCPGroupListen_def demo_call_def port_eval
      newListener_def setLgrp_def lgrp_def newGroup_def initBase_def)

lemma demo_tcp_reached:
  "steps (lguard tcpAllowed tcpEnvOk) (lhappen TCPGroupListen tcpCleanup perform noTcp) (lstart (NewManager demo_allow)) demo_tcp"
  unfolding demo_tcp_def
  by (rule steps_run)
     (simp add: lstart_def newCtl_def registryGetOrCreate_def demo_call_def tcpAllowed_def openGroups_def newGroup_def port_eval)


text \<open>HTTPS and TCPMux groups hold their route in the same way: while a group has listeners its real listener is
  open and its route is in the muxer's router, and the route is gone when its last listener is closed.\<close>

theorem mux_group_route:
  fixes listen :: "nat \<Rightarrow> string \<Rightarrow> string \<Rightarrow> mux_params \<Rightarrow> (mux_params, mux_params routers) groupCtl \<Rightarrow>
      (router_error lgroup_error + nat) \<times> (mux_params, mux_params routers) groupCtl"
  assumes "listen = HTTPSGroupListen \<or> listen = HTTPConnectListen"
    and "steps (lguard (\<lambda>c B r. True) muxEnvOk) (lhappen listen (\<lambda>t. MuxListenerClose) muxPerform noMux) (lstart NewRouters) s"
    and "a < length (gstore (lctl s))"
  shows "(if lns (lgrp a (lctl s)) = [] then \<not> realOpen (lgrp a (lctl s)) \<and> acceptChCloses (lgrp a (lctl s)) \<le> 1
      else registry (lctl s) (bgroup (lgrp a (lctl s))) = Some a \<and> realOpen (lgrp a (lctl s)) \<and>
        acceptChCloses (lgrp a (lctl s)) = 0 \<and> route_table (resource (lctl s)) (muxKey (bparams (lgrp a (lctl s)))) \<noteq> None) \<and>
    (lns (lgrp a (lctl s)) = [l] \<longrightarrow>
      route_table (resource (lctl (lhappen listen (\<lambda>t. MuxListenerClose) muxPerform noMux (LClose t l) s)))
        (muxKey (bparams (lgrp a (lctl s)))) = None)"
  using assms(1)
proof
  assume h: "listen = HTTPSGroupListen"
  show ?thesis
    using https_groups.reached_group [OF assms(2) [unfolded h] assms(3)]
      https_groups.reached_last_close [OF assms(2) [unfolded h] assms(3), of l] by (simp add: h)
next
  assume h: "listen = HTTPConnectListen"
  show ?thesis
    using tcpmux_groups.reached_group [OF assms(2) [unfolded h] assms(3)]
      tcpmux_groups.reached_last_close [OF assms(2) [unfolded h] assms(3), of l] by (simp add: h)
qed

definition demo_mux :: "(mux_params, mux_params routers) lsys" where
  "demo_mux = fold (lhappen HTTPSGroupListen (\<lambda>t. MuxListenerClose) muxPerform noMux)
     [LGet 0 ''g'', LTry 0 ''k'' (noMux\<lparr>mdomain := ''a.com''\<rparr>)] (lstart NewRouters)"

theorem mux_group_route_witness:
  "route_table (resource (lctl demo_mux)) (''a.com'', '''', '''') \<noteq> None \<and>
   route_table (resource (lctl (lhappen HTTPSGroupListen (\<lambda>t. MuxListenerClose) muxPerform noMux (LClose 5 0) demo_mux)))
     (''a.com'', '''', '''') = None"
proof -
  have s: "steps (lguard (\<lambda>c B r. True) muxEnvOk) (lhappen HTTPSGroupListen (\<lambda>t. MuxListenerClose) muxPerform noMux) (lstart NewRouters) demo_mux"
    unfolding demo_mux_def by (rule steps_run) (simp add: lstart_def newCtl_def registryGetOrCreate_def)
  have g: "lns (lgrp 0 (lctl demo_mux)) = [0]" "muxKey (bparams (lgrp 0 (lctl demo_mux))) = (''a.com'', '''', '''')"
    "length (gstore (lctl demo_mux)) = 1" by code_simp+
  from mux_group_route [OF disjI1 [OF refl] s, where a = 0 and l = 0 and t = 5] show ?thesis unfolding g by simp
qed

end
