(* ===== verification/Nat_Hole.thy ===== *)
theory Nat_Hole
  imports Go_Strings
begin

text \<open>
  NAT classification and the choice of hole-punching behaviours: \<^verbatim>\<open>pkg/nathole/classify.go\<close> and
  \<^verbatim>\<open>pkg/nathole/analysis.go\<close>.  A NAT is classified from the addresses its host was seen under; the
  analyzer keeps, per pair of peers, a score for every pair of behaviours it may recommend, takes
  the best one and lowers its score, and raises the score of a behaviour that worked.  Every
  \<^verbatim>\<open>makeHoleRecords\<close> method holds the record's lock and every record is owned by the analyzer's map,
  so the map holds the records directly and a method is one step.
\<close>

section \<open>Classification\<close>

definition EasyNAT :: string where "EasyNAT = ''EasyNAT''"
definition HardNAT :: string where "HardNAT = ''HardNAT''"
definition BehaviorNoChange :: string where "BehaviorNoChange = ''BehaviorNoChange''"
definition BehaviorIPChanged :: string where "BehaviorIPChanged = ''BehaviorIPChanged''"
definition BehaviorPortChanged :: string where "BehaviorPortChanged = ''BehaviorPortChanged''"
definition BehaviorBothChanged :: string where "BehaviorBothChanged = ''BehaviorBothChanged''"

lemmas nat_names = EasyNAT_def HardNAT_def BehaviorNoChange_def BehaviorIPChanged_def
  BehaviorPortChanged_def BehaviorBothChanged_def

record NatFeature =
  NatType :: string
  Behavior :: string
  PortsDifference :: int
  RegularPortsChange :: bool
  PublicNetwork :: bool

datatype nat_error = NotEnoughAddresses | AddrErr addr_error | AtoiErr string

text \<open>Go's \<^verbatim>\<open>int\<close> arithmetic on 64 bits.\<close>

definition wrap64 :: "int \<Rightarrow> int" where
  "wrap64 i = (i + 2 ^ 63) mod 2 ^ 64 - 2 ^ 63"

text \<open>The variables of the loop over the addresses.\<close>

record scan =
  sPublic :: bool
  ipChanged :: bool
  portChanged :: bool
  baseIP :: string
  basePort :: string
  portMax :: int
  portMin :: int

definition scan0 :: scan where
  "scan0 = \<lparr>sPublic = False, ipChanged = False, portChanged = False, baseIP = '''', basePort = '''',
            portMax = 0, portMin = 0\<rparr>"

definition scan_addr :: "string list \<Rightarrow> string \<Rightarrow> string \<Rightarrow> int \<Rightarrow> scan \<Rightarrow> scan" where
  "scan_addr localIPs ip port portNum st0 =
     (let st = (if ip \<in> set localIPs then st0\<lparr>sPublic := True\<rparr> else st0) in
      if baseIP st = '''' then st\<lparr>baseIP := ip, basePort := port, portMax := portNum, portMin := portNum\<rparr>
      else st\<lparr>portMax := max (portMax st) portNum, portMin := min (portMin st) portNum,
              ipChanged := ipChanged st \<or> baseIP st \<noteq> ip, portChanged := portChanged st \<or> basePort st \<noteq> port\<rparr>)"

fun scan_loop :: "string list \<Rightarrow> string list \<Rightarrow> scan \<Rightarrow> nat_error + scan" where
  "scan_loop localIPs [] st = Inr st"
| "scan_loop localIPs (addr # addrs) st =
     bindR (mapErr AddrErr (SplitHostPort addr)) (\<lambda>(ip, port).
       case ParseInt64 port of
         None \<Rightarrow> Inl (AtoiErr port)
       | Some portNum \<Rightarrow> scan_loop localIPs addrs (scan_addr localIPs ip port portNum st))"

definition scan_feature :: "scan \<Rightarrow> NatFeature" where
  "scan_feature st =
     (let (ty, bh) =
        (if ipChanged st \<and> portChanged st then (HardNAT, BehaviorBothChanged)
         else if ipChanged st then (HardNAT, BehaviorIPChanged)
         else if portChanged st then (HardNAT, BehaviorPortChanged)
         else (EasyNAT, BehaviorNoChange));
        diff = (if bh = BehaviorPortChanged then wrap64 (portMax st - portMin st) else 0)
      in \<lparr>NatType = ty, Behavior = bh, PortsDifference = diff,
          RegularPortsChange = (bh = BehaviorPortChanged \<and> diff \<le> 5 \<and> diff \<ge> 1), PublicNetwork = sPublic st\<rparr>)"

definition ClassifyNATFeature :: "string list \<Rightarrow> string list \<Rightarrow> nat_error + NatFeature" where
  "ClassifyNATFeature addresses localIPs =
     (if length addresses \<le> 1 then Inl NotEnoughAddresses
      else bindR (scan_loop localIPs addresses scan0) (\<lambda>st. Inr (scan_feature st)))"

fun ClassifyFeatureCount :: "NatFeature list \<Rightarrow> nat \<times> nat \<times> nat" where
  "ClassifyFeatureCount [] = (0, 0, 0)"
| "ClassifyFeatureCount (f # fs) =
     (let (easy, hard, regular) = ClassifyFeatureCount fs in
      if NatType f = EasyNAT then (easy + 1, hard, regular)
      else (easy, hard + 1, if RegularPortsChange f then regular + 1 else regular))"

section \<open>Behaviour tables\<close>

definition DetectRoleSender :: string where "DetectRoleSender = ''sender''"
definition DetectRoleReceiver :: string where "DetectRoleReceiver = ''receiver''"

definition DetectMode0 :: nat where "DetectMode0 = 0"
definition DetectMode1 :: nat where "DetectMode1 = 1"
definition DetectMode2 :: nat where "DetectMode2 = 2"
definition DetectMode3 :: nat where "DetectMode3 = 3"
definition DetectMode4 :: nat where "DetectMode4 = 4"

lemmas detect_modes = DetectMode0_def DetectMode1_def DetectMode2_def DetectMode3_def DetectMode4_def

record RecommandBehavior =
  Role :: string
  TTL :: int
  SendDelayMs :: int
  PortsRangeNumber :: int
  PortsRandomNumber :: int
  ListenRandomPorts :: int

text \<open>The zero value, and the two roles with every other field zero.\<close>

definition noBehavior :: RecommandBehavior where
  "noBehavior = \<lparr>Role = '''', TTL = 0, SendDelayMs = 0, PortsRangeNumber = 0, PortsRandomNumber = 0, ListenRandomPorts = 0\<rparr>"

abbreviation sender :: RecommandBehavior where "sender \<equiv> noBehavior\<lparr>Role := DetectRoleSender\<rparr>"
abbreviation receiver :: RecommandBehavior where "receiver \<equiv> noBehavior\<lparr>Role := DetectRoleReceiver\<rparr>"

definition mode0Behaviors :: "(RecommandBehavior \<times> RecommandBehavior) list" where
  "mode0Behaviors =
     [(sender, receiver\<lparr>TTL := 7\<rparr>),
      (receiver\<lparr>TTL := 7\<rparr>, sender),
      (sender, receiver\<lparr>TTL := 4\<rparr>),
      (receiver\<lparr>TTL := 4\<rparr>, sender),
      (sender, receiver),
      (receiver, sender),
      (sender\<lparr>SendDelayMs := 5000\<rparr>, receiver),
      (sender\<lparr>SendDelayMs := 10000\<rparr>, receiver),
      (receiver, sender\<lparr>SendDelayMs := 5000\<rparr>),
      (receiver, sender\<lparr>SendDelayMs := 10000\<rparr>)]"

definition mode1Behaviors :: "(RecommandBehavior \<times> RecommandBehavior) list" where
  "mode1Behaviors =
     [(sender, receiver\<lparr>TTL := 7, PortsRangeNumber := 10\<rparr>),
      (sender\<lparr>SendDelayMs := 2000\<rparr>, receiver\<lparr>TTL := 7, PortsRangeNumber := 10\<rparr>),
      (sender, receiver\<lparr>TTL := 4, PortsRangeNumber := 10\<rparr>),
      (sender\<lparr>SendDelayMs := 2000\<rparr>, receiver\<lparr>TTL := 4, PortsRangeNumber := 10\<rparr>),
      (sender, receiver\<lparr>PortsRangeNumber := 10\<rparr>),
      (sender\<lparr>SendDelayMs := 2000\<rparr>, receiver\<lparr>PortsRangeNumber := 10\<rparr>)]"

definition mode2Behaviors :: "(RecommandBehavior \<times> RecommandBehavior) list" where
  "mode2Behaviors =
     [(sender\<lparr>PortsRandomNumber := 1000, SendDelayMs := 3000\<rparr>, receiver\<lparr>ListenRandomPorts := 256, TTL := 7\<rparr>),
      (sender\<lparr>PortsRandomNumber := 1000, SendDelayMs := 3000\<rparr>, receiver\<lparr>ListenRandomPorts := 256, TTL := 4\<rparr>),
      (sender\<lparr>PortsRandomNumber := 1000, SendDelayMs := 3000\<rparr>, receiver\<lparr>ListenRandomPorts := 256\<rparr>)]"

definition mode3Behaviors :: "(RecommandBehavior \<times> RecommandBehavior) list" where
  "mode3Behaviors =
     [(sender\<lparr>PortsRangeNumber := 10\<rparr>, receiver\<lparr>TTL := 7, PortsRangeNumber := 10\<rparr>),
      (sender\<lparr>PortsRangeNumber := 10\<rparr>, receiver\<lparr>TTL := 4, PortsRangeNumber := 10\<rparr>),
      (sender\<lparr>PortsRangeNumber := 10\<rparr>, receiver\<lparr>PortsRangeNumber := 10\<rparr>),
      (receiver\<lparr>TTL := 7, PortsRangeNumber := 10\<rparr>, sender\<lparr>PortsRangeNumber := 10\<rparr>),
      (receiver\<lparr>TTL := 4, PortsRangeNumber := 10\<rparr>, sender\<lparr>PortsRangeNumber := 10\<rparr>),
      (receiver\<lparr>PortsRangeNumber := 10\<rparr>, sender\<lparr>PortsRangeNumber := 10\<rparr>)]"

definition mode4Behaviors :: "(RecommandBehavior \<times> RecommandBehavior) list" where
  "mode4Behaviors =
     [(sender\<lparr>PortsRandomNumber := 1000, SendDelayMs := 3000\<rparr>,
       receiver\<lparr>ListenRandomPorts := 256, TTL := 7, PortsRangeNumber := 2\<rparr>),
      (sender\<lparr>PortsRandomNumber := 1000, SendDelayMs := 3000\<rparr>,
       receiver\<lparr>ListenRandomPorts := 256, TTL := 4, PortsRangeNumber := 2\<rparr>),
      (sender\<lparr>PortsRandomNumber := 1000, SendDelayMs := 3000\<rparr>,
       receiver\<lparr>ListenRandomPorts := 256, PortsRangeNumber := 2\<rparr>)]"

definition getBehaviorByMode :: "nat \<Rightarrow> (RecommandBehavior \<times> RecommandBehavior) list" where
  "getBehaviorByMode mode =
     (if mode = 0 then mode0Behaviors else if mode = 1 then mode1Behaviors else if mode = 2 then mode2Behaviors
      else if mode = 3 then mode3Behaviors else if mode = 4 then mode4Behaviors else mode0Behaviors)"

definition getBehaviorByModeAndIndex :: "nat \<Rightarrow> nat \<Rightarrow> RecommandBehavior \<times> RecommandBehavior" where
  "getBehaviorByModeAndIndex mode index =
     (let behaviors = getBehaviorByMode mode in
      if index \<ge> length behaviors then (noBehavior, noBehavior) else behaviors ! index)"

section \<open>Scores\<close>

record behaviorScore =
  Mode :: nat
  Index :: nat
  Score :: int

record makeHoleRecords =
  scores :: "behaviorScore list"
  lastUpdateTime :: int

definition getBehaviorScoresByMode2 :: "nat \<Rightarrow> int \<Rightarrow> int \<Rightarrow> behaviorScore list" where
  "getBehaviorScoresByMode2 mode senderScore receiverScore =
     (let behaviors = getBehaviorByMode mode in
      map (\<lambda>i. \<lparr>Mode = mode, Index = i,
                Score = (if Role (fst (behaviors ! i)) = DetectRoleSender then senderScore else receiverScore)\<rparr>)
        [0..<length behaviors])"

definition getBehaviorScoresByMode :: "nat \<Rightarrow> int \<Rightarrow> behaviorScore list" where
  "getBehaviorScoresByMode mode defaultScore = getBehaviorScoresByMode2 mode defaultScore defaultScore"

definition mode0Scores :: "NatFeature \<Rightarrow> NatFeature \<Rightarrow> behaviorScore list" where
  "mode0Scores c v =
     (if PublicNetwork c then getBehaviorScoresByMode2 DetectMode0 0 1
      else if PublicNetwork v then getBehaviorScoresByMode2 DetectMode0 1 0
      else getBehaviorScoresByMode DetectMode0 0)"

definition initialScores :: "NatFeature \<Rightarrow> NatFeature \<Rightarrow> behaviorScore list" where
  "initialScores c v =
     (case ClassifyFeatureCount [c, v] of (easyCount, hardCount, portsChangedRegularCount) \<Rightarrow>
      if easyCount = 2 then mode0Scores c v
      else if hardCount = 1 \<and> portsChangedRegularCount = 1 then
        getBehaviorScoresByMode DetectMode1 0 @ getBehaviorScoresByMode DetectMode2 0 @ mode0Scores c v
      else if hardCount = 1 \<and> portsChangedRegularCount = 0 then
        getBehaviorScoresByMode DetectMode2 0 @ getBehaviorScoresByMode DetectMode1 0 @ mode0Scores c v
      else if hardCount = 2 \<and> portsChangedRegularCount = 2 then
        getBehaviorScoresByMode DetectMode3 0 @ getBehaviorScoresByMode DetectMode4 0
      else if hardCount = 2 \<and> portsChangedRegularCount = 1 then getBehaviorScoresByMode DetectMode4 0
      else getBehaviorScoresByMode DetectMode0 1 @ getBehaviorScoresByMode DetectMode1 1 @
           getBehaviorScoresByMode DetectMode3 1)"

definition newMakeHoleRecords :: "int \<Rightarrow> NatFeature \<Rightarrow> NatFeature \<Rightarrow> makeHoleRecords" where
  "newMakeHoleRecords now c v = \<lparr>scores = initialScores c v, lastUpdateTime = now\<rparr>"

fun raiseScore :: "nat \<Rightarrow> nat \<Rightarrow> behaviorScore list \<Rightarrow> behaviorScore list" where
  "raiseScore mode index [] = []"
| "raiseScore mode index (b # bs) =
     (if Mode b \<noteq> mode \<or> Index b \<noteq> index then b # raiseScore mode index bs
      else b\<lparr>Score := min (Score b + 2) 10\<rparr> # bs)"

definition reportSuccess :: "int \<Rightarrow> nat \<Rightarrow> nat \<Rightarrow> makeHoleRecords \<Rightarrow> makeHoleRecords" where
  "reportSuccess now mode index mhr =
     mhr\<lparr>lastUpdateTime := now, scores := raiseScore mode index (scores mhr)\<rparr>"

text \<open>\<^verbatim>\<open>slices.MaxFunc\<close>: the position of the first maximal element.\<close>

fun maxFrom :: "behaviorScore list \<Rightarrow> nat \<Rightarrow> nat \<Rightarrow> behaviorScore list \<Rightarrow> nat" where
  "maxFrom bs best i [] = best"
| "maxFrom bs best i (x # xs) = maxFrom bs (if Score x > Score (bs ! best) then i else best) (i + 1) xs"

definition maxScore :: "behaviorScore list \<Rightarrow> nat" where
  "maxScore bs = maxFrom bs 0 1 (drop 1 bs)"

definition recommand :: "int \<Rightarrow> makeHoleRecords \<Rightarrow> (nat \<times> nat) \<times> makeHoleRecords" where
  "recommand now mhr =
     (if length (scores mhr) = 0 then ((0, 0), mhr)
      else
        let i = maxScore (scores mhr); b = scores mhr ! i in
        ((Mode b, Index b), mhr\<lparr>scores := (scores mhr)[i := b\<lparr>Score := Score b - 1\<rparr>], lastUpdateTime := now\<rparr>))"

section \<open>The analyzer\<close>

record Analyzer =
  records :: "string \<rightharpoonup> makeHoleRecords"
  dataReserveDuration :: int

definition NewAnalyzer :: "int \<Rightarrow> Analyzer" where
  "NewAnalyzer d = \<lparr>records = Map.empty, dataReserveDuration = d\<rparr>"

definition GetRecommandBehaviors ::
  "int \<Rightarrow> string \<Rightarrow> NatFeature \<Rightarrow> NatFeature \<Rightarrow> Analyzer \<Rightarrow>
   (nat \<times> nat \<times> RecommandBehavior \<times> RecommandBehavior) \<times> Analyzer" where
  "GetRecommandBehaviors now key c v a =
     (let mhr0 = (case records a key of Some mhr \<Rightarrow> mhr | None \<Rightarrow> newMakeHoleRecords now c v);
          ((mode, index), mhr) = recommand now mhr0;
          (cBehavior, vBehavior) = getBehaviorByModeAndIndex mode index;
          swap = (if mode = DetectMode1 then NatType c = EasyNAT
                  else if mode = DetectMode2 then NatType c = HardNAT
                  else if mode = DetectMode4 then \<not> RegularPortsChange c
                  else False)
      in ((mode, index, if swap then (vBehavior, cBehavior) else (cBehavior, vBehavior)),
          a\<lparr>records := (records a)(key \<mapsto> mhr)\<rparr>))"

definition ReportSuccess :: "int \<Rightarrow> string \<Rightarrow> nat \<Rightarrow> nat \<Rightarrow> Analyzer \<Rightarrow> Analyzer" where
  "ReportSuccess now key mode index a =
     (case records a key of
        None \<Rightarrow> a
      | Some mhr \<Rightarrow> a\<lparr>records := (records a)(key \<mapsto> reportSuccess now mode index mhr)\<rparr>)"

text \<open>The loop of \<^verbatim>\<open>Clean\<close> over the records; \<open>order\<close> is the order in which the map is iterated.\<close>

fun clean_records :: "int \<Rightarrow> string list \<Rightarrow> nat \<Rightarrow> Analyzer \<Rightarrow> nat \<times> Analyzer" where
  "clean_records now [] count a = (count, a)"
| "clean_records now (key # keys) count a =
     (case records a key of
        None \<Rightarrow> clean_records now keys count a
      | Some mhr \<Rightarrow>
          if now - lastUpdateTime mhr > dataReserveDuration a
          then clean_records now keys (count + 1) (a\<lparr>records := (records a)(key := None)\<rparr>)
          else clean_records now keys count a)"

definition Clean :: "int \<Rightarrow> string list \<Rightarrow> Analyzer \<Rightarrow> (nat \<times> nat) \<times> Analyzer" where
  "Clean now order a =
     (let total = card (dom (records a)); (count, a') = clean_records now order 0 a in ((count, total), a'))"

section \<open>Classification, without the loop\<close>

type_synonym endpoint = "string \<times> string \<times> int"

definition endpoint_of :: "string \<Rightarrow> endpoint option" where
  "endpoint_of addr =
     (case SplitHostPort addr of
        Inl _ \<Rightarrow> None
      | Inr (ip, port) \<Rightarrow> map_option (\<lambda>n. (ip, port, n)) (ParseInt64 port))"

definition classify_spec :: "endpoint list \<Rightarrow> string list \<Rightarrow> NatFeature" where
  "classify_spec es localIPs =
     (let ips = fst ` set es; ports = (\<lambda>(_, p, _). p) ` set es; nums = (\<lambda>(_, _, n). n) ` set es;
          one_ip = (card ips = 1); one_port = (card ports = 1);
          diff = (if one_ip \<and> \<not> one_port then wrap64 (Max nums - Min nums) else 0)
      in \<lparr>NatType = (if one_ip \<and> one_port then EasyNAT else HardNAT),
          Behavior = (if one_ip \<and> one_port then BehaviorNoChange else if one_ip then BehaviorPortChanged
                      else if one_port then BehaviorIPChanged else BehaviorBothChanged),
          PortsDifference = diff, RegularPortsChange = (1 \<le> diff \<and> diff \<le> 5),
          PublicNetwork = (ips \<inter> set localIPs \<noteq> {})\<rparr>)"

lemma scan_loop_fold:
  "map endpoint_of addrs = map Some es \<Longrightarrow>
   scan_loop l addrs st = Inr (fold (\<lambda>(ip, port, n). scan_addr l ip port n) es st)"
proof (induction addrs arbitrary: es st)
  case (Cons addr addrs)
  then obtain e es' where es: "es = e # es'" "endpoint_of addr = Some e" "map endpoint_of addrs = map Some es'"
    by auto
  from es(2) obtain ip port n where "SplitHostPort addr = Inr (ip, port)" "ParseInt64 port = Some n" "e = (ip, port, n)"
    by (auto simp: endpoint_of_def split: sum.splits)
  then show ?case using Cons.IH [OF es(3)] es(1) by simp
qed simp

lemma scan_loop_error:
  assumes "endpoint_of addr = None"
  shows "\<exists>e. scan_loop l (pre @ addr # post) st = Inl e"
proof (induction pre arbitrary: st)
  case Nil
  from assms show ?case by (auto simp: endpoint_of_def split: sum.splits)
next
  case (Cons a pre)
  then show ?case by (auto simp: bindR_def mapErr_def split: sum.splits option.splits prod.splits)
qed

text \<open>The loop's variables after a first address with a host, and any further ones.\<close>

lemma fold_scan:
  fixes l :: "string list" and es :: "endpoint list" and st :: scan
  assumes "baseIP st \<noteq> ''''"
  defines "r \<equiv> fold (\<lambda>(ip, port, n). scan_addr l ip port n) es st"
  shows "(sPublic r \<longleftrightarrow> sPublic st \<or> fst ` set es \<inter> set l \<noteq> {}) \<and> baseIP r = baseIP st \<and> basePort r = basePort st \<and>
     (ipChanged r \<longleftrightarrow> ipChanged st \<or> (\<exists>e\<in>set es. fst e \<noteq> baseIP st)) \<and>
     (portChanged r \<longleftrightarrow> portChanged st \<or> (\<exists>(_, p, _)\<in>set es. p \<noteq> basePort st)) \<and>
     portMax r = Max (insert (portMax st) ((\<lambda>(_, _, n). n) ` set es)) \<and>
     portMin r = Min (insert (portMin st) ((\<lambda>(_, _, n). n) ` set es))"
  unfolding r_def using assms(1)
proof (induction es arbitrary: st)
  case (Cons e es)
  obtain ip port n where e: "e = (ip, port, n)" by (cases e)
  define st' where "st' = scan_addr l ip port n st"
  have st': "sPublic st' = (sPublic st \<or> ip \<in> set l)" "baseIP st' = baseIP st" "basePort st' = basePort st"
    "ipChanged st' = (ipChanged st \<or> ip \<noteq> baseIP st)" "portChanged st' = (portChanged st \<or> port \<noteq> basePort st)"
    "portMax st' = max (portMax st) n" "portMin st' = min (portMin st) n"
    using Cons.prems unfolding st'_def scan_addr_def Let_def by auto
  have m: "Max (insert (max (portMax st) n) A) = Max (insert (portMax st) (insert n A))"
    "Min (insert (min (portMin st) n) A) = Min (insert (portMin st) (insert n A))" if "finite A" for A
    using that by (cases "A = {}"; simp add: ac_simps)+
  from Cons.IH [of st'] Cons.prems show ?case
    unfolding e fold_Cons comp_apply prod.case st'_def [symmetric] by (auto simp: st' m)
qed simp

lemma card_image_one: "card (f ` set (e # es)) = 1 \<longleftrightarrow> (\<forall>x\<in>set es. f x = f e)"
proof -
  have "card (f ` set (e # es)) = 1 \<longleftrightarrow> f ` set (e # es) = {f e}"
    by (auto simp: card_1_singleton_iff)
  then show ?thesis by auto
qed

lemma scan_feature_spec:
  assumes "fst e \<noteq> ''''"
  shows "scan_feature (fold (\<lambda>(ip, port, n). scan_addr l ip port n) (e # es) scan0) = classify_spec (e # es) l"
proof -
  obtain ip port n where e: "e = (ip, port, n)" by (cases e)
  define st where "st = scan_addr l ip port n scan0"
  define r where "r = fold (\<lambda>(ip, port, n). scan_addr l ip port n) es st"
  have st: "sPublic st \<longleftrightarrow> ip \<in> set l" "baseIP st = ip" "basePort st = port" "\<not> ipChanged st" "\<not> portChanged st"
    "portMax st = n" "portMin st = n"
    by (auto simp: st_def scan_addr_def scan0_def Let_def)
  have b: "baseIP st \<noteq> ''''" using assms st e by simp
  note r = fold_scan [OF b, of l es, folded r_def, THEN conjunct1]
    fold_scan [OF b, of l es, folded r_def, THEN conjunct2]
  have ip: "card (fst ` set (e # es)) = 1 \<longleftrightarrow> \<not> ipChanged r"
    unfolding card_image_one using r st e by auto
  have pt: "card ((\<lambda>(_, p, _). p) ` set (e # es)) = 1 \<longleftrightarrow> \<not> portChanged r"
    unfolding card_image_one using r st e by auto
  have mx: "portMax r = Max ((\<lambda>(_, _, n). n) ` set (e # es))" "portMin r = Min ((\<lambda>(_, _, n). n) ` set (e # es))"
    using r st e by simp_all
  have pub: "sPublic r \<longleftrightarrow> fst ` set (e # es) \<inter> set l \<noteq> {}" using r st e by auto
  have "scan_feature r = classify_spec (e # es) l"
    unfolding scan_feature_def classify_spec_def Let_def ip pt mx [symmetric] pub [symmetric]
    by (auto simp: nat_names)
  then show ?thesis by (simp add: r_def st_def e)
qed

section \<open>Recommendations\<close>

lemma maxFrom_max:
  assumes "drop i bs = xs" "best < i" "i \<le> length bs" "\<forall>j<i. Score (bs ! j) \<le> Score (bs ! best)"
  shows "maxFrom bs best i xs < length bs \<and> (\<forall>j<length bs. Score (bs ! j) \<le> Score (bs ! maxFrom bs best i xs))"
  using assms
proof (induction xs arbitrary: best i)
  case (Cons x xs)
  have i1: "i < length bs" using Cons.prems(1) by (metis drop_all list.distinct(1) not_le)
  from Cons_nth_drop_Suc [OF i1] Cons.prems(1) have i: "bs ! i = x" "drop (Suc i) bs = xs" by simp_all
  let ?b = "if Score x > Score (bs ! best) then i else best"
  have "\<forall>j<Suc i. Score (bs ! j) \<le> Score (bs ! ?b)"
    using Cons.prems(4) i by (fastforce simp: less_Suc_eq)
  with Cons.IH [of "Suc i" ?b] Cons.prems i i1 show ?case by simp
qed auto

lemma maxScore_max:
  assumes "bs \<noteq> []"
  shows "maxScore bs < length bs" "\<And>b. b \<in> set bs \<Longrightarrow> Score b \<le> Score (bs ! maxScore bs)"
proof -
  have "maxScore bs < length bs \<and> (\<forall>j<length bs. Score (bs ! j) \<le> Score (bs ! maxScore bs))"
    unfolding maxScore_def by (rule maxFrom_max) (use assms in \<open>auto simp: Suc_leI\<close>)
  then show "maxScore bs < length bs" "\<And>b. b \<in> set bs \<Longrightarrow> Score b \<le> Score (bs ! maxScore bs)"
    by (auto simp: in_set_conv_nth)
qed

abbreviation behavior_id :: "behaviorScore \<Rightarrow> nat \<times> nat" where
  "behavior_id b \<equiv> (Mode b, Index b)"

definition scores_ok :: "behaviorScore list \<Rightarrow> bool" where
  "scores_ok bs \<longleftrightarrow> bs \<noteq> [] \<and> distinct (map behavior_id bs) \<and>
     (\<forall>b\<in>set bs. Mode b \<le> 4 \<and> Index b < length (getBehaviorByMode (Mode b)) \<and> Score b \<le> 10)"

definition balanced :: "behaviorScore list \<Rightarrow> bool" where
  "balanced bs \<longleftrightarrow> (\<forall>b\<in>set bs. \<forall>b'\<in>set bs. Score b \<le> Score b' + 1)"

definition total :: "behaviorScore list \<Rightarrow> int" where
  "total bs = sum_list (map Score bs)"

lemma recommand_scores:
  assumes "scores mhr \<noteq> []"
  obtains i where "i < length (scores mhr)" "\<forall>b\<in>set (scores mhr). Score b \<le> Score (scores mhr ! i)"
    "fst (recommand now mhr) = behavior_id (scores mhr ! i)"
    "scores (snd (recommand now mhr)) = (scores mhr)[i := (scores mhr ! i)\<lparr>Score := Score (scores mhr ! i) - 1\<rparr>]"
  using assms maxScore_max [OF assms] that [of "maxScore (scores mhr)"] by (simp add: recommand_def Let_def)

lemma ids_update: "i < length bs \<Longrightarrow> map behavior_id (bs[i := (bs ! i)\<lparr>Score := x\<rparr>]) = map behavior_id bs"
  by (simp add: map_update) (metis (no_types, lifting) length_map list_update_id nth_map)

lemma recommand_ids: "map behavior_id (scores (snd (recommand now mhr))) = map behavior_id (scores mhr)"
proof (cases "scores mhr = []")
  case False
  then obtain i where i: "i < length (scores mhr)"
    "scores (snd (recommand now mhr)) = (scores mhr)[i := (scores mhr ! i)\<lparr>Score := Score (scores mhr ! i) - 1\<rparr>]"
    by (rule recommand_scores)
  show ?thesis unfolding i(2) by (rule ids_update [OF i(1)])
qed (simp add: recommand_def)

lemma ball_update: "\<forall>b\<in>set bs. P b \<Longrightarrow> P x \<Longrightarrow> \<forall>b\<in>set (bs[i := x]). P b"
  by (auto dest: set_update_subset_insert [THEN subsetD])

lemma recommand_ok:
  assumes "scores_ok (scores mhr)"
  shows "scores_ok (scores (snd (recommand now mhr))) \<and> fst (recommand now mhr) \<in> set (map behavior_id (scores mhr))"
proof -
  have ne: "scores mhr \<noteq> []" using assms by (simp add: scores_ok_def)
  then obtain i where i: "i < length (scores mhr)" "fst (recommand now mhr) = behavior_id (scores mhr ! i)"
    "scores (snd (recommand now mhr)) = (scores mhr)[i := (scores mhr ! i)\<lparr>Score := Score (scores mhr ! i) - 1\<rparr>]"
    by (rule recommand_scores)
  have m: "scores mhr ! i \<in> set (scores mhr)" using i(1) by simp
  have "\<forall>b\<in>set (scores (snd (recommand now mhr))).
      Mode b \<le> 4 \<and> Index b < length (getBehaviorByMode (Mode b)) \<and> Score b \<le> 10"
    unfolding i(3) by (rule ball_update) (use assms m in \<open>auto simp: scores_ok_def\<close>)
  then show ?thesis
    using assms recommand_ids [of now mhr] ne m i(2) unfolding scores_ok_def
    by (simp add: i(3))
qed

lemma sum_list_update_int:
  fixes xs :: "int list"
  shows "i < length xs \<Longrightarrow> sum_list (xs[i := x]) = sum_list xs - xs ! i + x"
  by (induction xs arbitrary: i) (auto split: nat.splits)

lemma recommand_total: "scores mhr \<noteq> [] \<Longrightarrow> total (scores (snd (recommand now mhr))) = total (scores mhr) - 1"
  by (erule recommand_scores [where now = now]) (simp add: total_def map_update sum_list_update_int)

lemma balancedD:
  "balanced bs \<Longrightarrow> b \<in> set bs \<Longrightarrow> \<forall>b'\<in>set bs. Score b - 1 \<le> Score b' \<and> Score b' \<le> Score b + 1"
  unfolding balanced_def by (simp add: diff_le_eq)

lemma balancedI:
  assumes "\<forall>b\<in>set bs. m - 1 \<le> Score b \<and> Score b \<le> m"
  shows "balanced bs"
  unfolding balanced_def
proof (intro ballI)
  fix b b' assume "b \<in> set bs" "b' \<in> set bs"
  with assms have "Score b \<le> m" "m - 1 \<le> Score b'" by simp_all
  then show "Score b \<le> Score b' + 1" by simp
qed

lemma recommand_balanced:
  assumes "balanced (scores mhr)"
  shows "balanced (scores (snd (recommand now mhr)))"
proof (cases "scores mhr = []")
  case False
  then obtain i where i: "i < length (scores mhr)" "\<forall>b\<in>set (scores mhr). Score b \<le> Score (scores mhr ! i)"
    "scores (snd (recommand now mhr)) = (scores mhr)[i := (scores mhr ! i)\<lparr>Score := Score (scores mhr ! i) - 1\<rparr>]"
    by (rule recommand_scores)
  let ?m = "Score (scores mhr ! i)"
  have "\<forall>b\<in>set (scores mhr). ?m - 1 \<le> Score b \<and> Score b \<le> ?m"
    using balancedD [OF assms nth_mem [OF i(1)]] i(2) by auto
  then have "\<forall>b\<in>set (scores (snd (recommand now mhr))). ?m - 1 \<le> Score b \<and> Score b \<le> ?m"
    unfolding i(3) by (rule ball_update) simp
  then show ?thesis by (rule balancedI)
qed (use assms in \<open>simp add: recommand_def\<close>)

text \<open>Recommendations at successive times.\<close>

fun recommands :: "int list \<Rightarrow> makeHoleRecords \<Rightarrow> (nat \<times> nat) list \<times> makeHoleRecords" where
  "recommands [] mhr = ([], mhr)"
| "recommands (now # nows) mhr =
     (let (r, mhr1) = recommand now mhr; (rs, mhr2) = recommands nows mhr1 in (r # rs, mhr2))"

lemma recommands_inv:
  assumes "scores_ok (scores mhr)" "balanced (scores mhr)"
  shows "scores_ok (scores (snd (recommands nows mhr))) \<and> balanced (scores (snd (recommands nows mhr))) \<and>
     map behavior_id (scores (snd (recommands nows mhr))) = map behavior_id (scores mhr) \<and>
     total (scores (snd (recommands nows mhr))) = total (scores mhr) - int (length nows) \<and>
     set (fst (recommands nows mhr)) \<subseteq> set (map behavior_id (scores mhr))"
  using assms
proof (induction nows arbitrary: mhr)
  case (Cons now nows)
  let ?m = "snd (recommand now mhr)"
  have ne: "scores mhr \<noteq> []" using Cons.prems(1) by (simp add: scores_ok_def)
  have ok: "scores_ok (scores ?m)" "fst (recommand now mhr) \<in> set (map behavior_id (scores mhr))"
    using recommand_ok [OF Cons.prems(1), of now] by simp_all
  have b: "balanced (scores ?m)" by (rule recommand_balanced [OF Cons.prems(2)])
  from Cons.IH [OF ok(1) b] ok(2) recommand_total [OF ne, of now] recommand_ids [of now mhr]
  show ?case by (simp add: split_beta del: set_map) 
qed simp

text \<open>A behaviour that is never chosen keeps its score.\<close>

lemma recommands_untouched:
  assumes "b \<in> set (scores mhr)" "behavior_id b \<notin> set (fst (recommands nows mhr))"
  shows "b \<in> set (scores (snd (recommands nows mhr)))"
  using assms
proof (induction nows arbitrary: mhr)
  case (Cons now nows)
  have ne: "scores mhr \<noteq> []" using Cons.prems(1) by auto
  then obtain i where i: "i < length (scores mhr)" "fst (recommand now mhr) = behavior_id (scores mhr ! i)"
    "scores (snd (recommand now mhr)) = (scores mhr)[i := (scores mhr ! i)\<lparr>Score := Score (scores mhr ! i) - 1\<rparr>]"
    by (rule recommand_scores)
  have "behavior_id b \<noteq> fst (recommand now mhr)" "behavior_id b \<notin> set (fst (recommands nows (snd (recommand now mhr))))"
    using Cons.prems(2) by (auto simp: split_beta)
  moreover from this(1) Cons.prems(1) i have "b \<in> set (scores (snd (recommand now mhr)))"
    by (metis in_set_conv_nth length_list_update nth_list_update_neq)
  ultimately show ?case using Cons.IH by (simp add: split_beta)
qed simp

lemma total_bounds:
  assumes "\<forall>b\<in>set bs. lo \<le> Score b \<and> Score b \<le> hi"
  shows "int (length bs) * lo \<le> total bs \<and> total bs \<le> int (length bs) * hi"
  using assms by (induction bs) (auto simp: total_def algebra_simps)

lemma total_strict:
  assumes "\<forall>b\<in>set bs. s - 1 \<le> Score b \<and> Score b \<le> s + 1" "b \<in> set bs" "Score b = s"
  shows "int (length bs) * (s - 1) + 1 \<le> total bs \<and> total bs \<le> int (length bs) * (s + 1) - 1"
proof -
  obtain xs ys where bs: "bs = xs @ b # ys" using assms(2) by (meson split_list)
  have "int (length (xs @ ys)) * (s - 1) \<le> total (xs @ ys) \<and> total (xs @ ys) \<le> int (length (xs @ ys)) * (s + 1)"
    by (rule total_bounds) (use assms(1) bs in auto)
  then show ?thesis using assms(3) by (simp add: bs total_def algebra_simps)
qed

lemma recommands_all:
  assumes "scores_ok (scores mhr)" "balanced (scores mhr)" "2 * length (scores mhr) \<le> length nows + 1"
  shows "set (fst (recommands nows mhr)) = set (map behavior_id (scores mhr))"
proof
  show "set (map behavior_id (scores mhr)) \<subseteq> set (fst (recommands nows mhr))"
  proof
    fix x assume "x \<in> set (map behavior_id (scores mhr))"
    then obtain b where b: "b \<in> set (scores mhr)" "x = behavior_id b" by auto
    let ?m = "snd (recommands nows mhr)"
    note inv = recommands_inv [OF assms(1,2), of nows]
    have len: "length (scores ?m) = length (scores mhr)" using inv by (metis length_map)
    show "x \<in> set (fst (recommands nows mhr))"
    proof (rule ccontr)
      assume "x \<notin> set (fst (recommands nows mhr))"
      then have b': "b \<in> set (scores ?m)" using recommands_untouched b by blast
      have "total (scores mhr) \<le> int (length (scores mhr)) * (Score b + 1) - 1"
        using total_strict [OF balancedD [OF assms(2) b(1)] b(1)] by simp
      moreover have "int (length (scores mhr)) * (Score b - 1) + 1 \<le> total (scores ?m)"
        using total_strict [OF balancedD [OF _ b'] b'] inv len by simp
      ultimately show False using inv assms(3) by (simp add: algebra_simps)
    qed
  qed
qed (use recommands_inv [OF assms(1,2)] in blast)

section \<open>Initial scores\<close>

lemma byMode2_ids:
  "map behavior_id (getBehaviorScoresByMode2 m s r) = map (Pair m) [0..<length (getBehaviorByMode m)]"
  by (simp add: getBehaviorScoresByMode2_def Let_def comp_def)

lemma byMode2_member:
  "b \<in> set (getBehaviorScoresByMode2 m s r) \<Longrightarrow>
   Mode b = m \<and> Index b < length (getBehaviorByMode m) \<and> (Score b = s \<or> Score b = r)"
  by (auto simp: getBehaviorScoresByMode2_def Let_def)

lemma behaviors_nonempty: "getBehaviorByMode m \<noteq> []"
  by (simp add: getBehaviorByMode_def mode0Behaviors_def mode1Behaviors_def mode2Behaviors_def
      mode3Behaviors_def mode4Behaviors_def)

definition block :: "nat \<times> int \<times> int \<Rightarrow> behaviorScore list" where
  "block = (\<lambda>(m, s, r). getBehaviorScoresByMode2 m s r)"

lemma initial_shape:
  obtains ms where "initialScores c v = concat (map block ms)" "ms \<noteq> []" "distinct (map fst ms)"
    "\<forall>(m, s, r)\<in>set ms. m \<le> 4 \<and> s \<in> {0, 1} \<and> r \<in> {0, 1}"
proof -
  obtain s r where m0: "mode0Scores c v = block (0, s, r)" "s \<in> {0, 1}" "r \<in> {0, 1}"
    by (cases "PublicNetwork c"; cases "PublicNetwork v")
       (auto simp: mode0Scores_def getBehaviorScoresByMode_def block_def detect_modes)
  have bm: "getBehaviorScoresByMode m d = block (m, d, d)" for m d
    by (simp add: getBehaviorScoresByMode_def block_def)
  obtain e h p where cnt: "ClassifyFeatureCount [c, v] = (e, h, p)" by (metis prod_cases3)
  note i = initialScores_def [of c v, unfolded cnt prod.case bm m0(1) detect_modes]
  consider "e = 2" | "e \<noteq> 2" "h = 1 \<and> p = 1" | "e \<noteq> 2" "h = 1 \<and> p = 0" | "e \<noteq> 2" "h = 2 \<and> p = 2"
    | "e \<noteq> 2" "h = 2 \<and> p = 1" | "e \<noteq> 2" "\<not> (h = 1 \<and> p = 1)" "\<not> (h = 1 \<and> p = 0)" "\<not> (h = 2 \<and> p = 2)" "\<not> (h = 2 \<and> p = 1)"
    by blast
  then show thesis
  proof cases
    case 1 with i m0 show thesis by (intro that [of "[(0, s, r)]"]) auto
  next
    case 2 with i m0 show thesis by (intro that [of "[(1, 0, 0), (2, 0, 0), (0, s, r)]"]) auto
  next
    case 3 with i m0 show thesis by (intro that [of "[(2, 0, 0), (1, 0, 0), (0, s, r)]"]) auto
  next
    case 4 with i show thesis by (intro that [of "[(3, 0, 0), (4, 0, 0)]"]) auto
  next
    case 5 with i show thesis by (intro that [of "[(4, 0, 0)]"]) auto
  next
    case 6 with i show thesis by (intro that [of "[(0, 1, 1), (1, 1, 1), (3, 1, 1)]"]) auto
  qed
qed

lemma blocks_distinct:
  "distinct (map fst ms) \<Longrightarrow> distinct (map behavior_id (concat (map block ms)))"
proof (induction ms)
  case (Cons x ms)
  obtain m s r where x: "x = (m, s, r)" by (cases x)
  have "distinct (map behavior_id (block x))"
    by (simp add: x block_def byMode2_ids distinct_map inj_on_def del: map_map)
  moreover have "Mode b \<noteq> m" if "b \<in> set (concat (map block ms))" for b
    using that Cons.prems x by (force simp: block_def dest: byMode2_member)
  moreover have "Mode b = m" if "b \<in> set (block x)" for b
    using that x by (auto simp: block_def dest: byMode2_member)
  ultimately show ?case using Cons by fastforce
qed simp

lemma initial_ok: "scores_ok (initialScores c v) \<and> balanced (initialScores c v)"
proof -
  obtain ms where ms: "initialScores c v = concat (map block ms)" "ms \<noteq> []" "distinct (map fst ms)"
    "\<forall>(m, s, r)\<in>set ms. m \<le> 4 \<and> s \<in> {0, 1} \<and> r \<in> {0, 1}" by (rule initial_shape)
  have mem: "Mode b \<le> 4 \<and> Index b < length (getBehaviorByMode (Mode b)) \<and> 0 \<le> Score b \<and> Score b \<le> 1"
    if "b \<in> set (initialScores c v)" for b
    using that ms(4) unfolding ms(1) by (force simp: block_def dest: byMode2_member)
  have "block x \<noteq> []" for x
    by (cases x) (simp add: block_def getBehaviorScoresByMode2_def Let_def behaviors_nonempty)
  with ms(1,2) have "initialScores c v \<noteq> []" by (cases ms) auto
  with mem blocks_distinct [OF ms(3)] have "scores_ok (initialScores c v)"
    unfolding scores_ok_def ms(1) by fastforce
  moreover have "balanced (initialScores c v)" by (rule balancedI [of _ 1]) (use mem in auto)
  ultimately show ?thesis by blast
qed

section \<open>Roles\<close>

definition opposite :: "nat \<Rightarrow> RecommandBehavior \<times> RecommandBehavior \<Rightarrow> bool" where
  "opposite mode = (\<lambda>(a, b).
     (Role a = DetectRoleSender \<and> Role b = DetectRoleReceiver \<or>
      mode \<in> {0, 3} \<and> Role a = DetectRoleReceiver \<and> Role b = DetectRoleSender) \<and>
     0 \<le> SendDelayMs a \<and> 0 \<le> SendDelayMs b)"

lemma tables_opposite: "mode \<le> 4 \<Longrightarrow> list_all (opposite mode) (getBehaviorByMode mode)"
  by (simp add: getBehaviorByMode_def mode0Behaviors_def mode1Behaviors_def mode2Behaviors_def mode3Behaviors_def
      mode4Behaviors_def opposite_def noBehavior_def)

lemma behavior_opposite:
  "mode \<le> 4 \<Longrightarrow> index < length (getBehaviorByMode mode) \<Longrightarrow> opposite mode (getBehaviorByModeAndIndex mode index)"
  using tables_opposite [of mode] by (simp add: getBehaviorByModeAndIndex_def Let_def list_all_length)

lemma roles_differ [simp]: "DetectRoleSender \<noteq> DetectRoleReceiver" "DetectRoleReceiver \<noteq> DetectRoleSender"
  "HardNAT \<noteq> EasyNAT" "EasyNAT \<noteq> HardNAT"
  by (simp_all add: DetectRoleSender_def DetectRoleReceiver_def nat_names)

section \<open>Analyzer invariant\<close>

definition analyzer_ok :: "Analyzer \<Rightarrow> bool" where
  "analyzer_ok a \<longleftrightarrow> (\<forall>mhr \<in> ran (records a). scores_ok (scores mhr))"

lemma analyzer_okD: "analyzer_ok a \<Longrightarrow> records a key = Some mhr \<Longrightarrow> scores_ok (scores mhr)"
  by (auto simp: analyzer_ok_def ranI)

lemma analyzer_ok_update: "analyzer_ok a \<Longrightarrow> scores_ok (scores mhr) \<Longrightarrow> analyzer_ok (a\<lparr>records := (records a)(key \<mapsto> mhr)\<rparr>)"
  by (auto simp: analyzer_ok_def ran_def)

lemma analyzer_ok_New: "analyzer_ok (NewAnalyzer d)"
  by (simp add: analyzer_ok_def NewAnalyzer_def)

lemma records_for_ok:
  "analyzer_ok a \<Longrightarrow> scores_ok (scores (case records a key of Some mhr \<Rightarrow> mhr | None \<Rightarrow> newMakeHoleRecords now c v))"
  using initial_ok by (auto simp: newMakeHoleRecords_def analyzer_okD split: option.splits)

lemma analyzer_ok_Get: "analyzer_ok a \<Longrightarrow> analyzer_ok (snd (GetRecommandBehaviors now key c v a))"
  using recommand_ok [OF records_for_ok [where a = a and now = now and c = c and v = v and key = key], where now = now]
  by (simp add: GetRecommandBehaviors_def Let_def split_beta analyzer_ok_update)

lemma raiseScore_ids: "map behavior_id (raiseScore mode index bs) = map behavior_id bs"
  by (induction bs) auto

lemma raiseScore_member:
  "b \<in> set (raiseScore mode index bs) \<Longrightarrow>
   \<exists>b'\<in>set bs. behavior_id b = behavior_id b' \<and> (Score b = Score b' \<or> Score b = min (Score b' + 2) 10)"
  by (induction bs) (auto split: if_splits)

lemma raiseScore_ok:
  assumes "scores_ok bs"
  shows "scores_ok (raiseScore mode index bs)"
proof -
  have "Mode b \<le> 4 \<and> Index b < length (getBehaviorByMode (Mode b)) \<and> Score b \<le> 10"
    if "b \<in> set (raiseScore mode index bs)" for b
    using raiseScore_member [OF that] assms unfolding scores_ok_def by force
  moreover have "raiseScore mode index bs \<noteq> []"
    using assms raiseScore_ids [of mode index bs] unfolding scores_ok_def by (metis list.map_disc_iff)
  ultimately show ?thesis
    using assms raiseScore_ids [of mode index bs] unfolding scores_ok_def by simp
qed

lemma analyzer_ok_Report: "analyzer_ok a \<Longrightarrow> analyzer_ok (ReportSuccess now key mode index a)"
  by (auto simp: ReportSuccess_def reportSuccess_def raiseScore_ok analyzer_okD intro!: analyzer_ok_update split: option.splits)

text \<open>What \<^verbatim>\<open>Clean\<close> keeps: the records visited that are not stale, and all others.\<close>

definition outdated :: "int \<Rightarrow> Analyzer \<Rightarrow> string \<Rightarrow> bool" where
  "outdated now a key \<longleftrightarrow>
     (\<exists>mhr. records a key = Some mhr \<and> now - lastUpdateTime mhr > dataReserveDuration a)"

lemma clean_records_eq:
  "distinct keys \<Longrightarrow> clean_records now keys n a =
    (n + length (filter (outdated now a) keys),
     a\<lparr>records := (\<lambda>k. if k \<in> set keys \<and> outdated now a k then None else records a k)\<rparr>)"
proof (induction keys arbitrary: n a)
  case (Cons k keys)
  then have d: "k \<notin> set keys" "distinct keys" by simp_all
  show ?case
  proof (cases "outdated now a k")
    case True
    let ?a = "a\<lparr>records := (records a)(k := None)\<rparr>"
    have o: "outdated now ?a k' \<longleftrightarrow> outdated now a k'" if "k' \<in> set keys" for k'
      using that d(1) by (auto simp: outdated_def)
    have f: "filter (outdated now ?a) keys = filter (outdated now a) keys" using o by (simp cong: filter_cong)
    have "clean_records now (k # keys) n a = clean_records now keys (n + 1) ?a"
      using True by (auto simp: outdated_def)
    also have "\<dots> = (n + length (filter (outdated now a) (k # keys)),
        ?a\<lparr>records := (\<lambda>k'. if k' \<in> set keys \<and> outdated now ?a k' then None else records ?a k')\<rparr>)"
      using Cons.IH [OF d(2), of "n + 1" ?a] True f by simp
    also have "(\<lambda>k'. if k' \<in> set keys \<and> outdated now ?a k' then None else records ?a k') =
        (\<lambda>k'. if k' \<in> set (k # keys) \<and> outdated now a k' then None else records a k')"
      using o True by (auto simp: fun_eq_iff)
    finally show ?thesis by simp
  next
    case False
    then have "clean_records now (k # keys) n a = clean_records now keys n a"
      by (auto simp: outdated_def split: option.splits)
    moreover have "(\<lambda>k'. if k' \<in> set keys \<and> outdated now a k' then None else records a k') =
        (\<lambda>k'. if k' \<in> set (k # keys) \<and> outdated now a k' then None else records a k')"
      using False by (auto simp: fun_eq_iff)
    ultimately show ?thesis using Cons.IH [OF d(2), of n a] False by simp
  qed
qed simp

lemma analyzer_ok_clean_records: "analyzer_ok a \<Longrightarrow> analyzer_ok (snd (clean_records now keys n a))"
proof (induction keys arbitrary: n a)
  case (Cons k keys)
  have "analyzer_ok (a\<lparr>records := (records a)(k := None)\<rparr>)"
    using Cons.prems by (auto simp: analyzer_ok_def ran_def)
  with Cons show ?case by (auto split: option.splits)
qed simp

inductive analyzed :: "Analyzer \<Rightarrow> bool" where
  new: "analyzed (NewAnalyzer d)"
| get: "analyzed a \<Longrightarrow> analyzed (snd (GetRecommandBehaviors now key c v a))"
| report: "analyzed a \<Longrightarrow> analyzed (ReportSuccess now key mode index a)"
| clean: "analyzed a \<Longrightarrow> analyzed (snd (Clean now order a))"

lemma analyzed_ok: "analyzed a \<Longrightarrow> analyzer_ok a"
  by (induction rule: analyzed.induct)
     (auto simp: analyzer_ok_New analyzer_ok_Get analyzer_ok_Report Clean_def Let_def split_beta analyzer_ok_clean_records)

section \<open>Properties\<close>

lemma those_map: "those (map f xs) = Some ys \<longleftrightarrow> map f xs = map Some ys"
  by (induction xs arbitrary: ys) (auto split: option.splits simp: Cons_eq_map_conv)

lemma those_None: "those (map f xs) = None \<longleftrightarrow> (\<exists>x\<in>set xs. f x = None)"
  by (induction xs) (auto split: option.splits)

text \<open>C34. Classifying a NAT from two or more addresses (with hosts) computes what it is meant to: the NAT is easy
  exactly when all addresses have one IP and one port, the behaviour says which of the two changed, the
  ports difference (when only ports changed) is the spread of the port numbers and counts as regular between 1
  and 5, and the host is on a public network exactly when it was seen under a local IP.  An address that does
  not parse makes the classification fail.\<close>

theorem classify_exact:
  assumes "2 \<le> length addresses" "\<forall>a\<in>set addresses. \<forall>p. SplitHostPort a \<noteq> Inr ('''', p)"
  shows "case those (map endpoint_of addresses) of
      None \<Rightarrow> \<exists>e. ClassifyNATFeature addresses localIPs = Inl e
    | Some es \<Rightarrow> ClassifyNATFeature addresses localIPs = Inr (classify_spec es localIPs)"
proof (cases "those (map endpoint_of addresses)")
  case None
  then obtain a where "a \<in> set addresses" "endpoint_of a = None" by (auto simp: those_None)
  then obtain pre post where "addresses = pre @ a # post" by (meson split_list)
  with scan_loop_error [OF \<open>endpoint_of a = None\<close>, of localIPs pre post scan0] None assms(1) show ?thesis
    by (auto simp: ClassifyNATFeature_def)
next
  case (Some es)
  then have m: "map endpoint_of addresses = map Some es" by (simp add: those_map)
  then obtain e es' where e: "es = e # es'" using assms(1) by (cases es) auto
  with m have "endpoint_of (hd addresses) = Some e" "hd addresses \<in> set addresses" by (cases addresses; simp)+
  with assms(2) have "fst e \<noteq> ''''" by (auto simp: endpoint_of_def split: sum.splits)
  with scan_loop_fold [OF m, of localIPs scan0] scan_feature_spec [of e localIPs es'] e Some assms(1)
  show ?thesis by (simp add: ClassifyNATFeature_def)
qed

theorem classify_exact_witness:
  "ClassifyNATFeature [''1.2.3.4:4000'', ''1.2.3.4:4003''] [''10.0.0.2''] =
   Inr \<lparr>NatType = HardNAT, Behavior = BehaviorPortChanged, PortsDifference = 3, RegularPortsChange = True,
        PublicNetwork = False\<rparr>"
proof -
  have t: "those (map endpoint_of [''1.2.3.4:4000'', ''1.2.3.4:4003'']) =
      Some [(''1.2.3.4'', ''4000'', 4000), (''1.2.3.4'', ''4003'', 4003)]" by code_simp
  have h: "\<forall>a\<in>set [''1.2.3.4:4000'', ''1.2.3.4:4003'']. \<forall>p. SplitHostPort a \<noteq> Inr ('''', p)"
  proof -
    have "SplitHostPort ''1.2.3.4:4000'' = Inr (''1.2.3.4'', ''4000'')"
      "SplitHostPort ''1.2.3.4:4003'' = Inr (''1.2.3.4'', ''4003'')" by code_simp+
    then show ?thesis by simp
  qed
  have s: "classify_spec [(''1.2.3.4'', ''4000'', 4000), (''1.2.3.4'', ''4003'', 4003)] [''10.0.0.2''] =
     \<lparr>NatType = HardNAT, Behavior = BehaviorPortChanged, PortsDifference = 3, RegularPortsChange = True,
      PublicNetwork = False\<rparr>"
    by (simp add: classify_spec_def Let_def wrap64_def)
  from classify_exact [OF _ h, of "[''10.0.0.2'']"] t s show ?thesis by simp
qed

lemma analyzed_roles:
  assumes "analyzed a" "GetRecommandBehaviors now key c v a = ((mode, index, cB, vB), a')"
  shows "{Role cB, Role vB} = {DetectRoleSender, DetectRoleReceiver} \<and>
      (mode = DetectMode1 \<longrightarrow> (Role cB = DetectRoleReceiver \<longleftrightarrow> NatType c = EasyNAT)) \<and>
      (mode = DetectMode2 \<longrightarrow> (Role cB = DetectRoleReceiver \<longleftrightarrow> NatType c = HardNAT)) \<and>
      (mode = DetectMode4 \<longrightarrow> (Role cB = DetectRoleSender \<longleftrightarrow> RegularPortsChange c)) \<and>
      0 \<le> SendDelayMs cB \<and> 0 \<le> SendDelayMs vB"
proof -
  define mhr where "mhr = (case records a key of Some mhr \<Rightarrow> mhr | None \<Rightarrow> newMakeHoleRecords now c v)"
  have ok: "scores_ok (scores mhr)" unfolding mhr_def by (rule records_for_ok [OF analyzed_ok [OF assms(1)]])
  obtain m k mhr' where r: "recommand now mhr = ((m, k), mhr')" by (metis prod.collapse)
  with recommand_ok [OF ok, of now] have "(m, k) \<in> set (map behavior_id (scores mhr))" by simp
  with ok have "m \<le> 4" "k < length (getBehaviorByMode m)" by (auto simp: scores_ok_def)
  then have o: "opposite m (getBehaviorByModeAndIndex m k)" by (rule behavior_opposite)
  obtain x y where xy: "getBehaviorByModeAndIndex m k = (x, y)" by (metis prod.collapse)
  have "fst (GetRecommandBehaviors now key c v a) = (m, k,
      if (if m = DetectMode1 then NatType c = EasyNAT else if m = DetectMode2 then NatType c = HardNAT
          else if m = DetectMode4 then \<not> RegularPortsChange c else False) then (y, x) else (x, y))"
    by (simp add: GetRecommandBehaviors_def mhr_def [symmetric] r xy Let_def)
  then show ?thesis using o assms(2) by (auto simp: xy opposite_def detect_modes split: if_splits)
qed

text \<open>Whatever has been recommended, reported and cleaned up before, a recommendation gives the two peers opposite
  roles, one sender and one receiver; in mode 1 the client receives exactly when its NAT is easy, in mode 2 exactly
  when its NAT is hard, and in mode 4 it sends exactly when its ports change regularly.  Send delays are never
  negative.\<close>

theorem recommendation_roles:
  assumes "analyzed a"
  shows "case fst (GetRecommandBehaviors now key c v a) of (mode, index, cB, vB) \<Rightarrow>
      {Role cB, Role vB} = {DetectRoleSender, DetectRoleReceiver} \<and>
      (mode = DetectMode1 \<longrightarrow> (Role cB = DetectRoleReceiver \<longleftrightarrow> NatType c = EasyNAT)) \<and>
      (mode = DetectMode2 \<longrightarrow> (Role cB = DetectRoleReceiver \<longleftrightarrow> NatType c = HardNAT)) \<and>
      (mode = DetectMode4 \<longrightarrow> (Role cB = DetectRoleSender \<longleftrightarrow> RegularPortsChange c)) \<and>
      0 \<le> SendDelayMs cB \<and> 0 \<le> SendDelayMs vB"
  using analyzed_roles [OF assms, of now key c v]
  by (cases "GetRecommandBehaviors now key c v a") (auto split: prod.splits)

theorem recommendation_roles_witness:
  "case fst (GetRecommandBehaviors 5 ''key''
       \<lparr>NatType = EasyNAT, Behavior = BehaviorNoChange, PortsDifference = 0, RegularPortsChange = False, PublicNetwork = False\<rparr>
       \<lparr>NatType = HardNAT, Behavior = BehaviorPortChanged, PortsDifference = 3, RegularPortsChange = True, PublicNetwork = False\<rparr>
       (NewAnalyzer 100)) of (mode, index, cB, vB) \<Rightarrow> {Role cB, Role vB} = {DetectRoleSender, DetectRoleReceiver}"
proof -
  let ?c = "\<lparr>NatType = EasyNAT, Behavior = BehaviorNoChange, PortsDifference = 0, RegularPortsChange = False, PublicNetwork = False\<rparr>"
  let ?v = "\<lparr>NatType = HardNAT, Behavior = BehaviorPortChanged, PortsDifference = 3, RegularPortsChange = True, PublicNetwork = False\<rparr>"
  from recommendation_roles [OF analyzed.new [of 100], where now = 5 and key = "''key''" and c = ?c and v = ?v]
  show ?thesis by (simp add: case_prod_beta)
qed

text \<open>The recommendations exhaust the possibilities.  Without success reports, the first \<open>2 k - 1\<close> recommendations
  for a pair of peers with \<open>k\<close> candidate behaviours try every one of them, and never anything else.\<close>

theorem every_behavior_tried:
  assumes "2 * length (initialScores c v) \<le> length nows + 1"
  shows "set (fst (recommands nows (newMakeHoleRecords now c v))) = set (map behavior_id (initialScores c v))"
  using recommands_all [of "newMakeHoleRecords now c v" nows] initial_ok [of c v] assms
  by (simp add: newMakeHoleRecords_def)

theorem every_behavior_tried_witness:
  "set (fst (recommands (replicate 5 0) (newMakeHoleRecords 0
       \<lparr>NatType = HardNAT, Behavior = BehaviorPortChanged, PortsDifference = 9, RegularPortsChange = False, PublicNetwork = False\<rparr>
       \<lparr>NatType = HardNAT, Behavior = BehaviorPortChanged, PortsDifference = 3, RegularPortsChange = True, PublicNetwork = False\<rparr>))) =
   {(4, 0), (4, 1), (4, 2)}"
proof -
  let ?c = "\<lparr>NatType = HardNAT, Behavior = BehaviorPortChanged, PortsDifference = 9, RegularPortsChange = False, PublicNetwork = False\<rparr>"
  let ?v = "\<lparr>NatType = HardNAT, Behavior = BehaviorPortChanged, PortsDifference = 3, RegularPortsChange = True, PublicNetwork = False\<rparr>"
  have i: "map behavior_id (initialScores ?c ?v) = [(4, 0), (4, 1), (4, 2)]" by code_simp
  have "length (map behavior_id (initialScores ?c ?v)) = 3" unfolding i by simp
  then have "length (initialScores ?c ?v) = 3" unfolding length_map .
  then show ?thesis using every_behavior_tried [where c = ?c and v = ?v and nows = "replicate 5 0" and now = 0] unfolding i by simp
qed

text \<open>Recommendations lower scores without end, although the score's comment gives it a lower bound of -10.\<close>

lemma score_falls_below_bound:
  "\<exists>b\<in>set (scores (snd (recommands (replicate (12 * length (initialScores c v)) now0) (newMakeHoleRecords now c v)))). Score b < - 10"
proof -
  let ?m = "newMakeHoleRecords now c v" and ?k = "length (initialScores c v)"
  let ?r = "snd (recommands (replicate (12 * ?k) now0) ?m)"
  have ok: "scores_ok (scores ?m)" "balanced (scores ?m)" using initial_ok by (simp_all add: newMakeHoleRecords_def)
  note inv = recommands_inv [OF ok, of "replicate (12 * ?k) now0"]
  have len: "length (scores ?r) = ?k" 
    using inv [THEN conjunct2, THEN conjunct2, THEN conjunct1, THEN arg_cong [where f = length]]
    by (simp add: newMakeHoleRecords_def)
  have k: "0 < ?k" using initial_ok [of c v] by (simp add: scores_ok_def)
  obtain ms where ms: "initialScores c v = concat (map block ms)" "\<forall>(m, s, r)\<in>set ms. m \<le> 4 \<and> s \<in> {0, 1} \<and> r \<in> {0, 1}"
    by (rule initial_shape)
  have "total (scores ?m) \<le> int ?k * 1"
    using total_bounds [of "initialScores c v" 0 1] ms
    by (force simp: newMakeHoleRecords_def block_def dest: byMode2_member)
  then have t: "total (scores ?r) \<le> - 11 * int ?k" using inv by simp
  show ?thesis
  proof (rule ccontr)
    assume "\<not> ?thesis"
    then have "int ?k * - 10 \<le> total (scores ?r)"
      using total_bounds [of "scores ?r" "- 10" 10] inv len unfolding scores_ok_def by (auto simp: not_less)
    with t k show False by simp
  qed
qed

text \<open>A peer on a public network receives in the first five recommendations, but not always: the sixth makes it send.\<close>

lemma public_network_sends:
  "fst (recommands (replicate 6 0) (newMakeHoleRecords 0
       \<lparr>NatType = EasyNAT, Behavior = BehaviorNoChange, PortsDifference = 0, RegularPortsChange = False, PublicNetwork = True\<rparr>
       \<lparr>NatType = EasyNAT, Behavior = BehaviorNoChange, PortsDifference = 0, RegularPortsChange = False, PublicNetwork = False\<rparr>)) =
   [(0, 1), (0, 3), (0, 5), (0, 8), (0, 9), (0, 0)] \<and>
   Role (fst (getBehaviorByModeAndIndex 0 0)) = DetectRoleSender"
  by code_simp

end
