(* ===== verification/Nat_Controller.thy ===== *)
theory Nat_Controller
  imports Nat_Hole
begin

text \<open>
  The server's side of hole punching: \<^verbatim>\<open>pkg/nathole/controller.go\<close>.  A visitor's message opens a
  session and is passed to the client through the channel of its proxy; when the client answers,
  the session is analysed and both peers are told what to do.  \<^verbatim>\<open>HandleVisitor\<close> runs in a
  goroutine of its own and blocks, so it is a sequence of steps with a program counter per session;
  every other handler is one step.  Session ids come from a clock and a random source and are an
  argument; MD5 is an argument, too.  What is sent over a control connection is recorded in the
  order it is sent.
\<close>

section \<open>Messages\<close>

record NatHoleVisitor =
  vTransactionID :: string
  vProxyName :: string
  vPreCheck :: bool
  vProtocol :: string
  vSignKey :: string
  vTimestamp :: int
  vMappedAddrs :: "string list"
  vAssistedAddrs :: "string list"
  vQUICFingerprint :: string

record NatHoleClient =
  cTransactionID :: string
  cProxyName :: string
  cSid :: string
  cMappedAddrs :: "string list"
  cAssistedAddrs :: "string list"
  cQUICFingerprint :: string

record PortsRange =
  From :: int
  To :: int

record NatHoleDetectBehavior =
  dRole :: string
  dMode :: nat
  dTTL :: int
  dSendDelayMs :: int
  ReadTimeoutMs :: int
  CandidatePorts :: "PortsRange list"
  SendRandomPorts :: int
  dListenRandomPorts :: int

definition noDetect :: NatHoleDetectBehavior where
  "noDetect = \<lparr>dRole = '''', dMode = 0, dTTL = 0, dSendDelayMs = 0, ReadTimeoutMs = 0, CandidatePorts = [],
     SendRandomPorts = 0, dListenRandomPorts = 0\<rparr>"

record NatHoleResp =
  TransactionID :: string
  Sid :: string
  Protocol :: string
  CandidateAddrs :: "string list"
  AssistedAddrs :: "string list"
  DetectBehavior :: NatHoleDetectBehavior
  Error :: string
  QUICFingerprint :: string

record NatHoleReport =
  rSid :: string
  Success :: bool

section \<open>Responses\<close>

text \<open>\<^verbatim>\<open>slices.Compact\<close> works in place: the first component is the slice it returns, the second what the
  caller's slice holds afterwards, whose tail is cleared.\<close>

definition Compact :: "string list \<Rightarrow> string list \<times> string list" where
  "Compact xs = (let ys = remdups_adj xs in (ys, ys @ replicate (length xs - length ys) ''''))"

fun parseIPs :: "string list \<Rightarrow> string list" where
  "parseIPs [] = []"
| "parseIPs (addr # addrs) =
     (case SplitHostPort addr of Inr (ip, _) \<Rightarrow> ip # parseIPs addrs | Inl _ \<Rightarrow> parseIPs addrs)"

definition getRangePorts :: "string list \<Rightarrow> int \<Rightarrow> int \<Rightarrow> PortsRange list" where
  "getRangePorts addrs difference maxNumber =
     (if maxNumber \<le> 0 then []
      else if addrs = [] then []
      else (case SplitHostPort (last addrs) of
              Inl _ \<Rightarrow> []
            | Inr (_, portStr) \<Rightarrow>
                (case ParseInt64 portStr of
                   None \<Rightarrow> []
                 | Some port \<Rightarrow>
                     [\<lparr>From = max (max (wrap64 (wrap64 (port - difference) - 5)) (wrap64 (port - maxNumber))) 1,
                       To = min (min (wrap64 (wrap64 (port + difference) + 5)) (wrap64 (port + maxNumber))) 65535\<rparr>])))"

definition newNatHoleResponse ::
  "string \<Rightarrow> string \<Rightarrow> string \<Rightarrow> nat \<Rightarrow> string list \<Rightarrow> string list \<Rightarrow> RecommandBehavior \<Rightarrow> int \<Rightarrow> int \<Rightarrow> string \<Rightarrow> NatHoleResp" where
  "newNatHoleResponse transactionID sid protocol mode candidateAddrs0 assistedAddrs0 behavior readTimeoutMs portsDifference peerQUICFingerprint =
     (let (compactCandidateAddrs, candidateAddrs) = Compact candidateAddrs0;
          (compactAssistedAddrs, assistedAddrs) = Compact assistedAddrs0
      in \<lparr>TransactionID = transactionID, Sid = sid, Protocol = protocol,
          CandidateAddrs = compactCandidateAddrs, AssistedAddrs = compactAssistedAddrs,
          DetectBehavior =
            \<lparr>dRole = Role behavior, dMode = mode, dTTL = TTL behavior, dSendDelayMs = SendDelayMs behavior,
             ReadTimeoutMs = readTimeoutMs,
             CandidatePorts = getRangePorts candidateAddrs portsDifference (PortsRangeNumber behavior),
             SendRandomPorts = PortsRandomNumber behavior, dListenRandomPorts = ListenRandomPorts behavior\<rparr>,
          Error = '''', QUICFingerprint = peerQUICFingerprint\<rparr>)"

definition GenNatHoleResponse :: "string \<Rightarrow> string \<Rightarrow> string \<Rightarrow> NatHoleResp" where
  "GenNatHoleResponse transactionID sid errInfo =
     \<lparr>TransactionID = transactionID, Sid = sid, Protocol = '''', CandidateAddrs = [], AssistedAddrs = [],
      DetectBehavior = noDetect, Error = errInfo, QUICFingerprint = ''''\<rparr>"

section \<open>State\<close>

text \<open>A client's configuration is shared by the map and by the goroutines that send on its channel, so it
  has an address; \<open>reading\<close> says that the proxy's goroutine still receives from the channel.\<close>

record ClientCfg =
  cfgName :: string
  sk :: string
  allowUsers :: "string list"
  reading :: bool

record Session =
  sid :: string
  analysisKey :: string
  recommandMode :: nat
  recommandIndex :: nat
  visitorMsg :: NatHoleVisitor
  visitorTransporter :: nat
  vResp :: "NatHoleResp option"
  vNatFeature :: "NatFeature option"
  vBehavior :: RecommandBehavior
  clientMsg :: "NatHoleClient option"
  clientTransporter :: nat
  cResp :: "NatHoleResp option"
  cNatFeature :: "NatFeature option"
  cBehavior :: RecommandBehavior
  notified :: bool

text \<open>Where the \<^verbatim>\<open>HandleVisitor\<close> of a session is: sending the session id on the channel of a client
  configuration, waiting for the client, sleeping after the responses were sent.\<close>

datatype visitor_pc = VSend nat | VWait | VSleep

record Controller =
  cfgs :: "ClientCfg list"
  clientCfgs :: "string \<rightharpoonup> nat"
  sessions :: "string \<rightharpoonup> Session"
  analyzer :: Analyzer
  vpc :: "string \<rightharpoonup> visitor_pc"
  sent :: "(nat \<times> NatHoleResp) list"

definition NewController :: "int \<Rightarrow> Controller" where
  "NewController d =
     \<lparr>cfgs = [], clientCfgs = Map.empty, sessions = Map.empty, analyzer = NewAnalyzer d, vpc = Map.empty, sent = []\<rparr>"

definition send :: "nat \<Rightarrow> NatHoleResp \<Rightarrow> Controller \<Rightarrow> Controller" where
  "send tr r c = c\<lparr>sent := sent c @ [(tr, r)]\<rparr>"

section \<open>Handlers\<close>

definition hex_digit :: "nat \<Rightarrow> char" where
  "hex_digit d = (if d < 10 then char_of (48 + d) else char_of (87 + d))"

definition EncodeToString :: "bytes \<Rightarrow> string" where
  "EncodeToString bs = concat (map (\<lambda>b. [hex_digit (unat b div 16), hex_digit (unat b mod 16)]) bs)"

definition GetAuthKey :: "(string \<Rightarrow> bytes) \<Rightarrow> string \<Rightarrow> int \<Rightarrow> string" where
  "GetAuthKey md5 token timestamp = EncodeToString (md5 (token @ Itoa timestamp))"

definition FormatBool :: "bool \<Rightarrow> string" where
  "FormatBool b = (if b then ''true'' else ''false'')"

definition firstIP :: "string list \<Rightarrow> string" where
  "firstIP addrs = (case fst (Compact (parseIPs addrs)) of [] \<Rightarrow> '''' | ip # _ \<Rightarrow> ip)"

definition genAnalysisKey ::
  "(string \<Rightarrow> bytes) \<Rightarrow> NatHoleVisitor \<Rightarrow> NatFeature \<Rightarrow> NatHoleClient \<Rightarrow> NatFeature \<Rightarrow> string" where
  "genAnalysisKey md5 vm vf cm cf =
     EncodeToString (md5
       (firstIP (vMappedAddrs vm) @ NatType vf @ Behavior vf @ FormatBool (RegularPortsChange vf) @
        firstIP (cMappedAddrs cm) @ NatType cf @ Behavior cf @ FormatBool (RegularPortsChange cf)))"

definition ListenClient :: "string \<Rightarrow> string \<Rightarrow> string list \<Rightarrow> Controller \<Rightarrow> (string + nat) \<times> Controller" where
  "ListenClient name key users c =
     (if clientCfgs c name \<noteq> None then (Inl (''proxy ['' @ name @ ''] is repeated''), c)
      else (Inr (length (cfgs c)),
            c\<lparr>cfgs := cfgs c @ [\<lparr>cfgName = name, sk = key, allowUsers = users, reading = True\<rparr>],
              clientCfgs := (clientCfgs c)(name \<mapsto> length (cfgs c))\<rparr>))"

definition CloseClient :: "string \<Rightarrow> Controller \<Rightarrow> Controller" where
  "CloseClient name c = c\<lparr>clientCfgs := (clientCfgs c)(name := None)\<rparr>"

text \<open>The proxy's goroutine leaves its loop over the channel.\<close>

definition stopReading :: "nat \<Rightarrow> Controller \<Rightarrow> Controller" where
  "stopReading a c = c\<lparr>cfgs := (cfgs c)[a := (cfgs c ! a)\<lparr>reading := False\<rparr>]\<rparr>"

definition preCheck :: "NatHoleVisitor \<Rightarrow> nat \<Rightarrow> string \<Rightarrow> Controller \<Rightarrow> Controller" where
  "preCheck m tr visitorUser c =
     (case clientCfgs c (vProxyName m) of
        None \<Rightarrow> send tr (GenNatHoleResponse (vTransactionID m) '''' (''xtcp server for ['' @ vProxyName m @ ''] doesn't exist'')) c
      | Some a \<Rightarrow>
          if visitorUser \<notin> set (allowUsers (cfgs c ! a)) \<and> ''*'' \<notin> set (allowUsers (cfgs c ! a))
          then send tr (GenNatHoleResponse (vTransactionID m) ''''
                 (''xtcp visitor user ['' @ visitorUser @ ''] not allowed for ['' @ vProxyName m @ '']'')) c
          else send tr (GenNatHoleResponse (vTransactionID m) '''' '''') c)"

definition newSession :: "string \<Rightarrow> NatHoleVisitor \<Rightarrow> nat \<Rightarrow> Session" where
  "newSession i m tr =
     \<lparr>sid = i, analysisKey = '''', recommandMode = 0, recommandIndex = 0, visitorMsg = m, visitorTransporter = tr,
      vResp = None, vNatFeature = None, vBehavior = noBehavior, clientMsg = None, clientTransporter = 0,
      cResp = None, cNatFeature = None, cBehavior = noBehavior, notified = False\<rparr>"

definition HandleVisitor ::
  "(string \<Rightarrow> bytes) \<Rightarrow> string \<Rightarrow> NatHoleVisitor \<Rightarrow> nat \<Rightarrow> string \<Rightarrow> Controller \<Rightarrow> Controller" where
  "HandleVisitor md5 i m tr visitorUser c =
     (if vPreCheck m then preCheck m tr visitorUser c
      else
        (case clientCfgs c (vProxyName m) of
           None \<Rightarrow> send tr (GenNatHoleResponse (vTransactionID m) '''' (''xtcp server for ['' @ vProxyName m @ ''] doesn't exist'')) c
         | Some a \<Rightarrow>
             if vSignKey m \<noteq> GetAuthKey md5 (sk (cfgs c ! a)) (vTimestamp m)
             then send tr (GenNatHoleResponse (vTransactionID m) '''' (''xtcp connection of ['' @ vProxyName m @ ''] auth failed'')) c
             else c\<lparr>sessions := (sessions c)(i \<mapsto> newSession i m tr), vpc := (vpc c)(i \<mapsto> VSend a)\<rparr>))"

text \<open>The deferred end of a \<^verbatim>\<open>HandleVisitor\<close>.\<close>

definition visitorEnd :: "string \<Rightarrow> Controller \<Rightarrow> Controller" where
  "visitorEnd i c = c\<lparr>sessions := (sessions c)(i := None), vpc := (vpc c)(i := None)\<rparr>"

definition HandleClient :: "NatHoleClient \<Rightarrow> nat \<Rightarrow> Controller \<Rightarrow> Controller" where
  "HandleClient m tr c =
     (case sessions c (cSid m) of
        None \<Rightarrow> c
      | Some s \<Rightarrow> c\<lparr>sessions := (sessions c)(cSid m \<mapsto> s\<lparr>clientMsg := Some m, clientTransporter := tr, notified := True\<rparr>)\<rparr>)"

definition HandleReport :: "int \<Rightarrow> NatHoleReport \<Rightarrow> Controller \<Rightarrow> Controller" where
  "HandleReport now m c =
     (case sessions c (rSid m) of
        None \<Rightarrow> c
      | Some s \<Rightarrow>
          if Success m
          then c\<lparr>analyzer := ReportSuccess now (analysisKey s) (recommandMode s) (recommandIndex s) (analyzer c)\<rparr>
          else c)"

section \<open>Analysis\<close>

datatype analysis_error = ClientNat nat_error | VisitorNat nat_error

definition analysis ::
  "(string \<Rightarrow> bytes) \<Rightarrow> int \<Rightarrow> NatHoleClient \<Rightarrow> Session \<Rightarrow> Analyzer \<Rightarrow>
   analysis_error + (NatHoleResp \<times> NatHoleResp) \<times> Session \<times> Analyzer" where
  "analysis md5 now cm s a =
     (let vm = visitorMsg s in
      bindR (mapErr ClientNat (ClassifyNATFeature (cMappedAddrs cm) (parseIPs (cAssistedAddrs cm)))) (\<lambda>cf.
      bindR (mapErr VisitorNat (ClassifyNATFeature (vMappedAddrs vm) (parseIPs (vAssistedAddrs vm)))) (\<lambda>vf.
        let key = genAnalysisKey md5 vm vf cm cf;
            ((mode, index, cB, vB), a') = GetRecommandBehaviors now key cf vf a;
            s' = s\<lparr>cNatFeature := Some cf, vNatFeature := Some vf, analysisKey := key, recommandMode := mode,
                   recommandIndex := index, cBehavior := cB, vBehavior := vB\<rparr>;
            timeoutMs = max (SendDelayMs cB) (SendDelayMs vB) + 5000 +
              (if ListenRandomPorts cB > 0 \<or> ListenRandomPorts vB > 0 then 30000 else 0);
            v = newNatHoleResponse (vTransactionID vm) (sid s) (vProtocol vm) mode (cMappedAddrs cm) (cAssistedAddrs cm)
                  vB (timeoutMs - SendDelayMs vB) (PortsDifference cf) (cQUICFingerprint cm);
            c = newNatHoleResponse (cTransactionID cm) (sid s) (vProtocol vm) mode (vMappedAddrs vm) (vAssistedAddrs vm)
                  cB (timeoutMs - SendDelayMs cB) (PortsDifference vf) (vQUICFingerprint vm)
        in Inr ((v, c), s', a'))))"

text \<open>The responses of \<^verbatim>\<open>HandleVisitor\<close> after the client's message, an error in them when the analysis fails;
  \<open>errText\<close> renders an error.\<close>

definition analysisOutcome ::
  "(string \<Rightarrow> bytes) \<Rightarrow> (analysis_error \<Rightarrow> string) \<Rightarrow> int \<Rightarrow> NatHoleClient \<Rightarrow> Session \<Rightarrow> Analyzer \<Rightarrow>
   (NatHoleResp \<times> NatHoleResp) \<times> Session \<times> Analyzer" where
  "analysisOutcome md5 errText now cm s a =
     (case analysis md5 now cm s a of
        Inl e \<Rightarrow> ((GenNatHoleResponse (vTransactionID (visitorMsg s)) '''' (errText e),
                  GenNatHoleResponse (cTransactionID cm) '''' (errText e)), s, a)
      | Inr x \<Rightarrow> x)"

text \<open>The rest of \<^verbatim>\<open>HandleVisitor\<close> up to its final sleep: the responses are sent in an order that is not fixed
  (\<open>clientFirst\<close>).\<close>

definition visitorRespond ::
  "(string \<Rightarrow> bytes) \<Rightarrow> (analysis_error \<Rightarrow> string) \<Rightarrow> int \<Rightarrow> bool \<Rightarrow> string \<Rightarrow> Controller \<Rightarrow> Controller" where
  "visitorRespond md5 errText now clientFirst i c =
     (case sessions c i of
        None \<Rightarrow> c
      | Some s \<Rightarrow>
          (case clientMsg s of
             None \<Rightarrow> c
           | Some cm \<Rightarrow>
               let ((v, r), s', a') = analysisOutcome md5 errText now cm s (analyzer c);
                   c1 = c\<lparr>sessions := (sessions c)(i \<mapsto> s'\<lparr>vResp := Some v, cResp := Some r\<rparr>), analyzer := a',
                          vpc := (vpc c)(i \<mapsto> VSleep)\<rparr>
               in if clientFirst then send (visitorTransporter s) v (send (clientTransporter s) r c1)
                  else send (clientTransporter s) r (send (visitorTransporter s) v c1)))"

section \<open>Responses: lemmas\<close>

lemma SplitHostPort_Nil: "\<exists>e. SplitHostPort '''' = Inl e"
  by (simp add: SplitHostPort_def)

lemma Compact_same: "distinct_adj xs \<Longrightarrow> Compact xs = (xs, xs)"
  by (simp add: Compact_def Let_def distinct_adj_altdef)

lemma remdups_adj_shorter: "\<not> distinct_adj xs \<Longrightarrow> length (remdups_adj xs) < length xs"
proof (induction xs rule: remdups_adj.induct)
  case (3 x y xs)
  then show ?case using remdups_adj_length [of "y # xs"] by (cases "x = y") auto
qed simp_all

lemma Compact_cleared:
  assumes "\<not> distinct_adj xs"
  shows "snd (Compact xs) \<noteq> []" "last (snd (Compact xs)) = ''''"
proof -
  have "length (remdups_adj xs) < length xs" using assms by (rule remdups_adj_shorter)
  then show "snd (Compact xs) \<noteq> []" "last (snd (Compact xs)) = ''''"
    by (auto simp: Compact_def Let_def)
qed

text \<open>The candidate ports sent to a peer are those around the last observed address only when no two adjacent
  addresses are equal.  Otherwise the in-place compaction of the addresses, which the response does first, has
  cleared the last element, and no candidate ports are sent at all.\<close>

theorem candidate_ports_lost:
  "CandidatePorts (DetectBehavior (newNatHoleResponse tid i protocol mode addrs assisted b timeout diff fp)) =
     (if distinct_adj addrs then getRangePorts addrs diff (PortsRangeNumber b) else [])"
proof (cases "distinct_adj addrs")
  case False
  obtain e where e: "SplitHostPort '''' = Inl e" using SplitHostPort_Nil by blast
  show ?thesis
    using False Compact_cleared [OF False] e
    by (auto simp: newNatHoleResponse_def Let_def split_beta getRangePorts_def)
qed (simp add: newNatHoleResponse_def Compact_same split_beta)

lemma wrap64_id: "- (2 ^ 63) \<le> x \<Longrightarrow> x < 2 ^ 63 \<Longrightarrow> wrap64 x = x"
  unfolding wrap64_def by (subst mod_pos_pos_trivial) auto

text \<open>Every port range is within the port numbers, and contains the observed port if that is one.\<close>

lemma range_ports_bounds:
  assumes "pr \<in> set (getRangePorts addrs diff n)"
  shows "1 \<le> From pr \<and> To pr \<le> 65535"
  using assms by (auto simp: getRangePorts_def split: if_splits sum.splits option.splits)

lemma range_ports_contain:
  assumes "addrs \<noteq> []" "SplitHostPort (last addrs) = Inr (ip, p)" "ParseInt64 p = Some port"
    and "1 \<le> port" "port \<le> 65535" "0 \<le> diff" "diff \<le> 65535" "0 < n" "n \<le> 65535"
  obtains pr where "getRangePorts addrs diff n = [pr]" "From pr \<le> port" "port \<le> To pr" "To pr - From pr \<le> 2 * n"
proof -
  have w: "wrap64 (port - diff) = port - diff" "wrap64 (port - diff - 5) = port - diff - 5" "wrap64 (port - n) = port - n"
    "wrap64 (port + diff) = port + diff" "wrap64 (port + diff + 5) = port + diff + 5" "wrap64 (port + n) = port + n"
    using assms by (auto intro!: wrap64_id)
  show thesis
    by (rule that) (use assms in \<open>auto simp: getRangePorts_def w\<close>)
qed

section \<open>Executions\<close>

datatype nevent =
    NListen string string "string list"
  | NClose string
  | NStop nat
  | NVisitor string NatHoleVisitor nat string
  | NDeliver string
  | NTimeout string
  | NClient NatHoleClient nat
  | NRespond int bool string
  | NReport int NatHoleReport
  | NEnd string
  | NClean int "string list"

text \<open>A session id is new; the proxy's goroutine stops after its configuration has left the map; the steps of a
  \<^verbatim>\<open>HandleVisitor\<close> come in their order, and its send on the channel needs the reader.\<close>

fun nguard :: "nevent \<Rightarrow> Controller \<Rightarrow> bool" where
  "nguard (NStop a) c \<longleftrightarrow> a < length (cfgs c) \<and> a \<notin> ran (clientCfgs c)"
| "nguard (NVisitor i m tr u) c \<longleftrightarrow> vpc c i = None"
| "nguard (NDeliver i) c \<longleftrightarrow> (case vpc c i of Some (VSend a) \<Rightarrow> reading (cfgs c ! a) | _ \<Rightarrow> False)"
| "nguard (NTimeout i) c \<longleftrightarrow> vpc c i = Some VWait"
| "nguard (NRespond now cf i) c \<longleftrightarrow> vpc c i = Some VWait \<and> (case sessions c i of None \<Rightarrow> False | Some s \<Rightarrow> notified s)"
| "nguard (NEnd i) c \<longleftrightarrow> vpc c i = Some VSleep"
| "nguard _ c \<longleftrightarrow> True"

fun nhappen :: "(string \<Rightarrow> bytes) \<Rightarrow> (analysis_error \<Rightarrow> string) \<Rightarrow> nevent \<Rightarrow> Controller \<Rightarrow> Controller" where
  "nhappen md5 et (NListen n k us) c = snd (ListenClient n k us c)"
| "nhappen md5 et (NClose n) c = CloseClient n c"
| "nhappen md5 et (NStop a) c = stopReading a c"
| "nhappen md5 et (NVisitor i m tr u) c = HandleVisitor md5 i m tr u c"
| "nhappen md5 et (NDeliver i) c = c\<lparr>vpc := (vpc c)(i \<mapsto> VWait)\<rparr>"
| "nhappen md5 et (NTimeout i) c = visitorEnd i c"
| "nhappen md5 et (NClient m tr) c = HandleClient m tr c"
| "nhappen md5 et (NRespond now cf i) c = visitorRespond md5 et now cf i c"
| "nhappen md5 et (NReport now m) c = HandleReport now m c"
| "nhappen md5 et (NEnd i) c = visitorEnd i c"
| "nhappen md5 et (NClean now order) c = c\<lparr>analyzer := snd (Clean now order (analyzer c))\<rparr>"

definition cfg_ok :: "Controller \<Rightarrow> bool" where
  "cfg_ok c \<longleftrightarrow> (\<forall>n a. clientCfgs c n = Some a \<longrightarrow> a < length (cfgs c) \<and> cfgName (cfgs c ! a) = n \<and> reading (cfgs c ! a))"

definition authentic :: "(string \<Rightarrow> bytes) \<Rightarrow> ClientCfg list \<Rightarrow> NatHoleVisitor \<Rightarrow> bool" where
  "authentic md5 cs m \<longleftrightarrow>
     (\<exists>cfg\<in>set cs. cfgName cfg = vProxyName m \<and> vSignKey m = GetAuthKey md5 (sk cfg) (vTimestamp m))"

definition session_ok :: "(string \<Rightarrow> bytes) \<Rightarrow> Controller \<Rightarrow> string \<Rightarrow> Session \<Rightarrow> bool" where
  "session_ok md5 c i s \<longleftrightarrow> sid s = i \<and> authentic md5 (cfgs c) (visitorMsg s) \<and> (notified s \<longrightarrow> clientMsg s \<noteq> None)"

definition ninv :: "(string \<Rightarrow> bytes) \<Rightarrow> Controller \<Rightarrow> bool" where
  "ninv md5 c \<longleftrightarrow> cfg_ok c \<and> dom (vpc c) = dom (sessions c) \<and> analyzed (analyzer c) \<and>
     (\<forall>i s. sessions c i = Some s \<longrightarrow> session_ok md5 c i s) \<and>
     (\<forall>i a. vpc c i = Some (VSend a) \<longrightarrow> a < length (cfgs c))"

lemma send_fields [simp]:
  "cfgs (send tr r c) = cfgs c" "clientCfgs (send tr r c) = clientCfgs c" "sessions (send tr r c) = sessions c"
  "analyzer (send tr r c) = analyzer c" "vpc (send tr r c) = vpc c" "sent (send tr r c) = sent c @ [(tr, r)]"
  by (simp_all add: send_def)

lemma ninv_send [simp]: "ninv md5 (send tr r c) = ninv md5 c"
  by (simp add: ninv_def cfg_ok_def session_ok_def)

lemma ninv_New: "ninv md5 (NewController d)"
  by (auto simp: ninv_def NewController_def cfg_ok_def intro: analyzed.new)

section \<open>Invariant\<close>

lemma authentic_append: "authentic md5 cs m \<Longrightarrow> authentic md5 (cs @ xs) m"
  by (auto simp: authentic_def)

lemma authentic_stop:
  assumes "authentic md5 cs m"
  shows "authentic md5 (cs[a := (cs ! a)\<lparr>reading := False\<rparr>]) m"
proof -
  obtain k where k: "k < length cs" "cfgName (cs ! k) = vProxyName m" "vSignKey m = GetAuthKey md5 (sk (cs ! k)) (vTimestamp m)"
    using assms by (auto simp: authentic_def in_set_conv_nth)
  let ?cs = "cs[a := (cs ! a)\<lparr>reading := False\<rparr>]"
  have e: "cfgName (?cs ! k) = cfgName (cs ! k) \<and> sk (?cs ! k) = sk (cs ! k)" using k(1) by (cases "a = k") simp_all
  have "?cs ! k \<in> set ?cs" using k(1) by (intro nth_mem) simp
  with e k show ?thesis unfolding authentic_def by (intro bexI [of _ "?cs ! k"]) simp_all
qed

lemma ninvD:
  assumes "ninv md5 c"
  shows "cfg_ok c" "dom (vpc c) = dom (sessions c)" "analyzed (analyzer c)"
    "\<And>i s. sessions c i = Some s \<Longrightarrow> session_ok md5 c i s" "\<And>i a. vpc c i = Some (VSend a) \<Longrightarrow> a < length (cfgs c)"
  using assms by (auto simp: ninv_def)

lemma ninv_Listen:
  assumes "ninv md5 c"
  shows "ninv md5 (snd (ListenClient n k us c))"
proof (cases "clientCfgs c n = None")
  case True
  let ?c = "snd (ListenClient n k us c)"
  have c: "?c = c\<lparr>cfgs := cfgs c @ [\<lparr>cfgName = n, sk = k, allowUsers = us, reading = True\<rparr>],
      clientCfgs := (clientCfgs c)(n \<mapsto> length (cfgs c))\<rparr>"
    using True by (simp add: ListenClient_def)
  have "cfg_ok ?c" using ninvD(1) [OF assms] by (auto simp: c cfg_ok_def nth_append less_SucI)
  moreover have "session_ok md5 ?c i s" if "sessions ?c i = Some s" for i s
    using that ninvD(4) [OF assms, of i s] by (auto simp: c session_ok_def authentic_append)
  moreover have "a < length (cfgs ?c)" if "vpc ?c i = Some (VSend a)" for i a
    using that ninvD(5) [OF assms, of i a] by (simp add: c)
  ultimately show ?thesis using ninvD(2,3) [OF assms] by (simp add: ninv_def c)
qed (use assms in \<open>simp add: ListenClient_def\<close>)

lemma ninv_Close: "ninv md5 c \<Longrightarrow> ninv md5 (CloseClient n c)"
  unfolding ninv_def session_ok_def cfg_ok_def CloseClient_def by auto

lemma ninv_Stop: "ninv md5 c \<Longrightarrow> nguard (NStop a) c \<Longrightarrow> ninv md5 (stopReading a c)"
  unfolding ninv_def session_ok_def cfg_ok_def stopReading_def
  by (auto simp: authentic_stop nth_list_update ranI)

lemma ninv_end: "ninv md5 c \<Longrightarrow> ninv md5 (visitorEnd i c)"
  unfolding ninv_def session_ok_def cfg_ok_def visitorEnd_def by auto

lemma ninv_Visitor:
  assumes "ninv md5 c" "vpc c i = None"
  shows "ninv md5 (HandleVisitor md5 i m tr u c)"
proof (cases "vPreCheck m \<or> clientCfgs c (vProxyName m) = None")
  case True
  with assms show ?thesis by (auto simp: HandleVisitor_def preCheck_def split: option.splits)
next
  case False
  then obtain a where a: "clientCfgs c (vProxyName m) = Some a" "\<not> vPreCheck m" by auto
  then have ok: "a < length (cfgs c)" "cfgName (cfgs c ! a) = vProxyName m"
    using assms(1) by (auto simp: ninv_def cfg_ok_def)
  show ?thesis
  proof (cases "vSignKey m = GetAuthKey md5 (sk (cfgs c ! a)) (vTimestamp m)")
    case True
    with ok have "authentic md5 (cfgs c) m" unfolding authentic_def by (intro bexI [of _ "cfgs c ! a"]) auto
    with assms a True ok show ?thesis
      unfolding ninv_def session_ok_def cfg_ok_def by (auto simp: HandleVisitor_def newSession_def)
  qed (use a assms(1) in \<open>simp add: HandleVisitor_def\<close>)
qed

lemma ninv_Deliver: "ninv md5 c \<Longrightarrow> vpc c i \<noteq> None \<Longrightarrow> ninv md5 (c\<lparr>vpc := (vpc c)(i \<mapsto> VWait)\<rparr>)"
  unfolding ninv_def session_ok_def cfg_ok_def by auto

lemma ninv_Client: "ninv md5 c \<Longrightarrow> ninv md5 (HandleClient m tr c)"
  unfolding ninv_def session_ok_def cfg_ok_def HandleClient_def by (auto split: option.splits)

lemma ninv_Report: "ninv md5 c \<Longrightarrow> ninv md5 (HandleReport now m c)"
  unfolding ninv_def session_ok_def cfg_ok_def HandleReport_def by (auto split: option.splits intro: analyzed.report)

lemma ninv_Clean: "ninv md5 c \<Longrightarrow> ninv md5 (c\<lparr>analyzer := snd (Clean now order (analyzer c))\<rparr>)"
  unfolding ninv_def session_ok_def cfg_ok_def by (auto intro: analyzed.clean)

text \<open>What an analysis that succeeds keeps of the session, and where the analyzer's new state comes from.\<close>

lemma analysis_Inr:
  assumes "analysis md5 now cm s a = Inr ((v, r), s', a')"
  obtains cf vf key mode index cB vB t where
    "GetRecommandBehaviors now key cf vf a = ((mode, index, cB, vB), a')"
    "sid s' = sid s" "visitorMsg s' = visitorMsg s" "clientMsg s' = clientMsg s" "notified s' = notified s"
    "t = max (SendDelayMs cB) (SendDelayMs vB) + 5000 + (if ListenRandomPorts cB > 0 \<or> ListenRandomPorts vB > 0 then 30000 else 0)"
    "v = newNatHoleResponse (vTransactionID (visitorMsg s)) (sid s) (vProtocol (visitorMsg s)) mode (cMappedAddrs cm)
           (cAssistedAddrs cm) vB (t - SendDelayMs vB) (PortsDifference cf) (cQUICFingerprint cm)"
    "r = newNatHoleResponse (cTransactionID cm) (sid s) (vProtocol (visitorMsg s)) mode (vMappedAddrs (visitorMsg s))
           (vAssistedAddrs (visitorMsg s)) cB (t - SendDelayMs cB) (PortsDifference vf) (vQUICFingerprint (visitorMsg s))"
proof -
  from assms obtain cf vf where
    cv: "ClassifyNATFeature (cMappedAddrs cm) (parseIPs (cAssistedAddrs cm)) = Inr cf"
      "ClassifyNATFeature (vMappedAddrs (visitorMsg s)) (parseIPs (vAssistedAddrs (visitorMsg s))) = Inr vf"
    unfolding analysis_def Let_def by (auto simp: bindR_eq_Inr)
  define key where "key = genAnalysisKey md5 (visitorMsg s) vf cm cf"
  obtain mode index cB vB a1 where g: "GetRecommandBehaviors now key cf vf a = ((mode, index, cB, vB), a1)"
    by (metis prod_cases4 prod.collapse)
  note A = assms [unfolded analysis_def cv Let_def mapErr_simps bindR_simps, folded key_def, unfolded g prod.case]
  show thesis by (rule that [of key cf vf mode index cB vB]) (use A g in auto)
qed

lemma ninv_Respond:
  assumes "ninv md5 c" "nguard (NRespond now cf i) c"
  shows "ninv md5 (visitorRespond md5 et now cf i c)"
proof -
  obtain s where s1: "sessions c i = Some s" "notified s" "vpc c i = Some VWait"
    using assms(2) by (auto split: option.splits)
  then obtain cm where s: "sessions c i = Some s" "clientMsg s = Some cm" "vpc c i = Some VWait"
    using ninvD(4) [OF assms(1), of i s] by (auto simp: session_ok_def)
  obtain v r s' a' where e: "analysisOutcome md5 et now cm s (analyzer c) = ((v, r), s', a')"
    by (cases "analysisOutcome md5 et now cm s (analyzer c)") (metis prod.collapse)
  have k: "sid s' = sid s \<and> visitorMsg s' = visitorMsg s \<and> clientMsg s' = clientMsg s \<and> analyzed a'"
  proof (cases "analysis md5 now cm s (analyzer c)")
    case (Inr x)
    with e have "analysis md5 now cm s (analyzer c) = Inr ((v, r), s', a')" by (simp add: analysisOutcome_def)
    then show ?thesis
    proof (rule analysis_Inr)
      fix cf vf key mode index cB vB
      assume "GetRecommandBehaviors now key cf vf (analyzer c) = ((mode, index, cB, vB), a')"
        "sid s' = sid s" "visitorMsg s' = visitorMsg s" "clientMsg s' = clientMsg s"
      with analyzed.get [OF ninvD(3) [OF assms(1)], of now key cf vf] show ?thesis by simp
    qed
  qed (use e ninvD(3) [OF assms(1)] in \<open>auto simp: analysisOutcome_def\<close>)
  define c1 where "c1 = c\<lparr>sessions := (sessions c)(i \<mapsto> s'\<lparr>vResp := Some v, cResp := Some r\<rparr>), analyzer := a',
      vpc := (vpc c)(i \<mapsto> VSleep)\<rparr>"
  have "ninv md5 c1" using assms(1) s k unfolding c1_def ninv_def session_ok_def cfg_ok_def by auto
  moreover have "visitorRespond md5 et now cf i c =
      (if cf then send (visitorTransporter s) v (send (clientTransporter s) r c1)
       else send (clientTransporter s) r (send (visitorTransporter s) v c1))"
    by (simp add: visitorRespond_def s e c1_def)
  ultimately show ?thesis by simp
qed

interpretation punching: event_system nguard "nhappen md5 et" "NewController d" "ninv md5" for md5 et d
proof
  show "ninv md5 (NewController d)" by (rule ninv_New)
  fix c e assume "ninv md5 c" "nguard e c"
  then show "ninv md5 (nhappen md5 et e c)"
    by (cases e) (auto simp: ninv_Listen ninv_Close ninv_Stop ninv_Visitor ninv_end ninv_Client ninv_Report ninv_Clean
        simp del: nguard.simps(5) intro: ninv_Deliver ninv_Respond split: option.splits)
qed

section \<open>Properties\<close>

text \<open>A hole-punching session exists only for a visitor that knows the secret.  In every state the controller can
  reach, a session was opened by a visitor whose sign key is the key of a proxy of the requested name, for the
  visitor's timestamp, and a session exists exactly as long as its \<^verbatim>\<open>HandleVisitor\<close> runs.\<close>

theorem punch_sessions_authenticated:
  assumes "steps nguard (nhappen md5 et) (NewController d) c" "sessions c i = Some s"
  shows "(\<exists>cfg\<in>set (cfgs c). cfgName cfg = vProxyName (visitorMsg s) \<and>
            vSignKey (visitorMsg s) = GetAuthKey md5 (sk cfg) (vTimestamp (visitorMsg s))) \<and>
         vpc c i \<noteq> None"
proof -
  have inv: "ninv md5 c" by (rule punching.good_reached [OF assms(1)])
  have "vpc c i \<noteq> None" using ninvD(2) [OF inv] assms(2) by (metis domIff option.distinct(1))
  with ninvD(4) [OF inv assms(2)] show ?thesis by (auto simp: session_ok_def authentic_def)
qed

definition demo_md5 :: "string \<Rightarrow> bytes" where
  "demo_md5 s = bytes_of_string s"

definition demo_visitor :: NatHoleVisitor where
  "demo_visitor = \<lparr>vTransactionID = ''t1'', vProxyName = ''p'', vPreCheck = False, vProtocol = ''quic'',
     vSignKey = GetAuthKey demo_md5 ''secret'' 7, vTimestamp = 7, vMappedAddrs = [''1.2.3.4:4000'', ''1.2.3.4:4003''],
     vAssistedAddrs = [], vQUICFingerprint = ''fv''\<rparr>"

definition demo_client :: NatHoleClient where
  "demo_client = \<lparr>cTransactionID = ''t2'', cProxyName = ''p'', cSid = ''s1'',
     cMappedAddrs = [''5.6.7.8:5000'', ''5.6.7.8:5000''], cAssistedAddrs = [], cQUICFingerprint = ''fc''\<rparr>"

abbreviation demo_step :: "nevent \<Rightarrow> Controller \<Rightarrow> Controller" where
  "demo_step \<equiv> nhappen demo_md5 (\<lambda>_. ''error'')"

definition demo_opened :: Controller where
  "demo_opened = demo_step (NVisitor ''s1'' demo_visitor 1 ''bob'') (demo_step (NListen ''p'' ''secret'' [''*'']) (NewController 100))"

lemmas demo_eval = demo_opened_def demo_visitor_def ListenClient_def HandleVisitor_def NewController_def newSession_def

lemma demo_opened_fields:
  "sessions demo_opened = [''s1'' \<mapsto> newSession ''s1'' demo_visitor 1]" "vpc demo_opened = [''s1'' \<mapsto> VSend 0]"
  "cfgs demo_opened = [\<lparr>cfgName = ''p'', sk = ''secret'', allowUsers = [''*''], reading = True\<rparr>]"
  "clientCfgs demo_opened = [''p'' \<mapsto> 0]" "analyzer demo_opened = NewAnalyzer 100" "sent demo_opened = []"
  by (simp_all add: demo_eval)

lemma demo_opened_reached: "steps nguard demo_step (NewController 100) demo_opened"
  unfolding demo_opened_def by (intro steps_event steps_refl) (simp_all add: ListenClient_def NewController_def)

theorem punch_sessions_authenticated_witness:
  "\<exists>cfg\<in>set (cfgs demo_opened). cfgName cfg = vProxyName demo_visitor \<and>
     vSignKey demo_visitor = GetAuthKey demo_md5 (sk cfg) (vTimestamp demo_visitor)"
  using punch_sessions_authenticated [OF demo_opened_reached, of "''s1''" "newSession ''s1'' demo_visitor 1"]
  by (simp add: demo_opened_fields newSession_def)


lemma analysis_succeeds:
  assumes "ClassifyNATFeature (cMappedAddrs cm) (parseIPs (cAssistedAddrs cm)) = Inr cf"
    and "ClassifyNATFeature (vMappedAddrs (visitorMsg s)) (parseIPs (vAssistedAddrs (visitorMsg s))) = Inr vf"
  shows "\<exists>v r s' a'. analysis md5 now cm s a = Inr ((v, r), s', a')"
  using assms by (simp add: analysis_def Let_def split_beta)

definition demo_waiting :: Controller where
  "demo_waiting = demo_step (NClient demo_client 2) (demo_step (NDeliver ''s1'') demo_opened)"

lemma demo_waiting_reached: "steps nguard demo_step (NewController 100) demo_waiting"
  unfolding demo_waiting_def
  by (intro steps_event demo_opened_reached) (simp_all add: demo_opened_fields)


text \<open>A visitor whose proxy stops at the wrong moment is stuck.  Once the goroutine that reads the channel of a
  client configuration has ended, a \<^verbatim>\<open>HandleVisitor\<close> that is still sending its session id on that channel never gets
  past it, whatever happens next, and its session stays in the controller's map: there is a time limit on the wait for
  the client but none on the send.\<close>

theorem visitor_blocked_forever:
  assumes "steps nguard (nhappen md5 et) (NewController d) c" "vpc c i = Some (VSend a)" "\<not> reading (cfgs c ! a)"
    and "steps nguard (nhappen md5 et) c c'"
  shows "vpc c' i = Some (VSend a) \<and> sessions c' i \<noteq> None"
proof -
  have inv: "ninv md5 c" by (rule punching.good_reached [OF assms(1)])
  have "vpc c' i = Some (VSend a) \<and> \<not> reading (cfgs c' ! a)"
  proof (rule punching.stable_steps [OF assms(4) inv, where P = "\<lambda>u. vpc u i = Some (VSend a) \<and> \<not> reading (cfgs u ! a)"])
    fix e u
    assume u: "ninv md5 u" "nguard e u" "vpc u i = Some (VSend a) \<and> \<not> reading (cfgs u ! a)"
    have "a < length (cfgs u)" using ninvD(5) [OF u(1)] u(3) by blast
    with u show "vpc (nhappen md5 et e u) i = Some (VSend a) \<and> \<not> reading (cfgs (nhappen md5 et e u) ! a)"
      by (cases e) (auto simp: ListenClient_def CloseClient_def stopReading_def HandleVisitor_def preCheck_def visitorEnd_def
          HandleClient_def HandleReport_def visitorRespond_def Let_def split_beta nth_append nth_list_update split: option.splits)
  qed (use assms(2,3) in simp)
  moreover have "ninv md5 c'" by (rule punching.good_steps [OF assms(4) inv])
  ultimately show ?thesis using ninvD(2) by blast
qed

definition demo_stuck :: Controller where
  "demo_stuck = demo_step (NStop 0) (demo_step (NClose ''p'') demo_opened)"

theorem visitor_blocked_forever_witness:
  "vpc (demo_step (NClient demo_client 2) demo_stuck) ''s1'' = Some (VSend 0) \<and>
   sessions (demo_step (NClient demo_client 2) demo_stuck) ''s1'' \<noteq> None"
proof (rule visitor_blocked_forever)
  show "steps nguard demo_step (NewController 100) demo_stuck"
    unfolding demo_stuck_def
    by (intro steps_event demo_opened_reached) (simp_all add: CloseClient_def demo_opened_fields)
  show "vpc demo_stuck ''s1'' = Some (VSend 0)" "\<not> reading (cfgs demo_stuck ! 0)"
    by (simp_all add: demo_stuck_def CloseClient_def stopReading_def demo_opened_fields)
  show "steps nguard demo_step demo_stuck (demo_step (NClient demo_client 2) demo_stuck)"
    by (intro steps_event steps_refl) simp
qed

end
