(* ===== verification/Visitor_Manager.thy ===== *)
theory Visitor_Manager
  imports Nat_Controller
begin

text \<open>
  The listeners visitors connect to: \<^verbatim>\<open>server/visitor/visitor.go\<close> and the in-process listener of
  \<^verbatim>\<open>pkg/util/net/listener.go\<close>.  Proxies of the types stcp, sudp and xudp register a listener under their
  name; a visitor's connection is checked against the secret key and the allowed users and is then put
  into the listener's queue.  Listeners are shared by pointer between the manager and their proxy, so they
  live in a store.
\<close>

section \<open>The in-process listener\<close>

text \<open>A queued connection with the protocol and the packet codec the visitor speaks.\<close>

record wireProtocolConn =
  wconn :: nat
  wireProtocol :: string
  udpPacketCodec :: string

record InternalListener =
  acceptCh :: "wireProtocolConn list"
  lnClosed :: bool

definition acceptCap :: nat where "acceptCap = 128"

definition NewInternalListener :: InternalListener where
  "NewInternalListener = \<lparr>acceptCh = [], lnClosed = False\<rparr>"

datatype visitor_error =
    ListenerRepeated string | VisitorAuthFailed string | UserNotAllowed string string
  | EncryptionFailed | PutConnClosed | ListenerMissing string

text \<open>\<^verbatim>\<open>PutConn\<close>: the error, whether the connection was closed instead of queued, and the listener.\<close>

definition PutConn :: "wireProtocolConn \<Rightarrow> InternalListener \<Rightarrow> (visitor_error + bool) \<times> InternalListener" where
  "PutConn conn l =
     (if lnClosed l then (Inl PutConnClosed, l)
      else if length (acceptCh l) < acceptCap then (Inr True, l\<lparr>acceptCh := acceptCh l @ [conn]\<rparr>)
      else (Inr False, l))"

text \<open>\<^verbatim>\<open>Accept\<close>: None is the error of a closed listener, which comes after the queued connections.  On an empty
  open queue the call blocks: it is not enabled.\<close>

definition acceptEnabled :: "InternalListener \<Rightarrow> bool" where
  "acceptEnabled l \<longleftrightarrow> acceptCh l \<noteq> [] \<or> lnClosed l"

definition lnAccept :: "InternalListener \<Rightarrow> wireProtocolConn option \<times> InternalListener" where
  "lnAccept l = (case acceptCh l of [] \<Rightarrow> (None, l) | c # cs \<Rightarrow> (Some c, l\<lparr>acceptCh := cs\<rparr>))"

definition lnClose :: "InternalListener \<Rightarrow> InternalListener" where
  "lnClose l = l\<lparr>lnClosed := True\<rparr>"

section \<open>The manager\<close>

record listenerBundle =
  bl :: nat
  bsk :: string
  ballowUsers :: "string list"

record visitorManager =
  lnStore :: "InternalListener list"
  vlisteners :: "string \<rightharpoonup> listenerBundle"

definition NewVisitorManager :: visitorManager where
  "NewVisitorManager = \<lparr>lnStore = [], vlisteners = Map.empty\<rparr>"

definition visitorListen :: "string \<Rightarrow> string \<Rightarrow> string list \<Rightarrow> visitorManager \<Rightarrow> (visitor_error + nat) \<times> visitorManager" where
  "visitorListen name key users vm =
     (if vlisteners vm name \<noteq> None then (Inl (ListenerRepeated name), vm)
      else
        let l = length (lnStore vm) in
        (Inr l, vm\<lparr>lnStore := lnStore vm @ [NewInternalListener],
                   vlisteners := (vlisteners vm)(name \<mapsto> \<lparr>bl = l, bsk = key, ballowUsers = users\<rparr>)\<rparr>))"

text \<open>A connection as a visitor announces it; \<open>encOk\<close> says that setting up the encryption succeeds.\<close>

record visitor_conn =
  vcConn :: wireProtocolConn
  vcTimestamp :: int
  vcSignKey :: string
  vcUseEncryption :: bool
  vcUser :: string

definition visitorNewConn ::
  "(string \<Rightarrow> bytes) \<Rightarrow> bool \<Rightarrow> string \<Rightarrow> visitor_conn \<Rightarrow> visitorManager \<Rightarrow> (visitor_error + bool) \<times> visitorManager" where
  "visitorNewConn md5 encOk name v vm =
     (case vlisteners vm name of
        None \<Rightarrow> (Inl (ListenerMissing name), vm)
      | Some b \<Rightarrow>
          if GetAuthKey md5 (bsk b) (vcTimestamp v) \<noteq> vcSignKey v then (Inl (VisitorAuthFailed name), vm)
          else if vcUser v \<notin> set (ballowUsers b) \<and> ''*'' \<notin> set (ballowUsers b) then (Inl (UserNotAllowed name (vcUser v)), vm)
          else if vcUseEncryption v \<and> \<not> encOk then (Inl EncryptionFailed, vm)
          else (case PutConn (vcConn v) (lnStore vm ! bl b) of
                  (r, l) \<Rightarrow> (r, vm\<lparr>lnStore := (lnStore vm)[bl b := l]\<rparr>)))"

definition CloseListener :: "string \<Rightarrow> visitorManager \<Rightarrow> visitorManager" where
  "CloseListener name vm = vm\<lparr>vlisteners := (vlisteners vm)(name := None)\<rparr>"

text \<open>The proxy closes its own listener.\<close>

definition closeInternal :: "nat \<Rightarrow> visitorManager \<Rightarrow> visitorManager" where
  "closeInternal l vm = vm\<lparr>lnStore := (lnStore vm)[l := lnClose (lnStore vm ! l)]\<rparr>"

section \<open>Invariant\<close>

text \<open>Registered listeners exist and are not shared, and no queue is longer than its capacity.\<close>

definition vm_ok :: "visitorManager \<Rightarrow> bool" where
  "vm_ok vm \<longleftrightarrow>
     (\<forall>n b. vlisteners vm n = Some b \<longrightarrow> bl b < length (lnStore vm)) \<and>
     (\<forall>n m b c. vlisteners vm n = Some b \<longrightarrow> vlisteners vm m = Some c \<longrightarrow> bl b = bl c \<longrightarrow> n = m) \<and>
     (\<forall>l\<in>set (lnStore vm). length (acceptCh l) \<le> acceptCap)"

lemma vm_ok_New: "vm_ok NewVisitorManager"
  by (simp add: vm_ok_def NewVisitorManager_def)

lemma vm_ok_Listen: "vm_ok vm \<Longrightarrow> vm_ok (snd (visitorListen name key users vm))"
  unfolding visitorListen_def vm_ok_def Let_def
  by (auto simp: NewInternalListener_def intro: less_SucI) (metis nat_less_le)+

lemma vm_ok_update:
  assumes "vm_ok vm" "l < length (lnStore vm) \<Longrightarrow> length (acceptCh x) \<le> acceptCap"
  shows "vm_ok (vm\<lparr>lnStore := (lnStore vm)[l := x]\<rparr>)"
proof (cases "l < length (lnStore vm)")
  case True
  then have "set ((lnStore vm)[l := x]) \<subseteq> insert x (set (lnStore vm))" by (simp add: set_update_subset_insert)
  with assms(1) assms(2) [OF True] show ?thesis unfolding vm_ok_def by (simp, blast)
qed (use assms(1) in \<open>simp add: vm_ok_def list_update_beyond\<close>)

lemma vm_ok_queue: "vm_ok vm \<Longrightarrow> l < length (lnStore vm) \<Longrightarrow> length (acceptCh (lnStore vm ! l)) \<le> acceptCap"
  by (auto simp: vm_ok_def)

lemma vm_ok_closeInternal: "vm_ok vm \<Longrightarrow> vm_ok (closeInternal l vm)"
  unfolding closeInternal_def by (rule vm_ok_update) (simp_all add: lnClose_def vm_ok_queue)

lemma vm_ok_CloseListener: "vm_ok vm \<Longrightarrow> vm_ok (CloseListener name vm)"
  by (auto simp: vm_ok_def CloseListener_def)

lemma vm_ok_NewConn: "vm_ok vm \<Longrightarrow> vm_ok (snd (visitorNewConn md5 encOk name v vm))"
  by (auto simp: visitorNewConn_def PutConn_def vm_ok_queue split: option.split intro!: vm_ok_update)

end
