(* ===== verification/Server_Resources.thy ===== *)
theory Server_Resources
  imports Http_Group Listener_Group Visitor_Manager
begin

text \<open>
  The resources of the server that proxies share: ports, routes, listeners of groups, visitor listeners and
  NAT-hole clients (\<^verbatim>\<open>server/controller/resource.go\<close>), and who holds them.  The locale \<open>lease\<close> says what proxies
  rely on; it holds of the resource controller because each of its components keeps the law: the groups by
  \<open>keyed_groups\<close>, which extends the contract of listener groups by the keys that tell resources apart.
\<close>

section \<open>Leases\<close>

text \<open>
  What a client needs of a shared store of resources: a request takes one new resource or none, and giving a
  resource back takes away exactly that one.  \<open>owned\<close> are the resources that are taken, \<open>token\<close> is the
  resource a handle stands for, and \<open>fit\<close> is what a request needs to be served.
\<close>

locale lease =
  fixes take :: "'q \<Rightarrow> 's \<Rightarrow> ('e + 'h) \<times> 's"
    and give :: "int \<Rightarrow> 'h \<Rightarrow> 's \<Rightarrow> 's"
    and ok :: "'s \<Rightarrow> bool"
    and owned :: "'s \<Rightarrow> 't set"
    and token :: "'h \<Rightarrow> 't"
    and fit :: "'q \<Rightarrow> 's \<Rightarrow> bool"
  assumes take_gets: "ok s \<Longrightarrow> fit q s \<Longrightarrow> take q s = (Inr h, s') \<Longrightarrow>
      ok s' \<and> token h \<notin> owned s \<and> owned s' = insert (token h) (owned s)"
    and take_fails: "ok s \<Longrightarrow> fit q s \<Longrightarrow> take q s = (Inl e, s') \<Longrightarrow> ok s' \<and> owned s' = owned s"
    and give_back: "ok s \<Longrightarrow> token h \<in> owned s \<Longrightarrow> ok (give t h s) \<and> owned (give t h s) = owned s - {token h}"

section \<open>Group controllers\<close>

text \<open>The loop of the controllers' \<^verbatim>\<open>Listen\<close> with nobody in between: the group that was just looked up is current,
  so the first round decides.\<close>

definition ctlListen ::
  "(nat \<Rightarrow> string \<Rightarrow> string \<Rightarrow> 'c \<Rightarrow> ('p, 'r) groupCtl \<Rightarrow> ('e lgroup_error + 'l) \<times> ('p, 'r) groupCtl) \<Rightarrow>
   'p \<Rightarrow> string \<Rightarrow> string \<Rightarrow> 'c \<Rightarrow> ('p, 'r) groupCtl \<Rightarrow> ('e lgroup_error + 'l) \<times> ('p, 'r) groupCtl" where
  "ctlListen listen p0 gname key c ctl =
     (let (a, ctl1) = registryGetOrCreate p0 gname ctl in listen a gname key c ctl1)"

text \<open>The listeners of groups that are open, and the keys that no group holds.\<close>

definition openLns :: "('p, 'r) groupCtl \<Rightarrow> nat set" where
  "openLns ctl = {l. l < length (lnGroup ctl) \<and> l \<notin> closedLns ctl}"

definition ownKeys :: "('p \<Rightarrow> 'k) \<Rightarrow> ('r \<Rightarrow> 'k set) \<Rightarrow> ('p, 'r) groupCtl \<Rightarrow> 'k set" where
  "ownKeys key keys ctl = keys (resource ctl) - key ` openGroups ctl"

text \<open>A resource whose parts are told apart by keys.\<close>

locale keyed_groups = listener_groups acquire release env rok holds clash allowed envOk listen mismatch p0 r0
  for acquire :: "'c \<Rightarrow> 'r \<Rightarrow> ('e + 'p) \<times> 'r" and release :: "int \<Rightarrow> 'p \<Rightarrow> 'r \<Rightarrow> 'r" and env :: "'o \<Rightarrow> 'r \<Rightarrow> 'r"
    and rok holds clash allowed envOk
    and listen :: "nat \<Rightarrow> string \<Rightarrow> string \<Rightarrow> 'c \<Rightarrow> ('p, 'r) groupCtl \<Rightarrow> ('e lgroup_error + 'l) \<times> ('p, 'r) groupCtl"
    and mismatch p0 r0 +
  fixes key :: "'p \<Rightarrow> 'k"
    and keys :: "'r \<Rightarrow> 'k set"
    and fitting :: "'c \<Rightarrow> 'r \<Rightarrow> bool"
    and ln :: "'l \<Rightarrow> nat"
  assumes holds_key: "holds p r \<longleftrightarrow> key p \<in> keys r"
    and clash_key: "clash p q \<longleftrightarrow> key p = key q"
    and fitting_allowed: "fitting c r \<Longrightarrow> (\<And>q. q \<in> B \<Longrightarrow> key q \<in> keys r) \<Longrightarrow> allowed c B r"
    and acquire_gets: "rok r \<Longrightarrow> fitting c r \<Longrightarrow> acquire c r = (Inr p, r') \<Longrightarrow> key p \<notin> keys r \<and> keys r' = insert (key p) (keys r)"
    and acquire_fails: "rok r \<Longrightarrow> fitting c r \<Longrightarrow> acquire c r = (Inl e, r') \<Longrightarrow> keys r' = keys r"
    and release_key: "rok r \<Longrightarrow> keys (release t p r) = keys r - {key p}"
    and listen_result: "map_sum id ln (fst (listen a gname k c ctl)) = fst (groupListen acquire mismatch a gname k c ctl)"
begin

lemma group_keys: "cok ctl \<Longrightarrow> key ` openGroups ctl \<subseteq> keys (resource ctl)"
  using cok_open_holds by (auto simp: holds_key)

lemma own_taken:
  assumes "cok ctl" "rok r" "k \<notin> keys (resource ctl)" "keys r = insert k (keys (resource ctl))"
  shows "cok (ctl\<lparr>resource := r\<rparr>)" "ownKeys key keys (ctl\<lparr>resource := r\<rparr>) = insert k (ownKeys key keys ctl)"
    "k \<notin> ownKeys key keys ctl"
proof -
  show "cok (ctl\<lparr>resource := r\<rparr>)"
    by (rule cok_resource [OF assms(1,2)]) (use group_keys [OF assms(1)] assms(4) in \<open>auto simp: holds_key\<close>)
  show "ownKeys key keys (ctl\<lparr>resource := r\<rparr>) = insert k (ownKeys key keys ctl)" "k \<notin> ownKeys key keys ctl"
    using assms(3,4) group_keys [OF assms(1)] by (auto simp: ownKeys_def openGroups_def)
qed

lemma own_given:
  assumes "cok ctl" "rok r" "k \<in> ownKeys key keys ctl" "keys r = keys (resource ctl) - {k}"
  shows "cok (ctl\<lparr>resource := r\<rparr>)" "ownKeys key keys (ctl\<lparr>resource := r\<rparr>) = ownKeys key keys ctl - {k}"
proof -
  show "cok (ctl\<lparr>resource := r\<rparr>)"
    by (rule cok_resource [OF assms(1,2)]) (use group_keys [OF assms(1)] assms(3,4) in \<open>auto simp: holds_key ownKeys_def\<close>)
  show "ownKeys key keys (ctl\<lparr>resource := r\<rparr>) = ownKeys key keys ctl - {k}"
    using assms(3,4) by (auto simp: ownKeys_def openGroups_def)
qed

lemma own_same:
  assumes "cok ctl" "rok r" "keys r = keys (resource ctl)"
  shows "cok (ctl\<lparr>resource := r\<rparr>)" "ownKeys key keys (ctl\<lparr>resource := r\<rparr>) = ownKeys key keys ctl"
  using cok_resource [OF assms(1,2)] group_keys [OF assms(1)] assms(3) by (auto simp: holds_key ownKeys_def openGroups_def)

end

lemma openLns_simps [simp]: "openLns (ctl\<lparr>resource := r\<rparr>) = openLns ctl" "openLns (setLgrp a g ctl) = openLns ctl"
  "openGroups (ctl\<lparr>resource := r\<rparr>) = openGroups ctl"
  by (simp_all add: openLns_def openGroups_def)

lemma openLns_newListener:
  assumes "\<And>l. l \<in> closedLns ctl \<Longrightarrow> l < length (lnGroup ctl)"
  shows "fst (newListener a ctl) \<notin> openLns ctl" "openLns (snd (newListener a ctl)) = insert (fst (newListener a ctl)) (openLns ctl)"
  using assms by (auto simp: openLns_def newListener_def Let_def setLgrp_def less_Suc_eq)

lemma openGroups_newListener:
  assumes "a < length (gstore ctl)"
  shows "openGroups (snd (newListener a ctl)) =
    insert (bparams (lgrp a ctl)) {q. \<exists>b<length (gstore ctl). b \<noteq> a \<and> lns (lgrp b ctl) \<noteq> [] \<and> q = bparams (lgrp b ctl)}"
proof -
  have "lgrp b (snd (newListener a ctl)) = (if b = a then (lgrp a ctl)\<lparr>lns := lns (lgrp a ctl) @ [length (lnGroup ctl)]\<rparr> else lgrp b ctl)" for b
    using assms by (simp add: newListener_def Let_def lgrp_def setLgrp_def)
  moreover have "length (gstore (snd (newListener a ctl))) = length (gstore ctl)" by (simp add: newListener_def Let_def)
  ultimately show ?thesis using assms by (auto simp: openGroups_iff split: if_splits)
qed

lemma openGroups_join:
  assumes "a < length (gstore ctl)" "lns (lgrp a ctl) \<noteq> []"
  shows "openGroups (snd (newListener a ctl)) = openGroups ctl"
  using assms by (auto simp: openGroups_newListener openGroups_iff)

lemma openGroups_first:
  assumes "a < length (gstore ctl)" "lns (lgrp a ctl) = []"
  shows "openGroups (snd (newListener a (setLgrp a (initBase gname key p (lgrp a ctl)) (ctl\<lparr>resource := r\<rparr>)))) = insert p (openGroups ctl)"
proof -
  have a: "a < length (gstore (ctl\<lparr>resource := r\<rparr>))" using assms(1) by simp
  have "lgrp b (setLgrp a (initBase gname key p (lgrp a ctl)) (ctl\<lparr>resource := r\<rparr>)) =
      (if b = a then initBase gname key p (lgrp a ctl) else lgrp b ctl)" for b
    using lgrp_simps(5) [OF a] by simp
  then show ?thesis using assms
    by (subst openGroups_newListener) (auto simp: openGroups_iff initBase_def)
qed

lemma getOrCreate_open:
  assumes "registryGetOrCreate p gname ctl = (a, ctl')"
  shows "openGroups ctl' = openGroups ctl" "openLns ctl' = openLns ctl" "resource ctl' = resource ctl" "registry ctl' gname = Some a"
  using assms by (auto simp: registryGetOrCreate_def Let_def openGroups_def openLns_def newGroup_def split: option.splits)

lemma openGroups_keys: "k ` openGroups ctl = {k (bparams (lgrp b ctl)) |b. b < length (gstore ctl) \<and> lns (lgrp b ctl) \<noteq> []}"
  by (auto simp: openGroups_iff image_iff Bex_def) blast

context keyed_groups
begin

lemma ctlListen_cok:
  assumes "cok ctl" "fitting c (resource ctl)"
  shows "cok (snd (ctlListen listen p0 gname k c ctl))"
proof -
  obtain a ctl1 where g: "registryGetOrCreate p0 gname ctl = (a, ctl1)" by fastforce
  note o = getOrCreate_open [OF g] and ck = cok_getOrCreate [OF assms(1) g]
  have "allowed c (openGroups ctl1) (resource ctl1)"
    by (rule fitting_allowed) (use assms(2) group_keys [OF assms(1)] o in auto)
  with ck cok_listen show ?thesis by (simp add: ctlListen_def g)
qed

lemma scheme_gets:
  assumes "cok ctl" "fitting c (resource ctl)" "registry ctl gname = Some a"
    and "groupListen acquire mismatch a gname k c ctl = (Inr l, ctl')"
  shows "l \<notin> openLns ctl \<and> openLns ctl' = insert l (openLns ctl) \<and> ownKeys key keys ctl' = ownKeys key keys ctl"
proof -
  have a: "a < length (gstore ctl)" by (rule cokD(2) [OF assms(1,3)])
  note cl = cokD(7) [OF assms(1)]
  show ?thesis
  proof (cases "lns (lgrp a ctl) = []")
    case True
    obtain p r where ac: "acquire c (resource ctl) = (Inr p, r)"
      and n: "newListener a (setLgrp a (initBase gname k p (lgrp a ctl)) (ctl\<lparr>resource := r\<rparr>)) = (l, ctl')"
      using assms(3,4) True by (auto simp: groupListen_def split: prod.splits sum.splits)
    have "resource ctl' = r" using arg_cong [OF n, of "\<lambda>x. resource (snd x)"] by (simp add: newListener_def Let_def)
    with openGroups_first [OF a True, of gname k p r] n acquire_gets [OF cokD(1) [OF assms(1)] assms(2) ac]
    have "ownKeys key keys ctl' = ownKeys key keys ctl" by (auto simp: ownKeys_def)
    moreover have "l \<notin> openLns ctl \<and> openLns ctl' = insert l (openLns ctl)"
      using openLns_newListener [of "setLgrp a (initBase gname k p (lgrp a ctl)) (ctl\<lparr>resource := r\<rparr>)" a] cl n by simp
    ultimately show ?thesis by simp
  next
    case False
    have n: "newListener a ctl = (l, ctl')"
      using assms(3,4) False by (auto simp: groupListen_def split: if_splits option.splits prod.splits)
    have "resource ctl' = resource ctl" using arg_cong [OF n, of "\<lambda>x. resource (snd x)"] by (simp add: newListener_def Let_def)
    with openGroups_join [OF a False] openLns_newListener [of ctl a, OF cl] n show ?thesis by (simp add: ownKeys_def)
  qed
qed

lemma scheme_fails:
  assumes "cok ctl" "fitting c (resource ctl)" "groupListen acquire mismatch a gname k c ctl = (Inl e, ctl')"
  shows "openLns ctl' = openLns ctl \<and> ownKeys key keys ctl' = ownKeys key keys ctl"
proof (cases "ctl' = ctl")
  case False
  obtain e' r where ac: "acquire c (resource ctl) = (Inl e', r)" "ctl' = ctl\<lparr>resource := r\<rparr>"
    using assms(3) False by (auto simp: groupListen_def split: if_splits option.splits prod.splits sum.splits)
  with acquire_fails [OF cokD(1) [OF assms(1)] assms(2) ac(1)] show ?thesis by (simp add: ownKeys_def)
qed simp

lemma ctlListen_scheme:
  assumes "ctlListen listen p0 gname k c ctl = (x, ctl')" "cok ctl"
  obtains a ctl1 where "cok ctl1" "registry ctl1 gname = Some a" "openLns ctl1 = openLns ctl" "resource ctl1 = resource ctl"
    "ownKeys key keys ctl1 = ownKeys key keys ctl" "groupListen acquire mismatch a gname k c ctl1 = (map_sum id ln x, ctl')"
proof -
  obtain a ctl1 where g: "registryGetOrCreate p0 gname ctl = (a, ctl1)" by fastforce
  note o = getOrCreate_open [OF g] and ck = cok_getOrCreate [OF assms(2) g]
  have l: "listen a gname k c ctl1 = (x, ctl')" using assms(1) by (simp add: ctlListen_def g)
  with listen_scheme [of a gname k c ctl1] listen_result [of a gname k c ctl1]
  have "groupListen acquire mismatch a gname k c ctl1 = (map_sum id ln x, ctl')" by (metis fst_conv snd_conv prod.collapse)
  with o ck show thesis by (intro that [of ctl1 a]) (auto simp: ownKeys_def)
qed

lemma ctlListen_gets:
  assumes "cok ctl" "fitting c (resource ctl)" "ctlListen listen p0 gname k c ctl = (Inr x, ctl')"
  shows "ln x \<notin> openLns ctl \<and> openLns ctl' = insert (ln x) (openLns ctl) \<and> ownKeys key keys ctl' = ownKeys key keys ctl"
  using assms(3,1) by (rule ctlListen_scheme) (use scheme_gets assms(2) in fastforce)

lemma ctlListen_fails:
  assumes "cok ctl" "fitting c (resource ctl)" "ctlListen listen p0 gname k c ctl = (Inl e, ctl')"
  shows "openLns ctl' = openLns ctl \<and> ownKeys key keys ctl' = ownKeys key keys ctl"
  using assms(3,1) by (rule ctlListen_scheme) (use scheme_fails assms(2) in fastforce)

lemma ctlListen_current:
  assumes "cok ctl"
  shows "fst (ctlListen listen p0 gname k c ctl) = Inl GroupStale \<Longrightarrow> \<exists>p. mismatch p c = Some GroupStale"
proof -
  assume st: "fst (ctlListen listen p0 gname k c ctl) = Inl GroupStale"
  obtain x ctl' where l: "ctlListen listen p0 gname k c ctl = (x, ctl')" by fastforce
  then show ?thesis using assms
    by (rule ctlListen_scheme)
       (use st l in \<open>auto simp: groupListen_def split: if_splits option.splits prod.splits sum.splits\<close>)
qed

lemma close_open:
  assumes "cok ctl" "l \<in> openLns ctl"
  shows "openLns (closeListener (release t) l ctl) = openLns ctl - {l}"
    "ownKeys key keys (closeListener (release t) l ctl) = ownKeys key keys ctl"
proof -
  define a where "a = lnGroup ctl ! l"
  have l: "l < length (lnGroup ctl)" "l \<notin> closedLns ctl" using assms(2) by (auto simp: openLns_def)
  have a: "a < length (gstore ctl)" "l \<in> set (lns (lgrp a ctl))" using cokD(5,6) [OF assms(1) l(1)] l(2) by (simp_all add: a_def)
  let ?c = "closeListener (release t) l ctl" and ?g = "(lgrp a ctl)\<lparr>lns := remove1 l (lns (lgrp a ctl))\<rparr>"
  let ?p = "bparams (lgrp a ctl)" and ?last = "remove1 l (lns (lgrp a ctl)) = []"
  have f: "lnGroup ?c = lnGroup ctl" "closedLns ?c = insert l (closedLns ctl)" "length (gstore ?c) = length (gstore ctl)"
    "resource ?c = (if ?last then release t ?p (resource ctl) else resource ctl)"
    by (simp_all add: closeListener_def Let_def a_def)
  have n: "lns (lgrp b ?c) = (if b = a then remove1 l (lns (lgrp a ctl)) else lns (lgrp b ctl)) \<and> bparams (lgrp b ?c) = bparams (lgrp b ctl)" for b
    using a(1) by (simp add: closeListener_def Let_def a_def lgrp_def setLgrp_def)
  show "openLns ?c = openLns ctl - {l}" using l by (auto simp: openLns_def f)
  have G: "key ` openGroups ?c = (if ?last then key ` openGroups ctl - {key ?p} else key ` openGroups ctl)"
  proof (cases ?last)
    case True
    have ne: "lns (lgrp a ctl) \<noteq> []" using a(2) by auto
    have "key (bparams (lgrp b ctl)) \<noteq> key ?p" if "b < length (gstore ctl)" "b \<noteq> a" "lns (lgrp b ctl) \<noteq> []" for b
      using cokD(4) [OF assms(1) that(1) a(1) that(2,3) ne] by (simp add: clash_key)
    with True show ?thesis unfolding openGroups_keys by (auto simp: f n split: if_splits) metis
  next
    case False
    then have "lns (lgrp b ?c) \<noteq> [] \<longleftrightarrow> lns (lgrp b ctl) \<noteq> []" for b using a(2) by (auto simp: n)
    with False show ?thesis unfolding openGroups_keys by (simp add: f n)
  qed
  have "?p \<in> openGroups ctl" using a by (auto simp: openGroups_iff)
  then show "ownKeys key keys ?c = ownKeys key keys ctl"
    using release_key [OF cokD(1) [OF assms(1)], of t ?p] by (auto simp: ownKeys_def G f)
qed

end

section \<open>HTTP groups and single HTTP routes\<close>

text \<open>The controller's \<^verbatim>\<open>Register\<close> and \<^verbatim>\<open>UnRegister\<close> with nobody in between, and those of \<^verbatim>\<open>HTTPReverseProxy\<close>
  for a proxy without a group.\<close>

definition ctlRegister :: "string \<Rightarrow> string \<Rightarrow> string \<Rightarrow> route_config \<Rightarrow> HTTPGroupController \<Rightarrow> (group_error + unit) \<times> HTTPGroupController" where
  "ctlRegister name gname key rc ctl =
     (let (a, ctl1) = getOrCreate gname ctl in GroupRegister a name gname key rc ctl1)"

definition ctlUnRegister :: "string \<Rightarrow> string \<Rightarrow> HTTPGroupController \<Rightarrow> HTTPGroupController" where
  "ctlUnRegister name gname ctl =
     (case groups ctl gname of None \<Rightarrow> ctl | Some a \<Rightarrow> GroupUnRegister a name ctl)"

definition rpRegister :: "string \<Rightarrow> route_config \<Rightarrow> HTTPGroupController \<Rightarrow> (router_error + unit) \<times> HTTPGroupController" where
  "rpRegister name rc ctl =
     (case RoutersAdd (Domain rc) (Location rc) (RouteByHTTPUser rc) (HProxy name) (vhostRouter ctl) of
        (Inl e, r) \<Rightarrow> (Inl e, ctl\<lparr>vhostRouter := r\<rparr>)
      | (Inr _, r) \<Rightarrow> (Inr (), ctl\<lparr>vhostRouter := r\<rparr>))"

definition rpUnRegister :: "route_config \<Rightarrow> HTTPGroupController \<Rightarrow> HTTPGroupController" where
  "rpUnRegister rc ctl = ctl\<lparr>vhostRouter := RoutersDel (Domain rc) (Location rc) (RouteByHTTPUser rc) (vhostRouter ctl)\<rparr>"

definition routeKey :: "route_config \<Rightarrow> string \<times> string \<times> string" where
  "routeKey rc = (ToLower (Domain rc), RouteByHTTPUser rc, Location rc)"

text \<open>The routes of single proxies, and who is in which group.\<close>

definition ownRoutes :: "HTTPGroupController \<Rightarrow> (string \<times> string \<times> string) set" where
  "ownRoutes ctl = {k. \<exists>n. route_table (vhostRouter ctl) k = Some (HProxy n)}"

definition hmembers :: "HTTPGroupController \<Rightarrow> (string \<times> string) set" where
  "hmembers ctl = {(hgroup (grp a ctl), n) |a n. a < length (hstore ctl) \<and> n \<in> set (pxyNames (grp a ctl))}"

lemma hmembers_router [simp]: "hmembers (c\<lparr>vhostRouter := r\<rparr>) = hmembers c"
  by (simp add: hmembers_def)

lemma hmembers_group:
  assumes "ctl_ok c" "(g, n) \<in> hmembers c"
  obtains a where "groups c g = Some a" "a < length (hstore c)" "hgroup (grp a c) = g" "n \<in> set (pxyNames (grp a c))"
proof -
  from assms(2) obtain a where a: "a < length (hstore c)" "hgroup (grp a c) = g" "n \<in> set (pxyNames (grp a c))"
    by (auto simp: hmembers_def)
  then have "createFuncs (grp a c) \<noteq> []" using group_ok_empty [OF ctl_okD(2) [OF assms(1) a(1)]] by auto
  with ctl_okD(4) [OF assms(1) a(1)] a that show thesis by simp
qed

lemma hmembers_getOrCreate:
  assumes "ctl_ok c" "getOrCreate key c = (a, c')"
  shows "hmembers c' = hmembers c" "ownRoutes c' = ownRoutes c"
  using assms(2) by (auto simp: getOrCreate_def Let_def hmembers_def ownRoutes_def grp_def nth_append NewHTTPGroup_def less_Suc_eq split: option.splits if_splits)
    
lemma rpRegister_lease:
  assumes "ctl_ok c"
  shows "rpRegister name rc c = (Inr (), c') \<Longrightarrow>
      ctl_ok c' \<and> hmembers c' = hmembers c \<and> routeKey rc \<notin> ownRoutes c \<and> ownRoutes c' = insert (routeKey rc) (ownRoutes c)"
    "rpRegister name rc c = (Inl e, c') \<Longrightarrow> ctl_ok c' \<and> hmembers c' = hmembers c \<and> ownRoutes c' = ownRoutes c"
proof -
  note rk = ctl_okD(1) [OF assms]
  obtain x r where ad: "RoutersAdd (Domain rc) (Location rc) (RouteByHTTPUser rc) (HProxy name) (vhostRouter c) = (x, r)" by fastforce
  have r: "routers_ok r" using routes.add_wf [OF rk, of "Domain rc" "Location rc" "RouteByHTTPUser rc" "HProxy name"] ad by simp
  have t: "route_table r = (if route_table (vhostRouter c) (routeKey rc) = None then (route_table (vhostRouter c))(routeKey rc \<mapsto> HProxy name) else route_table (vhostRouter c))"
    using routes.add_table [OF rk, of "Domain rc" "RouteByHTTPUser rc" "Location rc" "HProxy name"]
      routes.add_conflict [OF rk, of "Domain rc" "RouteByHTTPUser rc" "Location rc" "HProxy name"] ad by (auto simp: routeKey_def)
  have x: "x = Inr () \<longleftrightarrow> route_table (vhostRouter c) (routeKey rc) = None"
    using routes.add_ok_iff [OF rk, of "Domain rc" "Location rc" "RouteByHTTPUser rc" "HProxy name"] ad by (cases x) (auto simp: routeKey_def)
  have c: "ctl_ok (c\<lparr>vhostRouter := r\<rparr>)" by (rule ctl_ok_router [OF assms r]) (simp add: t)
  show "rpRegister name rc c = (Inr (), c') \<Longrightarrow>
      ctl_ok c' \<and> hmembers c' = hmembers c \<and> routeKey rc \<notin> ownRoutes c \<and> ownRoutes c' = insert (routeKey rc) (ownRoutes c)"
    using c x by (cases x) (auto simp: rpRegister_def ad ownRoutes_def t)
  show "rpRegister name rc c = (Inl e, c') \<Longrightarrow> ctl_ok c' \<and> hmembers c' = hmembers c \<and> ownRoutes c' = ownRoutes c"
    using c x by (cases x) (auto simp: rpRegister_def ad ownRoutes_def t)
qed

lemma rpUnRegister_lease:
  assumes "ctl_ok c" "routeKey rc \<in> ownRoutes c"
  shows "ctl_ok (rpUnRegister rc c) \<and> hmembers (rpUnRegister rc c) = hmembers c \<and> ownRoutes (rpUnRegister rc c) = ownRoutes c - {routeKey rc}"
proof -
  define r where "r = RoutersDel (Domain rc) (Location rc) (RouteByHTTPUser rc) (vhostRouter c)"
  have r: "routers_ok r" "route_table r = (route_table (vhostRouter c))(routeKey rc := None)"
    unfolding r_def using routes.del_wf [OF ctl_okD(1) [OF assms(1)]] routes.del_table [OF ctl_okD(1) [OF assms(1)]]
    by (simp_all add: routeKey_def)
  have "ctl_ok (c\<lparr>vhostRouter := r\<rparr>)" by (rule ctl_ok_router [OF assms(1) r(1)]) (use assms(2) in \<open>auto simp: r(2) ownRoutes_def\<close>)
  then show ?thesis by (auto simp: rpUnRegister_def r_def [symmetric] ownRoutes_def r(2))
qed

lemma ctlRegister_gets:
  assumes "ctl_ok c" "ctlRegister name gname key rc c = (Inr (), c')"
  shows "ctl_ok c' \<and> ownRoutes c' = ownRoutes c \<and> (gname, name) \<notin> hmembers c \<and> hmembers c' = insert (gname, name) (hmembers c)"
proof -
  obtain a c1 where g: "getOrCreate gname c = (a, c1)" by fastforce
  note o = getOrCreate_ok [OF assms(1) g] and h = hmembers_getOrCreate [OF assms(1) g]
  then have c1: "ctl_ok c1" "a < length (hstore c1)" "groups c1 gname = Some a" by auto
  have r: "GroupRegister a name gname key rc c1 = (Inr (), c')" using assms(2) by (simp add: ctlRegister_def g)
  note k = GroupRegister_ok [OF c1(1,2) r]
  from c1(1,2) r show ?thesis
  proof (rule GroupRegister_Inr)
    fix gr r'
    assume c': "c' = setGrp a gr (c1\<lparr>vhostRouter := r'\<rparr>)"
      and rt: "route_table r' = (route_table (vhostRouter c1))(route_of gr \<mapsto> HGroup a)"
      and old: "createFuncs (grp a c1) \<noteq> [] \<Longrightarrow> route_of gr = route_of (grp a c1)"
      and new: "createFuncs (grp a c1) = [] \<Longrightarrow> route_table (vhostRouter c1) (route_of gr) = None"
      and gr: "group_ok gr" "createFuncs gr \<noteq> []" "hgroup gr = gname" "groups c1 gname = Some a"
      and nm: "pxyNames gr = pxyNames (grp a c1) @ [name]"
    have a: "a < length (hstore (c1\<lparr>vhostRouter := r'\<rparr>))" using c1(2) by simp
    have G: "grp b c' = (if b = a then gr else grp b c1)" for b unfolding c' using grp_setGrp [OF a] by simp
    have len: "length (hstore c') = length (hstore c1)" by (simp add: c')
    have "\<forall>n. route_table (vhostRouter c1) (route_of gr) \<noteq> Some (HProxy n)"
      using old new ctl_okD(4) [OF c1(1,2)] by (cases "createFuncs (grp a c1) = []") auto
    then have O: "ownRoutes c' = ownRoutes c1" by (auto simp: ownRoutes_def c' rt)
    have own: "hgroup (grp b c1) \<noteq> gname" if "b < length (hstore c1)" "b \<noteq> a" "n \<in> set (pxyNames (grp b c1))" for b n
    proof -
      have "createFuncs (grp b c1) \<noteq> []" using that group_ok_empty [OF ctl_okD(2) [OF c1(1) that(1)]] by auto
      with ctl_okD(4) [OF c1(1) that(1)] c1(3) that(2) show ?thesis by auto
    qed
    have same: "hgroup (grp a c1) = gname" if "n \<in> set (pxyNames (grp a c1))" for n
    proof -
      have "createFuncs (grp a c1) \<noteq> []" using that group_ok_empty [OF ctl_okD(2) [OF c1(1,2)]] by auto
      with r c1(3) show ?thesis by (auto simp: GroupRegister_def isCurrent_def Let_def split: if_splits)
    qed
    have fresh: "name \<notin> set (pxyNames (grp a c1))" using gr(1) nm by (auto simp: group_ok_def)
    have "hmembers c' = insert (gname, name) (hmembers c1)"
      using c1(2) same by (auto simp: hmembers_def G len nm gr(3) split: if_splits) metis+
    moreover have "(gname, name) \<notin> hmembers c1" using own fresh by (auto simp: hmembers_def)
    ultimately show ?thesis using k O h by simp
  qed
qed

lemma ctlRegister_fails:
  assumes "ctl_ok c" "ctlRegister name gname key rc c = (Inl e, c')"
  shows "ctl_ok c' \<and> ownRoutes c' = ownRoutes c \<and> hmembers c' = hmembers c"
proof -
  obtain a c1 where g: "getOrCreate gname c = (a, c1)" by fastforce
  note o = getOrCreate_ok [OF assms(1) g] and h = hmembers_getOrCreate [OF assms(1) g]
  then have "c' = c1" using GroupRegister_Inl [of c1 a name gname key rc e] assms(2) by (simp add: ctlRegister_def g)
  with o h show ?thesis by simp
qed

lemma ctlRegister_current: "ctl_ok c \<Longrightarrow> fst (ctlRegister name gname key rc c) \<noteq> Inl errGroupStale"
proof -
  assume c: "ctl_ok c"
  obtain a c1 where g: "getOrCreate gname c = (a, c1)" by fastforce
  have "groups c1 gname = Some a" using getOrCreate_ok [OF c g] by simp
  then show ?thesis
    by (auto simp: ctlRegister_def g GroupRegister_def isCurrent_def joinGroup_def Let_def split: prod.splits sum.splits)
qed

lemma ctlUnRegister_lease:
  assumes "ctl_ok c" "(gname, name) \<in> hmembers c"
  shows "ctl_ok (ctlUnRegister name gname c) \<and> ownRoutes (ctlUnRegister name gname c) = ownRoutes c \<and>
     hmembers (ctlUnRegister name gname c) = hmembers c - {(gname, name)}"
proof -
  obtain a where a: "groups c gname = Some a" "a < length (hstore c)" "hgroup (grp a c) = gname" "name \<in> set (pxyNames (grp a c))"
    using hmembers_group [OF assms] by blast
  have ne: "createFuncs (grp a c) \<noteq> []" using a(4) group_ok_empty [OF ctl_okD(2) [OF assms(1) a(2)]] by auto
  note u = GroupUnRegister_ok [OF assms(1) a(2,4)] and g4 = ctl_okD(4) [OF assms(1) a(2) ne]
  let ?c = "GroupUnRegister a name c"
  have hg: "hgroup (grp b ?c) = hgroup (grp b c)" for b
    using a(2) by (simp add: GroupUnRegister_def Let_def)
  have dist: "distinct (pxyNames (grp a c))" using ctl_okD(2) [OF assms(1) a(2)] by (simp add: group_ok_def)
  have own: "hgroup (grp b c) \<noteq> gname" if "b < length (hstore c)" "b \<noteq> a" "n \<in> set (pxyNames (grp b c))" for b n
  proof -
    have "createFuncs (grp b c) \<noteq> []" using that group_ok_empty [OF ctl_okD(2) [OF assms(1) that(1)]] by auto
    with ctl_okD(4) [OF assms(1) that(1)] a(1) that(2) show ?thesis by auto
  qed
  have "hmembers ?c = {(hgroup (grp b c), n) |b n. b < length (hstore c) \<and>
      n \<in> (if b = a then set (pxyNames (grp b c)) - {name} else set (pxyNames (grp b c)))}"
    using u dist by (auto simp: hmembers_def hg)
  also have "\<dots> = hmembers c - {(gname, name)}"
    using own a(3) by (auto simp: hmembers_def split: if_splits) metis+
  finally have M: "hmembers ?c = hmembers c - {(gname, name)}" .
  have "vhostRouter ?c = vhostRouter c \<or> route_table (vhostRouter ?c) = (route_table (vhostRouter c))(route_of (grp a c) := None)"
    using routes.del_table [OF ctl_okD(1) [OF assms(1)]] by (auto simp: GroupUnRegister_def Let_def route_of_def)
  then have "ownRoutes ?c = ownRoutes c" using g4 by (auto simp: ownRoutes_def split: if_splits)
  with M u a(1) show ?thesis by (simp add: ctlUnRegister_def)
qed

section \<open>Ports\<close>

text \<open>What is known of the operating system: a port that is in use cannot be bound again.  The order is an iteration of
  the free ports, and the ports of the configuration are positive.\<close>

definition portFit :: "ports_range list \<Rightarrow> tcp_call \<Rightarrow> manager \<Rightarrow> bool" where
  "portFit allow c pm \<longleftrightarrow> (\<forall>p\<in>allowed_ports allow. 0 < p) \<and> set (order c) = freePorts pm \<and> (\<forall>p. usedPorts pm p \<noteq> None \<longrightarrow> \<not> avail c p \<and> \<not> listenOk c p)"

lemma Acquire_lease:
  assumes "inv (allowed_ports allow) pm" "portFit allow c pm" "Acquire (avail c) (now c) (order c) name port pm = (x, pm')"
  shows "inv (allowed_ports allow) pm' \<and> (case x of Inl e \<Rightarrow> pm' = pm
     | Inr p \<Rightarrow> p \<notin> dom (usedPorts pm) \<and> dom (usedPorts pm') = insert p (dom (usedPorts pm)))"
proof -
  have i: "inv (allowed_ports allow) pm" "\<forall>p\<in>allowed_ports allow. 0 < p" "set (order c) = freePorts pm"
    "\<And>p. avail c p \<Longrightarrow> usedPorts pm p = None"
    using assms(1,2) by (auto simp: portFit_def)
  have k: "inv (allowed_ports allow) pm'" using inv_Acquire [OF i(1,3)] assms(3) by (metis snd_conv)
  show ?thesis
  proof (cases rule: Acquire_cases [of "avail c" "now c" "order c" name port pm])
    case (refused e)
    with assms(3) k show ?thesis by auto
  next
    case (granted p r)
    have "p \<in> allowed_ports allow" using granted(5) reservedPort_Some [OF i(1)] i(3) invD(2) [OF i(1)] by blast
    with i(2) granted(2) have "r = Inr p" by auto
    with granted assms(3) i(4) [OF granted(3)] k show ?thesis by (auto simp: markPortAcquiredLocked_def Let_def)
  qed
qed

lemma Release_lease: "inv A pm \<Longrightarrow> inv A (Release t p pm) \<and> dom (usedPorts (Release t p pm)) = dom (usedPorts pm) - {p}"
  by (auto simp: inv_Release Release_used)

lemma tcpAcquire_lease:
  assumes "inv (allowed_ports allow) pm" "portFit allow c pm" "tcpAcquire c pm = (x, pm')"
  shows "inv (allowed_ports allow) pm' \<and> (case x of Inl e \<Rightarrow> dom (usedPorts pm') = dom (usedPorts pm)
     | Inr p \<Rightarrow> realPort p \<notin> dom (usedPorts pm) \<and> dom (usedPorts pm') = insert (realPort p) (dom (usedPorts pm)))"
proof -
  obtain y pm1 where a: "Acquire (avail c) (now c) (order c) (proxyName c) (cport c) pm = (y, pm1)" by fastforce
  note l = Acquire_lease [OF assms(1,2) a]
  show ?thesis
  proof (cases y)
    case (Inl e)
    with a l assms(3) show ?thesis by (auto simp: tcpAcquire_def)
  next
    case (Inr p)
    with a l assms(3) Release_lease [of "allowed_ports allow" pm1 "now c" p] show ?thesis by (auto simp: tcpAcquire_def split: if_splits)
  qed
qed

interpretation tcp_ports: keyed_groups tcpAcquire tcpCleanup perform "inv (allowed_ports allow)"
  "\<lambda>p pm. usedPorts pm (realPort p) \<noteq> None" "\<lambda>p q. realPort p = realPort q" tcpAllowed tcpEnvOk
  TCPGroupListen tcpMismatch noTcp "NewManager allow" realPort "\<lambda>pm. dom (usedPorts pm)" "portFit allow" fst for allow
proof unfold_locales
  fix r c p r'
  assume "inv (allowed_ports allow) r" "portFit allow c r" "tcpAcquire c r = (Inr p, r')"
  from tcpAcquire_lease [OF this]
  show "realPort p \<notin> dom (usedPorts r) \<and> dom (usedPorts r') = insert (realPort p) (dom (usedPorts r))" by simp
next
  fix r c e r'
  assume "inv (allowed_ports allow) r" "portFit allow c r" "tcpAcquire c r = (Inl e, r')"
  from tcpAcquire_lease [OF this] show "dom (usedPorts r') = dom (usedPorts r)" by simp
next
  fix a gname k c ctl
  show "map_sum id fst (fst (TCPGroupListen a gname k c ctl)) = fst (groupListen tcpAcquire tcpMismatch a gname k c ctl)"
    by (auto simp: TCPGroupListen_def groupListen_def tcpAcquire_def tcpMismatch_def Let_def split_beta split: sum.splits prod.splits)
next
  fix c r and B :: "tcp_params set"
  assume f: "portFit allow c r" "\<And>q. q \<in> B \<Longrightarrow> realPort q \<in> dom (usedPorts r)"
  have "\<not> avail c (realPort q) \<and> \<not> listenOk c (realPort q)" if "q \<in> B" for q
    using f(1) f(2) [OF that] by (auto simp: portFit_def)
  with f(1) show "tcpAllowed c B r" by (simp add: portFit_def tcpAllowed_def)
qed (auto simp: tcpCleanup_def Release_used)

interpretation https_routes: keyed_groups MuxerListen "\<lambda>t. MuxListenerClose" muxPerform routers_ok
  "\<lambda>p r. route_table r (muxKey p) \<noteq> None" "\<lambda>p q. muxKey p = muxKey q" "\<lambda>c B r. True" muxEnvOk
  HTTPSGroupListen httpsMismatch noMux NewRouters muxKey "\<lambda>r. dom (route_table r)" "\<lambda>c r. True" id
proof unfold_locales
  fix r :: "mux_params routers" and c p r'
  assume r: "routers_ok r" "MuxerListen c r = (Inr p, r')"
  with MuxerListen_table(3) [OF r(1), of c p] MuxerListen_table(2) [OF r(1), of c]
  show "muxKey p \<notin> dom (route_table r) \<and> dom (route_table r') = insert (muxKey p) (dom (route_table r))" by auto
next
  fix r :: "mux_params routers" and c e r'
  assume r: "routers_ok r" "MuxerListen c r = (Inl e, r')"
  with MuxerListen_table(3) [OF r(1), of c c] MuxerListen_table(2) [OF r(1), of c]
  show "dom (route_table r') = dom (route_table r)" by auto
next
  fix a gname k c ctl
  show "map_sum id id (fst (HTTPSGroupListen a gname k c ctl)) = fst (groupListen MuxerListen httpsMismatch a gname k c ctl)"
    by (auto simp: HTTPSGroupListen_def groupListen_def httpsMismatch_def Let_def split_beta sum.map_id split: sum.splits prod.splits)
qed (auto simp: MuxListenerClose_table)

interpretation tcpmux_routes: keyed_groups MuxerListen "\<lambda>t. MuxListenerClose" muxPerform routers_ok
  "\<lambda>p r. route_table r (muxKey p) \<noteq> None" "\<lambda>p q. muxKey p = muxKey q" "\<lambda>c B r. True" muxEnvOk
  HTTPConnectListen tcpmuxMismatch noMux NewRouters muxKey "\<lambda>r. dom (route_table r)" "\<lambda>c r. True" id
proof unfold_locales
  fix a gname k c ctl
  show "map_sum id id (fst (HTTPConnectListen a gname k c ctl)) = fst (groupListen MuxerListen tcpmuxMismatch a gname k c ctl)"
    by (auto simp: HTTPConnectListen_def groupListen_def tcpmuxMismatch_def Let_def split_beta sum.map_id split: sum.splits prod.splits)
qed (use https_routes.acquire_gets https_routes.acquire_fails https_routes.release_key in auto)

section \<open>The resource controller\<close>

text \<open>
  \<^verbatim>\<open>server/controller/resource.go\<close>.  The TCP port manager is the resource of the TCP groups, the muxers are the
  resources of the HTTPS and TCPMux groups, and the router of \<^verbatim>\<open>HTTPReverseProxy\<close> is that of the HTTP groups.
\<close>

record ResourceController =
  TCPGroupCtl :: "(tcp_params, manager) groupCtl"
  UDPPortManager :: manager
  HTTPGroupCtl :: HTTPGroupController
  HTTPSGroupCtl :: "(mux_params, mux_params routers) groupCtl"
  TCPMuxGroupCtl :: "(mux_params, mux_params routers) groupCtl"
  VisitorManager :: visitorManager
  NatHoleController :: "Controller option"

definition NewResourceController :: "ports_range list \<Rightarrow> Controller option \<Rightarrow> ResourceController" where
  "NewResourceController allow nhc =
     \<lparr>TCPGroupCtl = newCtl (NewManager allow), UDPPortManager = NewManager allow, HTTPGroupCtl = NewHTTPGroupController,
      HTTPSGroupCtl = newCtl NewRouters, TCPMuxGroupCtl = newCtl NewRouters, VisitorManager = NewVisitorManager,
      NatHoleController = nhc\<rparr>"

text \<open>What a proxy asks for, one request per call, and what it holds afterwards.\<close>

datatype resourceRequest =
    RTcp tcp_call
  | RTcpGroup string string tcp_call
  | RUdp tcp_call
  | RHttp string route_config
  | RHttpGroup string string string route_config
  | RHttps mux_params
  | RHttpsGroup string string mux_params
  | RMux mux_params
  | RMuxGroup string string mux_params
  | RVisitor string string "string list"
  | RNat string string "string list"

datatype held =
    TcpPort int | TcpLn nat int | UdpPort int
  | HttpRoute route_config | HttpMember string string
  | HttpsRoute mux_params | HttpsLn nat
  | MuxRoute mux_params | MuxLn nat
  | VisitorLn string nat | NatClient string

datatype run_error =
    TcpErr tcp_error | TcpGroupErr "tcp_error lgroup_error" | UdpErr tcp_error
  | HttpErr router_error | HttpGroupErr group_error
  | MuxErr router_error | MuxGroupErr "router_error lgroup_error"
  | UnknownMultiplexer string | VisitorErr visitor_error | NatErr string | XtcpUnsupported

fun takeRes :: "resourceRequest \<Rightarrow> ResourceController \<Rightarrow> (run_error + held) \<times> ResourceController" where
  "takeRes (RTcp c) rc =
     (case tcpAcquire c (resource (TCPGroupCtl rc)) of
        (Inl e, pm) \<Rightarrow> (Inl (TcpErr e), rc\<lparr>TCPGroupCtl := (TCPGroupCtl rc)\<lparr>resource := pm\<rparr>\<rparr>)
      | (Inr p, pm) \<Rightarrow> (Inr (TcpPort (realPort p)), rc\<lparr>TCPGroupCtl := (TCPGroupCtl rc)\<lparr>resource := pm\<rparr>\<rparr>))"
| "takeRes (RTcpGroup g k c) rc =
     (case ctlListen TCPGroupListen noTcp g k c (TCPGroupCtl rc) of
        (Inl e, ctl) \<Rightarrow> (Inl (TcpGroupErr e), rc\<lparr>TCPGroupCtl := ctl\<rparr>)
      | (Inr (l, port), ctl) \<Rightarrow> (Inr (TcpLn l port), rc\<lparr>TCPGroupCtl := ctl\<rparr>))"
| "takeRes (RUdp c) rc =
     (case tcpAcquire c (UDPPortManager rc) of
        (Inl e, pm) \<Rightarrow> (Inl (UdpErr e), rc\<lparr>UDPPortManager := pm\<rparr>)
      | (Inr p, pm) \<Rightarrow> (Inr (UdpPort (realPort p)), rc\<lparr>UDPPortManager := pm\<rparr>))"
| "takeRes (RHttp name r) rc =
     (case rpRegister name r (HTTPGroupCtl rc) of
        (Inl e, ctl) \<Rightarrow> (Inl (HttpErr e), rc\<lparr>HTTPGroupCtl := ctl\<rparr>)
      | (Inr _, ctl) \<Rightarrow> (Inr (HttpRoute r), rc\<lparr>HTTPGroupCtl := ctl\<rparr>))"
| "takeRes (RHttpGroup name g k r) rc =
     (case ctlRegister name g k r (HTTPGroupCtl rc) of
        (Inl e, ctl) \<Rightarrow> (Inl (HttpGroupErr e), rc\<lparr>HTTPGroupCtl := ctl\<rparr>)
      | (Inr _, ctl) \<Rightarrow> (Inr (HttpMember g name), rc\<lparr>HTTPGroupCtl := ctl\<rparr>))"
| "takeRes (RHttps p) rc =
     (case MuxerListen p (resource (HTTPSGroupCtl rc)) of
        (Inl e, r) \<Rightarrow> (Inl (MuxErr e), rc\<lparr>HTTPSGroupCtl := (HTTPSGroupCtl rc)\<lparr>resource := r\<rparr>\<rparr>)
      | (Inr l, r) \<Rightarrow> (Inr (HttpsRoute l), rc\<lparr>HTTPSGroupCtl := (HTTPSGroupCtl rc)\<lparr>resource := r\<rparr>\<rparr>))"
| "takeRes (RHttpsGroup g k p) rc =
     (case ctlListen HTTPSGroupListen noMux g k p (HTTPSGroupCtl rc) of
        (Inl e, ctl) \<Rightarrow> (Inl (MuxGroupErr e), rc\<lparr>HTTPSGroupCtl := ctl\<rparr>)
      | (Inr l, ctl) \<Rightarrow> (Inr (HttpsLn l), rc\<lparr>HTTPSGroupCtl := ctl\<rparr>))"
| "takeRes (RMux p) rc =
     (case MuxerListen p (resource (TCPMuxGroupCtl rc)) of
        (Inl e, r) \<Rightarrow> (Inl (MuxErr e), rc\<lparr>TCPMuxGroupCtl := (TCPMuxGroupCtl rc)\<lparr>resource := r\<rparr>\<rparr>)
      | (Inr l, r) \<Rightarrow> (Inr (MuxRoute l), rc\<lparr>TCPMuxGroupCtl := (TCPMuxGroupCtl rc)\<lparr>resource := r\<rparr>\<rparr>))"
| "takeRes (RMuxGroup g k p) rc =
     (case ctlListen HTTPConnectListen noMux g k p (TCPMuxGroupCtl rc) of
        (Inl e, ctl) \<Rightarrow> (Inl (MuxGroupErr e), rc\<lparr>TCPMuxGroupCtl := ctl\<rparr>)
      | (Inr l, ctl) \<Rightarrow> (Inr (MuxLn l), rc\<lparr>TCPMuxGroupCtl := ctl\<rparr>))"
| "takeRes (RVisitor name key users) rc =
     (case visitorListen name key users (VisitorManager rc) of
        (Inl e, vm) \<Rightarrow> (Inl (VisitorErr e), rc\<lparr>VisitorManager := vm\<rparr>)
      | (Inr l, vm) \<Rightarrow> (Inr (VisitorLn name l), rc\<lparr>VisitorManager := vm\<rparr>))"
| "takeRes (RNat name key users) rc =
     (case NatHoleController rc of
        None \<Rightarrow> (Inl XtcpUnsupported, rc)
      | Some c \<Rightarrow>
          (case ListenClient name key users c of
             (Inl e, c1) \<Rightarrow> (Inl (NatErr e), rc\<lparr>NatHoleController := Some c1\<rparr>)
           | (Inr _, c1) \<Rightarrow> (Inr (NatClient name), rc\<lparr>NatHoleController := Some c1\<rparr>)))"

fun giveRes :: "int \<Rightarrow> held \<Rightarrow> ResourceController \<Rightarrow> ResourceController" where
  "giveRes t (TcpPort p) rc = rc\<lparr>TCPGroupCtl := (TCPGroupCtl rc)\<lparr>resource := Release t p (resource (TCPGroupCtl rc))\<rparr>\<rparr>"
| "giveRes t (TcpLn l p) rc = rc\<lparr>TCPGroupCtl := closeListener (tcpCleanup t) l (TCPGroupCtl rc)\<rparr>"
| "giveRes t (UdpPort p) rc = rc\<lparr>UDPPortManager := Release t p (UDPPortManager rc)\<rparr>"
| "giveRes t (HttpRoute r) rc = rc\<lparr>HTTPGroupCtl := rpUnRegister r (HTTPGroupCtl rc)\<rparr>"
| "giveRes t (HttpMember g name) rc = rc\<lparr>HTTPGroupCtl := ctlUnRegister name g (HTTPGroupCtl rc)\<rparr>"
| "giveRes t (HttpsRoute l) rc =
     rc\<lparr>HTTPSGroupCtl := (HTTPSGroupCtl rc)\<lparr>resource := MuxListenerClose l (resource (HTTPSGroupCtl rc))\<rparr>\<rparr>"
| "giveRes t (HttpsLn l) rc = rc\<lparr>HTTPSGroupCtl := closeListener MuxListenerClose l (HTTPSGroupCtl rc)\<rparr>"
| "giveRes t (MuxRoute l) rc =
     rc\<lparr>TCPMuxGroupCtl := (TCPMuxGroupCtl rc)\<lparr>resource := MuxListenerClose l (resource (TCPMuxGroupCtl rc))\<rparr>\<rparr>"
| "giveRes t (MuxLn l) rc = rc\<lparr>TCPMuxGroupCtl := closeListener MuxListenerClose l (TCPMuxGroupCtl rc)\<rparr>"
| "giveRes t (VisitorLn name l) rc = rc\<lparr>VisitorManager := CloseListener name (closeInternal l (VisitorManager rc))\<rparr>"
| "giveRes t (NatClient name) rc = rc\<lparr>NatHoleController := map_option (CloseClient name) (NatHoleController rc)\<rparr>"

section \<open>Who holds what\<close>

text \<open>The resources of the controller.  A port or a route of a group is not one of them: the listeners of the group are.\<close>

datatype token =
    KTcpPort int | KTcpLn nat | KUdpPort int
  | KHttpRoute "string \<times> string \<times> string" | KHttpMember "string \<times> string"
  | KHttpsRoute "string \<times> string \<times> string" | KHttpsLn nat
  | KMuxRoute "string \<times> string \<times> string" | KMuxLn nat
  | KVisitor string | KNat string

fun token_of :: "held \<Rightarrow> token" where
  "token_of (TcpPort p) = KTcpPort p"
| "token_of (TcpLn l p) = KTcpLn l"
| "token_of (UdpPort p) = KUdpPort p"
| "token_of (HttpRoute r) = KHttpRoute (routeKey r)"
| "token_of (HttpMember g n) = KHttpMember (g, n)"
| "token_of (HttpsRoute p) = KHttpsRoute (muxKey p)"
| "token_of (HttpsLn l) = KHttpsLn l"
| "token_of (MuxRoute p) = KMuxRoute (muxKey p)"
| "token_of (MuxLn l) = KMuxLn l"
| "token_of (VisitorLn n l) = KVisitor n"
| "token_of (NatClient n) = KNat n"

definition muxOwn :: "(mux_params, mux_params routers) groupCtl \<Rightarrow> (string \<times> string \<times> string) set" where
  "muxOwn ctl = ownKeys muxKey (\<lambda>r. dom (route_table r)) ctl"

definition tcpOwn :: "(tcp_params, manager) groupCtl \<Rightarrow> int set" where
  "tcpOwn ctl = ownKeys realPort (\<lambda>pm. dom (usedPorts pm)) ctl"

definition udpOwn :: "manager \<Rightarrow> int set" where "udpOwn pm = dom (usedPorts pm)"

definition visitorOwn :: "visitorManager \<Rightarrow> string set" where "visitorOwn vm = dom (vlisteners vm)"

definition natOwn :: "Controller option \<Rightarrow> string set" where
  "natOwn c = (case c of None \<Rightarrow> {} | Some c \<Rightarrow> dom (clientCfgs c))"

definition owned :: "ResourceController \<Rightarrow> token set" where
  "owned rc =
     KTcpPort ` tcpOwn (TCPGroupCtl rc) \<union> KTcpLn ` openLns (TCPGroupCtl rc) \<union> KUdpPort ` udpOwn (UDPPortManager rc) \<union>
     KHttpRoute ` ownRoutes (HTTPGroupCtl rc) \<union> KHttpMember ` hmembers (HTTPGroupCtl rc) \<union>
     KHttpsRoute ` muxOwn (HTTPSGroupCtl rc) \<union> KHttpsLn ` openLns (HTTPSGroupCtl rc) \<union>
     KMuxRoute ` muxOwn (TCPMuxGroupCtl rc) \<union> KMuxLn ` openLns (TCPMuxGroupCtl rc) \<union>
     KVisitor ` visitorOwn (VisitorManager rc) \<union> KNat ` natOwn (NatHoleController rc)"

definition rc_ok :: "ports_range list \<Rightarrow> ResourceController \<Rightarrow> bool" where
  "rc_ok allow rc \<longleftrightarrow> tcp_groups.cok allow (TCPGroupCtl rc) \<and> inv (allowed_ports allow) (UDPPortManager rc) \<and>
     ctl_ok (HTTPGroupCtl rc) \<and> https_groups.cok (HTTPSGroupCtl rc) \<and> tcpmux_groups.cok (TCPMuxGroupCtl rc) \<and>
     vm_ok (VisitorManager rc)"

fun reqFit :: "ports_range list \<Rightarrow> resourceRequest \<Rightarrow> ResourceController \<Rightarrow> bool" where
  "reqFit allow (RTcp c) rc \<longleftrightarrow> portFit allow c (resource (TCPGroupCtl rc))"
| "reqFit allow (RTcpGroup g k c) rc \<longleftrightarrow> portFit allow c (resource (TCPGroupCtl rc))"
| "reqFit allow (RUdp c) rc \<longleftrightarrow> portFit allow c (UDPPortManager rc)"
| "reqFit allow _ rc \<longleftrightarrow> True"

text \<open>A call took the resource of its handle, or nothing when it failed.\<close>

definition took :: "ResourceController \<Rightarrow> run_error + held \<Rightarrow> ResourceController \<Rightarrow> bool" where
  "took s x s' \<longleftrightarrow>
     (case x of Inl e \<Rightarrow> owned s' = owned s | Inr h \<Rightarrow> token_of h \<notin> owned s \<and> owned s' = insert (token_of h) (owned s))"

lemma owned_tcp:
  assumes "c = TCPGroupCtl s"
  shows "tcpOwn c' = tcpOwn c \<Longrightarrow> openLns c' = openLns c \<Longrightarrow> owned (s\<lparr>TCPGroupCtl := c'\<rparr>) = owned s"
    "tcpOwn c' = insert p (tcpOwn c) \<Longrightarrow> openLns c' = openLns c \<Longrightarrow> owned (s\<lparr>TCPGroupCtl := c'\<rparr>) = insert (KTcpPort p) (owned s)"
    "tcpOwn c' = tcpOwn c - {p} \<Longrightarrow> openLns c' = openLns c \<Longrightarrow> owned (s\<lparr>TCPGroupCtl := c'\<rparr>) = owned s - {KTcpPort p}"
    "tcpOwn c' = tcpOwn c \<Longrightarrow> openLns c' = insert l (openLns c) \<Longrightarrow> owned (s\<lparr>TCPGroupCtl := c'\<rparr>) = insert (KTcpLn l) (owned s)"
    "tcpOwn c' = tcpOwn c \<Longrightarrow> openLns c' = openLns c - {l} \<Longrightarrow> owned (s\<lparr>TCPGroupCtl := c'\<rparr>) = owned s - {KTcpLn l}"
  using assms by (auto simp: owned_def)

lemma owned_udp:
  assumes "c = UDPPortManager s"
  shows "udpOwn c' = udpOwn c \<Longrightarrow> owned (s\<lparr>UDPPortManager := c'\<rparr>) = owned s"
    "udpOwn c' = insert p (udpOwn c) \<Longrightarrow> owned (s\<lparr>UDPPortManager := c'\<rparr>) = insert (KUdpPort p) (owned s)"
    "udpOwn c' = udpOwn c - {p} \<Longrightarrow> owned (s\<lparr>UDPPortManager := c'\<rparr>) = owned s - {KUdpPort p}"
  using assms by (auto simp: owned_def)

lemma owned_http:
  assumes "c = HTTPGroupCtl s"
  shows "ownRoutes c' = ownRoutes c \<Longrightarrow> hmembers c' = hmembers c \<Longrightarrow> owned (s\<lparr>HTTPGroupCtl := c'\<rparr>) = owned s"
    "ownRoutes c' = insert k (ownRoutes c) \<Longrightarrow> hmembers c' = hmembers c \<Longrightarrow> owned (s\<lparr>HTTPGroupCtl := c'\<rparr>) = insert (KHttpRoute k) (owned s)"
    "ownRoutes c' = ownRoutes c - {k} \<Longrightarrow> hmembers c' = hmembers c \<Longrightarrow> owned (s\<lparr>HTTPGroupCtl := c'\<rparr>) = owned s - {KHttpRoute k}"
    "ownRoutes c' = ownRoutes c \<Longrightarrow> hmembers c' = insert m (hmembers c) \<Longrightarrow> owned (s\<lparr>HTTPGroupCtl := c'\<rparr>) = insert (KHttpMember m) (owned s)"
    "ownRoutes c' = ownRoutes c \<Longrightarrow> hmembers c' = hmembers c - {m} \<Longrightarrow> owned (s\<lparr>HTTPGroupCtl := c'\<rparr>) = owned s - {KHttpMember m}"
  using assms by (auto simp: owned_def)

lemma owned_https:
  assumes "c = HTTPSGroupCtl s"
  shows "muxOwn c' = muxOwn c \<Longrightarrow> openLns c' = openLns c \<Longrightarrow> owned (s\<lparr>HTTPSGroupCtl := c'\<rparr>) = owned s"
    "muxOwn c' = insert k (muxOwn c) \<Longrightarrow> openLns c' = openLns c \<Longrightarrow> owned (s\<lparr>HTTPSGroupCtl := c'\<rparr>) = insert (KHttpsRoute k) (owned s)"
    "muxOwn c' = muxOwn c - {k} \<Longrightarrow> openLns c' = openLns c \<Longrightarrow> owned (s\<lparr>HTTPSGroupCtl := c'\<rparr>) = owned s - {KHttpsRoute k}"
    "muxOwn c' = muxOwn c \<Longrightarrow> openLns c' = insert l (openLns c) \<Longrightarrow> owned (s\<lparr>HTTPSGroupCtl := c'\<rparr>) = insert (KHttpsLn l) (owned s)"
    "muxOwn c' = muxOwn c \<Longrightarrow> openLns c' = openLns c - {l} \<Longrightarrow> owned (s\<lparr>HTTPSGroupCtl := c'\<rparr>) = owned s - {KHttpsLn l}"
  using assms by (auto simp: owned_def)

lemma owned_mux:
  assumes "c = TCPMuxGroupCtl s"
  shows "muxOwn c' = muxOwn c \<Longrightarrow> openLns c' = openLns c \<Longrightarrow> owned (s\<lparr>TCPMuxGroupCtl := c'\<rparr>) = owned s"
    "muxOwn c' = insert k (muxOwn c) \<Longrightarrow> openLns c' = openLns c \<Longrightarrow> owned (s\<lparr>TCPMuxGroupCtl := c'\<rparr>) = insert (KMuxRoute k) (owned s)"
    "muxOwn c' = muxOwn c - {k} \<Longrightarrow> openLns c' = openLns c \<Longrightarrow> owned (s\<lparr>TCPMuxGroupCtl := c'\<rparr>) = owned s - {KMuxRoute k}"
    "muxOwn c' = muxOwn c \<Longrightarrow> openLns c' = insert l (openLns c) \<Longrightarrow> owned (s\<lparr>TCPMuxGroupCtl := c'\<rparr>) = insert (KMuxLn l) (owned s)"
    "muxOwn c' = muxOwn c \<Longrightarrow> openLns c' = openLns c - {l} \<Longrightarrow> owned (s\<lparr>TCPMuxGroupCtl := c'\<rparr>) = owned s - {KMuxLn l}"
  using assms by (auto simp: owned_def)

lemma owned_visitor:
  assumes "c = VisitorManager s"
  shows "visitorOwn c' = visitorOwn c \<Longrightarrow> owned (s\<lparr>VisitorManager := c'\<rparr>) = owned s"
    "visitorOwn c' = insert n (visitorOwn c) \<Longrightarrow> owned (s\<lparr>VisitorManager := c'\<rparr>) = insert (KVisitor n) (owned s)"
    "visitorOwn c' = visitorOwn c - {n} \<Longrightarrow> owned (s\<lparr>VisitorManager := c'\<rparr>) = owned s - {KVisitor n}"
  using assms by (auto simp: owned_def)

lemma owned_nat:
  assumes "c = NatHoleController s"
  shows "natOwn c' = natOwn c \<Longrightarrow> owned (s\<lparr>NatHoleController := c'\<rparr>) = owned s"
    "natOwn c' = insert n (natOwn c) \<Longrightarrow> owned (s\<lparr>NatHoleController := c'\<rparr>) = insert (KNat n) (owned s)"
    "natOwn c' = natOwn c - {n} \<Longrightarrow> owned (s\<lparr>NatHoleController := c'\<rparr>) = owned s - {KNat n}"
  using assms by (auto simp: owned_def)

lemma owned_iff [simp]:
  "KTcpPort p \<in> owned s \<longleftrightarrow> p \<in> tcpOwn (TCPGroupCtl s)" "KTcpLn l \<in> owned s \<longleftrightarrow> l \<in> openLns (TCPGroupCtl s)"
  "KUdpPort p \<in> owned s \<longleftrightarrow> p \<in> udpOwn (UDPPortManager s)"
  "KHttpRoute k \<in> owned s \<longleftrightarrow> k \<in> ownRoutes (HTTPGroupCtl s)" "KHttpMember m \<in> owned s \<longleftrightarrow> m \<in> hmembers (HTTPGroupCtl s)"
  "KHttpsRoute k \<in> owned s \<longleftrightarrow> k \<in> muxOwn (HTTPSGroupCtl s)" "KHttpsLn l \<in> owned s \<longleftrightarrow> l \<in> openLns (HTTPSGroupCtl s)"
  "KMuxRoute k \<in> owned s \<longleftrightarrow> k \<in> muxOwn (TCPMuxGroupCtl s)" "KMuxLn l \<in> owned s \<longleftrightarrow> l \<in> openLns (TCPMuxGroupCtl s)"
  "KVisitor n \<in> owned s \<longleftrightarrow> n \<in> visitorOwn (VisitorManager s)" "KNat n \<in> owned s \<longleftrightarrow> n \<in> natOwn (NatHoleController s)"
  by (auto simp: owned_def)

lemma take_tcp:
  assumes "rc_ok allow s" "reqFit allow (RTcp c) s" "takeRes (RTcp c) s = (x, s')"
  shows "rc_ok allow s' \<and> took s x s'"
proof -
  obtain y pm where a: "tcpAcquire c (resource (TCPGroupCtl s)) = (y, pm)" by fastforce
  have ck: "tcp_groups.cok allow (TCPGroupCtl s)" using assms(1) by (simp add: rc_ok_def)
  note l = tcpAcquire_lease [OF tcp_groups.cokD(1) [OF ck] _ a, OF assms(2) [unfolded reqFit.simps]]
  show ?thesis
  proof (cases y)
    case (Inl e)
    with l have k: "inv (allowed_ports allow) pm" "dom (usedPorts pm) = dom (usedPorts (resource (TCPGroupCtl s)))" by simp_all
    from tcp_ports.own_same [OF ck k] a Inl assms(1,3) show ?thesis
      by (auto simp: took_def rc_ok_def tcpOwn_def owned_tcp(1))
  next
    case (Inr p)
    with l have k: "inv (allowed_ports allow) pm" "realPort p \<notin> dom (usedPorts (resource (TCPGroupCtl s)))"
      "dom (usedPorts pm) = insert (realPort p) (dom (usedPorts (resource (TCPGroupCtl s))))" by simp_all
    from tcp_ports.own_taken [OF ck k] a Inr assms(1,3) show ?thesis
      by (auto simp: took_def rc_ok_def tcpOwn_def owned_tcp(2))
  qed
qed

lemma take_tcp_group:
  assumes "rc_ok allow s" "reqFit allow (RTcpGroup g k c) s" "takeRes (RTcpGroup g k c) s = (x, s')"
  shows "rc_ok allow s' \<and> took s x s'"
proof -
  obtain y ctl where a: "ctlListen TCPGroupListen noTcp g k c (TCPGroupCtl s) = (y, ctl)" by fastforce
  have ck: "tcp_groups.cok allow (TCPGroupCtl s)" using assms(1) by (simp add: rc_ok_def)
  have f: "portFit allow c (resource (TCPGroupCtl s))" using assms(2) by simp
  have "tcp_groups.cok allow ctl" using tcp_ports.ctlListen_cok [OF ck f, of g k] a by simp
  then show ?thesis
    using tcp_ports.ctlListen_fails [OF ck f, of g k _ ctl] tcp_ports.ctlListen_gets [OF ck f, of g k _ ctl] a assms(1,3)
    by (cases y) (auto simp: took_def rc_ok_def tcpOwn_def owned_tcp(1,4))
qed

lemma take_udp:
  assumes "rc_ok allow s" "reqFit allow (RUdp c) s" "takeRes (RUdp c) s = (x, s')"
  shows "rc_ok allow s' \<and> took s x s'"
proof -
  obtain y pm where a: "tcpAcquire c (UDPPortManager s) = (y, pm)" by fastforce
  have ck: "inv (allowed_ports allow) (UDPPortManager s)" using assms(1) by (simp add: rc_ok_def)
  from tcpAcquire_lease [OF ck assms(2) [unfolded reqFit.simps] a] a assms(1,3) show ?thesis
    by (cases y) (auto simp: took_def rc_ok_def udpOwn_def owned_udp(1,2))
qed

lemma take_http:
  assumes "rc_ok allow s" "takeRes (RHttp n r) s = (x, s')"
  shows "rc_ok allow s' \<and> took s x s'"
proof -
  obtain y c where a: "rpRegister n r (HTTPGroupCtl s) = (y, c)" by fastforce
  have ck: "ctl_ok (HTTPGroupCtl s)" using assms(1) by (simp add: rc_ok_def)
  from rpRegister_lease [OF ck] a assms show ?thesis
    by (cases y) (auto simp: took_def rc_ok_def owned_http(1,2))
qed

lemma take_http_group:
  assumes "rc_ok allow s" "takeRes (RHttpGroup n g k r) s = (x, s')"
  shows "rc_ok allow s' \<and> took s x s'"
proof -
  obtain y c where a: "ctlRegister n g k r (HTTPGroupCtl s) = (y, c)" by fastforce
  have ck: "ctl_ok (HTTPGroupCtl s)" using assms(1) by (simp add: rc_ok_def)
  from ctlRegister_gets [OF ck, of n g k r c] ctlRegister_fails [OF ck, of n g k r _ c] a assms show ?thesis
    by (cases y) (auto simp: took_def rc_ok_def owned_http(1,4))
qed

lemma MuxerListen_lease:
  assumes "routers_ok r" "MuxerListen p r = (x, r')"
  shows "routers_ok r'" "x = Inl e \<Longrightarrow> dom (route_table r') = dom (route_table r)"
    "x = Inr q \<Longrightarrow> muxKey q \<notin> dom (route_table r) \<and> dom (route_table r') = insert (muxKey q) (dom (route_table r))"
  using MuxerListen_table(1) [OF assms(1), of p] https_routes.acquire_fails [OF assms(1) TrueI, of p _ r']
    https_routes.acquire_gets [OF assms(1) TrueI, of p _ r'] assms(2) by auto

lemma take_https:
  assumes "rc_ok allow s" "takeRes (RHttps p) s = (x, s')"
  shows "rc_ok allow s' \<and> took s x s'"
proof -
  obtain y r where a: "MuxerListen p (resource (HTTPSGroupCtl s)) = (y, r)" by fastforce
  have ck: "https_groups.cok (HTTPSGroupCtl s)" using assms(1) by (simp add: rc_ok_def)
  note l = MuxerListen_lease [OF https_groups.cokD(1) [OF ck] a]
  show ?thesis
  proof (cases y)
    case (Inl e)
    from https_routes.own_same [OF ck l(1) l(2) [OF Inl]] a Inl assms show ?thesis
      by (auto simp: took_def rc_ok_def muxOwn_def owned_https(1))
  next
    case (Inr q)
    note k = l(3) [OF Inr]
    from https_routes.own_taken [OF ck l(1) k [THEN conjunct1] k [THEN conjunct2]] a Inr assms show ?thesis
      by (auto simp: took_def rc_ok_def muxOwn_def owned_https(2))
  qed
qed

lemma take_mux:
  assumes "rc_ok allow s" "takeRes (RMux p) s = (x, s')"
  shows "rc_ok allow s' \<and> took s x s'"
proof -
  obtain y r where a: "MuxerListen p (resource (TCPMuxGroupCtl s)) = (y, r)" by fastforce
  have ck: "tcpmux_groups.cok (TCPMuxGroupCtl s)" using assms(1) by (simp add: rc_ok_def)
  note l = MuxerListen_lease [OF tcpmux_groups.cokD(1) [OF ck] a]
  show ?thesis
  proof (cases y)
    case (Inl e)
    from tcpmux_routes.own_same [OF ck l(1) l(2) [OF Inl]] a Inl assms show ?thesis
      by (auto simp: took_def rc_ok_def muxOwn_def owned_mux(1))
  next
    case (Inr q)
    note k = l(3) [OF Inr]
    from tcpmux_routes.own_taken [OF ck l(1) k [THEN conjunct1] k [THEN conjunct2]] a Inr assms show ?thesis
      by (auto simp: took_def rc_ok_def muxOwn_def owned_mux(2))
  qed
qed

lemma take_https_group:
  assumes "rc_ok allow s" "takeRes (RHttpsGroup g k p) s = (x, s')"
  shows "rc_ok allow s' \<and> took s x s'"
proof -
  obtain y ctl where a: "ctlListen HTTPSGroupListen noMux g k p (HTTPSGroupCtl s) = (y, ctl)" by fastforce
  have ck: "https_groups.cok (HTTPSGroupCtl s)" using assms(1) by (simp add: rc_ok_def)
  have "https_groups.cok ctl" using https_routes.ctlListen_cok [OF ck TrueI, of g k p] a by simp
  then show ?thesis
    using https_routes.ctlListen_fails [OF ck TrueI, of g k p _ ctl] https_routes.ctlListen_gets [OF ck TrueI, of g k p _ ctl] a assms
    by (cases y) (auto simp: took_def rc_ok_def muxOwn_def owned_https(1,4))
qed

lemma take_mux_group:
  assumes "rc_ok allow s" "takeRes (RMuxGroup g k p) s = (x, s')"
  shows "rc_ok allow s' \<and> took s x s'"
proof -
  obtain y ctl where a: "ctlListen HTTPConnectListen noMux g k p (TCPMuxGroupCtl s) = (y, ctl)" by fastforce
  have ck: "tcpmux_groups.cok (TCPMuxGroupCtl s)" using assms(1) by (simp add: rc_ok_def)
  have "tcpmux_groups.cok ctl" using tcpmux_routes.ctlListen_cok [OF ck TrueI, of g k p] a by simp
  then show ?thesis
    using tcpmux_routes.ctlListen_fails [OF ck TrueI, of g k p _ ctl] tcpmux_routes.ctlListen_gets [OF ck TrueI, of g k p _ ctl] a assms
    by (cases y) (auto simp: took_def rc_ok_def muxOwn_def owned_mux(1,4))
qed

lemma take_visitor:
  assumes "rc_ok allow s" "takeRes (RVisitor n k us) s = (x, s')"
  shows "rc_ok allow s' \<and> took s x s'"
  using assms vm_ok_Listen [of "VisitorManager s" n k us]
  by (cases "vlisteners (VisitorManager s) n")
     (auto simp: took_def rc_ok_def visitorListen_def Let_def visitorOwn_def owned_visitor(1,2))

lemma take_nat:
  assumes "rc_ok allow s" "takeRes (RNat n k us) s = (x, s')"
  shows "rc_ok allow s' \<and> took s x s'"
proof (cases "NatHoleController s")
  case (Some c)
  with assms show ?thesis
    by (cases "clientCfgs c n") (auto simp: took_def rc_ok_def ListenClient_def natOwn_def owned_nat(1,2))
qed (use assms in \<open>auto simp: took_def\<close>)

lemma takeRes_took:
  assumes "rc_ok allow s" "reqFit allow q s" "takeRes q s = (x, s')"
  shows "rc_ok allow s' \<and> took s x s'"
  using assms
  by (cases q; simp only:)
     (rule take_tcp take_tcp_group take_udp take_http take_http_group take_https take_https_group take_mux take_mux_group
        take_visitor take_nat; assumption)+

lemma giveRes_gives:
  assumes ok: "rc_ok allow s" and own: "token_of h \<in> owned s"
  shows "rc_ok allow (giveRes t h s) \<and> owned (giveRes t h s) = owned s - {token_of h}"
proof -
  have ck: "tcp_groups.cok allow (TCPGroupCtl s)" "inv (allowed_ports allow) (UDPPortManager s)" "ctl_ok (HTTPGroupCtl s)"
    "https_groups.cok (HTTPSGroupCtl s)" "tcpmux_groups.cok (TCPMuxGroupCtl s)" "vm_ok (VisitorManager s)"
    using ok by (simp_all add: rc_ok_def)
  show ?thesis
  proof (cases h)
    case (TcpPort p)
    have k: "p \<in> ownKeys realPort (\<lambda>pm. dom (usedPorts pm)) (TCPGroupCtl s)" using own TcpPort by (simp add: tcpOwn_def)
    note r = Release_lease [OF tcp_groups.cokD(1) [OF ck(1)], of t p]
    from tcp_ports.own_given [OF ck(1) r [THEN conjunct1] k r [THEN conjunct2]] ok show ?thesis
      by (simp add: TcpPort rc_ok_def tcpOwn_def owned_tcp(3))
  next
    case (TcpLn l p)
    have l: "l \<in> openLns (TCPGroupCtl s)" using own TcpLn by simp
    then have l': "l < length (lnGroup (TCPGroupCtl s))" "l \<notin> closedLns (TCPGroupCtl s)" by (simp_all add: openLns_def)
    from tcp_ports.close_open [OF ck(1) l, of t] tcp_groups.cok_close [OF ck(1) l', of t] ok show ?thesis
      by (simp add: TcpLn rc_ok_def tcpOwn_def owned_tcp(5))
  next
    case (UdpPort p)
    with Release_lease [OF ck(2), of t p] ok show ?thesis by (simp add: rc_ok_def udpOwn_def owned_udp(3))
  next
    case (HttpRoute r)
    with own rpUnRegister_lease [OF ck(3), of r] ok show ?thesis by (simp add: rc_ok_def owned_http(3))
  next
    case (HttpMember g n)
    with own ctlUnRegister_lease [OF ck(3), of g n] ok show ?thesis by (simp add: rc_ok_def owned_http(5))
  next
    case (HttpsRoute p)
    have k: "muxKey p \<in> ownKeys muxKey (\<lambda>r. dom (route_table r)) (HTTPSGroupCtl s)" using own HttpsRoute by (simp add: muxOwn_def)
    note r = https_groups.cokD(1) [OF ck(4)]
    from https_routes.own_given [OF ck(4) MuxListenerClose_table(1) [OF r] k https_routes.release_key [OF r]] ok show ?thesis
      by (simp add: HttpsRoute rc_ok_def muxOwn_def owned_https(3))
  next
    case (HttpsLn l)
    have l: "l \<in> openLns (HTTPSGroupCtl s)" using own HttpsLn by simp
    then have l': "l < length (lnGroup (HTTPSGroupCtl s))" "l \<notin> closedLns (HTTPSGroupCtl s)" by (simp_all add: openLns_def)
    from https_routes.close_open [OF ck(4) l] https_groups.cok_close [OF ck(4) l'] ok show ?thesis
      by (simp add: HttpsLn rc_ok_def muxOwn_def owned_https(5))
  next
    case (MuxRoute p)
    have k: "muxKey p \<in> ownKeys muxKey (\<lambda>r. dom (route_table r)) (TCPMuxGroupCtl s)" using own MuxRoute by (simp add: muxOwn_def)
    note r = tcpmux_groups.cokD(1) [OF ck(5)]
    from tcpmux_routes.own_given [OF ck(5) MuxListenerClose_table(1) [OF r] k tcpmux_routes.release_key [OF r]] ok show ?thesis
      by (simp add: MuxRoute rc_ok_def muxOwn_def owned_mux(3))
  next
    case (MuxLn l)
    have l: "l \<in> openLns (TCPMuxGroupCtl s)" using own MuxLn by simp
    then have l': "l < length (lnGroup (TCPMuxGroupCtl s))" "l \<notin> closedLns (TCPMuxGroupCtl s)" by (simp_all add: openLns_def)
    from tcpmux_routes.close_open [OF ck(5) l] tcpmux_groups.cok_close [OF ck(5) l'] ok show ?thesis
      by (simp add: MuxLn rc_ok_def muxOwn_def owned_mux(5))
  next
    case (VisitorLn n l)
    with vm_ok_CloseListener [OF vm_ok_closeInternal [OF ck(6), of l], of n] ok show ?thesis
      by (auto simp: rc_ok_def visitorOwn_def CloseListener_def closeInternal_def owned_visitor(3))
  next
    case (NatClient n)
    with ok own show ?thesis
      by (cases "NatHoleController s") (auto simp: rc_ok_def natOwn_def CloseClient_def owned_nat(3))
  qed
qed

interpretation server: lease takeRes giveRes "rc_ok allow" owned token_of "reqFit allow" for allow
  by unfold_locales (use takeRes_took in \<open>fastforce simp: took_def\<close>, use takeRes_took in \<open>fastforce simp: took_def\<close>, rule giveRes_gives)

lemma rc_ok_New: "rc_ok allow (NewResourceController allow nhc)"
  using tcp_groups.cok_init [of allow] inv_NewManager [of allow] ctl_ok_New https_groups.cok_init tcpmux_groups.cok_init vm_ok_New
  by (simp add: rc_ok_def NewResourceController_def)

end
