(* ===== verification/Server_Proxy.thy ===== *)
theory Server_Proxy
  imports Server_Resources
begin

text \<open>
  The proxies of the server, \<^verbatim>\<open>server/proxy/*.go\<close>: what \<^verbatim>\<open>Run\<close> of each type takes from the resource controller
  and gives back when it fails, and what \<^verbatim>\<open>Close\<close> gives back.  The accept loops and the connections they serve
  are not part of this theory.
\<close>

section \<open>Configuration\<close>

record loadBalancer =
  Group :: string
  GroupKey :: string

record domainConfig =
  CustomDomains :: "string list"
  SubDomain :: string

record serverConfig =
  ProxyBindAddr :: string
  SubDomainHost :: string
  VhostHTTPPort :: int
  VhostHTTPSPort :: int
  TCPMuxHTTPConnectPort :: int

datatype proxyConfig =
    TCPProxyConfig loadBalancer int
  | UDPProxyConfig int
  | HTTPProxyConfig loadBalancer domainConfig "string list" string
  | HTTPSProxyConfig loadBalancer domainConfig
  | TCPMuxProxyConfig string loadBalancer domainConfig string string string
  | STCPProxyConfig string "string list"
  | SUDPProxyConfig string "string list"
  | XTCPProxyConfig string "string list"
  | XUDPProxyConfig string "string list"

text \<open>A proxy with its name, its user and a number that stands for its \<^verbatim>\<open>GetRealConn\<close>.\<close>

record baseProxy =
  bpName :: string
  bpUser :: string
  bpConn :: nat

definition buildDomains :: "serverConfig \<Rightarrow> domainConfig \<Rightarrow> string list" where
  "buildDomains cfg d =
     filter (\<lambda>x. x \<noteq> '''') (CustomDomains d) @
     (if SubDomain d \<noteq> '''' then [SubDomain d @ ''.'' @ SubDomainHost cfg] else [])"

definition CanonicalAddr :: "string \<Rightarrow> int \<Rightarrow> string" where
  "CanonicalAddr host port = (if port = 80 \<or> port = 443 then host else JoinHostPort host (Itoa port))"

section \<open>Run and Close\<close>

text \<open>A \<^verbatim>\<open>Run\<close> yields the remote address or an error, with what the proxy holds and the resource controller.  The
  operating system's part of a call is an argument; listening on a port includes resolving its address.\<close>

type_synonym run_result = "(run_error + string) \<times> held list \<times> ResourceController"

definition portCall :: "tcp_call \<Rightarrow> baseProxy \<Rightarrow> serverConfig \<Rightarrow> int \<Rightarrow> tcp_call" where
  "portCall os bp cfg port = os\<lparr>proxyName := bpName bp, caddr := ProxyBindAddr cfg, cport := port\<rparr>"

definition TCPRun :: "serverConfig \<Rightarrow> tcp_call \<Rightarrow> baseProxy \<Rightarrow> loadBalancer \<Rightarrow> int \<Rightarrow> ResourceController \<Rightarrow> run_result" where
  "TCPRun cfg os bp lb remotePort rc =
     (if Group lb \<noteq> '''' then
        (case ctlListen TCPGroupListen noTcp (Group lb) (GroupKey lb) (portCall os bp cfg remotePort) (TCPGroupCtl rc) of
           (Inl e, ctl) \<Rightarrow> (Inl (TcpGroupErr e), [], rc\<lparr>TCPGroupCtl := ctl\<rparr>)
         | (Inr (l, realBindPort), ctl) \<Rightarrow>
             (Inr (CHR '':'' # Itoa realBindPort), [TcpLn l realBindPort], rc\<lparr>TCPGroupCtl := ctl\<rparr>))
      else
        (case Acquire (avail os) (now os) (order os) (bpName bp) remotePort (resource (TCPGroupCtl rc)) of
           (Inl e, pm) \<Rightarrow> (Inl (TcpErr (AcquireErr e)), [], rc\<lparr>TCPGroupCtl := (TCPGroupCtl rc)\<lparr>resource := pm\<rparr>\<rparr>)
         | (Inr realBindPort, pm) \<Rightarrow>
             if \<not> listenOk os realBindPort then
               (Inl (TcpErr NetListenErr), [],
                rc\<lparr>TCPGroupCtl := (TCPGroupCtl rc)\<lparr>resource := Release (now os) realBindPort pm\<rparr>\<rparr>)
             else (Inr (CHR '':'' # Itoa realBindPort), [TcpPort realBindPort],
                   rc\<lparr>TCPGroupCtl := (TCPGroupCtl rc)\<lparr>resource := pm\<rparr>\<rparr>)))"

definition releasePort :: "int \<Rightarrow> int \<Rightarrow> manager \<Rightarrow> manager" where
  "releasePort t realBindPort pm = (if realBindPort > 0 then Release t realBindPort pm else pm)"

definition UDPRun :: "tcp_call \<Rightarrow> baseProxy \<Rightarrow> int \<Rightarrow> ResourceController \<Rightarrow> run_result" where
  "UDPRun os bp remotePort rc =
     (case Acquire (avail os) (now os) (order os) (bpName bp) remotePort (UDPPortManager rc) of
        (Inl e, pm) \<Rightarrow> (Inl (UdpErr (AcquireErr e)), [], rc\<lparr>UDPPortManager := pm\<rparr>)
      | (Inr realBindPort, pm) \<Rightarrow>
          if \<not> listenOk os realBindPort then
            (Inl (UdpErr NetListenErr), [], rc\<lparr>UDPPortManager := releasePort (now os) realBindPort pm\<rparr>)
          else (Inr (CHR '':'' # Itoa realBindPort), [UdpPort realBindPort], rc\<lparr>UDPPortManager := pm\<rparr>))"

text \<open>The body of the loops of \<^verbatim>\<open>HTTPProxy.Run\<close>.\<close>

definition httpRoute :: "baseProxy \<Rightarrow> string \<Rightarrow> string \<Rightarrow> string \<Rightarrow> route_config" where
  "httpRoute bp user d loc = \<lparr>Domain = d, Location = loc, RouteByHTTPUser = user, CreateConnFn = bpConn bp\<rparr>"

definition httpRegister ::
  "baseProxy \<Rightarrow> loadBalancer \<Rightarrow> route_config \<Rightarrow> ResourceController \<Rightarrow> (run_error + held) \<times> ResourceController" where
  "httpRegister bp lb r rc =
     (if Group lb \<noteq> '''' then
        (case ctlRegister (bpName bp) (Group lb) (GroupKey lb) r (HTTPGroupCtl rc) of
           (Inl e, ctl) \<Rightarrow> (Inl (HttpGroupErr e), rc\<lparr>HTTPGroupCtl := ctl\<rparr>)
         | (Inr _, ctl) \<Rightarrow> (Inr (HttpMember (Group lb) (bpName bp)), rc\<lparr>HTTPGroupCtl := ctl\<rparr>))
      else
        (case rpRegister (bpName bp) r (HTTPGroupCtl rc) of
           (Inl e, ctl) \<Rightarrow> (Inl (HttpErr e), rc\<lparr>HTTPGroupCtl := ctl\<rparr>)
         | (Inr _, ctl) \<Rightarrow> (Inr (HttpRoute r), rc\<lparr>HTTPGroupCtl := ctl\<rparr>)))"

text \<open>A loop that collects what its body takes and stops at the first error.\<close>

fun collect :: "('a \<Rightarrow> 's \<Rightarrow> ('e + 'h) \<times> 's) \<Rightarrow> 'a list \<Rightarrow> 'h list \<Rightarrow> 's \<Rightarrow> ('e option \<times> 'h list) \<times> 's" where
  "collect body [] hs s = ((None, hs), s)"
| "collect body (x # xs) hs s =
     (case body x s of
        (Inl e, s1) \<Rightarrow> ((Some e, hs), s1)
      | (Inr h, s1) \<Rightarrow> collect body xs (hs @ [h]) s1)"

text \<open>\<^verbatim>\<open>BaseProxy.Close\<close> closes the listeners; the rest of a \<^verbatim>\<open>Close\<close> depends on the type of the proxy.\<close>

fun closeLn :: "int \<Rightarrow> held \<Rightarrow> ResourceController \<Rightarrow> ResourceController" where
  "closeLn t (TcpLn l p) rc = rc\<lparr>TCPGroupCtl := closeListener (tcpCleanup t) l (TCPGroupCtl rc)\<rparr>"
| "closeLn t (HttpsRoute l) rc =
     rc\<lparr>HTTPSGroupCtl := (HTTPSGroupCtl rc)\<lparr>resource := MuxListenerClose l (resource (HTTPSGroupCtl rc))\<rparr>\<rparr>"
| "closeLn t (HttpsLn l) rc = rc\<lparr>HTTPSGroupCtl := closeListener MuxListenerClose l (HTTPSGroupCtl rc)\<rparr>"
| "closeLn t (MuxRoute l) rc =
     rc\<lparr>TCPMuxGroupCtl := (TCPMuxGroupCtl rc)\<lparr>resource := MuxListenerClose l (resource (TCPMuxGroupCtl rc))\<rparr>\<rparr>"
| "closeLn t (MuxLn l) rc = rc\<lparr>TCPMuxGroupCtl := closeListener MuxListenerClose l (TCPMuxGroupCtl rc)\<rparr>"
| "closeLn t (VisitorLn n l) rc = rc\<lparr>VisitorManager := closeInternal l (VisitorManager rc)\<rparr>"
| "closeLn t _ rc = rc"

definition BaseProxyClose :: "int \<Rightarrow> held list \<Rightarrow> ResourceController \<Rightarrow> ResourceController" where
  "BaseProxyClose t hs rc = fold (closeLn t) hs rc"

fun closeFn :: "held \<Rightarrow> ResourceController \<Rightarrow> ResourceController" where
  "closeFn (HttpRoute r) rc = rc\<lparr>HTTPGroupCtl := rpUnRegister r (HTTPGroupCtl rc)\<rparr>"
| "closeFn (HttpMember g name) rc = rc\<lparr>HTTPGroupCtl := ctlUnRegister name g (HTTPGroupCtl rc)\<rparr>"
| "closeFn _ rc = rc"

fun realBindPort :: "held list \<Rightarrow> int" where
  "realBindPort (TcpPort p # _) = p"
| "realBindPort (TcpLn l p # _) = p"
| "realBindPort (UdpPort p # _) = p"
| "realBindPort _ = 0"

text \<open>\<^verbatim>\<open>Close\<close> of each type.\<close>

definition TCPClose :: "int \<Rightarrow> loadBalancer \<Rightarrow> held list \<Rightarrow> ResourceController \<Rightarrow> ResourceController" where
  "TCPClose t lb hs rc =
     (let rc1 = BaseProxyClose t hs rc in
      if Group lb = '''' then rc1\<lparr>TCPGroupCtl := (TCPGroupCtl rc1)\<lparr>resource := Release t (realBindPort hs) (resource (TCPGroupCtl rc1))\<rparr>\<rparr>
      else rc1)"

definition UDPClose :: "int \<Rightarrow> held list \<Rightarrow> ResourceController \<Rightarrow> ResourceController" where
  "UDPClose t hs rc =
     (let rc1 = BaseProxyClose t hs rc in rc1\<lparr>UDPPortManager := releasePort t (realBindPort hs) (UDPPortManager rc1)\<rparr>)"

definition HTTPClose :: "int \<Rightarrow> held list \<Rightarrow> ResourceController \<Rightarrow> ResourceController" where
  "HTTPClose t hs rc = fold closeFn hs (BaseProxyClose t hs rc)"

definition HTTPSClose :: "int \<Rightarrow> held list \<Rightarrow> ResourceController \<Rightarrow> ResourceController" where
  "HTTPSClose t hs rc = BaseProxyClose t hs rc"

definition TCPMuxClose :: "int \<Rightarrow> held list \<Rightarrow> ResourceController \<Rightarrow> ResourceController" where
  "TCPMuxClose t hs rc = BaseProxyClose t hs rc"

definition STCPClose :: "int \<Rightarrow> baseProxy \<Rightarrow> held list \<Rightarrow> ResourceController \<Rightarrow> ResourceController" where
  "STCPClose t bp hs rc =
     (let rc1 = BaseProxyClose t hs rc in rc1\<lparr>VisitorManager := CloseListener (bpName bp) (VisitorManager rc1)\<rparr>)"

definition SUDPClose :: "int \<Rightarrow> baseProxy \<Rightarrow> held list \<Rightarrow> ResourceController \<Rightarrow> ResourceController" where
  "SUDPClose t bp hs rc =
     (let rc1 = BaseProxyClose t hs rc in rc1\<lparr>VisitorManager := CloseListener (bpName bp) (VisitorManager rc1)\<rparr>)"

definition XTCPClose :: "int \<Rightarrow> baseProxy \<Rightarrow> held list \<Rightarrow> ResourceController \<Rightarrow> ResourceController" where
  "XTCPClose t bp hs rc =
     (let rc1 = BaseProxyClose t hs rc in rc1\<lparr>NatHoleController := map_option (CloseClient (bpName bp)) (NatHoleController rc1)\<rparr>)"

definition XUDPClose :: "int \<Rightarrow> baseProxy \<Rightarrow> held list \<Rightarrow> ResourceController \<Rightarrow> ResourceController" where
  "XUDPClose t bp hs rc =
     (let rc1 = BaseProxyClose t hs rc;
          rc2 = rc1\<lparr>NatHoleController := map_option (CloseClient (bpName bp)) (NatHoleController rc1)\<rparr> in
      rc2\<lparr>VisitorManager := CloseListener (bpName bp) (VisitorManager rc2)\<rparr>)"

lemmas close_defs = TCPClose_def UDPClose_def HTTPClose_def HTTPSClose_def TCPMuxClose_def STCPClose_def SUDPClose_def XTCPClose_def
  XUDPClose_def BaseProxyClose_def

fun CloseProxy :: "int \<Rightarrow> baseProxy \<Rightarrow> proxyConfig \<Rightarrow> held list \<Rightarrow> ResourceController \<Rightarrow> ResourceController" where
  "CloseProxy t bp (TCPProxyConfig lb port) hs rc = TCPClose t lb hs rc"
| "CloseProxy t bp (UDPProxyConfig port) hs rc = UDPClose t hs rc"
| "CloseProxy t bp (HTTPProxyConfig lb d locs user) hs rc = HTTPClose t hs rc"
| "CloseProxy t bp (HTTPSProxyConfig lb d) hs rc = HTTPSClose t hs rc"
| "CloseProxy t bp (TCPMuxProxyConfig m lb d user httpUser httpPwd) hs rc = TCPMuxClose t hs rc"
| "CloseProxy t bp (STCPProxyConfig key users) hs rc = STCPClose t bp hs rc"
| "CloseProxy t bp (SUDPProxyConfig key users) hs rc = SUDPClose t bp hs rc"
| "CloseProxy t bp (XTCPProxyConfig key users) hs rc = XTCPClose t bp hs rc"
| "CloseProxy t bp (XUDPProxyConfig key users) hs rc = XUDPClose t bp hs rc"

definition HTTPRun ::
  "serverConfig \<Rightarrow> int \<Rightarrow> baseProxy \<Rightarrow> loadBalancer \<Rightarrow> domainConfig \<Rightarrow> string list \<Rightarrow> string \<Rightarrow> ResourceController \<Rightarrow> run_result" where
  "HTTPRun cfg t bp lb d locs user rc =
     (let locations = (if locs = [] then [''''] else locs);
          routes = concat (map (\<lambda>dom. map (\<lambda>loc. httpRoute bp user dom loc) locations) (buildDomains cfg d)) in
      case collect (httpRegister bp lb) routes [] rc of
        ((Some e, hs), rc1) \<Rightarrow> (Inl e, [], HTTPClose t hs rc1)
      | ((None, hs), rc1) \<Rightarrow>
          (Inr (Join (map (\<lambda>r. CanonicalAddr (Domain r) (VhostHTTPPort cfg)) routes) (CHR '','')), hs, rc1))"

text \<open>A route of the muxers: https proxies give only the domain, tcpmux proxies the user and the credentials, too.\<close>

definition muxRoute :: "string \<Rightarrow> string \<Rightarrow> string \<Rightarrow> string \<Rightarrow> mux_params" where
  "muxRoute d user httpUser httpPwd =
     \<lparr>mdomain = d, mlocation = '''', mrouteByHTTPUser = user, musername = httpUser, mpassword = httpPwd\<rparr>"

definition listenForDomain :: "loadBalancer \<Rightarrow> string \<Rightarrow> ResourceController \<Rightarrow> (run_error + held) \<times> ResourceController" where
  "listenForDomain lb d rc =
     (if Group lb \<noteq> '''' then
        (case ctlListen HTTPSGroupListen noMux (Group lb) (GroupKey lb) (muxRoute d '''' '''' '''') (HTTPSGroupCtl rc) of
           (Inl e, ctl) \<Rightarrow> (Inl (MuxGroupErr e), rc\<lparr>HTTPSGroupCtl := ctl\<rparr>)
         | (Inr l, ctl) \<Rightarrow> (Inr (HttpsLn l), rc\<lparr>HTTPSGroupCtl := ctl\<rparr>))
      else
        (case MuxerListen (muxRoute d '''' '''' '''') (resource (HTTPSGroupCtl rc)) of
           (Inl e, r) \<Rightarrow> (Inl (MuxErr e), rc\<lparr>HTTPSGroupCtl := (HTTPSGroupCtl rc)\<lparr>resource := r\<rparr>\<rparr>)
         | (Inr l, r) \<Rightarrow> (Inr (HttpsRoute l), rc\<lparr>HTTPSGroupCtl := (HTTPSGroupCtl rc)\<lparr>resource := r\<rparr>\<rparr>)))"

definition HTTPSRun ::
  "serverConfig \<Rightarrow> int \<Rightarrow> baseProxy \<Rightarrow> loadBalancer \<Rightarrow> domainConfig \<Rightarrow> ResourceController \<Rightarrow> run_result" where
  "HTTPSRun cfg t bp lb d rc =
     (let domains = buildDomains cfg d in
      case collect (listenForDomain lb) domains [] rc of
        ((Some e, hs), rc1) \<Rightarrow> (Inl e, [], HTTPSClose t hs rc1)
      | ((None, hs), rc1) \<Rightarrow> (Inr (Join (map (\<lambda>x. CanonicalAddr x (VhostHTTPSPort cfg)) domains) (CHR '','')), hs, rc1))"

definition httpConnectListen ::
  "loadBalancer \<Rightarrow> string \<Rightarrow> string \<Rightarrow> string \<Rightarrow> string \<Rightarrow> ResourceController \<Rightarrow> (run_error + held) \<times> ResourceController" where
  "httpConnectListen lb user httpUser httpPwd d rc =
     (if Group lb \<noteq> '''' then
        (case ctlListen HTTPConnectListen noMux (Group lb) (GroupKey lb) (muxRoute d user httpUser httpPwd) (TCPMuxGroupCtl rc) of
           (Inl e, ctl) \<Rightarrow> (Inl (MuxGroupErr e), rc\<lparr>TCPMuxGroupCtl := ctl\<rparr>)
         | (Inr l, ctl) \<Rightarrow> (Inr (MuxLn l), rc\<lparr>TCPMuxGroupCtl := ctl\<rparr>))
      else
        (case MuxerListen (muxRoute d user httpUser httpPwd) (resource (TCPMuxGroupCtl rc)) of
           (Inl e, r) \<Rightarrow> (Inl (MuxErr e), rc\<lparr>TCPMuxGroupCtl := (TCPMuxGroupCtl rc)\<lparr>resource := r\<rparr>\<rparr>)
         | (Inr l, r) \<Rightarrow> (Inr (MuxRoute l), rc\<lparr>TCPMuxGroupCtl := (TCPMuxGroupCtl rc)\<lparr>resource := r\<rparr>\<rparr>)))"

definition TCPMultiplexerHTTPConnect :: string where "TCPMultiplexerHTTPConnect = ''httpconnect''"

definition TCPMuxRun ::
  "serverConfig \<Rightarrow> int \<Rightarrow> baseProxy \<Rightarrow> string \<Rightarrow> loadBalancer \<Rightarrow> domainConfig \<Rightarrow> string \<Rightarrow> string \<Rightarrow> string \<Rightarrow>
   ResourceController \<Rightarrow> run_result" where
  "TCPMuxRun cfg t bp m lb d user httpUser httpPwd rc =
     (if m \<noteq> TCPMultiplexerHTTPConnect
      then (Inl (UnknownMultiplexer m), [], TCPMuxClose t [] rc)
      else
        let domains = buildDomains cfg d in
        case collect (httpConnectListen lb user httpUser httpPwd) domains [] rc of
          ((Some e, hs), rc1) \<Rightarrow> (Inl e, [], TCPMuxClose t hs rc1)
        | ((None, hs), rc1) \<Rightarrow>
            (Inr (Join (map (\<lambda>x. CanonicalAddr x (TCPMuxHTTPConnectPort cfg)) domains) (CHR '','')), hs, rc1))"

definition allowedUsers :: "baseProxy \<Rightarrow> string list \<Rightarrow> string list" where
  "allowedUsers bp users = (if users = [] then [bpUser bp] else users)"

definition startVisitorListener ::
  "baseProxy \<Rightarrow> string \<Rightarrow> string list \<Rightarrow> ResourceController \<Rightarrow> (run_error + held) \<times> ResourceController" where
  "startVisitorListener bp key users rc =
     (case visitorListen (bpName bp) key (allowedUsers bp users) (VisitorManager rc) of
        (Inl e, vm) \<Rightarrow> (Inl (VisitorErr e), rc\<lparr>VisitorManager := vm\<rparr>)
      | (Inr l, vm) \<Rightarrow> (Inr (VisitorLn (bpName bp) l), rc\<lparr>VisitorManager := vm\<rparr>))"

definition STCPRun :: "baseProxy \<Rightarrow> string \<Rightarrow> string list \<Rightarrow> ResourceController \<Rightarrow> run_result" where
  "STCPRun bp key users rc =
     (case startVisitorListener bp key users rc of
        (Inl e, rc1) \<Rightarrow> (Inl e, [], rc1)
      | (Inr h, rc1) \<Rightarrow> (Inr '''', [h], rc1))"

definition SUDPRun :: "baseProxy \<Rightarrow> string \<Rightarrow> string list \<Rightarrow> ResourceController \<Rightarrow> run_result" where
  "SUDPRun bp key users rc =
     (case startVisitorListener bp key users rc of
        (Inl e, rc1) \<Rightarrow> (Inl e, [], rc1)
      | (Inr h, rc1) \<Rightarrow> (Inr '''', [h], rc1))"

definition XTCPRun :: "baseProxy \<Rightarrow> string \<Rightarrow> string list \<Rightarrow> ResourceController \<Rightarrow> run_result" where
  "XTCPRun bp key users rc =
     (case NatHoleController rc of
        None \<Rightarrow> (Inl XtcpUnsupported, [], rc)
      | Some c \<Rightarrow>
          (case ListenClient (bpName bp) key (allowedUsers bp users) c of
             (Inl e, c1) \<Rightarrow> (Inl (NatErr e), [], rc\<lparr>NatHoleController := Some c1\<rparr>)
           | (Inr _, c1) \<Rightarrow> (Inr '''', [NatClient (bpName bp)], rc\<lparr>NatHoleController := Some c1\<rparr>)))"

text \<open>When \<^verbatim>\<open>ListenClient\<close> fails, \<^verbatim>\<open>XUDPProxy.Run\<close> returns without closing the visitor listener.\<close>

definition XUDPRun :: "baseProxy \<Rightarrow> string \<Rightarrow> string list \<Rightarrow> ResourceController \<Rightarrow> run_result" where
  "XUDPRun bp key users rc =
     (case startVisitorListener bp key users rc of
        (Inl e, rc1) \<Rightarrow> (Inl e, [], rc1)
      | (Inr h, rc1) \<Rightarrow>
          (case NatHoleController rc1 of
             None \<Rightarrow> (Inr '''', [h], rc1)
           | Some c \<Rightarrow>
               (case ListenClient (bpName bp) key (allowedUsers bp users) c of
                  (Inl e, c1) \<Rightarrow> (Inl (NatErr e), [h], rc1\<lparr>NatHoleController := Some c1\<rparr>)
                | (Inr _, c1) \<Rightarrow> (Inr '''', [h, NatClient (bpName bp)], rc1\<lparr>NatHoleController := Some c1\<rparr>))))"

fun RunProxy :: "serverConfig \<Rightarrow> tcp_call \<Rightarrow> baseProxy \<Rightarrow> proxyConfig \<Rightarrow> ResourceController \<Rightarrow> run_result" where
  "RunProxy cfg os bp (TCPProxyConfig lb port) rc = TCPRun cfg os bp lb port rc"
| "RunProxy cfg os bp (UDPProxyConfig port) rc = UDPRun os bp port rc"
| "RunProxy cfg os bp (HTTPProxyConfig lb d locs user) rc = HTTPRun cfg (now os) bp lb d locs user rc"
| "RunProxy cfg os bp (HTTPSProxyConfig lb d) rc = HTTPSRun cfg (now os) bp lb d rc"
| "RunProxy cfg os bp (TCPMuxProxyConfig m lb d user hu hp) rc = TCPMuxRun cfg (now os) bp m lb d user hu hp rc"
| "RunProxy cfg os bp (STCPProxyConfig key users) rc = STCPRun bp key users rc"
| "RunProxy cfg os bp (SUDPProxyConfig key users) rc = SUDPRun bp key users rc"
| "RunProxy cfg os bp (XTCPProxyConfig key users) rc = XTCPRun bp key users rc"
| "RunProxy cfg os bp (XUDPProxyConfig key users) rc = XUDPRun bp key users rc"

section \<open>The calls of a Run\<close>

text \<open>The requests of a \<^verbatim>\<open>Run\<close> in the order it makes them, each waiting for what the operating system says then.\<close>

fun plan :: "serverConfig \<Rightarrow> bool \<Rightarrow> baseProxy \<Rightarrow> proxyConfig \<Rightarrow> (tcp_call \<Rightarrow> resourceRequest) list" where
  "plan cfg natHole bp (TCPProxyConfig lb port) =
     [\<lambda>os. if Group lb \<noteq> '''' then RTcpGroup (Group lb) (GroupKey lb) (portCall os bp cfg port) else RTcp (portCall os bp cfg port)]"
| "plan cfg natHole bp (UDPProxyConfig port) = [\<lambda>os. RUdp (portCall os bp cfg port)]"
| "plan cfg natHole bp (HTTPProxyConfig lb d locs user) =
     map (\<lambda>r os. if Group lb \<noteq> '''' then RHttpGroup (bpName bp) (Group lb) (GroupKey lb) r else RHttp (bpName bp) r)
       (concat (map (\<lambda>dom. map (\<lambda>loc. httpRoute bp user dom loc) (if locs = [] then [''''] else locs)) (buildDomains cfg d)))"
| "plan cfg natHole bp (HTTPSProxyConfig lb d) =
     map (\<lambda>x os. if Group lb \<noteq> '''' then RHttpsGroup (Group lb) (GroupKey lb) (muxRoute x '''' '''' '''') else RHttps (muxRoute x '''' '''' ''''))
       (buildDomains cfg d)"
| "plan cfg natHole bp (TCPMuxProxyConfig m lb d user hu hp) =
     (if m = TCPMultiplexerHTTPConnect
      then map (\<lambda>x os. if Group lb \<noteq> '''' then RMuxGroup (Group lb) (GroupKey lb) (muxRoute x user hu hp) else RMux (muxRoute x user hu hp))
        (buildDomains cfg d)
      else [])"
| "plan cfg natHole bp (STCPProxyConfig key users) = [\<lambda>os. RVisitor (bpName bp) key (allowedUsers bp users)]"
| "plan cfg natHole bp (SUDPProxyConfig key users) = [\<lambda>os. RVisitor (bpName bp) key (allowedUsers bp users)]"
| "plan cfg natHole bp (XTCPProxyConfig key users) = [\<lambda>os. RNat (bpName bp) key (allowedUsers bp users)]"
| "plan cfg natHole bp (XUDPProxyConfig key users) =
     (\<lambda>os. RVisitor (bpName bp) key (allowedUsers bp users)) #
     (if natHole then [\<lambda>os. RNat (bpName bp) key (allowedUsers bp users)] else [])"

definition isXUDP :: "proxyConfig \<Rightarrow> bool" where
  "isXUDP c \<longleftrightarrow> (case c of XUDPProxyConfig k us \<Rightarrow> True | _ \<Rightarrow> False)"

section \<open>Taking in sequence and giving back\<close>

fun collectFit :: "('q \<Rightarrow> 's \<Rightarrow> bool) \<Rightarrow> ('q \<Rightarrow> 's \<Rightarrow> ('e + 'h) \<times> 's) \<Rightarrow> 'q list \<Rightarrow> 's \<Rightarrow> bool" where
  "collectFit fit get [] s \<longleftrightarrow> True"
| "collectFit fit get (q # qs) s \<longleftrightarrow> fit q s \<and> (case get q s of (Inl e, s1) \<Rightarrow> True | (Inr h, s1) \<Rightarrow> collectFit fit get qs s1)"

context lease
begin

lemma collect_owned:
  assumes "ok s" "collectFit fit take qs s" "collect take qs hs s = ((e, hs'), s')"
  shows "ok s' \<and> (\<exists>new. hs' = hs @ new \<and> distinct (map token new) \<and> token ` set new \<inter> owned s = {} \<and>
     owned s' = owned s \<union> token ` set new)"
  using assms
proof (induction qs arbitrary: s hs)
  case (Cons q qs)
  obtain x s1 where t: "take q s = (x, s1)" by fastforce
  show ?case
  proof (cases x)
    case (Inl err)
    with Cons.prems t take_fails [of s q err s1] show ?thesis by auto
  next
    case (Inr h)
    with Cons.prems t have c: "collectFit fit take qs s1" "collect take qs (hs @ [h]) s1 = ((e, hs'), s')" by auto
    have g: "ok s1" "token h \<notin> owned s" "owned s1 = insert (token h) (owned s)"
      using take_gets [OF Cons.prems(1) _ t [unfolded Inr]] Cons.prems(2) by auto
    from Cons.IH [OF g(1) c] obtain new where n: "ok s'" "hs' = (hs @ [h]) @ new" "distinct (map token new)"
      "token ` set new \<inter> owned s1 = {}" "owned s' = owned s1 \<union> token ` set new" by blast
    then show ?thesis using g by (intro conjI exI [of _ "h # new"]) auto
  qed
qed auto

lemma give_all:
  assumes "ok s" "distinct (map token hs)" "token ` set hs \<subseteq> owned s"
  shows "ok (fold (give t) hs s) \<and> owned (fold (give t) hs s) = owned s - token ` set hs"
  using assms
proof (induction hs arbitrary: s)
  case (Cons h hs)
  have g: "ok (give t h s)" "owned (give t h s) = owned s - {token h}" using give_back [of s h t] Cons.prems by auto
  have "token ` set hs \<subseteq> owned (give t h s)" using Cons.prems g(2) by (auto simp: image_iff)
  with Cons.IH [OF g(1)] Cons.prems(2) g(2) show ?case by auto
qed auto

lemma rollback:
  assumes "ok s" "collectFit fit take qs s" "collect take qs [] s = ((e, hs), s')"
  shows "ok (fold (give t) hs s') \<and> owned (fold (give t) hs s') = owned s"
proof -
  from collect_owned [OF assms] have c: "ok s'" "distinct (map token hs)" "token ` set hs \<inter> owned s = {}"
    "owned s' = owned s \<union> token ` set hs" by auto
  with give_all [OF c(1,2), of t] show ?thesis by auto
qed

end

section \<open>Close gives back what Run took\<close>

fun shape :: "baseProxy \<Rightarrow> proxyConfig \<Rightarrow> held list \<Rightarrow> bool" where
  "shape bp (TCPProxyConfig lb port) hs \<longleftrightarrow> (if Group lb = '''' then \<exists>p. hs = [TcpPort p] else \<exists>l p. hs = [TcpLn l p])"
| "shape bp (UDPProxyConfig port) hs \<longleftrightarrow> (\<exists>p>0. hs = [UdpPort p])"
| "shape bp (HTTPProxyConfig lb d locs user) hs \<longleftrightarrow> (\<forall>h\<in>set hs. (\<exists>r. h = HttpRoute r) \<or> (\<exists>g n. h = HttpMember g n))"
| "shape bp (HTTPSProxyConfig lb d) hs \<longleftrightarrow> (\<forall>h\<in>set hs. (\<exists>r. h = HttpsRoute r) \<or> (\<exists>l. h = HttpsLn l))"
| "shape bp (TCPMuxProxyConfig m lb d user hu hp) hs \<longleftrightarrow> (\<forall>h\<in>set hs. (\<exists>r. h = MuxRoute r) \<or> (\<exists>l. h = MuxLn l))"
| "shape bp (STCPProxyConfig key users) hs \<longleftrightarrow> (\<exists>l. hs = [VisitorLn (bpName bp) l])"
| "shape bp (SUDPProxyConfig key users) hs \<longleftrightarrow> (\<exists>l. hs = [VisitorLn (bpName bp) l])"
| "shape bp (XTCPProxyConfig key users) hs \<longleftrightarrow> hs = [NatClient (bpName bp)]"
| "shape bp (XUDPProxyConfig key users) hs \<longleftrightarrow>
     (\<exists>l. hs = [VisitorLn (bpName bp) l] \<or> hs = [VisitorLn (bpName bp) l, NatClient (bpName bp)])"

lemma fold_closeLn_http: "\<forall>h\<in>set hs. (\<exists>r. h = HttpRoute r) \<or> (\<exists>g n. h = HttpMember g n) \<Longrightarrow> fold (closeLn t) hs rc = rc"
  by (induction hs arbitrary: rc) auto

lemma fold_closeFn_http:
  "\<forall>h\<in>set hs. (\<exists>r. h = HttpRoute r) \<or> (\<exists>g n. h = HttpMember g n) \<Longrightarrow> fold closeFn hs rc = fold (giveRes t) hs rc"
  by (induction hs arbitrary: rc) auto

lemma fold_closeLn_https:
  "\<forall>h\<in>set hs. (\<exists>r. h = HttpsRoute r) \<or> (\<exists>l. h = HttpsLn l) \<Longrightarrow> fold (closeLn t) hs rc = fold (giveRes t) hs rc"
  by (induction hs arbitrary: rc) auto

lemma fold_closeLn_mux:
  "\<forall>h\<in>set hs. (\<exists>r. h = MuxRoute r) \<or> (\<exists>l. h = MuxLn l) \<Longrightarrow> fold (closeLn t) hs rc = fold (giveRes t) hs rc"
  by (induction hs arbitrary: rc) auto

lemma CloseProxy_gives:
  assumes "shape bp c hs" "isXUDP c \<Longrightarrow> NatHoleController rc \<noteq> None \<Longrightarrow> NatClient (bpName bp) \<in> set hs"
  shows "CloseProxy t bp c hs rc = fold (giveRes t) hs rc"
proof -
  have n: "map_option (CloseClient (bpName bp)) (NatHoleController rc) = NatHoleController rc"
    if "isXUDP c" "NatClient (bpName bp) \<notin> set hs" using assms(2) [OF that(1)] that(2) by (cases "NatHoleController rc") auto
  show ?thesis using assms(1) n
    by (cases c)
     (auto simp: close_defs Let_def releasePort_def isXUDP_def fold_closeLn_http fold_closeFn_http [of _ _ t] fold_closeLn_https
        fold_closeLn_mux split: if_splits)
qed

section \<open>Run follows its plan\<close>

lemma collect_map: "collect (\<lambda>x. body (f x)) xs hs s = collect body (map f xs) hs s"
  by (induction xs arbitrary: hs s) (auto split: sum.split prod.split)

lemma collect_keeps:
  assumes "collect body xs hs s = ((e, hs'), s')" "\<And>h. h \<in> set hs \<Longrightarrow> P h"
    "\<And>x s h s1. x \<in> set xs \<Longrightarrow> body x s = (Inr h, s1) \<Longrightarrow> P h"
  shows "\<forall>h\<in>set hs'. P h"
  using assms
proof (induction xs arbitrary: hs s)
  case (Cons x xs)
  obtain y s1 where b: "body x s = (y, s1)" by fastforce
  show ?case
  proof (cases y)
    case (Inl err)
    with Cons.prems b show ?thesis by auto
  next
    case (Inr h)
    with Cons.prems(1) b have c: "collect body xs (hs @ [h]) s1 = ((e, hs'), s')" by simp
    have "P h" using Cons.prems(3) [of x s h s1] b Inr by simp
    moreover have "P h'" if "x' \<in> set xs" "body x' s2 = (Inr h', s3)" for x' s2 h' s3
      using Cons.prems(3) [of x' s2 h' s3] that by simp
    ultimately show ?thesis by (intro Cons.IH [OF c]) (use Cons.prems(2) in auto)
  qed
qed auto

lemma Acquire_allowed:
  assumes "inv A pm" "set ord = freePorts pm" "Acquire av t ord name port pm = (Inr p, pm')"
  shows "p \<in> A"
proof (cases rule: Acquire_cases [of av t ord name port pm])
  case (granted q r)
  then have "p = q" using assms(3) by auto
  with granted(5) reservedPort_Some [OF assms(1)] assms(2) invD(2) [OF assms(1)] show ?thesis by blast
qed (use assms(3) in simp)

lemma portCall_fields [simp]: "avail (portCall os bp cfg p) = avail os" "now (portCall os bp cfg p) = now os"
  "order (portCall os bp cfg p) = order os" "listenOk (portCall os bp cfg p) = listenOk os"
  "proxyName (portCall os bp cfg p) = bpName bp" "cport (portCall os bp cfg p) = p" "caddr (portCall os bp cfg p) = ProxyBindAddr cfg"
  by (simp_all add: portCall_def)

definition knownMux :: "proxyConfig \<Rightarrow> bool" where
  "knownMux c \<longleftrightarrow> (case c of TCPMuxProxyConfig m lb d u hu hp \<Rightarrow> m = TCPMultiplexerHTTPConnect | _ \<Rightarrow> True)"

text \<open>What \<^verbatim>\<open>Run\<close> amounts to, given the outcome of its calls.\<close>

definition outcome :: "int \<Rightarrow> proxyConfig \<Rightarrow> (run_error option \<times> held list) \<times> ResourceController \<Rightarrow> run_result \<Rightarrow> bool" where
  "outcome t c x r \<longleftrightarrow>
     (case x of
        ((None, hs), rc) \<Rightarrow> \<exists>addr. r = (Inr addr, hs, rc)
      | ((Some e, hs), rc) \<Rightarrow> if isXUDP c then r = (Inl e, hs, rc) else r = (Inl e, [], fold (giveRes t) hs rc))"

definition requests :: "serverConfig \<Rightarrow> tcp_call \<Rightarrow> baseProxy \<Rightarrow> proxyConfig \<Rightarrow> ResourceController \<Rightarrow> resourceRequest list" where
  "requests cfg os bp c rc = map (\<lambda>f. f os) (plan cfg (NatHoleController rc \<noteq> None) bp c)"

lemma run_tcp: "outcome t (TCPProxyConfig lb port) (collect takeRes (requests cfg os bp (TCPProxyConfig lb port) rc) [] rc) (TCPRun cfg os bp lb port rc)"
  by (auto simp: TCPRun_def requests_def outcome_def isXUDP_def tcpAcquire_def split: sum.split prod.split)

lemma run_udp:
  assumes "rc_ok allow rc" "reqFit allow (RUdp (portCall os bp cfg port)) rc"
  shows "outcome t (UDPProxyConfig port) (collect takeRes (requests cfg os bp (UDPProxyConfig port) rc) [] rc) (UDPRun os bp port rc)"
proof -
  have i: "inv (allowed_ports allow) (UDPPortManager rc)" "\<forall>p\<in>allowed_ports allow. 0 < p" "set (order os) = freePorts (UDPPortManager rc)"
    using assms by (auto simp: rc_ok_def portFit_def)
  have "0 < p" if "Acquire (avail os) (now os) (order os) (bpName bp) port (UDPPortManager rc) = (Inr p, pm)" for p pm
    using Acquire_allowed [OF i(1,3) that] i(2) by simp
  then show ?thesis
    by (auto simp: UDPRun_def requests_def outcome_def isXUDP_def tcpAcquire_def releasePort_def split: sum.split prod.split)
qed

lemma httpRegister_take: "httpRegister bp lb =
    (\<lambda>r. takeRes (if Group lb \<noteq> '''' then RHttpGroup (bpName bp) (Group lb) (GroupKey lb) r else RHttp (bpName bp) r))"
  by (auto simp: httpRegister_def fun_eq_iff)

lemma listenForDomain_take: "listenForDomain lb =
    (\<lambda>x. takeRes (if Group lb \<noteq> '''' then RHttpsGroup (Group lb) (GroupKey lb) (muxRoute x '''' '''' '''') else RHttps (muxRoute x '''' '''' '''')))"
  by (auto simp: listenForDomain_def fun_eq_iff)

lemma httpConnectListen_take: "httpConnectListen lb user hu hp =
    (\<lambda>x. takeRes (if Group lb \<noteq> '''' then RMuxGroup (Group lb) (GroupKey lb) (muxRoute x user hu hp) else RMux (muxRoute x user hu hp)))"
  by (auto simp: httpConnectListen_def fun_eq_iff)

lemma run_http:
  "outcome t (HTTPProxyConfig lb d locs user) (collect takeRes (requests cfg os bp (HTTPProxyConfig lb d locs user) rc) [] rc) (HTTPRun cfg t bp lb d locs user rc)"
proof -
  define rs where "rs = concat (map (\<lambda>dom. map (\<lambda>loc. httpRoute bp user dom loc) (if locs = [] then [''''] else locs)) (buildDomains cfg d))"
  have q: "requests cfg os bp (HTTPProxyConfig lb d locs user) rc =
      map (\<lambda>r. if Group lb \<noteq> '''' then RHttpGroup (bpName bp) (Group lb) (GroupKey lb) r else RHttp (bpName bp) r) rs"
    by (simp add: requests_def rs_def)
  obtain e hs rc1 where c: "collect (httpRegister bp lb) rs [] rc = ((e, hs), rc1)" by (metis surj_pair)
  have "\<forall>h\<in>set hs. (\<exists>r. h = HttpRoute r) \<or> (\<exists>g n. h = HttpMember g n)"
    by (rule collect_keeps [OF c]) (auto simp: httpRegister_def split: if_splits sum.splits prod.splits)
  then have "shape bp (HTTPProxyConfig lb d locs user) hs" by simp
  from CloseProxy_gives [OF this, of rc1 t] c show ?thesis
    unfolding HTTPRun_def q Let_def rs_def [symmetric]
    by (auto simp: outcome_def isXUDP_def httpRegister_take collect_map [symmetric] split: option.split)
qed

lemma run_https:
  "outcome t (HTTPSProxyConfig lb d) (collect takeRes (requests cfg os bp (HTTPSProxyConfig lb d) rc) [] rc) (HTTPSRun cfg t bp lb d rc)"
proof -
  have q: "requests cfg os bp (HTTPSProxyConfig lb d) rc = map (\<lambda>x. if Group lb \<noteq> '''' then RHttpsGroup (Group lb) (GroupKey lb) (muxRoute x '''' '''' '''')
      else RHttps (muxRoute x '''' '''' '''')) (buildDomains cfg d)"
    by (simp add: requests_def)
  obtain e hs rc1 where c: "collect (listenForDomain lb) (buildDomains cfg d) [] rc = ((e, hs), rc1)" by (metis surj_pair)
  have "\<forall>h\<in>set hs. (\<exists>r. h = HttpsRoute r) \<or> (\<exists>l. h = HttpsLn l)"
    by (rule collect_keeps [OF c]) (auto simp: listenForDomain_def split: if_splits sum.splits prod.splits)
  then have "shape bp (HTTPSProxyConfig lb d) hs" by simp
  from CloseProxy_gives [OF this, of rc1 t] c show ?thesis
    unfolding HTTPSRun_def q Let_def
    by (auto simp: outcome_def isXUDP_def listenForDomain_take collect_map [symmetric] split: option.split)
qed

lemma run_mux:
  assumes "m = TCPMultiplexerHTTPConnect"
  shows "outcome t (TCPMuxProxyConfig m lb d user hu hp) (collect takeRes (requests cfg os bp (TCPMuxProxyConfig m lb d user hu hp) rc) [] rc)
    (TCPMuxRun cfg t bp m lb d user hu hp rc)"
proof -
  let ?c = "TCPMuxProxyConfig m lb d user hu hp"
  have q: "requests cfg os bp ?c rc = map (\<lambda>x. if Group lb \<noteq> '''' then RMuxGroup (Group lb) (GroupKey lb) (muxRoute x user hu hp)
      else RMux (muxRoute x user hu hp)) (buildDomains cfg d)"
    by (simp add: requests_def assms)
  obtain e hs rc1 where c: "collect (httpConnectListen lb user hu hp) (buildDomains cfg d) [] rc = ((e, hs), rc1)" by (metis surj_pair)
  have "\<forall>h\<in>set hs. (\<exists>r. h = MuxRoute r) \<or> (\<exists>l. h = MuxLn l)"
    by (rule collect_keeps [OF c]) (auto simp: httpConnectListen_def split: if_splits sum.splits prod.splits)
  then have "shape bp ?c hs" by simp
  from CloseProxy_gives [OF this, of rc1 t] c show ?thesis
    unfolding TCPMuxRun_def q Let_def
    by (auto simp: outcome_def isXUDP_def assms httpConnectListen_take collect_map [symmetric] split: option.split)
qed

lemma run_visitors:
  "outcome t (STCPProxyConfig key users) (collect takeRes (requests cfg os bp (STCPProxyConfig key users) rc) [] rc) (STCPRun bp key users rc)"
  "outcome t (SUDPProxyConfig key users) (collect takeRes (requests cfg os bp (SUDPProxyConfig key users) rc) [] rc) (SUDPRun bp key users rc)"
  "outcome t (XTCPProxyConfig key users) (collect takeRes (requests cfg os bp (XTCPProxyConfig key users) rc) [] rc) (XTCPRun bp key users rc)"
  "outcome t (XUDPProxyConfig key users) (collect takeRes (requests cfg os bp (XUDPProxyConfig key users) rc) [] rc) (XUDPRun bp key users rc)"
  by (auto simp: STCPRun_def SUDPRun_def XTCPRun_def XUDPRun_def startVisitorListener_def requests_def outcome_def isXUDP_def
      split: sum.split prod.split option.split)

lemma RunProxy_outcome:
  assumes "rc_ok allow rc" "collectFit (reqFit allow) takeRes (requests cfg os bp c rc) rc" "knownMux c"
  shows "outcome (now os) c (collect takeRes (requests cfg os bp c rc) [] rc) (RunProxy cfg os bp c rc)"
proof (cases c)
  case (UDPProxyConfig port)
  have "reqFit allow (RUdp (portCall os bp cfg port)) rc" using assms(2) by (simp add: UDPProxyConfig requests_def)
  from run_udp [OF assms(1) this] show ?thesis by (simp add: UDPProxyConfig)
qed (use assms(3) in \<open>simp_all add: knownMux_def run_tcp run_http run_https run_mux run_visitors\<close>)

lemma plan_shape:
  assumes "rc_ok allow rc" "collectFit (reqFit allow) takeRes (requests cfg os bp c rc) rc" "knownMux c"
    and "collect takeRes (requests cfg os bp c rc) [] rc = ((None, hs), rc')"
  shows "shape bp c hs \<and> (isXUDP c \<longrightarrow> NatHoleController rc' \<noteq> None \<longrightarrow> NatClient (bpName bp) \<in> set hs)"
proof (cases c)
  case (TCPProxyConfig lb port)
  with assms(4) show ?thesis by (auto simp: requests_def isXUDP_def split: if_splits sum.splits prod.splits)
next
  case (UDPProxyConfig port)
  have i: "inv (allowed_ports allow) (UDPPortManager rc)" "\<forall>p\<in>allowed_ports allow. 0 < p" "set (order os) = freePorts (UDPPortManager rc)"
    using assms(1,2) by (auto simp: UDPProxyConfig requests_def rc_ok_def portFit_def)
  from assms(4) Acquire_allowed [OF i(1,3)] i(2) show ?thesis
    by (auto simp: UDPProxyConfig requests_def isXUDP_def tcpAcquire_def split: if_splits sum.splits prod.splits)
next
  case (HTTPProxyConfig lb d locs user)
  have "\<forall>h\<in>set hs. (\<exists>r. h = HttpRoute r) \<or> (\<exists>g n. h = HttpMember g n)"
    by (rule collect_keeps [OF assms(4)]) (auto simp: HTTPProxyConfig requests_def split: if_splits sum.splits prod.splits)
  then show ?thesis by (simp add: HTTPProxyConfig isXUDP_def)
next
  case (HTTPSProxyConfig lb d)
  have "\<forall>h\<in>set hs. (\<exists>r. h = HttpsRoute r) \<or> (\<exists>l. h = HttpsLn l)"
    by (rule collect_keeps [OF assms(4)]) (auto simp: HTTPSProxyConfig requests_def split: if_splits sum.splits prod.splits)
  then show ?thesis by (simp add: HTTPSProxyConfig isXUDP_def)
next
  case (TCPMuxProxyConfig m lb d user hu hp)
  have "\<forall>h\<in>set hs. (\<exists>r. h = MuxRoute r) \<or> (\<exists>l. h = MuxLn l)"
    by (rule collect_keeps [OF assms(4)]) (auto simp: TCPMuxProxyConfig requests_def split: if_splits sum.splits prod.splits)
  then show ?thesis by (simp add: TCPMuxProxyConfig isXUDP_def)
qed (use assms(4) in \<open>auto simp: requests_def isXUDP_def split: if_splits sum.splits prod.splits option.splits\<close>)

lemma run_owned:
  assumes "rc_ok allow rc" "collectFit (reqFit allow) takeRes (requests cfg os bp c rc) rc"
  shows "case RunProxy cfg os bp c rc of
     (Inl e, hs, rc') \<Rightarrow> rc_ok allow rc' \<and> owned rc' = owned rc \<union> token_of ` set hs \<and> (\<not> isXUDP c \<longrightarrow> hs = [])
   | (Inr addr, hs, rc') \<Rightarrow> rc_ok allow rc' \<and> distinct (map token_of hs) \<and> token_of ` set hs \<inter> owned rc = {} \<and>
       owned rc' = owned rc \<union> token_of ` set hs \<and> CloseProxy t bp c hs rc' = fold (giveRes t) hs rc' \<and>
       owned (CloseProxy t bp c hs rc') = owned rc"
proof (cases "knownMux c")
  case False
  then show ?thesis using assms(1)
    by (auto simp: knownMux_def TCPMuxRun_def close_defs isXUDP_def split: proxyConfig.splits)
next
  case True
  obtain e hs rc1 where cl: "collect takeRes (requests cfg os bp c rc) [] rc = ((e, hs), rc1)" by (metis surj_pair)
  note o = RunProxy_outcome [OF assms True, unfolded cl]
  from server.collect_owned [OF assms cl] have co: "rc_ok allow rc1" "distinct (map token_of hs)" "token_of ` set hs \<inter> owned rc = {}"
    "owned rc1 = owned rc \<union> token_of ` set hs" by auto
  show ?thesis
  proof (cases e)
    case (Some err)
    with o co server.rollback [OF assms cl, of "now os"] show ?thesis by (auto simp: outcome_def split: if_splits)
  next
    case None
    note sh = plan_shape [OF assms True cl [unfolded None]]
    have "CloseProxy t bp c hs rc1 = fold (giveRes t) hs rc1" by (rule CloseProxy_gives) (use sh in auto)
    with server.rollback [OF assms cl, of t] o co None show ?thesis by (auto simp: outcome_def)
  qed
qed

section \<open>Proxies side by side\<close>

text \<open>
  Controls register and close their proxies concurrently.  A proxy makes the calls of its \<^verbatim>\<open>Run\<close> one after the other,
  each of them atomic, and gives back what it holds one by one when a call failed or when it is closed; the calls
  of different proxies and the server's other work on the shared components interleave.  A proxy that is \<open>Dropped\<close>
  has returned an error and is not touched again.
\<close>

datatype proxyPhase = Starting | Releasing | Dropped

record proxyState =
  psBase :: baseProxy
  psConf :: proxyConfig
  todo :: "(tcp_call \<Rightarrow> resourceRequest) list"
  got :: "held list"
  phase :: proxyPhase

record proxySys =
  prc :: ResourceController
  pxys :: "nat \<rightharpoonup> proxyState"

text \<open>The server starts with the allowed ports and, unless NAT holes are switched off, a controller for them.\<close>

definition proxyStart :: "ports_range list \<Rightarrow> int option \<Rightarrow> proxySys" where
  "proxyStart allow d = \<lparr>prc = NewResourceController allow (map_option NewController d), pxys = Map.empty\<rparr>"

datatype pevent =
    PStart nat baseProxy proxyConfig
  | PCall nat tcp_call
  | PClose nat
  | PGive int nat
  | PClean int "string list"
  | PCleanUdp int "string list"
  | PVisitor "string \<Rightarrow> bytes" bool string visitor_conn
  | PRequest nat
  | PNat "string \<Rightarrow> bytes" "analysis_error \<Rightarrow> string" nevent

text \<open>The NAT-hole controller's clients come and go with the proxies; its other work is an event of its own.\<close>

fun natWork :: "nevent \<Rightarrow> bool" where
  "natWork (NListen n k us) \<longleftrightarrow> False"
| "natWork (NClose n) \<longleftrightarrow> False"
| "natWork _ \<longleftrightarrow> True"

fun pguard :: "ports_range list \<Rightarrow> pevent \<Rightarrow> proxySys \<Rightarrow> bool" where
  "pguard allow (PStart i bp c) s \<longleftrightarrow> pxys s i = None \<and> knownMux c"
| "pguard allow (PCall i os) s \<longleftrightarrow>
     (case pxys s i of
        None \<Rightarrow> False
      | Some p \<Rightarrow> phase p = Starting \<and> (case todo p of [] \<Rightarrow> False | q # qs \<Rightarrow> reqFit allow (q os) (prc s)))"
| "pguard allow (PClose i) s \<longleftrightarrow> (case pxys s i of None \<Rightarrow> False | Some p \<Rightarrow> phase p = Starting \<and> todo p = [])"
| "pguard allow (PGive t i) s \<longleftrightarrow> (case pxys s i of None \<Rightarrow> False | Some p \<Rightarrow> phase p = Releasing \<and> got p \<noteq> [])"
| "pguard allow (PClean t ord) s \<longleftrightarrow> op_ok (OpClean t ord) (resource (TCPGroupCtl (prc s)))"
| "pguard allow (PCleanUdp t ord) s \<longleftrightarrow> op_ok (OpClean t ord) (UDPPortManager (prc s))"
| "pguard allow (PVisitor md5 encOk name v) s \<longleftrightarrow> True"
| "pguard allow (PRequest a) s \<longleftrightarrow> a < length (hstore (HTTPGroupCtl (prc s)))"
| "pguard allow (PNat md5 et e) s \<longleftrightarrow> natWork e \<and> (case NatHoleController (prc s) of None \<Rightarrow> False | Some c \<Rightarrow> nguard e c)"

fun phappen :: "serverConfig \<Rightarrow> pevent \<Rightarrow> proxySys \<Rightarrow> proxySys" where
  "phappen cfg (PStart i bp c) s =
     s\<lparr>pxys := (pxys s)(i \<mapsto> \<lparr>psBase = bp, psConf = c, todo = plan cfg (NatHoleController (prc s) \<noteq> None) bp c, got = [],
                              phase = Starting\<rparr>)\<rparr>"
| "phappen cfg (PCall i os) s =
     (case pxys s i of
        None \<Rightarrow> s
      | Some p \<Rightarrow>
          (case todo p of
             [] \<Rightarrow> s
           | q # qs \<Rightarrow>
               (case takeRes (q os) (prc s) of
                  (Inl e, rc) \<Rightarrow>
                    s\<lparr>prc := rc, pxys := (pxys s)(i \<mapsto> p\<lparr>todo := [], phase := if isXUDP (psConf p) then Dropped else Releasing\<rparr>)\<rparr>
                | (Inr h, rc) \<Rightarrow> s\<lparr>prc := rc, pxys := (pxys s)(i \<mapsto> p\<lparr>todo := qs, got := got p @ [h]\<rparr>)\<rparr>)))"
| "phappen cfg (PClose i) s =
     (case pxys s i of None \<Rightarrow> s | Some p \<Rightarrow> s\<lparr>pxys := (pxys s)(i \<mapsto> p\<lparr>phase := Releasing\<rparr>)\<rparr>)"
| "phappen cfg (PGive t i) s =
     (case pxys s i of
        None \<Rightarrow> s
      | Some p \<Rightarrow>
          (case got p of
             [] \<Rightarrow> s
           | h # hs \<Rightarrow> s\<lparr>prc := giveRes t h (prc s), pxys := (pxys s)(i \<mapsto> p\<lparr>got := hs\<rparr>)\<rparr>))"
| "phappen cfg (PClean t ord) s =
     s\<lparr>prc := (prc s)\<lparr>TCPGroupCtl := (TCPGroupCtl (prc s))\<lparr>resource := cleanReservedPortsOnce t ord (resource (TCPGroupCtl (prc s)))\<rparr>\<rparr>\<rparr>"
| "phappen cfg (PCleanUdp t ord) s =
     s\<lparr>prc := (prc s)\<lparr>UDPPortManager := cleanReservedPortsOnce t ord (UDPPortManager (prc s))\<rparr>\<rparr>"
| "phappen cfg (PVisitor md5 encOk name v) s =
     s\<lparr>prc := (prc s)\<lparr>VisitorManager := snd (visitorNewConn md5 encOk name v (VisitorManager (prc s)))\<rparr>\<rparr>"
| "phappen cfg (PRequest a) s =
     s\<lparr>prc := (prc s)\<lparr>HTTPGroupCtl := snd (chooseEndpoint a (HTTPGroupCtl (prc s)))\<rparr>\<rparr>"
| "phappen cfg (PNat md5 et e) s = s\<lparr>prc := (prc s)\<lparr>NatHoleController := map_option (nhappen md5 et e) (NatHoleController (prc s))\<rparr>\<rparr>"

definition heldToks :: "proxyState \<Rightarrow> token list" where
  "heldToks p = map token_of (got p)"

text \<open>Every resource that is taken is held by exactly one proxy.\<close>

definition pinv :: "ports_range list \<Rightarrow> proxySys \<Rightarrow> bool" where
  "pinv allow s \<longleftrightarrow> rc_ok allow (prc s) \<and>
     owned (prc s) = (\<Union>p\<in>ran (pxys s). set (heldToks p)) \<and>
     (\<forall>i p. pxys s i = Some p \<longrightarrow> distinct (heldToks p)) \<and>
     (\<forall>i j p q. pxys s i = Some p \<longrightarrow> pxys s j = Some q \<longrightarrow> i \<noteq> j \<longrightarrow> set (heldToks p) \<inter> set (heldToks q) = {}) \<and>
     (\<forall>i p. pxys s i = Some p \<longrightarrow> phase p = Dropped \<longrightarrow> isXUDP (psConf p))"

lemma owned_iff_held:
  "owned rc = (\<Union>p\<in>ran m. set (heldToks p)) \<longleftrightarrow> (\<forall>k. k \<in> owned rc \<longleftrightarrow> (\<exists>i p. m i = Some p \<and> k \<in> set (heldToks p)))"
  unfolding ran_def by blast

lemma pinvD:
  assumes "pinv allow s"
  shows "rc_ok allow (prc s)" "\<And>k. k \<in> owned (prc s) \<longleftrightarrow> (\<exists>i p. pxys s i = Some p \<and> k \<in> set (heldToks p))"
    "\<And>i p. pxys s i = Some p \<Longrightarrow> distinct (heldToks p)"
    "\<And>i j p q k. pxys s i = Some p \<Longrightarrow> pxys s j = Some q \<Longrightarrow> k \<in> set (heldToks p) \<Longrightarrow> k \<in> set (heldToks q) \<Longrightarrow> i = j"
    "\<And>i p. pxys s i = Some p \<Longrightarrow> phase p = Dropped \<Longrightarrow> isXUDP (psConf p)"
  using assms unfolding pinv_def owned_iff_held by blast+

lemma pinvI:
  assumes "rc_ok allow (prc s)" "\<And>k. k \<in> owned (prc s) \<longleftrightarrow> (\<exists>i p. pxys s i = Some p \<and> k \<in> set (heldToks p))"
    "\<And>i p. pxys s i = Some p \<Longrightarrow> distinct (heldToks p)"
    "\<And>i j p q k. pxys s i = Some p \<Longrightarrow> pxys s j = Some q \<Longrightarrow> k \<in> set (heldToks p) \<Longrightarrow> k \<in> set (heldToks q) \<Longrightarrow> i = j"
    "\<And>i p. pxys s i = Some p \<Longrightarrow> phase p = Dropped \<Longrightarrow> isXUDP (psConf p)"
  shows "pinv allow s"
  using assms unfolding pinv_def owned_iff_held by blast

lemma ex_upd: "(\<exists>j q. (m(i \<mapsto> p')) j = Some q \<and> Q q) \<longleftrightarrow> Q p' \<or> (\<exists>j q. j \<noteq> i \<and> m j = Some q \<and> Q q)"
  by (auto split: if_splits)

lemma ex_at: "m i = Some p \<Longrightarrow> (\<exists>j q. m j = Some q \<and> Q q) \<longleftrightarrow> Q p \<or> (\<exists>j q. j \<noteq> i \<and> m j = Some q \<and> Q q)"
  by (metis option.inject)

text \<open>The server's other work on the components takes nothing and gives nothing back.\<close>

lemma pinv_frame:
  assumes "pinv allow s" "rc_ok allow rc" "owned rc = owned (prc s)"
  shows "pinv allow (s\<lparr>prc := rc\<rparr>)"
  using assms unfolding pinv_def by simp

text \<open>A proxy takes over what it got, or goes on without a change of the resources.\<close>

lemma pinv_got:
  assumes "pinv allow s" "pxys s i = Some p" "rc_ok allow rc" "token_of h \<notin> owned (prc s)" "owned rc = insert (token_of h) (owned (prc s))"
    "got p' = got p @ [h]" "psConf p' = psConf p" "phase p' = phase p"
  shows "pinv allow (s\<lparr>prc := rc, pxys := (pxys s)(i \<mapsto> p')\<rparr>)"
proof -
  note D = pinvD [OF assms(1)]
  have h: "set (heldToks p') = insert (token_of h) (set (heldToks p))" "distinct (heldToks p')"
    using D(2,3) assms(2,4,6) by (auto simp: heldToks_def)
  have n: "token_of h \<notin> set (heldToks q)" if "pxys s j = Some q" for j q using D(2) assms(4) that by blast
  show ?thesis
  proof (rule pinvI)
    show "k \<in> owned (prc (s\<lparr>prc := rc, pxys := (pxys s)(i \<mapsto> p')\<rparr>)) \<longleftrightarrow>
        (\<exists>j q. pxys (s\<lparr>prc := rc, pxys := (pxys s)(i \<mapsto> p')\<rparr>) j = Some q \<and> k \<in> set (heldToks q))" for k
      using assms(5) h(1) D(2) [of k] by (auto simp: ex_upd ex_at [of "pxys s" i p, OF assms(2)])
  qed (use assms h D n in \<open>auto split: if_splits\<close>)
qed

lemma pinv_same:
  assumes "pinv allow s" "pxys s i = Some p" "rc_ok allow rc" "owned rc = owned (prc s)" "got p' = got p" "psConf p' = psConf p"
    "phase p' = Dropped \<Longrightarrow> isXUDP (psConf p)"
  shows "pinv allow (s\<lparr>prc := rc, pxys := (pxys s)(i \<mapsto> p')\<rparr>)"
proof -
  note D = pinvD [OF assms(1)]
  have h: "heldToks p' = heldToks p" using assms(5) by (simp add: heldToks_def)
  show ?thesis
  proof (rule pinvI)
    show "k \<in> owned (prc (s\<lparr>prc := rc, pxys := (pxys s)(i \<mapsto> p')\<rparr>)) \<longleftrightarrow>
        (\<exists>j q. pxys (s\<lparr>prc := rc, pxys := (pxys s)(i \<mapsto> p')\<rparr>) j = Some q \<and> k \<in> set (heldToks q))" for k
      using assms(4) h D(2) [of k] by (auto simp: ex_upd ex_at [of "pxys s" i p, OF assms(2)])
  qed (use assms h D in \<open>auto split: if_splits\<close>)
qed

lemma pinv_gave:
  assumes "pinv allow s" "pxys s i = Some p" "got p = h # hs"
  shows "pinv allow (s\<lparr>prc := giveRes t h (prc s), pxys := (pxys s)(i \<mapsto> p\<lparr>got := hs\<rparr>)\<rparr>)"
proof -
  note D = pinvD [OF assms(1)]
  have k: "token_of h \<in> owned (prc s)" unfolding D(2) by (intro exI conjI, rule assms(2)) (simp add: heldToks_def assms(3))
  note g = giveRes_gives [OF D(1) k, of t]
  have h: "set (heldToks (p\<lparr>got := hs\<rparr>)) = set (heldToks p) - {token_of h}" "distinct (heldToks (p\<lparr>got := hs\<rparr>))"
    using D(3) [OF assms(2)] assms(3) by (auto simp: heldToks_def image_iff)
  have n: "token_of h \<notin> set (heldToks q)" if "pxys s j = Some q" "j \<noteq> i" for j q
    using D(4) [OF assms(2) that(1), of "token_of h"] assms(3) that(2) by (auto simp: heldToks_def)
  show ?thesis
  proof (rule pinvI)
    show "k \<in> owned (prc (s\<lparr>prc := giveRes t h (prc s), pxys := (pxys s)(i \<mapsto> p\<lparr>got := hs\<rparr>)\<rparr>)) \<longleftrightarrow>
        (\<exists>j q. pxys (s\<lparr>prc := giveRes t h (prc s), pxys := (pxys s)(i \<mapsto> p\<lparr>got := hs\<rparr>)\<rparr>) j = Some q \<and> k \<in> set (heldToks q))" for k
      using g h(1) D(2) [of k] n by (auto simp: ex_upd ex_at [of "pxys s" i p, OF assms(2)])
  qed (use assms g h D in \<open>auto split: if_splits\<close>)
qed

lemma nhappen_clients: "natWork e \<Longrightarrow> clientCfgs (nhappen md5 et e c) = clientCfgs c"
  by (cases e)
     (auto simp: stopReading_def HandleVisitor_def preCheck_def send_def visitorEnd_def HandleClient_def HandleReport_def
        visitorRespond_def Let_def split: option.splits if_splits prod.splits)

lemma frame_clean:
  assumes "rc_ok allow rc"
  shows "rc_ok allow (rc\<lparr>TCPGroupCtl := (TCPGroupCtl rc)\<lparr>resource := cleanReservedPortsOnce t ord (resource (TCPGroupCtl rc))\<rparr>\<rparr>) \<and>
    owned (rc\<lparr>TCPGroupCtl := (TCPGroupCtl rc)\<lparr>resource := cleanReservedPortsOnce t ord (resource (TCPGroupCtl rc))\<rparr>\<rparr>) = owned rc"
proof -
  have ck: "tcp_groups.cok allow (TCPGroupCtl rc)" using assms by (simp add: rc_ok_def)
  have u: "dom (usedPorts (cleanReservedPortsOnce t ord (resource (TCPGroupCtl rc)))) = dom (usedPorts (resource (TCPGroupCtl rc)))"
    by (simp add: cleanReservedPortsOnce_def clean_loop_fields)
  from tcp_ports.own_same [OF ck inv_clean [OF tcp_groups.cokD(1) [OF ck]] u] assms show ?thesis
    by (simp add: rc_ok_def tcpOwn_def owned_tcp(1))
qed

lemma frame_clean_udp:
  assumes "rc_ok allow rc"
  shows "rc_ok allow (rc\<lparr>UDPPortManager := cleanReservedPortsOnce t ord (UDPPortManager rc)\<rparr>) \<and>
    owned (rc\<lparr>UDPPortManager := cleanReservedPortsOnce t ord (UDPPortManager rc)\<rparr>) = owned rc"
  using assms inv_clean [of "allowed_ports allow" "UDPPortManager rc"]
  by (simp add: rc_ok_def udpOwn_def owned_udp(1) cleanReservedPortsOnce_def clean_loop_fields)

lemma frame_visitor:
  assumes "rc_ok allow rc"
  shows "rc_ok allow (rc\<lparr>VisitorManager := snd (visitorNewConn md5 encOk name v (VisitorManager rc))\<rparr>) \<and>
    owned (rc\<lparr>VisitorManager := snd (visitorNewConn md5 encOk name v (VisitorManager rc))\<rparr>) = owned rc"
proof -
  have "vlisteners (snd (visitorNewConn md5 encOk name v vm)) = vlisteners vm" for vm
    by (auto simp: visitorNewConn_def PutConn_def split: option.splits)
  with assms vm_ok_NewConn [of "VisitorManager rc"] show ?thesis
    by (simp add: rc_ok_def owned_visitor(1) visitorOwn_def)
qed

lemma frame_request:
  assumes "rc_ok allow rc" "a < length (hstore (HTTPGroupCtl rc))"
  shows "rc_ok allow (rc\<lparr>HTTPGroupCtl := snd (chooseEndpoint a (HTTPGroupCtl rc))\<rparr>) \<and>
    owned (rc\<lparr>HTTPGroupCtl := snd (chooseEndpoint a (HTTPGroupCtl rc))\<rparr>) = owned rc"
proof -
  have "hmembers (bump a (HTTPGroupCtl rc)) = hmembers (HTTPGroupCtl rc)"
    using bump_fields(1) [OF assms(2)] by (auto simp: hmembers_def bump_fields(2) split: if_splits) metis+
  with assms ctl_ok_bump [of "HTTPGroupCtl rc" a] show ?thesis
    by (simp add: rc_ok_def chooseEndpoint_def owned_http(1) ownRoutes_def bump_fields)
qed

lemma frame_nat:
  assumes "rc_ok allow rc" "natWork e"
  shows "rc_ok allow (rc\<lparr>NatHoleController := map_option (nhappen md5 et e) (NatHoleController rc)\<rparr>) \<and>
    owned (rc\<lparr>NatHoleController := map_option (nhappen md5 et e) (NatHoleController rc)\<rparr>) = owned rc"
  using assms nhappen_clients [OF assms(2)]
  by (cases "NatHoleController rc") (auto simp: rc_ok_def owned_nat(1) natOwn_def)

lemma pinv_event:
  assumes "pinv allow s" "pguard allow e s"
  shows "pinv allow (phappen cfg e s)"
proof (cases e)
  case (PStart i bp c)
  note D = pinvD [OF assms(1)]
  have i: "pxys s i = None" using assms(2) PStart by simp
  let ?p = "\<lparr>psBase = bp, psConf = c, todo = plan cfg (NatHoleController (prc s) \<noteq> None) bp c, got = [], phase = Starting\<rparr>"
  have h: "heldToks ?p = []" by (simp add: heldToks_def)
  show ?thesis unfolding PStart phappen.simps
  proof (rule pinvI)
    show "k \<in> owned (prc (s\<lparr>pxys := (pxys s)(i \<mapsto> ?p)\<rparr>)) \<longleftrightarrow>
        (\<exists>j q. pxys (s\<lparr>pxys := (pxys s)(i \<mapsto> ?p)\<rparr>) j = Some q \<and> k \<in> set (heldToks q))" for k
      using h i D(2) [of k] by (auto simp: ex_upd) (metis option.distinct(1))
  qed (use D h in \<open>auto split: if_splits\<close>)
next
  case (PCall i os)
  then obtain p q qs where p: "pxys s i = Some p" "phase p = Starting" "todo p = q # qs" "reqFit allow (q os) (prc s)"
    using assms(2) by (auto split: option.splits list.splits)
  obtain x rc where t: "takeRes (q os) (prc s) = (x, rc)" by fastforce
  note k = takeRes_took [OF pinvD(1) [OF assms(1)] p(4) t]
  show ?thesis
  proof (cases x)
    case (Inl err)
    then have "phappen cfg e s = s\<lparr>prc := rc, pxys := (pxys s)(i \<mapsto> p\<lparr>todo := [], phase := if isXUDP (psConf p) then Dropped else Releasing\<rparr>)\<rparr>"
      using p t by (simp add: PCall)
    with pinv_same [OF assms(1) p(1), of rc "p\<lparr>todo := [], phase := if isXUDP (psConf p) then Dropped else Releasing\<rparr>"] k Inl
    show ?thesis by (simp add: took_def split: if_splits)
  next
    case (Inr h)
    with pinv_got [OF assms(1) p(1), of rc h "p\<lparr>todo := qs, got := got p @ [h]\<rparr>"] k p t show ?thesis
      by (simp add: PCall took_def)
  qed
next
  case (PClose i)
  then obtain p where p: "pxys s i = Some p" using assms(2) by (auto split: option.splits)
  with pinv_same [OF assms(1) p pinvD(1) [OF assms(1)], of "p\<lparr>phase := Releasing\<rparr>"] show ?thesis by (simp add: PClose)
next
  case (PGive t i)
  then obtain p h hs where "pxys s i = Some p" "got p = h # hs"
    using assms(2) by (auto split: option.splits simp: neq_Nil_conv)
  with pinv_gave [OF assms(1) this, of t] show ?thesis by (simp add: PGive)
next
  case (PClean t ord)
  with pinv_frame [OF assms(1)] frame_clean [OF pinvD(1) [OF assms(1)]] show ?thesis by simp
next
  case (PCleanUdp t ord)
  with pinv_frame [OF assms(1)] frame_clean_udp [OF pinvD(1) [OF assms(1)]] show ?thesis by simp
next
  case (PVisitor md5 encOk name v)
  with pinv_frame [OF assms(1)] frame_visitor [OF pinvD(1) [OF assms(1)]] show ?thesis by simp
next
  case (PRequest a)
  with pinv_frame [OF assms(1)] frame_request [OF pinvD(1) [OF assms(1)]] assms(2) show ?thesis by simp
next
  case (PNat md5 et ev)
  with pinv_frame [OF assms(1)] frame_nat [OF pinvD(1) [OF assms(1)]] assms(2) show ?thesis by simp
qed

lemma route_table_New: "route_table NewRouters = Map.empty"
  by (simp add: fun_eq_iff NewRouters_def route_table_def exist_def routersOf_def)

lemma owned_New: "owned (NewResourceController allow (map_option NewController d)) = {}"
  by (cases d) (simp_all add: owned_def NewResourceController_def tcpOwn_def muxOwn_def udpOwn_def visitorOwn_def natOwn_def ownKeys_def
      openLns_def newCtl_def ownRoutes_def hmembers_def route_table_New NewHTTPGroupController_def NewVisitorManager_def NewManager_def
      NewController_def)

interpretation server_proxies: event_system "pguard allow" "phappen cfg" "proxyStart allow d" "pinv allow" for allow cfg d
proof unfold_locales
  show "pinv allow (proxyStart allow d)"
    by (rule pinvI) (simp_all add: proxyStart_def rc_ok_New owned_New)
qed (rule pinv_event)

context keyed_groups
begin

lemma none_open:
  assumes "cok ctl" "openLns ctl = {}" "ownKeys key keys ctl = {}"
  shows "keys (resource ctl) = {}"
proof -
  have "lns (lgrp a ctl) = []" if a: "a < length (gstore ctl)" for a
  proof (rule ccontr)
    assume "lns (lgrp a ctl) \<noteq> []"
    then obtain l where l: "l \<in> set (lns (lgrp a ctl))" by fastforce
    with cokD(3) [OF assms(1) a] have "l < length (lnGroup ctl)" "lnGroup ctl ! l = a" by (auto simp: gok_def)
    with cokD(6) [OF assms(1), of l] l assms(2) show False by (auto simp: openLns_def)
  qed
  then have "openGroups ctl = {}" by (auto simp: openGroups_iff)
  with assms(3) show ?thesis by (simp add: ownKeys_def)
qed

end

lemma no_members:
  assumes "ctl_ok c" "ownRoutes c = {}" "hmembers c = {}"
  shows "route_table (vhostRouter c) = Map.empty"
proof
  fix k
  show "route_table (vhostRouter c) k = None"
  proof (rule ccontr)
    assume "route_table (vhostRouter c) k \<noteq> None"
    then obtain x where x: "route_table (vhostRouter c) k = Some x" by blast
    then obtain a where "x = HGroup a" using assms(2) by (cases x; cases k) (auto simp: ownRoutes_def)
    with ctl_okD(5) [OF assms(1)] x have a: "a < length (hstore c)" "createFuncs (grp a c) \<noteq> []" by auto
    then have "pxyNames (grp a c) \<noteq> []" using group_ok_empty [OF ctl_okD(2) [OF assms(1) a(1)]] by simp
    then obtain n where "n \<in> set (pxyNames (grp a c))" by fastforce
    with a assms(3) show False by (auto simp: hmembers_def)
  qed
qed

lemma nothing_owned:
  assumes "rc_ok allow rc" "owned rc = {}"
  shows "usedPorts (resource (TCPGroupCtl rc)) = Map.empty" "usedPorts (UDPPortManager rc) = Map.empty"
    "route_table (vhostRouter (HTTPGroupCtl rc)) = Map.empty" "route_table (resource (HTTPSGroupCtl rc)) = Map.empty"
    "route_table (resource (TCPMuxGroupCtl rc)) = Map.empty" "vlisteners (VisitorManager rc) = Map.empty"
    "natOwn (NatHoleController rc) = {}"
proof -
  have o: "tcpOwn (TCPGroupCtl rc) = {}" "openLns (TCPGroupCtl rc) = {}" "udpOwn (UDPPortManager rc) = {}" "ownRoutes (HTTPGroupCtl rc) = {}"
    "hmembers (HTTPGroupCtl rc) = {}" "muxOwn (HTTPSGroupCtl rc) = {}" "openLns (HTTPSGroupCtl rc) = {}" "muxOwn (TCPMuxGroupCtl rc) = {}"
    "openLns (TCPMuxGroupCtl rc) = {}" "visitorOwn (VisitorManager rc) = {}" "natOwn (NatHoleController rc) = {}"
    using assms(2) by (auto simp: owned_def)
  have ck: "tcp_groups.cok allow (TCPGroupCtl rc)" "ctl_ok (HTTPGroupCtl rc)" "https_groups.cok (HTTPSGroupCtl rc)"
    "tcpmux_groups.cok (TCPMuxGroupCtl rc)" using assms(1) by (simp_all add: rc_ok_def)
  show "usedPorts (resource (TCPGroupCtl rc)) = Map.empty"
    using tcp_ports.none_open [OF ck(1) o(2) o(1) [unfolded tcpOwn_def]] by auto
  show "usedPorts (UDPPortManager rc) = Map.empty" using o(3) by (simp add: udpOwn_def)
  show "route_table (vhostRouter (HTTPGroupCtl rc)) = Map.empty" by (rule no_members [OF ck(2) o(4,5)])
  show "route_table (resource (HTTPSGroupCtl rc)) = Map.empty"
    using https_routes.none_open [OF ck(3) o(7) o(6) [unfolded muxOwn_def]] by simp
  show "route_table (resource (TCPMuxGroupCtl rc)) = Map.empty"
    using tcpmux_routes.none_open [OF ck(4) o(9) o(8) [unfolded muxOwn_def]] by simp
  show "vlisteners (VisitorManager rc) = Map.empty" using o(10) by (simp add: visitorOwn_def)
  show "natOwn (NatHoleController rc) = {}" by (rule o(11))
qed

lemma dropped_stays:
  assumes "pguard allow e u" "pxys u i = Some p" "phase p = Dropped"
  shows "pxys (phappen cfg e u) i = Some p"
  using assms by (cases e) (auto split: option.splits list.splits sum.splits prod.splits)

section \<open>Properties\<close>



text \<open>An xudp proxy whose \<^verbatim>\<open>Run\<close> fails at the NAT-hole controller blocks its name: whatever happens later, the visitor
  listener stays registered, and no proxy of the types stcp, sudp and xudp can start under that name.\<close>

theorem xudp_name_blocked:
  assumes "steps (pguard allow) (phappen cfg) (proxyStart allow d) s"
    and "pxys s i = Some p" "phase p = Dropped" "VisitorLn n l \<in> set (got p)"
    and "steps (pguard allow) (phappen cfg) s s'" "bpName bp = n"
  shows "STCPRun bp key users (prc s') = (Inl (VisitorErr (ListenerRepeated n)), [], prc s') \<and>
    SUDPRun bp key users (prc s') = (Inl (VisitorErr (ListenerRepeated n)), [], prc s') \<and>
    XUDPRun bp key users (prc s') = (Inl (VisitorErr (ListenerRepeated n)), [], prc s')"
proof -
  have s: "pinv allow s" by (rule server_proxies.good_reached [OF assms(1)])
  have "pxys s' i = Some p"
    by (rule server_proxies.stable_steps [OF assms(5) s, of "\<lambda>u. pxys u i = Some p"]) (use assms(2,3) dropped_stays in auto)
  with server_proxies.good_steps [OF assms(5) s] have "pxys s' i = Some p" "pinv allow s'" by simp_all
  then have "KVisitor n \<in> owned (prc s')"
    using pinvD(2) [of allow s' "KVisitor n"] assms(4) by (force simp: heldToks_def)
  then have "vlisteners (VisitorManager (prc s')) n \<noteq> None" by (auto simp: visitorOwn_def)
  then show ?thesis using assms(6) by (simp add: STCPRun_def SUDPRun_def XUDPRun_def startVisitorListener_def visitorListen_def)
qed

section \<open>Witnesses\<close>

definition demo_cfg :: serverConfig where
  "demo_cfg = \<lparr>ProxyBindAddr = ''0.0.0.0'', SubDomainHost = ''example.com'', VhostHTTPPort = 80, VhostHTTPSPort = 443,
     TCPMuxHTTPConnectPort = 1337\<rparr>"

definition demo_os :: "int list \<Rightarrow> tcp_call" where
  "demo_os free = \<lparr>avail = (\<lambda>p. p \<in> set free), now = 0, order = free, listenOk = (\<lambda>p. p \<in> set free), proxyName = '''', caddr = '''', cport = 0\<rparr>"

definition demo_bp :: baseProxy where "demo_bp = \<lparr>bpName = ''a'', bpUser = ''u'', bpConn = 0\<rparr>"

definition demo_tcp_conf :: proxyConfig where "demo_tcp_conf = TCPProxyConfig \<lparr>Group = '''', GroupKey = ''''\<rparr> 6000"

lemmas demo_eval = demo_cfg_def demo_os_def demo_bp_def demo_tcp_conf_def proxyStart_def NewResourceController_def newCtl_def portFit_def
  portCall_def tcpAcquire_def port_eval knownMux_def isXUDP_def NewController_def visitorListen_def NewVisitorManager_def ListenClient_def
  CloseClient_def allowedUsers_def NewInternalListener_def

definition demo_run :: "pevent list" where
  "demo_run = [PStart 0 demo_bp demo_tcp_conf, PStart 1 demo_bp demo_tcp_conf, PCall 0 (demo_os [6000]), PCall 1 (demo_os []), PClose 0, PGive 5 0]"

lemma demo_run_ok: "run_ok (pguard demo_allow) (phappen demo_cfg) demo_run (proxyStart demo_allow None)"
  by (simp add: demo_run_def demo_eval)


definition demo_rc :: ResourceController where
  "demo_rc = NewResourceController demo_allow None"


text \<open>An xtcp and an xudp proxy of the same name start at the same time; the xudp proxy fails at the NAT-hole controller,
  the xtcp proxy is closed, and the name stays blocked.\<close>

definition demo_blocked :: "pevent list" where
  "demo_blocked = [PStart 0 demo_bp (XTCPProxyConfig ''k'' []), PStart 1 demo_bp (XUDPProxyConfig ''k'' []), PCall 0 (demo_os []),
     PCall 1 (demo_os []), PCall 1 (demo_os []), PClose 0, PGive 0 0]"

lemma demo_blocked_ok: "run_ok (pguard demo_allow) (phappen demo_cfg) demo_blocked (proxyStart demo_allow (Some 0))"
  by (simp add: demo_blocked_def demo_eval)

definition demo_left :: proxySys where
  "demo_left = fold (phappen demo_cfg) demo_blocked (proxyStart demo_allow (Some 0))"

theorem xudp_name_blocked_witness:
  "fst (STCPRun demo_bp ''k2'' [] (prc demo_left)) = Inl (VisitorErr (ListenerRepeated ''a''))"
proof -
  obtain p where p: "pxys demo_left 1 = Some p" "phase p = Dropped" "VisitorLn ''a'' 0 \<in> set (got p)"
    by (simp add: demo_left_def demo_blocked_def demo_eval)
  have "steps (pguard demo_allow) (phappen demo_cfg) (proxyStart demo_allow (Some 0)) demo_left"
    unfolding demo_left_def by (rule steps_run [OF demo_blocked_ok])
  from xudp_name_blocked [OF this p steps_refl, of demo_bp] show ?thesis by (simp add: demo_bp_def)
qed

end
