(* ===== verification/Proxy_Config.thy ===== *)
theory Proxy_Config
  imports Server_Proxy
begin

text \<open>
  The configuration of proxies: \<^verbatim>\<open>pkg/config/v1/proxy.go\<close>, \<^verbatim>\<open>pkg/config/types/types.go\<close>, the validation in
  \<^verbatim>\<open>pkg/config/v1/validation/proxy.go\<close> and \<^verbatim>\<open>plugin.go\<close>, and the way a configuration takes from the client to the server:
  completed and validated, written into a \<^verbatim>\<open>NewProxy\<close> message, read back on the server by
  \<^verbatim>\<open>NewProxyConfigurerFromMsg\<close> of \<^verbatim>\<open>pkg/config/load.go\<close> and validated again.  The check of annotation keys comes from a
  library and is an argument, and so is the conversion of a decimal number to a number of bytes.
\<close>

section \<open>Quantities and port ranges\<close>

definition HasSuffix :: "string \<Rightarrow> string \<Rightarrow> bool" where
  "HasSuffix s t \<longleftrightarrow> length t \<le> length s \<and> drop (length s - length t) s = t"

definition CutSuffix :: "string \<Rightarrow> string \<Rightarrow> string option" where
  "CutSuffix s t = (if HasSuffix s t then Some (take (length s - length t) s) else None)"

definition EmptyOr :: "string \<Rightarrow> string \<Rightarrow> string" where
  "EmptyOr v fallback = (if v = '''' then fallback else v)"

record BandwidthQuantity =
  bqS :: string
  bqI :: int

definition noQuantity :: BandwidthQuantity where "noQuantity = \<lparr>bqS = '''', bqI = 0\<rparr>"

datatype quantity_error = UnitNotSupport | BadNumber

text \<open>\<open>toBytes s base\<close> is \<^verbatim>\<open>int64(f * float64(base))\<close> for the number \<^verbatim>\<open>f\<close> that \<^verbatim>\<open>strconv.ParseFloat\<close> reads from \<open>s\<close>.\<close>

definition UnmarshalString :: "(string \<Rightarrow> int \<Rightarrow> int option) \<Rightarrow> string \<Rightarrow> BandwidthQuantity \<Rightarrow> quantity_error + BandwidthQuantity" where
  "UnmarshalString toBytes s0 q =
     (let s = TrimSpace s0 in
      if s = '''' then Inr q
      else
        (case CutSuffix s ''MB'' of
           Some f \<Rightarrow> (case toBytes f (1024 * 1024) of None \<Rightarrow> Inl BadNumber | Some i \<Rightarrow> Inr \<lparr>bqS = s, bqI = i\<rparr>)
         | None \<Rightarrow>
             (case CutSuffix s ''KB'' of
                Some f \<Rightarrow> (case toBytes f 1024 of None \<Rightarrow> Inl BadNumber | Some i \<Rightarrow> Inr \<lparr>bqS = s, bqI = i\<rparr>)
              | None \<Rightarrow> Inl UnitNotSupport)))"

text \<open>The quantity that \<^verbatim>\<open>NewBandwidthQuantity\<close> returns, with or without an error.\<close>

definition NewBandwidthQuantity :: "(string \<Rightarrow> int \<Rightarrow> int option) \<Rightarrow> string \<Rightarrow> BandwidthQuantity \<times> quantity_error option" where
  "NewBandwidthQuantity toBytes s =
     (case UnmarshalString toBytes s noQuantity of Inl e \<Rightarrow> (noQuantity, Some e) | Inr q \<Rightarrow> (q, None))"

definition rangeString :: "ports_range \<Rightarrow> string" where
  "rangeString v = (if RSingle v > 0 then Itoa (RSingle v) else Itoa (RStart v) @ ''-'' @ Itoa (REnd v))"

definition PortsRangeSliceString :: "ports_range list \<Rightarrow> string" where
  "PortsRangeSliceString p = (if p = [] then '''' else Join (map rangeString p) (CHR '',''))"

definition parseRange :: "string \<Rightarrow> unit + ports_range" where
  "parseRange s =
     (case Split s (CHR ''-'') of
        [a] \<Rightarrow> (case ParseInt64 (TrimSpace a) of None \<Rightarrow> Inl () | Some n \<Rightarrow> Inr \<lparr>RStart = 0, REnd = 0, RSingle = n\<rparr>)
      | [a, b] \<Rightarrow>
          (case ParseInt64 (TrimSpace a) of
             None \<Rightarrow> Inl ()
           | Some m \<Rightarrow>
               (case ParseInt64 (TrimSpace b) of
                  None \<Rightarrow> Inl ()
                | Some n \<Rightarrow> if n < m then Inl () else Inr \<lparr>RStart = m, REnd = n, RSingle = 0\<rparr>))
      | _ \<Rightarrow> Inl ())"

fun parseRanges :: "string list \<Rightarrow> ports_range list \<Rightarrow> unit + ports_range list" where
  "parseRanges [] out = Inr out"
| "parseRanges (s # ss) out = (case parseRange s of Inl e \<Rightarrow> Inl e | Inr r \<Rightarrow> parseRanges ss (out @ [r]))"

definition NewPortsRangeSliceFromString :: "string \<Rightarrow> unit + ports_range list" where
  "NewPortsRangeSliceFromString str = parseRanges (Split (TrimSpace str) (CHR '','')) []"

section \<open>Proxy configurations\<close>

record ProxyTransport =
  UseEncryption :: bool
  UseCompression :: bool
  BandwidthLimit :: BandwidthQuantity
  BandwidthLimitMode :: string
  ProxyProtocolVersion :: string

record HealthCheckConfig =
  hcType :: string
  TimeoutSeconds :: int
  MaxFailed :: int
  IntervalSeconds :: int
  hcPath :: string
  HTTPHeaders :: "(string \<times> string) list"

text \<open>The options of a client plugin that its completion and validation look at.\<close>

datatype ClientPluginOptions =
    HTTP2HTTPSPluginOptions string
  | HTTPProxyPluginOptions
  | HTTPS2HTTPPluginOptions string "bool option"
  | HTTPS2HTTPSPluginOptions string "bool option"
  | HTTP2HTTPPluginOptions string
  | Socks5PluginOptions
  | StaticFilePluginOptions string
  | UnixDomainSocketPluginOptions string
  | TLS2RawPluginOptions string
  | VirtualNetPluginOptions

record ProxyBaseConfig =
  cName :: string
  cType :: string
  Enabled :: "bool option"
  Annotations :: "(string \<times> string) list"
  Transport :: ProxyTransport
  Metadatas :: "(string \<times> string) list"
  LoadBalancer :: loadBalancer
  HealthCheck :: HealthCheckConfig
  LocalIP :: string
  LocalPort :: int
  PluginType :: string
  PluginOptions :: "ClientPluginOptions option"

record HTTPConfig =
  Locations :: "string list"
  HTTPUser :: string
  HTTPPassword :: string
  HostHeaderRewrite :: string
  RequestHeadersSet :: "(string \<times> string) list"
  ResponseHeadersSet :: "(string \<times> string) list"
  hRouteByHTTPUser :: string

record TCPMuxConfig =
  xHTTPUser :: string
  xHTTPPassword :: string
  xRouteByHTTPUser :: string
  Multiplexer :: string

datatype ProxyConfigurer =
    TCPCfg ProxyBaseConfig int
  | UDPCfg ProxyBaseConfig int
  | HTTPCfg ProxyBaseConfig domainConfig HTTPConfig
  | HTTPSCfg ProxyBaseConfig domainConfig
  | TCPMuxCfg ProxyBaseConfig domainConfig TCPMuxConfig
  | STCPCfg ProxyBaseConfig string "string list"
  | XTCPCfg ProxyBaseConfig string "string list" "bool option"
  | SUDPCfg ProxyBaseConfig string "string list"
  | XUDPCfg ProxyBaseConfig string "string list" "bool option"

fun GetBaseConfig :: "ProxyConfigurer \<Rightarrow> ProxyBaseConfig" where
  "GetBaseConfig (TCPCfg b port) = b"
| "GetBaseConfig (UDPCfg b port) = b"
| "GetBaseConfig (HTTPCfg b d h) = b"
| "GetBaseConfig (HTTPSCfg b d) = b"
| "GetBaseConfig (TCPMuxCfg b d x) = b"
| "GetBaseConfig (STCPCfg b key users) = b"
| "GetBaseConfig (XTCPCfg b key users n) = b"
| "GetBaseConfig (SUDPCfg b key users) = b"
| "GetBaseConfig (XUDPCfg b key users n) = b"

fun mapBase :: "(ProxyBaseConfig \<Rightarrow> ProxyBaseConfig) \<Rightarrow> ProxyConfigurer \<Rightarrow> ProxyConfigurer" where
  "mapBase f (TCPCfg b port) = TCPCfg (f b) port"
| "mapBase f (UDPCfg b port) = UDPCfg (f b) port"
| "mapBase f (HTTPCfg b d h) = HTTPCfg (f b) d h"
| "mapBase f (HTTPSCfg b d) = HTTPSCfg (f b) d"
| "mapBase f (TCPMuxCfg b d x) = TCPMuxCfg (f b) d x"
| "mapBase f (STCPCfg b key users) = STCPCfg (f b) key users"
| "mapBase f (XTCPCfg b key users n) = XTCPCfg (f b) key users n"
| "mapBase f (SUDPCfg b key users) = SUDPCfg (f b) key users"
| "mapBase f (XUDPCfg b key users n) = XUDPCfg (f b) key users n"

fun pluginComplete :: "ClientPluginOptions \<Rightarrow> ClientPluginOptions" where
  "pluginComplete (HTTPS2HTTPPluginOptions a e) = HTTPS2HTTPPluginOptions a (case e of None \<Rightarrow> Some True | Some b \<Rightarrow> Some b)"
| "pluginComplete (HTTPS2HTTPSPluginOptions a e) = HTTPS2HTTPSPluginOptions a (case e of None \<Rightarrow> Some True | Some b \<Rightarrow> Some b)"
| "pluginComplete p = p"

definition completeBase :: "ProxyBaseConfig \<Rightarrow> ProxyBaseConfig" where
  "completeBase c =
     c\<lparr>LocalIP := EmptyOr (LocalIP c) ''127.0.0.1'',
       Transport := (Transport c)\<lparr>BandwidthLimitMode := EmptyOr (BandwidthLimitMode (Transport c)) ''client''\<rparr>,
       PluginOptions := map_option pluginComplete (PluginOptions c)\<rparr>"

definition completeConfigurer :: "ProxyConfigurer \<Rightarrow> ProxyConfigurer" where
  "completeConfigurer c = mapBase completeBase c"

section \<open>The message\<close>

record NewProxyMsg =
  mProxyName :: string
  mProxyType :: string
  mUseEncryption :: bool
  mUseCompression :: bool
  mBandwidthLimit :: string
  mBandwidthLimitMode :: string
  mGroup :: string
  mGroupKey :: string
  mMetas :: "(string \<times> string) list"
  mAnnotations :: "(string \<times> string) list"
  mRemotePort :: int
  mCustomDomains :: "string list"
  mSubDomain :: string
  mLocations :: "string list"
  mHTTPUser :: string
  mHTTPPwd :: string
  mHostHeaderRewrite :: string
  mHeaders :: "(string \<times> string) list"
  mResponseHeaders :: "(string \<times> string) list"
  mRouteByHTTPUser :: string
  mSk :: string
  mAllowUsers :: "string list"
  mMultiplexer :: string

definition emptyMsg :: NewProxyMsg where
  "emptyMsg = \<lparr>mProxyName = '''', mProxyType = '''', mUseEncryption = False, mUseCompression = False, mBandwidthLimit = '''',
     mBandwidthLimitMode = '''', mGroup = '''', mGroupKey = '''', mMetas = [], mAnnotations = [], mRemotePort = 0, mCustomDomains = [],
     mSubDomain = '''', mLocations = [], mHTTPUser = '''', mHTTPPwd = '''', mHostHeaderRewrite = '''', mHeaders = [],
     mResponseHeaders = [], mRouteByHTTPUser = '''', mSk = '''', mAllowUsers = [], mMultiplexer = ''''\<rparr>"

definition marshalBase :: "ProxyBaseConfig \<Rightarrow> NewProxyMsg \<Rightarrow> NewProxyMsg" where
  "marshalBase c m =
     (let m1 = m\<lparr>mProxyName := cName c, mProxyType := cType c, mUseEncryption := UseEncryption (Transport c),
                 mUseCompression := UseCompression (Transport c), mBandwidthLimit := bqS (BandwidthLimit (Transport c))\<rparr>;
          m2 = (if BandwidthLimitMode (Transport c) \<noteq> ''client'' then m1\<lparr>mBandwidthLimitMode := BandwidthLimitMode (Transport c)\<rparr> else m1) in
      m2\<lparr>mGroup := Group (LoadBalancer c), mGroupKey := GroupKey (LoadBalancer c), mMetas := Metadatas c, mAnnotations := Annotations c\<rparr>)"

definition unmarshalBase :: "(string \<Rightarrow> int \<Rightarrow> int option) \<Rightarrow> NewProxyMsg \<Rightarrow> ProxyBaseConfig \<Rightarrow> ProxyBaseConfig" where
  "unmarshalBase toBytes m c =
     (let t1 = (Transport c)\<lparr>UseEncryption := mUseEncryption m, UseCompression := mUseCompression m\<rparr>;
          t2 = (if mBandwidthLimit m \<noteq> '''' then t1\<lparr>BandwidthLimit := fst (NewBandwidthQuantity toBytes (mBandwidthLimit m))\<rparr> else t1);
          t3 = (if mBandwidthLimitMode m \<noteq> '''' then t2\<lparr>BandwidthLimitMode := mBandwidthLimitMode m\<rparr> else t2) in
      c\<lparr>cName := mProxyName m, cType := mProxyType m, Transport := t3,
        LoadBalancer := \<lparr>Group = mGroup m, GroupKey = mGroupKey m\<rparr>, Metadatas := mMetas m, Annotations := mAnnotations m\<rparr>)"

definition marshalTCP :: "ProxyBaseConfig \<Rightarrow> int \<Rightarrow> NewProxyMsg \<Rightarrow> NewProxyMsg" where
  "marshalTCP b port m = (marshalBase b m)\<lparr>mRemotePort := port\<rparr>"

definition unmarshalTCP :: "(string \<Rightarrow> int \<Rightarrow> int option) \<Rightarrow> NewProxyMsg \<Rightarrow> ProxyBaseConfig \<Rightarrow> ProxyConfigurer" where
  "unmarshalTCP toBytes m b = TCPCfg (unmarshalBase toBytes m b) (mRemotePort m)"

definition marshalUDP :: "ProxyBaseConfig \<Rightarrow> int \<Rightarrow> NewProxyMsg \<Rightarrow> NewProxyMsg" where
  "marshalUDP b port m = (marshalBase b m)\<lparr>mRemotePort := port\<rparr>"

definition unmarshalUDP :: "(string \<Rightarrow> int \<Rightarrow> int option) \<Rightarrow> NewProxyMsg \<Rightarrow> ProxyBaseConfig \<Rightarrow> ProxyConfigurer" where
  "unmarshalUDP toBytes m b = UDPCfg (unmarshalBase toBytes m b) (mRemotePort m)"

definition marshalHTTP :: "ProxyBaseConfig \<Rightarrow> domainConfig \<Rightarrow> HTTPConfig \<Rightarrow> NewProxyMsg \<Rightarrow> NewProxyMsg" where
  "marshalHTTP b d h m =
     (marshalBase b m)\<lparr>mCustomDomains := CustomDomains d, mSubDomain := SubDomain d, mLocations := Locations h,
        mHostHeaderRewrite := HostHeaderRewrite h, mHTTPUser := HTTPUser h, mHTTPPwd := HTTPPassword h, mHeaders := RequestHeadersSet h,
        mResponseHeaders := ResponseHeadersSet h, mRouteByHTTPUser := hRouteByHTTPUser h\<rparr>"

definition unmarshalHTTP :: "(string \<Rightarrow> int \<Rightarrow> int option) \<Rightarrow> NewProxyMsg \<Rightarrow> ProxyBaseConfig \<Rightarrow> ProxyConfigurer" where
  "unmarshalHTTP toBytes m b =
     HTTPCfg (unmarshalBase toBytes m b) \<lparr>CustomDomains = mCustomDomains m, SubDomain = mSubDomain m\<rparr>
       \<lparr>Locations = mLocations m, HTTPUser = mHTTPUser m, HTTPPassword = mHTTPPwd m, HostHeaderRewrite = mHostHeaderRewrite m,
        RequestHeadersSet = mHeaders m, ResponseHeadersSet = mResponseHeaders m, hRouteByHTTPUser = mRouteByHTTPUser m\<rparr>"

definition marshalHTTPS :: "ProxyBaseConfig \<Rightarrow> domainConfig \<Rightarrow> NewProxyMsg \<Rightarrow> NewProxyMsg" where
  "marshalHTTPS b d m = (marshalBase b m)\<lparr>mCustomDomains := CustomDomains d, mSubDomain := SubDomain d\<rparr>"

definition unmarshalHTTPS :: "(string \<Rightarrow> int \<Rightarrow> int option) \<Rightarrow> NewProxyMsg \<Rightarrow> ProxyBaseConfig \<Rightarrow> ProxyConfigurer" where
  "unmarshalHTTPS toBytes m b = HTTPSCfg (unmarshalBase toBytes m b) \<lparr>CustomDomains = mCustomDomains m, SubDomain = mSubDomain m\<rparr>"

definition marshalTCPMux :: "ProxyBaseConfig \<Rightarrow> domainConfig \<Rightarrow> TCPMuxConfig \<Rightarrow> NewProxyMsg \<Rightarrow> NewProxyMsg" where
  "marshalTCPMux b d x m =
     (marshalBase b m)\<lparr>mCustomDomains := CustomDomains d, mSubDomain := SubDomain d, mMultiplexer := Multiplexer x, mHTTPUser := xHTTPUser x,
        mHTTPPwd := xHTTPPassword x, mRouteByHTTPUser := xRouteByHTTPUser x\<rparr>"

definition unmarshalTCPMux :: "(string \<Rightarrow> int \<Rightarrow> int option) \<Rightarrow> NewProxyMsg \<Rightarrow> ProxyBaseConfig \<Rightarrow> ProxyConfigurer" where
  "unmarshalTCPMux toBytes m b =
     TCPMuxCfg (unmarshalBase toBytes m b) \<lparr>CustomDomains = mCustomDomains m, SubDomain = mSubDomain m\<rparr>
       \<lparr>xHTTPUser = mHTTPUser m, xHTTPPassword = mHTTPPwd m, xRouteByHTTPUser = mRouteByHTTPUser m, Multiplexer = mMultiplexer m\<rparr>"

text \<open>The four types with a secret key write the same two fields.\<close>

definition marshalSecret :: "ProxyBaseConfig \<Rightarrow> string \<Rightarrow> string list \<Rightarrow> NewProxyMsg \<Rightarrow> NewProxyMsg" where
  "marshalSecret b key users m = (marshalBase b m)\<lparr>mSk := key, mAllowUsers := users\<rparr>"

fun MarshalToMsg :: "ProxyConfigurer \<Rightarrow> NewProxyMsg \<Rightarrow> NewProxyMsg" where
  "MarshalToMsg (TCPCfg b port) m = marshalTCP b port m"
| "MarshalToMsg (UDPCfg b port) m = marshalUDP b port m"
| "MarshalToMsg (HTTPCfg b d h) m = marshalHTTP b d h m"
| "MarshalToMsg (HTTPSCfg b d) m = marshalHTTPS b d m"
| "MarshalToMsg (TCPMuxCfg b d x) m = marshalTCPMux b d x m"
| "MarshalToMsg (STCPCfg b key users) m = marshalSecret b key users m"
| "MarshalToMsg (XTCPCfg b key users n) m = marshalSecret b key users m"
| "MarshalToMsg (SUDPCfg b key users) m = marshalSecret b key users m"
| "MarshalToMsg (XUDPCfg b key users n) m = marshalSecret b key users m"

text \<open>\<^verbatim>\<open>UnmarshalFromMsg\<close> of a new configuration; fields that are not in the message keep their values.\<close>

fun UnmarshalFromMsg :: "(string \<Rightarrow> int \<Rightarrow> int option) \<Rightarrow> NewProxyMsg \<Rightarrow> ProxyConfigurer \<Rightarrow> ProxyConfigurer" where
  "UnmarshalFromMsg toBytes m (TCPCfg b port) = unmarshalTCP toBytes m b"
| "UnmarshalFromMsg toBytes m (UDPCfg b port) = unmarshalUDP toBytes m b"
| "UnmarshalFromMsg toBytes m (HTTPCfg b d h) = unmarshalHTTP toBytes m b"
| "UnmarshalFromMsg toBytes m (HTTPSCfg b d) = unmarshalHTTPS toBytes m b"
| "UnmarshalFromMsg toBytes m (TCPMuxCfg b d x) = unmarshalTCPMux toBytes m b"
| "UnmarshalFromMsg toBytes m (STCPCfg b key users) = STCPCfg (unmarshalBase toBytes m b) (mSk m) (mAllowUsers m)"
| "UnmarshalFromMsg toBytes m (XTCPCfg b key users n) = XTCPCfg (unmarshalBase toBytes m b) (mSk m) (mAllowUsers m) n"
| "UnmarshalFromMsg toBytes m (SUDPCfg b key users) = SUDPCfg (unmarshalBase toBytes m b) (mSk m) (mAllowUsers m)"
| "UnmarshalFromMsg toBytes m (XUDPCfg b key users n) = XUDPCfg (unmarshalBase toBytes m b) (mSk m) (mAllowUsers m) n"

definition zeroBase :: ProxyBaseConfig where
  "zeroBase = \<lparr>cName = '''', cType = '''', Enabled = None, Annotations = [],
     Transport = \<lparr>UseEncryption = False, UseCompression = False, BandwidthLimit = noQuantity, BandwidthLimitMode = '''', ProxyProtocolVersion = ''''\<rparr>,
     Metadatas = [], LoadBalancer = \<lparr>Group = '''', GroupKey = ''''\<rparr>,
     HealthCheck = \<lparr>hcType = '''', TimeoutSeconds = 0, MaxFailed = 0, IntervalSeconds = 0, hcPath = '''', HTTPHeaders = []\<rparr>,
     LocalIP = '''', LocalPort = 0, PluginType = '''', PluginOptions = None\<rparr>"

definition NewProxyConfigurerByType :: "string \<Rightarrow> ProxyConfigurer option" where
  "NewProxyConfigurerByType t =
     (let b = zeroBase\<lparr>cType := t\<rparr>; d = \<lparr>CustomDomains = [], SubDomain = ''''\<rparr> in
      if t = ''tcp'' then Some (TCPCfg b 0)
      else if t = ''udp'' then Some (UDPCfg b 0)
      else if t = ''http'' then
        Some (HTTPCfg b d \<lparr>Locations = [], HTTPUser = '''', HTTPPassword = '''', HostHeaderRewrite = '''', RequestHeadersSet = [],
          ResponseHeadersSet = [], hRouteByHTTPUser = ''''\<rparr>)
      else if t = ''https'' then Some (HTTPSCfg b d)
      else if t = ''tcpmux'' then
        Some (TCPMuxCfg b d \<lparr>xHTTPUser = '''', xHTTPPassword = '''', xRouteByHTTPUser = '''', Multiplexer = ''''\<rparr>)
      else if t = ''stcp'' then Some (STCPCfg b '''' [])
      else if t = ''xtcp'' then Some (XTCPCfg b '''' [] None)
      else if t = ''sudp'' then Some (SUDPCfg b '''' [])
      else if t = ''xudp'' then Some (XUDPCfg b '''' [] None)
      else None)"

section \<open>Validation\<close>

datatype config_error =
    NameEmpty | AnnotationsInvalid | ProxyProtocolUnsupported string | LimitModeInvalid | PortInvalid int
  | HealthCheckUnsupported string | HealthCheckPathEmpty | PluginInvalid string | DomainsEmpty | MultiplexerUnsupported string
  | BelongsToSubDomainHost string | SubDomainDisabled | SubDomainChars | HTTPConnectDisabled | HTTPDisabled | HTTPSDisabled
  | UnknownProxyType string

text \<open>A check yields the error it finds, if any; a later check runs when the earlier ones found none.\<close>

definition orElse :: "config_error option \<Rightarrow> config_error option \<Rightarrow> config_error option" where
  "orElse a b = (case a of None \<Rightarrow> b | Some e \<Rightarrow> Some e)"

definition TotalAnnotationSizeLimitB :: nat where "TotalAnnotationSizeLimitB = 256 * 1024"

definition ValidateAnnotations :: "(string \<Rightarrow> bool) \<Rightarrow> (string \<times> string) list \<Rightarrow> config_error option" where
  "ValidateAnnotations isQualifiedName as =
     (if as = [] then None
      else if (\<exists>(k, v)\<in>set as. \<not> isQualifiedName (ToLower k)) \<or>
              sum_list (map (\<lambda>(k, v). length k + length v) as) > TotalAnnotationSizeLimitB
      then Some AnnotationsInvalid else None)"

definition ValidatePort :: "int \<Rightarrow> config_error option" where
  "ValidatePort port = (if 0 \<le> port \<and> port \<le> 65535 then None else Some (PortInvalid port))"

fun ValidateClientPluginOptions :: "ClientPluginOptions \<Rightarrow> config_error option" where
  "ValidateClientPluginOptions (HTTP2HTTPSPluginOptions a) = (if a = '''' then Some (PluginInvalid ''localAddr'') else None)"
| "ValidateClientPluginOptions (HTTPS2HTTPPluginOptions a e) = (if a = '''' then Some (PluginInvalid ''localAddr'') else None)"
| "ValidateClientPluginOptions (HTTPS2HTTPSPluginOptions a e) = (if a = '''' then Some (PluginInvalid ''localAddr'') else None)"
| "ValidateClientPluginOptions (StaticFilePluginOptions p) = (if p = '''' then Some (PluginInvalid ''localPath'') else None)"
| "ValidateClientPluginOptions (UnixDomainSocketPluginOptions p) = (if p = '''' then Some (PluginInvalid ''unixPath'') else None)"
| "ValidateClientPluginOptions (TLS2RawPluginOptions a) = (if a = '''' then Some (PluginInvalid ''localAddr'') else None)"
| "ValidateClientPluginOptions _ = None"

definition validateProxyBaseConfigForClient :: "(string \<Rightarrow> bool) \<Rightarrow> ProxyBaseConfig \<Rightarrow> config_error option" where
  "validateProxyBaseConfigForClient isQualifiedName c =
     (if cName c = '''' then Some NameEmpty
      else orElse (ValidateAnnotations isQualifiedName (Annotations c))
        (if ProxyProtocolVersion (Transport c) \<notin> {'''', ''v1'', ''v2''}
           then Some (ProxyProtocolUnsupported (ProxyProtocolVersion (Transport c)))
         else if BandwidthLimitMode (Transport c) \<notin> {''client'', ''server''} then Some LimitModeInvalid
         else orElse (if PluginType c = '''' then ValidatePort (LocalPort c) else None)
           (if hcType (HealthCheck c) \<notin> {'''', ''tcp'', ''http''} then Some (HealthCheckUnsupported (hcType (HealthCheck c)))
            else if hcType (HealthCheck c) = ''http'' \<and> hcPath (HealthCheck c) = '''' then Some HealthCheckPathEmpty
            else if PluginType c \<noteq> '''' then
              (case PluginOptions c of None \<Rightarrow> None | Some p \<Rightarrow> ValidateClientPluginOptions p)
            else None)))"

definition validateProxyBaseConfigForServer :: "(string \<Rightarrow> bool) \<Rightarrow> ProxyBaseConfig \<Rightarrow> config_error option" where
  "validateProxyBaseConfigForServer isQualifiedName c = ValidateAnnotations isQualifiedName (Annotations c)"

definition validateDomainConfigForClient :: "domainConfig \<Rightarrow> config_error option" where
  "validateDomainConfigForClient d = (if SubDomain d = '''' \<and> CustomDomains d = [] then Some DomainsEmpty else None)"

definition customDomainTaken :: "string \<Rightarrow> string \<Rightarrow> bool" where
  "customDomainTaken subDomainHost d \<longleftrightarrow>
     subDomainHost \<noteq> '''' \<and>
     length (Split subDomainHost (CHR ''.'')) < length (Split (ToLower d) (CHR ''.'')) \<and>
     HasSuffix (ToLower d) (''.'' @ subDomainHost)"

definition validateDomainConfigForServer :: "domainConfig \<Rightarrow> serverConfig \<Rightarrow> config_error option" where
  "validateDomainConfigForServer d s =
     orElse (case filter (customDomainTaken (ToLower (SubDomainHost s))) (CustomDomains d) of
               [] \<Rightarrow> None | x # _ \<Rightarrow> Some (BelongsToSubDomainHost x))
       (if SubDomain d \<noteq> '''' then
          (if SubDomainHost s = '''' then Some SubDomainDisabled
           else if CHR ''.'' \<in> set (SubDomain d) \<or> CHR ''*'' \<in> set (SubDomain d) then Some SubDomainChars else None)
        else None)"

definition validateTCPMuxProxyConfigForClient :: "domainConfig \<Rightarrow> TCPMuxConfig \<Rightarrow> config_error option" where
  "validateTCPMuxProxyConfigForClient d x =
     orElse (validateDomainConfigForClient d)
       (if Multiplexer x \<noteq> TCPMultiplexerHTTPConnect then Some (MultiplexerUnsupported (Multiplexer x)) else None)"

fun ValidateProxyConfigurerForClient :: "(string \<Rightarrow> bool) \<Rightarrow> ProxyConfigurer \<Rightarrow> config_error option" where
  "ValidateProxyConfigurerForClient isQualifiedName c =
     orElse (validateProxyBaseConfigForClient isQualifiedName (GetBaseConfig c))
       (case c of
          TCPMuxCfg b d x \<Rightarrow> validateTCPMuxProxyConfigForClient d x
        | HTTPCfg b d h \<Rightarrow> validateDomainConfigForClient d
        | HTTPSCfg b d \<Rightarrow> validateDomainConfigForClient d
        | _ \<Rightarrow> None)"

definition validateTCPMuxProxyConfigForServer :: "domainConfig \<Rightarrow> TCPMuxConfig \<Rightarrow> serverConfig \<Rightarrow> config_error option" where
  "validateTCPMuxProxyConfigForServer d x s =
     (if Multiplexer x = TCPMultiplexerHTTPConnect \<and> TCPMuxHTTPConnectPort s = 0 then Some HTTPConnectDisabled
      else validateDomainConfigForServer d s)"

definition validateHTTPProxyConfigForServer :: "domainConfig \<Rightarrow> serverConfig \<Rightarrow> config_error option" where
  "validateHTTPProxyConfigForServer d s = (if VhostHTTPPort s = 0 then Some HTTPDisabled else validateDomainConfigForServer d s)"

definition validateHTTPSProxyConfigForServer :: "domainConfig \<Rightarrow> serverConfig \<Rightarrow> config_error option" where
  "validateHTTPSProxyConfigForServer d s = (if VhostHTTPSPort s = 0 then Some HTTPSDisabled else validateDomainConfigForServer d s)"

fun ValidateProxyConfigurerForServer :: "(string \<Rightarrow> bool) \<Rightarrow> ProxyConfigurer \<Rightarrow> serverConfig \<Rightarrow> config_error option" where
  "ValidateProxyConfigurerForServer isQualifiedName c s =
     orElse (validateProxyBaseConfigForServer isQualifiedName (GetBaseConfig c))
       (case c of
          TCPMuxCfg b d x \<Rightarrow> validateTCPMuxProxyConfigForServer d x s
        | HTTPCfg b d h \<Rightarrow> validateHTTPProxyConfigForServer d s
        | HTTPSCfg b d \<Rightarrow> validateHTTPSProxyConfigForServer d s
        | _ \<Rightarrow> None)"

definition NewProxyConfigurerFromMsg ::
  "(string \<Rightarrow> bool) \<Rightarrow> (string \<Rightarrow> int \<Rightarrow> int option) \<Rightarrow> NewProxyMsg \<Rightarrow> serverConfig \<Rightarrow> config_error + ProxyConfigurer" where
  "NewProxyConfigurerFromMsg isQualifiedName toBytes m0 s =
     (let m = m0\<lparr>mProxyType := EmptyOr (mProxyType m0) ''tcp''\<rparr> in
      case NewProxyConfigurerByType (mProxyType m) of
        None \<Rightarrow> Inl (UnknownProxyType (mProxyType m))
      | Some c0 \<Rightarrow>
          let c = completeConfigurer (UnmarshalFromMsg toBytes m c0) in
          (case ValidateProxyConfigurerForServer isQualifiedName c s of Some e \<Rightarrow> Inl e | None \<Rightarrow> Inr c))"

text \<open>The proxy that the server makes of a configuration.\<close>

fun serverProxy :: "ProxyConfigurer \<Rightarrow> proxyConfig" where
  "serverProxy (TCPCfg b port) = TCPProxyConfig (LoadBalancer b) port"
| "serverProxy (UDPCfg b port) = UDPProxyConfig port"
| "serverProxy (HTTPCfg b d h) = HTTPProxyConfig (LoadBalancer b) d (Locations h) (hRouteByHTTPUser h)"
| "serverProxy (HTTPSCfg b d) = HTTPSProxyConfig (LoadBalancer b) d"
| "serverProxy (TCPMuxCfg b d x) = TCPMuxProxyConfig (Multiplexer x) (LoadBalancer b) d (xRouteByHTTPUser x) (xHTTPUser x) (xHTTPPassword x)"
| "serverProxy (STCPCfg b key users) = STCPProxyConfig key users"
| "serverProxy (XTCPCfg b key users n) = XTCPProxyConfig key users"
| "serverProxy (SUDPCfg b key users) = SUDPProxyConfig key users"
| "serverProxy (XUDPCfg b key users n) = XUDPProxyConfig key users"

section \<open>What reaches the server\<close>

text \<open>The type names of the constructors.\<close>

fun typeName :: "ProxyConfigurer \<Rightarrow> string" where
  "typeName (TCPCfg b port) = ''tcp''"
| "typeName (UDPCfg b port) = ''udp''"
| "typeName (HTTPCfg b d h) = ''http''"
| "typeName (HTTPSCfg b d) = ''https''"
| "typeName (TCPMuxCfg b d x) = ''tcpmux''"
| "typeName (STCPCfg b key users) = ''stcp''"
| "typeName (XTCPCfg b key users n) = ''xtcp''"
| "typeName (SUDPCfg b key users) = ''sudp''"
| "typeName (XUDPCfg b key users n) = ''xudp''"

text \<open>What the server needs of a configuration: the fields that only the client uses have their defaults.\<close>

definition serverBase :: "ProxyBaseConfig \<Rightarrow> ProxyBaseConfig" where
  "serverBase b =
     b\<lparr>Enabled := None, Transport := (Transport b)\<lparr>ProxyProtocolVersion := ''''\<rparr>, HealthCheck := HealthCheck zeroBase,
       LocalIP := ''127.0.0.1'', LocalPort := 0, PluginType := '''', PluginOptions := None\<rparr>"

fun serverView :: "ProxyConfigurer \<Rightarrow> ProxyConfigurer" where
  "serverView (XTCPCfg b key users n) = XTCPCfg (serverBase b) key users None"
| "serverView (XUDPCfg b key users n) = XUDPCfg (serverBase b) key users None"
| "serverView c = mapBase serverBase c"

definition well_typed :: "ProxyConfigurer \<Rightarrow> bool" where
  "well_typed c \<longleftrightarrow> cType (GetBaseConfig c) = typeName c"

definition quantity_ok :: "(string \<Rightarrow> int \<Rightarrow> int option) \<Rightarrow> BandwidthQuantity \<Rightarrow> bool" where
  "quantity_ok toBytes q \<longleftrightarrow> (\<exists>s. NewBandwidthQuantity toBytes s = (q, None))"

lemma dropWhile_idem: "dropWhile P (dropWhile P xs) = dropWhile P xs"
  by (induction xs) auto

lemma dropWhile_rev_keeps:
  assumes "dropWhile P xs = xs"
  shows "dropWhile P (rev (dropWhile P (rev xs))) = rev (dropWhile P (rev xs))"
proof (cases xs)
  case (Cons x ys)
  have x: "\<not> P x"
  proof
    assume "P x"
    with assms Cons have "length (dropWhile P ys) = Suc (length ys)" by simp
    with length_dropWhile_le [of P ys] show False by simp
  qed
  have "\<exists>zs. rev (dropWhile P (rev xs)) = x # zs"
    using x by (simp add: Cons dropWhile_append3)
  with x show ?thesis by auto
qed simp

lemma TrimSpace_idem [simp]: "TrimSpace (TrimSpace s) = TrimSpace s"
  unfolding TrimSpace_def by (simp add: dropWhile_rev_keeps dropWhile_idem)

lemma quantity_again:
  assumes "quantity_ok toBytes q" "bqS q \<noteq> ''''"
  shows "NewBandwidthQuantity toBytes (bqS q) = (q, None)"
proof -
  obtain s where s: "NewBandwidthQuantity toBytes s = (q, None)" using assms(1) by (auto simp: quantity_ok_def)
  then have "bqS q = TrimSpace s" using assms(2)
    by (auto simp: NewBandwidthQuantity_def UnmarshalString_def noQuantity_def Let_def split: sum.splits if_splits option.splits)
  then show ?thesis using s by (simp add: NewBandwidthQuantity_def UnmarshalString_def)
qed

lemma quantity_empty: "quantity_ok toBytes q \<Longrightarrow> bqS q = '''' \<Longrightarrow> q = noQuantity"
  by (auto simp: quantity_ok_def NewBandwidthQuantity_def UnmarshalString_def Let_def split: sum.splits if_splits option.splits)

lemma unmarshal_marshal:
  assumes "quantity_ok toBytes (BandwidthLimit (Transport b))" "BandwidthLimitMode (Transport b) \<noteq> ''''"
    "m = (marshalBase b emptyMsg)\<lparr>mProxyType := t\<rparr>" "cType b = t"
  shows "completeBase (unmarshalBase toBytes m (zeroBase\<lparr>cType := t\<rparr>)) = serverBase b"
proof (cases "bqS (BandwidthLimit (Transport b)) = ''''")
  case True
  then have "BandwidthLimit (Transport b) = noQuantity" by (rule quantity_empty [OF assms(1)])
  then show ?thesis using assms(2-4) True
    by (simp add: marshalBase_def unmarshalBase_def completeBase_def serverBase_def emptyMsg_def zeroBase_def EmptyOr_def Let_def)
next
  case False
  note q = quantity_again [OF assms(1) False]
  show ?thesis using assms(2-4) False q
    by (simp add: marshalBase_def unmarshalBase_def completeBase_def serverBase_def emptyMsg_def zeroBase_def EmptyOr_def Let_def)
qed

lemma client_mode: "validateProxyBaseConfigForClient isQ b = None \<Longrightarrow> BandwidthLimitMode (Transport b) \<noteq> ''''"
  by (auto simp: validateProxyBaseConfigForClient_def orElse_def split: if_splits option.splits)

lemma annotations_view: "Annotations (serverBase b) = Annotations b"
  by (simp add: serverBase_def)

lemma validate_view: "ValidateProxyConfigurerForServer isQ (serverView c) s = ValidateProxyConfigurerForServer isQ c s"
  by (cases c) (simp_all add: validateProxyBaseConfigForServer_def annotations_view)

lemma serverProxy_view: "serverProxy (serverView c) = serverProxy c"
  by (cases c) (simp_all add: serverBase_def)

lemma marshal_type: "well_typed c \<Longrightarrow> mProxyType (MarshalToMsg c m) = typeName c"
  by (cases c) (simp_all add: well_typed_def marshalTCP_def marshalUDP_def marshalHTTP_def marshalHTTPS_def marshalTCPMux_def marshalSecret_def
      marshalBase_def Let_def)

lemma typeName_nonempty: "typeName c \<noteq> ''''"
  by (cases c) simp_all

text \<open>Reading back what was written, type by type.\<close>

lemma unmarshalBase_extra:
  "unmarshalBase f (m\<lparr>mRemotePort := x0\<rparr>) = unmarshalBase f m"
  "unmarshalBase f (m\<lparr>mCustomDomains := x1\<rparr>) = unmarshalBase f m"
  "unmarshalBase f (m\<lparr>mSubDomain := x2\<rparr>) = unmarshalBase f m"
  "unmarshalBase f (m\<lparr>mLocations := x3\<rparr>) = unmarshalBase f m"
  "unmarshalBase f (m\<lparr>mHTTPUser := x4\<rparr>) = unmarshalBase f m"
  "unmarshalBase f (m\<lparr>mHTTPPwd := x5\<rparr>) = unmarshalBase f m"
  "unmarshalBase f (m\<lparr>mHostHeaderRewrite := x6\<rparr>) = unmarshalBase f m"
  "unmarshalBase f (m\<lparr>mHeaders := x7\<rparr>) = unmarshalBase f m"
  "unmarshalBase f (m\<lparr>mResponseHeaders := x8\<rparr>) = unmarshalBase f m"
  "unmarshalBase f (m\<lparr>mRouteByHTTPUser := x9\<rparr>) = unmarshalBase f m"
  "unmarshalBase f (m\<lparr>mSk := x10\<rparr>) = unmarshalBase f m"
  "unmarshalBase f (m\<lparr>mAllowUsers := x11\<rparr>) = unmarshalBase f m"
  "unmarshalBase f (m\<lparr>mMultiplexer := x12\<rparr>) = unmarshalBase f m"
  by (simp_all add: unmarshalBase_def Let_def fun_eq_iff)

lemmas codec_defs = NewProxyConfigurerByType_def completeConfigurer_def unmarshalTCP_def unmarshalUDP_def unmarshalHTTP_def unmarshalHTTPS_def
  unmarshalTCPMux_def marshalTCP_def marshalUDP_def marshalHTTP_def marshalHTTPS_def marshalTCPMux_def marshalSecret_def Let_def
  unmarshalBase_extra

lemma read_back:
  assumes "well_typed c" "quantity_ok toBytes (BandwidthLimit (Transport (GetBaseConfig c)))"
    "BandwidthLimitMode (Transport (GetBaseConfig c)) \<noteq> ''''" "NewProxyConfigurerByType (typeName c) = Some c0"
  shows "completeConfigurer (UnmarshalFromMsg toBytes (MarshalToMsg c emptyMsg) c0) = serverView c"
proof -
  let ?b = "GetBaseConfig c"
  have t: "cType ?b = typeName c" using assms(1) by (simp add: well_typed_def)
  have "(marshalBase ?b emptyMsg)\<lparr>mProxyType := typeName c\<rparr> = marshalBase ?b emptyMsg" using t by (simp add: marshalBase_def Let_def)
  then have U: "completeBase (unmarshalBase toBytes (marshalBase ?b emptyMsg) (zeroBase\<lparr>cType := typeName c\<rparr>)) = serverBase ?b"
    using unmarshal_marshal [OF assms(2,3) refl t] by simp
  show ?thesis using assms(4) U by (cases c) (auto simp: codec_defs)
qed

lemma by_type: "\<exists>c0. NewProxyConfigurerByType (typeName c) = Some c0"
  by (cases c) (simp_all add: NewProxyConfigurerByType_def)

lemma by_type_name: "NewProxyConfigurerByType t = Some c0 \<Longrightarrow> typeName c0 = t \<and> well_typed c0"
  by (auto simp: NewProxyConfigurerByType_def well_typed_def Let_def split: if_splits)

lemma typeName_mapBase [simp]: "typeName (mapBase f c) = typeName c" "GetBaseConfig (mapBase f c) = f (GetBaseConfig c)"
  by (cases c; simp)+

lemma unmarshal_types:
  "typeName (UnmarshalFromMsg f m c) = typeName c" "GetBaseConfig (UnmarshalFromMsg f m c) = unmarshalBase f m (GetBaseConfig c)"
  by (cases c; simp add: unmarshalTCP_def unmarshalUDP_def unmarshalHTTP_def unmarshalHTTPS_def unmarshalTCPMux_def)+

section \<open>Subdomains\<close>

lemma length_Split: "length (Split s c) = Suc (count_list s c)"
  by (induction s) (auto split: list.splits)

lemma domain_server_ok:
  assumes "validateDomainConfigForServer d s = None"
  shows "\<And>x. x \<in> set (CustomDomains d) \<Longrightarrow> \<not> customDomainTaken (ToLower (SubDomainHost s)) x"
    "SubDomain d \<noteq> '''' \<Longrightarrow> SubDomainHost s \<noteq> '''' \<and> CHR ''.'' \<notin> set (SubDomain d) \<and> CHR ''*'' \<notin> set (SubDomain d)"
  using assms
  by (auto simp: validateDomainConfigForServer_def orElse_def filter_empty_conv split: option.splits list.splits if_splits)

lemma subdomain_taken:
  assumes "host \<noteq> ''''" "ToLower x = ToLower (sub @ ''.'' @ host)"
  shows "customDomainTaken (ToLower host) x"
proof -
  have l: "ToLower x = ToLower sub @ CHR ''.'' # ToLower host" using assms(2) by (simp add: ToLower_def ascii_lower_def)
  then show ?thesis using assms(1)
    by (auto simp: customDomainTaken_def length_Split HasSuffix_def count_list_append) (simp add: ToLower_def)
qed

section \<open>Port ranges\<close>

definition range_ok :: "ports_range \<Rightarrow> bool" where
  "range_ok r \<longleftrightarrow> 0 < RSingle r \<and> RSingle r < 2 ^ 63 \<and> RStart r = 0 \<and> REnd r = 0 \<or>
     RSingle r = 0 \<and> 0 \<le> RStart r \<and> RStart r \<le> REnd r \<and> REnd r < 2 ^ 63"

lemma Itoa_chars: "0 \<le> i \<Longrightarrow> c \<in> set (Itoa i) \<Longrightarrow> digit_value c \<noteq> None"
  using utoa_digits by (auto simp: Itoa_def)

lemma digit_not_space: "digit_value c \<noteq> None \<Longrightarrow> \<not> is_space c"
  by (auto simp: digit_value_def is_space_def split: if_splits)

lemma dropWhile_none: "(\<And>x. x \<in> set xs \<Longrightarrow> \<not> P x) \<Longrightarrow> dropWhile P xs = xs"
  by (cases xs) auto

lemma TrimSpace_none: "(\<And>c. c \<in> set s \<Longrightarrow> \<not> is_space c) \<Longrightarrow> TrimSpace s = s"
  using dropWhile_none [of s is_space] dropWhile_none [of "rev s" is_space] by (simp add: TrimSpace_def)

lemma rangeString_chars: "range_ok r \<Longrightarrow> c \<in> set (rangeString r) \<Longrightarrow> digit_value c \<noteq> None \<or> c = CHR ''-''"
  using Itoa_chars [of "RSingle r" c] Itoa_chars [of "RStart r" c] Itoa_chars [of "REnd r" c]
  by (auto simp: rangeString_def range_ok_def split: if_splits)

lemma parseRange_string:
  assumes "range_ok r"
  shows "parseRange (rangeString r) = Inr r"
proof -
  have t: "TrimSpace (Itoa i) = Itoa i" "CHR ''-'' \<notin> set (Itoa i)" if "0 \<le> i" for i
    using Itoa_chars [OF that] digit_not_space Itoa_chars [OF that, of "CHR ''-''"] by (auto intro!: TrimSpace_none)
  have p: "ParseInt64 (Itoa i) = Some i" if "0 \<le> i" "i < 2 ^ 63" for i
    by (rule ParseInt64_Itoa) (use that in auto)
  show ?thesis
  proof (cases "RSingle r > 0")
    case True
    with assms t p show ?thesis
      by (auto simp: parseRange_def rangeString_def range_ok_def Split_single)
  next
    case False
    with assms have r: "RSingle r = 0" "0 \<le> RStart r" "RStart r \<le> REnd r" "REnd r < 2 ^ 63" by (auto simp: range_ok_def)
    then have "0 \<le> REnd r" "RStart r < 2 ^ 63" by auto
    with r t p False show ?thesis
      by (simp add: parseRange_def rangeString_def Split_append Split_single)
  qed
qed

lemma parseRanges_strings: "(\<forall>r\<in>set rs. range_ok r) \<Longrightarrow> parseRanges (map rangeString rs) out = Inr (out @ rs)"
  by (induction rs arbitrary: out) (auto simp: parseRange_string)

section \<open>Properties\<close>

text \<open>C25. A proxy's configuration reaches the server as the client has it.  For every configuration that passes the client's
  validation, with a bandwidth limit as the configuration reader accepts it, the message the client sends makes the server either
  refuse it, exactly if the server's validation refuses the client's own configuration, or build that configuration again with
  the defaults in the fields that only the client uses; the proxy that the server runs is the one the client asked for, and
  its multiplexer is known.\<close>

theorem proxy_config_roundtrip:
  assumes "well_typed c" "quantity_ok toBytes (BandwidthLimit (Transport (GetBaseConfig c)))"
    and "ValidateProxyConfigurerForClient isQ c = None"
  shows "NewProxyConfigurerFromMsg isQ toBytes (MarshalToMsg c emptyMsg) s =
      (case ValidateProxyConfigurerForServer isQ c s of Some e \<Rightarrow> Inl e | None \<Rightarrow> Inr (serverView c)) \<and>
    serverProxy (serverView c) = serverProxy c \<and> knownMux (serverProxy c)"
proof -
  have v: "validateProxyBaseConfigForClient isQ (GetBaseConfig c) = None"
    using assms(3) by (simp add: orElse_def split: option.splits)
  obtain c0 where c0: "NewProxyConfigurerByType (typeName c) = Some c0" using by_type by blast
  have t: "mProxyType (MarshalToMsg c emptyMsg) = typeName c" by (rule marshal_type [OF assms(1)])
  have "(MarshalToMsg c emptyMsg)\<lparr>mProxyType := EmptyOr (mProxyType (MarshalToMsg c emptyMsg)) ''tcp''\<rparr> = MarshalToMsg c emptyMsg"
    using t typeName_nonempty [of c] by (simp add: EmptyOr_def)
  with read_back [OF assms(1,2) client_mode [OF v] c0] c0 t
  have "NewProxyConfigurerFromMsg isQ toBytes (MarshalToMsg c emptyMsg) s =
      (case ValidateProxyConfigurerForServer isQ c s of Some e \<Rightarrow> Inl e | None \<Rightarrow> Inr (serverView c))"
    by (simp add: NewProxyConfigurerFromMsg_def Let_def validate_view del: ValidateProxyConfigurerForServer.simps)
  moreover have "knownMux (serverProxy c)"
    using assms(3) by (cases c) (auto simp: knownMux_def orElse_def validateTCPMuxProxyConfigForClient_def split: option.splits if_splits)
  ultimately show ?thesis by (simp add: serverProxy_view)
qed

text \<open>C26. What the server accepts is well typed.  A configuration that \<^verbatim>\<open>NewProxyConfigurerFromMsg\<close> returns has the Go type of
  the message's proxy type (tcp when it is empty) and carries that type's name, so the assertion of the proxy factories
  holds; its bandwidth limit mode is set, and its type is enabled on the server.\<close>

theorem server_config_typed:
  assumes "NewProxyConfigurerFromMsg isQ toBytes m s = Inr c"
  shows "well_typed c \<and> typeName c = EmptyOr (mProxyType m) ''tcp'' \<and> BandwidthLimitMode (Transport (GetBaseConfig c)) \<noteq> '''' \<and>
    (case c of HTTPCfg b d h \<Rightarrow> VhostHTTPPort s \<noteq> 0 | HTTPSCfg b d \<Rightarrow> VhostHTTPSPort s \<noteq> 0
     | TCPMuxCfg b d x \<Rightarrow> Multiplexer x = TCPMultiplexerHTTPConnect \<longrightarrow> TCPMuxHTTPConnectPort s \<noteq> 0 | _ \<Rightarrow> True)"
proof -
  let ?m = "m\<lparr>mProxyType := EmptyOr (mProxyType m) ''tcp''\<rparr>"
  obtain c0 where c0: "NewProxyConfigurerByType (mProxyType ?m) = Some c0"
    and c: "c = completeConfigurer (UnmarshalFromMsg toBytes ?m c0)" and v: "ValidateProxyConfigurerForServer isQ c s = None"
    using assms by (auto simp: NewProxyConfigurerFromMsg_def Let_def simp del: ValidateProxyConfigurerForServer.simps split: option.splits)
  have t: "typeName c = EmptyOr (mProxyType m) ''tcp''" using by_type_name [OF c0] by (simp add: c completeConfigurer_def unmarshal_types)
  moreover have "cType (GetBaseConfig c) = EmptyOr (mProxyType m) ''tcp''" "BandwidthLimitMode (Transport (GetBaseConfig c)) \<noteq> ''''"
    by (simp_all add: c completeConfigurer_def unmarshal_types completeBase_def unmarshalBase_def Let_def) (simp add: EmptyOr_def)
  ultimately show ?thesis using v
    by (cases c) (auto simp: well_typed_def orElse_def validateHTTPProxyConfigForServer_def validateHTTPSProxyConfigForServer_def
        validateTCPMuxProxyConfigForServer_def split: option.splits if_splits)
qed

text \<open>C27. Custom domains and subdomains do not meet.  When the server has accepted the domains of two proxies, no route for a
  custom domain of the one is the route for the subdomain of the other, whatever their locations and users.\<close>

theorem custom_domain_not_subdomain:
  assumes "validateDomainConfigForServer d s = None" "validateDomainConfigForServer d' s = None"
    and "x \<in> set (CustomDomains d)" "SubDomain d' \<noteq> ''''"
  shows "routeKey (httpRoute bp user x loc) \<noteq> routeKey (httpRoute bp' user' (SubDomain d' @ ''.'' @ SubDomainHost s) loc') \<and>
    muxKey (muxRoute x user hu hp) \<noteq> muxKey (muxRoute (SubDomain d' @ ''.'' @ SubDomainHost s) user' hu' hp')"
proof -
  have "SubDomainHost s \<noteq> ''''" using domain_server_ok(2) [OF assms(2,4)] by simp
  then have "ToLower x \<noteq> ToLower (SubDomain d' @ ''.'' @ SubDomainHost s)"
    using domain_server_ok(1) [OF assms(1,3)] subdomain_taken by blast
  then show ?thesis by (simp add: routeKey_def httpRoute_def muxKey_def muxRoute_def)
qed

text \<open>Port ranges survive printing: a list of single positive ports and of ranges that are not negative and not empty is read
  back from its text.\<close>

lemma port_ranges_roundtrip:
  assumes "rs \<noteq> []" "\<forall>r\<in>set rs. range_ok r"
  shows "NewPortsRangeSliceFromString (PortsRangeSliceString rs) = Inr rs"
proof -
  have ch: "digit_value c \<noteq> None \<or> c = CHR ''-''" if "r \<in> set rs" "c \<in> set (rangeString r)" for r c
    using rangeString_chars assms(2) that by blast
  have "\<forall>p\<in>set (map rangeString rs). CHR '','' \<notin> set p" using ch [of _ "CHR '',''"] by auto
  moreover have "set (Join ps c) \<subseteq> insert c (\<Union>(set ` set ps))" for ps c by (induction ps c rule: Join.induct) auto
  from this [of "map rangeString rs" "CHR '',''"]
  have "c = CHR '','' \<or> digit_value c \<noteq> None \<or> c = CHR ''-''" if "c \<in> set (Join (map rangeString rs) (CHR '',''))" for c
    using that ch [of _ c] by (auto dest!: subsetD)
  then have "\<not> is_space c" if "c \<in> set (Join (map rangeString rs) (CHR '',''))" for c
    using that digit_not_space [of c] by (auto simp: is_space_def)
  then have "TrimSpace (Join (map rangeString rs) (CHR '','')) = Join (map rangeString rs) (CHR '','')" by (rule TrimSpace_none)
  ultimately show ?thesis
    using assms by (simp add: NewPortsRangeSliceFromString_def PortsRangeSliceString_def Split_Join parseRanges_strings)
qed

section \<open>Witnesses\<close>

definition demo_toBytes :: "string \<Rightarrow> int \<Rightarrow> int option" where
  "demo_toBytes s base = map_option (\<lambda>n. n * base) (ParseInt64 s)"

definition demo_conf :: ProxyConfigurer where
  "demo_conf = HTTPSCfg (zeroBase\<lparr>cName := ''web'', cType := ''https'', LocalPort := 8080,
       Transport := (Transport zeroBase)\<lparr>BandwidthLimit := \<lparr>bqS = ''1MB'', bqI = 1048576\<rparr>, BandwidthLimitMode := ''server''\<rparr>\<rparr>)
     \<lparr>CustomDomains = [''www.other.com''], SubDomain = ''''\<rparr>"

lemma demo_quantity: "quantity_ok demo_toBytes \<lparr>bqS = ''1MB'', bqI = 1048576\<rparr>"
  unfolding quantity_ok_def
  by (rule exI [of _ "''1MB''"])
     (simp add: NewBandwidthQuantity_def UnmarshalString_def CutSuffix_def HasSuffix_def demo_toBytes_def ParseInt64_def digit_value_def
       TrimSpace_def is_space_def)

theorem proxy_config_roundtrip_witness:
  "NewProxyConfigurerFromMsg (\<lambda>_. True) demo_toBytes (MarshalToMsg demo_conf emptyMsg) demo_cfg = Inr (serverView demo_conf)"
proof -
  have q: "quantity_ok demo_toBytes (BandwidthLimit (Transport (GetBaseConfig demo_conf)))"
    using demo_quantity by (simp add: demo_conf_def)
  have t: "well_typed demo_conf" by (simp add: demo_conf_def well_typed_def)
  have v: "ValidateProxyConfigurerForClient (\<lambda>_. True) demo_conf = None"
    by (simp add: demo_conf_def zeroBase_def validateProxyBaseConfigForClient_def validateDomainConfigForClient_def ValidateAnnotations_def
        ValidatePort_def orElse_def)
  have s: "ValidateProxyConfigurerForServer (\<lambda>_. True) demo_conf demo_cfg = None"
    by (simp add: demo_conf_def zeroBase_def validateProxyBaseConfigForServer_def validateHTTPSProxyConfigForServer_def
        validateDomainConfigForServer_def customDomainTaken_def HasSuffix_def ToLower_def ascii_lower_def ValidateAnnotations_def orElse_def
        demo_cfg_def)
  from proxy_config_roundtrip [OF t q v, of demo_cfg] s show ?thesis by (simp del: ValidateProxyConfigurerForServer.simps)
qed

theorem server_config_typed_witness:
  "\<exists>c. NewProxyConfigurerFromMsg (\<lambda>_. True) demo_toBytes (emptyMsg\<lparr>mProxyName := ''p''\<rparr>) demo_cfg = Inr c \<and> typeName c = ''tcp''"
proof -
  obtain c where c: "NewProxyConfigurerFromMsg (\<lambda>_. True) demo_toBytes (emptyMsg\<lparr>mProxyName := ''p''\<rparr>) demo_cfg = Inr c"
    by (simp add: NewProxyConfigurerFromMsg_def EmptyOr_def NewProxyConfigurerByType_def emptyMsg_def completeConfigurer_def unmarshalTCP_def
        validateProxyBaseConfigForServer_def completeBase_def unmarshalBase_def ValidateAnnotations_def orElse_def Let_def)
  with server_config_typed [OF c] show ?thesis by (simp add: emptyMsg_def EmptyOr_def)
qed

theorem custom_domain_not_subdomain_witness:
  "routeKey (httpRoute demo_bp '''' ''www.other.com'' ''/'') \<noteq> routeKey (httpRoute demo_bp '''' ''web.example.com'' ''/'')"
proof -
  let ?d = "\<lparr>CustomDomains = [''www.other.com''], SubDomain = ''''\<rparr>" and ?d' = "\<lparr>CustomDomains = [], SubDomain = ''web''\<rparr>"
  have "validateDomainConfigForServer ?d demo_cfg = None" "validateDomainConfigForServer ?d' demo_cfg = None"
    by (simp_all add: validateDomainConfigForServer_def customDomainTaken_def HasSuffix_def ToLower_def ascii_lower_def orElse_def demo_cfg_def)
  from custom_domain_not_subdomain [OF this, of "''www.other.com''"] show ?thesis by (simp add: demo_cfg_def)
qed

end
