(* ===== verification/Config_Source.thy ===== *)
theory Config_Source
  imports Proxy_Config "HOL-Library.List_Lexorder" "HOL-Library.Char_ord"
begin

text \<open>
  Where the client's proxies and visitors come from: the configuration of visitors (\<^verbatim>\<open>pkg/config/v1/visitor.go\<close>,
  \<^verbatim>\<open>visitor_plugin.go\<close>, \<^verbatim>\<open>validation/visitor.go\<close>), the sources of \<^verbatim>\<open>pkg/config/source\<close> (the source filled from the
  configuration file, the store that the admin API changes and that is kept in a file of its own, and the aggregator that merges
  them), and the filtering and completion of \<^verbatim>\<open>pkg/config/load.go\<close>.

  Go maps are iterated in any order: wherever the code ranges over a map, the order is an argument.  JSON and the file system are
  arguments too: a document is parsed to raw entries and an entry to a configuration, and every step of saving may fail.
\<close>

section \<open>Visitors\<close>

datatype VisitorPluginOptions = VirtualNetVisitorPluginOptions string string

record VisitorBaseConfig =
  vName :: string
  vType :: string
  vEnabled :: "bool option"
  vUseEncryption :: bool
  vUseCompression :: bool
  vSecretKey :: string
  vServerUser :: string
  vServerName :: string
  vBindAddr :: string
  vBindPort :: int
  vPluginType :: string
  vPluginOptions :: "VisitorPluginOptions option"

record XTCPVisitorOptions =
  xvProtocol :: string
  xvKeepTunnelOpen :: bool
  xvMaxRetriesAnHour :: int
  xvMinRetryInterval :: int
  xvFallbackTo :: string
  xvFallbackTimeoutMs :: int
  xvNatTraversal :: "bool option"

datatype VisitorConfigurer =
    STCPVisitorCfg VisitorBaseConfig
  | SUDPVisitorCfg VisitorBaseConfig
  | XTCPVisitorCfg VisitorBaseConfig XTCPVisitorOptions
  | XUDPVisitorCfg VisitorBaseConfig string int "bool option"

fun visitorBase :: "VisitorConfigurer \<Rightarrow> VisitorBaseConfig" where
  "visitorBase (STCPVisitorCfg b) = b"
| "visitorBase (SUDPVisitorCfg b) = b"
| "visitorBase (XTCPVisitorCfg b x) = b"
| "visitorBase (XUDPVisitorCfg b f t n) = b"

definition EmptyOrInt :: "int \<Rightarrow> int \<Rightarrow> int" where
  "EmptyOrInt v fallback = (if v = 0 then fallback else v)"

definition completeVisitorBase :: "VisitorBaseConfig \<Rightarrow> VisitorBaseConfig" where
  "completeVisitorBase c = c\<lparr>vBindAddr := EmptyOr (vBindAddr c) ''127.0.0.1''\<rparr>"

fun completeVisitor :: "VisitorConfigurer \<Rightarrow> VisitorConfigurer" where
  "completeVisitor (STCPVisitorCfg b) = STCPVisitorCfg (completeVisitorBase b)"
| "completeVisitor (SUDPVisitorCfg b) = SUDPVisitorCfg (completeVisitorBase b)"
| "completeVisitor (XTCPVisitorCfg b x) = XTCPVisitorCfg (completeVisitorBase b)
     (x\<lparr>xvProtocol := EmptyOr (xvProtocol x) ''quic'', xvMaxRetriesAnHour := EmptyOrInt (xvMaxRetriesAnHour x) 8,
       xvMinRetryInterval := EmptyOrInt (xvMinRetryInterval x) 90, xvFallbackTimeoutMs := EmptyOrInt (xvFallbackTimeoutMs x) 1000\<rparr>)"
| "completeVisitor (XUDPVisitorCfg b f t n) = XUDPVisitorCfg (completeVisitorBase b) f (EmptyOrInt t 1000) n"

definition zeroVisitorBase :: VisitorBaseConfig where
  "zeroVisitorBase = \<lparr>vName = '''', vType = '''', vEnabled = None, vUseEncryption = False, vUseCompression = False, vSecretKey = '''',
     vServerUser = '''', vServerName = '''', vBindAddr = '''', vBindPort = 0, vPluginType = '''', vPluginOptions = None\<rparr>"

definition NewVisitorConfigurerByType :: "string \<Rightarrow> VisitorConfigurer option" where
  "NewVisitorConfigurerByType t =
     (let b = zeroVisitorBase\<lparr>vType := t\<rparr> in
      if t = ''stcp'' then Some (STCPVisitorCfg b)
      else if t = ''xtcp'' then
        Some (XTCPVisitorCfg b \<lparr>xvProtocol = '''', xvKeepTunnelOpen = False, xvMaxRetriesAnHour = 0, xvMinRetryInterval = 0,
          xvFallbackTo = '''', xvFallbackTimeoutMs = 0, xvNatTraversal = None\<rparr>)
      else if t = ''sudp'' then Some (SUDPVisitorCfg b)
      else if t = ''xudp'' then Some (XUDPVisitorCfg b '''' 0 None)
      else None)"

datatype visitorConfigError = VNameRequired | VServerNameRequired | VBindPortRequired | VProtocolInvalid

definition validateVisitorBaseConfig :: "VisitorBaseConfig \<Rightarrow> visitorConfigError option" where
  "validateVisitorBaseConfig c =
     (if vName c = '''' then Some VNameRequired
      else if vServerName c = '''' then Some VServerNameRequired
      else if vBindPort c = 0 then Some VBindPortRequired
      else None)"

definition validateXTCPVisitorConfig :: "XTCPVisitorOptions \<Rightarrow> visitorConfigError option" where
  "validateXTCPVisitorConfig x = (if xvProtocol x \<in> {''kcp'', ''quic''} then None else Some VProtocolInvalid)"

definition ValidateVisitorConfigurer :: "VisitorConfigurer \<Rightarrow> visitorConfigError option" where
  "ValidateVisitorConfigurer c =
     (case validateVisitorBaseConfig (visitorBase c) of
        Some e \<Rightarrow> Some e
      | None \<Rightarrow> (case c of XTCPVisitorCfg b x \<Rightarrow> validateXTCPVisitorConfig x | _ \<Rightarrow> None))"

section \<open>Names and switches of entries\<close>

definition proxyCfgName :: "ProxyConfigurer \<Rightarrow> string" where
  "proxyCfgName c = cName (GetBaseConfig c)"

definition visitorCfgName :: "VisitorConfigurer \<Rightarrow> string" where
  "visitorCfgName c = vName (visitorBase c)"

definition proxyEnabled :: "ProxyConfigurer \<Rightarrow> bool" where
  "proxyEnabled c \<longleftrightarrow> Enabled (GetBaseConfig c) \<noteq> Some False"

definition visitorEnabled :: "VisitorConfigurer \<Rightarrow> bool" where
  "visitorEnabled c \<longleftrightarrow> vEnabled (visitorBase c) \<noteq> Some False"

datatype source_error =
    NilEntry | EmptyName | AlreadyExists string | NotFound string | PathRequired | ParseFailed | DecodeFailed nat | PersistFailed | FileMissing

text \<open>\<^verbatim>\<open>validateProxyName\<close> and \<^verbatim>\<open>validateVisitorName\<close>; None is a nil interface value.\<close>

definition validateName :: "('c \<Rightarrow> string) \<Rightarrow> 'c option \<Rightarrow> source_error + string" where
  "validateName nm c = (case c of None \<Rightarrow> Inl NilEntry | Some c \<Rightarrow> if nm c = '''' then Inl EmptyName else Inr (nm c))"

section \<open>Sources\<close>

record baseSource =
  proxies :: "string \<Rightarrow> ProxyConfigurer option"
  visitors :: "string \<Rightarrow> VisitorConfigurer option"

definition newBaseSource :: baseSource where
  "newBaseSource = \<lparr>proxies = Map.empty, visitors = Map.empty\<rparr>"

text \<open>A range over a map: the values in the order of the keys given.\<close>

definition valuesIn :: "'k list \<Rightarrow> ('k \<Rightarrow> 'c option) \<Rightarrow> 'c list" where
  "valuesIn ks m = List.map_filter m ks"

definition enumerates :: "'k list \<Rightarrow> ('k \<Rightarrow> 'c option) \<Rightarrow> bool" where
  "enumerates ks m \<longleftrightarrow> distinct ks \<and> set ks = dom m"

definition cloneConfigurers :: "'p option list \<Rightarrow> 'v option list \<Rightarrow> source_error + ('p list \<times> 'v list)" where
  "cloneConfigurers ps vs =
     (if None \<in> set ps then Inl NilEntry
      else if None \<in> set vs then Inl NilEntry
      else Inr (map the ps, map the vs))"

definition sourceLoad :: "string list \<Rightarrow> string list \<Rightarrow> baseSource \<Rightarrow> source_error + (ProxyConfigurer list \<times> VisitorConfigurer list)" where
  "sourceLoad po vo s =
     cloneConfigurers (map Some (filter proxyEnabled (valuesIn po (proxies s)))) (map Some (filter visitorEnabled (valuesIn vo (visitors s))))"

fun nextEntries :: "('c \<Rightarrow> string) \<Rightarrow> 'c option list \<Rightarrow> (string \<Rightarrow> 'c option) \<Rightarrow> source_error + (string \<Rightarrow> 'c option)" where
  "nextEntries nm [] m = Inr m"
| "nextEntries nm (c # cs) m = bindR (validateName nm c) (\<lambda>name. nextEntries nm cs (m(name := c)))"

definition ReplaceAll :: "ProxyConfigurer option list \<Rightarrow> VisitorConfigurer option list \<Rightarrow> baseSource \<Rightarrow> source_error + baseSource" where
  "ReplaceAll ps vs s =
     bindR (nextEntries proxyCfgName ps Map.empty) (\<lambda>np.
     bindR (nextEntries visitorCfgName vs Map.empty) (\<lambda>nv. Inr (s\<lparr>proxies := np, visitors := nv\<rparr>)))"

section \<open>The aggregator\<close>

definition mergeEntries :: "('c \<Rightarrow> string) \<Rightarrow> 'c list \<Rightarrow> (string \<Rightarrow> 'c option) \<Rightarrow> string \<Rightarrow> 'c option" where
  "mergeEntries nm cs m = fold (\<lambda>c m. m(nm c \<mapsto> c)) cs m"

definition sortedSlice :: "('c \<Rightarrow> string) \<Rightarrow> string list \<Rightarrow> (string \<Rightarrow> 'c option) \<Rightarrow> 'c list" where
  "sortedSlice nm ks m = sort_key nm (valuesIn ks m)"

text \<open>The loop of \<^verbatim>\<open>Aggregator.Load\<close>, a source with the orders in which its maps are ranged over.\<close>

fun mergeSources ::
  "(string list \<times> string list \<times> baseSource) list \<Rightarrow> (string \<Rightarrow> ProxyConfigurer option) \<times> (string \<Rightarrow> VisitorConfigurer option) \<Rightarrow>
   source_error + (string \<Rightarrow> ProxyConfigurer option) \<times> (string \<Rightarrow> VisitorConfigurer option)" where
  "mergeSources [] acc = Inr acc"
| "mergeSources ((po, vo, s) # rest) acc =
     bindR (sourceLoad po vo s) (\<lambda>(ps, vs). mergeSources rest (mergeEntries proxyCfgName ps (fst acc), mergeEntries visitorCfgName vs (snd acc)))"

definition mapsToSortedSlices ::
  "string list \<Rightarrow> string list \<Rightarrow> (string \<Rightarrow> ProxyConfigurer option) \<times> (string \<Rightarrow> VisitorConfigurer option) \<Rightarrow> ProxyConfigurer list \<times> VisitorConfigurer list" where
  "mapsToSortedSlices po vo m = (sortedSlice proxyCfgName po (fst m), sortedSlice visitorCfgName vo (snd m))"

text \<open>The sources of the aggregator, in the order of their priority, and \<^verbatim>\<open>Load\<close>.  The function \<open>ord\<close> gives the order in which the
  merged maps are ranged over.\<close>

definition getSourcesLocked :: "(string list \<times> string list \<times> baseSource) \<Rightarrow> (string list \<times> string list \<times> baseSource) option \<Rightarrow>
   (string list \<times> string list \<times> baseSource) list" where
  "getSourcesLocked conf ss = conf # (case ss of None \<Rightarrow> [] | Some s \<Rightarrow> [s])"

definition aggregatorLoad ::
  "((string \<Rightarrow> ProxyConfigurer option) \<Rightarrow> string list) \<Rightarrow> ((string \<Rightarrow> VisitorConfigurer option) \<Rightarrow> string list) \<Rightarrow>
   (string list \<times> string list \<times> baseSource) \<Rightarrow> (string list \<times> string list \<times> baseSource) option \<Rightarrow>
   source_error + (ProxyConfigurer list \<times> VisitorConfigurer list)" where
  "aggregatorLoad pord vord conf ss =
     bindR (mergeSources (getSourcesLocked conf ss) (Map.empty, Map.empty)) (\<lambda>m.
       Inr (mapsToSortedSlices (pord (fst m)) (vord (snd m)) m))"

section \<open>Filtering and completion\<close>

definition hasDuplicate :: "('c \<Rightarrow> string) \<Rightarrow> 'c list \<Rightarrow> bool" where
  "hasDuplicate nm cs \<longleftrightarrow> \<not> distinct (map nm cs)"

definition validateNoDuplicateNames :: "ProxyConfigurer list \<Rightarrow> VisitorConfigurer list \<Rightarrow> bool" where
  "validateNoDuplicateNames ps vs \<longleftrightarrow> \<not> hasDuplicate proxyCfgName ps \<and> \<not> hasDuplicate visitorCfgName vs"

definition FilterClientConfigurers :: "string list \<Rightarrow> ProxyConfigurer list \<Rightarrow> VisitorConfigurer list \<Rightarrow> ProxyConfigurer list \<times> VisitorConfigurer list" where
  "FilterClientConfigurers start ps vs =
     (let ps = (if start \<noteq> [] then filter (\<lambda>c. proxyCfgName c \<in> set start) ps else ps);
          vs = (if start \<noteq> [] then filter (\<lambda>c. visitorCfgName c \<in> set start) vs else vs)
      in (filter proxyEnabled ps, filter visitorEnabled vs))"

definition CompleteProxyConfigurers :: "ProxyConfigurer list \<Rightarrow> ProxyConfigurer list" where
  "CompleteProxyConfigurers = map completeConfigurer"

definition CompleteVisitorConfigurers :: "VisitorConfigurer list \<Rightarrow> VisitorConfigurer list" where
  "CompleteVisitorConfigurers = map completeVisitor"

section \<open>What the aggregator computes\<close>

definition wfMap :: "('c \<Rightarrow> string) \<Rightarrow> (string \<Rightarrow> 'c option) \<Rightarrow> bool" where
  "wfMap nm m \<longleftrightarrow> finite (dom m) \<and> (\<forall>k c. m k = Some c \<longrightarrow> nm c = k \<and> k \<noteq> '''')"

definition wfSource :: "baseSource \<Rightarrow> bool" where
  "wfSource s \<longleftrightarrow> wfMap proxyCfgName (proxies s) \<and> wfMap visitorCfgName (visitors s)"

definition enabledMap :: "('c \<Rightarrow> bool) \<Rightarrow> (string \<Rightarrow> 'c option) \<Rightarrow> string \<Rightarrow> 'c option" where
  "enabledMap en m k = (case m k of None \<Rightarrow> None | Some c \<Rightarrow> if en c then Some c else None)"

text \<open>The reference: the enabled entries of the store over the enabled entries of the file, listed by name.\<close>

definition listByName :: "(string \<Rightarrow> 'c option) \<Rightarrow> 'c list" where
  "listByName m = map (\<lambda>k. the (m k)) (sorted_list_of_set (dom m))"

definition merged :: "('c \<Rightarrow> bool) \<Rightarrow> (string \<Rightarrow> 'c option) \<Rightarrow> (string \<Rightarrow> 'c option) option \<Rightarrow> string \<Rightarrow> 'c option" where
  "merged en m st = enabledMap en m ++ (case st of None \<Rightarrow> Map.empty | Some m' \<Rightarrow> enabledMap en m')"

lemma wfMap_empty [simp]: "wfMap nm Map.empty"
  by (simp add: wfMap_def)

lemma wfMap_upd: "wfMap nm m \<Longrightarrow> nm c \<noteq> '''' \<Longrightarrow> wfMap nm (m(nm c \<mapsto> c))"
  by (auto simp: wfMap_def)

lemma wfMap_del: "wfMap nm m \<Longrightarrow> wfMap nm (m(k := None))"
  by (auto simp: wfMap_def)

lemma wfMap_enabled: "wfMap nm m \<Longrightarrow> wfMap nm (enabledMap en m)"
proof -
  assume m: "wfMap nm m"
  have "dom (enabledMap en m) \<subseteq> dom m" by (auto simp: enabledMap_def split: option.splits if_splits)
  then show ?thesis using m finite_subset by (auto simp: wfMap_def enabledMap_def split: option.splits if_splits)
qed

lemma wfMap_add: "wfMap nm m \<Longrightarrow> wfMap nm m' \<Longrightarrow> wfMap nm (m ++ m')"
  by (auto simp: wfMap_def map_add_Some_iff)

lemma wfMap_merged:
  assumes "wfMap nm m" "case st of None \<Rightarrow> True | Some m' \<Rightarrow> wfMap nm m'"
  shows "wfMap nm (merged en m st)"
  using assms by (auto simp: merged_def intro!: wfMap_add wfMap_enabled split: option.splits)

lemma valuesIn_simps [simp]:
  "valuesIn [] m = []"
  "valuesIn (k # ks) m = (case m k of None \<Rightarrow> valuesIn ks m | Some c \<Rightarrow> c # valuesIn ks m)"
  by (auto simp: valuesIn_def List.map_filter_simps split: option.splits)

lemma mergeEntries_simps [simp]:
  "mergeEntries nm [] acc = acc"
  "mergeEntries nm (c # cs) acc = mergeEntries nm cs (acc(nm c \<mapsto> c))"
  by (simp_all add: mergeEntries_def)

text \<open>Ranging over a map and writing its enabled values by name adds the enabled part of the map, in whatever order.\<close>

lemma merge_values:
  assumes "wfMap nm m" "distinct ks"
  shows "mergeEntries nm (filter en (valuesIn ks m)) acc k = (if k \<in> set ks \<and> enabledMap en m k \<noteq> None then enabledMap en m k else acc k)"
  using assms(2)
proof (induction ks arbitrary: acc)
  case (Cons j ks)
  then show ?case
    using assms(1) by (auto simp: wfMap_def enabledMap_def split: option.splits)
qed simp

lemma merge_map:
  assumes "wfMap nm m" "enumerates ks m"
  shows "mergeEntries nm (filter en (valuesIn ks m)) acc = acc ++ enabledMap en m"
proof
  fix k
  have "k \<in> set ks" if "enabledMap en m k \<noteq> None"
    using that assms(2) by (auto simp: enumerates_def enabledMap_def split: option.splits)
  then show "mergeEntries nm (filter en (valuesIn ks m)) acc k = (acc ++ enabledMap en m) k"
    using assms by (auto simp: merge_values enumerates_def map_add_def split: option.splits)
qed

lemma valuesIn_map: "set ks \<subseteq> dom m \<Longrightarrow> valuesIn ks m = map (\<lambda>k. the (m k)) ks"
  by (induction ks) auto

lemma slice_list:
  assumes "wfMap nm m" "enumerates ks m"
  shows "sortedSlice nm ks m = listByName m"
proof -
  have vals: "valuesIn ks m = map (\<lambda>k. the (m k)) ks" using assms(2) by (auto simp: enumerates_def valuesIn_map)
  have "nm (the (m k)) = k" if "k \<in> dom m" for k using that assms(1) by (auto simp: wfMap_def)
  then have names: "map nm (map (\<lambda>k. the (m k)) l) = l" if "set l \<subseteq> dom m" for l
    using that by (induction l) auto
  have inj: "inj_on (\<lambda>k. the (m k)) (dom m)" "inj_on nm ((\<lambda>k. the (m k)) ` dom m)"
    using assms(1) by (auto simp: inj_on_def wfMap_def) (metis option.sel)+
  let ?l = "sorted_list_of_set (dom m)"
  have fin: "finite (dom m)" using assms(1) by (simp add: wfMap_def)
  have "sort_key nm (map (\<lambda>k. the (m k)) ks) = map (\<lambda>k. the (m k)) ?l"
  proof (rule map_sorted_distinct_set_unique)
    show "inj_on nm (set (sort_key nm (map (\<lambda>k. the (m k)) ks)) \<union> set (map (\<lambda>k. the (m k)) ?l))"
      using assms fin by (auto simp: inj_on_def wfMap_def enumerates_def)
    show "sorted (map nm (sort_key nm (map (\<lambda>k. the (m k)) ks)))" by simp
    show "distinct (map nm (sort_key nm (map (\<lambda>k. the (m k)) ks)))"
      using inj assms(2) by (simp add: distinct_map enumerates_def)
    show "sorted (map nm (map (\<lambda>k. the (m k)) ?l))" "distinct (map nm (map (\<lambda>k. the (m k)) ?l))"
      using names[of ?l] fin by simp_all
    show "set (sort_key nm (map (\<lambda>k. the (m k)) ks)) = set (map (\<lambda>k. the (m k)) ?l)"
      using assms(2) fin by (simp add: enumerates_def)
  qed
  then show ?thesis using vals by (simp add: sortedSlice_def listByName_def)
qed

lemma clone_some [simp]: "cloneConfigurers (map Some ps) (map Some vs) = Inr (ps, vs)"
  by (auto simp: cloneConfigurers_def comp_def)

lemma sourceLoad_Inr: "sourceLoad po vo s = Inr (filter proxyEnabled (valuesIn po (proxies s)), filter visitorEnabled (valuesIn vo (visitors s)))"
  by (simp add: sourceLoad_def)

definition iterated :: "string list \<Rightarrow> string list \<Rightarrow> baseSource \<Rightarrow> bool" where
  "iterated po vo s \<longleftrightarrow> wfSource s \<and> enumerates po (proxies s) \<and> enumerates vo (visitors s)"

lemma merge_source:
  assumes "iterated po vo s"
  shows "mergeSources ((po, vo, s) # rest) (accp, accv) =
    mergeSources rest (accp ++ enabledMap proxyEnabled (proxies s), accv ++ enabledMap visitorEnabled (visitors s))"
  using assms by (simp add: iterated_def wfSource_def sourceLoad_Inr merge_map)

section \<open>The store\<close>

text \<open>The file of the store and the temporary file beside it.  \<open>Partial\<close> is a file that is not completely written.\<close>

datatype 'b tmpFile = NoTmp | Partial | Written 'b

record 'b disk =
  target :: "'b option"
  tmpFile :: "'b tmpFile"

text \<open>The step at which a save fails.\<close>

datatype saveFault = NoFault | MarshalFault | MkdirFault | OpenFault | WriteFault | SyncFault | CloseFault | RenameFault

datatype 'b diskOp = OpenTmp | WritePart | WriteAll 'b | RenameTmp | RemoveTmp

fun doDisk :: "'b diskOp \<Rightarrow> 'b disk \<Rightarrow> 'b disk" where
  "doDisk OpenTmp d = d\<lparr>tmpFile := Partial\<rparr>"
| "doDisk WritePart d = d\<lparr>tmpFile := Partial\<rparr>"
| "doDisk (WriteAll b) d = d\<lparr>tmpFile := Written b\<rparr>"
| "doDisk RenameTmp d = (case tmpFile d of Written b \<Rightarrow> d\<lparr>target := Some b, tmpFile := NoTmp\<rparr> | _ \<Rightarrow> d)"
| "doDisk RemoveTmp d = d\<lparr>tmpFile := NoTmp\<rparr>"

text \<open>What \<^verbatim>\<open>saveToFileUnlocked\<close> does to the disk, given the document and the step that fails.\<close>

fun saveOps :: "saveFault \<Rightarrow> 'b \<Rightarrow> 'b diskOp list" where
  "saveOps NoFault b = [OpenTmp, WriteAll b, RenameTmp]"
| "saveOps WriteFault b = [OpenTmp, WritePart, RemoveTmp]"
| "saveOps SyncFault b = [OpenTmp, WriteAll b, RemoveTmp]"
| "saveOps CloseFault b = [OpenTmp, WriteAll b, RemoveTmp]"
| "saveOps RenameFault b = [OpenTmp, WriteAll b, RemoveTmp]"
| "saveOps _ b = []"

record 'b storeSource =
  base :: baseSource
  disk :: "'b disk"

text \<open>The JSON codec of the store's document: writing the entries, parsing to raw entries, decoding an entry.\<close>

record ('b, 'r) storeCodec =
  marshal :: "ProxyConfigurer list \<Rightarrow> VisitorConfigurer list \<Rightarrow> 'b option"
  parse :: "'b \<Rightarrow> ('r list \<times> 'r list) option"
  decodeProxy :: "'r \<Rightarrow> ProxyConfigurer option"
  decodeVisitor :: "'r \<Rightarrow> VisitorConfigurer option"

fun storedEntries :: "('c \<Rightarrow> string) \<Rightarrow> ('r \<Rightarrow> 'c option) \<Rightarrow> nat \<Rightarrow> 'r list \<Rightarrow> (string \<Rightarrow> 'c option) \<Rightarrow> source_error + (string \<Rightarrow> 'c option)" where
  "storedEntries nm dec i [] m = Inr m"
| "storedEntries nm dec i (r # rs) m =
     (case dec r of
        None \<Rightarrow> Inl (DecodeFailed i)
      | Some c \<Rightarrow> if nm c = '''' then Inl EmptyName else storedEntries nm dec (Suc i) rs (m(nm c \<mapsto> c)))"

definition loadDocument :: "('b, 'r) storeCodec \<Rightarrow> 'b \<Rightarrow> source_error + baseSource" where
  "loadDocument k b =
     (case parse k b of
        None \<Rightarrow> Inl ParseFailed
      | Some (rps, rvs) \<Rightarrow>
          bindR (storedEntries proxyCfgName (decodeProxy k) 0 rps Map.empty) (\<lambda>np.
          bindR (storedEntries visitorCfgName (decodeVisitor k) 0 rvs Map.empty) (\<lambda>nv.
          Inr \<lparr>proxies = np, visitors = nv\<rparr>)))"

definition loadFromFile :: "('b, 'r) storeCodec \<Rightarrow> 'b disk \<Rightarrow> source_error + baseSource" where
  "loadFromFile k d = (case target d of None \<Rightarrow> Inl FileMissing | Some b \<Rightarrow> loadDocument k b)"

definition NewStoreSource :: "('b, 'r) storeCodec \<Rightarrow> string \<Rightarrow> 'b disk \<Rightarrow> source_error + 'b storeSource" where
  "NewStoreSource k path d =
     (if path = '''' then Inl PathRequired
      else (case loadFromFile k d of
         Inr s \<Rightarrow> Inr \<lparr>base = s, disk = d\<rparr>
       | Inl FileMissing \<Rightarrow> Inr \<lparr>base = newBaseSource, disk = d\<rparr>
       | Inl e \<Rightarrow> Inl e))"

text \<open>A save takes the order in which the maps are ranged over and the fault.\<close>

type_synonym saveEnv = "saveFault \<times> string list \<times> string list"

definition saveToFile :: "('b, 'r) storeCodec \<Rightarrow> saveEnv \<Rightarrow> 'b storeSource \<Rightarrow> bool \<times> 'b diskOp list" where
  "saveToFile k env s =
     (case env of (fault, po, vo) \<Rightarrow>
        (case marshal k (valuesIn po (proxies (base s))) (valuesIn vo (visitors (base s))) of
           None \<Rightarrow> (False, [])
         | Some b \<Rightarrow> if fault = MarshalFault then (False, []) else (fault = NoFault, saveOps fault b)))"

definition persistOrRollback :: "('b, 'r) storeCodec \<Rightarrow> saveEnv \<Rightarrow> (baseSource \<Rightarrow> baseSource) \<Rightarrow> 'b storeSource \<Rightarrow> source_error option \<times> 'b storeSource" where
  "persistOrRollback k env rollback s =
     (case saveToFile k env s of (ok, ops) \<Rightarrow>
        let s' = s\<lparr>disk := fold doDisk ops (disk s)\<rparr> in
        if ok then (None, s') else (Some PersistFailed, s'\<lparr>base := rollback (base s')\<rparr>))"

text \<open>The generic helpers of the store, with the selector of the proxies or of the visitors as a pair of getter and setter.\<close>

definition addStoreEntry where
  "addStoreEntry get put k env name v s =
     (if get (base s) name \<noteq> None then (Some (AlreadyExists name), s)
      else persistOrRollback k env (\<lambda>b. put ((get b)(name := None)) b) (s\<lparr>base := put ((get (base s))(name \<mapsto> v)) (base s)\<rparr>))"

definition updateStoreEntry where
  "updateStoreEntry get put k env name v s =
     (case get (base s) name of
        None \<Rightarrow> (Some (NotFound name), s)
      | Some old \<Rightarrow> persistOrRollback k env (\<lambda>b. put ((get b)(name \<mapsto> old)) b) (s\<lparr>base := put ((get (base s))(name \<mapsto> v)) (base s)\<rparr>))"

definition removeStoreEntry where
  "removeStoreEntry get put k env name s =
     (if name = '''' then (Some EmptyName, s)
      else (case get (base s) name of
         None \<Rightarrow> (Some (NotFound name), s)
       | Some old \<Rightarrow> persistOrRollback k env (\<lambda>b. put ((get b)(name \<mapsto> old)) b) (s\<lparr>base := put ((get (base s))(name := None)) (base s)\<rparr>)))"

definition AddProxy :: "('b, 'r) storeCodec \<Rightarrow> saveEnv \<Rightarrow> ProxyConfigurer option \<Rightarrow> 'b storeSource \<Rightarrow> source_error option \<times> 'b storeSource" where
  "AddProxy k env c s = (case validateName proxyCfgName c of Inl e \<Rightarrow> (Some e, s)
     | Inr name \<Rightarrow> addStoreEntry proxies (\<lambda>m. proxies_update (\<lambda>_. m)) k env name (the c) s)"

definition UpdateProxy :: "('b, 'r) storeCodec \<Rightarrow> saveEnv \<Rightarrow> ProxyConfigurer option \<Rightarrow> 'b storeSource \<Rightarrow> source_error option \<times> 'b storeSource" where
  "UpdateProxy k env c s = (case validateName proxyCfgName c of Inl e \<Rightarrow> (Some e, s)
     | Inr name \<Rightarrow> updateStoreEntry proxies (\<lambda>m. proxies_update (\<lambda>_. m)) k env name (the c) s)"

definition RemoveProxy :: "('b, 'r) storeCodec \<Rightarrow> saveEnv \<Rightarrow> string \<Rightarrow> 'b storeSource \<Rightarrow> source_error option \<times> 'b storeSource" where
  "RemoveProxy k env name s = removeStoreEntry proxies (\<lambda>m. proxies_update (\<lambda>_. m)) k env name s"

definition AddVisitor :: "('b, 'r) storeCodec \<Rightarrow> saveEnv \<Rightarrow> VisitorConfigurer option \<Rightarrow> 'b storeSource \<Rightarrow> source_error option \<times> 'b storeSource" where
  "AddVisitor k env c s = (case validateName visitorCfgName c of Inl e \<Rightarrow> (Some e, s)
     | Inr name \<Rightarrow> addStoreEntry visitors (\<lambda>m. visitors_update (\<lambda>_. m)) k env name (the c) s)"

definition UpdateVisitor :: "('b, 'r) storeCodec \<Rightarrow> saveEnv \<Rightarrow> VisitorConfigurer option \<Rightarrow> 'b storeSource \<Rightarrow> source_error option \<times> 'b storeSource" where
  "UpdateVisitor k env c s = (case validateName visitorCfgName c of Inl e \<Rightarrow> (Some e, s)
     | Inr name \<Rightarrow> updateStoreEntry visitors (\<lambda>m. visitors_update (\<lambda>_. m)) k env name (the c) s)"

definition RemoveVisitor :: "('b, 'r) storeCodec \<Rightarrow> saveEnv \<Rightarrow> string \<Rightarrow> 'b storeSource \<Rightarrow> source_error option \<times> 'b storeSource" where
  "RemoveVisitor k env name s = removeStoreEntry visitors (\<lambda>m. visitors_update (\<lambda>_. m)) k env name s"

definition GetProxy :: "string \<Rightarrow> 'b storeSource \<Rightarrow> ProxyConfigurer option" where
  "GetProxy name s = proxies (base s) name"

definition GetVisitor :: "string \<Rightarrow> 'b storeSource \<Rightarrow> VisitorConfigurer option" where
  "GetVisitor name s = visitors (base s) name"

definition GetAllProxies :: "string list \<Rightarrow> 'b storeSource \<Rightarrow> ProxyConfigurer list" where
  "GetAllProxies po s = valuesIn po (proxies (base s))"

definition GetAllVisitors :: "string list \<Rightarrow> 'b storeSource \<Rightarrow> VisitorConfigurer list" where
  "GetAllVisitors vo s = valuesIn vo (visitors (base s))"

section \<open>The store and its file agree\<close>

text \<open>What the code relies on of JSON: a document that was written is read back.\<close>

definition codecOK :: "('b, 'r) storeCodec \<Rightarrow> bool" where
  "codecOK k \<longleftrightarrow> (\<forall>ps vs b. marshal k ps vs = Some b \<longrightarrow>
     (\<exists>rps rvs. parse k b = Some (rps, rvs) \<and> map (decodeProxy k) rps = map Some ps \<and> map (decodeVisitor k) rvs = map Some vs))"

definition storeOK :: "('b, 'r) storeCodec \<Rightarrow> 'b storeSource \<Rightarrow> bool" where
  "storeOK k s \<longleftrightarrow> wfSource (base s) \<and>
     (case target (disk s) of None \<Rightarrow> base s = newBaseSource | Some b \<Rightarrow> loadDocument k b = Inr (base s))"

lemma stored_merge:
  "map dec rs = map Some cs \<Longrightarrow> (\<forall>c\<in>set cs. nm c \<noteq> '''') \<Longrightarrow> storedEntries nm dec i rs m = Inr (mergeEntries nm cs m)"
proof (induction cs arbitrary: rs i m)
  case (Cons c cs)
  then obtain r rs' where "rs = r # rs'" "dec r = Some c" "map dec rs' = map Some cs" by (cases rs) auto
  then show ?case using Cons by simp
qed simp

lemma values_named: "wfMap nm m \<Longrightarrow> c \<in> set (valuesIn ks m) \<Longrightarrow> nm c \<noteq> ''''"
  by (induction ks) (auto simp: wfMap_def split: option.splits)

lemma merge_all: "wfMap nm m \<Longrightarrow> enumerates ks m \<Longrightarrow> mergeEntries nm (valuesIn ks m) Map.empty = m"
  using merge_map[of nm m ks "\<lambda>_. True" Map.empty]
  by (simp add: enabledMap_def fun_eq_iff map_add_def split: option.splits)

lemma saved_loads:
  assumes "codecOK k" "iterated po vo s" "marshal k (valuesIn po (proxies s)) (valuesIn vo (visitors s)) = Some b"
  shows "loadDocument k b = Inr s"
proof -
  obtain rps rvs where raw: "parse k b = Some (rps, rvs)" "map (decodeProxy k) rps = map Some (valuesIn po (proxies s))"
      "map (decodeVisitor k) rvs = map Some (valuesIn vo (visitors s))"
    using assms(1,3) unfolding codecOK_def by blast
  have wf: "wfMap proxyCfgName (proxies s)" "wfMap visitorCfgName (visitors s)" using assms(2) by (simp_all add: iterated_def wfSource_def)
  then show ?thesis
    using assms(2) raw by (simp add: loadDocument_def stored_merge values_named merge_all iterated_def)
qed

lemma save_disk:
  "target (fold doDisk (saveOps fault b) d) = (if fault = NoFault then Some b else target d)"
  by (cases fault) auto

lemma save_prefix:
  "target (fold doDisk (take n (saveOps fault b)) d) \<in> {target d, Some b}"
  by (cases fault) (auto simp: take_Cons' split: tmpFile.splits)

text \<open>How a mutation of the entries to \<open>b'\<close> may end: persisted, or undone.\<close>

definition saveOutcome :: "('b, 'r) storeCodec \<Rightarrow> saveEnv \<Rightarrow> baseSource \<Rightarrow> 'b storeSource \<Rightarrow> source_error option \<Rightarrow> 'b storeSource \<Rightarrow> bool" where
  "saveOutcome k env b' s r s' \<longleftrightarrow>
     (case saveToFile k env (s\<lparr>base := b'\<rparr>) of (ok, ops) \<Rightarrow>
        disk s' = fold doDisk ops (disk s) \<and> (if ok then r = None \<and> base s' = b' else r = Some PersistFailed \<and> base s' = base s))"

lemma persist_outcome:
  assumes "rollback b' = base s"
  shows "saveOutcome k env b' s (fst (persistOrRollback k env rollback (s\<lparr>base := b'\<rparr>))) (snd (persistOrRollback k env rollback (s\<lparr>base := b'\<rparr>)))"
  using assms by (auto simp: saveOutcome_def persistOrRollback_def Let_def split: prod.splits)

lemma outcome_ok:
  assumes "saveOutcome k env b' s r s'" "storeOK k s" "codecOK k" "iterated (fst (snd env)) (snd (snd env)) b'"
  shows "storeOK k s' \<and> (if r = None then base s' = b' else r = Some PersistFailed \<and> base s' = base s)"
proof -
  obtain fault po vo where env: "env = (fault, po, vo)" by (cases env)
  show ?thesis
  proof (cases "marshal k (valuesIn po (proxies b')) (valuesIn vo (visitors b'))")
    case None
    then show ?thesis using assms(1,2) env by (auto simp: saveOutcome_def saveToFile_def storeOK_def split: option.splits)
  next
    case (Some b)
    then have "loadDocument k b = Inr b'" using saved_loads[OF assms(3)] assms(4) env by auto
    then show ?thesis
      using assms(1,2,4) env Some by (auto simp: saveOutcome_def saveToFile_def storeOK_def save_disk iterated_def split: if_splits option.splits)
  qed
qed

text \<open>The contract of the selectors that the generic helpers take.\<close>

locale store_entries =
  fixes get :: "baseSource \<Rightarrow> string \<Rightarrow> 'c option" and put :: "(string \<Rightarrow> 'c option) \<Rightarrow> baseSource \<Rightarrow> baseSource"
  assumes get_put: "get (put m b) = m"
    and put_get: "put (get b) b = b"
    and put_put: "put m (put m' b) = put m b"
begin

lemma put_back: "get b name = old \<Longrightarrow> put ((get b)(name := old)) b = b"
  by (metis fun_upd_triv put_get)

lemma add_outcome:
  assumes "addStoreEntry get put k env name v s = (r, s')"
  shows "if get (base s) name = None then saveOutcome k env (put ((get (base s))(name \<mapsto> v)) (base s)) s r s'
    else r = Some (AlreadyExists name) \<and> s' = s"
proof -
  have "put ((get (base s))(name := None)) (base s) = base s" if "get (base s) name = None" using put_back that by blast
  then show ?thesis
    using assms persist_outcome[of "\<lambda>b. put ((get b)(name := None)) b" "put ((get (base s))(name \<mapsto> v)) (base s)" s k env]
    by (auto simp: addStoreEntry_def get_put put_put split: if_splits)
qed

lemma update_outcome:
  assumes "updateStoreEntry get put k env name v s = (r, s')"
  shows "if get (base s) name = None then r = Some (NotFound name) \<and> s' = s
    else saveOutcome k env (put ((get (base s))(name \<mapsto> v)) (base s)) s r s'"
proof (cases "get (base s) name")
  case (Some old)
  then have "put ((get (base s))(name \<mapsto> old)) (base s) = base s" using put_back by blast
  then show ?thesis
    using assms Some persist_outcome[of "\<lambda>b. put ((get b)(name \<mapsto> old)) b" "put ((get (base s))(name \<mapsto> v)) (base s)" s k env]
    by (auto simp: updateStoreEntry_def get_put put_put)
qed (use assms in \<open>auto simp: updateStoreEntry_def\<close>)

lemma remove_outcome:
  assumes "removeStoreEntry get put k env name s = (r, s')"
  shows "if name = '''' then r = Some EmptyName \<and> s' = s
    else if get (base s) name = None then r = Some (NotFound name) \<and> s' = s
    else saveOutcome k env (put ((get (base s))(name := None)) (base s)) s r s'"
proof (cases "get (base s) name")
  case (Some old)
  then have "put ((get (base s))(name \<mapsto> old)) (base s) = base s" using put_back by blast
  then show ?thesis
    using assms Some persist_outcome[of "\<lambda>b. put ((get b)(name \<mapsto> old)) b" "put ((get (base s))(name := None)) (base s)" s k env]
    by (auto simp: removeStoreEntry_def get_put put_put)
qed (use assms in \<open>auto simp: removeStoreEntry_def\<close>)

end

interpretation proxyEntries: store_entries proxies "\<lambda>m. proxies_update (\<lambda>_. m)"
  by unfold_locales auto

interpretation visitorEntries: store_entries visitors "\<lambda>m. visitors_update (\<lambda>_. m)"
  by unfold_locales auto

text \<open>The operations of the store and the map they are meant to implement.\<close>

datatype storeOp =
    AddProxyOp "ProxyConfigurer option" | UpdateProxyOp "ProxyConfigurer option" | RemoveProxyOp string
  | AddVisitorOp "VisitorConfigurer option" | UpdateVisitorOp "VisitorConfigurer option" | RemoveVisitorOp string

fun storeDo :: "('b, 'r) storeCodec \<Rightarrow> saveEnv \<Rightarrow> storeOp \<Rightarrow> 'b storeSource \<Rightarrow> source_error option \<times> 'b storeSource" where
  "storeDo k env (AddProxyOp c) s = AddProxy k env c s"
| "storeDo k env (UpdateProxyOp c) s = UpdateProxy k env c s"
| "storeDo k env (RemoveProxyOp n) s = RemoveProxy k env n s"
| "storeDo k env (AddVisitorOp c) s = AddVisitor k env c s"
| "storeDo k env (UpdateVisitorOp c) s = UpdateVisitor k env c s"
| "storeDo k env (RemoveVisitorOp n) s = RemoveVisitor k env n s"

definition specAdd :: "('c \<Rightarrow> string) \<Rightarrow> 'c option \<Rightarrow> (string \<Rightarrow> 'c option) \<Rightarrow> source_error + (string \<Rightarrow> 'c option)" where
  "specAdd nm c m = bindR (validateName nm c) (\<lambda>n. if m n = None then Inr (m(n := c)) else Inl (AlreadyExists n))"

definition specUpdate :: "('c \<Rightarrow> string) \<Rightarrow> 'c option \<Rightarrow> (string \<Rightarrow> 'c option) \<Rightarrow> source_error + (string \<Rightarrow> 'c option)" where
  "specUpdate nm c m = bindR (validateName nm c) (\<lambda>n. if m n = None then Inl (NotFound n) else Inr (m(n := c)))"

definition specRemove :: "string \<Rightarrow> (string \<Rightarrow> 'c option) \<Rightarrow> source_error + (string \<Rightarrow> 'c option)" where
  "specRemove n m = (if n = '''' then Inl EmptyName else if m n = None then Inl (NotFound n) else Inr (m(n := None)))"

fun specOp :: "storeOp \<Rightarrow> baseSource \<Rightarrow> source_error + baseSource" where
  "specOp (AddProxyOp c) b = bindR (specAdd proxyCfgName c (proxies b)) (\<lambda>m. Inr (b\<lparr>proxies := m\<rparr>))"
| "specOp (UpdateProxyOp c) b = bindR (specUpdate proxyCfgName c (proxies b)) (\<lambda>m. Inr (b\<lparr>proxies := m\<rparr>))"
| "specOp (RemoveProxyOp n) b = bindR (specRemove n (proxies b)) (\<lambda>m. Inr (b\<lparr>proxies := m\<rparr>))"
| "specOp (AddVisitorOp c) b = bindR (specAdd visitorCfgName c (visitors b)) (\<lambda>m. Inr (b\<lparr>visitors := m\<rparr>))"
| "specOp (UpdateVisitorOp c) b = bindR (specUpdate visitorCfgName c (visitors b)) (\<lambda>m. Inr (b\<lparr>visitors := m\<rparr>))"
| "specOp (RemoveVisitorOp n) b = bindR (specRemove n (visitors b)) (\<lambda>m. Inr (b\<lparr>visitors := m\<rparr>))"

lemma store_outcome:
  assumes "storeDo k env op s = (r, s')"
  shows "case specOp op (base s) of Inl e \<Rightarrow> r = Some e \<and> s' = s | Inr b' \<Rightarrow> saveOutcome k env b' s r s'"
proof (cases op)
  case (AddProxyOp c)
  then show ?thesis using assms proxyEntries.add_outcome
    by (fastforce simp: AddProxy_def specAdd_def validateName_def split: option.splits if_splits)
next
  case (UpdateProxyOp c)
  then show ?thesis using assms proxyEntries.update_outcome
    by (fastforce simp: UpdateProxy_def specUpdate_def validateName_def split: option.splits if_splits)
next
  case (RemoveProxyOp n)
  then show ?thesis using assms proxyEntries.remove_outcome by (fastforce simp: RemoveProxy_def specRemove_def)
next
  case (AddVisitorOp c)
  then show ?thesis using assms visitorEntries.add_outcome
    by (fastforce simp: AddVisitor_def specAdd_def validateName_def split: option.splits if_splits)
next
  case (UpdateVisitorOp c)
  then show ?thesis using assms visitorEntries.update_outcome
    by (fastforce simp: UpdateVisitor_def specUpdate_def validateName_def split: option.splits if_splits)
next
  case (RemoveVisitorOp n)
  then show ?thesis using assms visitorEntries.remove_outcome by (fastforce simp: RemoveVisitor_def specRemove_def)
qed

lemma spec_map_wf:
  "wfMap nm m \<Longrightarrow> specAdd nm c m = Inr m' \<Longrightarrow> wfMap nm m'"
  "wfMap nm m \<Longrightarrow> specUpdate nm c m = Inr m' \<Longrightarrow> wfMap nm m'"
  "wfMap nm m \<Longrightarrow> specRemove n m = Inr m' \<Longrightarrow> wfMap nm m'"
  using wfMap_upd[of nm m "the c"] wfMap_del[of nm m]
  by (auto simp: specAdd_def specUpdate_def specRemove_def bindR_eq_Inr validateName_def split: option.splits if_splits)

lemma spec_wf: "wfSource b \<Longrightarrow> specOp op b = Inr b' \<Longrightarrow> wfSource b'"
  by (cases op) (auto simp: wfSource_def bindR_eq_Inr intro: spec_map_wf)

text \<open>The orders of a save run through the maps that are saved.\<close>

definition ordersFor :: "saveEnv \<Rightarrow> storeOp \<Rightarrow> baseSource \<Rightarrow> bool" where
  "ordersFor env op b \<longleftrightarrow> (case specOp op b of Inl e \<Rightarrow> True
     | Inr b' \<Rightarrow> enumerates (fst (snd env)) (proxies b') \<and> enumerates (snd (snd env)) (visitors b'))"

lemma orders_iterated: "wfSource b \<Longrightarrow> ordersFor env op b \<Longrightarrow> specOp op b = Inr b' \<Longrightarrow> iterated (fst (snd env)) (snd (snd env)) b'"
  using spec_wf by (simp add: ordersFor_def iterated_def)

lemma store_result:
  assumes "codecOK k" "storeOK k s" "ordersFor env op (base s)" "storeDo k env op s = (r, s')"
  shows "storeOK k s'" "r = None \<Longrightarrow> specOp op (base s) = Inr (base s')"
    "r = Some e \<Longrightarrow> base s' = base s \<and> (e = PersistFailed \<or> specOp op (base s) = Inl e)"
proof -
  have "storeOK k s' \<and> (case r of None \<Rightarrow> specOp op (base s) = Inr (base s')
    | Some e \<Rightarrow> base s' = base s \<and> (e = PersistFailed \<or> specOp op (base s) = Inl e))"
  proof (cases "specOp op (base s)")
    case (Inl e)
    then show ?thesis using store_outcome[OF assms(4)] assms(2) by simp
  next
    case (Inr b')
    have it: "iterated (fst (snd env)) (snd (snd env)) b'"
      using orders_iterated[OF _ assms(3) Inr] assms(2) by (simp add: storeOK_def)
    have "saveOutcome k env b' s r s'" using store_outcome[OF assms(4)] Inr by simp
    from outcome_ok[OF this assms(2,1) it] show ?thesis
      using Inr by (auto split: if_splits option.splits)
  qed
  then show "storeOK k s'" "r = None \<Longrightarrow> specOp op (base s) = Inr (base s')"
    "r = Some e \<Longrightarrow> base s' = base s \<and> (e = PersistFailed \<or> specOp op (base s) = Inl e)" by auto
qed

text \<open>C28. The store implements two maps with a file behind them: an operation either has the effect of the operation on the maps, or
  reports an error and leaves the maps as they were, whatever step of saving fails; and the file always holds exactly what is in memory.\<close>

theorem store_refines_maps:
  assumes "codecOK k" "storeOK k s" "ordersFor env op (base s)" "storeDo k env op s = (r, s')"
  shows "storeOK k s' \<and> (case r of None \<Rightarrow> specOp op (base s) = Inr (base s')
    | Some e \<Rightarrow> base s' = base s \<and> (e = PersistFailed \<or> specOp op (base s) = Inl e))"
  using store_result[OF assms] by (auto split: option.splits)

definition demo_codec :: "(ProxyConfigurer list \<times> VisitorConfigurer list, ProxyConfigurer + VisitorConfigurer) storeCodec" where
  "demo_codec = \<lparr>marshal = (\<lambda>ps vs. Some (ps, vs)), parse = (\<lambda>(ps, vs). Some (map Inl ps, map Inr vs)),
     decodeProxy = (\<lambda>r. case r of Inl c \<Rightarrow> Some c | Inr _ \<Rightarrow> None), decodeVisitor = (\<lambda>r. case r of Inl _ \<Rightarrow> None | Inr c \<Rightarrow> Some c)\<rparr>"

lemma demo_codec_ok: "codecOK demo_codec"
  by (simp add: codecOK_def demo_codec_def comp_def)

definition demo_proxy :: ProxyConfigurer where
  "demo_proxy = TCPCfg (zeroBase\<lparr>cName := ''web'', cType := ''tcp'', LocalPort := 80\<rparr>) 8080"

definition demo_store :: "(ProxyConfigurer list \<times> VisitorConfigurer list) storeSource" where
  "demo_store = \<lparr>base = newBaseSource, disk = \<lparr>target = None, tmpFile = NoTmp\<rparr>\<rparr>"

lemmas store_eval = demo_store_def demo_codec_def demo_proxy_def newBaseSource_def AddProxy_def addStoreEntry_def persistOrRollback_def
  saveToFile_def validateName_def proxyCfgName_def Let_def zeroBase_def

lemma demo_store_ok: "storeOK demo_codec demo_store"
  by (simp add: storeOK_def demo_store_def wfSource_def newBaseSource_def)

lemma demo_orders: "ordersFor (fault, [''web''], []) (AddProxyOp (Some demo_proxy)) (base demo_store)"
  by (simp add: ordersFor_def specAdd_def enumerates_def store_eval)

theorem store_refines_maps_witness:
  "(let (r, s') = storeDo demo_codec (NoFault, [''web''], []) (AddProxyOp (Some demo_proxy)) demo_store;
        (r2, s2) = storeDo demo_codec (SyncFault, [''web''], []) (AddProxyOp (Some demo_proxy)) demo_store in
     r = None \<and> storeOK demo_codec s' \<and> GetProxy ''web'' s' = Some demo_proxy \<and>
     r2 = Some PersistFailed \<and> storeOK demo_codec s2 \<and> GetProxy ''web'' s2 = None)"
proof -
  note A = store_refines_maps[OF demo_codec_ok demo_store_ok demo_orders surjective_pairing]
  have "fst (storeDo demo_codec (NoFault, [''web''], []) (AddProxyOp (Some demo_proxy)) demo_store) = None"
    "fst (storeDo demo_codec (SyncFault, [''web''], []) (AddProxyOp (Some demo_proxy)) demo_store) = Some PersistFailed"
    "GetProxy ''web'' (snd (storeDo demo_codec (NoFault, [''web''], []) (AddProxyOp (Some demo_proxy)) demo_store)) = Some demo_proxy"
    "GetProxy ''web'' (snd (storeDo demo_codec (SyncFault, [''web''], []) (AddProxyOp (Some demo_proxy)) demo_store)) = None"
    by (simp_all add: store_eval GetProxy_def)
  then show ?thesis using A[of NoFault] A[of SyncFault] by (auto simp: split_def Let_def)
qed

text \<open>The disk when the process ends after \<open>n\<close> of the file operations of a store operation.\<close>

definition crashDisk :: "('b, 'r) storeCodec \<Rightarrow> saveEnv \<Rightarrow> storeOp \<Rightarrow> nat \<Rightarrow> 'b storeSource \<Rightarrow> 'b disk" where
  "crashDisk k env op n s = (case specOp op (base s) of Inl e \<Rightarrow> disk s
     | Inr b' \<Rightarrow> fold doDisk (take n (snd (saveToFile k env (s\<lparr>base := b'\<rparr>)))) (disk s))"



text \<open>The aggregator's result does not depend on the orders in which Go ranges over maps: it is the enabled entries of the store over the
  enabled entries of the configuration file, each name once, sorted by name.  An entry that is disabled in the store does not hide the entry
  of the file.\<close>

theorem aggregator_merges:
  assumes "iterated po vo c" "case st of None \<Rightarrow> True | Some s \<Rightarrow> iterated po' vo' s"
    and "P = merged proxyEnabled (proxies c) (map_option proxies st)" "V = merged visitorEnabled (visitors c) (map_option visitors st)"
    and "enumerates (pord P) P" "enumerates (vord V) V"
  shows "aggregatorLoad pord vord (po, vo, c) (map_option (\<lambda>s. (po', vo', s)) st) = Inr (listByName P, listByName V) \<and>
    sorted (map proxyCfgName (listByName P)) \<and> distinct (map proxyCfgName (listByName P)) \<and>
    (\<forall>x. x \<in> set (listByName P) \<longleftrightarrow> P (proxyCfgName x) = Some x)"
proof -
  have wf: "wfMap proxyCfgName P" "wfMap visitorCfgName V"
    using assms(1-4) by (auto simp: iterated_def wfSource_def intro!: wfMap_merged split: option.splits)
  have merge: "mergeSources (getSourcesLocked (po, vo, c) (map_option (\<lambda>s. (po', vo', s)) st)) (Map.empty, Map.empty) = Inr (P, V)"
    using assms(1-4) by (auto simp: getSourcesLocked_def merged_def merge_source simp del: mergeSources.simps(2) split: option.splits)
  have names: "map proxyCfgName (listByName P) = sorted_list_of_set (dom P)"
    using wf(1) by (auto simp: listByName_def wfMap_def comp_def intro!: map_idI)
  have "x \<in> set (listByName P) \<longleftrightarrow> P (proxyCfgName x) = Some x" for x
    using wf(1) by (force simp: listByName_def wfMap_def dom_def)
  then show ?thesis
    using merge names wf assms(5,6) by (simp add: aggregatorLoad_def mapsToSortedSlices_def slice_list)
qed

definition demo_file :: baseSource where
  "demo_file = \<lparr>proxies = [''web'' \<mapsto> demo_proxy], visitors = Map.empty\<rparr>"

text \<open>In the store the proxy of the same name is disabled.\<close>

definition demo_disabled :: baseSource where
  "demo_disabled = \<lparr>proxies = [''web'' \<mapsto> mapBase (\<lambda>b. b\<lparr>Enabled := Some False\<rparr>) demo_proxy], visitors = Map.empty\<rparr>"

theorem aggregator_merges_witness:
  "aggregatorLoad (\<lambda>_. [''web'']) (\<lambda>_. []) ([''web''], [], demo_file) (Some ([''web''], [], demo_disabled)) = Inr ([demo_proxy], [])"
proof -
  have P: "merged proxyEnabled (proxies demo_file) (map_option proxies (Some demo_disabled)) = [''web'' \<mapsto> demo_proxy]"
    by (auto simp: merged_def enabledMap_def demo_file_def demo_disabled_def demo_proxy_def zeroBase_def proxyEnabled_def map_add_def fun_eq_iff)
  have V: "merged visitorEnabled (visitors demo_file) (map_option visitors (Some demo_disabled)) = Map.empty"
    by (auto simp: merged_def enabledMap_def demo_file_def demo_disabled_def map_add_def fun_eq_iff)
  have it: "iterated [''web''] [] demo_file" "iterated [''web''] [] demo_disabled"
    by (auto simp: iterated_def wfSource_def wfMap_def enumerates_def demo_file_def demo_disabled_def demo_proxy_def zeroBase_def proxyCfgName_def)
  show ?thesis
    using aggregator_merges[where st = "Some demo_disabled" and po' = "[''web'']" and vo' = "[]" and pord = "\<lambda>_. [''web'']" and vord = "\<lambda>_. []",
        OF it(1) _ P[symmetric] V[symmetric]] it(2)
    by (simp add: enumerates_def listByName_def)
qed

end
