(* ===== verification/Server_Metrics.thy ===== *)
theory Server_Metrics
  imports Config_Source
begin

text \<open>
  The statistics of the server: the counters of \<^verbatim>\<open>pkg/util/metric\<close> and the collector of \<^verbatim>\<open>pkg/metrics/mem/server.go\<close>.

  A date counter is called with the midnight that \<^verbatim>\<open>startOfDay\<close> gives for the current time, in nanoseconds.  Counts are words, as
  they wrap around in Go.  An operation of the collector updates a total and then, under the lock, the entry of a proxy; as the totals are
  objects of their own, an operation is one step.
\<close>

section \<open>Counters\<close>

definition hour :: int where "hour = 3600 * 1000000000"

record dateCounter =
  reserveDays :: nat
  dayCounts :: "64 word list"
  lastUpdateDate :: int

definition newDateCounter :: "int \<Rightarrow> int \<Rightarrow> dateCounter" where
  "newDateCounter days today = (let r = (if days \<le> 0 then 1 else nat days) in \<lparr>reserveDays = r, dayCounts = replicate r 0, lastUpdateDate = today\<rparr>)"

definition rotateDays :: "int \<Rightarrow> dateCounter \<Rightarrow> dateCounter" where
  "rotateDays today c =
     (let days = (today - lastUpdateDate c) div (24 * hour) in
      if days \<le> 0 then c
      else if days \<ge> int (reserveDays c) then c\<lparr>dayCounts := replicate (reserveDays c) 0, lastUpdateDate := today\<rparr>
      else c\<lparr>dayCounts := replicate (nat days) 0 @ take (reserveDays c - nat days) (dayCounts c), lastUpdateDate := today\<rparr>)"

definition addToday :: "64 word \<Rightarrow> dateCounter \<Rightarrow> dateCounter" where
  "addToday n c = c\<lparr>dayCounts := (dayCounts c)[0 := hd (dayCounts c) + n]\<rparr>"

definition dcInc :: "int \<Rightarrow> 64 word \<Rightarrow> dateCounter \<Rightarrow> dateCounter" where
  "dcInc today n c = addToday n (rotateDays today c)"

definition dcDec :: "int \<Rightarrow> 64 word \<Rightarrow> dateCounter \<Rightarrow> dateCounter" where
  "dcDec today n c = addToday (- n) (rotateDays today c)"

definition TodayCount :: "int \<Rightarrow> dateCounter \<Rightarrow> 64 word \<times> dateCounter" where
  "TodayCount today c = (let c = rotateDays today c in (hd (dayCounts c), c))"

definition GetLastDaysCount :: "int \<Rightarrow> nat \<Rightarrow> dateCounter \<Rightarrow> 64 word list \<times> dateCounter" where
  "GetLastDaysCount today lastdays c = (let c = rotateDays today c in (take (min lastdays (reserveDays c)) (dayCounts c), c))"

definition dcSnapshot :: "int \<Rightarrow> dateCounter \<Rightarrow> dateCounter" where
  "dcSnapshot today c = \<lparr>reserveDays = reserveDays c, dayCounts = dayCounts c, lastUpdateDate = today\<rparr>"

definition dcClear :: "dateCounter \<Rightarrow> dateCounter" where
  "dcClear c = c\<lparr>dayCounts := replicate (length (dayCounts c)) 0\<rparr>"

section \<open>What a date counter counts\<close>

text \<open>What was added on which day, and the sums of the last days, today first.\<close>

definition onDay :: "int \<Rightarrow> (int \<times> 64 word) list \<Rightarrow> 64 word" where
  "onDay d h = sum_list (map snd (filter (\<lambda>e. fst e = d) h))"

definition window :: "nat \<Rightarrow> int \<Rightarrow> (int \<times> 64 word) list \<Rightarrow> 64 word list" where
  "window r d h = map (\<lambda>i. onDay (d - int i) h) [0..<r]"

lemma onDay_simps [simp]: "onDay d [] = 0" "onDay d (h @ [(d', n)]) = onDay d h + (if d' = d then n else 0)"
  by (simp_all add: onDay_def)

lemma onDay_future: "\<forall>e\<in>set h. fst e \<le> D \<Longrightarrow> D < d \<Longrightarrow> onDay d h = 0"
  by (induction h rule: rev_induct) (auto simp: onDay_def)

lemma window_nth: "i < r \<Longrightarrow> window r d h ! i = onDay (d - int i) h"
  by (simp add: window_def)

lemma window_length [simp]: "length (window r d h) = r"
  by (simp add: window_def)

lemma window_shift:
  assumes "\<forall>e\<in>set h. fst e \<le> d" "k \<le> r"
  shows "window r (d + int k) h = replicate k 0 @ take (r - k) (window r d h)"
proof (rule nth_equalityI)
  show "length (window r (d + int k) h) = length (replicate k 0 @ take (r - k) (window r d h))" using assms(2) by simp
  fix i assume i: "i < length (window r (d + int k) h)"
  show "window r (d + int k) h ! i = (replicate k 0 @ take (r - k) (window r d h)) ! i"
  proof (cases "i < k")
    case True
    then show ?thesis using onDay_future[OF assms(1), of "d + int k - int i"] i by (simp add: window_nth nth_append)
  next
    case False
    then have eq: "d - int (i - k) = d + int k - int i" by simp
    have "window r d h ! (i - k) = onDay (d + int k - int i) h" using i by (subst window_nth) (simp_all only: eq, simp)
    then show ?thesis using False i by (simp add: window_nth[of i] nth_append)
  qed
qed

lemma window_far: "\<forall>e\<in>set h. fst e \<le> d \<Longrightarrow> d + int r \<le> d' \<Longrightarrow> window r d' h = replicate r 0"
  by (rule nth_equalityI) (auto simp: window_nth intro!: onDay_future)

text \<open>Days of 24 hours, counted from some midnight.\<close>

definition midnight :: "int \<Rightarrow> int \<Rightarrow> int" where
  "midnight start d = start + d * (24 * hour)"

definition counts :: "int \<Rightarrow> int \<Rightarrow> (int \<times> 64 word) list \<Rightarrow> dateCounter \<Rightarrow> bool" where
  "counts start d h c \<longleftrightarrow> reserveDays c > 0 \<and> lastUpdateDate c = midnight start d \<and> dayCounts c = window (reserveDays c) d h \<and> (\<forall>e\<in>set h. fst e \<le> d)"

lemma day_difference: "(midnight start d' - midnight start d) div (24 * hour) = d' - d"
proof -
  have "midnight start d' - midnight start d = (d' - d) * (24 * hour)" by (simp add: midnight_def left_diff_distrib)
  then show ?thesis by (simp add: hour_def)
qed

lemma rotate_counts:
  assumes "counts start d h c" "d \<le> d'"
  shows "counts start d' h (rotateDays (midnight start d') c) \<and> reserveDays (rotateDays (midnight start d') c) = reserveDays c"
proof -
  have days: "(midnight start d' - lastUpdateDate c) div (24 * hour) = d' - d" using assms(1) day_difference by (simp add: counts_def)
  consider "d' = d" | "d < d'" "d' - d < int (reserveDays c)" | "int (reserveDays c) \<le> d' - d" using assms(2) by linarith
  then show ?thesis
  proof cases
    case 1
    then show ?thesis using assms(1) days by (simp add: rotateDays_def Let_def)
  next
    case 2
    define k where "k = nat (d' - d)"
    have k: "d' = d + int k" "k \<le> reserveDays c" using 2 by (auto simp: k_def)
    have "counts start d' h (c\<lparr>dayCounts := replicate k 0 @ take (reserveDays c - k) (dayCounts c), lastUpdateDate := midnight start d'\<rparr>)"
      using assms(1) window_shift[of h d k "reserveDays c"] k by (auto simp: counts_def)
    then show ?thesis using 2 days k by (simp add: rotateDays_def Let_def)
  next
    case 3
    then show ?thesis using assms days window_far[of h d "reserveDays c" d'] by (auto simp: rotateDays_def Let_def counts_def)
  qed
qed

lemma add_counts:
  assumes "counts start d h c"
  shows "counts start d (h @ [(d, n)]) (addToday n c)"
proof -
  obtain r where r: "reserveDays c = Suc r" using assms by (auto simp: counts_def gr0_conv_Suc)
  have "window (Suc r) d (h @ [(d, n)]) = (window (Suc r) d h)[0 := hd (window (Suc r) d h) + n]"
    by (rule nth_equalityI) (auto simp: window_nth nth_list_update hd_conv_nth simp flip: length_0_conv)
  then show ?thesis using assms r by (auto simp: counts_def addToday_def)
qed

lemma add_reserve [simp]: "reserveDays (addToday n c) = reserveDays c"
  by (simp add: addToday_def)

datatype dayOp = IncOn "64 word" | DecOn "64 word"

fun dayDo :: "int \<Rightarrow> int \<times> dayOp \<Rightarrow> dateCounter \<Rightarrow> dateCounter" where
  "dayDo start (d, IncOn n) c = dcInc (midnight start d) n c"
| "dayDo start (d, DecOn n) c = dcDec (midnight start d) n c"

fun amount :: "int \<times> dayOp \<Rightarrow> int \<times> 64 word" where
  "amount (d, IncOn n) = (d, n)"
| "amount (d, DecOn n) = (d, - n)"

lemma day_counts:
  assumes "counts start d h c" "sorted (d # map fst es)"
  shows "counts start (last (d # map fst es)) (h @ map amount es) (fold (dayDo start) es c) \<and> reserveDays (fold (dayDo start) es c) = reserveDays c"
  using assms
proof (induction es arbitrary: d h c)
  case (Cons e es)
  obtain d' x where e: "e = (d', x)" by (cases e)
  have d': "d \<le> d'" using Cons.prems(2) e by simp
  have step: "counts start d' (h @ [amount e]) (dayDo start e c) \<and> reserveDays (dayDo start e c) = reserveDays c"
    using rotate_counts[OF Cons.prems(1) d'] add_counts by (cases x) (auto simp: e dcInc_def dcDec_def)
  then show ?case using Cons.IH[of d' "h @ [amount e]" "dayDo start e c"] Cons.prems(2) e by (auto simp: last_ConsR)
qed simp

text \<open>A date counter of r days always reports, for each of the last r days, exactly the sum of what was added on that day, however many days lie between
  the calls, as long as all days have 24 hours.\<close>

theorem date_counter_exact:
  assumes "days > 0" "sorted (d # map fst es @ [clock])"
  shows "fst (GetLastDaysCount (midnight start clock) n (fold (dayDo start) es (newDateCounter days (midnight start d)))) =
    take n (map (\<lambda>i. sum_list (map snd (filter (\<lambda>e. fst e = clock - int i) (map amount es)))) [0..<nat days])"
proof -
  have "counts start d [] (newDateCounter days (midnight start d))" "reserveDays (newDateCounter days (midnight start d)) = nat days"
    using assms(1) by (auto simp: counts_def newDateCounter_def Let_def intro!: nth_equalityI simp: window_nth)
  note start = this
  define c where "c = fold (dayDo start) es (newDateCounter days (midnight start d))"
  have "sorted (d # map fst es)" "last (d # map fst es) \<le> clock" using assms(2) by (auto simp: sorted_append last_map)
  then have "counts start clock (map amount es) (rotateDays (midnight start clock) c) \<and> reserveDays (rotateDays (midnight start clock) c) = nat days"
    using day_counts[OF start(1)] rotate_counts start(2) unfolding c_def by fastforce
  then show ?thesis unfolding c_def[symmetric]
    by (auto simp: GetLastDaysCount_def Let_def counts_def window_def onDay_def take_map min_def)
qed

theorem date_counter_exact_witness:
  "fst (GetLastDaysCount (midnight 0 3) 7 (fold (dayDo 0) [(0, IncOn 5), (1, IncOn 7), (1, DecOn 2)] (newDateCounter 7 (midnight 0 0)))) = [0, 0, 5, 5, 0, 0, 0]"
  using date_counter_exact[of 7 0 "[(0, IncOn 5), (1, IncOn 7), (1, DecOn 2)]" 3 0 7] by (simp add: upt_rec)

text \<open>The length of a day is taken to be 24 hours.  After a day of 23 hours, when clocks go forward, nothing is shifted, and what is added
  on the next day is added to the day before.\<close>

lemma short_day_not_counted: "rotateDays (lastUpdateDate c + 23 * hour) c = c"
  by (simp add: rotateDays_def hour_def)

lemma short_day_merged:
  "dayCounts (dcInc (23 * hour) 7 (dcInc 0 5 (newDateCounter 7 0))) = [12, 0, 0, 0, 0, 0, 0]"
  by (simp add: dcInc_def rotateDays_def addToday_def newDateCounter_def hour_def eval_nat_numeral)

text \<open>A snapshot dates the counts it copies to the day on which it is taken.\<close>

lemma snapshot_redates:
  "dayCounts (dcInc 0 5 (newDateCounter 2 0)) = [5, 0] \<and> fst (TodayCount (24 * hour) (dcSnapshot (24 * hour) (dcInc 0 5 (newDateCounter 2 0)))) = 5 \<and>
   fst (TodayCount (24 * hour) (dcInc 0 5 (newDateCounter 2 0))) = 0"
  by code_simp

section \<open>The collector\<close>

definition ReserveDays :: int where "ReserveDays = 7"

record proxyStatistic =
  psName :: string
  psType :: string
  psUser :: string
  psClientID :: string
  psIn :: dateCounter
  psOut :: dateCounter
  psConns :: "32 word"
  psLastStart :: int
  psLastClose :: int

record serverMetrics =
  totalIn :: dateCounter
  totalOut :: dateCounter
  totalConns :: "32 word"
  clientCounts :: "32 word"
  typeCounts :: "string \<Rightarrow> 32 word option"
  proxyStats :: "string \<Rightarrow> proxyStatistic option"

definition newServerMetrics :: "int \<Rightarrow> serverMetrics" where
  "newServerMetrics today = \<lparr>totalIn = newDateCounter ReserveDays today, totalOut = newDateCounter ReserveDays today, totalConns = 0,
     clientCounts = 0, typeCounts = Map.empty, proxyStats = Map.empty\<rparr>"

definition shouldClearProxyStats :: "int \<Rightarrow> int \<Rightarrow> proxyStatistic \<Rightarrow> bool" where
  "shouldClearProxyStats clock offline p \<longleftrightarrow> psLastClose p \<noteq> 0 \<and> psLastStart p < psLastClose p \<and> clock - psLastClose p > offline"

definition clearUselessInfo :: "int \<Rightarrow> int \<Rightarrow> string list \<Rightarrow> serverMetrics \<Rightarrow> (nat \<times> nat) \<times> serverMetrics" where
  "clearUselessInfo clock offline ks m =
     (let gone = filter (\<lambda>k. case proxyStats m k of None \<Rightarrow> False | Some p \<Rightarrow> shouldClearProxyStats clock offline p) ks in
      ((length gone, length ks), m\<lparr>proxyStats := (\<lambda>k. if k \<in> set gone then None else proxyStats m k)\<rparr>))"

definition newProxyStats :: "int \<Rightarrow> string \<Rightarrow> string \<Rightarrow> proxyStatistic" where
  "newProxyStats today name typ = \<lparr>psName = name, psType = typ, psUser = '''', psClientID = '''', psIn = newDateCounter ReserveDays today,
     psOut = newDateCounter ReserveDays today, psConns = 0, psLastStart = 0, psLastClose = 0\<rparr>"

definition smNewProxy :: "int \<Rightarrow> int \<Rightarrow> string \<Rightarrow> string \<Rightarrow> string \<Rightarrow> string \<Rightarrow> serverMetrics \<Rightarrow> serverMetrics" where
  "smNewProxy today clock name typ user clientID m =
     (let counter = (case typeCounts m typ of None \<Rightarrow> 0 | Some n \<Rightarrow> n);
          p = (case proxyStats m name of
                 None \<Rightarrow> newProxyStats today name typ
               | Some p \<Rightarrow> if psType p \<noteq> typ then newProxyStats today name typ else p)
      in m\<lparr>typeCounts := (typeCounts m)(typ \<mapsto> counter + 1),
           proxyStats := (proxyStats m)(name \<mapsto> p\<lparr>psUser := user, psClientID := clientID, psLastStart := clock\<rparr>)\<rparr>)"

definition onProxy :: "string \<Rightarrow> (proxyStatistic \<Rightarrow> proxyStatistic) \<Rightarrow> serverMetrics \<Rightarrow> serverMetrics" where
  "onProxy name f m = m\<lparr>proxyStats := (proxyStats m)(name := map_option f (proxyStats m name))\<rparr>"

definition smCloseProxy :: "int \<Rightarrow> string \<Rightarrow> string \<Rightarrow> serverMetrics \<Rightarrow> serverMetrics" where
  "smCloseProxy clock name typ m =
     onProxy name (\<lambda>p. p\<lparr>psLastClose := clock\<rparr>) (m\<lparr>typeCounts := (typeCounts m)(typ := map_option (\<lambda>n. n - 1) (typeCounts m typ))\<rparr>)"

definition OpenConnection :: "string \<Rightarrow> serverMetrics \<Rightarrow> serverMetrics" where
  "OpenConnection name m = onProxy name (\<lambda>p. p\<lparr>psConns := psConns p + 1\<rparr>) (m\<lparr>totalConns := totalConns m + 1\<rparr>)"

definition CloseConnection :: "string \<Rightarrow> serverMetrics \<Rightarrow> serverMetrics" where
  "CloseConnection name m = onProxy name (\<lambda>p. p\<lparr>psConns := psConns p - 1\<rparr>) (m\<lparr>totalConns := totalConns m - 1\<rparr>)"

definition AddTrafficIn :: "int \<Rightarrow> string \<Rightarrow> 64 word \<Rightarrow> serverMetrics \<Rightarrow> serverMetrics" where
  "AddTrafficIn today name n m = onProxy name (\<lambda>p. p\<lparr>psIn := dcInc today n (psIn p)\<rparr>) (m\<lparr>totalIn := dcInc today n (totalIn m)\<rparr>)"

definition AddTrafficOut :: "int \<Rightarrow> string \<Rightarrow> 64 word \<Rightarrow> serverMetrics \<Rightarrow> serverMetrics" where
  "AddTrafficOut today name n m = onProxy name (\<lambda>p. p\<lparr>psOut := dcInc today n (psOut p)\<rparr>) (m\<lparr>totalOut := dcInc today n (totalOut m)\<rparr>)"

definition smNewClient :: "serverMetrics \<Rightarrow> serverMetrics" where
  "smNewClient m = m\<lparr>clientCounts := clientCounts m + 1\<rparr>"

definition smCloseClient :: "serverMetrics \<Rightarrow> serverMetrics" where
  "smCloseClient m = m\<lparr>clientCounts := clientCounts m - 1\<rparr>"

text \<open>Reading: what a reading method returns.  Rotating the counters while reading does not change what they count.\<close>

definition GetServer :: "int \<Rightarrow> serverMetrics \<Rightarrow> 64 word \<times> 64 word \<times> 32 word \<times> 32 word \<times> (string \<Rightarrow> 32 word option)" where
  "GetServer today m = (fst (TodayCount today (totalIn m)), fst (TodayCount today (totalOut m)), totalConns m, clientCounts m, typeCounts m)"

record proxyStatsResp =
  rsName :: string
  rsType :: string
  rsUser :: string
  rsClientID :: string
  rsTodayIn :: "64 word"
  rsTodayOut :: "64 word"
  rsConns :: "32 word"
  rsStartAt :: int
  rsCloseAt :: int

definition toProxyStats :: "int \<Rightarrow> string \<Rightarrow> proxyStatistic \<Rightarrow> proxyStatsResp" where
  "toProxyStats today name p = \<lparr>rsName = name, rsType = psType p, rsUser = psUser p, rsClientID = psClientID p,
     rsTodayIn = fst (TodayCount today (psIn p)), rsTodayOut = fst (TodayCount today (psOut p)), rsConns = psConns p,
     rsStartAt = psLastStart p div 1000000000, rsCloseAt = psLastClose p div 1000000000\<rparr>"

definition GetProxiesByType :: "int \<Rightarrow> string list \<Rightarrow> string \<Rightarrow> serverMetrics \<Rightarrow> proxyStatsResp list" where
  "GetProxiesByType today ks typ m =
     concat (map (\<lambda>k. case proxyStats m k of None \<Rightarrow> [] | Some p \<Rightarrow> if psType p \<noteq> typ then [] else [toProxyStats today k p]) ks)"

definition GetProxyByName :: "int \<Rightarrow> string \<Rightarrow> serverMetrics \<Rightarrow> proxyStatsResp option" where
  "GetProxyByName today name m = map_option (toProxyStats today name) (proxyStats m name)"

definition GetProxiesByTypeAndName :: "int \<Rightarrow> string \<Rightarrow> string \<Rightarrow> serverMetrics \<Rightarrow> proxyStatsResp option" where
  "GetProxiesByTypeAndName today typ name m =
     (case proxyStats m name of None \<Rightarrow> None | Some p \<Rightarrow> if psType p = typ then Some (toProxyStats today name p) else None)"

definition GetProxyTraffic :: "int \<Rightarrow> string \<Rightarrow> serverMetrics \<Rightarrow> (64 word list \<times> 64 word list) option" where
  "GetProxyTraffic today name m =
     map_option (\<lambda>p. (fst (GetLastDaysCount today (nat ReserveDays) (psIn p)), fst (GetLastDaysCount today (nat ReserveDays) (psOut p)))) (proxyStats m name)"

section \<open>The collector keeps a ledger\<close>

text \<open>The ledger: everything that was added, with its day, and plain numbers of connections, clients and proxies.\<close>

record proxyLedger =
  lgType :: string
  lgIn :: "(int \<times> 64 word) list"
  lgOut :: "(int \<times> 64 word) list"
  lgConns :: int
  lgStart :: int
  lgClose :: int

record ledger =
  lgTotalIn :: "(int \<times> 64 word) list"
  lgTotalOut :: "(int \<times> 64 word) list"
  lgTotalConns :: int
  lgClients :: int
  lgTypes :: "string \<Rightarrow> int option"
  lgProxies :: "string \<Rightarrow> proxyLedger option"

datatype statOp =
    StNewClient | StCloseClient
  | StNewProxy int string string string string
  | StCloseProxy int string string
  | StOpen string | StClose string
  | StIn string "64 word" | StOut string "64 word"
  | StClear int int "string list"

fun statDo :: "int \<Rightarrow> statOp \<Rightarrow> serverMetrics \<Rightarrow> serverMetrics" where
  "statDo today StNewClient m = smNewClient m"
| "statDo today StCloseClient m = smCloseClient m"
| "statDo today (StNewProxy clock name typ user i) m = smNewProxy today clock name typ user i m"
| "statDo today (StCloseProxy clock name typ) m = smCloseProxy clock name typ m"
| "statDo today (StOpen name) m = OpenConnection name m"
| "statDo today (StClose name) m = CloseConnection name m"
| "statDo today (StIn name n) m = AddTrafficIn today name n m"
| "statDo today (StOut name n) m = AddTrafficOut today name n m"
| "statDo today (StClear clock offline ks) m = snd (clearUselessInfo clock offline ks m)"

definition onLedger :: "string \<Rightarrow> (proxyLedger \<Rightarrow> proxyLedger) \<Rightarrow> ledger \<Rightarrow> ledger" where
  "onLedger name f l = l\<lparr>lgProxies := (lgProxies l)(name := map_option f (lgProxies l name))\<rparr>"

definition freshLedger :: "string \<Rightarrow> proxyLedger" where
  "freshLedger typ = \<lparr>lgType = typ, lgIn = [], lgOut = [], lgConns = 0, lgStart = 0, lgClose = 0\<rparr>"

fun ledgerDo :: "int \<Rightarrow> statOp \<Rightarrow> ledger \<Rightarrow> ledger" where
  "ledgerDo d StNewClient l = l\<lparr>lgClients := lgClients l + 1\<rparr>"
| "ledgerDo d StCloseClient l = l\<lparr>lgClients := lgClients l - 1\<rparr>"
| "ledgerDo d (StNewProxy clock name typ user i) l =
     l\<lparr>lgTypes := (lgTypes l)(typ \<mapsto> (case lgTypes l typ of None \<Rightarrow> 1 | Some n \<Rightarrow> n + 1)),
       lgProxies := (lgProxies l)(name \<mapsto> (case lgProxies l name of
          None \<Rightarrow> freshLedger typ | Some p \<Rightarrow> if lgType p = typ then p else freshLedger typ)\<lparr>lgStart := clock\<rparr>)\<rparr>"
| "ledgerDo d (StCloseProxy clock name typ) l =
     onLedger name (\<lambda>p. p\<lparr>lgClose := clock\<rparr>) (l\<lparr>lgTypes := (lgTypes l)(typ := map_option (\<lambda>n. n - 1) (lgTypes l typ))\<rparr>)"
| "ledgerDo d (StOpen name) l = onLedger name (\<lambda>p. p\<lparr>lgConns := lgConns p + 1\<rparr>) (l\<lparr>lgTotalConns := lgTotalConns l + 1\<rparr>)"
| "ledgerDo d (StClose name) l = onLedger name (\<lambda>p. p\<lparr>lgConns := lgConns p - 1\<rparr>) (l\<lparr>lgTotalConns := lgTotalConns l - 1\<rparr>)"
| "ledgerDo d (StIn name n) l = onLedger name (\<lambda>p. p\<lparr>lgIn := lgIn p @ [(d, n)]\<rparr>) (l\<lparr>lgTotalIn := lgTotalIn l @ [(d, n)]\<rparr>)"
| "ledgerDo d (StOut name n) l = onLedger name (\<lambda>p. p\<lparr>lgOut := lgOut p @ [(d, n)]\<rparr>) (l\<lparr>lgTotalOut := lgTotalOut l @ [(d, n)]\<rparr>)"
| "ledgerDo d (StClear clock offline ks) l = l\<lparr>lgProxies := (\<lambda>k. case lgProxies l k of None \<Rightarrow> None
     | Some p \<Rightarrow> if k \<in> set ks \<and> lgClose p \<noteq> 0 \<and> lgStart p < lgClose p \<and> clock - lgClose p > offline then None else Some p)\<rparr>"

definition emptyLedger :: ledger where
  "emptyLedger = \<lparr>lgTotalIn = [], lgTotalOut = [], lgTotalConns = 0, lgClients = 0, lgTypes = Map.empty, lgProxies = Map.empty\<rparr>"

definition tracks :: "int \<Rightarrow> int \<Rightarrow> (int \<times> 64 word) list \<Rightarrow> dateCounter \<Rightarrow> bool" where
  "tracks start d h c \<longleftrightarrow> (\<exists>d'\<le>d. counts start d' h c) \<and> reserveDays c = 7"

lemma tracks_new [simp]: "tracks start d [] (newDateCounter ReserveDays (midnight start d))"
  by (auto simp: tracks_def counts_def newDateCounter_def Let_def ReserveDays_def intro!: exI[of _ d] nth_equalityI simp: window_nth)

lemma tracks_later: "tracks start d h c \<Longrightarrow> d \<le> e \<Longrightarrow> tracks start e h c"
  by (auto simp: tracks_def intro: order_trans)

lemma tracks_inc: "tracks start d h c \<Longrightarrow> tracks start d (h @ [(d, n)]) (dcInc (midnight start d) n c)"
  using rotate_counts add_counts by (fastforce simp: tracks_def dcInc_def)

lemma tracks_read:
  assumes "tracks start d h c"
  shows "fst (GetLastDaysCount (midnight start d) (nat ReserveDays) c) = window 7 d h" "fst (TodayCount (midnight start d) c) = onDay d h"
proof -
  obtain d' where "d' \<le> d" "counts start d' h c" "reserveDays c = 7" using assms by (auto simp: tracks_def)
  then have "counts start d h (rotateDays (midnight start d) c)" "reserveDays (rotateDays (midnight start d) c) = 7"
    using rotate_counts by auto
  then show "fst (GetLastDaysCount (midnight start d) (nat ReserveDays) c) = window 7 d h" "fst (TodayCount (midnight start d) c) = onDay d h"
    by (auto simp: counts_def GetLastDaysCount_def TodayCount_def ReserveDays_def Let_def window_def upt_rec)
qed

definition keepsProxy :: "int \<Rightarrow> int \<Rightarrow> proxyStatistic \<Rightarrow> proxyLedger \<Rightarrow> bool" where
  "keepsProxy start d p l \<longleftrightarrow> psType p = lgType l \<and> tracks start d (lgIn l) (psIn p) \<and> tracks start d (lgOut l) (psOut p) \<and>
     psConns p = of_int (lgConns l) \<and> psLastStart p = lgStart l \<and> psLastClose p = lgClose l"

definition keeps :: "int \<Rightarrow> int \<Rightarrow> serverMetrics \<Rightarrow> ledger \<Rightarrow> bool" where
  "keeps start d m l \<longleftrightarrow> tracks start d (lgTotalIn l) (totalIn m) \<and> tracks start d (lgTotalOut l) (totalOut m) \<and>
     totalConns m = of_int (lgTotalConns l) \<and> clientCounts m = of_int (lgClients l) \<and>
     (\<forall>t. typeCounts m t = map_option of_int (lgTypes l t)) \<and> (\<forall>k. rel_option (keepsProxy start d) (proxyStats m k) (lgProxies l k))"

lemma keepsProxy_later: "keepsProxy start d p l \<Longrightarrow> d \<le> e \<Longrightarrow> keepsProxy start e p l"
  using tracks_later by (auto simp: keepsProxy_def)

lemma rel_later: "rel_option (keepsProxy start d) x y \<Longrightarrow> d \<le> e \<Longrightarrow> rel_option (keepsProxy start e) x y"
  by (cases x; cases y) (auto intro: keepsProxy_later)

lemma rel_on:
  "rel_option R x y \<Longrightarrow> (\<And>p q. R p q \<Longrightarrow> R (f p) (g q)) \<Longrightarrow> rel_option R (map_option f x) (map_option g y)"
  by (cases x; cases y) auto

lemma keeps_later: "keeps start d m l \<Longrightarrow> d \<le> e \<Longrightarrow> keeps start e m l"
  using rel_later unfolding keeps_def by (blast intro: tracks_later)

lemma keeps_on:
  assumes "keeps start d m l" "\<And>p q. keepsProxy start d p q \<Longrightarrow> keepsProxy start d (f p) (g q)"
  shows "keeps start d (onProxy name f m) (onLedger name g l)"
  using assms rel_on[of "keepsProxy start d" "proxyStats m name" "lgProxies l name" f g] by (simp add: keeps_def onProxy_def onLedger_def)

lemma keeps_new:
  assumes "keeps start d m l"
  shows "keeps start d (smNewProxy (midnight start d) clock name typ user i m) (ledgerDo d (StNewProxy clock name typ user i) l)"
proof -
  have fresh: "keepsProxy start d (newProxyStats (midnight start d) name typ) (freshLedger typ)"
    by (simp add: keepsProxy_def newProxyStats_def freshLedger_def)
  have "rel_option (keepsProxy start d) (proxyStats m name) (lgProxies l name)" using assms by (simp add: keeps_def)
  then have "keepsProxy start d
      ((case proxyStats m name of None \<Rightarrow> newProxyStats (midnight start d) name typ | Some p \<Rightarrow> if psType p \<noteq> typ then newProxyStats (midnight start d) name typ else p)
         \<lparr>psUser := user, psClientID := i, psLastStart := clock\<rparr>)
      ((case lgProxies l name of None \<Rightarrow> freshLedger typ | Some p \<Rightarrow> if lgType p = typ then p else freshLedger typ)\<lparr>lgStart := clock\<rparr>)"
    using fresh by (cases "proxyStats m name"; cases "lgProxies l name") (auto simp: keepsProxy_def)
  then show ?thesis using assms by (auto simp: keeps_def smNewProxy_def Let_def split: option.splits)
qed

lemma keeps_clear:
  assumes "keeps start d m l"
  shows "keeps start d (snd (clearUselessInfo clock offline ks m)) (ledgerDo d (StClear clock offline ks) l)"
proof -
  have "rel_option (keepsProxy start d) (if k \<in> set (filter (\<lambda>k. case proxyStats m k of None \<Rightarrow> False | Some p \<Rightarrow> shouldClearProxyStats clock offline p) ks) then None else proxyStats m k)
     (case lgProxies l k of None \<Rightarrow> None | Some p \<Rightarrow> if k \<in> set ks \<and> lgClose p \<noteq> 0 \<and> lgStart p < lgClose p \<and> clock - lgClose p > offline then None else Some p)" for k
  proof -
    have "rel_option (keepsProxy start d) (proxyStats m k) (lgProxies l k)" using assms by (simp add: keeps_def)
    then show ?thesis by (cases "proxyStats m k"; cases "lgProxies l k") (auto simp: keepsProxy_def shouldClearProxyStats_def)
  qed
  then show ?thesis using assms by (simp add: keeps_def clearUselessInfo_def Let_def)
qed

lemma keeps_step:
  assumes "keeps start d m l"
  shows "keeps start d (statDo (midnight start d) e m) (ledgerDo d e l)"
proof (cases e)
  case (StNewProxy clock name ty user i)
  then show ?thesis using keeps_new[OF assms] by simp
next
  case (StClear clock offline ks)
  then show ?thesis using keeps_clear[OF assms] by simp
next
  case (StCloseProxy clock name ty)
  have "keeps start d (m\<lparr>typeCounts := (typeCounts m)(ty := map_option (\<lambda>n. n - 1) (typeCounts m ty))\<rparr>)
      (l\<lparr>lgTypes := (lgTypes l)(ty := map_option (\<lambda>n. n - 1) (lgTypes l ty))\<rparr>)"
    using assms by (auto simp: keeps_def option.map_comp comp_def)
  then show ?thesis unfolding StCloseProxy statDo.simps ledgerDo.simps smCloseProxy_def by (rule keeps_on) (auto simp: keepsProxy_def)
next
  case (StOpen name)
  have "keeps start d (m\<lparr>totalConns := totalConns m + 1\<rparr>) (l\<lparr>lgTotalConns := lgTotalConns l + 1\<rparr>)" using assms by (simp add: keeps_def)
  then show ?thesis unfolding StOpen statDo.simps ledgerDo.simps OpenConnection_def by (rule keeps_on) (auto simp: keepsProxy_def)
next
  case (StClose name)
  have "keeps start d (m\<lparr>totalConns := totalConns m - 1\<rparr>) (l\<lparr>lgTotalConns := lgTotalConns l - 1\<rparr>)" using assms by (simp add: keeps_def)
  then show ?thesis unfolding StClose statDo.simps ledgerDo.simps CloseConnection_def by (rule keeps_on) (auto simp: keepsProxy_def)
next
  case (StIn name n)
  have "keeps start d (m\<lparr>totalIn := dcInc (midnight start d) n (totalIn m)\<rparr>) (l\<lparr>lgTotalIn := lgTotalIn l @ [(d, n)]\<rparr>)"
    using assms by (simp add: keeps_def tracks_inc)
  then show ?thesis unfolding StIn statDo.simps ledgerDo.simps AddTrafficIn_def by (rule keeps_on) (auto simp: keepsProxy_def tracks_inc)
next
  case (StOut name n)
  have "keeps start d (m\<lparr>totalOut := dcInc (midnight start d) n (totalOut m)\<rparr>) (l\<lparr>lgTotalOut := lgTotalOut l @ [(d, n)]\<rparr>)"
    using assms by (simp add: keeps_def tracks_inc)
  then show ?thesis unfolding StOut statDo.simps ledgerDo.simps AddTrafficOut_def by (rule keeps_on) (auto simp: keepsProxy_def tracks_inc)
qed (use assms in \<open>simp_all add: keeps_def smNewClient_def smCloseClient_def\<close>)

lemma keeps_run:
  assumes "keeps start d m l" "sorted (d # map fst es)" "last (d # map fst es) \<le> clock"
  shows "keeps start clock (fold (\<lambda>(d, e). statDo (midnight start d) e) es m) (fold (\<lambda>(d, e). ledgerDo d e) es l)"
  using assms
proof (induction es arbitrary: d m l)
  case (Cons x es)
  obtain d' e where x: "x = (d', e)" by (cases x)
  have "keeps start d' m l" using Cons.prems x by (auto intro: keeps_later)
  from Cons.IH[OF keeps_step[OF this]] show ?case using Cons.prems x by auto
qed (auto intro: keeps_later)

text \<open>C24. The collector of the server keeps a ledger: whatever the order of logins, proxies, connections, traffic and clean-ups on days of 24 hours, what is read at a later
  time are the sums of the ledger: the traffic of today in all, the traffic of a proxy on each of the last seven days since its entry was made, and the numbers of connections, clients and
  proxies per type, modulo the width of the counters.\<close>

theorem metrics_keep_ledger:
  fixes start :: int
  assumes "sorted (d # map fst es @ [clock])"
  defines "m \<equiv> fold (\<lambda>(d, e). statDo (midnight start d) e) es (newServerMetrics (midnight start d))"
    and "l \<equiv> fold (\<lambda>(d, e). ledgerDo d e) es emptyLedger"
  shows "GetServer (midnight start clock) m =
      (onDay clock (lgTotalIn l), onDay clock (lgTotalOut l), of_int (lgTotalConns l), of_int (lgClients l), \<lambda>t. map_option of_int (lgTypes l t)) \<and>
    (\<forall>k. GetProxyTraffic (midnight start clock) k m = map_option (\<lambda>p. (window 7 clock (lgIn p), window 7 clock (lgOut p))) (lgProxies l k)) \<and>
    (\<forall>k. map_option psConns (proxyStats m k) = map_option (\<lambda>p. of_int (lgConns p)) (lgProxies l k))"
proof -
  have init: "keeps start d (newServerMetrics (midnight start d)) emptyLedger" by (simp add: keeps_def newServerMetrics_def emptyLedger_def)
  have "sorted (d # map fst es)" "last (d # map fst es) \<le> clock" using assms(1) by (auto simp: sorted_append last_map)
  from keeps_run[OF init this] have k: "keeps start clock m l" by (simp add: m_def l_def)
  have "GetProxyTraffic (midnight start clock) k m = map_option (\<lambda>p. (window 7 clock (lgIn p), window 7 clock (lgOut p))) (lgProxies l k) \<and>
      map_option psConns (proxyStats m k) = map_option (\<lambda>p. of_int (lgConns p)) (lgProxies l k)" for k
  proof -
    have "rel_option (keepsProxy start clock) (proxyStats m k) (lgProxies l k)" using k by (simp add: keeps_def)
    then show ?thesis
      by (cases "proxyStats m k"; cases "lgProxies l k") (auto simp: GetProxyTraffic_def keepsProxy_def tracks_read)
  qed
  then show ?thesis using k by (auto simp: GetServer_def keeps_def tracks_read)
qed

theorem metrics_keep_ledger_witness:
  "(let m = fold (\<lambda>(d, e). statDo (midnight 0 d) e) [(0, StNewProxy 5 ''web'' ''tcp'' ''me'' ''c''), (0, StIn ''web'' 10), (2, StIn ''web'' 3), (2, StOpen ''web'')] (newServerMetrics (midnight 0 0)) in
     GetProxyTraffic (midnight 0 2) ''web'' m = Some ([3, 0, 10, 0, 0, 0, 0], [0, 0, 0, 0, 0, 0, 0]) \<and> fst (GetServer (midnight 0 2) m) = 3)"
proof -
  define es where "es = [(0 :: int, StNewProxy 5 ''web'' ''tcp'' ''me'' ''c''), (0, StIn ''web'' 10), (2, StIn ''web'' 3), (2, StOpen ''web'')]"
  define m where "m = fold (\<lambda>(d, e). statDo (midnight 0 d) e) es (newServerMetrics (midnight 0 0))"
  have s: "sorted (0 # map fst es @ [2])" by (simp add: es_def)
  have l: "lgTotalIn (fold (\<lambda>(d, e). ledgerDo d e) es emptyLedger) = [(0, 10), (2, 3)]"
    "map_option lgIn (lgProxies (fold (\<lambda>(d, e). ledgerDo d e) es emptyLedger) ''web'') = Some [(0, 10), (2, 3)]"
    "map_option lgOut (lgProxies (fold (\<lambda>(d, e). ledgerDo d e) es emptyLedger) ''web'') = Some []"
    by (simp_all add: es_def emptyLedger_def onLedger_def freshLedger_def)
  have "GetProxyTraffic (midnight 0 2) ''web'' m = Some (window 7 2 [(0, 10), (2, 3)], window 7 2 [])" "fst (GetServer (midnight 0 2) m) = onDay 2 [(0, 10), (2, 3)]"
    using metrics_keep_ledger[OF s, of 0, folded m_def] l by auto
  then show ?thesis unfolding es_def[symmetric] m_def[symmetric] by (simp add: Let_def window_def upt_rec onDay_def)
qed

section \<open>Entries and the proxies they stand for\<close>

text \<open>A clean-up removes exactly the entries of proxies that were closed after their last start, longer ago than the limit.\<close>

lemma clear_exact:
  assumes "enumerates ks (proxyStats m)"
  shows "proxyStats (snd (clearUselessInfo clock offline ks m)) k =
    (case proxyStats m k of None \<Rightarrow> None | Some p \<Rightarrow> if shouldClearProxyStats clock offline p then None else Some p)"
  using assms by (auto simp: clearUselessInfo_def Let_def enumerates_def split: option.splits)

lemma started_kept:
  assumes "enumerates ks (proxyStats m)" "proxyStats m k = Some p" "psLastClose p \<le> psLastStart p"
  shows "proxyStats (snd (clearUselessInfo clock offline ks m)) k = Some p"
  using clear_exact[OF assms(1), of clock offline k] assms(2,3) by (simp add: shouldClearProxyStats_def)

text \<open>A proxy listens as soon as \<^verbatim>\<open>RegisterProxy\<close> has run it, and its entry is made only afterwards: a connection that is opened in between is counted in the total only, and
  closing it makes the number of connections of the proxy negative.\<close>

lemma connection_before_entry:
  "map_option psConns (proxyStats (fold (statDo 0) [StOpen ''web'', StNewProxy 5 ''web'' ''tcp'' ''me'' ''c'', StClose ''web''] (newServerMetrics 0)) ''web'') = Some (- 1)"
  by (simp add: newServerMetrics_def OpenConnection_def CloseConnection_def onProxy_def smNewProxy_def newProxyStats_def)

text \<open>\<^verbatim>\<open>closeProxy\<close> frees the name before it reports the closing: when another control registers the name in between, the entry of its running
  proxy is closed, and the next clean-up removes it.\<close>

lemma running_proxy_cleared:
  "proxyStats (fold (statDo 0) [StNewProxy 1 ''web'' ''tcp'' ''a'' ''c1'', StNewProxy 5 ''web'' ''tcp'' ''b'' ''c2'', StCloseProxy 6 ''web'' ''tcp'', StClear 7 0 [''web'']] (newServerMetrics 0)) ''web'' = None"
  by (simp add: newServerMetrics_def smNewProxy_def smCloseProxy_def onProxy_def newProxyStats_def clearUselessInfo_def shouldClearProxyStats_def Let_def)

end
