(* ===== verification/Client_Registry.thy ===== *)
theory Client_Registry
  imports Prelude
begin

text \<open>
  The client registry of \<^verbatim>\<open>server/registry/registry.go\<close>.  Each method runs under the registry's
  lock.  The registry never shares its \<^verbatim>\<open>*ClientInfo\<close> values, so the map holds them directly;
  times are integers with 0 for \<^verbatim>\<open>time.Time{}\<close>.
\<close>

section \<open>Data\<close>

record client_info =
  Key :: string
  User :: string
  RawClientID :: string
  RunID :: string
  ControlID :: "64 word"
  Hostname :: string
  ClientIP :: string
  Version :: string
  WireProtocol :: string
  FirstConnectedAt :: int
  LastConnectedAt :: int
  DisconnectedAt :: int
  Online :: bool

record registry =
  clients :: "string \<rightharpoonup> client_info"
  runIndex :: "string \<rightharpoonup> string"

text \<open>The login data that \<^verbatim>\<open>RegisterWithControlID\<close> is called with.\<close>

record registration =
  rUser :: string
  rRawClientID :: string
  rRunID :: string
  rHostname :: string
  rVersion :: string
  rRemoteAddr :: string
  rWireProtocol :: string
  rControlID :: "64 word"

section \<open>Operations\<close>

definition NewClientRegistry :: registry where
  "NewClientRegistry = \<lparr>clients = Map.empty, runIndex = Map.empty\<rparr>"

definition composeClientKey :: "string \<Rightarrow> string \<Rightarrow> string" where
  "composeClientKey user i = (if user = '''' then i else if i = '''' then user else user @ ''.'' @ i)"

definition setClientOffline :: "client_info \<Rightarrow> int \<Rightarrow> client_info" where
  "setClientOffline info now = info\<lparr>RunID := '''', ControlID := 0, Online := False, DisconnectedAt := now\<rparr>"

definition registration_key :: "registration \<Rightarrow> string" where
  "registration_key r =
     composeClientKey (rUser r) (if rRawClientID r = '''' then rRunID r else rRawClientID r)"

text \<open>A run id that moves to another key takes its old entry offline or away.\<close>

definition dropPrevious :: "int \<Rightarrow> string \<Rightarrow> string \<Rightarrow> registry \<Rightarrow> registry" where
  "dropPrevious now runID key cr =
     (case runIndex cr runID of
        None \<Rightarrow> cr
      | Some previousKey \<Rightarrow>
          if previousKey = key then cr
          else
            let cr1 =
              (case clients cr previousKey of
                 None \<Rightarrow> cr
               | Some previous \<Rightarrow>
                   if RunID previous \<noteq> runID then cr
                   else if RawClientID previous = ''''
                     then cr\<lparr>clients := (clients cr)(previousKey := None)\<rparr>
                   else cr\<lparr>clients := (clients cr)(previousKey \<mapsto> setClientOffline previous now)\<rparr>)
            in cr1\<lparr>runIndex := (runIndex cr1)(runID := None)\<rparr>)"

definition emptyClientInfo :: client_info where
  "emptyClientInfo =
     \<lparr>Key = '''', User = '''', RawClientID = '''', RunID = '''', ControlID = 0, Hostname = '''',
      ClientIP = '''', Version = '''', WireProtocol = '''', FirstConnectedAt = 0, LastConnectedAt = 0,
      DisconnectedAt = 0, Online = False\<rparr>"

definition RegisterWithControlID :: "int \<Rightarrow> registration \<Rightarrow> registry \<Rightarrow> (string \<times> bool) \<times> registry" where
  "RegisterWithControlID now r cr =
     (if rRunID r = '''' then (('''', False), cr)
      else
        let key = registration_key r;
            enforceUnique = (rRawClientID r \<noteq> '''');
            found = clients cr key
        in if enforceUnique \<and>
              (case found of
                 None \<Rightarrow> False
               | Some info \<Rightarrow> Online info \<and> RunID info \<noteq> '''' \<and> RunID info \<noteq> rRunID r)
           then ((key, True), cr)
           else
             let cr1 = dropPrevious now (rRunID r) key cr;
                 ri = (case found of
                         None \<Rightarrow> runIndex cr1
                       | Some info \<Rightarrow>
                           if RunID info \<noteq> '''' then (runIndex cr1)(RunID info := None) else runIndex cr1);
                 base = (case found of
                           None \<Rightarrow> emptyClientInfo\<lparr>Key := key, User := rUser r, FirstConnectedAt := now\<rparr>
                         | Some info \<Rightarrow> info);
                 info = base\<lparr>RawClientID := rRawClientID r, RunID := rRunID r, ControlID := rControlID r,
                   Hostname := rHostname r, ClientIP := rRemoteAddr r, Version := rVersion r,
                   WireProtocol := rWireProtocol r,
                   FirstConnectedAt := (if FirstConnectedAt base = 0 then now else FirstConnectedAt base),
                   LastConnectedAt := now, DisconnectedAt := 0, Online := True\<rparr>
             in ((key, False), \<lparr>clients = (clients cr1)(key \<mapsto> info), runIndex = ri(rRunID r \<mapsto> key)\<rparr>))"

definition markOfflineByRunID :: "int \<Rightarrow> string \<Rightarrow> 64 word \<Rightarrow> bool \<Rightarrow> registry \<Rightarrow> registry" where
  "markOfflineByRunID now runID controlID matchControlID cr =
     (case runIndex cr runID of
        None \<Rightarrow> cr
      | Some key \<Rightarrow>
          let cr1 =
            (case clients cr key of
               None \<Rightarrow> cr
             | Some info \<Rightarrow>
                 if RunID info = runID \<and> (\<not> matchControlID \<or> ControlID info = controlID) then
                   (if RawClientID info = '''' then cr\<lparr>clients := (clients cr)(key := None)\<rparr>
                    else cr\<lparr>clients := (clients cr)(key \<mapsto> setClientOffline info now)\<rparr>)
                 else cr)
          in if (case clients cr1 key of None \<Rightarrow> True | Some info \<Rightarrow> RunID info \<noteq> runID)
             then cr1\<lparr>runIndex := (runIndex cr1)(runID := None)\<rparr> else cr1)"

definition MarkOfflineByRunID :: "int \<Rightarrow> string \<Rightarrow> registry \<Rightarrow> registry" where
  "MarkOfflineByRunID now runID cr = markOfflineByRunID now runID 0 False cr"

definition MarkOfflineByRunIDAndControlID :: "int \<Rightarrow> string \<Rightarrow> 64 word \<Rightarrow> registry \<Rightarrow> registry" where
  "MarkOfflineByRunIDAndControlID now runID controlID cr = markOfflineByRunID now runID controlID True cr"

definition GetByKey :: "string \<Rightarrow> registry \<Rightarrow> client_info option" where
  "GetByKey key cr = clients cr key"

definition ClientID :: "client_info \<Rightarrow> string" where
  "ClientID info = (if RawClientID info \<noteq> '''' then RawClientID info else RunID info)"

section \<open>Executions\<close>

datatype registry_op =
    OpRegister int registration
  | OpOffline int string
  | OpOfflineControl int string "64 word"

fun apply_op :: "registry_op \<Rightarrow> registry \<Rightarrow> registry" where
  "apply_op (OpRegister now r) cr = snd (RegisterWithControlID now r cr)"
| "apply_op (OpOffline now runID) cr = MarkOfflineByRunID now runID cr"
| "apply_op (OpOfflineControl now runID c) cr = MarkOfflineByRunIDAndControlID now runID c cr"

definition run_ops :: "registry_op list \<Rightarrow> registry" where
  "run_ops os = fold apply_op os NewClientRegistry"

section \<open>Invariant\<close>

definition linked :: "registry \<Rightarrow> bool" where
  "linked cr \<longleftrightarrow>
     (\<forall>r k. runIndex cr r = Some k \<longleftrightarrow>
        r \<noteq> '''' \<and> (\<exists>info. clients cr k = Some info \<and> RunID info = r)) \<and>
     (\<forall>k info. clients cr k = Some info \<longrightarrow>
        Key info = k \<and> (Online info \<longleftrightarrow> RunID info \<noteq> '''') \<and> (\<not> Online info \<longrightarrow> RawClientID info \<noteq> ''''))"

lemma linkedD:
  assumes "linked cr"
  shows "runIndex cr r = Some k \<longleftrightarrow> r \<noteq> '''' \<and> (\<exists>info. clients cr k = Some info \<and> RunID info = r)"
    "clients cr k = Some info \<Longrightarrow>
       Key info = k \<and> (Online info \<longleftrightarrow> RunID info \<noteq> '''') \<and> (\<not> Online info \<longrightarrow> RawClientID info \<noteq> '''')"
  using assms unfolding linked_def by blast+

lemma linked_unique:
  assumes "linked cr" "clients cr k = Some i" "clients cr k' = Some j" "RunID i = RunID j" "RunID i \<noteq> ''''"
  shows "k = k'"
  using linkedD(1) [OF assms(1), of "RunID i" k] linkedD(1) [OF assms(1), of "RunID i" k'] assms(2-)
  by auto

lemma linked_New: "linked NewClientRegistry"
  by (simp add: linked_def NewClientRegistry_def)

text \<open>Removing an entry, or taking it offline, together with its run id.\<close>

definition retire :: "int \<Rightarrow> string \<Rightarrow> client_info \<Rightarrow> registry \<Rightarrow> registry" where
  "retire now key info cr =
     \<lparr>clients = (clients cr)(key := (if RawClientID info = '''' then None else Some (setClientOffline info now))),
      runIndex = (runIndex cr)(RunID info := None)\<rparr>"

lemma linked_retire:
  assumes "linked cr" "clients cr key = Some info" "RunID info \<noteq> ''''"
  shows "linked (retire now key info cr)"
proof -
  have "k \<noteq> key \<Longrightarrow> clients cr k = Some i \<Longrightarrow> RunID i \<noteq> RunID info" for k i
    using linked_unique [OF assms(1)] assms(2,3) by metis
  then show ?thesis
    unfolding linked_def
    using linkedD [OF assms(1)] assms(2,3)
    by (auto simp: retire_def setClientOffline_def split: if_splits)
qed

lemma runIndex_info:
  assumes "linked cr" "runIndex cr runID = Some k"
  shows "\<exists>info. clients cr k = Some info \<and> RunID info = runID \<and> runID \<noteq> ''''"
  using assms linkedD(1) [OF assms(1), of runID k] by auto

lemma dropPrevious_eq:
  assumes "linked cr"
  shows "dropPrevious now runID key cr =
     (case runIndex cr runID of
        None \<Rightarrow> cr
      | Some k \<Rightarrow> if k = key then cr else retire now k (the (clients cr k)) cr)"
proof (cases "runIndex cr runID")
  case None
  then show ?thesis by (simp add: dropPrevious_def)
next
  case (Some k)
  from runIndex_info [OF assms Some] obtain info where "clients cr k = Some info" "RunID info = runID" by blast
  with Some show ?thesis by (simp add: dropPrevious_def retire_def Let_def)
qed

lemma markOffline_eq:
  assumes "linked cr"
  shows "markOfflineByRunID now runID c m cr =
     (case runIndex cr runID of
        None \<Rightarrow> cr
      | Some k \<Rightarrow> if m \<and> ControlID (the (clients cr k)) \<noteq> c then cr else retire now k (the (clients cr k)) cr)"
proof (cases "runIndex cr runID")
  case None
  then show ?thesis by (simp add: markOfflineByRunID_def)
next
  case (Some k)
  from runIndex_info [OF assms Some] obtain info where
    "clients cr k = Some info" "RunID info = runID" "runID \<noteq> ''''" by blast
  with Some show ?thesis by (simp add: markOfflineByRunID_def retire_def setClientOffline_def Let_def)
qed

lemma linked_dropPrevious:
  assumes "linked cr" shows "linked (dropPrevious now runID key cr)"
proof (cases "runIndex cr runID")
  case (Some k)
  with runIndex_info [OF assms Some] linked_retire [OF assms] show ?thesis
    by (auto simp: dropPrevious_eq [OF assms] assms)
qed (simp add: dropPrevious_def assms)

lemma linked_markOffline:
  assumes "linked cr" shows "linked (markOfflineByRunID now runID c m cr)"
proof (cases "runIndex cr runID")
  case (Some k)
  with runIndex_info [OF assms Some] linked_retire [OF assms] assms show ?thesis
    by (auto simp: markOffline_eq [OF assms])
qed (simp add: markOfflineByRunID_def assms)

text \<open>Putting a client online under a key: what registration does once the old entry is dropped.\<close>

lemma linked_online:
  assumes "linked cr" "runID \<noteq> ''''" "runIndex cr runID = None \<or> runIndex cr runID = Some key"
    and "RunID info = runID" "Online info" "Key info = key"
  shows "linked \<lparr>clients = (clients cr)(key \<mapsto> info),
     runIndex = (case clients cr key of
                   None \<Rightarrow> runIndex cr
                 | Some old \<Rightarrow> if RunID old \<noteq> '''' then (runIndex cr)(RunID old := None) else runIndex cr)
                (runID \<mapsto> key)\<rparr>" (is "linked \<lparr>clients = _, runIndex = ?ri(runID \<mapsto> key)\<rparr>")
proof -
  have other: "RunID i \<noteq> runID" if "clients cr k = Some i" "k \<noteq> key" for k i
    using that assms(2,3) linkedD(1) [OF assms(1), of runID k] by auto
  have ri: "?ri r = Some k \<longleftrightarrow> k \<noteq> key \<and> runIndex cr r = Some k" if "r \<noteq> runID" for r k
  proof (cases "clients cr key")
    case None
    then show ?thesis using linkedD(1) [OF assms(1), of r k] by auto
  next
    case (Some old)
    have own: "runIndex cr q = Some key \<longleftrightarrow> q \<noteq> '''' \<and> RunID old = q" for q
      using linkedD(1) [OF assms(1), of q key] Some by simp
    show ?thesis
    proof (cases "k = key")
      case True
      then show ?thesis using own [of r] Some by (cases "RunID old = r") auto
    next
      case False
      then show ?thesis using own [of r] Some by (cases "RunID old = r") auto
    qed
  qed
  show ?thesis
    unfolding linked_def
  proof (intro conjI allI impI)
    fix r k
    show "runIndex \<lparr>clients = (clients cr)(key \<mapsto> info), runIndex = ?ri(runID \<mapsto> key)\<rparr> r = Some k \<longleftrightarrow>
        r \<noteq> '''' \<and> (\<exists>i. clients \<lparr>clients = (clients cr)(key \<mapsto> info), runIndex = ?ri(runID \<mapsto> key)\<rparr> k = Some i \<and> RunID i = r)"
    proof (cases "r = runID")
      case True
      then show ?thesis using assms(2,4) other by auto
    next
      case False
      then show ?thesis using ri [OF False, of k] linkedD(1) [OF assms(1), of r k] assms(4) by simp
    qed
  next
    fix k i
    assume "clients \<lparr>clients = (clients cr)(key \<mapsto> info), runIndex = ?ri(runID \<mapsto> key)\<rparr> k = Some i"
    then show "Key i = k" "Online i = (RunID i \<noteq> '''')" "\<not> Online i \<Longrightarrow> RawClientID i \<noteq> ''''"
      using linkedD(2) [OF assms(1), of k] assms(2,4,5,6) by (auto split: if_splits)
  qed
qed

lemma dropPrevious_key:
  assumes "linked cr"
  shows "clients (dropPrevious now runID key cr) key = clients cr key"
    "runIndex (dropPrevious now runID key cr) runID = None \<or>
     runIndex (dropPrevious now runID key cr) runID = Some key"
proof -
  show "clients (dropPrevious now runID key cr) key = clients cr key"
    by (simp add: dropPrevious_eq [OF assms] retire_def split: option.splits)
  show "runIndex (dropPrevious now runID key cr) runID = None \<or>
     runIndex (dropPrevious now runID key cr) runID = Some key"
  proof (cases "runIndex cr runID")
    case (Some k)
    from runIndex_info [OF assms Some] Some show ?thesis
      by (auto simp: dropPrevious_eq [OF assms] retire_def)
  qed (simp add: dropPrevious_def)
qed

text \<open>The entry a registration writes.\<close>

definition registered_info :: "int \<Rightarrow> registration \<Rightarrow> client_info option \<Rightarrow> client_info" where
  "registered_info now r found =
     (let base = (case found of
                    None \<Rightarrow> emptyClientInfo\<lparr>Key := registration_key r, User := rUser r, FirstConnectedAt := now\<rparr>
                  | Some info \<Rightarrow> info)
      in base\<lparr>RawClientID := rRawClientID r, RunID := rRunID r, ControlID := rControlID r,
                   Hostname := rHostname r, ClientIP := rRemoteAddr r, Version := rVersion r,
                   WireProtocol := rWireProtocol r,
                   FirstConnectedAt := (if FirstConnectedAt base = 0 then now else FirstConnectedAt base),
                   LastConnectedAt := now, DisconnectedAt := 0, Online := True\<rparr>)"

lemma registered_info_simps [simp]:
  "RunID (registered_info now r f) = rRunID r" "Online (registered_info now r f)"
  "ControlID (registered_info now r f) = rControlID r" "RawClientID (registered_info now r f) = rRawClientID r"
  by (simp_all add: registered_info_def Let_def)

text \<open>Another run of the same client is online.\<close>

definition taken :: "registration \<Rightarrow> registry \<Rightarrow> bool" where
  "taken r cr \<longleftrightarrow> (\<exists>info. clients cr (registration_key r) = Some info \<and> Online info \<and> RunID info \<noteq> rRunID r)"

lemma Register_cases:
  assumes "linked cr"
  shows "RegisterWithControlID now r cr =
     (if rRunID r = '''' then (('''', False), cr)
      else if rRawClientID r \<noteq> '''' \<and> taken r cr then ((registration_key r, True), cr)
      else let cr1 = dropPrevious now (rRunID r) (registration_key r) cr; key = registration_key r in
        ((key, False),
         \<lparr>clients = (clients cr1)(key \<mapsto> registered_info now r (clients cr1 key)),
          runIndex = (case clients cr1 key of
                   None \<Rightarrow> runIndex cr1
                 | Some old \<Rightarrow> if RunID old \<noteq> '''' then (runIndex cr1)(RunID old := None) else runIndex cr1)
                (rRunID r \<mapsto> key)\<rparr>))"
proof -
  have t: "(case clients cr (registration_key r) of None \<Rightarrow> False
      | Some info \<Rightarrow> Online info \<and> RunID info \<noteq> '''' \<and> RunID info \<noteq> rRunID r) \<longleftrightarrow> taken r cr"
    using linkedD(2) [OF assms] by (auto simp: taken_def split: option.splits)
  show ?thesis
    unfolding RegisterWithControlID_def Let_def t
    by (simp add: dropPrevious_key(1) [OF assms] registered_info_def Let_def)
qed

lemma linked_Register:
  assumes "linked cr" shows "linked (snd (RegisterWithControlID now r cr))"
proof -
  let ?key = "registration_key r" and ?cr1 = "dropPrevious now (rRunID r) (registration_key r) cr"
  have "Key (registered_info now r (clients ?cr1 ?key)) = ?key"
    using linkedD(2) [OF assms, of ?key]
    by (auto simp: registered_info_def Let_def dropPrevious_key(1) [OF assms] split: option.splits)
  then show ?thesis
    using assms linked_online [OF linked_dropPrevious [OF assms] _ dropPrevious_key(2) [OF assms]]
    by (simp add: Register_cases [OF assms] Let_def)
qed

lemma linked_run_ops: "linked (run_ops os)"
proof -
  have "linked cr \<Longrightarrow> linked (fold apply_op os cr)" for cr
  proof (induction os arbitrary: cr)
    case (Cons opn os)
    then have "linked (apply_op opn cr)"
      by (cases opn) (simp_all add: linked_Register linked_markOffline MarkOfflineByRunID_def
          MarkOfflineByRunIDAndControlID_def)
    with Cons show ?case by simp
  qed simp
  with linked_New show ?thesis by (simp add: run_ops_def)
qed

text \<open>C30. The registry's two maps stay in step: after any sequence of logins and disconnects, a run
  id is indexed exactly when one entry is online under it, no two online entries share a run id,
  every entry stands under its own key, and an offline entry is one with an explicit client id.\<close>

theorem registry_consistent:
  "(runIndex (run_ops os) r = Some k \<longleftrightarrow>
      r \<noteq> '''' \<and> (\<exists>info. GetByKey k (run_ops os) = Some info \<and> Online info \<and> RunID info = r)) \<and>
   (GetByKey k (run_ops os) = Some i \<longrightarrow> Key i = k \<and> (Online i \<or> RawClientID i \<noteq> '''')) \<and>
   (GetByKey k (run_ops os) = Some i \<longrightarrow> GetByKey k' (run_ops os) = Some j \<longrightarrow>
      Online i \<longrightarrow> RunID i = RunID j \<longrightarrow> k = k')"
proof -
  note l = linked_run_ops [of os]
  show ?thesis
    using linkedD(1) [OF l, of r k] linkedD(2) [OF l, of k] linked_unique [OF l, of k i k' j]
    unfolding GetByKey_def by auto
qed

definition demo_reg :: "string \<Rightarrow> string \<Rightarrow> string \<Rightarrow> 64 word \<Rightarrow> registration" where
  "demo_reg user raw rid c = \<lparr>rUser = user, rRawClientID = raw, rRunID = rid, rHostname = '''', rVersion = '''',
     rRemoteAddr = '''', rWireProtocol = '''', rControlID = c\<rparr>"

lemmas registry_eval = run_ops_def demo_reg_def RegisterWithControlID_def NewClientRegistry_def registration_key_def
  composeClientKey_def dropPrevious_def emptyClientInfo_def GetByKey_def setClientOffline_def Let_def

theorem registry_consistent_witness:
  "runIndex (run_ops [OpRegister 1 (demo_reg ''u'' ''c'' ''r1'' 1)]) ''r1'' = Some ''u.c''"
proof (rule iffD2 [OF registry_consistent [THEN conjunct1]])
  show "''r1'' \<noteq> [] \<and> (\<exists>info. GetByKey ''u.c'' (run_ops [OpRegister 1 (demo_reg ''u'' ''c'' ''r1'' 1)]) = Some info \<and>
      Online info \<and> RunID info = ''r1'')"
    by (simp add: registry_eval)
qed

text \<open>Registration either reports a conflict and changes nothing, which happens exactly when
  the client id is explicit and another run of that client is online, or puts the caller's run
  online under its key with the caller's control generation; the only other entry it touches is
  the one the same run id had under another key, which goes offline or away.\<close>

theorem register_effect:
  assumes "rRunID r \<noteq> ''''"
    and "RegisterWithControlID now r (run_ops os) = ((key, conflict), cr')"
  shows "(conflict \<longleftrightarrow> rRawClientID r \<noteq> '''' \<and>
            (\<exists>info. GetByKey key (run_ops os) = Some info \<and> Online info \<and> RunID info \<noteq> rRunID r)) \<and>
         (conflict \<longrightarrow> cr' = run_ops os) \<and>
         (\<not> conflict \<longrightarrow>
            (\<exists>info. GetByKey key cr' = Some info \<and> Online info \<and> RunID info = rRunID r \<and>
                    ControlID info = rControlID r) \<and>
            (\<forall>k. k \<noteq> key \<longrightarrow> GetByKey k cr' =
               (if runIndex (run_ops os) (rRunID r) = Some k
                then (case GetByKey k (run_ops os) of
                        None \<Rightarrow> None
                      | Some old \<Rightarrow> if RawClientID old = '''' then None else Some (setClientOffline old now))
                else GetByKey k (run_ops os))))"
proof -
  let ?cr = "run_ops os"
  note l = linked_run_ops [of os]
  have key: "key = registration_key r" using assms by (auto simp: RegisterWithControlID_def Let_def split: if_splits)
  have con: "conflict \<longleftrightarrow> rRawClientID r \<noteq> '''' \<and> taken r ?cr"
    using assms by (auto simp: Register_cases [OF l] Let_def split: if_splits)
  have other: "clients (dropPrevious now (rRunID r) key ?cr) k =
      (if runIndex ?cr (rRunID r) = Some k
                then (case clients ?cr k of
                        None \<Rightarrow> None
                      | Some old \<Rightarrow> if RawClientID old = '''' then None else Some (setClientOffline old now))
                else clients ?cr k)" if "k \<noteq> key" for k
    using that runIndex_info [OF l, of "rRunID r" k]
    by (cases "clients ?cr k") (auto simp: dropPrevious_eq [OF l] retire_def split: option.splits)
  show ?thesis
    using assms con other unfolding GetByKey_def key taken_def
    by (auto simp: Register_cases [OF l] Let_def taken_def split: if_splits)
qed

theorem register_effect_witness:
  "fst (RegisterWithControlID 2 (demo_reg ''u'' ''c'' ''r2'' 2) (run_ops [OpRegister 1 (demo_reg ''u'' ''c'' ''r1'' 1)])) =
     (''u.c'', True)"
proof -
  obtain k c cr' where e: "RegisterWithControlID 2 (demo_reg ''u'' ''c'' ''r2'' 2)
      (run_ops [OpRegister 1 (demo_reg ''u'' ''c'' ''r1'' 1)]) = ((k, c), cr')" by (metis prod.collapse)
  moreover have "k = ''u.c''" using e by (simp add: registry_eval)
  ultimately show ?thesis
    using register_effect [OF _ e] by (simp add: registry_eval)
qed

text \<open>A disconnect of an old control generation cannot take a newer one offline: once a run id
  is registered under a control generation, marking that run id offline on behalf of another
  generation leaves the registry as it is.\<close>

theorem stale_control_cannot_mark_offline:
  assumes "runIndex (run_ops os) runID = Some k" "GetByKey k (run_ops os) = Some info" "ControlID info \<noteq> c"
  shows "MarkOfflineByRunIDAndControlID now runID c (run_ops os) = run_ops os"
  using assms linked_run_ops [of os]
  by (simp add: MarkOfflineByRunIDAndControlID_def markOffline_eq GetByKey_def)

theorem stale_control_cannot_mark_offline_witness:
  "MarkOfflineByRunIDAndControlID 3 ''r1'' 1
     (run_ops [OpRegister 1 (demo_reg ''u'' ''c'' ''r1'' 1), OpRegister 2 (demo_reg ''u'' ''c'' ''r1'' 2)]) =
   run_ops [OpRegister 1 (demo_reg ''u'' ''c'' ''r1'' 1), OpRegister 2 (demo_reg ''u'' ''c'' ''r1'' 2)]"
proof -
  let ?os = "[OpRegister 1 (demo_reg ''u'' ''c'' ''r1'' 1), OpRegister 2 (demo_reg ''u'' ''c'' ''r1'' 2)]"
  have "runIndex (run_ops ?os) ''r1'' = Some ''u.c''" by (simp add: registry_eval)
  moreover obtain info where "GetByKey ''u.c'' (run_ops ?os) = Some info" "ControlID info \<noteq> 1"
    by (simp add: registry_eval)
  ultimately show ?thesis by (rule stale_control_cannot_mark_offline)
qed

text \<open>A run id can take over another client's entry: a client that logs in without a client id
  and with a run id equal to the client id of another online client of the same user is not
  reported as a conflict, and the other client's run id is no longer known to the registry.\<close>

lemma run_id_takes_over_entry:
  "\<exists>os r key cr'. GetByKey key (run_ops os) \<noteq> None \<and> runIndex (run_ops os) ''r1'' = Some key \<and>
     rRunID r \<noteq> ''r1'' \<and> RegisterWithControlID 2 r (run_ops os) = ((key, False), cr') \<and>
     runIndex cr' ''r1'' = None"
  by (rule exI [of _ "[OpRegister 1 (demo_reg ''u'' ''c'' ''r1'' 1)]"],
      rule exI [of _ "demo_reg ''u'' '''' ''c'' 2"], rule exI [of _ "''u.c''"]) (simp add: registry_eval)

text \<open>Client keys are ambiguous across users: two clients of different users with different
  client ids can have the same key, and the second is then refused as a conflict.\<close>

lemma client_keys_ambiguous:
  "\<exists>r r'. rUser r \<noteq> rUser r' \<and> rRawClientID r \<noteq> rRawClientID r' \<and>
     fst (RegisterWithControlID 2 r' (run_ops [OpRegister 1 r])) = (registration_key r, True)"
  by (rule exI [of _ "demo_reg ''a'' ''b.c'' ''r1'' 1"], rule exI [of _ "demo_reg ''a.b'' ''c'' ''r2'' 2"])
     (simp add: registry_eval)

end
