(* ===== verification/Server_Api.thy ===== *)
theory Server_Api
  imports Server_Metrics Client_Registry "HOL-Library.Product_Lexorder"
begin

text \<open>
  The lists of the version 2 dashboard API, \<^verbatim>\<open>server/http/controller_v2.go\<close>: parsing of the query, selection, sorting and paging, over the
  statistics of \<^verbatim>\<open>Server_Metrics\<close>, the client registry and the running proxies.  The parameters of a request are given as the strings of the query; an absent parameter is the
  empty string, except for \<^verbatim>\<open>user\<close>, where the code tells the two apart.  The order in which the map of statistics is ranged over is an argument.
  The answers are the values that are then written as JSON.
\<close>

section \<open>Parameters\<close>

datatype api_error = BadRequest string | NoSuchProxy | NoSuchClient | RegistryUnavailable

definition defaultV2Page :: int where "defaultV2Page = 1"
definition defaultV2PageSize :: int where "defaultV2PageSize = 50"
definition maxV2PageSize :: int where "maxV2PageSize = 200"
definition MaxInt :: int where "MaxInt = 2 ^ 63 - 1"

definition apiV2ProxyTypes :: "string list" where
  "apiV2ProxyTypes = [''tcp'', ''udp'', ''http'', ''https'', ''tcpmux'', ''stcp'', ''xtcp'', ''sudp'']"

definition parseV2PositiveInt :: "string \<Rightarrow> int \<Rightarrow> string \<Rightarrow> api_error + int" where
  "parseV2PositiveInt raw dflt name =
     (if raw = '''' then Inr dflt
      else (case ParseInt64 raw of None \<Rightarrow> Inl (BadRequest name) | Some v \<Rightarrow> if v < 1 then Inl (BadRequest name) else Inr v))"

definition parseV2PageParams :: "string \<Rightarrow> string \<Rightarrow> api_error + (int \<times> int)" where
  "parseV2PageParams pageRaw sizeRaw =
     bindR (parseV2PositiveInt pageRaw defaultV2Page ''page'') (\<lambda>page.
     bindR (parseV2PositiveInt sizeRaw defaultV2PageSize ''pageSize'') (\<lambda>pageSize.
       if pageSize > maxV2PageSize then Inl (BadRequest ''pageSize'')
       else if page > MaxInt div pageSize then Inl (BadRequest ''page'')
       else Inr (page, pageSize)))"

definition parseV2StatusFilter :: "string \<Rightarrow> api_error + string" where
  "parseV2StatusFilter raw = (let status = ToLower raw in
     if status \<in> {'''', ''all'', ''online'', ''offline''} then Inr status else Inl (BadRequest ''status''))"

definition parseV2ProxyTypeFilter :: "string \<Rightarrow> api_error + string" where
  "parseV2ProxyTypeFilter raw = (let t = ToLower raw in
     if t = '''' then Inr '''' else if t \<in> set apiV2ProxyTypes then Inr t else Inl (BadRequest ''type''))"

definition parseV2SystemPruneType :: "string \<Rightarrow> api_error + string" where
  "parseV2SystemPruneType raw = (let t = ToLower raw in
     if t = '''' then Inl (BadRequest ''type'') else if t = ''offline_proxies'' then Inr t else Inl (BadRequest ''type''))"

definition matchV2StatusFilter :: "bool \<Rightarrow> string \<Rightarrow> bool" where
  "matchV2StatusFilter online filt =
     (if filt = '''' \<or> filt = ''all'' then True else if filt = ''online'' then online else if filt = ''offline'' then \<not> online else True)"

section \<open>Pages\<close>

text \<open>Arithmetic of the type \<^verbatim>\<open>int\<close> of Go on a 64-bit platform; a slice expression out of range panics, which is None.\<close>

definition wrapInt :: "int \<Rightarrow> int" where
  "wrapInt i = sint (word_of_int i :: 64 word)"

definition paginateV2Items :: "'a list \<Rightarrow> int \<Rightarrow> int \<Rightarrow> 'a list option" where
  "paginateV2Items items page pageSize =
     (let start = wrapInt ((page - 1) * pageSize) in
      if start \<ge> int (length items) then Some []
      else (let stop = min (wrapInt (start + pageSize)) (int (length items)) in
        if 0 \<le> start \<and> start \<le> stop then Some (take (nat stop - nat start) (drop (nat start) items)) else None))"

record 'a V2PageResp =
  v2Total :: nat
  v2Page :: int
  v2PageSize :: int
  v2Items :: "'a list option"

definition buildV2PageResp :: "'a list \<Rightarrow> int \<Rightarrow> int \<Rightarrow> 'a V2PageResp" where
  "buildV2PageResp items page pageSize = \<lparr>v2Total = length items, v2Page = page, v2PageSize = pageSize, v2Items = paginateV2Items items page pageSize\<rparr>"

lemma wrap_small: "0 \<le> i \<Longrightarrow> i \<le> MaxInt \<Longrightarrow> wrapInt i = i"
  by (simp add: wrapInt_def MaxInt_def sint_sbintrunc' signed_take_bit_int_eq_self)

lemma page_params:
  assumes "parseV2PageParams p s = Inr (page, pageSize)"
  shows "1 \<le> page" "1 \<le> pageSize" "pageSize \<le> 200" "page * pageSize \<le> MaxInt"
proof -
  have v: "parseV2PositiveInt raw dflt name = Inr x \<Longrightarrow> 1 \<le> dflt \<Longrightarrow> 1 \<le> x" for raw dflt name x
    by (auto simp: parseV2PositiveInt_def split: if_splits option.splits)
  have a: "1 \<le> page" "1 \<le> pageSize" "pageSize \<le> 200" "page \<le> MaxInt div pageSize"
    using assms v by (auto simp: parseV2PageParams_def bindR_eq_Inr maxV2PageSize_def defaultV2Page_def defaultV2PageSize_def split: if_splits)
  then have "page * pageSize \<le> (MaxInt div pageSize) * pageSize" by (intro mult_right_mono) auto
  also have "\<dots> \<le> MaxInt" using a(2) pos_mod_sign[of pageSize MaxInt] by (simp add: div_mult_mod_eq flip: minus_mod_eq_div_mult)
  finally show "1 \<le> page" "1 \<le> pageSize" "pageSize \<le> 200" "page * pageSize \<le> MaxInt" using a by auto
qed

lemma page_slice:
  assumes "1 \<le> page" "1 \<le> pageSize" "page * pageSize \<le> MaxInt"
  shows "paginateV2Items items page pageSize = Some (take (nat pageSize) (drop (nat ((page - 1) * pageSize)) items))"
proof -
  have s: "0 \<le> (page - 1) * pageSize" "(page - 1) * pageSize + pageSize = page * pageSize" using assms by (auto simp: left_diff_distrib)
  have w: "wrapInt ((page - 1) * pageSize) = (page - 1) * pageSize" using s assms by (intro wrap_small) linarith+
  have e: "wrapInt ((page - 1) * pageSize + pageSize) = page * pageSize" using s assms by (subst wrap_small) linarith+
  define a where "a = nat ((page - 1) * pageSize)"
  have a: "(page - 1) * pageSize = int a" "page * pageSize = int (a + nat pageSize)" using s assms by (auto simp: a_def)
  have wa: "wrapInt (int a) = int a" "wrapInt (int a + pageSize) = int (a + nat pageSize)" using w e a by simp_all
  show ?thesis
  proof (cases "length items \<le> a")
    case True
    then show ?thesis by (simp add: paginateV2Items_def Let_def a(1) wa)
  next
    case False
    define b where "b = min (a + nat pageSize) (length items)"
    have b: "min (int (a + nat pageSize)) (int (length items)) = int b" "a \<le> b" "b - a = min (nat pageSize) (length items - a)"
      using False by (auto simp: b_def)
    have "paginateV2Items items page pageSize = Some (take (b - a) (drop a items))"
      using False b by (simp only: paginateV2Items_def Let_def a(1) wa) simp
    also have "take (b - a) (drop a items) = take (nat pageSize) (drop a items)" by (simp add: b(3) min_def)
    finally show ?thesis by (simp add: a(1))
  qed
qed

text \<open>C35. Paging is exact and cannot panic: for every pair of parameters that is accepted the page is the slice of the items it stands for, although the code multiplies and adds in 64 bits, and
  going through the pages from 1 on until one is empty gives every item once, in order.\<close>

theorem v2_pages_exact:
  assumes "parseV2PageParams p s = Inr (page, pageSize)"
  shows "paginateV2Items items page pageSize = Some (take (nat pageSize) (drop (nat ((page - 1) * pageSize)) items)) \<and>
    concat (map (\<lambda>i. take (nat pageSize) (drop (i * nat pageSize) items)) [0..<length items]) = items"
proof -
  have "concat (map (\<lambda>i. take k (drop (i * k) items)) [0..<n]) = take (n * k) items" for k n
  proof (induction n)
    case (Suc n)
    then show ?case using take_add[of "n * k" k items] by (simp add: add.commute[of k])
  qed simp
  moreover have "length items \<le> length items * nat pageSize" using page_params(2)[OF assms] by (cases "nat pageSize") auto
  ultimately show ?thesis using page_slice page_params[OF assms] by simp
qed

theorem v2_pages_exact_witness:
  "parseV2PageParams ''2'' ''3'' = Inr (2, 3) \<and> paginateV2Items [10, 11, 12, 13 :: nat] 2 3 = Some [13]"
proof -
  have "parseV2PageParams ''2'' ''3'' = Inr (2, 3)" by code_simp
  from v2_pages_exact[OF this, of "[10, 11, 12, 13]"] this show ?thesis by simp
qed

section \<open>Answers about proxies\<close>

record V2ProxyBaseSpec =
  v2Annotations :: "(string \<times> string) list"
  v2Metadatas :: "(string \<times> string) list"
  v2UseEncryption :: bool
  v2UseCompression :: bool
  v2BandwidthLimit :: string
  v2BandwidthLimitMode :: string
  v2Group :: string

text \<open>A block has no base and no port if the running proxy is of another type or there is none.\<close>

datatype V2ProxySpec =
    V2TCP "V2ProxyBaseSpec option" "int option"
  | V2UDP "V2ProxyBaseSpec option" "int option"
  | V2HTTP "V2ProxyBaseSpec option" "string list" string "string list" string
  | V2HTTPS "V2ProxyBaseSpec option" "string list" string
  | V2TCPMux "V2ProxyBaseSpec option" "string list" string string string
  | V2STCP "V2ProxyBaseSpec option"
  | V2SUDP "V2ProxyBaseSpec option"
  | V2XTCP "V2ProxyBaseSpec option"
  | V2NoSpec

definition buildV2ProxyBaseSpec :: "ProxyBaseConfig \<Rightarrow> V2ProxyBaseSpec" where
  "buildV2ProxyBaseSpec b = \<lparr>v2Annotations = Annotations b, v2Metadatas = Metadatas b, v2UseEncryption = UseEncryption (Transport b),
     v2UseCompression = UseCompression (Transport b), v2BandwidthLimit = bqS (BandwidthLimit (Transport b)),
     v2BandwidthLimitMode = BandwidthLimitMode (Transport b), v2Group = Group (LoadBalancer b)\<rparr>"

definition buildV2ProxySpec :: "string \<Rightarrow> ProxyConfigurer option \<Rightarrow> V2ProxySpec" where
  "buildV2ProxySpec t cfg =
     (if t = ''tcp'' then (case cfg of Some (TCPCfg b port) \<Rightarrow> V2TCP (Some (buildV2ProxyBaseSpec b)) (Some port) | _ \<Rightarrow> V2TCP None None)
      else if t = ''udp'' then (case cfg of Some (UDPCfg b port) \<Rightarrow> V2UDP (Some (buildV2ProxyBaseSpec b)) (Some port) | _ \<Rightarrow> V2UDP None None)
      else if t = ''http'' then (case cfg of Some (HTTPCfg b d h) \<Rightarrow>
        V2HTTP (Some (buildV2ProxyBaseSpec b)) (CustomDomains d) (SubDomain d) (Locations h) (HostHeaderRewrite h) | _ \<Rightarrow> V2HTTP None [] '''' [] '''')
      else if t = ''https'' then (case cfg of Some (HTTPSCfg b d) \<Rightarrow> V2HTTPS (Some (buildV2ProxyBaseSpec b)) (CustomDomains d) (SubDomain d) | _ \<Rightarrow> V2HTTPS None [] '''')
      else if t = ''tcpmux'' then (case cfg of Some (TCPMuxCfg b d x) \<Rightarrow>
        V2TCPMux (Some (buildV2ProxyBaseSpec b)) (CustomDomains d) (SubDomain d) (Multiplexer x) (xRouteByHTTPUser x) | _ \<Rightarrow> V2TCPMux None [] '''' '''' '''')
      else if t = ''stcp'' then (case cfg of Some (STCPCfg b key us) \<Rightarrow> V2STCP (Some (buildV2ProxyBaseSpec b)) | _ \<Rightarrow> V2STCP None)
      else if t = ''sudp'' then (case cfg of Some (SUDPCfg b key us) \<Rightarrow> V2SUDP (Some (buildV2ProxyBaseSpec b)) | _ \<Rightarrow> V2SUDP None)
      else if t = ''xtcp'' then (case cfg of Some (XTCPCfg b key us x) \<Rightarrow> V2XTCP (Some (buildV2ProxyBaseSpec b)) | _ \<Rightarrow> V2XTCP None)
      else V2NoSpec)"

record V2ProxyResp =
  pxStats :: proxyStatsResp
  pxSpec :: V2ProxySpec
  pxOnline :: bool

definition buildV2ProxyResp :: "(string \<Rightarrow> ProxyConfigurer option) \<Rightarrow> proxyStatsResp \<Rightarrow> V2ProxyResp" where
  "buildV2ProxyResp running ps = \<lparr>pxStats = ps, pxSpec = buildV2ProxySpec (rsType ps) (running (rsName ps)), pxOnline = (running (rsName ps) \<noteq> None)\<rparr>"

definition Contains :: "string \<Rightarrow> string \<Rightarrow> bool" where
  "Contains s sub \<longleftrightarrow> list_ex (\<lambda>i. HasPrefix (drop i s) sub) [0..<Suc (length s)]"

definition containsV2Query :: "string \<Rightarrow> string list \<Rightarrow> bool" where
  "containsV2Query q values \<longleftrightarrow> list_ex (\<lambda>v. Contains (ToLower v) q) values"

fun specValues :: "V2ProxySpec \<Rightarrow> string list" where
  "specValues (V2TCP b port) = (case port of None \<Rightarrow> [] | Some p \<Rightarrow> [Itoa p])"
| "specValues (V2UDP b port) = (case port of None \<Rightarrow> [] | Some p \<Rightarrow> [Itoa p])"
| "specValues (V2HTTP b ds sub ls host) = ds @ [sub]"
| "specValues (V2HTTPS b ds sub) = ds @ [sub]"
| "specValues (V2TCPMux b ds sub mx user) = ds @ [sub]"
| "specValues _ = []"

definition matchV2ProxyQuery :: "V2ProxyResp \<Rightarrow> string \<Rightarrow> bool" where
  "matchV2ProxyQuery r q = containsV2Query q ([rsName (pxStats r), rsType (pxStats r), rsUser (pxStats r), rsClientID (pxStats r),
     if pxOnline r then ''online'' else ''offline''] @ specValues (pxSpec r))"

definition listV2ProxyStats :: "int \<Rightarrow> string list \<Rightarrow> string \<Rightarrow> serverMetrics \<Rightarrow> proxyStatsResp list" where
  "listV2ProxyStats today ks t m =
     (if t \<noteq> '''' then GetProxiesByType today ks t m else concat (map (\<lambda>t. GetProxiesByType today ks t m) apiV2ProxyTypes))"

record v2ProxyQuery =
  qPage :: string
  qPageSize :: string
  qStatus :: string
  qType :: string
  qUser :: "string option"
  qClientID :: string
  qText :: string

definition selectsProxy :: "v2ProxyQuery \<Rightarrow> string \<Rightarrow> V2ProxyResp \<Rightarrow> bool" where
  "selectsProxy q status r \<longleftrightarrow> (case qUser q of None \<Rightarrow> True | Some u \<Rightarrow> rsUser (pxStats r) = u) \<and>
     (qClientID q = '''' \<or> rsClientID (pxStats r) = qClientID q) \<and> matchV2StatusFilter (pxOnline r) status \<and>
     (ToLower (qText q) = '''' \<or> matchV2ProxyQuery r (ToLower (qText q)))"

definition proxyKey :: "V2ProxyResp \<Rightarrow> string \<times> string" where
  "proxyKey r = (rsType (pxStats r), rsName (pxStats r))"

definition APIV2ProxyList ::
  "int \<Rightarrow> string list \<Rightarrow> (string \<Rightarrow> ProxyConfigurer option) \<Rightarrow> v2ProxyQuery \<Rightarrow> serverMetrics \<Rightarrow> api_error + V2ProxyResp V2PageResp" where
  "APIV2ProxyList today ks running q m =
     bindR (parseV2PageParams (qPage q) (qPageSize q)) (\<lambda>(page, pageSize).
     bindR (parseV2StatusFilter (qStatus q)) (\<lambda>status.
     bindR (parseV2ProxyTypeFilter (qType q)) (\<lambda>t.
       let items = filter (selectsProxy q status) (map (buildV2ProxyResp running) (listV2ProxyStats today ks t m)) in
       Inr (buildV2PageResp (sort_key proxyKey items) page pageSize))))"

definition APIV2ProxyDetail :: "int \<Rightarrow> (string \<Rightarrow> ProxyConfigurer option) \<Rightarrow> string \<Rightarrow> serverMetrics \<Rightarrow> api_error + V2ProxyResp" where
  "APIV2ProxyDetail today running name m =
     (case GetProxyByName today name m of None \<Rightarrow> Inl NoSuchProxy | Some ps \<Rightarrow> Inr (buildV2ProxyResp running ps))"

text \<open>The history of a proxy's traffic, the oldest day first; a point is its age in days and the two values.\<close>

definition v2TrafficValueAt :: "64 word list \<Rightarrow> nat \<Rightarrow> 64 word" where
  "v2TrafficValueAt values i = (if i \<ge> length values then 0 else values ! i)"

definition buildV2ProxyTrafficResp :: "64 word list \<times> 64 word list \<Rightarrow> (nat \<times> 64 word \<times> 64 word) list" where
  "buildV2ProxyTrafficResp traffic = map (\<lambda>age. (age, v2TrafficValueAt (fst traffic) age, v2TrafficValueAt (snd traffic) age)) (rev [0..<7])"

definition APIV2ProxyTraffic :: "int \<Rightarrow> string \<Rightarrow> serverMetrics \<Rightarrow> api_error + (nat \<times> 64 word \<times> 64 word) list" where
  "APIV2ProxyTraffic today name m =
     (case GetProxyTraffic today name m of None \<Rightarrow> Inl NoSuchProxy | Some traffic \<Rightarrow> Inr (buildV2ProxyTrafficResp traffic))"

definition APIV2SystemPrune :: "int \<Rightarrow> string list \<Rightarrow> string \<Rightarrow> serverMetrics \<Rightarrow> (api_error + string \<times> nat \<times> nat) \<times> serverMetrics" where
  "APIV2SystemPrune clock ks raw m =
     (case parseV2SystemPruneType raw of Inl e \<Rightarrow> (Inl e, m)
      | Inr t \<Rightarrow> (case clearUselessInfo clock 0 ks m of ((n, n0), m1) \<Rightarrow> (Inr (t, n, n0), m1)))"

section \<open>Answers about clients and users\<close>

definition ListClients :: "string list \<Rightarrow> registry \<Rightarrow> client_info list" where
  "ListClients ks cr = valuesIn ks (clients cr)"

text \<open>\<^verbatim>\<open>buildClientInfoResp\<close> copies the entry, with the client id for the raw one; the entry itself stands for the answer.\<close>

definition matchV2ClientQuery :: "client_info \<Rightarrow> string \<Rightarrow> bool" where
  "matchV2ClientQuery i q = containsV2Query q [Key i, User i, ClientID i, RunID i, Version i, WireProtocol i, Hostname i, ClientIP i]"

record v2ClientQuery =
  cqPage :: string
  cqPageSize :: string
  cqStatus :: string
  cqUser :: "string option"
  cqClientID :: string
  cqRunID :: string
  cqText :: string

definition selectsClient :: "v2ClientQuery \<Rightarrow> string \<Rightarrow> client_info \<Rightarrow> bool" where
  "selectsClient q status i \<longleftrightarrow> (case cqUser q of None \<Rightarrow> True | Some u \<Rightarrow> User i = u) \<and> (cqClientID q = '''' \<or> ClientID i = cqClientID q) \<and>
     (cqRunID q = '''' \<or> RunID i = cqRunID q) \<and> matchV2StatusFilter (Online i) status \<and>
     (ToLower (cqText q) = '''' \<or> matchV2ClientQuery i (ToLower (cqText q)))"

definition clientKey :: "client_info \<Rightarrow> string \<times> string \<times> string" where
  "clientKey i = (User i, ClientID i, Key i)"

definition APIV2ClientList :: "string list \<Rightarrow> v2ClientQuery \<Rightarrow> registry option \<Rightarrow> api_error + client_info V2PageResp" where
  "APIV2ClientList ks q reg =
     bindR (parseV2PageParams (cqPage q) (cqPageSize q)) (\<lambda>(page, pageSize).
       case reg of None \<Rightarrow> Inl RegistryUnavailable | Some cr \<Rightarrow>
         bindR (parseV2StatusFilter (cqStatus q)) (\<lambda>status.
           Inr (buildV2PageResp (sort_key clientKey (filter (selectsClient q status) (ListClients ks cr))) page pageSize)))"

text \<open>The status in the answer for one client: the sums over its proxies.\<close>

definition buildV2ClientStatus :: "int \<Rightarrow> string list \<Rightarrow> client_info \<Rightarrow> serverMetrics \<Rightarrow> bool \<times> int \<times> int" where
  "buildV2ClientStatus today ks i m =
     (let own = filter (\<lambda>ps. rsUser ps = User i \<and> rsClientID ps = ClientID i) (listV2ProxyStats today ks '''' m) in
      (Online i, sum_list (map (\<lambda>ps. sint (rsConns ps)) own), int (length own)))"

definition APIV2ClientDetail :: "int \<Rightarrow> string list \<Rightarrow> string \<Rightarrow> registry option \<Rightarrow> serverMetrics \<Rightarrow> api_error + client_info \<times> bool \<times> int \<times> int" where
  "APIV2ClientDetail today ks key reg m =
     (case reg of None \<Rightarrow> Inl RegistryUnavailable
      | Some cr \<Rightarrow> (case GetByKey key cr of None \<Rightarrow> Inl NoSuchClient | Some i \<Rightarrow> Inr (i, buildV2ClientStatus today ks i m)))"

text \<open>A user with the number of clients and of proxies.\<close>

definition countUsers :: "string list \<Rightarrow> string list \<Rightarrow> (string \<times> nat \<times> nat) list" where
  "countUsers cs ps = map (\<lambda>u. (u, length (filter (\<lambda>c. c = u) cs), length (filter (\<lambda>p. p = u) ps))) (remdups (cs @ ps))"

definition APIV2UserList ::
  "int \<Rightarrow> string list \<Rightarrow> string list \<Rightarrow> string \<Rightarrow> string \<Rightarrow> string \<Rightarrow> registry option \<Rightarrow> serverMetrics \<Rightarrow> api_error + (string \<times> nat \<times> nat) V2PageResp" where
  "APIV2UserList today cks ks pageRaw sizeRaw text reg m =
     bindR (parseV2PageParams pageRaw sizeRaw) (\<lambda>(page, pageSize).
       case reg of None \<Rightarrow> Inl RegistryUnavailable | Some cr \<Rightarrow>
         let users = countUsers (map User (ListClients cks cr)) (map rsUser (listV2ProxyStats today ks '''' m));
             items = filter (\<lambda>(u, n, k). ToLower text = '''' \<or> Contains (ToLower u) (ToLower text)) users in
         Inr (buildV2PageResp (sort_key fst items) page pageSize))"

section \<open>Lists are complete and do not depend on the order of maps\<close>

lemma sort_unique:
  assumes "mset xs = mset ys" "inj_on f (set xs)"
  shows "sort_key f xs = sort_key f ys"
proof (rule properties_for_sort_key)
  show "mset (sort_key f ys) = mset xs" using assms(1) by simp
  show "sorted (map f (sort_key f ys))" by simp
  fix k assume "k \<in> set (sort_key f ys)"
  then have k: "k \<in> set xs" using assms(1) by (metis set_mset_mset set_sort)
  have eq: "filter (\<lambda>x. f k = f x) zs = replicate (count (mset zs) k) k" if "set zs = set xs" for zs
  proof -
    have "filter (\<lambda>x. f k = f x) zs = filter ((=) k) zs" using that k assms(2) by (intro filter_cong) (auto dest: inj_onD)
    moreover have "filter ((=) k) zs = replicate (count (mset zs) k) k" by (induction zs) auto
    ultimately show ?thesis by simp
  qed
  have "set (sort_key f ys) = set xs" using assms(1) by (metis set_mset_mset set_sort)
  then show "filter (\<lambda>x. f k = f x) (sort_key f ys) = filter (\<lambda>x. f k = f x) xs" using eq[of "sort_key f ys"] eq[of xs] assms(1) by simp
qed

lemma byType_set:
  "set (GetProxiesByType today ks t m) = {toProxyStats today k p |k p. k \<in> set ks \<and> proxyStats m k = Some p \<and> psType p = t}"
proof (induction ks)
  case (Cons k ks)
  then show ?case by (cases "proxyStats m k") (auto simp: GetProxiesByType_def)
qed (simp add: GetProxiesByType_def)

lemma byType_names:
  "map rsName (GetProxiesByType today ks t m) = filter (\<lambda>k. case proxyStats m k of None \<Rightarrow> False | Some p \<Rightarrow> psType p = t) ks"
  by (induction ks) (auto simp: GetProxiesByType_def toProxyStats_def split: option.splits)

lemma byType_mset:
  assumes "enumerates ks (proxyStats m)" "enumerates ks' (proxyStats m)"
  shows "mset (GetProxiesByType today ks t m) = mset (GetProxiesByType today ks' t m)"
proof -
  have d: "distinct (GetProxiesByType today js t m)" if "enumerates js (proxyStats m)" for js
    using that byType_names[of today js t m] by (metis distinct_filter distinct_map enumerates_def)
  show ?thesis using d[OF assms(1)] d[OF assms(2)] assms
    by (intro set_eq_iff_mset_eq_distinct[THEN iffD1]) (auto simp: byType_set enumerates_def)
qed

definition shownTypes :: "string \<Rightarrow> string set" where
  "shownTypes t = (if t = '''' then set apiV2ProxyTypes else {t})"

lemma listed_mset:
  assumes "enumerates ks (proxyStats m)" "enumerates ks' (proxyStats m)"
  shows "mset (listV2ProxyStats today ks t m) = mset (listV2ProxyStats today ks' t m)"
  using byType_mset[OF assms] by (simp add: listV2ProxyStats_def mset_concat comp_def)

lemma listed_set:
  assumes "enumerates ks (proxyStats m)"
  shows "set (listV2ProxyStats today ks t m) = {toProxyStats today k p |k p. proxyStats m k = Some p \<and> psType p \<in> shownTypes t}"
proof -
  have "k \<in> set ks" if "proxyStats m k = Some p" for k p using assms that by (auto simp: enumerates_def)
  then show ?thesis by (cases "t = ''''") (fastforce simp: listV2ProxyStats_def shownTypes_def byType_set)+
qed

lemma listed_inj:
  assumes "enumerates ks (proxyStats m)"
  shows "inj_on proxyKey (set (map (buildV2ProxyResp running) (listV2ProxyStats today ks t m)))"
proof (rule inj_onI)
  fix a b assume ab: "a \<in> set (map (buildV2ProxyResp running) (listV2ProxyStats today ks t m))"
    "b \<in> set (map (buildV2ProxyResp running) (listV2ProxyStats today ks t m))" "proxyKey a = proxyKey b"
  obtain k p where a: "proxyStats m k = Some p" "a = buildV2ProxyResp running (toProxyStats today k p)"
    using ab(1) listed_set[OF assms, of today t] by auto
  obtain j r where b: "proxyStats m j = Some r" "b = buildV2ProxyResp running (toProxyStats today j r)"
    using ab(2) listed_set[OF assms, of today t] by auto
  have "k = j" using ab(3) a(2) b(2) by (simp add: proxyKey_def buildV2ProxyResp_def toProxyStats_def)
  then show "a = b" using a b by simp
qed

lemma listed_distinct:
  assumes "enumerates ks (proxyStats m)"
  shows "distinct (listV2ProxyStats today ks t m)"
proof -
  have d: "distinct (GetProxiesByType today ks t m)" for t
    using assms byType_names[of today ks t m] by (metis distinct_filter distinct_map enumerates_def)
  have disj: "set (GetProxiesByType today ks a m) \<inter> set (GetProxiesByType today ks b m) = {}" if "a \<noteq> b" for a b
    using that by (auto simp: byType_set toProxyStats_def)
  have "distinct (concat (map (\<lambda>t. GetProxiesByType today ks t m) ts))" if "distinct ts" for ts
    using that
  proof (induction ts)
    case (Cons a ts)
    have "set (GetProxiesByType today ks a m) \<inter> set (GetProxiesByType today ks b m) = {}" if "b \<in> set ts" for b
      using disj[of a b] that Cons.prems by fastforce
    then have "set (GetProxiesByType today ks a m) \<inter> (\<Union>b\<in>set ts. set (GetProxiesByType today ks b m)) = {}" by blast
    then show ?case using Cons d[of a] by simp
  qed simp
  moreover have "distinct apiV2ProxyTypes" by (simp add: apiV2ProxyTypes_def)
  ultimately show ?thesis using d by (simp add: listV2ProxyStats_def)
qed

text \<open>The list of proxies is complete, and the same whatever order the map of statistics is ranged over: if the parameters are accepted, the pages together show exactly once each entry of
  a listed type that matches the filters, in the order of type and name, and the total is their number.\<close>

theorem v2_proxy_list_complete:
  assumes "enumerates ks (proxyStats m)" "enumerates ks' (proxyStats m)" "parseV2PageParams (qPage q) (qPageSize q) = Inr (page, pageSize)"
    "parseV2StatusFilter (qStatus q) = Inr status" "parseV2ProxyTypeFilter (qType q) = Inr t"
  shows "\<exists>items. APIV2ProxyList today ks running q m = Inr \<lparr>v2Total = length items, v2Page = page, v2PageSize = pageSize,
        v2Items = Some (take (nat pageSize) (drop (nat ((page - 1) * pageSize)) items))\<rparr> \<and>
      APIV2ProxyList today ks' running q m = APIV2ProxyList today ks running q m \<and>
      sorted (map proxyKey items) \<and> distinct items \<and>
      set items = {r. selectsProxy q status r \<and> (\<exists>k p. proxyStats m k = Some p \<and> psType p \<in> shownTypes t \<and> r = buildV2ProxyResp running (toProxyStats today k p))}"
proof -
  define sel where "sel js = filter (selectsProxy q status) (map (buildV2ProxyResp running) (listV2ProxyStats today js t m))" for js
  have list: "APIV2ProxyList today js running q m = Inr (buildV2PageResp (sort_key proxyKey (sel js)) page pageSize)" for js
    using assms(3-5) by (simp add: APIV2ProxyList_def sel_def)
  have inj: "inj_on proxyKey (set (sel ks))" using listed_inj[OF assms(1), of running today t] by (auto simp: sel_def intro: inj_on_subset)
  have "mset (sel ks) = mset (sel ks')" using listed_mset[OF assms(1,2), of today t] by (simp add: sel_def mset_map)
  then have same: "sort_key proxyKey (sel ks) = sort_key proxyKey (sel ks')" by (rule sort_unique) (rule inj)
  have dist: "distinct (sel ks)" unfolding sel_def
    using listed_distinct[OF assms(1), of today t] by (auto simp: distinct_map inj_on_def buildV2ProxyResp_def)
  have "set (sel ks) = {r. selectsProxy q status r \<and> (\<exists>k p. proxyStats m k = Some p \<and> psType p \<in> shownTypes t \<and> r = buildV2ProxyResp running (toProxyStats today k p))}"
    by (auto simp: sel_def listed_set[OF assms(1)])
  note set = this
  have slice: "paginateV2Items items page pageSize = Some (take (nat pageSize) (drop (nat ((page - 1) * pageSize)) items))" for items :: "V2ProxyResp list"
    using page_slice page_params[OF assms(3)] by blast
  show ?thesis
    by (rule exI[of _ "sort_key proxyKey (sel ks)"]) (simp add: list same[symmetric] buildV2PageResp_def slice dist set)
qed

definition demo_metrics :: serverMetrics where
  "demo_metrics = smNewProxy 0 6 ''a'' ''tcp'' ''me'' ''c'' (smNewProxy 0 5 ''b'' ''tcp'' ''me'' ''c'' (newServerMetrics 0))"

definition demo_query :: v2ProxyQuery where
  "demo_query = \<lparr>qPage = '''', qPageSize = ''1'', qStatus = '''', qType = ''TCP'', qUser = None, qClientID = '''', qText = ''''\<rparr>"

theorem v2_proxy_list_complete_witness:
  "map_sum id (map_option (map (\<lambda>r. rsName (pxStats r))) \<circ> v2Items) (APIV2ProxyList 0 [''b'', ''a''] (\<lambda>_. None) demo_query demo_metrics) = Inr (Some [''a'']) \<and>
   APIV2ProxyList 0 [''a'', ''b''] (\<lambda>_. None) demo_query demo_metrics = APIV2ProxyList 0 [''b'', ''a''] (\<lambda>_. None) demo_query demo_metrics"
proof -
  have en: "enumerates [''b'', ''a''] (proxyStats demo_metrics)" "enumerates [''a'', ''b''] (proxyStats demo_metrics)"
    by (auto simp: enumerates_def demo_metrics_def smNewProxy_def newServerMetrics_def Let_def)
  have ps: "parseV2PageParams (qPage demo_query) (qPageSize demo_query) = Inr (1, 1)" "parseV2StatusFilter (qStatus demo_query) = Inr ''''"
    "parseV2ProxyTypeFilter (qType demo_query) = Inr ''tcp''" by code_simp+
  have "APIV2ProxyList 0 [''a'', ''b''] (\<lambda>_. None) demo_query demo_metrics = APIV2ProxyList 0 [''b'', ''a''] (\<lambda>_. None) demo_query demo_metrics"
    using v2_proxy_list_complete[OF en ps, of 0 "\<lambda>_. None"] by blast
  moreover have "map_sum id (map_option (map (\<lambda>r. rsName (pxStats r))) \<circ> v2Items) (APIV2ProxyList 0 [''b'', ''a''] (\<lambda>_. None) demo_query demo_metrics) = Inr (Some [''a''])"
    by code_simp
  ultimately show ?thesis by blast
qed

text \<open>Proxies of the type of this fork are not among the listed types.\<close>

lemma xudp_not_listed:
  assumes "enumerates ks (proxyStats m)" "parseV2ProxyTypeFilter raw = Inr t" "ps \<in> set (listV2ProxyStats today ks t m)"
  shows "rsType ps \<noteq> ''xudp''"
  using assms(2,3) listed_set[OF assms(1), of today t]
  by (auto simp: shownTypes_def parseV2ProxyTypeFilter_def Let_def apiV2ProxyTypes_def toProxyStats_def split: if_splits)

end
