(* ===== verification/Client_Proxy.thy ===== *)
theory Client_Proxy
  imports Config_Source
begin

text \<open>
  The proxies of the client: the health monitor of \<^verbatim>\<open>client/health/health.go\<close>, the wrapper around a proxy with its phases
  (\<^verbatim>\<open>client/proxy/proxy_wrapper.go\<close>), the manager that brings the running proxies in line with a configuration
  (\<^verbatim>\<open>client/proxy/proxy_manager.go\<close>), the names of \<^verbatim>\<open>pkg/naming\<close>, and a wrapper talking to the server.

  Every method of the wrapper runs under its lock and is one step.  Time is an argument in nanoseconds.  What a wrapper
  sends is returned as a list of messages; the probes of the monitor and the \<^verbatim>\<open>Run\<close> of the underlying proxy are arguments.
\<close>

section \<open>Names\<close>

definition AddUserPrefix :: "string \<Rightarrow> string \<Rightarrow> string" where
  "AddUserPrefix user name = (if user = '''' then name else user @ ''.'' @ name)"

definition StripUserPrefix :: "string \<Rightarrow> string \<Rightarrow> string" where
  "StripUserPrefix user name =
     (if user = '''' then name else (case CutPrefix name (user @ ''.'') of Some trimmed \<Rightarrow> trimmed | None \<Rightarrow> name))"

definition BuildTargetServerProxyName :: "string \<Rightarrow> string \<Rightarrow> string \<Rightarrow> string" where
  "BuildTargetServerProxyName localUser serverUser serverName =
     (if serverUser \<noteq> '''' then AddUserPrefix serverUser serverName else AddUserPrefix localUser serverName)"

lemma strip_add [simp]: "StripUserPrefix user (AddUserPrefix user name) = name"
  by (simp add: StripUserPrefix_def AddUserPrefix_def CutPrefix_def)

lemma add_inject [simp]: "AddUserPrefix user a = AddUserPrefix user b \<longleftrightarrow> a = b"
  by (simp add: AddUserPrefix_def)

section \<open>The health monitor\<close>

record monitor =
  mCheckType :: string
  mInterval :: int
  mTimeout :: int
  mMaxFailedTimes :: int
  mAddr :: string
  mUrl :: string
  mHeader :: "(string \<times> string) list"
  mFailedTimes :: nat
  mStatusOK :: bool
  mCanceled :: bool

definition orDefault :: "int \<Rightarrow> int \<Rightarrow> int" where
  "orDefault v d = (if v \<le> 0 then d else v)"

definition NewMonitor :: "HealthCheckConfig \<Rightarrow> string \<Rightarrow> monitor" where
  "NewMonitor cfg addr =
     \<lparr>mCheckType = hcType cfg, mInterval = orDefault (IntervalSeconds cfg) 10 * 1000000000,
      mTimeout = orDefault (TimeoutSeconds cfg) 3 * 1000000000, mMaxFailedTimes = orDefault (MaxFailed cfg) 1, mAddr = addr,
      mUrl = (if hcType cfg = ''http'' \<and> hcPath cfg \<noteq> '''' then
                ''http://'' @ addr @ (if HasPrefix (hcPath cfg) ''/'' then '''' else ''/'') @ hcPath cfg else ''''),
      mHeader = HTTPHeaders cfg, mFailedTimes = 0, mStatusOK = False, mCanceled = False\<rparr>"

text \<open>One check: \<open>dial\<close> says whether the connection was made, \<open>status\<close> is the status code of the answer to the request.\<close>

definition doCheck :: "monitor \<Rightarrow> bool \<Rightarrow> int option \<Rightarrow> bool" where
  "doCheck m dial status =
     (if mCheckType m = ''tcp'' then mAddr m = '''' \<or> dial
      else if mCheckType m = ''http'' then (case status of None \<Rightarrow> False | Some c \<Rightarrow> c div 100 = 2)
      else False)"

datatype callback = StatusNormal | StatusFailed

text \<open>One turn of the monitor's worker after the check.\<close>

definition monitorTurn :: "bool \<Rightarrow> monitor \<Rightarrow> callback option \<times> monitor" where
  "monitorTurn ok m =
     (if mCanceled m then (None, m)
      else if ok then
        if \<not> mStatusOK m then (Some StatusNormal, m\<lparr>mStatusOK := True\<rparr>) else (None, m)
      else
        let m = m\<lparr>mFailedTimes := Suc (mFailedTimes m)\<rparr> in
        if mStatusOK m \<and> int (mFailedTimes m) \<ge> mMaxFailedTimes m then (Some StatusFailed, m\<lparr>mStatusOK := False\<rparr>) else (None, m))"

definition MonitorStop :: "monitor \<Rightarrow> monitor" where
  "MonitorStop m = m\<lparr>mCanceled := True\<rparr>"

section \<open>The wrapper\<close>

datatype wrapperPhase = PhaseNew | PhaseWaitStart | PhaseStartErr | PhaseRunning | PhaseCheckFailed | PhaseClosed

datatype clientMsg = NewProxyOut string NewProxyMsg | CloseProxyOut string

definition waitResponseTimeout :: int where "waitResponseTimeout = 20 * 1000000000"

definition startErrTimeout :: int where "startErrTimeout = 30 * 1000000000"

record wrapper =
  wCfg :: ProxyConfigurer
  wPhase :: wrapperPhase
  wErr :: string
  wRemoteAddr :: string
  wMonitor :: "monitor option"
  wHealth :: nat
  wLastSendStartMsg :: int
  wLastStartErr :: int
  wCloseCh :: nat
  wireName :: string
  pxyOpen :: bool

text \<open>\<open>wCloseCh\<close> counts how often the two channels of the wrapper were closed.\<close>

definition NewWrapper :: "string \<Rightarrow> ProxyConfigurer \<Rightarrow> wrapper" where
  "NewWrapper user cfg =
     (let b = GetBaseConfig cfg; checked = hcType (HealthCheck b) \<noteq> '''' \<and> LocalPort b > 0 in
      \<lparr>wCfg = cfg, wPhase = PhaseNew, wErr = '''', wRemoteAddr = '''',
       wMonitor = (if checked then Some (NewMonitor (HealthCheck b) (JoinHostPort (LocalIP b) (Itoa (LocalPort b)))) else None),
       wHealth = (if checked then 1 else 0), wLastSendStartMsg = 0, wLastStartErr = 0, wCloseCh = 0,
       wireName = AddUserPrefix user (cName b), pxyOpen = True\<rparr>)"

definition closeMsg :: "wrapper \<Rightarrow> clientMsg" where
  "closeMsg w = CloseProxyOut (wireName w)"

datatype start_error = StatusNotWaitStart | StartRefused string | RunFailed string | ProxyNotFound string

definition SetRunningStatus :: "int \<Rightarrow> string option \<Rightarrow> string \<Rightarrow> string \<Rightarrow> wrapper \<Rightarrow> start_error option \<times> clientMsg list \<times> wrapper" where
  "SetRunningStatus clock runErr remoteAddr respErr w =
     (if wPhase w \<noteq> PhaseWaitStart then (Some StatusNotWaitStart, [], w)
      else let w = w\<lparr>wRemoteAddr := remoteAddr\<rparr> in
        if respErr \<noteq> '''' then (Some (StartRefused respErr), [], w\<lparr>wPhase := PhaseStartErr, wErr := respErr, wLastStartErr := clock\<rparr>)
        else case runErr of
            Some e \<Rightarrow> (Some (RunFailed e), [closeMsg w], w\<lparr>wPhase := PhaseStartErr, wErr := e, wLastStartErr := clock\<rparr>)
          | None \<Rightarrow> (None, [], w\<lparr>wPhase := PhaseRunning, wErr := ''''\<rparr>))"

definition WrapperStop :: "wrapper \<Rightarrow> clientMsg list \<times> wrapper" where
  "WrapperStop w = ([closeMsg w],
     w\<lparr>wCloseCh := Suc (wCloseCh w), pxyOpen := False, wMonitor := map_option MonitorStop (wMonitor w), wPhase := PhaseClosed\<rparr>)"

definition mayStart :: "int \<Rightarrow> wrapper \<Rightarrow> bool" where
  "mayStart clock w \<longleftrightarrow> wPhase w = PhaseNew \<or> wPhase w = PhaseCheckFailed \<or>
     (wPhase w = PhaseWaitStart \<and> clock > wLastSendStartMsg w + waitResponseTimeout) \<or>
     (wPhase w = PhaseStartErr \<and> clock > wLastStartErr w + startErrTimeout)"

text \<open>One turn of \<^verbatim>\<open>checkWorker\<close>.\<close>

definition checkTurn :: "int \<Rightarrow> wrapper \<Rightarrow> clientMsg list \<times> wrapper" where
  "checkTurn clock w =
     (if wHealth w = 0 then
        if mayStart clock w then
          ([NewProxyOut (wireName w) ((MarshalToMsg (wCfg w) emptyMsg)\<lparr>mProxyName := wireName w\<rparr>)],
           w\<lparr>wPhase := PhaseWaitStart, wLastSendStartMsg := clock\<rparr>)
        else ([], w)
      else
        if wPhase w = PhaseRunning \<or> wPhase w = PhaseWaitStart then ([closeMsg w], w\<lparr>wPhase := PhaseCheckFailed\<rparr>)
        else ([], w))"

fun statusCallback :: "callback \<Rightarrow> wrapper \<Rightarrow> wrapper" where
  "statusCallback StatusNormal w = w\<lparr>wHealth := 0\<rparr>"
| "statusCallback StatusFailed w = w\<lparr>wHealth := 1\<rparr>"

definition InWorkConn :: "wrapper \<Rightarrow> bool" where
  "InWorkConn w \<longleftrightarrow> wPhase w = PhaseRunning"

definition monitorStep :: "bool \<Rightarrow> int option \<Rightarrow> wrapper \<Rightarrow> wrapper" where
  "monitorStep dial status w = (case wMonitor w of
     None \<Rightarrow> w
   | Some m \<Rightarrow> (case monitorTurn (doCheck m dial status) m of (cb, m') \<Rightarrow>
       (let w = w\<lparr>wMonitor := Some m'\<rparr> in case cb of None \<Rightarrow> w | Some c \<Rightarrow> statusCallback c w)))"

section \<open>The manager\<close>

record proxyManager =
  pmUser :: string
  pmProxies :: "string \<Rightarrow> wrapper option"

definition StartProxy :: "int \<Rightarrow> string option \<Rightarrow> string \<Rightarrow> string \<Rightarrow> string \<Rightarrow> proxyManager \<Rightarrow> start_error option \<times> clientMsg list \<times> proxyManager" where
  "StartProxy clock runErr name remoteAddr respErr pm =
     (case pmProxies pm name of
        None \<Rightarrow> (Some (ProxyNotFound name), [], pm)
      | Some w \<Rightarrow> (case SetRunningStatus clock runErr remoteAddr respErr w of (e, out, w') \<Rightarrow>
          (e, out, pm\<lparr>pmProxies := (pmProxies pm)(name \<mapsto> w')\<rparr>)))"

definition HandleWorkConn :: "string \<Rightarrow> proxyManager \<Rightarrow> bool" where
  "HandleWorkConn name pm = (case pmProxies pm name of None \<Rightarrow> False | Some w \<Rightarrow> InWorkConn w)"

definition handleNewProxyResp :: "int \<Rightarrow> string option \<Rightarrow> string \<Rightarrow> string \<Rightarrow> string \<Rightarrow> proxyManager \<Rightarrow> start_error option \<times> clientMsg list \<times> proxyManager" where
  "handleNewProxyResp clock runErr name remoteAddr respErr pm = StartProxy clock runErr (StripUserPrefix (pmUser pm) name) remoteAddr respErr pm"

text \<open>\<^verbatim>\<open>Close\<close>, with the order in which the map is ranged over.\<close>

definition ManagerClose :: "string list \<Rightarrow> proxyManager \<Rightarrow> clientMsg list \<times> wrapper list \<times> proxyManager" where
  "ManagerClose ks pm =
     (let stopped = map WrapperStop (valuesIn ks (pmProxies pm)) in
      (concat (map fst stopped), map snd stopped, pm\<lparr>pmProxies := Map.empty\<rparr>))"

text \<open>The two loops of \<^verbatim>\<open>UpdateAll\<close>.  \<open>lo.KeyBy\<close> keeps the last configuration of a name.\<close>

definition keyByName :: "ProxyConfigurer list \<Rightarrow> string \<Rightarrow> ProxyConfigurer option" where
  "keyByName confs = mergeEntries proxyCfgName confs Map.empty"

fun removeChanged :: "(string \<Rightarrow> ProxyConfigurer option) \<Rightarrow> string list \<Rightarrow> (string \<Rightarrow> wrapper option) \<Rightarrow> clientMsg list \<times> wrapper list \<times> (string \<Rightarrow> wrapper option)" where
  "removeChanged confs [] m = ([], [], m)"
| "removeChanged confs (k # ks) m =
     (case m k of
        None \<Rightarrow> removeChanged confs ks m
      | Some w \<Rightarrow>
          if confs k \<noteq> Some (wCfg w) then
            (case WrapperStop w of (out, w') \<Rightarrow> case removeChanged confs ks (m(k := None)) of (outs, ws, m') \<Rightarrow> (out @ outs, w' # ws, m'))
          else removeChanged confs ks m)"

fun addMissing :: "string \<Rightarrow> ProxyConfigurer list \<Rightarrow> (string \<Rightarrow> wrapper option) \<Rightarrow> string \<Rightarrow> wrapper option" where
  "addMissing user [] m = m"
| "addMissing user (c # cs) m =
     addMissing user cs (if m (proxyCfgName c) = None then m(proxyCfgName c \<mapsto> NewWrapper user c) else m)"

definition ProxyUpdateAll :: "string list \<Rightarrow> ProxyConfigurer list \<Rightarrow> proxyManager \<Rightarrow> clientMsg list \<times> wrapper list \<times> proxyManager" where
  "ProxyUpdateAll ks confs pm =
     (case removeChanged (keyByName confs) ks (pmProxies pm) of (outs, ws, m) \<Rightarrow>
        (outs, ws, pm\<lparr>pmProxies := addMissing (pmUser pm) confs m\<rparr>))"

section \<open>Reconciliation\<close>

lemma removeChanged_map:
  "distinct ks \<Longrightarrow> snd (snd (removeChanged confs ks m)) k =
     (if k \<in> set ks \<and> (\<exists>w. m k = Some w \<and> confs k \<noteq> Some (wCfg w)) then None else m k)"
  by (induction ks arbitrary: m) (auto simp: split_def split: option.splits)

definition changed :: "(string \<Rightarrow> ProxyConfigurer option) \<Rightarrow> (string \<Rightarrow> wrapper option) \<Rightarrow> string \<Rightarrow> wrapper option" where
  "changed confs m k = (case m k of None \<Rightarrow> None | Some w \<Rightarrow> if confs k \<noteq> Some (wCfg w) then Some w else None)"

lemma valuesIn_cong: "(\<And>k. k \<in> set ks \<Longrightarrow> m k = m' k) \<Longrightarrow> valuesIn ks m = valuesIn ks m'"
  by (induction ks) (auto split: option.splits)

lemma removeChanged_out:
  "distinct ks \<Longrightarrow> fst (removeChanged confs ks m) = map closeMsg (valuesIn ks (changed confs m)) \<and>
     fst (snd (removeChanged confs ks m)) = map (snd \<circ> WrapperStop) (valuesIn ks (changed confs m))"
proof (induction ks arbitrary: m)
  case (Cons k ks)
  have "valuesIn ks (changed confs (m(k := None))) = valuesIn ks (changed confs m)"
    using Cons.prems by (intro valuesIn_cong) (auto simp: changed_def)
  then show ?case
    using Cons.IH[of "m(k := None)"] Cons.IH[of m] Cons.prems
    by (auto simp: changed_def[of confs m k] WrapperStop_def[THEN arg_cong[where f = fst]] split_def simp del: fun_upd_apply split: option.splits)
qed simp

lemma addMissing_map:
  "distinct (map proxyCfgName confs) \<Longrightarrow> addMissing user confs m k =
     (case m k of Some w \<Rightarrow> Some w
      | None \<Rightarrow> (case find (\<lambda>c. proxyCfgName c = k) confs of None \<Rightarrow> None | Some c \<Rightarrow> Some (NewWrapper user c)))"
  by (induction confs arbitrary: m) (auto simp: find_None_iff split: option.splits)

lemma find_in: "find P xs = Some x \<Longrightarrow> x \<in> set xs \<and> P x"
  by (auto simp: find_Some_iff)

lemma find_absent: "k \<notin> set (map nm xs) \<Longrightarrow> find (\<lambda>c. nm c = k) xs = None"
  by (induction xs) auto

lemma merge_find:
  assumes "distinct (map nm confs)"
  shows "mergeEntries nm confs m k = (case find (\<lambda>c. nm c = k) confs of None \<Rightarrow> m k | Some c \<Rightarrow> Some c)"
  using assms
proof (induction confs arbitrary: m)
  case (Cons a confs)
  have "find (\<lambda>c. nm c = k) confs = None" if "nm a = k"
    using that Cons.prems by (auto intro: find_absent)
  then show ?case using Cons by (auto split: option.splits)
qed simp

lemma keyByName_find:
  assumes "distinct (map proxyCfgName confs)"
  shows "keyByName confs k = find (\<lambda>c. proxyCfgName c = k) confs"
  using merge_find[OF assms, of Map.empty k] by (simp add: keyByName_def split: option.splits)

text \<open>The manager that a configuration asks for, given the one that runs.\<close>

definition reconciled :: "string \<Rightarrow> ProxyConfigurer list \<Rightarrow> (string \<Rightarrow> wrapper option) \<Rightarrow> string \<Rightarrow> wrapper option" where
  "reconciled user confs m k = (case find (\<lambda>c. proxyCfgName c = k) confs of
     None \<Rightarrow> None
   | Some c \<Rightarrow> (case m k of
       None \<Rightarrow> Some (NewWrapper user c)
     | Some w \<Rightarrow> if wCfg w = c then Some w else Some (NewWrapper user c)))"

lemma update_map:
  assumes "distinct (map proxyCfgName confs)" "enumerates ks (pmProxies pm)"
  shows "pmProxies (snd (snd (ProxyUpdateAll ks confs pm))) = reconciled (pmUser pm) confs (pmProxies pm)"
proof
  fix k
  have ks: "distinct ks" "k \<in> set ks \<longleftrightarrow> pmProxies pm k \<noteq> None" using assms(2) by (auto simp: enumerates_def dom_def)
  show "pmProxies (snd (snd (ProxyUpdateAll ks confs pm))) k = reconciled (pmUser pm) confs (pmProxies pm) k"
    using removeChanged_map[OF ks(1), of "keyByName confs" "pmProxies pm" k] ks(2) assms(1)
    by (auto simp: ProxyUpdateAll_def addMissing_map keyByName_find reconciled_def split_def split: option.splits)
qed

text \<open>Everything that happens to a manager, with the messages it has sent and the wrappers it has stopped.\<close>

record pmWorld =
  manager :: proxyManager
  outLog :: "clientMsg list"
  stoppedLog :: "wrapper list"

datatype pmEvent =
    MUpdate "string list" "ProxyConfigurer list"
  | MResp int "string option" string string string
  | MCheck int string
  | MMonitor bool "int option" string
  | MClose "string list"

definition onWrapper :: "string \<Rightarrow> (wrapper \<Rightarrow> clientMsg list \<times> wrapper) \<Rightarrow> pmWorld \<Rightarrow> pmWorld" where
  "onWrapper k f s = (case pmProxies (manager s) k of
     None \<Rightarrow> s
   | Some w \<Rightarrow> s\<lparr>manager := (manager s)\<lparr>pmProxies := (pmProxies (manager s))(k \<mapsto> snd (f w))\<rparr>, outLog := outLog s @ fst (f w)\<rparr>)"

definition andLog :: "clientMsg list \<times> wrapper list \<times> proxyManager \<Rightarrow> pmWorld \<Rightarrow> pmWorld" where
  "andLog r s = s\<lparr>manager := snd (snd r), outLog := outLog s @ fst r, stoppedLog := stoppedLog s @ fst (snd r)\<rparr>"

fun pmGuard :: "pmEvent \<Rightarrow> pmWorld \<Rightarrow> bool" where
  "pmGuard (MUpdate ks confs) s \<longleftrightarrow> enumerates ks (pmProxies (manager s)) \<and> distinct (map proxyCfgName confs)"
| "pmGuard (MClose ks) s \<longleftrightarrow> enumerates ks (pmProxies (manager s))"
| "pmGuard _ s \<longleftrightarrow> True"

fun pmHappen :: "pmEvent \<Rightarrow> pmWorld \<Rightarrow> pmWorld" where
  "pmHappen (MUpdate ks confs) s = andLog (ProxyUpdateAll ks confs (manager s)) s"
| "pmHappen (MResp clock runErr name addr err) s =
     (case handleNewProxyResp clock runErr name addr err (manager s) of (e, outs, pm) \<Rightarrow> s\<lparr>manager := pm, outLog := outLog s @ outs\<rparr>)"
| "pmHappen (MCheck clock k) s = onWrapper k (checkTurn clock) s"
| "pmHappen (MMonitor dial status k) s = onWrapper k (\<lambda>w. ([], monitorStep dial status w)) s"
| "pmHappen (MClose ks) s = andLog (ManagerClose ks (manager s)) s"

definition pmStart :: "string \<Rightarrow> pmWorld" where
  "pmStart user = \<lparr>manager = \<lparr>pmUser = user, pmProxies = Map.empty\<rparr>, outLog = [], stoppedLog = []\<rparr>"

text \<open>A wrapper in the map is live and carries its own name; a stopped one is closed, exactly once.\<close>

definition liveWrapper :: "string \<Rightarrow> string \<Rightarrow> wrapper \<Rightarrow> bool" where
  "liveWrapper user k w \<longleftrightarrow> proxyCfgName (wCfg w) = k \<and> wireName w = AddUserPrefix user k \<and> wCloseCh w = 0 \<and> wPhase w \<noteq> PhaseClosed \<and> pxyOpen w"

definition pmOK :: "string \<Rightarrow> pmWorld \<Rightarrow> bool" where
  "pmOK user s \<longleftrightarrow> pmUser (manager s) = user \<and> (\<forall>k w. pmProxies (manager s) k = Some w \<longrightarrow> liveWrapper user k w) \<and>
     (\<forall>w\<in>set (stoppedLog s). wCloseCh w = 1 \<and> wPhase w = PhaseClosed \<and> \<not> pxyOpen w)"

lemma live_new: "liveWrapper user (proxyCfgName c) (NewWrapper user c)"
  by (simp add: liveWrapper_def NewWrapper_def Let_def proxyCfgName_def)

lemma statusCallback_fields [simp]:
  "wCfg (statusCallback c w) = wCfg w" "wireName (statusCallback c w) = wireName w" "wCloseCh (statusCallback c w) = wCloseCh w"
  "wPhase (statusCallback c w) = wPhase w" "pxyOpen (statusCallback c w) = pxyOpen w"
  by (cases c; simp)+

lemma live_steps:
  assumes "liveWrapper user k w"
  shows "liveWrapper user k (snd (checkTurn clock w))" "liveWrapper user k (monitorStep dial status w)"
    "liveWrapper user k (snd (snd (SetRunningStatus clock runErr addr err w)))"
  using assms
  by (auto simp: liveWrapper_def checkTurn_def monitorStep_def SetRunningStatus_def Let_def split_def split: option.splits)

lemma stopped_once: "liveWrapper user k w \<Longrightarrow> wCloseCh (snd (WrapperStop w)) = 1 \<and> wPhase (snd (WrapperStop w)) = PhaseClosed \<and> \<not> pxyOpen (snd (WrapperStop w))"
  by (simp add: liveWrapper_def WrapperStop_def)

lemma valuesIn_live: "c \<in> set (valuesIn ks m) \<Longrightarrow> \<exists>k. m k = Some c"
  by (induction ks) (auto split: option.splits)

lemma find_named: "find (\<lambda>c. proxyCfgName c = k) confs = Some c \<Longrightarrow> proxyCfgName c = k"
  by (auto simp: find_Some_iff)

lemma pmUser_update [simp]: "pmUser (snd (snd (ProxyUpdateAll ks confs pm))) = pmUser pm"
  by (simp add: ProxyUpdateAll_def split_def)

lemma pm_update:
  assumes "pmOK user s" "pmGuard (MUpdate ks confs) s"
  shows "pmOK user (pmHappen (MUpdate ks confs) s)"
proof -
  have g: "enumerates ks (pmProxies (manager s))" "distinct (map proxyCfgName confs)" using assms(2) by simp_all
  have "liveWrapper user k w" if "reconciled user confs (pmProxies (manager s)) k = Some w" for k w
    using that assms(1) live_new[of user] find_named[of k confs]
    by (fastforce simp: pmOK_def reconciled_def split: option.splits if_splits)
  moreover have "wCloseCh w = 1 \<and> wPhase w = PhaseClosed \<and> \<not> pxyOpen w" if "w \<in> set (fst (snd (ProxyUpdateAll ks confs (manager s))))" for w
  proof -
    have "fst (snd (ProxyUpdateAll ks confs (manager s))) = map (snd \<circ> WrapperStop) (valuesIn ks (changed (keyByName confs) (pmProxies (manager s))))"
      using removeChanged_out[of ks "keyByName confs" "pmProxies (manager s)"] g(1) by (simp add: ProxyUpdateAll_def enumerates_def split_def)
    with that obtain v where v: "v \<in> set (valuesIn ks (changed (keyByName confs) (pmProxies (manager s))))" "w = snd (WrapperStop v)" by auto
    from valuesIn_live[OF v(1)] obtain k where "pmProxies (manager s) k = Some v"
      by (auto simp: changed_def split: option.splits if_splits)
    then have "liveWrapper user k v" using assms(1) by (simp add: pmOK_def)
    then show ?thesis using stopped_once v(2) by blast
  qed
  ultimately show ?thesis
    using assms(1) update_map[OF g(2,1)] by (auto simp: pmOK_def andLog_def)
qed

lemma pm_close:
  assumes "pmOK user s" "pmGuard (MClose ks) s"
  shows "pmOK user (pmHappen (MClose ks) s)"
proof -
  have "wCloseCh w = 1 \<and> wPhase w = PhaseClosed \<and> \<not> pxyOpen w" if "w \<in> set (fst (snd (ManagerClose ks (manager s))))" for w
    using that assms(1) stopped_once valuesIn_live[of _ ks "pmProxies (manager s)"]
    by (fastforce simp: ManagerClose_def Let_def pmOK_def)
  then show ?thesis using assms(1) by (auto simp: pmOK_def andLog_def ManagerClose_def Let_def)
qed

lemma pm_step:
  assumes "pmOK user s" "pmGuard e s"
  shows "pmOK user (pmHappen e s)"
proof (cases e)
  case (MUpdate ks confs)
  then show ?thesis using assms pm_update by blast
next
  case (MResp clock runErr name addr err)
  then show ?thesis
    using assms(1) live_steps(3)[of user "StripUserPrefix user name"]
    by (auto simp: pmOK_def handleNewProxyResp_def StartProxy_def split_def split: option.splits)
next
  case (MCheck clock k)
  then show ?thesis using assms(1) live_steps(1) by (auto simp: pmOK_def onWrapper_def split: option.splits)
next
  case (MMonitor dial status k)
  then show ?thesis using assms(1) live_steps(2) by (auto simp: pmOK_def onWrapper_def split: option.splits)
next
  case (MClose ks)
  then show ?thesis using assms pm_close by blast
qed

interpretation client_proxies: event_system pmGuard pmHappen "pmStart user" "pmOK user"
  for user
  by unfold_locales (simp add: pmOK_def pmStart_def, rule pm_step)

lemma reconciled_again: "reconciled user confs (reconciled user confs m) = reconciled user confs m"
  by (auto simp: reconciled_def NewWrapper_def Let_def split: option.splits)

text \<open>C6. However the manager is used, an update brings it exactly in line with the configuration: there is one wrapper per configured name; one whose
  configuration is unchanged is left as it is, in its phase; the others are new; every wrapper that is dropped is stopped, its channels closed
  once, and the server is told.  A second update with the same configuration does nothing.\<close>

theorem proxy_update_reconciles:
  assumes "steps pmGuard pmHappen (pmStart user) s" "distinct (map proxyCfgName confs)" "enumerates ks (pmProxies (manager s))"
    and "ProxyUpdateAll ks confs (manager s) = (outs, gone, pm)"
  shows "pmProxies pm = reconciled user confs (pmProxies (manager s)) \<and>
    outs = map closeMsg (valuesIn ks (changed (keyByName confs) (pmProxies (manager s)))) \<and>
    gone = map (snd \<circ> WrapperStop) (valuesIn ks (changed (keyByName confs) (pmProxies (manager s)))) \<and>
    (\<forall>w\<in>set gone. wCloseCh w = 1) \<and>
    (\<forall>ks'. enumerates ks' (pmProxies pm) \<longrightarrow> ProxyUpdateAll ks' confs pm = ([], [], pm))"
proof -
  have ok: "pmOK user s" using client_proxies.good_reached assms(1) .
  then have user: "pmUser (manager s) = user" by (simp add: pmOK_def)
  have pm: "pmProxies pm = reconciled user confs (pmProxies (manager s))" "pmUser pm = user"
    using update_map[OF assms(2,3)] assms(4) user pmUser_update[of ks confs "manager s"] by simp_all
  have out: "outs = map closeMsg (valuesIn ks (changed (keyByName confs) (pmProxies (manager s))))"
    "gone = map (snd \<circ> WrapperStop) (valuesIn ks (changed (keyByName confs) (pmProxies (manager s))))"
    using removeChanged_out[of ks "keyByName confs" "pmProxies (manager s)"] assms(3,4)
    by (auto simp: ProxyUpdateAll_def enumerates_def split_def)
  have "pmOK user (pmHappen (MUpdate ks confs) s)" using ok assms(2,3) by (intro pm_step) auto
  then have once: "\<forall>w\<in>set gone. wCloseCh w = 1" using assms(4) by (simp add: pmOK_def andLog_def)
  have "ProxyUpdateAll ks' confs pm = ([], [], pm)" if "enumerates ks' (pmProxies pm)" for ks'
  proof -
    have "changed (keyByName confs) (pmProxies pm) k = None" for k
      using assms(2) by (auto simp: changed_def pm(1) reconciled_def keyByName_find NewWrapper_def Let_def split: option.splits)
    then have "valuesIn ks' (changed (keyByName confs) (pmProxies pm)) = []" by (induction ks') auto
    then have "fst (ProxyUpdateAll ks' confs pm) = []" "fst (snd (ProxyUpdateAll ks' confs pm)) = []"
      using removeChanged_out[of ks' "keyByName confs" "pmProxies pm"] that by (auto simp: ProxyUpdateAll_def enumerates_def split_def)
    moreover have "pmProxies (snd (snd (ProxyUpdateAll ks' confs pm))) = pmProxies pm"
      using update_map[OF assms(2) that] pm reconciled_again by simp
    then have "snd (snd (ProxyUpdateAll ks' confs pm)) = pm" using pmUser_update[of ks' confs pm] by simp
    ultimately show ?thesis by (simp add: prod_eq_iff)
  qed
  then show ?thesis using pm out once by blast
qed

theorem proxy_update_reconciles_witness:
  "(let s = pmHappen (MCheck 5 ''web'') (pmHappen (MUpdate [] [demo_proxy]) (pmStart ''me''));
        (outs, gone, pm) = ProxyUpdateAll [''web''] [] (manager s) in
     pmProxies (manager s) ''web'' \<noteq> None \<and> outs = [CloseProxyOut ''me.web''] \<and> length gone = 1 \<and> pmProxies pm ''web'' = None)"
proof -
  define s where "s = pmHappen (MCheck 5 ''web'') (pmHappen (MUpdate [] [demo_proxy]) (pmStart ''me''))"
  have "run_ok pmGuard pmHappen [MUpdate [] [demo_proxy], MCheck 5 ''web''] (pmStart ''me'')"
    by (simp add: pmStart_def enumerates_def)
  from steps_run[OF this] have st: "steps pmGuard pmHappen (pmStart ''me'') s" by (simp add: s_def)
  have m: "pmProxies (manager s) = [''web'' \<mapsto> snd (checkTurn 5 (NewWrapper ''me'' demo_proxy))]"
    by (simp add: s_def pmStart_def andLog_def ProxyUpdateAll_def onWrapper_def demo_proxy_def zeroBase_def proxyCfgName_def)
  have en: "enumerates [''web''] (pmProxies (manager s))" by (simp add: m enumerates_def)
  have "changed (keyByName []) (pmProxies (manager s)) ''web'' = Some (snd (checkTurn 5 (NewWrapper ''me'' demo_proxy)))"
    by (simp add: m changed_def keyByName_def)
  moreover have "closeMsg (snd (checkTurn 5 (NewWrapper ''me'' demo_proxy))) = CloseProxyOut ''me.web''"
    by (simp add: closeMsg_def checkTurn_def NewWrapper_def mayStart_def Let_def demo_proxy_def zeroBase_def AddUserPrefix_def)
  moreover obtain outs gone pm where u: "ProxyUpdateAll [''web''] [] (manager s) = (outs, gone, pm)" by (metis prod_cases3)
  ultimately show ?thesis
    unfolding s_def[symmetric] using proxy_update_reconciles[OF st _ en u] by (simp add: m reconciled_def)
qed

text \<open>The monitor counts every failure since its start: a success in between does not reset the count, so that after \<^verbatim>\<open>MaxFailed\<close> failures in
  all a single failed check takes the proxy down.\<close>

lemma monitor_counts_all_failures:
  assumes "\<not> mCanceled m"
  shows "mFailedTimes (fold (\<lambda>ok m. snd (monitorTurn ok m)) oks m) = mFailedTimes m + length (filter Not oks) \<and>
    \<not> mCanceled (fold (\<lambda>ok m. snd (monitorTurn ok m)) oks m)"
  using assms
proof (induction oks arbitrary: m)
  case (Cons ok oks)
  then show ?case using Cons.IH[of "snd (monitorTurn ok m)"] by (auto simp: monitorTurn_def Let_def)
qed simp

lemma monitor_isolated_failures:
  "let m = fold (\<lambda>ok m. snd (monitorTurn ok m)) [True, False, True, False, True] (NewMonitor \<lparr>hcType = ''tcp'', TimeoutSeconds = 0, MaxFailed = 3,
     IntervalSeconds = 0, hcPath = [], HTTPHeaders = []\<rparr> ''127.0.0.1:80'') in
   mStatusOK m \<and> fst (monitorTurn False m) = Some StatusFailed"
  by (simp add: monitorTurn_def NewMonitor_def orDefault_def)

section \<open>A wrapper and the server\<close>

text \<open>
  One wrapper, the two directions of the control connection and the server's side for its name: a name is registered or not, registering
  a registered name is refused (\<^verbatim>\<open>RegisterProxy\<close>), every \<^verbatim>\<open>NewProxy\<close> is answered in turn (\<^verbatim>\<open>handleNewProxy\<close>), and a
  \<^verbatim>\<open>CloseProxy\<close> is not answered.
\<close>

record link =
  lWrapper :: wrapper
  toServer :: "clientMsg list"
  toClient :: "(string \<times> string) list"
  registered :: bool
  lClock :: int

datatype linkEvent =
    LCheck int              \<comment> \<open>a turn of the check worker\<close>
  | LMonitor bool "int option"
  | LServer string string   \<comment> \<open>the server takes a message; the address or error it would answer\<close>
  | LResp int "string option"
  | LStop

definition serverTake :: "string \<Rightarrow> string \<Rightarrow> clientMsg \<Rightarrow> bool \<Rightarrow> (string \<times> string) list \<times> bool" where
  "serverTake addr err m reg = (case m of
     NewProxyOut name np \<Rightarrow> if reg then ([('''', ''already exists'')], True) else if err = '''' then ([(addr, '''')], True) else ([('''', err)], False)
   | CloseProxyOut name \<Rightarrow> ([], False))"

fun linkGuard :: "linkEvent \<Rightarrow> link \<Rightarrow> bool" where
  "linkGuard (LCheck t) s \<longleftrightarrow> lClock s \<le> t"
| "linkGuard (LMonitor dial status) s \<longleftrightarrow> True"
| "linkGuard (LServer addr err) s \<longleftrightarrow> toServer s \<noteq> []"
| "linkGuard (LResp t runErr) s \<longleftrightarrow> lClock s \<le> t \<and> toClient s \<noteq> []"
| "linkGuard LStop s \<longleftrightarrow> wPhase (lWrapper s) \<noteq> PhaseClosed"

fun linkHappen :: "linkEvent \<Rightarrow> link \<Rightarrow> link" where
  "linkHappen (LCheck t) s = (case checkTurn t (lWrapper s) of (out, w) \<Rightarrow> s\<lparr>lWrapper := w, toServer := toServer s @ out, lClock := t\<rparr>)"
| "linkHappen (LMonitor dial status) s = s\<lparr>lWrapper := monitorStep dial status (lWrapper s)\<rparr>"
| "linkHappen (LServer addr err) s = (case serverTake addr err (hd (toServer s)) (registered s) of (resp, reg) \<Rightarrow>
     s\<lparr>toServer := tl (toServer s), toClient := toClient s @ resp, registered := reg\<rparr>)"
| "linkHappen (LResp t runErr) s = (case hd (toClient s) of (addr, err) \<Rightarrow>
     case SetRunningStatus t runErr addr err (lWrapper s) of (e, out, w) \<Rightarrow>
       s\<lparr>lWrapper := w, toServer := toServer s @ out, toClient := tl (toClient s), lClock := t\<rparr>)"
| "linkHappen LStop s = (case WrapperStop (lWrapper s) of (out, w) \<Rightarrow> s\<lparr>lWrapper := w, toServer := toServer s @ out\<rparr>)"

definition linkStart :: "wrapper \<Rightarrow> link" where
  "linkStart w = \<lparr>lWrapper = w, toServer = [], toClient = [], registered = False, lClock = 0\<rparr>"

text \<open>Answers in time: the check worker never finds an unanswered \<^verbatim>\<open>NewProxy\<close> that is older than the limit.\<close>

fun inTime :: "linkEvent \<Rightarrow> link \<Rightarrow> bool" where
  "inTime (LCheck t) s \<longleftrightarrow> linkGuard (LCheck t) s \<and>
     (wPhase (lWrapper s) = PhaseWaitStart \<longrightarrow> t \<le> wLastSendStartMsg (lWrapper s) + waitResponseTimeout)"
| "inTime e s \<longleftrightarrow> linkGuard e s"

fun isClose :: "clientMsg \<Rightarrow> bool" where
  "isClose (CloseProxyOut n) = True"
| "isClose (NewProxyOut n m) = False"

definition linkOK :: "link \<Rightarrow> bool" where
  "linkOK s \<longleftrightarrow> wMonitor (lWrapper s) = None \<and> wHealth (lWrapper s) = 0 \<and> (case wPhase (lWrapper s) of
     PhaseNew \<Rightarrow> toServer s = [] \<and> toClient s = [] \<and> \<not> registered s
   | PhaseWaitStart \<Rightarrow>
       (\<exists>m. toServer s = [m] \<and> \<not> isClose m \<and> toClient s = [] \<and> \<not> registered s) \<or>
       (\<exists>c m. toServer s = [c, m] \<and> isClose c \<and> \<not> isClose m \<and> toClient s = []) \<or>
       (\<exists>addr err. toServer s = [] \<and> toClient s = [(addr, err)] \<and> (registered s \<longleftrightarrow> err = ''''))
   | PhaseRunning \<Rightarrow> toServer s = [] \<and> toClient s = [] \<and> registered s
   | PhaseStartErr \<Rightarrow> toClient s = [] \<and> (toServer s = [] \<and> \<not> registered s \<or> (\<exists>c. toServer s = [c] \<and> isClose c))
   | PhaseCheckFailed \<Rightarrow> False
   | PhaseClosed \<Rightarrow> if toServer s = [] then \<not> registered s else isClose (last (toServer s)))"

lemmas link_defs = checkTurn_def monitorStep_def SetRunningStatus_def WrapperStop_def serverTake_def closeMsg_def mayStart_def Let_def

lemma link_check: "linkOK s \<Longrightarrow> inTime (LCheck t) s \<Longrightarrow> linkOK (linkHappen (LCheck t) s)"
  by (cases "wPhase (lWrapper s)") (auto simp: linkOK_def link_defs)

lemma link_server: "linkOK s \<Longrightarrow> toServer s \<noteq> [] \<Longrightarrow> linkOK (linkHappen (LServer addr err) s)"
  by (cases "wPhase (lWrapper s)"; cases "toServer s"; cases "hd (toServer s)") (auto simp: linkOK_def link_defs split: if_splits)

lemma link_resp: "linkOK s \<Longrightarrow> toClient s \<noteq> [] \<Longrightarrow> linkOK (linkHappen (LResp t runErr) s)"
  by (cases "wPhase (lWrapper s)"; cases runErr) (auto simp: linkOK_def link_defs)

lemma link_stop: "linkOK s \<Longrightarrow> linkOK (linkHappen LStop s)"
  by (simp add: linkOK_def link_defs split: wrapperPhase.splits)

lemma link_step: "linkOK s \<Longrightarrow> inTime e s \<Longrightarrow> linkOK (linkHappen e s)"
proof (cases e)
  case (LMonitor dial status)
  moreover assume "linkOK s"
  ultimately show ?thesis by (simp add: linkOK_def monitorStep_def)
qed (use link_check link_server link_resp link_stop in auto)

interpretation link: event_system inTime linkHappen "linkStart w" "\<lambda>s. linkOK (linkStart w) \<longrightarrow> linkOK s"
  for w
  by unfold_locales (auto intro: link_step)

lemma unchecked_start: "hcType (HealthCheck (GetBaseConfig c)) = '''' \<Longrightarrow> linkOK (linkStart (NewWrapper user c))"
  by (simp add: linkOK_def linkStart_def NewWrapper_def Let_def)

text \<open>C9. Without a health check and with answers in time, client and server agree on a proxy whenever nothing is in transit: the client has it
  running exactly if the server has it registered, and a proxy that was stopped is not registered.\<close>

theorem proxy_link_agrees:
  assumes "steps inTime linkHappen (linkStart (NewWrapper user c)) s" "hcType (HealthCheck (GetBaseConfig c)) = ''''"
    and "toServer s = []" "toClient s = []"
  shows "(wPhase (lWrapper s) = PhaseRunning \<longleftrightarrow> registered s) \<and> wPhase (lWrapper s) \<noteq> PhaseWaitStart"
  using link.good_reached[OF assms(1)] unchecked_start[OF assms(2)] assms(3,4)
  by (auto simp: linkOK_def split: wrapperPhase.splits)

definition refusedThenRuns :: "linkEvent list" where
  "refusedThenRuns = [LCheck 1, LServer '''' ''port used'', LResp 2 None, LCheck (2 + startErrTimeout + 1), LServer '':80'' '''', LResp (startErrTimeout + 4) None]"

lemmas link_eval = linkStart_def NewWrapper_def demo_proxy_def zeroBase_def link_defs startErrTimeout_def waitResponseTimeout_def

theorem proxy_link_agrees_witness:
  "(let s = fold linkHappen refusedThenRuns (linkStart (NewWrapper ''me'' demo_proxy)) in
     toServer s = [] \<and> toClient s = [] \<and> wPhase (lWrapper s) = PhaseRunning \<and> registered s)"
proof -
  have "run_ok inTime linkHappen refusedThenRuns (linkStart (NewWrapper ''me'' demo_proxy))"
    by (simp add: refusedThenRuns_def link_eval)
  from proxy_link_agrees[OF steps_run[OF this]] show ?thesis
    by (simp add: refusedThenRuns_def link_eval)
qed

text \<open>The client asks twice because the first answer is late; the first answer is a refusal, the second one a success that comes when the client no
  longer waits.\<close>

definition lateAnswers :: "linkEvent list" where
  "lateAnswers = [LCheck 1, LCheck (waitResponseTimeout + 2), LServer '''' ''port used'', LServer '':80'' '''',
     LResp (waitResponseTimeout + 3) None, LResp (waitResponseTimeout + 4) None]"

fun notStopped :: "linkEvent \<Rightarrow> link \<Rightarrow> bool" where
  "notStopped LStop s \<longleftrightarrow> False"
| "notStopped e s \<longleftrightarrow> linkGuard e s"

definition stranded :: "link \<Rightarrow> bool" where
  "stranded s \<longleftrightarrow> registered s \<and> wMonitor (lWrapper s) = None \<and> wHealth (lWrapper s) = 0 \<and>
     wPhase (lWrapper s) \<in> {PhaseStartErr, PhaseWaitStart} \<and> (\<forall>m\<in>set (toServer s). \<not> isClose m) \<and> (\<forall>r\<in>set (toClient s). snd r \<noteq> '''')"

lemma stranded_step: "stranded s \<Longrightarrow> notStopped e s \<Longrightarrow> stranded (linkHappen e s)"
proof (cases e)
  case (LServer addr err)
  assume "stranded s" "notStopped e s"
  then show ?thesis using LServer
    by (cases "toServer s"; cases "hd (toServer s)") (auto simp: stranded_def link_defs)
next
  case (LResp t runErr)
  assume "stranded s" "notStopped e s"
  then show ?thesis using LResp by (cases "toClient s") (auto simp: stranded_def link_defs)
qed (auto simp: stranded_def link_defs)

interpretation stranded: event_system notStopped linkHappen s0 "\<lambda>s. stranded s0 \<longrightarrow> stranded s"
  for s0
  by unfold_locales (auto intro: stranded_step)

lemma stranded_stays: "stranded s \<Longrightarrow> steps notStopped linkHappen s s' \<Longrightarrow> registered s' \<and> wPhase (lWrapper s') \<noteq> PhaseRunning"
  using stranded.good_reached[of s s'] by (auto simp: stranded_def)

text \<open>C38. When the server answers later than the time limit, a proxy can be stranded: the server has it registered, the client reports a start error,
  and as long as the proxy is not stopped the client never has it running again, because every further attempt is refused.\<close>

theorem late_answer_strands_proxy:
  "\<exists>s. steps linkGuard linkHappen (linkStart (NewWrapper ''me'' demo_proxy)) s \<and> toServer s = [] \<and> toClient s = [] \<and> registered s \<and>
     wPhase (lWrapper s) = PhaseStartErr \<and>
     (\<nexists>s'. steps notStopped linkHappen s s' \<and> wPhase (lWrapper s') = PhaseRunning) \<and> (\<nexists>s'. steps notStopped linkHappen s s' \<and> \<not> registered s')"
proof (intro exI conjI)
  let ?s = "fold linkHappen lateAnswers (linkStart (NewWrapper ''me'' demo_proxy))"
  have "run_ok linkGuard linkHappen lateAnswers (linkStart (NewWrapper ''me'' demo_proxy))"
    by (simp add: lateAnswers_def link_eval)
  then show "steps linkGuard linkHappen (linkStart (NewWrapper ''me'' demo_proxy)) ?s" by (rule steps_run)
  show "toServer ?s = []" "toClient ?s = []" "registered ?s" "wPhase (lWrapper ?s) = PhaseStartErr"
    by (simp_all add: lateAnswers_def link_eval)
  have "stranded ?s" by (simp add: stranded_def lateAnswers_def link_eval)
  then show "\<nexists>s'. steps notStopped linkHappen ?s s' \<and> wPhase (lWrapper s') = PhaseRunning" "\<nexists>s'. steps notStopped linkHappen ?s s' \<and> \<not> registered s'"
    using stranded_stays by blast+
qed

text \<open>With a health check no delay is needed: the answer to a request that was withdrawn when the check failed is taken for the answer to the
  next request.\<close>

definition checked_proxy :: ProxyConfigurer where
  "checked_proxy = mapBase (\<lambda>b. b\<lparr>HealthCheck := (HealthCheck b)\<lparr>hcType := ''tcp''\<rparr>, LocalIP := ''127.0.0.1''\<rparr>) demo_proxy"

lemma withdrawn_answer_taken:
  "\<exists>s. steps linkGuard linkHappen (linkStart (NewWrapper ''me'' checked_proxy)) s \<and> toServer s = [] \<and> toClient s = [] \<and>
     wPhase (lWrapper s) = PhaseRunning \<and> \<not> registered s"
proof (intro exI conjI)
  let ?es = "[LMonitor True None, LCheck 1, LMonitor False None, LCheck 2, LMonitor True None, LCheck 3, LServer '':80'' '''', LServer '''' '''',
    LServer '''' ''port used'', LResp 4 None, LResp 5 None]"
  let ?s = "fold linkHappen ?es (linkStart (NewWrapper ''me'' checked_proxy))"
  have "run_ok linkGuard linkHappen ?es (linkStart (NewWrapper ''me'' checked_proxy))" by code_simp
  then show "steps linkGuard linkHappen (linkStart (NewWrapper ''me'' checked_proxy)) ?s" by (rule steps_run)
  show "toServer ?s = []" "toClient ?s = []" "wPhase (lWrapper ?s) = PhaseRunning" "\<not> registered ?s" by code_simp+
qed

end
