(* ===== verification/Client_Visitors.thy ===== *)
theory Client_Visitors
  imports Client_Proxy
begin

text \<open>
  The visitors of the client: the manager of \<^verbatim>\<open>client/visitor/visitor_manager.go\<close> that brings the running visitors in line with a
  configuration, and its goroutine that starts again, every ten seconds, those that are configured but do not run.

  A visitor is an object with a number; the manager's map holds the objects that were started.  Whether \<^verbatim>\<open>NewVisitor\<close> and
  \<^verbatim>\<open>Run\<close> succeed is an argument: a list of answers, one per attempt.  \<^verbatim>\<open>UpdateAll\<close>, \<^verbatim>\<open>Close\<close> and one round of the goroutine
  run under the manager's lock; taking a tick and waiting for the lock are steps of their own.
\<close>

section \<open>State\<close>

record visitorObj =
  oName :: string
  oCfg :: VisitorConfigurer
  oClosed :: bool

datatype keeper = KNone | KIdle | KTick | KEnd

record clientVisitors =
  vmCfgs :: "string \<Rightarrow> VisitorConfigurer option"
  vmVisitors :: "string \<Rightarrow> nat option"
  vmObjs :: "nat \<Rightarrow> visitorObj option"
  vmNext :: nat
  vmStop :: bool
  vmKeeper :: keeper

definition newClientVisitors :: clientVisitors where
  "newClientVisitors = \<lparr>vmCfgs = Map.empty, vmVisitors = Map.empty, vmObjs = Map.empty, vmNext = 0, vmStop = False, vmKeeper = KNone\<rparr>"

section \<open>Operations\<close>

text \<open>\<^verbatim>\<open>startVisitor\<close>; \<open>ok\<close> says whether the visitor was made and its \<^verbatim>\<open>Run\<close> succeeded.\<close>

definition startVisitor :: "bool \<Rightarrow> VisitorConfigurer \<Rightarrow> clientVisitors \<Rightarrow> clientVisitors" where
  "startVisitor ok cfg vm =
     (if ok then vm\<lparr>vmVisitors := (vmVisitors vm)(visitorCfgName cfg \<mapsto> vmNext vm),
        vmObjs := (vmObjs vm)(vmNext vm \<mapsto> \<lparr>oName = visitorCfgName cfg, oCfg = cfg, oClosed = False\<rparr>), vmNext := Suc (vmNext vm)\<rparr>
      else vm)"

definition closeObj :: "nat \<Rightarrow> clientVisitors \<Rightarrow> clientVisitors" where
  "closeObj i vm = vm\<lparr>vmObjs := (vmObjs vm)(i := map_option (oClosed_update (\<lambda>_. True)) (vmObjs vm i))\<rparr>"

definition closeNamed :: "string \<Rightarrow> clientVisitors \<Rightarrow> clientVisitors" where
  "closeNamed k vm = (case vmVisitors vm k of None \<Rightarrow> vm | Some i \<Rightarrow> closeObj i vm)"

definition visitorKeyBy :: "VisitorConfigurer list \<Rightarrow> string \<Rightarrow> VisitorConfigurer option" where
  "visitorKeyBy confs = mergeEntries visitorCfgName confs Map.empty"

fun dropChanged :: "(string \<Rightarrow> VisitorConfigurer option) \<Rightarrow> string list \<Rightarrow> clientVisitors \<Rightarrow> clientVisitors" where
  "dropChanged confs [] vm = vm"
| "dropChanged confs (k # ks) vm =
     dropChanged confs ks
       (if vmCfgs vm k \<noteq> None \<and> confs k \<noteq> vmCfgs vm k then
          (closeNamed k (vm\<lparr>vmCfgs := (vmCfgs vm)(k := None)\<rparr>))\<lparr>vmVisitors := (vmVisitors vm)(k := None)\<rparr>
        else vm)"

fun addVisitors :: "bool list \<Rightarrow> VisitorConfigurer list \<Rightarrow> clientVisitors \<Rightarrow> clientVisitors" where
  "addVisitors oks [] vm = vm"
| "addVisitors oks (c # cs) vm =
     (if vmCfgs vm (visitorCfgName c) = None then
        addVisitors (tl oks) cs (startVisitor (oks \<noteq> [] \<and> hd oks) c (vm\<lparr>vmCfgs := (vmCfgs vm)(visitorCfgName c \<mapsto> c)\<rparr>))
      else addVisitors oks cs vm)"

definition VisitorUpdateAll :: "string list \<Rightarrow> bool list \<Rightarrow> VisitorConfigurer list \<Rightarrow> clientVisitors \<Rightarrow> clientVisitors" where
  "VisitorUpdateAll ks oks confs vm =
     addVisitors oks confs (dropChanged (visitorKeyBy confs) ks
       (if confs \<noteq> [] \<and> vmKeeper vm = KNone then vm\<lparr>vmKeeper := KIdle\<rparr> else vm))"

text \<open>One round of \<^verbatim>\<open>keepVisitorsRunning\<close> over the configurations.\<close>

fun keepRound :: "bool list \<Rightarrow> VisitorConfigurer list \<Rightarrow> clientVisitors \<Rightarrow> clientVisitors" where
  "keepRound oks [] vm = vm"
| "keepRound oks (c # cs) vm =
     (if vmVisitors vm (visitorCfgName c) = None then keepRound (tl oks) cs (startVisitor (oks \<noteq> [] \<and> hd oks) c vm)
      else keepRound oks cs vm)"

definition VisitorManagerClose :: "string list \<Rightarrow> clientVisitors \<Rightarrow> clientVisitors" where
  "VisitorManagerClose ks vm = (fold closeNamed ks vm)\<lparr>vmStop := True\<rparr>"

definition TransferConn :: "string \<Rightarrow> clientVisitors \<Rightarrow> nat option" where
  "TransferConn k vm = vmVisitors vm k"

definition GetVisitorCfg :: "string \<Rightarrow> clientVisitors \<Rightarrow> VisitorConfigurer option" where
  "GetVisitorCfg k vm = vmCfgs vm k"

datatype vmEvent =
    VUpdate "string list" "bool list" "VisitorConfigurer list"
  | VTick
  | VRound "string list" "bool list"
  | VLeave
  | VClose "string list"

fun vmGuard :: "vmEvent \<Rightarrow> clientVisitors \<Rightarrow> bool" where
  "vmGuard (VUpdate ks oks confs) vm \<longleftrightarrow> enumerates ks (vmCfgs vm) \<and> distinct (map visitorCfgName confs)"
| "vmGuard VTick vm \<longleftrightarrow> vmKeeper vm = KIdle"
| "vmGuard (VRound ks oks) vm \<longleftrightarrow> vmKeeper vm = KTick \<and> enumerates ks (vmCfgs vm)"
| "vmGuard VLeave vm \<longleftrightarrow> vmKeeper vm = KIdle \<and> vmStop vm"
| "vmGuard (VClose ks) vm \<longleftrightarrow> enumerates ks (vmVisitors vm)"

fun vmHappen :: "vmEvent \<Rightarrow> clientVisitors \<Rightarrow> clientVisitors" where
  "vmHappen (VUpdate ks oks confs) vm = VisitorUpdateAll ks oks confs vm"
| "vmHappen VTick vm = vm\<lparr>vmKeeper := KTick\<rparr>"
| "vmHappen (VRound ks oks) vm = (keepRound oks (valuesIn ks (vmCfgs vm)) vm)\<lparr>vmKeeper := KIdle\<rparr>"
| "vmHappen VLeave vm = vm\<lparr>vmKeeper := KEnd\<rparr>"
| "vmHappen (VClose ks) vm = VisitorManagerClose ks vm"

section \<open>Invariant\<close>

text \<open>Every visitor in the map was started with the configuration of its name; a visitor that is not in the map is closed, and
  before \<^verbatim>\<open>Close\<close> those in the map are open.\<close>

definition namedCfgs :: "clientVisitors \<Rightarrow> bool" where
  "namedCfgs vm \<longleftrightarrow> (\<forall>k c. vmCfgs vm k = Some c \<longrightarrow> visitorCfgName c = k)"

definition ownsObj :: "clientVisitors \<Rightarrow> string \<Rightarrow> visitorObj \<Rightarrow> bool" where
  "ownsObj vm k x \<longleftrightarrow> oName x = k \<and> vmCfgs vm k = Some (oCfg x) \<and> (vmStop vm \<or> \<not> oClosed x)"

definition mappedObjs :: "clientVisitors \<Rightarrow> bool" where
  "mappedObjs vm \<longleftrightarrow> (\<forall>k i. vmVisitors vm k = Some i \<longrightarrow> (\<exists>x. vmObjs vm i = Some x \<and> ownsObj vm k x))"

definition openMapped :: "clientVisitors \<Rightarrow> bool" where
  "openMapped vm \<longleftrightarrow> (\<forall>i x. vmObjs vm i = Some x \<longrightarrow> i < vmNext vm \<and> (oClosed x \<or> vmVisitors vm (oName x) = Some i))"

definition vmI :: "clientVisitors \<Rightarrow> bool" where
  "vmI vm \<longleftrightarrow> namedCfgs vm \<and> mappedObjs vm \<and> openMapped vm"

lemma mapped_obj: "vmI vm \<Longrightarrow> vmVisitors vm k = Some i \<Longrightarrow> \<exists>x. vmObjs vm i = Some x \<and> ownsObj vm k x \<and> i < vmNext vm"
  unfolding vmI_def mappedObjs_def openMapped_def by blast

lemma owner_unique: "vmI vm \<Longrightarrow> vmVisitors vm j = Some i \<Longrightarrow> vmVisitors vm k = Some i \<Longrightarrow> j = k"
  using mapped_obj[of vm j i] mapped_obj[of vm k i] by (auto simp: ownsObj_def)

lemma start_inv:
  assumes "vmI vm" "vmVisitors vm (visitorCfgName c) = None" "vmCfgs vm (visitorCfgName c) = Some c"
  shows "vmI (startVisitor ok c vm)"
proof (cases ok)
  case True
  have old: "i < vmNext vm" if "vmVisitors vm k = Some i" for k i
    using assms(1) that unfolding vmI_def mappedObjs_def openMapped_def by blast
  have "mappedObjs (startVisitor True c vm)"
    unfolding mappedObjs_def
  proof (intro allI impI)
    fix k i assume a: "vmVisitors (startVisitor True c vm) k = Some i"
    show "\<exists>x. vmObjs (startVisitor True c vm) i = Some x \<and> ownsObj (startVisitor True c vm) k x"
    proof (cases "k = visitorCfgName c")
      case False
      then have k: "vmVisitors vm k = Some i" using a by (simp add: startVisitor_def)
      then obtain x where "vmObjs vm i = Some x" "ownsObj vm k x" using assms(1) unfolding vmI_def mappedObjs_def by blast
      then show ?thesis using old[OF k] by (simp add: startVisitor_def ownsObj_def)
    qed (use a assms(3) in \<open>auto simp: startVisitor_def ownsObj_def\<close>)
  qed
  moreover have "openMapped (startVisitor True c vm)"
    using assms(1,2) by (auto simp: vmI_def openMapped_def startVisitor_def less_Suc_eq) (metis option.distinct(1))
  ultimately show ?thesis using True assms(1) by (simp add: vmI_def namedCfgs_def startVisitor_def)
qed (use assms in \<open>simp add: startVisitor_def\<close>)

definition dropOne :: "string \<Rightarrow> clientVisitors \<Rightarrow> clientVisitors" where
  "dropOne k vm = (closeNamed k (vm\<lparr>vmCfgs := (vmCfgs vm)(k := None)\<rparr>))\<lparr>vmVisitors := (vmVisitors vm)(k := None)\<rparr>"

lemma dropOne_fields:
  "vmCfgs (dropOne k vm) = (vmCfgs vm)(k := None)" "vmVisitors (dropOne k vm) = (vmVisitors vm)(k := None)"
  "vmNext (dropOne k vm) = vmNext vm" "vmStop (dropOne k vm) = vmStop vm" "vmKeeper (dropOne k vm) = vmKeeper vm"
  by (simp_all add: dropOne_def closeNamed_def closeObj_def split: option.splits)

lemma dropOne_objs:
  "vmObjs (dropOne k vm) i = (if vmVisitors vm k = Some i then map_option (oClosed_update (\<lambda>_. True)) (vmObjs vm i) else vmObjs vm i)"
  by (auto simp: dropOne_def closeNamed_def closeObj_def split: option.splits)

lemma drop_inv:
  assumes "vmI vm"
  shows "vmI (dropOne k vm)"
proof -
  have "mappedObjs (dropOne k vm)"
    unfolding mappedObjs_def
  proof (intro allI impI)
    fix k' i assume a: "vmVisitors (dropOne k vm) k' = Some i"
    then have k': "k' \<noteq> k" "vmVisitors vm k' = Some i" by (auto simp: dropOne_fields split: if_splits)
    then obtain x where x: "vmObjs vm i = Some x" "ownsObj vm k' x" using assms unfolding vmI_def mappedObjs_def by blast
    have "vmVisitors vm k \<noteq> Some i"
    proof
      assume "vmVisitors vm k = Some i"
      then obtain y where "vmObjs vm i = Some y" "ownsObj vm k y" using assms unfolding vmI_def mappedObjs_def by blast
      then show False using x k'(1) by (simp add: ownsObj_def)
    qed
    then show "\<exists>x. vmObjs (dropOne k vm) i = Some x \<and> ownsObj (dropOne k vm) k' x"
      using x k' by (auto simp: dropOne_objs dropOne_fields ownsObj_def)
  qed
  moreover have "openMapped (dropOne k vm)"
    using assms by (auto simp: vmI_def openMapped_def dropOne_fields dropOne_objs split: if_splits)
  ultimately show ?thesis using assms by (simp add: vmI_def namedCfgs_def dropOne_fields)
qed

lemma dropChanged_one:
  "dropChanged confs (k # ks) vm = dropChanged confs ks (if vmCfgs vm k \<noteq> None \<and> confs k \<noteq> vmCfgs vm k then dropOne k vm else vm)"
  by (simp add: dropOne_def)

declare dropChanged.simps(2) [simp del]

lemma dropChanged_inv: "vmI vm \<Longrightarrow> vmI (dropChanged confs ks vm)"
  by (induction ks arbitrary: vm) (auto simp: dropChanged_one drop_inv)

definition goes :: "(string \<Rightarrow> VisitorConfigurer option) \<Rightarrow> clientVisitors \<Rightarrow> string \<Rightarrow> bool" where
  "goes confs vm k \<longleftrightarrow> vmCfgs vm k \<noteq> None \<and> confs k \<noteq> vmCfgs vm k"

lemma dropChanged_cfgs: "vmCfgs (dropChanged confs ks vm) k = (if k \<in> set ks \<and> goes confs vm k then None else vmCfgs vm k)"
  by (induction ks arbitrary: vm) (auto simp: dropChanged_one goes_def dropOne_fields)

lemma dropChanged_visitors: "vmVisitors (dropChanged confs ks vm) k = (if k \<in> set ks \<and> goes confs vm k then None else vmVisitors vm k)"
  by (induction ks arbitrary: vm) (auto simp: dropChanged_one goes_def dropOne_fields)

lemma dropChanged_keeps:
  assumes "vmI vm" "vmVisitors vm k = Some i" "\<not> goes confs vm k"
  shows "vmObjs (dropChanged confs ks vm) i = vmObjs vm i"
  using assms
proof (induction ks arbitrary: vm)
  case (Cons j ks)
  have "vmVisitors vm j \<noteq> Some i" if "goes confs vm j"
  proof
    assume "vmVisitors vm j = Some i"
    then have "j = k" using owner_unique Cons.prems(1,2) by blast
    then show False using that Cons.prems(3) by simp
  qed
  then show ?case
    using Cons.IH[of "dropOne j vm"] Cons.IH[of vm] Cons.prems drop_inv[of vm j]
    by (cases "j = k") (auto simp: dropChanged_one goes_def dropOne_fields dropOne_objs)
qed simp

lemma addVisitors_inv: "vmI vm \<Longrightarrow> vmI (addVisitors oks cs vm)"
proof (induction cs arbitrary: oks vm)
  case (Cons c cs)
  have "vmI (startVisitor ok c (vm\<lparr>vmCfgs := (vmCfgs vm)(visitorCfgName c \<mapsto> c)\<rparr>))" if none: "vmCfgs vm (visitorCfgName c) = None" for ok
  proof (rule start_inv)
    have no: "vmVisitors vm (visitorCfgName c) = None"
      using mapped_obj[OF Cons.prems, of "visitorCfgName c"] none by (cases "vmVisitors vm (visitorCfgName c)") (auto simp: ownsObj_def)
    then show "vmVisitors (vm\<lparr>vmCfgs := (vmCfgs vm)(visitorCfgName c \<mapsto> c)\<rparr>) (visitorCfgName c) = None" by simp
    have "ownsObj (vm\<lparr>vmCfgs := (vmCfgs vm)(visitorCfgName c \<mapsto> c)\<rparr>) k x" if "ownsObj vm k x" "k \<noteq> visitorCfgName c" for k x
      using that by (simp add: ownsObj_def)
    then have "mappedObjs (vm\<lparr>vmCfgs := (vmCfgs vm)(visitorCfgName c \<mapsto> c)\<rparr>)"
      using Cons.prems no unfolding vmI_def mappedObjs_def by fastforce
    then show "vmI (vm\<lparr>vmCfgs := (vmCfgs vm)(visitorCfgName c \<mapsto> c)\<rparr>)"
      using Cons.prems by (auto simp: vmI_def namedCfgs_def openMapped_def)
  qed simp
  then show ?case using Cons by simp
qed simp

lemma startVisitor_cfgs [simp]: "vmCfgs (startVisitor ok c vm) = vmCfgs vm" "vmStop (startVisitor ok c vm) = vmStop vm"
  by (simp_all add: startVisitor_def)

lemma addVisitors_cfgs:
  "distinct (map visitorCfgName cs) \<Longrightarrow> vmCfgs (addVisitors oks cs vm) k =
     (case vmCfgs vm k of Some c \<Rightarrow> Some c | None \<Rightarrow> find (\<lambda>c. visitorCfgName c = k) cs)"
  by (induction cs arbitrary: oks vm) (auto simp: find_absent split: option.splits)

lemma addVisitors_keeps:
  assumes "vmI vm" "vmVisitors vm k = Some i"
  shows "vmVisitors (addVisitors oks cs vm) k = Some i \<and> vmObjs (addVisitors oks cs vm) i = vmObjs vm i"
  using assms
proof (induction cs arbitrary: oks vm)
  case (Cons c cs)
  obtain x where x: "vmObjs vm i = Some x" "ownsObj vm k x" "i < vmNext vm"
    using mapped_obj[OF Cons.prems] by blast
  show ?case
  proof (cases "vmCfgs vm (visitorCfgName c) = None")
    case True
    let ?vm = "startVisitor (oks \<noteq> [] \<and> hd oks) c (vm\<lparr>vmCfgs := (vmCfgs vm)(visitorCfgName c \<mapsto> c)\<rparr>)"
    have "k \<noteq> visitorCfgName c" using x(2) True by (auto simp: ownsObj_def)
    then have "vmVisitors ?vm k = Some i" "vmObjs ?vm i = vmObjs vm i" using Cons.prems(2) x(3) by (auto simp: startVisitor_def)
    moreover have "vmI ?vm" using addVisitors_inv[OF Cons.prems(1), of oks "[c]"] True by simp
    ultimately show ?thesis using Cons.IH[of ?vm "tl oks"] True by simp
  qed (use Cons in auto)
qed simp

lemma keepRound_inv: "vmI vm \<Longrightarrow> (\<forall>c\<in>set cs. vmCfgs vm (visitorCfgName c) = Some c) \<Longrightarrow> vmI (keepRound oks cs vm)"
  by (induction cs arbitrary: oks vm) (simp_all add: start_inv)

lemma closeNamed_fields [simp]:
  "vmCfgs (closeNamed k vm) = vmCfgs vm" "vmVisitors (closeNamed k vm) = vmVisitors vm" "vmNext (closeNamed k vm) = vmNext vm"
  "vmStop (closeNamed k vm) = vmStop vm" "vmKeeper (closeNamed k vm) = vmKeeper vm"
  by (simp_all add: closeNamed_def closeObj_def split: option.splits)

lemma close_inv:
  assumes "vmI vm"
  shows "vmI (VisitorManagerClose ks vm)"
proof -
  have "vmI (closeNamed k vm)" if vm: "vmI vm" "vmStop vm" for k vm
  proof -
    have objs: "vmObjs (closeNamed k vm) i = (if vmVisitors vm k = Some i then map_option (oClosed_update (\<lambda>_. True)) (vmObjs vm i) else vmObjs vm i)" for i
      by (auto simp: closeNamed_def closeObj_def split: option.splits)
    have "mappedObjs (closeNamed k vm)"
      unfolding mappedObjs_def
    proof (intro allI impI)
      fix k' i assume "vmVisitors (closeNamed k vm) k' = Some i"
      then obtain x where "vmObjs vm i = Some x" "ownsObj vm k' x" using mapped_obj[OF vm(1), of k' i] by auto
      then show "\<exists>x. vmObjs (closeNamed k vm) i = Some x \<and> ownsObj (closeNamed k vm) k' x"
        using vm(2) by (auto simp: objs ownsObj_def)
    qed
    moreover have "openMapped (closeNamed k vm)"
      using vm(1) by (auto simp: vmI_def openMapped_def objs split: if_splits)
    ultimately show ?thesis using vm(1) by (simp add: vmI_def namedCfgs_def)
  qed
  then have "vmI (fold closeNamed ks vm)" if "vmI vm" "vmStop vm" for vm
    using that by (induction ks arbitrary: vm) auto
  moreover have "vmI (vm\<lparr>vmStop := True\<rparr>)"
    using assms mapped_obj[OF assms] by (auto simp: vmI_def namedCfgs_def mappedObjs_def openMapped_def ownsObj_def)
  moreover have "VisitorManagerClose ks vm = fold closeNamed ks (vm\<lparr>vmStop := True\<rparr>)"
  proof -
    have "(closeNamed k vm)\<lparr>vmStop := True\<rparr> = closeNamed k (vm\<lparr>vmStop := True\<rparr>)" for k vm
      by (simp add: closeNamed_def closeObj_def split: option.splits)
    then have "(fold closeNamed ks vm)\<lparr>vmStop := True\<rparr> = fold closeNamed ks (vm\<lparr>vmStop := True\<rparr>)" for vm
      by (induction ks arbitrary: vm) auto
    then show ?thesis by (simp add: VisitorManagerClose_def)
  qed
  ultimately show ?thesis by simp
qed

lemma vm_step: "vmI vm \<Longrightarrow> vmGuard e vm \<Longrightarrow> vmI (vmHappen e vm)"
proof (cases e)
  case (VUpdate ks oks confs)
  assume "vmI vm"
  then have "vmI (vm\<lparr>vmKeeper := KIdle\<rparr>)" by (auto simp: vmI_def namedCfgs_def mappedObjs_def openMapped_def ownsObj_def)
  then show ?thesis using VUpdate \<open>vmI vm\<close> by (auto simp: VisitorUpdateAll_def intro!: addVisitors_inv dropChanged_inv)
next
  case (VRound ks oks)
  assume vm: "vmI vm" "vmGuard e vm"
  have "vmCfgs vm (visitorCfgName c) = Some c" if "c \<in> set (valuesIn ks (vmCfgs vm))" for c
    using valuesIn_live[OF that] vm(1) by (auto simp: vmI_def namedCfgs_def)
  then have "vmI (keepRound oks (valuesIn ks (vmCfgs vm)) vm)" using vm(1) by (intro keepRound_inv) auto
  then show ?thesis using VRound by (auto simp: vmI_def namedCfgs_def mappedObjs_def openMapped_def ownsObj_def)
next
  case (VClose ks)
  assume "vmI vm"
  then show ?thesis using VClose close_inv by simp
qed (auto simp: vmI_def namedCfgs_def mappedObjs_def openMapped_def ownsObj_def)

interpretation client_visitors: event_system vmGuard vmHappen newClientVisitors vmI
  by unfold_locales (simp add: vmI_def namedCfgs_def mappedObjs_def openMapped_def newClientVisitors_def, rule vm_step)

lemma visitorKeyBy_find:
  assumes "distinct (map visitorCfgName confs)"
  shows "visitorKeyBy confs k = find (\<lambda>c. visitorCfgName c = k) confs"
  using merge_find[OF assms, of Map.empty k] by (simp add: visitorKeyBy_def split: option.splits)

lemma visitorUpdate_cfgs:
  assumes "enumerates ks (vmCfgs vm)" "distinct (map visitorCfgName confs)"
  shows "vmCfgs (VisitorUpdateAll ks oks confs vm) k = find (\<lambda>c. visitorCfgName c = k) confs"
  using assms
  by (auto simp: VisitorUpdateAll_def addVisitors_cfgs dropChanged_cfgs goes_def visitorKeyBy_find enumerates_def dom_def split: option.splits)

section \<open>Properties\<close>

text \<open>C7. However updates, restarts and closing interleave: there is never more than one open visitor of a name, it has the configuration that is
  in force for the name, and it is the one in the manager's map.  An update puts the given configuration in force and leaves a visitor whose
  configuration has not changed alone.\<close>

theorem visitor_update_reconciles:
  assumes "steps vmGuard vmHappen newClientVisitors vm"
  shows "(\<forall>i x. vmObjs vm i = Some x \<longrightarrow> oClosed x \<or> vmVisitors vm (oName x) = Some i \<and> vmCfgs vm (oName x) = Some (oCfg x)) \<and>
    (\<forall>ks oks confs. vmGuard (VUpdate ks oks confs) vm \<longrightarrow>
       (let vm' = VisitorUpdateAll ks oks confs vm in
        (\<forall>k. vmCfgs vm' k = find (\<lambda>c. visitorCfgName c = k) confs) \<and>
        (\<forall>k i. vmVisitors vm k = Some i \<and> vmCfgs vm' k = vmCfgs vm k \<longrightarrow> vmVisitors vm' k = Some i \<and> vmObjs vm' i = vmObjs vm i)))"
proof -
  have inv: "vmI vm" using client_visitors.good_reached[OF assms] .
  have open1: "oClosed x \<or> vmVisitors vm (oName x) = Some i \<and> vmCfgs vm (oName x) = Some (oCfg x)" if "vmObjs vm i = Some x" for i x
    using inv that mapped_obj[OF inv, of "oName x" i] by (auto simp: vmI_def openMapped_def ownsObj_def)
  have "(\<forall>k. vmCfgs (VisitorUpdateAll ks oks confs vm) k = find (\<lambda>c. visitorCfgName c = k) confs) \<and>
      (\<forall>k i. vmVisitors vm k = Some i \<and> vmCfgs (VisitorUpdateAll ks oks confs vm) k = vmCfgs vm k \<longrightarrow>
         vmVisitors (VisitorUpdateAll ks oks confs vm) k = Some i \<and> vmObjs (VisitorUpdateAll ks oks confs vm) i = vmObjs vm i)"
    if g: "enumerates ks (vmCfgs vm)" "distinct (map visitorCfgName confs)" for ks oks confs
  proof -
    define v1 where "v1 = (if confs \<noteq> [] \<and> vmKeeper vm = KNone then vm\<lparr>vmKeeper := KIdle\<rparr> else vm)"
    define v2 where "v2 = dropChanged (visitorKeyBy confs) ks v1"
    have v1: "vmCfgs v1 = vmCfgs vm" "vmVisitors v1 = vmVisitors vm" "vmObjs v1 = vmObjs vm" by (simp_all add: v1_def)
    have i1: "vmI v1" using inv by (auto simp: v1_def vmI_def namedCfgs_def mappedObjs_def openMapped_def ownsObj_def)
    have i2: "vmI v2" using i1 by (simp add: v2_def dropChanged_inv)
    have up: "VisitorUpdateAll ks oks confs vm = addVisitors oks confs v2" by (simp add: VisitorUpdateAll_def v1_def v2_def)
    have cfgs: "vmCfgs (VisitorUpdateAll ks oks confs vm) k = find (\<lambda>c. visitorCfgName c = k) confs" for k
      using g by (rule visitorUpdate_cfgs)
    have "vmVisitors (VisitorUpdateAll ks oks confs vm) k = Some i \<and> vmObjs (VisitorUpdateAll ks oks confs vm) i = vmObjs vm i"
      if "vmVisitors vm k = Some i" "vmCfgs (VisitorUpdateAll ks oks confs vm) k = vmCfgs vm k" for k i
    proof -
      have stays: "\<not> goes (visitorKeyBy confs) v1 k" using that(2) cfgs g(2) by (simp add: goes_def v1 visitorKeyBy_find)
      then have "vmVisitors v2 k = Some i" "vmObjs v2 i = vmObjs vm i"
        using dropChanged_keeps[OF i1 _ stays] that(1) v1 by (simp_all add: v2_def dropChanged_visitors)
      then show ?thesis using addVisitors_keeps[OF i2] up by simp
    qed
    then show ?thesis using cfgs by blast
  qed
  then show ?thesis using open1 by (auto simp: Let_def)
qed

definition demo_db_visitor :: VisitorConfigurer where
  "demo_db_visitor = STCPVisitorCfg (zeroVisitorBase\<lparr>vName := ''db'', vType := ''stcp'', vServerName := ''db'', vBindPort := 5432\<rparr>)"

lemma demo_db_visitor_name [simp]: "visitorCfgName demo_db_visitor = ''db''"
  by (simp add: demo_db_visitor_def visitorCfgName_def)

lemmas vm_eval = newClientVisitors_def VisitorUpdateAll_def visitorKeyBy_def startVisitor_def VisitorManagerClose_def enumerates_def

theorem visitor_update_reconciles_witness:
  "(let vm = vmHappen (VUpdate [] [True] [demo_db_visitor]) newClientVisitors; vm' = VisitorUpdateAll [''db''] [] [demo_db_visitor] vm in
     vmVisitors vm ''db'' = Some 0 \<and> vmVisitors vm' ''db'' = Some 0 \<and> vmObjs vm' 0 = vmObjs vm 0)"
proof -
  define vm where "vm = vmHappen (VUpdate [] [True] [demo_db_visitor]) newClientVisitors"
  have "run_ok vmGuard vmHappen [VUpdate [] [True] [demo_db_visitor]] newClientVisitors" by (simp add: vm_eval)
  from steps_run[OF this] have st: "steps vmGuard vmHappen newClientVisitors vm" by (simp add: vm_def)
  have vm: "vmVisitors vm ''db'' = Some 0" "vmCfgs vm = [''db'' \<mapsto> demo_db_visitor]" by (simp_all add: vm_def vm_eval)
  have g: "vmGuard (VUpdate [''db''] [] [demo_db_visitor]) vm" by (simp add: vm enumerates_def)
  have "\<forall>k. vmCfgs (VisitorUpdateAll [''db''] [] [demo_db_visitor] vm) k = find (\<lambda>c. visitorCfgName c = k) [demo_db_visitor]"
    "\<forall>k i. vmVisitors vm k = Some i \<and> vmCfgs (VisitorUpdateAll [''db''] [] [demo_db_visitor] vm) k = vmCfgs vm k \<longrightarrow>
       vmVisitors (VisitorUpdateAll [''db''] [] [demo_db_visitor] vm) k = Some i \<and> vmObjs (VisitorUpdateAll [''db''] [] [demo_db_visitor] vm) i = vmObjs vm i"
    using visitor_update_reconciles[OF st] g unfolding Let_def by blast+
  from this(1)[rule_format, of "''db''"] this(2)[rule_format, of "''db''" 0] show ?thesis
    using vm unfolding vm_def[symmetric] Let_def by simp
qed

text \<open>The goroutine looks at \<^verbatim>\<open>stopCh\<close> before it takes the lock only: a round that waits for the lock while \<^verbatim>\<open>Close\<close> runs starts visitors in a
  closed manager, and they stay open unless \<^verbatim>\<open>Close\<close> is called again.\<close>

lemma visitor_started_after_close:
  "\<exists>vm. steps vmGuard vmHappen newClientVisitors vm \<and> vmStop vm \<and> vmKeeper vm = KEnd \<and> (\<exists>i x. vmObjs vm i = Some x \<and> \<not> oClosed x)"
proof (intro exI conjI)
  let ?es = "[VUpdate [] [False] [demo_db_visitor], VTick, VClose [], VRound [''db''] [True], VLeave]"
  let ?vm = "fold vmHappen ?es newClientVisitors"
  have "run_ok vmGuard vmHappen ?es newClientVisitors" by (simp add: vm_eval)
  then show "steps vmGuard vmHappen newClientVisitors ?vm" by (rule steps_run)
  show "vmStop ?vm" "vmKeeper ?vm = KEnd" "vmObjs ?vm 0 = Some \<lparr>oName = ''db'', oCfg = demo_db_visitor, oClosed = False\<rparr>"
    "\<not> oClosed \<lparr>oName = ''db'', oCfg = demo_db_visitor, oClosed = False\<rparr>"
    by (simp_all add: vm_eval)
qed

end
