(* ===== verification/Client_Service.thy ===== *)
theory Client_Service
  imports Client_Visitors
begin

text \<open>
  The configuration of a running client: \<^verbatim>\<open>UpdateAllConfigurer\<close>, \<^verbatim>\<open>UpdateConfigSource\<close> and
  \<^verbatim>\<open>reloadConfigFromSourcesLocked\<close> of \<^verbatim>\<open>client/service.go\<close>, \<^verbatim>\<open>UpdateAllConfigurer\<close> of \<^verbatim>\<open>client/control.go\<close>, and
  the operations of the admin API in \<^verbatim>\<open>client/config_manager.go\<close>.  They compose the store, the aggregator and the two managers.  The
  reload lock makes each of them one step; the last section takes a reload and a login apart.

  The orders in which maps are ranged over, the outcome of starting visitors, the check of annotations and the
  validation of the common configuration are arguments.
\<close>

section \<open>The service\<close>

record 'b clientService =
  svUser :: string
  svConf :: baseSource
  svStore :: "'b storeSource option"
  svAggregator :: bool
  svStart :: "string list"
  svVnetAddress :: bool
  svVnetController :: bool
  svProxyCfgs :: "ProxyConfigurer list"
  svVisitorCfgs :: "VisitorConfigurer list"
  svCtl :: "(proxyManager \<times> clientVisitors) option"

record runEnv =
  confOrders :: "string list \<times> string list"
  storeOrders :: "string list \<times> string list"
  proxyOrder :: "(string \<Rightarrow> ProxyConfigurer option) \<Rightarrow> string list"
  visitorOrder :: "(string \<Rightarrow> VisitorConfigurer option) \<Rightarrow> string list"
  managerOrders :: "string list \<times> string list"
  startResults :: "bool list"

datatype updateError = NoAggregator | LoadFailed source_error | NeedsVirtualNet | NoConfigSource | ReplaceFailed source_error | EntryMissing

datatype service_error = InvalidArgument | StoreDisabled | Conflict | NotFoundErr | StoreFailed source_error | ApplyFailed updateError

definition GetClientConfigRequirements :: "bool \<Rightarrow> ProxyConfigurer list \<Rightarrow> VisitorConfigurer list \<Rightarrow> bool" where
  "GetClientConfigRequirements vnetAddress ps vs \<longleftrightarrow> vnetAddress \<or>
     list_ex (\<lambda>c. PluginType (GetBaseConfig c) = ''virtual_net'') ps \<or> list_ex (\<lambda>c. vPluginType (visitorBase c) = ''virtual_net'') vs"

definition controlUpdateAll :: "runEnv \<Rightarrow> ProxyConfigurer list \<Rightarrow> VisitorConfigurer list \<Rightarrow> proxyManager \<times> clientVisitors \<Rightarrow> clientMsg list \<times> proxyManager \<times> clientVisitors" where
  "controlUpdateAll env ps vs ctl =
     (let vm = VisitorUpdateAll (snd (managerOrders env)) (startResults env) vs (snd ctl) in
      case ProxyUpdateAll (fst (managerOrders env)) ps (fst ctl) of (outs, gone, pm) \<Rightarrow> (outs, pm, vm))"

definition UpdateAllConfigurer :: "runEnv \<Rightarrow> ProxyConfigurer list \<Rightarrow> VisitorConfigurer list \<Rightarrow> 'b clientService \<Rightarrow> clientMsg list \<times> 'b clientService" where
  "UpdateAllConfigurer env ps vs sv =
     (let sv = sv\<lparr>svProxyCfgs := ps, svVisitorCfgs := vs\<rparr> in
      case svCtl sv of
        None \<Rightarrow> ([], sv)
      | Some ctl \<Rightarrow> (case controlUpdateAll env ps vs ctl of (outs, ctl') \<Rightarrow> (outs, sv\<lparr>svCtl := Some ctl'\<rparr>)))"

definition loadAll :: "runEnv \<Rightarrow> 'b clientService \<Rightarrow> source_error + (ProxyConfigurer list \<times> VisitorConfigurer list)" where
  "loadAll env sv = aggregatorLoad (proxyOrder env) (visitorOrder env)
     (fst (confOrders env), snd (confOrders env), svConf sv)
     (map_option (\<lambda>s. (fst (storeOrders env), snd (storeOrders env), base s)) (svStore sv))"

definition reloadConfigFromSourcesLocked :: "runEnv \<Rightarrow> 'b clientService \<Rightarrow> updateError option \<times> clientMsg list \<times> 'b clientService" where
  "reloadConfigFromSourcesLocked env sv =
     (if \<not> svAggregator sv then (Some NoAggregator, [], sv)
      else (case loadAll env sv of
         Inl e \<Rightarrow> (Some (LoadFailed e), [], sv)
       | Inr (ps, vs) \<Rightarrow>
           (case FilterClientConfigurers (svStart sv) ps vs of (ps, vs) \<Rightarrow>
              let ps = CompleteProxyConfigurers ps; vs = CompleteVisitorConfigurers vs in
              if \<not> svVnetController sv \<and> GetClientConfigRequirements (svVnetAddress sv) ps vs then (Some NeedsVirtualNet, [], sv)
              else (case UpdateAllConfigurer env ps vs sv of (outs, sv') \<Rightarrow> (None, outs, sv')))))"

text \<open>\<^verbatim>\<open>UpdateConfigSource\<close>: the new entries and the new common configuration stay even if the reload fails.  \<^verbatim>\<open>configSource\<close> and
  \<^verbatim>\<open>aggregator\<close> are set and cleared together.\<close>

definition UpdateConfigSource :: "runEnv \<Rightarrow> string list \<Rightarrow> bool \<Rightarrow> ProxyConfigurer option list \<Rightarrow> VisitorConfigurer option list \<Rightarrow> 'b clientService \<Rightarrow>
   updateError option \<times> clientMsg list \<times> 'b clientService" where
  "UpdateConfigSource env start vnetAddress ps vs sv =
     (if \<not> svAggregator sv then (Some NoConfigSource, [], sv)
      else (case ReplaceAll ps vs (svConf sv) of
         Inl e \<Rightarrow> (Some (ReplaceFailed e), [], sv)
       | Inr c \<Rightarrow> reloadConfigFromSourcesLocked env (sv\<lparr>svConf := c, svStart := start, svVnetAddress := vnetAddress\<rparr>)))"

definition ValidateAllClientConfig :: "(string \<Rightarrow> bool) \<Rightarrow> bool \<Rightarrow> ProxyConfigurer list \<Rightarrow> VisitorConfigurer list \<Rightarrow> bool" where
  "ValidateAllClientConfig annOK commonOK ps vs \<longleftrightarrow> commonOK \<and>
     list_all (\<lambda>c. ValidateProxyConfigurerForClient annOK c = None) ps \<and> list_all (\<lambda>c. ValidateVisitorConfigurer c = None) vs"

text \<open>The part of \<^verbatim>\<open>LoadClientConfigResult\<close> after parsing; \<open>parsed\<close> is None if the files cannot be read, parsed or completed.  A result is
  the list \<^verbatim>\<open>start\<close>, whether an address of the virtual network is set, the proxies and the visitors.\<close>

definition LoadClientConfigResult :: "(string list \<times> bool \<times> ProxyConfigurer list \<times> VisitorConfigurer list) option \<Rightarrow>
   (string list \<times> bool \<times> ProxyConfigurer list \<times> VisitorConfigurer list) option" where
  "LoadClientConfigResult parsed =
     (case parsed of None \<Rightarrow> None
      | Some (start, vnetAddress, ps, vs) \<Rightarrow> if validateNoDuplicateNames ps vs then parsed else None)"

definition ReloadFromFile :: "(string \<Rightarrow> bool) \<Rightarrow> bool \<Rightarrow> runEnv \<Rightarrow> string \<Rightarrow> (string list \<times> bool \<times> ProxyConfigurer list \<times> VisitorConfigurer list) option \<Rightarrow>
   'b clientService \<Rightarrow> service_error option \<times> clientMsg list \<times> 'b clientService" where
  "ReloadFromFile annOK commonOK env configFilePath parsed sv =
     (if configFilePath = '''' then (Some InvalidArgument, [], sv)
      else (case LoadClientConfigResult parsed of
        None \<Rightarrow> (Some InvalidArgument, [], sv)
      | Some (start, vnetAddress, ps, vs) \<Rightarrow>
          (case FilterClientConfigurers start ps vs of (fps, fvs) \<Rightarrow>
            if \<not> ValidateAllClientConfig annOK commonOK (CompleteProxyConfigurers fps) (CompleteVisitorConfigurers fvs) then (Some InvalidArgument, [], sv)
            else (case UpdateConfigSource env start vnetAddress (map Some ps) (map Some vs) sv of
               (e, outs, sv') \<Rightarrow> (map_option ApplyFailed e, outs, sv')))))"

section \<open>The admin API\<close>

text \<open>\<^verbatim>\<open>withStoreMutationAndReload\<close>: mutate the store, then apply.  The store keeps the change when applying fails.\<close>

definition withStoreMutationAndReload ::
  "runEnv \<Rightarrow> ('b storeSource \<Rightarrow> service_error option \<times> 'b storeSource) \<Rightarrow> 'b clientService \<Rightarrow> service_error option \<times> clientMsg list \<times> 'b clientService" where
  "withStoreMutationAndReload env fn sv =
     (case svStore sv of
        None \<Rightarrow> (Some StoreDisabled, [], sv)
      | Some st \<Rightarrow> (case fn st of
          (Some e, st') \<Rightarrow> (Some e, [], sv\<lparr>svStore := Some st'\<rparr>)
        | (None, st') \<Rightarrow> (case reloadConfigFromSourcesLocked env (sv\<lparr>svStore := Some st'\<rparr>) of
            (e, outs, sv') \<Rightarrow> (map_option ApplyFailed e, outs, sv'))))"

text \<open>The two variants return the stored entry, which they look up again after the reload.\<close>

definition thenPersisted ::
  "('b storeSource \<Rightarrow> 'c option) \<Rightarrow> service_error option \<times> clientMsg list \<times> 'b clientService \<Rightarrow> (service_error + 'c) \<times> clientMsg list \<times> 'b clientService" where
  "thenPersisted get r =
     (case r of (Some e, outs, sv) \<Rightarrow> (Inl e, outs, sv)
      | (None, outs, sv) \<Rightarrow> (case (case svStore sv of None \<Rightarrow> None | Some st \<Rightarrow> get st) of
           None \<Rightarrow> (Inl (ApplyFailed EntryMissing), outs, sv)
         | Some c \<Rightarrow> (Inr c, outs, sv)))"

definition withStoreProxyMutationAndReload where
  "withStoreProxyMutationAndReload env name fn sv = thenPersisted (GetProxy name) (withStoreMutationAndReload env fn sv)"

definition withStoreVisitorMutationAndReload where
  "withStoreVisitorMutationAndReload env name fn sv = thenPersisted (GetVisitor name) (withStoreMutationAndReload env fn sv)"

text \<open>How the operations translate the errors of the store.\<close>

definition conflictOr :: "source_error \<Rightarrow> service_error" where
  "conflictOr e = (case e of AlreadyExists n \<Rightarrow> Conflict | _ \<Rightarrow> StoreFailed e)"

definition notFoundOr :: "source_error \<Rightarrow> service_error" where
  "notFoundOr e = (case e of NotFound n \<Rightarrow> NotFoundErr | _ \<Rightarrow> StoreFailed e)"

definition validateStoreProxyConfigurer :: "(string \<Rightarrow> bool) \<Rightarrow> ProxyConfigurer option \<Rightarrow> bool" where
  "validateStoreProxyConfigurer annOK c \<longleftrightarrow> (case c of None \<Rightarrow> False | Some c \<Rightarrow> ValidateProxyConfigurerForClient annOK (completeConfigurer c) = None)"

definition validateStoreVisitorConfigurer :: "VisitorConfigurer option \<Rightarrow> bool" where
  "validateStoreVisitorConfigurer c \<longleftrightarrow> (case c of None \<Rightarrow> False | Some c \<Rightarrow> ValidateVisitorConfigurer (completeVisitor c) = None)"

definition CreateStoreProxy where
  "CreateStoreProxy annOK k senv env c sv =
     (if \<not> validateStoreProxyConfigurer annOK c then (Inl InvalidArgument, [], sv)
      else withStoreProxyMutationAndReload env (proxyCfgName (the c)) (\<lambda>st. apfst (map_option conflictOr) (AddProxy k senv c st)) sv)"

definition UpdateStoreProxy where
  "UpdateStoreProxy annOK k senv env name c sv =
     (if name = '''' then (Inl InvalidArgument, [], sv)
      else if c = None then (Inl InvalidArgument, [], sv)
      else if proxyCfgName (the c) \<noteq> name then (Inl InvalidArgument, [], sv)
      else if \<not> validateStoreProxyConfigurer annOK c then (Inl InvalidArgument, [], sv)
      else withStoreProxyMutationAndReload env name (\<lambda>st. apfst (map_option notFoundOr) (UpdateProxy k senv c st)) sv)"

definition DeleteStoreProxy where
  "DeleteStoreProxy k senv env name sv =
     (if name = '''' then (Some InvalidArgument, [], sv)
      else withStoreMutationAndReload env (\<lambda>st. apfst (map_option notFoundOr) (RemoveProxy k senv name st)) sv)"

definition CreateStoreVisitor where
  "CreateStoreVisitor k senv env c sv =
     (if \<not> validateStoreVisitorConfigurer c then (Inl InvalidArgument, [], sv)
      else withStoreVisitorMutationAndReload env (visitorCfgName (the c)) (\<lambda>st. apfst (map_option conflictOr) (AddVisitor k senv c st)) sv)"

definition UpdateStoreVisitor where
  "UpdateStoreVisitor k senv env name c sv =
     (if name = '''' then (Inl InvalidArgument, [], sv)
      else if c = None then (Inl InvalidArgument, [], sv)
      else if visitorCfgName (the c) \<noteq> name then (Inl InvalidArgument, [], sv)
      else if \<not> validateStoreVisitorConfigurer c then (Inl InvalidArgument, [], sv)
      else withStoreVisitorMutationAndReload env name (\<lambda>st. apfst (map_option notFoundOr) (UpdateVisitor k senv c st)) sv)"

definition DeleteStoreVisitor where
  "DeleteStoreVisitor k senv env name sv =
     (if name = '''' then (Some InvalidArgument, [], sv)
      else withStoreMutationAndReload env (\<lambda>st. apfst (map_option notFoundOr) (RemoveVisitor k senv name st)) sv)"

definition storeSourceOrError :: "'b clientService \<Rightarrow> service_error + 'b storeSource" where
  "storeSourceOrError sv = (case svStore sv of None \<Rightarrow> Inl StoreDisabled | Some st \<Rightarrow> Inr st)"

definition ListStoreProxies :: "string list \<Rightarrow> 'b clientService \<Rightarrow> service_error + ProxyConfigurer list" where
  "ListStoreProxies po sv = bindR (storeSourceOrError sv) (\<lambda>st. Inr (GetAllProxies po st))"

definition ListStoreVisitors :: "string list \<Rightarrow> 'b clientService \<Rightarrow> service_error + VisitorConfigurer list" where
  "ListStoreVisitors vo sv = bindR (storeSourceOrError sv) (\<lambda>st. Inr (GetAllVisitors vo st))"

definition GetStoreProxy :: "string \<Rightarrow> 'b clientService \<Rightarrow> service_error + ProxyConfigurer" where
  "GetStoreProxy name sv =
     (if name = '''' then Inl InvalidArgument
      else bindR (storeSourceOrError sv) (\<lambda>st. case GetProxy name st of None \<Rightarrow> Inl NotFoundErr | Some c \<Rightarrow> Inr c))"

definition GetStoreVisitor :: "string \<Rightarrow> 'b clientService \<Rightarrow> service_error + VisitorConfigurer" where
  "GetStoreVisitor name sv =
     (if name = '''' then Inl InvalidArgument
      else bindR (storeSourceOrError sv) (\<lambda>st. case GetVisitor name st of None \<Rightarrow> Inl NotFoundErr | Some c \<Rightarrow> Inr c))"

definition IsStoreProxyEnabled :: "string \<Rightarrow> 'b clientService \<Rightarrow> bool" where
  "IsStoreProxyEnabled name sv =
     (if name = '''' then False
      else case svStore sv of None \<Rightarrow> False
         | Some st \<Rightarrow> (case GetProxy name st of None \<Rightarrow> False | Some c \<Rightarrow> proxyEnabled c))"

text \<open>What runs has precedence over what is stored.\<close>

definition GetProxyConfig :: "string \<Rightarrow> 'b clientService \<Rightarrow> ProxyConfigurer option" where
  "GetProxyConfig name sv =
     (case (case svCtl sv of None \<Rightarrow> None | Some ctl \<Rightarrow> pmProxies (fst ctl) name) of
        Some w \<Rightarrow> Some (wCfg w)
      | None \<Rightarrow> (case svStore sv of None \<Rightarrow> None | Some st \<Rightarrow> GetProxy name st))"

definition GetVisitorConfig :: "string \<Rightarrow> 'b clientService \<Rightarrow> VisitorConfigurer option" where
  "GetVisitorConfig name sv =
     (case (case svCtl sv of None \<Rightarrow> None | Some ctl \<Rightarrow> GetVisitorCfg name (snd ctl)) of
        Some c \<Rightarrow> Some c
      | None \<Rightarrow> (case svStore sv of None \<Rightarrow> None | Some st \<Rightarrow> GetVisitor name st))"

section \<open>Making, running and stopping\<close>

text \<open>\<^verbatim>\<open>NewService\<close>, once its options are complete and the authentication is built.\<close>

definition NewService :: "runEnv \<Rightarrow> string \<Rightarrow> string list \<Rightarrow> bool \<Rightarrow> baseSource \<Rightarrow> 'b storeSource option \<Rightarrow> source_error + 'b clientService" where
  "NewService env user start vnetAddress conf st =
     (let sv = \<lparr>svUser = user, svConf = conf, svStore = st, svAggregator = True, svStart = start, svVnetAddress = vnetAddress,
        svVnetController = vnetAddress, svProxyCfgs = [], svVisitorCfgs = [], svCtl = None\<rparr> in
      bindR (loadAll env sv) (\<lambda>(ps, vs). case FilterClientConfigurers start ps vs of (ps, vs) \<Rightarrow>
        Inr (sv\<lparr>svProxyCfgs := CompleteProxyConfigurers ps, svVisitorCfgs := CompleteVisitorConfigurers vs\<rparr>)))"

text \<open>\<^verbatim>\<open>NewControl\<close> and \<^verbatim>\<open>Run\<close>: fresh managers are updated, the proxies first.\<close>

definition controlRun :: "bool list \<Rightarrow> string \<Rightarrow> ProxyConfigurer list \<Rightarrow> VisitorConfigurer list \<Rightarrow> proxyManager \<times> clientVisitors" where
  "controlRun oks user ps vs =
     (snd (snd (ProxyUpdateAll [] ps \<lparr>pmUser = user, pmProxies = Map.empty\<rparr>)), VisitorUpdateAll [] oks vs newClientVisitors)"

definition controlClose :: "string list \<times> string list \<Rightarrow> proxyManager \<times> clientVisitors \<Rightarrow> proxyManager \<times> clientVisitors" where
  "controlClose ks ctl = (snd (snd (ManagerClose (fst ks) (fst ctl))), VisitorManagerClose (snd ks) (snd ctl))"

section \<open>What runs is what is configured\<close>

definition wantedProxies :: "'b clientService \<Rightarrow> ProxyConfigurer list" where
  "wantedProxies sv = map completeConfigurer (fst (FilterClientConfigurers (svStart sv)
     (listByName (merged proxyEnabled (proxies (svConf sv)) (map_option (\<lambda>s. proxies (base s)) (svStore sv)))) []))"

definition wantedVisitors :: "'b clientService \<Rightarrow> VisitorConfigurer list" where
  "wantedVisitors sv = map completeVisitor (snd (FilterClientConfigurers (svStart sv) []
     (listByName (merged visitorEnabled (visitors (svConf sv)) (map_option (\<lambda>s. visitors (base s)) (svStore sv))))))"

text \<open>The managers of a control hold exactly these configurations.\<close>

definition runsCfgs :: "ProxyConfigurer list \<Rightarrow> VisitorConfigurer list \<Rightarrow> proxyManager \<times> clientVisitors \<Rightarrow> bool" where
  "runsCfgs ps vs ctl \<longleftrightarrow> (\<forall>k. map_option wCfg (pmProxies (fst ctl) k) = find (\<lambda>c. proxyCfgName c = k) ps \<and>
     vmCfgs (snd ctl) k = find (\<lambda>c. visitorCfgName c = k) vs)"

definition inSync :: "'b clientService \<Rightarrow> bool" where
  "inSync sv \<longleftrightarrow> svProxyCfgs sv = wantedProxies sv \<and> svVisitorCfgs sv = wantedVisitors sv \<and>
     (\<forall>ctl. svCtl sv = Some ctl \<longrightarrow> runsCfgs (svProxyCfgs sv) (svVisitorCfgs sv) ctl)"

text \<open>The orders run through the maps of the service.\<close>

definition ordersOK :: "runEnv \<Rightarrow> 'b clientService \<Rightarrow> bool" where
  "ordersOK env sv \<longleftrightarrow> iterated (fst (confOrders env)) (snd (confOrders env)) (svConf sv) \<and>
     (case svStore sv of None \<Rightarrow> True | Some s \<Rightarrow> iterated (fst (storeOrders env)) (snd (storeOrders env)) (base s)) \<and>
     (\<forall>m. finite (dom m) \<longrightarrow> enumerates (proxyOrder env m) m) \<and> (\<forall>m. finite (dom m) \<longrightarrow> enumerates (visitorOrder env m) m) \<and>
     (case svCtl sv of None \<Rightarrow> True | Some (pm, vm) \<Rightarrow>
        enumerates (fst (managerOrders env)) (pmProxies pm) \<and> enumerates (snd (managerOrders env)) (vmCfgs vm))"

lemma complete_name [simp]: "proxyCfgName (completeConfigurer c) = proxyCfgName c"
  by (cases c) (simp_all add: proxyCfgName_def completeConfigurer_def completeBase_def)

lemma complete_visitor_name [simp]: "visitorCfgName (completeVisitor c) = visitorCfgName c"
  by (cases c) (simp_all add: visitorCfgName_def completeVisitorBase_def)

lemma listByName_names: "wfMap nm m \<Longrightarrow> map nm (listByName m) = sorted_list_of_set (dom m)"
  by (auto simp: listByName_def wfMap_def comp_def intro!: map_idI)

lemma filter_fst: "fst (FilterClientConfigurers start ps vs) = filter (\<lambda>c. (start = [] \<or> proxyCfgName c \<in> set start) \<and> proxyEnabled c) ps"
  by (auto simp: FilterClientConfigurers_def Let_def intro: filter_cong)

lemma filter_snd: "snd (FilterClientConfigurers start ps vs) = filter (\<lambda>c. (start = [] \<or> visitorCfgName c \<in> set start) \<and> visitorEnabled c) vs"
  by (auto simp: FilterClientConfigurers_def Let_def intro: filter_cong)

lemma merged_wf:
  assumes "ordersOK env sv"
  shows "wfMap proxyCfgName (merged proxyEnabled (proxies (svConf sv)) (map_option (\<lambda>s. proxies (base s)) (svStore sv)))"
    "wfMap visitorCfgName (merged visitorEnabled (visitors (svConf sv)) (map_option (\<lambda>s. visitors (base s)) (svStore sv)))"
  using assms by (auto simp: ordersOK_def iterated_def wfSource_def intro!: wfMap_merged split: option.splits)

lemma loadAll_merged:
  assumes "ordersOK env sv"
  shows "loadAll env sv = Inr (listByName (merged proxyEnabled (proxies (svConf sv)) (map_option (\<lambda>s. proxies (base s)) (svStore sv))),
    listByName (merged visitorEnabled (visitors (svConf sv)) (map_option (\<lambda>s. visitors (base s)) (svStore sv))))"
proof -
  let ?P = "merged proxyEnabled (proxies (svConf sv)) (map_option (\<lambda>s. proxies (base s)) (svStore sv))"
  let ?V = "merged visitorEnabled (visitors (svConf sv)) (map_option (\<lambda>s. visitors (base s)) (svStore sv))"
  have wf: "wfMap proxyCfgName ?P" "wfMap visitorCfgName ?V" using merged_wf[OF assms] by auto
  have "mergeSources (getSourcesLocked (fst (confOrders env), snd (confOrders env), svConf sv)
      (map_option (\<lambda>s. (fst (storeOrders env), snd (storeOrders env), base s)) (svStore sv))) (Map.empty, Map.empty) = Inr (?P, ?V)"
    using assms by (auto simp: ordersOK_def getSourcesLocked_def merged_def merge_source simp del: mergeSources.simps(2) split: option.splits)
  moreover have "enumerates (proxyOrder env ?P) ?P" "enumerates (visitorOrder env ?V) ?V"
    using assms wf by (auto simp: ordersOK_def wfMap_def)
  ultimately show ?thesis
    using wf by (simp add: loadAll_def aggregatorLoad_def mapsToSortedSlices_def slice_list)
qed

lemma wanted_distinct:
  assumes "ordersOK env sv"
  shows "distinct (map proxyCfgName (wantedProxies sv))" "distinct (map visitorCfgName (wantedVisitors sv))"
proof -
  have "distinct (map nm (filter Q (listByName m)))" if "wfMap nm m" for nm Q and m :: "string \<Rightarrow> 'x option"
    using listByName_names[OF that] by (metis distinct_map_filter distinct_sorted_list_of_set)
  note this[OF merged_wf(1)[OF assms]]
  then show "distinct (map proxyCfgName (wantedProxies sv))" by (simp add: wantedProxies_def filter_fst comp_def)
next
  have "distinct (map nm (filter Q (listByName m)))" if "wfMap nm m" for nm Q and m :: "string \<Rightarrow> 'x option"
    using listByName_names[OF that] by (metis distinct_map_filter distinct_sorted_list_of_set)
  note this[OF merged_wf(2)[OF assms]]
  then show "distinct (map visitorCfgName (wantedVisitors sv))" by (simp add: wantedVisitors_def filter_snd comp_def)
qed

lemma reconciled_cfgs: "map_option wCfg (reconciled user confs m k) = find (\<lambda>c. proxyCfgName c = k) confs"
  by (auto simp: reconciled_def NewWrapper_def Let_def split: option.splits)

lemma control_update_runs:
  assumes "distinct (map proxyCfgName ps)" "distinct (map visitorCfgName vs)"
    "enumerates (fst (managerOrders env)) (pmProxies (fst ctl))" "enumerates (snd (managerOrders env)) (vmCfgs (snd ctl))"
  shows "runsCfgs ps vs (snd (controlUpdateAll env ps vs ctl))"
  using update_map[OF assms(1,3)] visitorUpdate_cfgs[OF assms(4,2)] reconciled_cfgs
  by (simp add: runsCfgs_def controlUpdateAll_def Let_def split_def)

lemma control_run_runs:
  assumes "distinct (map proxyCfgName ps)" "distinct (map visitorCfgName vs)"
  shows "runsCfgs ps vs (controlRun oks user ps vs)"
  using update_map[OF assms(1), of "[]" "\<lparr>pmUser = user, pmProxies = Map.empty\<rparr>"] visitorUpdate_cfgs[of "[]" newClientVisitors vs oks] assms(2) reconciled_cfgs
  by (simp add: runsCfgs_def controlRun_def enumerates_def newClientVisitors_def)

lemma update_in_sync:
  assumes "distinct (map proxyCfgName ps)" "distinct (map visitorCfgName vs)" "ordersOK env sv" "UpdateAllConfigurer env ps vs sv = (outs, sv')"
  shows "svProxyCfgs sv' = ps \<and> svVisitorCfgs sv' = vs \<and> svConf sv' = svConf sv \<and> svStore sv' = svStore sv \<and> svStart sv' = svStart sv \<and>
    (svCtl sv' = None \<longleftrightarrow> svCtl sv = None) \<and> (\<forall>ctl. svCtl sv' = Some ctl \<longrightarrow> runsCfgs ps vs ctl)"
proof (cases "svCtl sv")
  case None
  then show ?thesis using assms(4) by (auto simp: UpdateAllConfigurer_def)
next
  case (Some ctl)
  then have "runsCfgs ps vs (snd (controlUpdateAll env ps vs ctl))"
    using control_update_runs[OF assms(1,2)] assms(3) by (auto simp: ordersOK_def split_def)
  then show ?thesis using assms(4) Some by (auto simp: UpdateAllConfigurer_def Let_def split_def)
qed

lemma reload_in_sync:
  assumes "ordersOK env sv" "reloadConfigFromSourcesLocked env sv = (None, outs, sv')"
  shows "inSync sv' \<and> svConf sv' = svConf sv \<and> svStore sv' = svStore sv \<and> svStart sv' = svStart sv"
proof -
  obtain outs' where u: "UpdateAllConfigurer env (wantedProxies sv) (wantedVisitors sv) sv = (outs', sv')"
    using assms by (auto simp: reloadConfigFromSourcesLocked_def loadAll_merged wantedProxies_def wantedVisitors_def filter_fst filter_snd
        CompleteProxyConfigurers_def CompleteVisitorConfigurers_def split_def Let_def split: if_splits)
  note up = update_in_sync[OF wanted_distinct[OF assms(1)] assms(1) u]
  then have "wantedProxies sv' = wantedProxies sv" "wantedVisitors sv' = wantedVisitors sv" by (simp_all add: wantedProxies_def wantedVisitors_def)
  then show ?thesis using up by (auto simp: inSync_def)
qed

lemma reload_fails:
  "reloadConfigFromSourcesLocked env sv = (Some e, outs, sv') \<Longrightarrow> sv' = sv \<and> outs = []"
  by (auto simp: reloadConfigFromSourcesLocked_def split_def Let_def split: sum.splits if_splits)

section \<open>The API changes the store and what runs together\<close>

datatype apiOp =
    CreateProxyReq "ProxyConfigurer option" | UpdateProxyReq string "ProxyConfigurer option" | DeleteProxyReq string
  | CreateVisitorReq "VisitorConfigurer option" | UpdateVisitorReq string "VisitorConfigurer option" | DeleteVisitorReq string

definition errOnly :: "('e + 'c) \<times> 'x \<Rightarrow> 'e option \<times> 'x" where
  "errOnly r = (case fst r of Inl e \<Rightarrow> (Some e, snd r) | Inr _ \<Rightarrow> (None, snd r))"

fun apiDo :: "(string \<Rightarrow> bool) \<Rightarrow> ('b, 'r) storeCodec \<Rightarrow> saveEnv \<Rightarrow> runEnv \<Rightarrow> apiOp \<Rightarrow> 'b clientService \<Rightarrow> service_error option \<times> clientMsg list \<times> 'b clientService" where
  "apiDo annOK k senv env (CreateProxyReq c) sv = errOnly (CreateStoreProxy annOK k senv env c sv)"
| "apiDo annOK k senv env (UpdateProxyReq n c) sv = errOnly (UpdateStoreProxy annOK k senv env n c sv)"
| "apiDo annOK k senv env (DeleteProxyReq n) sv = DeleteStoreProxy k senv env n sv"
| "apiDo annOK k senv env (CreateVisitorReq c) sv = errOnly (CreateStoreVisitor k senv env c sv)"
| "apiDo annOK k senv env (UpdateVisitorReq n c) sv = errOnly (UpdateStoreVisitor k senv env n c sv)"
| "apiDo annOK k senv env (DeleteVisitorReq n) sv = DeleteStoreVisitor k senv env n sv"

fun opOf :: "apiOp \<Rightarrow> storeOp" where
  "opOf (CreateProxyReq c) = AddProxyOp c"
| "opOf (UpdateProxyReq n c) = UpdateProxyOp c"
| "opOf (DeleteProxyReq n) = RemoveProxyOp n"
| "opOf (CreateVisitorReq c) = AddVisitorOp c"
| "opOf (UpdateVisitorReq n c) = UpdateVisitorOp c"
| "opOf (DeleteVisitorReq n) = RemoveVisitorOp n"

definition applied :: "('b, 'r) storeCodec \<Rightarrow> storeOp \<Rightarrow> 'b clientService \<Rightarrow> 'b storeSource \<Rightarrow> service_error option \<Rightarrow> 'b clientService \<Rightarrow> bool" where
  "applied k op sv st r sv' \<longleftrightarrow> (\<exists>st'. svStore sv' = Some st' \<and> storeOK k st' \<and>
     (case r of
        None \<Rightarrow> specOp op (base st) = Inr (base st') \<and> inSync sv'
      | Some (ApplyFailed e) \<Rightarrow> specOp op (base st) = Inr (base st') \<and> e \<in> {NoAggregator, NeedsVirtualNet} \<and> sv' = sv\<lparr>svStore := Some st'\<rparr>
      | Some _ \<Rightarrow> base st' = base st \<and> sv' = sv\<lparr>svStore := Some st'\<rparr>))"

lemma rejected [simp]: "svStore sv = Some st \<Longrightarrow> storeOK k st \<Longrightarrow> applied k op sv st (Some InvalidArgument) sv"
  by (auto simp: applied_def)

lemma reload_error:
  assumes "ordersOK env sv" "reloadConfigFromSourcesLocked env sv = (Some e, outs, sv')"
  shows "e \<in> {NoAggregator, NeedsVirtualNet}"
  using assms by (auto simp: reloadConfigFromSourcesLocked_def loadAll_merged split_def Let_def split: if_splits)

lemma mutation_applied:
  assumes "codecOK k" "svStore sv = Some st" "storeOK k st" "ordersFor senv op (base st)"
    "ordersOK env (sv\<lparr>svStore := Some (snd (storeDo k senv op st))\<rparr>)" "\<forall>e e'. f e \<noteq> ApplyFailed e'"
    "withStoreMutationAndReload env (\<lambda>st. apfst (map_option f) (storeDo k senv op st)) sv = (r, outs, sv')"
  shows "applied k op sv st r sv'"
proof -
  obtain r1 st' where do: "storeDo k senv op st = (r1, st')" by (cases "storeDo k senv op st")
  note res = store_result[OF assms(1,3,4) do]
  show ?thesis
  proof (cases r1)
    case (Some e)
    then have "r = Some (f e)" "sv' = sv\<lparr>svStore := Some st'\<rparr>" using assms(2,7) do by (auto simp: withStoreMutationAndReload_def)
    then show ?thesis using res(1) res(3)[OF Some] assms(6) by (auto simp: applied_def split: service_error.splits)
  next
    case None
    obtain e where rl: "reloadConfigFromSourcesLocked env (sv\<lparr>svStore := Some st'\<rparr>) = (e, outs, sv')" and r: "r = map_option ApplyFailed e"
      using assms(2,7) do None by (auto simp: withStoreMutationAndReload_def split: prod.splits)
    have ok: "ordersOK env (sv\<lparr>svStore := Some st'\<rparr>)" using assms(5) do by simp
    show ?thesis
    proof (cases e)
      case N: None
      then show ?thesis using reload_in_sync[OF ok] rl r res(1) res(2)[OF None] by (auto simp: applied_def)
    next
      case (Some e')
      then show ?thesis using reload_fails reload_error[OF ok] rl r res(1) res(2)[OF None] by (fastforce simp: applied_def)
    qed
  qed
qed

lemma no_apply: "\<forall>e e'. conflictOr e \<noteq> ApplyFailed e'" "\<forall>e e'. notFoundOr e \<noteq> ApplyFailed e'"
  by (auto simp: conflictOr_def notFoundOr_def split: source_error.splits)

lemma persisted_applied:
  assumes "applied k op sv st (fst r) (snd (snd r))"
    "\<And>st'. specOp op (base st) = Inr (base st') \<Longrightarrow> get st' \<noteq> None"
  shows "applied k op sv st (fst (errOnly (thenPersisted get r))) (snd (snd r)) \<and> snd (snd (thenPersisted get r)) = snd (snd r)"
  using assms by (cases r; cases "fst r") (auto simp: thenPersisted_def errOnly_def applied_def split: option.splits)

lemma mutation_persisted:
  assumes "codecOK k" "svStore sv = Some st" "storeOK k st" "ordersFor senv op (base st)"
    "ordersOK env (sv\<lparr>svStore := Some (snd (storeDo k senv op st))\<rparr>)" "\<forall>e e'. f e \<noteq> ApplyFailed e'"
    "\<And>st'. specOp op (base st) = Inr (base st') \<Longrightarrow> get st' \<noteq> None"
    "errOnly (thenPersisted get (withStoreMutationAndReload env (\<lambda>st. apfst (map_option f) (storeDo k senv op st)) sv)) = (r, outs, sv')"
  shows "applied k op sv st r sv'"
proof -
  let ?m = "withStoreMutationAndReload env (\<lambda>st. apfst (map_option f) (storeDo k senv op st)) sv"
  have "applied k op sv st (fst ?m) (snd (snd ?m))" by (rule mutation_applied[OF assms(1-6), of _ "fst (snd ?m)"]) simp
  from persisted_applied[OF this, of get] assms(7,8) show ?thesis
    by (cases "fst (thenPersisted get ?m)") (auto simp: errOnly_def)
qed

lemma errOnly_Inl [simp]: "errOnly (Inl e, x) = (Some e, x)"
  by (simp add: errOnly_def)

lemma stored_entry:
  "specAdd nm c m = Inr m' \<Longrightarrow> m' (nm (the c)) = c \<and> c \<noteq> None"
  "specUpdate nm c m = Inr m' \<Longrightarrow> m' (nm (the c)) = c \<and> c \<noteq> None"
  by (auto simp: specAdd_def specUpdate_def bindR_eq_Inr validateName_def split: option.splits if_splits)

lemma persisted_get:
  "specOp (AddProxyOp c) b = Inr (base st') \<Longrightarrow> GetProxy (proxyCfgName (the c)) st' \<noteq> None"
  "specOp (UpdateProxyOp c) b = Inr (base st') \<Longrightarrow> GetProxy (proxyCfgName (the c)) st' \<noteq> None"
  "specOp (AddVisitorOp v) b = Inr (base st') \<Longrightarrow> GetVisitor (visitorCfgName (the v)) st' \<noteq> None"
  "specOp (UpdateVisitorOp v) b = Inr (base st') \<Longrightarrow> GetVisitor (visitorCfgName (the v)) st' \<noteq> None"
  by (auto simp: GetProxy_def GetVisitor_def bindR_eq_Inr dest!: stored_entry sym[of _ "base st'"])

text \<open>C5. Every operation of the store API changes the store and what runs together.  If it succeeds, the store holds exactly the change asked for, on disk too,
  and the client runs precisely the enabled and selected entries of the file and the store, completed.  If applying is refused (the service is stopping, or a virtual network would
  be needed), the store keeps the change and what runs is untouched.  On any other error neither the entries nor what runs change.  The error of an entry that is missing after it was written never occurs.\<close>

theorem store_api_applies:
  assumes "codecOK k" "svStore sv = Some st" "storeOK k st" "ordersFor senv (opOf a) (base st)"
    "ordersOK env (sv\<lparr>svStore := Some (snd (storeDo k senv (opOf a) st))\<rparr>)"
    "apiDo annOK k senv env a sv = (r, outs, sv')"
  shows "\<exists>st'. svStore sv' = Some st' \<and> storeOK k st' \<and>
    (case r of
       None \<Rightarrow> specOp (opOf a) (base st) = Inr (base st') \<and> inSync sv'
     | Some (ApplyFailed e) \<Rightarrow> specOp (opOf a) (base st) = Inr (base st') \<and> e \<in> {NoAggregator, NeedsVirtualNet} \<and> sv' = sv\<lparr>svStore := Some st'\<rparr>
     | Some _ \<Rightarrow> base st' = base st \<and> sv' = sv\<lparr>svStore := Some st'\<rparr>)"
proof -
  note plain = mutation_applied[OF assms(1-5) no_apply(2)] and stored = mutation_persisted[OF assms(1-5) no_apply(1)] mutation_persisted[OF assms(1-5) no_apply(2)]
  note rej = rejected[OF assms(2,3)]
  have "applied k (opOf a) sv st r sv'"
  proof (cases a)
    case (CreateProxyReq c)
    then show ?thesis using assms(6) rej stored(1)[of "GetProxy (proxyCfgName (the c))"] persisted_get(1)[of c "base st"]
      by (auto simp: CreateStoreProxy_def withStoreProxyMutationAndReload_def simp del: specOp.simps split: if_splits)
  next
    case (UpdateProxyReq n c)
    then show ?thesis using assms(6) rej stored(2)[of "GetProxy (proxyCfgName (the c))"] persisted_get(2)[of c "base st"]
      by (auto simp: UpdateStoreProxy_def withStoreProxyMutationAndReload_def simp del: specOp.simps split: if_splits)
  next
    case (DeleteProxyReq n)
    then show ?thesis using assms(6) rej plain by (auto simp: DeleteStoreProxy_def split: if_splits)
  next
    case (CreateVisitorReq c)
    then show ?thesis using assms(6) rej stored(1)[of "GetVisitor (visitorCfgName (the c))"] persisted_get(3)[of c "base st"]
      by (auto simp: CreateStoreVisitor_def withStoreVisitorMutationAndReload_def simp del: specOp.simps split: if_splits)
  next
    case (UpdateVisitorReq n c)
    then show ?thesis using assms(6) rej stored(2)[of "GetVisitor (visitorCfgName (the c))"] persisted_get(4)[of c "base st"]
      by (auto simp: UpdateStoreVisitor_def withStoreVisitorMutationAndReload_def simp del: specOp.simps split: if_splits)
  next
    case (DeleteVisitorReq n)
    then show ?thesis using assms(6) rej plain by (auto simp: DeleteStoreVisitor_def split: if_splits)
  qed
  then show ?thesis by (simp only: applied_def)
qed

definition demo_env :: runEnv where
  "demo_env = \<lparr>confOrders = ([], []), storeOrders = ([''web''], []), proxyOrder = (\<lambda>m. sorted_list_of_set (dom m)),
     visitorOrder = (\<lambda>m. sorted_list_of_set (dom m)), managerOrders = ([], []), startResults = []\<rparr>"

definition demo_service :: "(ProxyConfigurer list \<times> VisitorConfigurer list) clientService" where
  "demo_service = \<lparr>svUser = [], svConf = newBaseSource, svStore = Some demo_store, svAggregator = True, svStart = [], svVnetAddress = False,
     svVnetController = True, svProxyCfgs = [], svVisitorCfgs = [], svCtl = Some (\<lparr>pmUser = [], pmProxies = Map.empty\<rparr>, newClientVisitors)\<rparr>"

lemma demo_env_ok:
  "ordersOK demo_env (demo_service\<lparr>svStore := Some (snd (storeDo demo_codec (NoFault, [''web''], []) (AddProxyOp (Some demo_proxy)) demo_store))\<rparr>)"
  by (auto simp: ordersOK_def demo_env_def demo_service_def iterated_def wfSource_def wfMap_def enumerates_def store_eval newClientVisitors_def)

lemma demo_added: "fst (storeDo demo_codec (NoFault, [''web''], []) (AddProxyOp (Some demo_proxy)) demo_store) = None"
  by (simp add: store_eval)

lemma demo_valid: "validateStoreProxyConfigurer (\<lambda>_. True) (Some demo_proxy)"
  unfolding validateStoreProxyConfigurer_def option.case by code_simp

lemma reload_runs:
  "ordersOK env sv \<Longrightarrow> svAggregator sv \<Longrightarrow> svVnetController sv \<Longrightarrow> fst (reloadConfigFromSourcesLocked env sv) = None"
  by (simp add: reloadConfigFromSourcesLocked_def loadAll_merged split_def Let_def)

lemma demo_created:
  "fst (apiDo (\<lambda>_. True) demo_codec (NoFault, [''web''], []) demo_env (CreateProxyReq (Some demo_proxy)) demo_service) = None"
proof -
  obtain st' where st: "AddProxy demo_codec (NoFault, [''web''], []) (Some demo_proxy) demo_store = (None, st')"
    using demo_added by (metis prod.collapse storeDo.simps(1))
  have g: "GetProxy (proxyCfgName demo_proxy) st' \<noteq> None" using st by (auto simp: GetProxy_def store_eval)
  have ok: "ordersOK demo_env (demo_service\<lparr>svStore := Some st'\<rparr>)" using demo_env_ok st by simp
  have "fst (reloadConfigFromSourcesLocked demo_env (demo_service\<lparr>svStore := Some st'\<rparr>)) = None"
    by (rule reload_runs[OF ok]) (simp_all add: demo_service_def)
  then obtain outs sv' where rl: "reloadConfigFromSourcesLocked demo_env (demo_service\<lparr>svStore := Some st'\<rparr>) = (None, outs, sv')"
    by (metis prod.collapse)
  have "svStore sv' = Some st'" using reload_in_sync[OF ok rl] by simp
  moreover have "svStore demo_service = Some demo_store" by (simp add: demo_service_def)
  ultimately show ?thesis using rl st g demo_valid
    by (auto simp: CreateStoreProxy_def withStoreProxyMutationAndReload_def withStoreMutationAndReload_def thenPersisted_def errOnly_def)
qed

theorem store_api_applies_witness:
  "(let (r, outs, sv') = apiDo (\<lambda>_. True) demo_codec (NoFault, [''web''], []) demo_env (CreateProxyReq (Some demo_proxy)) demo_service in
     r = None \<and> inSync sv' \<and> GetStoreProxy ''web'' sv' = Inr demo_proxy)"
proof -
  define res where "res = apiDo (\<lambda>_. True) demo_codec (NoFault, [''web''], []) demo_env (CreateProxyReq (Some demo_proxy)) demo_service"
  have "svStore demo_service = Some demo_store" by (simp add: demo_service_def)
  moreover have "ordersFor (NoFault, [''web''], []) (opOf (CreateProxyReq (Some demo_proxy))) (base demo_store)" using demo_orders by simp
  moreover have "ordersOK demo_env (demo_service\<lparr>svStore := Some (snd (storeDo demo_codec (NoFault, [''web''], []) (opOf (CreateProxyReq (Some demo_proxy))) demo_store))\<rparr>)"
    using demo_env_ok by simp
  moreover have "apiDo (\<lambda>_. True) demo_codec (NoFault, [''web''], []) demo_env (CreateProxyReq (Some demo_proxy)) demo_service = (fst res, fst (snd res), snd (snd res))"
    by (simp add: res_def)
  moreover have none: "fst res = None" using demo_created by (simp add: res_def)
  ultimately obtain st' where st: "svStore (snd (snd res)) = Some st'" "inSync (snd (snd res))"
    "specOp (AddProxyOp (Some demo_proxy)) (base demo_store) = Inr (base st')"
    using store_api_applies[OF demo_codec_ok _ demo_store_ok] by fastforce
  have "GetProxy ''web'' st' = Some demo_proxy"
    using st(3) by (auto simp: GetProxy_def specAdd_def store_eval dest!: sym[of _ "base st'"])
  then show ?thesis using none st unfolding res_def[symmetric] by (simp add: split_def GetStoreProxy_def storeSourceOrError_def)
qed

section \<open>Login, update and stop as they interleave\<close>

text \<open>A login reads the configurations under \<^verbatim>\<open>cfgMu\<close>, makes and runs a control, and publishes it under \<^verbatim>\<open>ctlMu\<close>.  An update stores the
  configurations under \<^verbatim>\<open>cfgMu\<close>, looks at the control under \<^verbatim>\<open>ctlMu\<close>, and then reads the field \<^verbatim>\<open>svr.ctl\<close> once more, without a lock, to
  apply them.  The flag of an update says whether its caller holds \<^verbatim>\<open>reloadMu\<close>: a reload does, \<^verbatim>\<open>UpdateProxyConfigurer\<close> of the virtual
  client does not.  A stop clears the sources under \<^verbatim>\<open>reloadMu\<close> and then closes and clears the control under \<^verbatim>\<open>ctlMu\<close>.\<close>

datatype loginPc = LoginIdle | LoginRead "ProxyConfigurer list" "VisitorConfigurer list" | LoginRan "proxyManager \<times> clientVisitors"

datatype updatePc = UpdateIdle | UpdateStored bool "ProxyConfigurer list" "VisitorConfigurer list" | UpdateFound bool "ProxyConfigurer list" "VisitorConfigurer list"

datatype stopPc = NotStopped | SourcesCleared | Stopped

record 'b liveService =
  service :: "'b clientService"
  loginAt :: loginPc
  updateAt :: updatePc
  stopAt :: stopPc
  retired :: "(proxyManager \<times> clientVisitors) list"
  nilDeref :: bool

datatype liveEvent =
    ReadCfgs
  | RunControl "bool list"
  | PublishControl "string list \<times> string list"
  | StoreCfgs bool "ProxyConfigurer list" "VisitorConfigurer list"
  | FindControl
  | ApplyCfgs runEnv
  | ClearSources
  | ClearControl "string list \<times> string list"

fun holdsReload :: "updatePc \<Rightarrow> bool" where
  "holdsReload UpdateIdle = False"
| "holdsReload (UpdateStored locked ps vs) = locked"
| "holdsReload (UpdateFound locked ps vs) = locked"

fun liveGuard :: "liveEvent \<Rightarrow> 'b liveService \<Rightarrow> bool" where
  "liveGuard ReadCfgs s \<longleftrightarrow> loginAt s = LoginIdle"
| "liveGuard (RunControl oks) s \<longleftrightarrow> (case loginAt s of LoginRead ps vs \<Rightarrow> True | _ \<Rightarrow> False)"
| "liveGuard (PublishControl ks) s \<longleftrightarrow> (case loginAt s of LoginRan ctl \<Rightarrow> True | _ \<Rightarrow> False)"
| "liveGuard (StoreCfgs locked ps vs) s \<longleftrightarrow> updateAt s = UpdateIdle \<and> distinct (map proxyCfgName ps) \<and> distinct (map visitorCfgName vs) \<and>
     (if locked then svAggregator (service s) else True)"
| "liveGuard FindControl s \<longleftrightarrow> (case updateAt s of UpdateStored locked ps vs \<Rightarrow> True | _ \<Rightarrow> False)"
| "liveGuard (ApplyCfgs env) s \<longleftrightarrow> (case updateAt s of UpdateFound locked ps vs \<Rightarrow>
     (case svCtl (service s) of None \<Rightarrow> True
      | Some ctl \<Rightarrow> enumerates (fst (managerOrders env)) (pmProxies (fst ctl)) \<and> enumerates (snd (managerOrders env)) (vmCfgs (snd ctl))) | _ \<Rightarrow> False)"
| "liveGuard ClearSources s \<longleftrightarrow> stopAt s = NotStopped \<and> \<not> holdsReload (updateAt s)"
| "liveGuard (ClearControl ks) s \<longleftrightarrow> stopAt s = SourcesCleared"

definition retireControl :: "string list \<times> string list \<Rightarrow> 'b liveService \<Rightarrow> 'b liveService" where
  "retireControl ks s = (case svCtl (service s) of None \<Rightarrow> s | Some ctl \<Rightarrow> s\<lparr>retired := controlClose ks ctl # retired s\<rparr>)"

fun liveHappen :: "liveEvent \<Rightarrow> 'b liveService \<Rightarrow> 'b liveService" where
  "liveHappen ReadCfgs s = s\<lparr>loginAt := LoginRead (svProxyCfgs (service s)) (svVisitorCfgs (service s))\<rparr>"
| "liveHappen (RunControl oks) s = (case loginAt s of LoginRead ps vs \<Rightarrow> s\<lparr>loginAt := LoginRan (controlRun oks (svUser (service s)) ps vs)\<rparr> | _ \<Rightarrow> s)"
| "liveHappen (PublishControl ks) s = (case loginAt s of
     LoginRan ctl \<Rightarrow> (retireControl ks s)\<lparr>service := (service s)\<lparr>svCtl := Some ctl\<rparr>, loginAt := LoginIdle\<rparr> | _ \<Rightarrow> s)"
| "liveHappen (StoreCfgs locked ps vs) s =
     s\<lparr>service := (service s)\<lparr>svProxyCfgs := ps, svVisitorCfgs := vs\<rparr>, updateAt := UpdateStored locked ps vs\<rparr>"
| "liveHappen FindControl s = (case updateAt s of
     UpdateStored locked ps vs \<Rightarrow> s\<lparr>updateAt := (if svCtl (service s) = None then UpdateIdle else UpdateFound locked ps vs)\<rparr> | _ \<Rightarrow> s)"
| "liveHappen (ApplyCfgs env) s = (case updateAt s of
     UpdateFound locked ps vs \<Rightarrow> (case svCtl (service s) of
       None \<Rightarrow> s\<lparr>updateAt := UpdateIdle, nilDeref := True\<rparr>
     | Some ctl \<Rightarrow> s\<lparr>service := (service s)\<lparr>svCtl := Some (snd (controlUpdateAll env ps vs ctl))\<rparr>, updateAt := UpdateIdle\<rparr>) | _ \<Rightarrow> s)"
| "liveHappen ClearSources s = s\<lparr>service := (service s)\<lparr>svAggregator := False, svStore := None\<rparr>, stopAt := SourcesCleared\<rparr>"
| "liveHappen (ClearControl ks) s =
     (retireControl ks s)\<lparr>service := (service s)\<lparr>svCtl := None, svVnetController := False\<rparr>, stopAt := Stopped\<rparr>"

definition liveStart :: "'b clientService \<Rightarrow> 'b liveService" where
  "liveStart sv = \<lparr>service = sv\<lparr>svAggregator := True, svCtl := None\<rparr>, loginAt = LoginIdle, updateAt = UpdateIdle, stopAt = NotStopped, retired = [], nilDeref = False\<rparr>"

text \<open>An update that nothing interrupts is \<^const>\<open>UpdateAllConfigurer\<close>.\<close>

lemma update_uninterrupted:
  assumes "updateAt s = UpdateIdle"
  shows "service (fold liveHappen [StoreCfgs locked ps vs, FindControl, ApplyCfgs env] s) = snd (UpdateAllConfigurer env ps vs (service s))"
  using assms by (cases "svCtl (service s)") (auto simp: UpdateAllConfigurer_def Let_def split_def)

subsection \<open>A reload never meets a cleared control\<close>

fun lockedOnly :: "liveEvent \<Rightarrow> 'b liveService \<Rightarrow> bool" where
  "lockedOnly (StoreCfgs locked ps vs) s \<longleftrightarrow> locked \<and> liveGuard (StoreCfgs locked ps vs) s"
| "lockedOnly e s \<longleftrightarrow> liveGuard e s"

fun foundOK :: "updatePc \<Rightarrow> bool \<Rightarrow> bool" where
  "foundOK (UpdateFound locked ps vs) present = present"
| "foundOK u present = True"

definition reloadI :: "'b liveService \<Rightarrow> bool" where
  "reloadI s \<longleftrightarrow> \<not> nilDeref s \<and> foundOK (updateAt s) (svCtl (service s) \<noteq> None) \<and>
     (updateAt s = UpdateIdle \<or> holdsReload (updateAt s) \<and> stopAt s = NotStopped) \<and> (stopAt s = NotStopped \<longleftrightarrow> svAggregator (service s))"

lemma retireControl_fields [simp]:
  "service (retireControl ks s) = service s" "loginAt (retireControl ks s) = loginAt s" "updateAt (retireControl ks s) = updateAt s"
  "stopAt (retireControl ks s) = stopAt s" "nilDeref (retireControl ks s) = nilDeref s"
  by (simp_all add: retireControl_def split: option.splits)

lemma reload_step: "reloadI s \<Longrightarrow> lockedOnly e s \<Longrightarrow> reloadI (liveHappen e s)"
  by (cases e; cases "updateAt s") (auto simp: reloadI_def split: loginPc.splits option.splits)

interpretation reloads: event_system lockedOnly liveHappen "liveStart sv" reloadI
  for sv
  by unfold_locales (simp add: reloadI_def liveStart_def, rule reload_step)

text \<open>A reload never applies its configuration to a control that a stop has cleared: however logins, reloads and a stop interleave, the field that
  \<^verbatim>\<open>UpdateAllConfigurer\<close> reads again without a lock still holds a control when it was found to hold one, because a stop waits for \<^verbatim>\<open>reloadMu\<close> first and a
  reload that comes later finds no aggregator.\<close>

theorem reload_finds_control:
  assumes "steps lockedOnly liveHappen (liveStart sv) s"
  shows "\<not> nilDeref s \<and> foundOK (updateAt s) (svCtl (service s) \<noteq> None)"
  using reloads.good_reached[OF assms] by (simp add: reloadI_def)

theorem reload_finds_control_witness:
  "(let s = fold liveHappen [ReadCfgs, RunControl [], PublishControl ([], []), StoreCfgs True [demo_proxy] [], FindControl] (liveStart demo_service) in
     updateAt s = UpdateFound True [demo_proxy] [] \<and> \<not> nilDeref s \<and> svCtl (service s) \<noteq> None)"
proof -
  define es where "es = [ReadCfgs, RunControl [], PublishControl ([], []), StoreCfgs True [demo_proxy] [], FindControl]"
  have "run_ok lockedOnly liveHappen es (liveStart demo_service)"
    "updateAt (fold liveHappen es (liveStart demo_service)) = UpdateFound True [demo_proxy] []" by (simp_all add: es_def liveStart_def)
  note es = this
  from reload_finds_control[OF steps_run[OF es(1)]] show ?thesis unfolding es_def[symmetric] Let_def es(2) foundOK.simps by blast
qed

text \<open>A caller without \<^verbatim>\<open>reloadMu\<close> has no such protection.\<close>

lemma unlocked_update_nil:
  "\<exists>s. steps liveGuard liveHappen (liveStart demo_service) s \<and> nilDeref s"
proof (intro exI conjI)
  let ?es = "[ReadCfgs, RunControl [], PublishControl ([], []), StoreCfgs False [demo_proxy] [], FindControl, ClearSources, ClearControl ([], []), ApplyCfgs demo_env]"
  have "run_ok liveGuard liveHappen ?es (liveStart demo_service)" by (simp add: liveStart_def)
  then show "steps liveGuard liveHappen (liveStart demo_service) (fold liveHappen ?es (liveStart demo_service))" by (rule steps_run)
  show "nilDeref (fold liveHappen ?es (liveStart demo_service))" by (simp add: liveStart_def)
qed

text \<open>A login that is past its dial publishes its control after a stop, and nothing closes that control any more.\<close>

lemma login_after_stop:
  "\<exists>s. steps lockedOnly liveHappen (liveStart demo_service) s \<and> stopAt s = Stopped \<and> loginAt s = LoginIdle \<and> svCtl (service s) \<noteq> None"
proof (intro exI conjI)
  let ?es = "[ReadCfgs, RunControl [], ClearSources, ClearControl ([], []), PublishControl ([], [])]"
  have "run_ok lockedOnly liveHappen ?es (liveStart demo_service)" by (simp add: liveStart_def)
  then show "steps lockedOnly liveHappen (liveStart demo_service) (fold liveHappen ?es (liveStart demo_service))" by (rule steps_run)
  show "stopAt (fold liveHappen ?es (liveStart demo_service)) = Stopped" "loginAt (fold liveHappen ?es (liveStart demo_service)) = LoginIdle"
    "svCtl (service (fold liveHappen ?es (liveStart demo_service))) \<noteq> None" by (simp_all add: liveStart_def)
qed

subsection \<open>Logins and updates one after the other\<close>

fun apart :: "liveEvent \<Rightarrow> 'b liveService \<Rightarrow> bool" where
  "apart (StoreCfgs locked ps vs) s \<longleftrightarrow> loginAt s = LoginIdle \<and> liveGuard (StoreCfgs locked ps vs) s"
| "apart ReadCfgs s \<longleftrightarrow> updateAt s = UpdateIdle \<and> liveGuard ReadCfgs s"
| "apart e s \<longleftrightarrow> liveGuard e s"

definition distinctCfgs :: "'b clientService \<Rightarrow> bool" where
  "distinctCfgs sv \<longleftrightarrow> distinct (map proxyCfgName (svProxyCfgs sv)) \<and> distinct (map visitorCfgName (svVisitorCfgs sv))"

fun loginFresh :: "ProxyConfigurer list \<Rightarrow> VisitorConfigurer list \<Rightarrow> loginPc \<Rightarrow> bool" where
  "loginFresh ps vs LoginIdle = True"
| "loginFresh ps vs (LoginRead ps' vs') \<longleftrightarrow> ps' = ps \<and> vs' = vs"
| "loginFresh ps vs (LoginRan ctl) \<longleftrightarrow> runsCfgs ps vs ctl"

fun updateFresh :: "ProxyConfigurer list \<Rightarrow> VisitorConfigurer list \<Rightarrow> updatePc \<Rightarrow> bool" where
  "updateFresh ps vs UpdateIdle = True"
| "updateFresh ps vs (UpdateStored locked ps' vs') \<longleftrightarrow> ps' = ps \<and> vs' = vs"
| "updateFresh ps vs (UpdateFound locked ps' vs') \<longleftrightarrow> ps' = ps \<and> vs' = vs"

definition serialI :: "'b liveService \<Rightarrow> bool" where
  "serialI s \<longleftrightarrow> distinctCfgs (service s) \<and> (loginAt s = LoginIdle \<or> updateAt s = UpdateIdle) \<and>
     loginFresh (svProxyCfgs (service s)) (svVisitorCfgs (service s)) (loginAt s) \<and>
     updateFresh (svProxyCfgs (service s)) (svVisitorCfgs (service s)) (updateAt s) \<and>
     (updateAt s = UpdateIdle \<longrightarrow> (\<forall>ctl. svCtl (service s) = Some ctl \<longrightarrow> runsCfgs (svProxyCfgs (service s)) (svVisitorCfgs (service s)) ctl))"

lemma serial_step:
  assumes "serialI s" "apart e s"
  shows "serialI (liveHappen e s)"
proof (cases e)
  case (ApplyCfgs env)
  then obtain l where u: "updateAt s = UpdateFound l (svProxyCfgs (service s)) (svVisitorCfgs (service s))"
    using assms by (cases "updateAt s") (auto simp: serialI_def)
  show ?thesis
  proof (cases "svCtl (service s)")
    case None
    then show ?thesis using assms u ApplyCfgs by (simp add: serialI_def distinctCfgs_def)
  next
    case (Some ctl)
    then have "runsCfgs (svProxyCfgs (service s)) (svVisitorCfgs (service s))
        (snd (controlUpdateAll env (svProxyCfgs (service s)) (svVisitorCfgs (service s)) ctl))"
      using assms u ApplyCfgs by (intro control_update_runs) (auto simp: serialI_def distinctCfgs_def)
    then show ?thesis using assms u ApplyCfgs Some by (simp add: serialI_def distinctCfgs_def)
  qed
next
  case (RunControl oks)
  then show ?thesis using assms control_run_runs[of "svProxyCfgs (service s)" "svVisitorCfgs (service s)" oks]
    by (cases "loginAt s") (auto simp: serialI_def distinctCfgs_def)
next
  case (PublishControl ks)
  then show ?thesis using assms by (cases "loginAt s") (auto simp: serialI_def distinctCfgs_def)
next
  case FindControl
  then show ?thesis using assms by (cases "updateAt s") (auto simp: serialI_def distinctCfgs_def)
qed (use assms in \<open>auto simp: serialI_def distinctCfgs_def\<close>)

interpretation serial: event_system apart liveHappen "liveStart sv" "\<lambda>s. distinctCfgs sv \<longrightarrow> serialI s"
  for sv
  by unfold_locales (simp add: serialI_def liveStart_def distinctCfgs_def, blast intro: serial_step)


lemma demo_distinct: "distinctCfgs demo_service"
  by (simp add: distinctCfgs_def demo_service_def)



section \<open>The session of a control\<close>

text \<open>The handlers of \<^verbatim>\<open>client/control.go\<close> for pongs and requested work connections, and the turn of the heartbeat check, which runs every second.\<close>

record clientSession =
  lastPongAt :: int
  sessionOpen :: bool
  sessionProxies :: proxyManager

definition closeSession :: "clientSession \<Rightarrow> clientSession" where
  "closeSession s = s\<lparr>sessionOpen := False\<rparr>"

definition handlePong :: "int \<Rightarrow> string \<Rightarrow> clientSession \<Rightarrow> clientSession" where
  "handlePong clock err s = (if err \<noteq> '''' then closeSession s else s\<lparr>lastPongAt := clock\<rparr>)"

definition heartbeatTurn :: "int \<Rightarrow> int \<Rightarrow> int \<Rightarrow> clientSession \<Rightarrow> clientSession" where
  "heartbeatTurn interval timeout clock s =
     (if interval > 0 \<and> timeout > 0 \<and> clock - lastPongAt s > timeout * 1000000000 then closeSession s else s)"

datatype workConnEnd = NoWorkConn | WorkConnClosed | WorkConnServed string

text \<open>\<^verbatim>\<open>handleReqWorkConn\<close>: the outcome of dialing, of authenticating, of writing, and the answer (its error and the name of the proxy).\<close>

definition handleReqWorkConn :: "bool \<Rightarrow> bool \<Rightarrow> bool \<Rightarrow> (string \<times> string) option \<Rightarrow> clientSession \<Rightarrow> workConnEnd" where
  "handleReqWorkConn dialed authed written answer s =
     (if \<not> dialed then NoWorkConn
      else if \<not> authed then WorkConnClosed
      else if \<not> written then WorkConnClosed
      else (case answer of
         None \<Rightarrow> WorkConnClosed
       | Some (err, name) \<Rightarrow>
           if err \<noteq> '''' then WorkConnClosed
           else (let name = StripUserPrefix (pmUser (sessionProxies s)) name in
             if HandleWorkConn name (sessionProxies s) then WorkConnServed name else WorkConnClosed)))"

lemma heartbeat_frame: "lastPongAt (heartbeatTurn i t c s) = lastPongAt s"
  by (simp add: heartbeatTurn_def closeSession_def)

text \<open>A silent server is given up at the first check after the timeout, and not before.\<close>

lemma heartbeat_closes:
  assumes "interval > 0" "timeout > 0" "sessionOpen s"
  shows "sessionOpen (fold (heartbeatTurn interval timeout) clocks s) \<longleftrightarrow> (\<forall>c \<in> set clocks. c - lastPongAt s \<le> timeout * 1000000000)"
proof -
  have "sessionOpen (fold (heartbeatTurn interval timeout) clocks s) \<longleftrightarrow> sessionOpen s \<and> (\<forall>c \<in> set clocks. c - lastPongAt s \<le> timeout * 1000000000)" for s
    using assms(1,2) by (induction clocks arbitrary: s) (auto simp: heartbeat_frame, auto simp: heartbeatTurn_def closeSession_def split: if_splits)
  then show ?thesis using assms(3) by simp
qed

text \<open>A dialed work connection is served by the running proxy it was requested for, or closed.\<close>

lemma work_conn_served:
  "handleReqWorkConn dialed authed written answer s = WorkConnServed name \<longleftrightarrow>
     dialed \<and> authed \<and> written \<and> (\<exists>n. answer = Some ('''', n) \<and> name = StripUserPrefix (pmUser (sessionProxies s)) n) \<and>
     HandleWorkConn name (sessionProxies s)"
  by (auto simp: handleReqWorkConn_def Let_def split: option.splits if_splits)

end
