(* ===== verification/Control_Manager.thy ===== *)
theory Control_Manager
  imports Client_Registry
begin

text \<open>
  The control manager and the control lifecycle of \<^verbatim>\<open>server/control.go\<close>, with the login
  sequence of \<^verbatim>\<open>server/service.go\<close> that drives them.

  Controls are shared by pointer, so they live in a store and are named by their address.  Every
  manager method decides and acts while it holds the run gate of its run id (and \<^verbatim>\<open>cm.mu\<close> or
  \<^verbatim>\<open>lifecycleMu\<close> where it writes), so a method is one step; the worker of a control is several
  steps, with other goroutines in between.  Channels that are closed count their closings, because
  a second \<^verbatim>\<open>close\<close> would panic.
\<close>

section \<open>Data\<close>

datatype controlState = Created | Pending | Running | Closing | Closed

text \<open>Where a control's worker is: not started, reading messages, stopped (connection ended),
  its pool and proxies closed, removed from the manager, finished.\<close>

datatype worker_pc = WNone | WServing | WStopped | WDrained | WRemoved | WDone

text \<open>Where the login goroutine of a control is: before \<^verbatim>\<open>Add\<close>, waiting for the predecessor, past it.\<close>

datatype login_pc = LNew | LWaiting | LPassed

record control =
  cLogin :: registration
  controlID :: "64 word"
  cstate :: controlState
  activated :: bool
  handoffBarrier :: "nat option"
  doneCloses :: nat
  workConnCh :: "nat list"
  workConnCap :: nat
  workConnChCloses :: nat
  connClosed :: bool
  worker :: worker_pc
  login :: login_pc

definition runID :: "control \<Rightarrow> string" where "runID c = rRunID (cLogin c)"

record controlEntry =
  ectl :: nat
  eid :: "64 word"
  registryOnline :: bool
  registryControlID :: "64 word"

record ControlManager =
  ctls :: "control list"
  ctlsByRunID :: "string \<rightharpoonup> controlEntry"
  registry :: Client_Registry.registry
  mclosed :: bool
  nextControlID :: "64 word"

datatype cm_error = ManagerClosed | NotCreated | AlreadyOnline | NotCurrent | NotRunning | PoolFull | WriteFailed

definition ctl :: "ControlManager \<Rightarrow> nat \<Rightarrow> control" where
  "ctl s a = ctls s ! a"

definition upd :: "nat \<Rightarrow> (control \<Rightarrow> control) \<Rightarrow> ControlManager \<Rightarrow> ControlManager" where
  "upd a f s = s\<lparr>ctls := (ctls s)[a := f (ctls s ! a)]\<rparr>"

section \<open>Lifecycle of one control\<close>

definition workConnPoolCapacityOffset :: nat where "workConnPoolCapacityOffset = 10"

definition NewControl :: "registration \<Rightarrow> nat \<Rightarrow> control" where
  "NewControl l poolCount =
     \<lparr>cLogin = l, controlID = 0, cstate = Created, activated = False, handoffBarrier = None, doneCloses = 0,
      workConnCh = [], workConnCap = poolCount + workConnPoolCapacityOffset, workConnChCloses = 0,
      connClosed = False, worker = WNone, login = LNew\<rparr>"

definition admit :: "64 word \<Rightarrow> control \<Rightarrow> control option" where
  "admit i c = (if cstate c \<noteq> Created then None else Some (c\<lparr>controlID := i, cstate := Pending\<rparr>))"

definition finishLocked :: "control \<Rightarrow> control" where
  "finishLocked c = (if cstate c = Closed then c else c\<lparr>cstate := Closed, doneCloses := doneCloses c + 1\<rparr>)"

definition startLocked :: "control \<Rightarrow> control option" where
  "startLocked c =
     (if cstate c \<noteq> Pending \<or> \<not> activated c then None else Some (c\<lparr>cstate := Running, worker := WServing\<rparr>))"

definition interruptReadAndClose :: "control \<Rightarrow> control" where
  "interruptReadAndClose c = c\<lparr>connClosed := True\<rparr>"

text \<open>The barrier is the address of the control whose \<^verbatim>\<open>doneCh\<close> it is.\<close>

definition markReplaced :: "nat \<Rightarrow> control \<Rightarrow> nat option \<times> control" where
  "markReplaced a c =
     (case cstate c of
        Created \<Rightarrow> (None, finishLocked (c\<lparr>cstate := Closing\<rparr>))
      | Pending \<Rightarrow> (handoffBarrier c, finishLocked (c\<lparr>cstate := Closing\<rparr>))
      | Running \<Rightarrow> (Some a, c\<lparr>cstate := Closing\<rparr>)
      | _ \<Rightarrow> (Some a, c))"

definition Replaced :: "nat \<Rightarrow> control \<Rightarrow> control" where
  "Replaced a c = interruptReadAndClose (snd (markReplaced a c))"

definition CloseControl :: "control \<Rightarrow> control" where
  "CloseControl c =
     interruptReadAndClose
       (case cstate c of
          Created \<Rightarrow> finishLocked (c\<lparr>cstate := Closing\<rparr>)
        | Pending \<Rightarrow> finishLocked (c\<lparr>cstate := Closing\<rparr>)
        | Running \<Rightarrow> c\<lparr>cstate := Closing\<rparr>
        | _ \<Rightarrow> c)"

section \<open>Manager operations\<close>

definition NewControlManager :: ControlManager where
  "NewControlManager =
     \<lparr>ctls = [], ctlsByRunID = Map.empty, registry = NewClientRegistry, mclosed = False, nextControlID = 0\<rparr>"

text \<open>The entry a method acts on: the current one of its run id, if the method may still run.\<close>

definition lockCurrentRun :: "string \<Rightarrow> bool \<Rightarrow> ControlManager \<Rightarrow> controlEntry option" where
  "lockCurrentRun rid allowClosed s = (if mclosed s \<and> \<not> allowClosed then None else ctlsByRunID s rid)"

definition Add :: "nat \<Rightarrow> ControlManager \<Rightarrow> (cm_error + unit) \<times> ControlManager" where
  "Add a s =
     (if mclosed s then (Inl ManagerClosed, s)
      else
        let rid = runID (ctl s a); old = ctlsByRunID s rid; i = nextControlID s + 1; s1 = s\<lparr>nextControlID := i\<rparr> in
        (case admit i (ctl s a) of
           None \<Rightarrow> (Inl NotCreated, s1)
         | Some c \<Rightarrow>
             let s2 = upd a (\<lambda>_. c\<lparr>login := LWaiting\<rparr>) s1 in
             (case old of
                None \<Rightarrow>
                  (Inr (), s2\<lparr>ctlsByRunID := (ctlsByRunID s2)(rid \<mapsto>
                     \<lparr>ectl = a, eid = i, registryOnline = False, registryControlID = 0\<rparr>)\<rparr>)
              | Some e \<Rightarrow>
                  let (barrier, oldc) = markReplaced (ectl e) (ctl s2 (ectl e));
                      s3 = upd (ectl e) (\<lambda>_. oldc) s2;
                      s4 = upd a (\<lambda>c. c\<lparr>handoffBarrier := barrier\<rparr>) s3;
                      s5 = s4\<lparr>ctlsByRunID := (ctlsByRunID s4)(rid \<mapsto>
                             \<lparr>ectl = a, eid = i, registryOnline = registryOnline e,
                              registryControlID = registryControlID e\<rparr>)\<rparr>
                  in (Inr (), upd (ectl e) (Replaced (ectl e)) s5))))"

definition WaitForHandoff :: "nat \<Rightarrow> ControlManager \<Rightarrow> ControlManager" where
  "WaitForHandoff a s = upd a (\<lambda>c. c\<lparr>login := LPassed\<rparr>) s"

text \<open>Whether the wait can end: no barrier, or the barrier's channel is closed.\<close>

definition handoffDone :: "nat \<Rightarrow> ControlManager \<Rightarrow> bool" where
  "handoffDone a s = (case handoffBarrier (ctl s a) of None \<Rightarrow> True | Some b \<Rightarrow> doneCloses (ctl s b) > 0)"

definition current :: "nat \<Rightarrow> controlEntry \<Rightarrow> ControlManager \<Rightarrow> bool" where
  "current a e s \<longleftrightarrow> ectl e = a \<and> eid e = controlID (ctl s a)"

definition Activate :: "int \<Rightarrow> nat \<Rightarrow> ControlManager \<Rightarrow> (cm_error + bool) \<times> ControlManager" where
  "Activate now a s =
     (case lockCurrentRun (runID (ctl s a)) False s of
        None \<Rightarrow> (Inr False, s)
      | Some e \<Rightarrow>
          if \<not> current a e s then (Inr False, s)
          else if cstate (ctl s a) \<noteq> Pending then (Inr False, s)
          else if activated (ctl s a) then (Inr True, s)
          else
            let ((_, conflict), reg) =
              RegisterWithControlID now ((cLogin (ctl s a))\<lparr>rControlID := eid e\<rparr>) (registry s) in
            if conflict then (Inl AlreadyOnline, s\<lparr>registry := reg\<rparr>)
            else (Inr True,
                  upd a (\<lambda>c. c\<lparr>activated := True\<rparr>)
                    (s\<lparr>registry := reg,
                       ctlsByRunID := (ctlsByRunID s)(runID (ctl s a) \<mapsto>
                         e\<lparr>registryOnline := True, registryControlID := eid e\<rparr>)\<rparr>)))"

definition completeLogin :: "nat \<Rightarrow> bool \<Rightarrow> ControlManager \<Rightarrow> (cm_error + bool) \<times> ControlManager" where
  "completeLogin a writeOk s =
     (case lockCurrentRun (runID (ctl s a)) False s of
        None \<Rightarrow> (Inr False, s)
      | Some e \<Rightarrow>
          if \<not> current a e s then (Inr False, s)
          else if cstate (ctl s a) \<noteq> Pending \<or> \<not> activated (ctl s a) then (Inr False, s)
          else if \<not> writeOk then (Inl WriteFailed, s)
          else (case startLocked (ctl s a) of
                  None \<Rightarrow> (Inr False, s)
                | Some c \<Rightarrow> (Inr True, upd a (\<lambda>_. c) s)))"

definition Remove :: "int \<Rightarrow> nat \<Rightarrow> ControlManager \<Rightarrow> bool \<times> ControlManager" where
  "Remove now a s =
     (case lockCurrentRun (runID (ctl s a)) True s of
        None \<Rightarrow> (False, s)
      | Some e \<Rightarrow>
          if \<not> current a e s then (False, s)
          else
            let s1 = s\<lparr>ctlsByRunID := (ctlsByRunID s)(runID (ctl s a) := None)\<rparr> in
            (True,
             if registryOnline e
             then s1\<lparr>registry := MarkOfflineByRunIDAndControlID now (runID (ctl s a)) (registryControlID e) (registry s1)\<rparr>
             else s1))"

definition GetByID :: "string \<Rightarrow> ControlManager \<Rightarrow> nat option" where
  "GetByID rid s =
     (case lockCurrentRun rid False s of
        None \<Rightarrow> None
      | Some e \<Rightarrow> if cstate (ctl s (ectl e)) \<noteq> Running then None else Some (ectl e))"

definition admitVisitorByRunID :: "string \<Rightarrow> ControlManager \<Rightarrow> registration option" where
  "admitVisitorByRunID rid s =
     (case lockCurrentRun rid False s of
        None \<Rightarrow> None
      | Some e \<Rightarrow> if cstate (ctl s (ectl e)) \<noteq> Running then None else Some (cLogin (ctl s (ectl e))))"

definition RegisterWorkConn :: "nat \<Rightarrow> nat \<Rightarrow> ControlManager \<Rightarrow> (cm_error + unit) \<times> ControlManager" where
  "RegisterWorkConn a conn s =
     (case lockCurrentRun (runID (ctl s a)) False s of
        None \<Rightarrow> (Inl (if mclosed s then ManagerClosed else NotCurrent), s)
      | Some e \<Rightarrow>
          if \<not> current a e s then (Inl NotCurrent, s)
          else if cstate (ctl s a) \<noteq> Running then (Inl NotRunning, s)
          else if length (workConnCh (ctl s a)) < workConnCap (ctl s a)
            then (Inr (), upd a (\<lambda>c. c\<lparr>workConnCh := workConnCh c @ [conn]\<rparr>) s)
          else (Inl PoolFull, s))"

text \<open>Taking a pooled work connection, as \<^verbatim>\<open>GetWorkConn\<close> does first.\<close>

definition takeWorkConn :: "nat \<Rightarrow> ControlManager \<Rightarrow> nat option \<times> ControlManager" where
  "takeWorkConn a s =
     (case workConnCh (ctl s a) of
        [] \<Rightarrow> (None, s)
      | w # ws \<Rightarrow> (Some w, upd a (\<lambda>c. c\<lparr>workConnCh := ws\<rparr>) s))"

section \<open>The worker\<close>

definition workerStop :: "control \<Rightarrow> control" where
  "workerStop c =
     interruptReadAndClose
       ((if cstate c = Running then c\<lparr>cstate := Closing\<rparr> else c)\<lparr>worker := WStopped\<rparr>)"

definition workerDrain :: "control \<Rightarrow> control" where
  "workerDrain c = c\<lparr>workConnChCloses := workConnChCloses c + 1, workConnCh := [], worker := WDrained\<rparr>"

definition workerFinish :: "control \<Rightarrow> control" where
  "workerFinish c = (finishLocked c)\<lparr>worker := WDone\<rparr>"

section \<open>Executions\<close>

datatype event =
    ENew registration nat
  | EAdd nat
  | EWait nat
  | EActivate int nat
  | ELogin nat bool
  | EClose nat
  | ERemove int nat
  | EWorkConn nat nat
  | ETake nat
  | EWorkerStop nat
  | EWorkerDrain nat
  | EWorkerRemove int nat
  | EWorkerFinish nat
  | ECloseManager

text \<open>
  What the callers' code guarantees of each call.  The login goroutine adds, waits, activates and
  completes in this order; it removes and closes a control only after the wait; a running control
  is removed only by its worker or when the manager closes.
\<close>

fun enabled :: "event \<Rightarrow> ControlManager \<Rightarrow> bool" where
  "enabled (ENew l n) s \<longleftrightarrow> True"
| "enabled (EAdd a) s \<longleftrightarrow> a < length (ctls s) \<and> login (ctl s a) = LNew"
| "enabled (EWait a) s \<longleftrightarrow> a < length (ctls s) \<and> login (ctl s a) = LWaiting \<and> handoffDone a s"
| "enabled (EActivate now a) s \<longleftrightarrow> a < length (ctls s) \<and> login (ctl s a) = LPassed"
| "enabled (ELogin a ok) s \<longleftrightarrow> a < length (ctls s) \<and> login (ctl s a) = LPassed"
| "enabled (EClose a) s \<longleftrightarrow> a < length (ctls s) \<and> (login (ctl s a) \<noteq> LWaiting \<or> mclosed s)"
| "enabled (ERemove now a) s \<longleftrightarrow>
     a < length (ctls s) \<and> (mclosed s \<or> login (ctl s a) \<noteq> LWaiting \<and> worker (ctl s a) = WNone)"
| "enabled (EWorkConn a conn) s \<longleftrightarrow> a < length (ctls s)"
| "enabled (ETake a) s \<longleftrightarrow> a < length (ctls s)"
| "enabled (EWorkerStop a) s \<longleftrightarrow> a < length (ctls s) \<and> worker (ctl s a) = WServing"
| "enabled (EWorkerDrain a) s \<longleftrightarrow> a < length (ctls s) \<and> worker (ctl s a) = WStopped"
| "enabled (EWorkerRemove now a) s \<longleftrightarrow> a < length (ctls s) \<and> worker (ctl s a) = WDrained"
| "enabled (EWorkerFinish a) s \<longleftrightarrow> a < length (ctls s) \<and> worker (ctl s a) = WRemoved"
| "enabled ECloseManager s \<longleftrightarrow> True"

fun happen :: "event \<Rightarrow> ControlManager \<Rightarrow> ControlManager" where
  "happen (ENew l n) s = s\<lparr>ctls := ctls s @ [NewControl l n]\<rparr>"
| "happen (EAdd a) s = snd (Add a s)"
| "happen (EWait a) s = WaitForHandoff a s"
| "happen (EActivate now a) s = snd (Activate now a s)"
| "happen (ELogin a ok) s = snd (completeLogin a ok s)"
| "happen (EClose a) s = upd a CloseControl s"
| "happen (ERemove now a) s = snd (Remove now a s)"
| "happen (EWorkConn a conn) s = snd (RegisterWorkConn a conn s)"
| "happen (ETake a) s = snd (takeWorkConn a s)"
| "happen (EWorkerStop a) s = upd a workerStop s"
| "happen (EWorkerDrain a) s = upd a workerDrain s"
| "happen (EWorkerRemove now a) s = upd a (\<lambda>c. c\<lparr>worker := WRemoved\<rparr>) (snd (Remove now a s))"
| "happen (EWorkerFinish a) s = upd a workerFinish s"
| "happen ECloseManager s = s\<lparr>mclosed := True\<rparr>"

inductive reachable :: "ControlManager \<Rightarrow> bool" where
  init: "reachable NewControlManager"
| step: "reachable s \<Longrightarrow> enabled ev s \<Longrightarrow> reachable (happen ev s)"

section \<open>Invariant\<close>

lemma ctl_upd [simp]: "a < length (ctls s) \<Longrightarrow> ctl (upd a f s) b = (if b = a then f (ctl s a) else ctl s b)"
  by (simp add: ctl_def upd_def)

lemma upd_fields [simp]:
  "length (ctls (upd a f s)) = length (ctls s)" "ctlsByRunID (upd a f s) = ctlsByRunID s"
  "mclosed (upd a f s) = mclosed s" "registry (upd a f s) = registry s"
  "nextControlID (upd a f s) = nextControlID s"
  by (simp_all add: upd_def)

lemma ctl_other [simp]:
  "ctl (s\<lparr>nextControlID := i\<rparr>) a = ctl s a" "ctl (s\<lparr>ctlsByRunID := m\<rparr>) a = ctl s a"
  "ctl (s\<lparr>registry := r\<rparr>) a = ctl s a" "ctl (s\<lparr>mclosed := b\<rparr>) a = ctl s a"
  by (simp_all add: ctl_def)

text \<open>What holds of each control by itself.\<close>

definition cinv :: "control \<Rightarrow> bool" where
  "cinv c \<longleftrightarrow>
     doneCloses c = (if cstate c = Closed then 1 else 0) \<and>
     workConnChCloses c = (if worker c \<in> {WDrained, WRemoved, WDone} then 1 else 0) \<and>
     (case cstate c of
        Created \<Rightarrow> worker c = WNone \<and> login c = LNew
      | Pending \<Rightarrow> worker c = WNone \<and> login c \<noteq> LNew
      | Running \<Rightarrow> worker c = WServing
      | Closing \<Rightarrow> worker c \<in> {WServing, WStopped, WDrained, WRemoved}
      | Closed \<Rightarrow> worker c \<in> {WNone, WDone}) \<and>
     (worker c \<noteq> WNone \<longrightarrow> login c = LPassed) \<and>
     length (workConnCh c) \<le> workConnCap c \<and>
     (worker c \<in> {WDrained, WRemoved, WDone} \<longrightarrow> workConnCh c = [])"

text \<open>A worker that still owns work connections or proxies, or its place in the manager.\<close>

definition live :: "control \<Rightarrow> bool" where
  "live c \<longleftrightarrow> worker c \<in> {WServing, WStopped, WDrained}"

definition entries_ok :: "ControlManager \<Rightarrow> bool" where
  "entries_ok s \<longleftrightarrow>
     (\<forall>r e. ctlsByRunID s r = Some e \<longrightarrow>
        ectl e < length (ctls s) \<and> runID (ctl s (ectl e)) = r \<and> login (ctl s (ectl e)) \<noteq> LNew \<and>
        eid e = controlID (ctl s (ectl e)) \<and>
        (login (ctl s (ectl e)) = LWaiting \<longrightarrow> \<not> mclosed s \<longrightarrow> cstate (ctl s (ectl e)) = Pending))"

text \<open>A live worker is that of the current control, or the current control waits for it.\<close>

definition handoff_ok :: "ControlManager \<Rightarrow> bool" where
  "handoff_ok s \<longleftrightarrow>
     (\<forall>b < length (ctls s). live (ctl s b) \<longrightarrow> \<not> mclosed s \<longrightarrow>
        (\<exists>e. ctlsByRunID s (runID (ctl s b)) = Some e \<and>
             (ectl e = b \<or> login (ctl s (ectl e)) = LWaiting \<and> handoffBarrier (ctl s (ectl e)) = Some b)))"

definition single_worker :: "ControlManager \<Rightarrow> bool" where
  "single_worker s \<longleftrightarrow>
     (\<forall>b < length (ctls s). \<forall>b' < length (ctls s).
        live (ctl s b) \<longrightarrow> live (ctl s b') \<longrightarrow> runID (ctl s b) = runID (ctl s b') \<longrightarrow> b = b')"

definition sinv :: "ControlManager \<Rightarrow> bool" where
  "sinv s \<longleftrightarrow>
     (\<forall>a < length (ctls s). cinv (ctl s a)) \<and> entries_ok s \<and> handoff_ok s \<and> single_worker s \<and> linked (registry s)"

lemma sinvD:
  assumes "sinv s"
  shows "a < length (ctls s) \<Longrightarrow> cinv (ctl s a)" "entries_ok s" "handoff_ok s" "single_worker s" "linked (registry s)"
  using assms unfolding sinv_def by blast+

lemma entryD:
  assumes "sinv s" "ctlsByRunID s r = Some e"
  shows "ectl e < length (ctls s)" "runID (ctl s (ectl e)) = r" "login (ctl s (ectl e)) \<noteq> LNew"
    "eid e = controlID (ctl s (ectl e))"
    "login (ctl s (ectl e)) = LWaiting \<Longrightarrow> \<not> mclosed s \<Longrightarrow> cstate (ctl s (ectl e)) = Pending"
  using sinvD(2) [OF assms(1)] assms(2) unfolding entries_ok_def by blast+

text \<open>
  A change of one control that neither starts a worker nor changes its identity, its place in the
  login sequence or a barrier keeps the invariant, given that the control itself is fine after it.
\<close>

lemma sinv_upd:
  assumes "sinv s" "a < length (ctls s)" "cinv (f (ctl s a))"
    and "runID (f (ctl s a)) = runID (ctl s a)" "controlID (f (ctl s a)) = controlID (ctl s a)"
    and "login (f (ctl s a)) = login (ctl s a)" "handoffBarrier (f (ctl s a)) = handoffBarrier (ctl s a)"
    and "live (f (ctl s a)) \<longrightarrow> live (ctl s a)"
    and "login (ctl s a) = LWaiting \<and> \<not> mclosed s \<longrightarrow> cstate (ctl s a) \<noteq> Pending \<or> cstate (f (ctl s a)) = Pending"
  shows "sinv (upd a f s)"
proof -
  have "entries_ok (upd a f s)"
    using sinvD(2) [OF assms(1)] assms(2,4,5,6,9) unfolding entries_ok_def by auto
  moreover have "handoff_ok (upd a f s)"
    using sinvD(3) [OF assms(1)] assms(2,4,6,7,8) unfolding handoff_ok_def by auto
  moreover have "single_worker (upd a f s)"
    using sinvD(4) [OF assms(1)] assms(2,4,8) unfolding single_worker_def by auto
  ultimately show ?thesis using assms(1-3) unfolding sinv_def by auto
qed

lemma sinv_init: "sinv NewControlManager"
  by (simp add: sinv_def NewControlManager_def entries_ok_def handoff_ok_def single_worker_def linked_New)

lemma sinv_New:
  assumes "sinv s" shows "sinv (s\<lparr>ctls := ctls s @ [NewControl l n]\<rparr>)" (is "sinv ?s")
proof -
  let ?n = "length (ctls s)"
  have old: "ctl ?s b = ctl s b" if "b < ?n" for b using that by (simp add: ctl_def nth_append)
  have new: "ctl ?s ?n = NewControl l n" by (simp add: ctl_def)
  have nl: "\<not> live (NewControl l n)" by (simp add: live_def NewControl_def)
  have cn: "cinv (NewControl l n)" by (simp add: cinv_def NewControl_def)
  have "cinv (ctl ?s a)" if "a < length (ctls ?s)" for a
  proof (cases "a < ?n")
    case True
    with sinvD(1) [OF assms] old show ?thesis by simp
  next
    case False
    with that have "a = ?n" by simp
    with new cn show ?thesis by simp
  qed
  moreover have "entries_ok ?s"
    using sinvD(2) [OF assms] old unfolding entries_ok_def by (auto simp: less_Suc_eq)
  moreover have "handoff_ok ?s"
    unfolding handoff_ok_def
  proof (intro allI impI)
    fix b assume b: "b < length (ctls ?s)" "live (ctl ?s b)" "\<not> mclosed ?s"
    then have bn: "b < ?n" using nl new by (auto simp: less_Suc_eq)
    with b old have "live (ctl s b)" "\<not> mclosed s" by auto
    with sinvD(3) [OF assms] bn obtain e where e: "ctlsByRunID s (runID (ctl s b)) = Some e"
      "ectl e = b \<or> login (ctl s (ectl e)) = LWaiting \<and> handoffBarrier (ctl s (ectl e)) = Some b"
      unfolding handoff_ok_def by blast
    have "ctl ?s (ectl e) = ctl s (ectl e)" using entryD(1) [OF assms e(1)] old by blast
    with e show "\<exists>e. ctlsByRunID ?s (runID (ctl ?s b)) = Some e \<and>
      (ectl e = b \<or> login (ctl ?s (ectl e)) = LWaiting \<and> handoffBarrier (ctl ?s (ectl e)) = Some b)"
      using old [OF bn] by auto
  qed
  moreover have "single_worker ?s"
    unfolding single_worker_def
  proof (intro allI impI)
    fix b b' assume b: "b < length (ctls ?s)" "b' < length (ctls ?s)" "live (ctl ?s b)" "live (ctl ?s b')"
      "runID (ctl ?s b) = runID (ctl ?s b')"
    then have "b < ?n" "b' < ?n" using nl new by (auto simp: less_Suc_eq)
    with b old sinvD(4) [OF assms] show "b = b'" unfolding single_worker_def by metis
  qed
  ultimately show ?thesis using sinvD(5) [OF assms] unfolding sinv_def by simp
qed

lemma sinv_close_manager: "sinv s \<Longrightarrow> sinv (s\<lparr>mclosed := True\<rparr>)"
  unfolding sinv_def entries_ok_def handoff_ok_def single_worker_def by simp

lemma sinv_wait:
  assumes "sinv s" "a < length (ctls s)" "login (ctl s a) = LWaiting" "handoffDone a s"
  shows "sinv (WaitForHandoff a s)" (is "sinv ?s")
proof -
  have c: "cinv (ctl s a)" using sinvD(1) [OF assms(1,2)] .
  have "cinv ((ctl s a)\<lparr>login := LPassed\<rparr>)"
    using c assms(3) by (auto simp: cinv_def split: controlState.splits)
  then have "\<forall>b < length (ctls ?s). cinv (ctl ?s b)"
    using sinvD(1) [OF assms(1)] assms(2) by (simp add: WaitForHandoff_def)
  moreover have "entries_ok ?s"
    using sinvD(2) [OF assms(1)] assms(2) unfolding entries_ok_def
    by (auto simp: WaitForHandoff_def runID_def)
  moreover have "handoff_ok ?s"
    unfolding handoff_ok_def
  proof (intro allI impI)
    fix b assume "b < length (ctls ?s)" "live (ctl ?s b)" "\<not> mclosed ?s"
    then have b: "b < length (ctls s)" "live (ctl s b)" "\<not> mclosed s"
      using assms(2) by (auto simp: WaitForHandoff_def live_def split: if_splits)
    then obtain e where e: "ctlsByRunID s (runID (ctl s b)) = Some e"
      "ectl e = b \<or> login (ctl s (ectl e)) = LWaiting \<and> handoffBarrier (ctl s (ectl e)) = Some b"
      using sinvD(3) [OF assms(1)] unfolding handoff_ok_def by blast
    have "\<not> (ectl e = a \<and> handoffBarrier (ctl s a) = Some b)"
    proof
      assume "ectl e = a \<and> handoffBarrier (ctl s a) = Some b"
      with assms(4) have "doneCloses (ctl s b) > 0" by (simp add: handoffDone_def)
      with sinvD(1) [OF assms(1) b(1)] b(2) show False by (auto simp: cinv_def live_def split: if_splits)
    qed
    moreover have "b \<noteq> a" using b(2) c assms(3) by (auto simp: cinv_def live_def)
    ultimately show "\<exists>e. ctlsByRunID ?s (runID (ctl ?s b)) = Some e \<and>
      (ectl e = b \<or> login (ctl ?s (ectl e)) = LWaiting \<and> handoffBarrier (ctl ?s (ectl e)) = Some b)"
      using e assms(2) by (auto simp: WaitForHandoff_def)
  qed
  moreover have "live (ctl ?s b) = live (ctl s b)" "runID (ctl ?s b) = runID (ctl s b)"
    "length (ctls ?s) = length (ctls s)" for b
    using assms(2) by (simp_all add: WaitForHandoff_def live_def runID_def)
  then have "single_worker ?s" using sinvD(4) [OF assms(1)] unfolding single_worker_def by simp
  ultimately show ?thesis using sinvD(5) [OF assms(1)] unfolding sinv_def by (simp add: WaitForHandoff_def)
qed

text \<open>Removing the entry of a run whose current control has no live worker and waits for none.\<close>

lemma sinv_remove_entry:
  assumes "sinv s" "\<And>b. b < length (ctls s) \<Longrightarrow> live (ctl s b) \<Longrightarrow> \<not> mclosed s \<Longrightarrow> runID (ctl s b) \<noteq> r"
    and "linked reg"
  shows "sinv (s\<lparr>ctlsByRunID := (ctlsByRunID s)(r := None), registry := reg\<rparr>)" (is "sinv ?s")
proof -
  have c: "ctl ?s b = ctl s b" for b by (simp add: ctl_def)
  have "entries_ok ?s" using sinvD(2) [OF assms(1)] unfolding entries_ok_def by (simp add: c)
  moreover have "handoff_ok ?s"
    using sinvD(3) [OF assms(1)] assms(2) unfolding handoff_ok_def by (simp add: c)
  moreover have "single_worker ?s"
    using sinvD(4) [OF assms(1)] unfolding single_worker_def by (simp add: c)
  ultimately show ?thesis using sinvD(1) [OF assms(1)] assms(3) unfolding sinv_def by (simp add: c)
qed

lemma simp_fields [simp]:
  "runID (c\<lparr>cstate := x1\<rparr>) = runID c" "runID (c\<lparr>activated := x2\<rparr>) = runID c" "runID (c\<lparr>worker := x3\<rparr>) = runID c"
  "runID (c\<lparr>workConnCh := x4\<rparr>) = runID c" "runID (c\<lparr>connClosed := x5\<rparr>) = runID c"
  "runID (c\<lparr>doneCloses := x6\<rparr>) = runID c" "runID (c\<lparr>workConnChCloses := x7\<rparr>) = runID c"
  "runID (c\<lparr>login := x8\<rparr>) = runID c" "runID (c\<lparr>handoffBarrier := x9\<rparr>) = runID c"
  "runID (c\<lparr>controlID := x10\<rparr>) = runID c"
  by (simp_all add: runID_def)

lemmas lifecycle_defs = CloseControl_def interruptReadAndClose_def finishLocked_def workerStop_def
  workerDrain_def workerFinish_def

lemma sinv_CloseControl:
  assumes "sinv s" "a < length (ctls s)" "login (ctl s a) \<noteq> LWaiting \<or> mclosed s"
  shows "sinv (upd a CloseControl s)"
proof (rule sinv_upd [OF assms(1,2)])
  show "cinv (CloseControl (ctl s a))"
    using sinvD(1) [OF assms(1,2)] by (cases "cstate (ctl s a)") (auto simp: lifecycle_defs cinv_def)
qed (use assms(3) in \<open>cases "cstate (ctl s a)"; auto simp: lifecycle_defs live_def\<close>)+

lemma sinv_workerStop:
  assumes "sinv s" "a < length (ctls s)" "worker (ctl s a) = WServing"
  shows "sinv (upd a workerStop s)"
proof (rule sinv_upd [OF assms(1,2)])
  show "cinv (workerStop (ctl s a))"
    using sinvD(1) [OF assms(1,2)] assms(3) by (cases "cstate (ctl s a)") (auto simp: lifecycle_defs cinv_def)
  show "login (ctl s a) = LWaiting \<and> \<not> mclosed s \<longrightarrow>
      cstate (ctl s a) \<noteq> Pending \<or> cstate (workerStop (ctl s a)) = Pending"
    using sinvD(1) [OF assms(1,2)] assms(3) by (auto simp: cinv_def)
qed (use assms(3) in \<open>auto simp: lifecycle_defs live_def\<close>)

lemma sinv_workerDrain:
  assumes "sinv s" "a < length (ctls s)" "worker (ctl s a) = WStopped"
  shows "sinv (upd a workerDrain s)"
proof (rule sinv_upd [OF assms(1,2)])
  show "cinv (workerDrain (ctl s a))"
    using sinvD(1) [OF assms(1,2)] assms(3) by (cases "cstate (ctl s a)") (auto simp: lifecycle_defs cinv_def)
qed (use assms(3) in \<open>auto simp: lifecycle_defs live_def\<close>)

lemma sinv_workerFinish:
  assumes "sinv s" "a < length (ctls s)" "worker (ctl s a) = WRemoved"
  shows "sinv (upd a workerFinish s)"
proof (rule sinv_upd [OF assms(1,2)])
  show "cinv (workerFinish (ctl s a))"
    using sinvD(1) [OF assms(1,2)] assms(3) by (cases "cstate (ctl s a)") (auto simp: lifecycle_defs cinv_def)
  show "login (ctl s a) = LWaiting \<and> \<not> mclosed s \<longrightarrow>
      cstate (ctl s a) \<noteq> Pending \<or> cstate (workerFinish (ctl s a)) = Pending"
    using sinvD(1) [OF assms(1,2)] assms(3) by (auto simp: cinv_def)
qed (use assms(3) in \<open>auto simp: lifecycle_defs live_def\<close>)

lemma sinv_RegisterWorkConn:
  assumes "sinv s" "a < length (ctls s)" shows "sinv (snd (RegisterWorkConn a conn s))"
proof -
  have "sinv (upd a (\<lambda>c. c\<lparr>workConnCh := workConnCh c @ [conn]\<rparr>) s)"
    if "cstate (ctl s a) = Running" "length (workConnCh (ctl s a)) < workConnCap (ctl s a)"
    by (rule sinv_upd [OF assms]) (use sinvD(1) [OF assms] that in \<open>auto simp: cinv_def live_def\<close>)
  with assms(1) show ?thesis by (auto simp: RegisterWorkConn_def split: option.splits)
qed

lemma sinv_takeWorkConn:
  assumes "sinv s" "a < length (ctls s)" shows "sinv (snd (takeWorkConn a s))"
proof (cases "workConnCh (ctl s a)")
  case (Cons w ws)
  have "sinv (upd a (\<lambda>c. c\<lparr>workConnCh := ws\<rparr>) s)"
    by (rule sinv_upd [OF assms])
       (use sinvD(1) [OF assms] Cons in \<open>auto simp: cinv_def live_def split: controlState.splits\<close>)
  with Cons show ?thesis by (simp add: takeWorkConn_def)
qed (simp add: takeWorkConn_def assms(1))

lemma sinv_completeLogin:
  assumes "sinv s" "a < length (ctls s)" "login (ctl s a) = LPassed"
  shows "sinv (snd (completeLogin a ok s))"
proof (cases "snd (completeLogin a ok s) = s")
  case False
  let ?c = "(ctl s a)\<lparr>cstate := Running, worker := WServing\<rparr>"
  let ?s = "upd a (\<lambda>_. ?c) s"
  from False obtain e where e: "ctlsByRunID s (runID (ctl s a)) = Some e" "\<not> mclosed s" "ectl e = a"
    and st: "cstate (ctl s a) = Pending" and eq: "snd (completeLogin a ok s) = ?s"
    by (auto simp: completeLogin_def lockCurrentRun_def current_def startLocked_def split: option.splits if_splits)
  have alone: "\<not> live (ctl s b)" if "b < length (ctls s)" "runID (ctl s b) = runID (ctl s a)" for b
  proof
    assume "live (ctl s b)"
    with sinvD(3) [OF assms(1)] that e have "b = a" unfolding handoff_ok_def using assms(3) by auto
    with \<open>live (ctl s b)\<close> st sinvD(1) [OF assms(1,2)] show False by (auto simp: live_def cinv_def)
  qed
  have "cinv ?c" using sinvD(1) [OF assms(1,2)] assms(3) st by (simp add: cinv_def)
  then have "\<forall>b < length (ctls ?s). cinv (ctl ?s b)" using sinvD(1) [OF assms(1)] assms(2) by simp
  moreover have "entries_ok ?s"
    using sinvD(2) [OF assms(1)] assms(2,3) unfolding entries_ok_def by auto
  moreover have same: "runID (ctl ?s b) = runID (ctl s b)" "login (ctl ?s b) = login (ctl s b)"
      "handoffBarrier (ctl ?s b) = handoffBarrier (ctl s b)" for b
    using assms(2) by simp_all
  moreover have "handoff_ok ?s"
    unfolding handoff_ok_def same
  proof (intro allI impI)
    fix b assume "b < length (ctls ?s)" "live (ctl ?s b)" "\<not> mclosed ?s"
    then show "\<exists>e. ctlsByRunID ?s (runID (ctl s b)) = Some e \<and>
        (ectl e = b \<or> login (ctl s (ectl e)) = LWaiting \<and> handoffBarrier (ctl s (ectl e)) = Some b)"
      using sinvD(3) [OF assms(1)] assms(2) e unfolding handoff_ok_def by (cases "b = a") auto
  qed
  moreover have "single_worker ?s"
    unfolding single_worker_def same
  proof (intro allI impI)
    fix b b' assume b: "b < length (ctls ?s)" "b' < length (ctls ?s)" "live (ctl ?s b)" "live (ctl ?s b')"
      "runID (ctl s b) = runID (ctl s b')"
    have o: "live (ctl s x)" if "live (ctl ?s x)" "x \<noteq> a" for x using that assms(2) by simp
    show "b = b'"
    proof (cases "b = a \<or> b' = a")
      case True
      then show ?thesis using b o alone by (metis upd_fields(1))
    next
      case False
      then have "live (ctl s b)" "live (ctl s b')" using b o by blast+
      with b sinvD(4) [OF assms(1)] show ?thesis unfolding single_worker_def by simp
    qed
  qed
  ultimately have "sinv ?s" using sinvD(5) [OF assms(1)] unfolding sinv_def by simp
  with eq show ?thesis by simp
qed (simp add: assms(1))

lemma sinv_entry_update:
  assumes "sinv s" "ctlsByRunID s r = Some e" "ectl e' = ectl e" "eid e' = eid e" "linked reg"
  shows "sinv (s\<lparr>registry := reg, ctlsByRunID := (ctlsByRunID s)(r \<mapsto> e')\<rparr>)" (is "sinv ?s")
proof -
  have c: "ctl ?s b = ctl s b" "length (ctls ?s) = length (ctls s)" "mclosed ?s = mclosed s" for b
    by (simp_all add: ctl_def)
  have "entries_ok ?s"
    using sinvD(2) [OF assms(1)] entryD [OF assms(1,2)] assms(3,4) unfolding entries_ok_def by (simp add: c)
  moreover have "handoff_ok ?s"
    unfolding handoff_ok_def c
  proof (intro allI impI)
    fix b assume "b < length (ctls s)" "live (ctl s b)" "\<not> mclosed s"
    then obtain d where d: "ctlsByRunID s (runID (ctl s b)) = Some d"
      "ectl d = b \<or> login (ctl s (ectl d)) = LWaiting \<and> handoffBarrier (ctl s (ectl d)) = Some b"
      using sinvD(3) [OF assms(1)] unfolding handoff_ok_def by blast
    show "\<exists>d. ctlsByRunID ?s (runID (ctl s b)) = Some d \<and>
        (ectl d = b \<or> login (ctl s (ectl d)) = LWaiting \<and> handoffBarrier (ctl s (ectl d)) = Some b)"
      using d assms(2,3) by (cases "runID (ctl s b) = r") auto
  qed
  moreover have "single_worker ?s" using sinvD(4) [OF assms(1)] unfolding single_worker_def by (simp add: c)
  ultimately show ?thesis using sinvD(1) [OF assms(1)] assms(5) unfolding sinv_def by (simp add: c)
qed

lemma sinv_Activate:
  assumes "sinv s" "a < length (ctls s)" shows "sinv (snd (Activate now a s))"
proof (cases "snd (Activate now a s) = s")
  case False
  from False obtain e where e: "ctlsByRunID s (runID (ctl s a)) = Some e" "ectl e = a"
    by (auto simp: Activate_def lockCurrentRun_def current_def split: option.splits if_splits)
  let ?reg = "snd (RegisterWithControlID now ((cLogin (ctl s a))\<lparr>rControlID := eid e\<rparr>) (registry s))"
  let ?e = "e\<lparr>registryOnline := True, registryControlID := eid e\<rparr>"
  let ?s = "s\<lparr>registry := ?reg, ctlsByRunID := (ctlsByRunID s)(runID (ctl s a) \<mapsto> ?e)\<rparr>"
  have l: "linked ?reg" using sinvD(5) [OF assms(1)] by (rule linked_Register)
  have c: "ctl ?s b = ctl s b" "length (ctls ?s) = length (ctls s)" for b by (simp_all add: ctl_def)
  have s: "sinv ?s" by (rule sinv_entry_update [OF assms(1) e(1) _ _ l]) simp_all
  have "sinv (upd a (\<lambda>c. c\<lparr>activated := True\<rparr>) ?s)"
    by (rule sinv_upd [OF s])
       (use sinvD(1) [OF assms] assms(2) in \<open>auto simp: c cinv_def live_def split: controlState.splits\<close>)
  moreover have "sinv (s\<lparr>registry := ?reg\<rparr>)"
    using assms(1) l unfolding sinv_def entries_ok_def handoff_ok_def single_worker_def by simp
  ultimately show ?thesis
    using e by (auto simp: Activate_def lockCurrentRun_def assms(1) split: option.splits prod.splits)
qed (simp add: assms(1))

lemma handoffD:
  assumes "sinv s" "b < length (ctls s)" "live (ctl s b)" "\<not> mclosed s"
  shows "\<exists>e. ctlsByRunID s (runID (ctl s b)) = Some e \<and>
           (ectl e = b \<or> login (ctl s (ectl e)) = LWaiting \<and> handoffBarrier (ctl s (ectl e)) = Some b)"
  using sinvD(3) [OF assms(1)] assms(2-) unfolding handoff_ok_def by blast

lemma Remove_eq:
  "snd (Remove now a s) = s \<or>
   (\<exists>e reg. ctlsByRunID s (runID (ctl s a)) = Some e \<and> ectl e = a \<and>
      (linked (registry s) \<longrightarrow> linked reg) \<and>
      snd (Remove now a s) = s\<lparr>ctlsByRunID := (ctlsByRunID s)(runID (ctl s a) := None), registry := reg\<rparr>)"
proof (cases "ctlsByRunID s (runID (ctl s a))")
  case (Some e)
  let ?off = "MarkOfflineByRunIDAndControlID now (runID (ctl s a)) (registryControlID e) (registry s)"
  let ?reg = "if registryOnline e then ?off else registry s"
  have "linked (registry s) \<longrightarrow> linked ?reg"
    by (simp add: MarkOfflineByRunIDAndControlID_def linked_markOffline)
  moreover have "snd (Remove now a s) =
      (if current a e s then s\<lparr>ctlsByRunID := (ctlsByRunID s)(runID (ctl s a) := None), registry := ?reg\<rparr> else s)"
    using Some by (simp add: Remove_def lockCurrentRun_def Let_def)
  ultimately show ?thesis
    using Some unfolding current_def by (cases "ectl e = a \<and> eid e = controlID (ctl s a)") metis+
qed (simp add: Remove_def lockCurrentRun_def)

lemma sinv_Remove:
  assumes "sinv s" "a < length (ctls s)"
    and "mclosed s \<or> login (ctl s a) \<noteq> LWaiting \<and> \<not> live (ctl s a)"
  shows "sinv (snd (Remove now a s))"
  using Remove_eq [of now a s]
proof (elim disjE exE conjE)
  fix e reg
  assume e: "ctlsByRunID s (runID (ctl s a)) = Some e" "ectl e = a" and
    l: "linked (registry s) \<longrightarrow> linked reg" and
    eq: "snd (Remove now a s) = s\<lparr>ctlsByRunID := (ctlsByRunID s)(runID (ctl s a) := None), registry := reg\<rparr>"
  have "runID (ctl s b) \<noteq> runID (ctl s a)" if b: "b < length (ctls s)" "live (ctl s b)" "\<not> mclosed s" for b
  proof
    assume "runID (ctl s b) = runID (ctl s a)"
    with handoffD [OF assms(1) b] e have "b = a \<or> login (ctl s a) = LWaiting" by auto
    with assms(3) b show False by blast
  qed
  then have "sinv (s\<lparr>ctlsByRunID := (ctlsByRunID s)(runID (ctl s a) := None), registry := reg\<rparr>)"
    using l sinvD(5) [OF assms(1)] by (intro sinv_remove_entry [OF assms(1)]) blast+
  with eq show ?thesis by simp
qed (simp add: assms(1))

lemma sinv_workerRemove:
  assumes "sinv s" "a < length (ctls s)" "worker (ctl s a) = WDrained"
  shows "sinv (upd a (\<lambda>c. c\<lparr>worker := WRemoved\<rparr>) (snd (Remove now a s)))"
proof -
  let ?f = "\<lambda>c. c\<lparr>worker := WRemoved\<rparr>"
  have ci: "cinv (ctl s a)" using sinvD(1) [OF assms(1,2)] .
  have s1: "sinv (upd a ?f s)"
    by (rule sinv_upd [OF assms(1,2)])
       (use ci assms(3) in \<open>auto simp: cinv_def live_def split: controlState.splits\<close>)
  show ?thesis
    using Remove_eq [of now a s]
  proof (elim disjE exE conjE)
    fix e reg
    assume e: "ctlsByRunID s (runID (ctl s a)) = Some e" "ectl e = a" and
      l: "linked (registry s) \<longrightarrow> linked reg" and
      eq: "snd (Remove now a s) = s\<lparr>ctlsByRunID := (ctlsByRunID s)(runID (ctl s a) := None), registry := reg\<rparr>"
    have "runID (ctl (upd a ?f s) b) \<noteq> runID (ctl s a)"
      if "b < length (ctls (upd a ?f s))" "live (ctl (upd a ?f s) b)" for b
    proof -
      from that assms(2) have b: "b < length (ctls s)" "b \<noteq> a" "live (ctl s b)"
        by (auto simp: live_def split: if_splits)
      moreover have "live (ctl s a)" using assms(3) by (simp add: live_def)
      ultimately show ?thesis
        using sinvD(4) [OF assms(1)] assms(2) unfolding single_worker_def by auto
    qed
    then have "sinv ((upd a ?f s)\<lparr>ctlsByRunID := (ctlsByRunID (upd a ?f s))(runID (ctl s a) := None), registry := reg\<rparr>)"
      using l sinvD(5) [OF assms(1)] by (intro sinv_remove_entry [OF s1]) auto
    moreover have "upd a ?f (s\<lparr>ctlsByRunID := m, registry := reg\<rparr>) =
        (upd a ?f s)\<lparr>ctlsByRunID := m, registry := reg\<rparr>" for m
      by (cases s) (simp add: upd_def)
    ultimately show ?thesis by (simp add: eq)
  qed (simp add: s1)
qed

text \<open>Adding a control: its predecessor, if there is one, is another control and is not pending afterwards.\<close>

lemma markReplaced_props:
  assumes "cinv c"
  shows "cinv (snd (markReplaced a c))" "runID (snd (markReplaced a c)) = runID c"
    "controlID (snd (markReplaced a c)) = controlID c" "login (snd (markReplaced a c)) = login c"
    "handoffBarrier (snd (markReplaced a c)) = handoffBarrier c" "live (snd (markReplaced a c)) = live c"
    "fst (markReplaced a c) = (case cstate c of Created \<Rightarrow> None | Pending \<Rightarrow> handoffBarrier c | _ \<Rightarrow> Some a)"
    "cstate (snd (markReplaced a c)) \<in> {Closing, Closed}"
  using assms
  by (cases "cstate c"; auto simp: markReplaced_def finishLocked_def cinv_def live_def)+

lemma Replaced_props:
  assumes "cinv c" "cstate c \<in> {Closing, Closed}"
  shows "cinv (Replaced a c)" "runID (Replaced a c) = runID c" "controlID (Replaced a c) = controlID c"
    "login (Replaced a c) = login c" "handoffBarrier (Replaced a c) = handoffBarrier c"
    "live (Replaced a c) = live c" "cstate (Replaced a c) = cstate c"
  using assms
  by (auto simp: Replaced_def markReplaced_def interruptReadAndClose_def cinv_def live_def split: controlState.splits)

definition added :: "nat option \<Rightarrow> 64 word \<Rightarrow> control \<Rightarrow> control" where
  "added barrier i c = c\<lparr>controlID := i, cstate := Pending, login := LWaiting, handoffBarrier := barrier\<rparr>"

lemma added_props:
  assumes "cinv c" "cstate c = Created"
  shows "cinv (added b i c)" "runID (added b i c) = runID c" "controlID (added b i c) = i"
    "login (added b i c) = LWaiting" "handoffBarrier (added b i c) = b" "\<not> live (added b i c)"
    "cstate (added b i c) = Pending"
  using assms by (auto simp: added_def cinv_def live_def runID_def)

lemma barrier_Created: "cinv c \<Longrightarrow> cstate c = Created \<Longrightarrow> \<not> live c"
  by (simp add: cinv_def live_def)

lemma sinv_add_fresh:
  assumes "sinv s" "a < length (ctls s)" "cstate (ctl s a) = Created" "ctlsByRunID s (runID (ctl s a)) = None"
    and "ectl e = a" "eid e = i"
  shows "sinv (upd a (added b i) s\<lparr>ctlsByRunID := (ctlsByRunID s)(runID (ctl s a) \<mapsto> e)\<rparr>)" (is "sinv ?s")
proof -
  note p = added_props [OF sinvD(1) [OF assms(1,2)] assms(3), of b i]
  have c: "ctl ?s x = (if x = a then added b i (ctl s a) else ctl s x)" "length (ctls ?s) = length (ctls s)"
    "mclosed ?s = mclosed s" for x
    using assms(2) by simp_all
  have lv: "live (ctl ?s x) \<Longrightarrow> live (ctl s x)" and rn: "runID (ctl ?s x) = runID (ctl s x)" for x
    using p by (auto simp: c assms(2) split: if_splits)
  have "entries_ok ?s"
    unfolding entries_ok_def
  proof (intro allI impI)
    fix r d assume d: "ctlsByRunID ?s r = Some d"
    show "ectl d < length (ctls ?s) \<and> runID (ctl ?s (ectl d)) = r \<and> login (ctl ?s (ectl d)) \<noteq> LNew \<and>
      eid d = controlID (ctl ?s (ectl d)) \<and>
      (login (ctl ?s (ectl d)) = LWaiting \<longrightarrow> \<not> mclosed ?s \<longrightarrow> cstate (ctl ?s (ectl d)) = Pending)"
    proof (cases "r = runID (ctl s a)")
      case True
      then have "d = e" using d by simp
      then show ?thesis using True assms(2,5,6) p by simp
    next
      case False
      then have ds: "ctlsByRunID s r = Some d" using d by simp
      note de = entryD [OF assms(1) ds]
      have "ectl d \<noteq> a" using de(2) False by auto
      then show ?thesis using de assms(2) by simp
    qed
  qed
  moreover have "handoff_ok ?s"
    unfolding handoff_ok_def rn
  proof (intro allI impI)
    fix x assume x: "x < length (ctls ?s)" "live (ctl ?s x)" "\<not> mclosed ?s"
    then have "x \<noteq> a" using p(6) by (auto simp: c assms(2))
    from handoffD [OF assms(1), of x] x lv c obtain d where d: "ctlsByRunID s (runID (ctl s x)) = Some d"
      "ectl d = x \<or> login (ctl s (ectl d)) = LWaiting \<and> handoffBarrier (ctl s (ectl d)) = Some x" by auto
    have "ectl d \<noteq> a" using entryD(2) [OF assms(1) d(1)] d(1) assms(4) by auto
    moreover have "runID (ctl s x) \<noteq> runID (ctl s a)" using d(1) assms(4) by auto
    ultimately show "\<exists>d. ctlsByRunID ?s (runID (ctl s x)) = Some d \<and>
        (ectl d = x \<or> login (ctl ?s (ectl d)) = LWaiting \<and> handoffBarrier (ctl ?s (ectl d)) = Some x)"
      using d by (auto simp: c assms(2))
  qed
  moreover have "single_worker ?s"
    using sinvD(4) [OF assms(1)] lv unfolding single_worker_def rn c(2) by blast
  moreover have "cinv (ctl ?s x)" if "x < length (ctls ?s)" for x
    using sinvD(1) [OF assms(1)] that p(1) by (simp add: c assms(2))
  ultimately show ?thesis using sinvD(5) [OF assms(1)] unfolding sinv_def by simp
qed

lemma sinv_add_replace:
  assumes "sinv s" "a < length (ctls s)" "cstate (ctl s a) = Created" "login (ctl s a) = LNew" "\<not> mclosed s"
    and old: "ctlsByRunID s (runID (ctl s a)) = Some e"
    and e': "ectl e' = a" "eid e' = i"
    and b: "b = fst (markReplaced (ectl e) (ctl s (ectl e)))"
    and no: "cinv newo" "runID newo = runID (ctl s a)" "login newo = login (ctl s (ectl e))" "live newo = live (ctl s (ectl e))"
  shows "sinv (upd (ectl e) (\<lambda>_. newo) (upd a (added b i) s)\<lparr>ctlsByRunID := (ctlsByRunID s)(runID (ctl s a) \<mapsto> e')\<rparr>)"
    (is "sinv ?s")
proof -
  let ?o = "ectl e"
  note p = added_props [OF sinvD(1) [OF assms(1,2)] assms(3), of b i]
  note oe = entryD [OF assms(1) old]
  have oa: "?o \<noteq> a" using oe(3) assms(4) by auto
  have c: "ctl ?s x = (if x = ?o then newo else if x = a then added b i (ctl s a) else ctl s x)"
    "length (ctls ?s) = length (ctls s)" "mclosed ?s = mclosed s" for x
    using assms(2) oe(1) oa by simp_all
  have lv: "live (ctl ?s x) \<Longrightarrow> live (ctl s x)" and rn: "runID (ctl ?s x) = runID (ctl s x)" for x
    using p no oe(2) by (auto simp: c assms(2) oe(1) oa not_sym [OF oa] split: if_splits)
  have "entries_ok ?s"
    unfolding entries_ok_def
  proof (intro allI impI)
    fix r d assume d: "ctlsByRunID ?s r = Some d"
    show "ectl d < length (ctls ?s) \<and> runID (ctl ?s (ectl d)) = r \<and> login (ctl ?s (ectl d)) \<noteq> LNew \<and>
      eid d = controlID (ctl ?s (ectl d)) \<and>
      (login (ctl ?s (ectl d)) = LWaiting \<longrightarrow> \<not> mclosed ?s \<longrightarrow> cstate (ctl ?s (ectl d)) = Pending)"
    proof (cases "r = runID (ctl s a)")
      case True
      then have "d = e'" using d by simp
      then show ?thesis using True e' p assms(2) oa by (simp add: c assms(2) oe(1) oa not_sym [OF oa])
    next
      case False
      then have ds: "ctlsByRunID s r = Some d" using d by simp
      note de = entryD [OF assms(1) ds]
      have "ectl d \<noteq> a" "ectl d \<noteq> ?o" using de(2) oe(2) False by auto
      then show ?thesis using de by (simp add: c assms(2) oe(1) oa not_sym [OF oa])
    qed
  qed
  moreover have "handoff_ok ?s"
    unfolding handoff_ok_def rn
  proof (intro allI impI)
    fix x assume x: "x < length (ctls ?s)" "live (ctl ?s x)" "\<not> mclosed ?s"
    then have xa: "x \<noteq> a" using p(6) oa by (auto simp: c assms(2) oe(1) oa not_sym [OF oa])
    have ls: "live (ctl s x)" using lv [OF x(2)] .
    from handoffD [OF assms(1) _ ls] x c obtain d where d: "ctlsByRunID s (runID (ctl s x)) = Some d"
      "ectl d = x \<or> login (ctl s (ectl d)) = LWaiting \<and> handoffBarrier (ctl s (ectl d)) = Some x" by auto
    show "\<exists>d. ctlsByRunID ?s (runID (ctl s x)) = Some d \<and>
        (ectl d = x \<or> login (ctl ?s (ectl d)) = LWaiting \<and> handoffBarrier (ctl ?s (ectl d)) = Some x)"
    proof (cases "runID (ctl s x) = runID (ctl s a)")
      case False
      then have "ectl d \<noteq> a" "ectl d \<noteq> ?o" using entryD(2) [OF assms(1) d(1)] oe(2) by auto
      then show ?thesis using d False by (auto simp: c assms(2) oe(1) oa not_sym [OF oa])
    next
      case True
      then have de: "d = e" using d(1) old by simp
      have oc: "cinv (ctl s ?o)" using sinvD(1) [OF assms(1) oe(1)] .
      have "b = Some x"
      proof (cases "?o = x")
        case True
        with ls oc show ?thesis
          by (auto simp: b markReplaced_props(7) [OF oc] live_def cinv_def split: controlState.splits)
      next
        case False
        with d(2) de have "login (ctl s ?o) = LWaiting" "handoffBarrier (ctl s ?o) = Some x" by auto
        with oe(5) assms(5) show ?thesis by (simp add: b markReplaced_props(7) [OF oc])
      qed
      with True e'(1) p(4,5) oa show ?thesis by (auto simp: c assms(2) oe(1) oa not_sym [OF oa])
    qed
  qed
  moreover have "single_worker ?s"
    using sinvD(4) [OF assms(1)] lv unfolding single_worker_def rn c(2) by blast
  moreover have "cinv (ctl ?s x)" if "x < length (ctls ?s)" for x
    using sinvD(1) [OF assms(1)] that p(1) no(1) by (simp add: c assms(2) oe(1) oa not_sym [OF oa])
  ultimately show ?thesis using sinvD(5) [OF assms(1)] unfolding sinv_def by simp
qed

lemma sinv_nextID: "sinv s \<Longrightarrow> sinv (s\<lparr>nextControlID := i\<rparr>)"
  unfolding sinv_def entries_ok_def handoff_ok_def single_worker_def by simp

lemma Add_eq:
  assumes "sinv s" "a < length (ctls s)" "login (ctl s a) = LNew" "\<not> mclosed s" "cstate (ctl s a) = Created"
  shows "snd (Add a s) =
    (let i = nextControlID s + 1; s1 = s\<lparr>nextControlID := i\<rparr>; rid = runID (ctl s a) in
     case ctlsByRunID s rid of
       None \<Rightarrow> upd a (added (handoffBarrier (ctl s a)) i) s1\<lparr>ctlsByRunID := (ctlsByRunID s1)(rid \<mapsto>
                   \<lparr>ectl = a, eid = i, registryOnline = False, registryControlID = 0\<rparr>)\<rparr>
     | Some e \<Rightarrow>
         upd (ectl e) (\<lambda>_. Replaced (ectl e) (snd (markReplaced (ectl e) (ctl s (ectl e)))))
           (upd a (added (fst (markReplaced (ectl e) (ctl s (ectl e)))) i) s1)
           \<lparr>ctlsByRunID := (ctlsByRunID s1)(rid \<mapsto>
                   \<lparr>ectl = a, eid = i, registryOnline = registryOnline e, registryControlID = registryControlID e\<rparr>)\<rparr>)"
proof (cases "ctlsByRunID s (runID (ctl s a))")
  case None
  then show ?thesis
    using assms(4,5) by (cases s) (simp add: Add_def admit_def Let_def upd_def ctl_def added_def)
next
  case (Some e)
  note oe = entryD [OF assms(1) Some]
  have "ectl e \<noteq> a" using oe(3) assms(3) by auto
  then show ?thesis
    using assms(2,4,5) Some oe(1)
    by (cases s)
       (simp add: Add_def admit_def Let_def upd_def ctl_def added_def case_prod_beta list_update_swap nth_list_update)
qed

lemma sinv_Add:
  assumes "sinv s" "a < length (ctls s)" "login (ctl s a) = LNew"
  shows "sinv (snd (Add a s))"
proof (cases "mclosed s \<or> cstate (ctl s a) \<noteq> Created")
  case True
  then show ?thesis using assms(1) sinv_nextID by (auto simp: Add_def admit_def Let_def)
next
  case False
  then have st: "\<not> mclosed s" "cstate (ctl s a) = Created" by auto
  let ?i = "nextControlID s + 1"
  let ?s = "s\<lparr>nextControlID := ?i\<rparr>"
  note s1 = sinv_nextID [OF assms(1), of ?i]
  show ?thesis
  proof (cases "ctlsByRunID s (runID (ctl s a))")
    case None
    then show ?thesis
      using sinv_add_fresh [OF s1, of a] assms(2) st(2) by (simp add: Add_eq [OF assms st] Let_def)
  next
    case (Some e)
    let ?o = "ectl e"
    note oe = entryD [OF assms(1) Some]
    have oc: "cinv (ctl s ?o)" using sinvD(1) [OF assms(1) oe(1)] .
    note m = markReplaced_props [OF oc, of ?o]
    note r = Replaced_props [OF m(1,8), of ?o]
    show ?thesis
      using sinv_add_replace [OF s1, of a e _ _ _ "Replaced ?o (snd (markReplaced ?o (ctl s ?o)))"]
        assms(2,3) st Some m r oe(2)
      by (simp add: Add_eq [OF assms st] Let_def)
  qed
qed

lemma sinv_happen: "sinv s \<Longrightarrow> enabled ev s \<Longrightarrow> sinv (happen ev s)"
  by (cases ev)
     (auto intro: sinv_New sinv_Add sinv_wait sinv_Activate sinv_completeLogin sinv_CloseControl sinv_Remove
       sinv_RegisterWorkConn sinv_takeWorkConn sinv_workerStop sinv_workerDrain sinv_workerRemove
       sinv_workerFinish sinv_close_manager simp: live_def)

lemma reachable_sinv: "reachable s \<Longrightarrow> sinv s"
  by (induction rule: reachable.induct) (auto intro: sinv_init sinv_happen)

section \<open>Guarantees\<close>

text \<open>C12. At most one generation of a client is at work: in every reachable state, however logins,
  replacements, disconnects and the manager's shutdown interleave, two controls with the same run
  id never both have a worker that still holds work connections, proxies or its place in the
  manager; so a reconnecting client starts only after its predecessor has cleaned up.\<close>

theorem one_worker_per_run_id:
  assumes "reachable s" "a < length (ctls s)" "b < length (ctls s)"
    and "worker (ctl s a) \<in> {WServing, WStopped, WDrained}" "worker (ctl s b) \<in> {WServing, WStopped, WDrained}"
    and "runID (ctl s a) = runID (ctl s b)"
  shows "a = b"
  using sinvD(4) [OF reachable_sinv [OF assms(1)]] assms(2-) unfolding single_worker_def live_def by blast

text \<open>No channel is closed twice and none is used after closing: in every reachable state a
  control's doneCh has been closed once if it is closed and never otherwise, its work connection
  channel at most once, and a work connection is accepted only by a control whose channel is open
  and has room.\<close>

theorem channels_closed_once:
  assumes "reachable s" "a < length (ctls s)"
  shows "doneCloses (ctl s a) = (if cstate (ctl s a) = Closed then 1 else 0) \<and>
         workConnChCloses (ctl s a) \<le> 1 \<and>
         (fst (RegisterWorkConn a conn s) = Inr () \<longrightarrow>
            workConnChCloses (ctl s a) = 0 \<and> length (workConnCh (ctl s a)) < workConnCap (ctl s a))"
proof -
  have c: "cinv (ctl s a)" using sinvD(1) [OF reachable_sinv [OF assms(1)] assms(2)] .
  have "cstate (ctl s a) = Running \<and> length (workConnCh (ctl s a)) < workConnCap (ctl s a)"
    if "fst (RegisterWorkConn a conn s) = Inr ()"
    using that by (auto simp: RegisterWorkConn_def split: option.splits if_splits)
  with c show ?thesis by (auto simp: cinv_def split: controlState.splits)
qed

text \<open>Work connections reach only the current running generation: when RegisterWorkConn takes a
  connection for a control, that control is the one GetByID returns for its run id, and the
  connection goes to the end of its pool and nowhere else.\<close>

theorem work_conn_only_to_current:
  assumes "reachable s" "a < length (ctls s)" "RegisterWorkConn a conn s = (Inr (), s')"
  shows "GetByID (runID (ctl s a)) s = Some a \<and>
         (\<forall>b < length (ctls s). workConnCh (ctl s' b) =
            (if b = a then workConnCh (ctl s a) @ [conn] else workConnCh (ctl s b)))"
  using assms
  by (auto simp: RegisterWorkConn_def GetByID_def lockCurrentRun_def current_def split: option.splits if_splits)

text \<open>Removing a control takes its client offline: when Remove succeeds for a control that was
  registered, its run id no longer has an entry in the manager, and the client registry has no
  online client with that run id and that control generation.\<close>

theorem remove_takes_offline:
  assumes "reachable s" "Remove now a s = (True, s')"
    and "ctlsByRunID s (runID (ctl s a)) = Some e" "registryOnline e"
  shows "ctlsByRunID s' (runID (ctl s a)) = None \<and>
         \<not> (\<exists>k info. Client_Registry.GetByKey k (registry s') = Some info \<and> Online info \<and>
               RunID info = runID (ctl s a) \<and> ControlID info = registryControlID e)"
proof -
  let ?r = "runID (ctl s a)"
  have l: "linked (registry s)" using sinvD(5) [OF reachable_sinv [OF assms(1)]] .
  have s': "s' = s\<lparr>ctlsByRunID := (ctlsByRunID s)(?r := None),
      registry := MarkOfflineByRunIDAndControlID now ?r (registryControlID e) (registry s)\<rparr>"
    using assms(2-) by (auto simp: Remove_def lockCurrentRun_def Let_def split: if_splits)
  have "\<not> (Online info \<and> RunID info = ?r \<and> ControlID info = registryControlID e)"
    if k: "clients (MarkOfflineByRunIDAndControlID now ?r (registryControlID e) (registry s)) k = Some info" for k info
  proof (cases "runIndex (registry s) ?r")
    case None
    then have "clients (registry s) k = Some info"
      using k by (simp add: MarkOfflineByRunIDAndControlID_def markOfflineByRunID_def)
    with None l show ?thesis using linkedD(1) [OF l, of ?r k] linkedD(2) [OF l, of k info] by auto
  next
    case (Some k0)
    have m: "MarkOfflineByRunIDAndControlID now ?r (registryControlID e) (registry s) =
        (if ControlID (the (clients (registry s) k0)) \<noteq> registryControlID e then registry s
         else retire now k0 (the (clients (registry s) k0)) (registry s))"
      by (simp add: MarkOfflineByRunIDAndControlID_def markOffline_eq [OF l] Some)
    have u: "k' = k0" if "clients (registry s) k' = Some i" "Online i" "RunID i = ?r" for k' i
      using that linkedD(1) [OF l, of ?r k'] linkedD(2) [OF l that(1)] Some by auto
    show ?thesis
    proof
      assume on: "Online info \<and> RunID info = ?r \<and> ControlID info = registryControlID e"
      then show False
        using k u [of k info] m by (auto simp: retire_def setClientOffline_def split: if_splits)
    qed
  qed
  then show ?thesis unfolding s' by (auto simp: GetByKey_def)
qed
section \<open>A concrete execution\<close>

definition demo_login :: registration where
  "demo_login = demo_reg ''u'' ''c'' ''r'' 0"

definition demo_running :: control where
  "demo_running = (NewControl demo_login 1)\<lparr>controlID := 1, cstate := Running, activated := True,
     worker := WServing, login := LPassed\<rparr>"

definition demo_registry :: Client_Registry.registry where
  "demo_registry = snd (RegisterWithControlID 5 (demo_login\<lparr>rControlID := 1\<rparr>) NewClientRegistry)"

definition demo_cm :: ControlManager where
  "demo_cm = \<lparr>ctls = [demo_running],
     ctlsByRunID = [''r'' \<mapsto> \<lparr>ectl = 0, eid = 1, registryOnline = True, registryControlID = 1\<rparr>],
     registry = demo_registry, mclosed = False, nextControlID = 1\<rparr>"

lemma demo_cm_events:
  "happen (ELogin 0 True) (happen (EActivate 5 0) (happen (EWait 0) (happen (EAdd 0)
     (happen (ENew demo_login 1) NewControlManager)))) = demo_cm"
  by (simp add: demo_cm_def demo_running_def demo_registry_def NewControlManager_def Add_def admit_def Let_def
      ctl_def upd_def NewControl_def WaitForHandoff_def Activate_def lockCurrentRun_def current_def
      completeLogin_def startLocked_def runID_def demo_login_def registry_eval)

lemma demo_cm_reachable: "reachable demo_cm"
  unfolding demo_cm_events [symmetric]
  by (intro reachable.step reachable.init)
     (simp_all add: NewControlManager_def Add_def admit_def Let_def ctl_def upd_def NewControl_def
       WaitForHandoff_def handoffDone_def Activate_def lockCurrentRun_def current_def runID_def demo_login_def
       registry_eval)

theorem one_worker_per_run_id_witness: "worker (ctl demo_cm 0) = WServing \<and> (0 :: nat) = 0"
  using one_worker_per_run_id [OF demo_cm_reachable, of 0 0]
  by (simp add: demo_cm_def ctl_def demo_running_def)

theorem channels_closed_once_witness:
  "doneCloses (ctl demo_cm 0) = 0 \<and> workConnChCloses (ctl demo_cm 0) = 0"
  using channels_closed_once [OF demo_cm_reachable, of 0 7]
  by (simp add: demo_cm_def ctl_def demo_running_def RegisterWorkConn_def lockCurrentRun_def current_def
      runID_def demo_login_def demo_reg_def NewControl_def workConnPoolCapacityOffset_def)

theorem work_conn_only_to_current_witness: "GetByID ''r'' demo_cm = Some 0"
proof -
  have "RegisterWorkConn 0 7 demo_cm = (Inr (), upd 0 (\<lambda>c. c\<lparr>workConnCh := workConnCh c @ [7]\<rparr>) demo_cm)"
    by (simp add: demo_cm_def ctl_def demo_running_def RegisterWorkConn_def lockCurrentRun_def current_def
      runID_def demo_login_def demo_reg_def NewControl_def workConnPoolCapacityOffset_def)
  from work_conn_only_to_current [OF demo_cm_reachable _ this] show ?thesis
    by (simp add: demo_cm_def ctl_def demo_running_def runID_def demo_login_def demo_reg_def NewControl_def)
qed

theorem remove_takes_offline_witness:
  "fst (Remove 9 0 demo_cm) \<and> ctlsByRunID (snd (Remove 9 0 demo_cm)) ''r'' = None"
proof -
  have r: "runID (ctl demo_cm 0) = ''r''"
    by (simp add: demo_cm_def ctl_def demo_running_def runID_def demo_login_def demo_reg_def NewControl_def)
  have e: "ctlsByRunID demo_cm (runID (ctl demo_cm 0)) =
      Some \<lparr>ectl = 0, eid = 1, registryOnline = True, registryControlID = 1\<rparr>"
    unfolding r by (simp add: demo_cm_def)
  have f: "fst (Remove 9 0 demo_cm)"
    using e by (simp add: Remove_def lockCurrentRun_def current_def Let_def) (simp add: demo_cm_def ctl_def demo_running_def)
  then have "Remove 9 0 demo_cm = (True, snd (Remove 9 0 demo_cm))" by (metis prod.collapse)
  from remove_takes_offline [OF demo_cm_reachable this e] f r show ?thesis by simp
qed

end
