(* ===== verification/Visitor_Admission.thy ===== *)
theory Visitor_Admission
  imports Control_Manager Visitor_Manager
begin

text \<open>
  \<^verbatim>\<open>Service.RegisterVisitorConn\<close> in \<^verbatim>\<open>server/service.go\<close>: a visitor's connection is admitted against the control that
  currently serves its run id, and then by the visitor manager.  The admission runs under the lock of the run, so it
  is one step on both components.
\<close>

datatype admit_error = NoControl string | WireMismatch string string | Refused visitor_error

record NewVisitorConn =
  nvRunID :: string
  nvProxyName :: string
  nvSignKey :: string
  nvTimestamp :: int
  nvUseEncryption :: bool

definition admitVisitor ::
  "(string \<Rightarrow> bytes) \<Rightarrow> bool \<Rightarrow> nat \<Rightarrow> string \<Rightarrow> NewVisitorConn \<Rightarrow> string \<Rightarrow> string \<Rightarrow> string \<Rightarrow> visitorManager \<Rightarrow>
   (admit_error + bool) \<times> visitorManager" where
  "admitVisitor md5 encOk conn wire m visitorUser visitorWire visitorCodec vm =
     (let w = (if visitorWire = '''' then wire else visitorWire);
          v = \<lparr>vcConn = \<lparr>wconn = conn, wireProtocol = w, udpPacketCodec = visitorCodec\<rparr>, vcTimestamp = nvTimestamp m,
               vcSignKey = nvSignKey m, vcUseEncryption = nvUseEncryption m, vcUser = visitorUser\<rparr> in
      case visitorNewConn md5 encOk (nvProxyName m) v vm of
        (Inl e, vm1) \<Rightarrow> (Inl (Refused e), vm1)
      | (Inr q, vm1) \<Rightarrow> (Inr q, vm1))"

text \<open>\<open>codec\<close> is the packet codec that a control's session negotiated.\<close>

definition RegisterVisitorConn ::
  "(string \<Rightarrow> bytes) \<Rightarrow> bool \<Rightarrow> (registration \<Rightarrow> string) \<Rightarrow> nat \<Rightarrow> NewVisitorConn \<Rightarrow> string \<Rightarrow> ControlManager \<Rightarrow> visitorManager \<Rightarrow>
   (admit_error + bool) \<times> visitorManager" where
  "RegisterVisitorConn md5 encOk codec conn m wire cm vm =
     (if nvRunID m \<noteq> '''' then
        (case admitVisitorByRunID (nvRunID m) cm of
           None \<Rightarrow> (Inl (NoControl (nvRunID m)), vm)
         | Some r \<Rightarrow>
             if wire \<noteq> rWireProtocol r then (Inl (WireMismatch wire (rWireProtocol r)), vm)
             else admitVisitor md5 encOk conn wire m (rUser r) (rWireProtocol r) (codec r) vm)
      else admitVisitor md5 encOk conn wire m '''' wire '''' vm)"

lemma PutConn_cases:
  assumes "PutConn c l = (x, l')"
  obtains "x = Inl PutConnClosed" "l' = l" "lnClosed l"
  | "x = Inr True" "l' = l\<lparr>acceptCh := acceptCh l @ [c]\<rparr>" "\<not> lnClosed l" "length (acceptCh l) < acceptCap"
  | "x = Inr False" "l' = l" "\<not> lnClosed l" "acceptCap \<le> length (acceptCh l)"
  using assms by (auto simp: PutConn_def split: if_splits)

text \<open>What the visitor manager does with a connection, on each branch.\<close>

lemma visitorNewConn_outcome:
  assumes "vm_ok vm" "visitorNewConn md5 encOk name v vm = (x, vm')"
  shows "case x of
     Inl e \<Rightarrow> vm' = vm
   | Inr q \<Rightarrow> \<exists>b. vlisteners vm name = Some b \<and> bl b < length (lnStore vm) \<and> vcSignKey v = GetAuthKey md5 (bsk b) (vcTimestamp v) \<and>
       (vcUser v \<in> set (ballowUsers b) \<or> ''*'' \<in> set (ballowUsers b)) \<and> \<not> lnClosed (lnStore vm ! bl b) \<and>
       vm' = (if q then vm\<lparr>lnStore := (lnStore vm)[bl b := (lnStore vm ! bl b)\<lparr>acceptCh := acceptCh (lnStore vm ! bl b) @ [vcConn v]\<rparr>]\<rparr> else vm) \<and>
       (q \<longleftrightarrow> length (acceptCh (lnStore vm ! bl b)) < acceptCap)"
proof (cases "vlisteners vm name")
  case (Some b)
  obtain r l where p: "PutConn (vcConn v) (lnStore vm ! bl b) = (r, l)" by fastforce
  have "bl b < length (lnStore vm)" using assms(1) Some by (auto simp: vm_ok_def)
  have same: "vm\<lparr>lnStore := (lnStore vm)[bl b := lnStore vm ! bl b]\<rparr> = vm" by simp
  from p show ?thesis
    by (rule PutConn_cases) (use assms(2) Some p same \<open>bl b < length (lnStore vm)\<close> in \<open>auto simp: visitorNewConn_def split: if_splits\<close>)
qed (use assms(2) in \<open>auto simp: visitorNewConn_def\<close>)

section \<open>Property\<close>

text \<open>C14. A visitor reaches a proxy only with its secret and as an allowed user.  If a connection is accepted, the listener
  of the requested proxy is open, the sign key is the one of that proxy's secret for the time stamp of the request, and the
  user is allowed; the user is the one that logged in on the control that now runs under the run id, which speaks the
  same protocol, or the empty user when no run id is given.  The connection is then the last of that listener's queue
  and nothing else has changed; when the queue is full it is dropped, without an error.  A refused connection changes
  nothing.\<close>

theorem visitor_admitted:
  assumes "vm_ok vm" "RegisterVisitorConn md5 encOk codec conn m wire cm vm = (x, vm')"
  shows "case x of
     Inl e \<Rightarrow> vm' = vm
   | Inr q \<Rightarrow> \<exists>b user. vlisteners vm (nvProxyName m) = Some b \<and> bl b < length (lnStore vm) \<and> \<not> lnClosed (lnStore vm ! bl b) \<and>
       nvSignKey m = GetAuthKey md5 (bsk b) (nvTimestamp m) \<and> (user \<in> set (ballowUsers b) \<or> ''*'' \<in> set (ballowUsers b)) \<and>
       (if nvRunID m = '''' then user = ''''
        else \<exists>r. admitVisitorByRunID (nvRunID m) cm = Some r \<and> user = rUser r \<and> wire = rWireProtocol r) \<and>
       (q \<longleftrightarrow> length (acceptCh (lnStore vm ! bl b)) < acceptCap) \<and>
       (\<exists>c. wconn c = conn \<and> wireProtocol c = wire \<and>
          vm' = (if q then vm\<lparr>lnStore := (lnStore vm)[bl b := (lnStore vm ! bl b)\<lparr>acceptCh := acceptCh (lnStore vm ! bl b) @ [c]\<rparr>]\<rparr> else vm))"
proof -
  have A: "case x of Inl e \<Rightarrow> vm' = vm
   | Inr q \<Rightarrow> \<exists>b. vlisteners vm (nvProxyName m) = Some b \<and> bl b < length (lnStore vm) \<and> \<not> lnClosed (lnStore vm ! bl b) \<and>
       nvSignKey m = GetAuthKey md5 (bsk b) (nvTimestamp m) \<and> (user \<in> set (ballowUsers b) \<or> ''*'' \<in> set (ballowUsers b)) \<and>
       (q \<longleftrightarrow> length (acceptCh (lnStore vm ! bl b)) < acceptCap) \<and>
       (\<exists>c. wconn c = conn \<and> wireProtocol c = wire \<and>
          vm' = (if q then vm\<lparr>lnStore := (lnStore vm)[bl b := (lnStore vm ! bl b)\<lparr>acceptCh := acceptCh (lnStore vm ! bl b) @ [c]\<rparr>]\<rparr> else vm))"
    if a: "admitVisitor md5 encOk conn wire m user wire cdc vm = (x, vm')" for user cdc
  proof -
    let ?v = "\<lparr>vcConn = \<lparr>wconn = conn, wireProtocol = wire, udpPacketCodec = cdc\<rparr>, vcTimestamp = nvTimestamp m,
               vcSignKey = nvSignKey m, vcUseEncryption = nvUseEncryption m, vcUser = user\<rparr>"
    obtain y vm1 where n: "visitorNewConn md5 encOk (nvProxyName m) ?v vm = (y, vm1)" by fastforce
    from visitorNewConn_outcome [OF assms(1) n] a n show ?thesis
      by (cases y) (auto simp: admitVisitor_def Let_def intro!: exI [of _ "\<lparr>wconn = conn, wireProtocol = wire, udpPacketCodec = cdc\<rparr>"] split: if_splits)
  qed
  show ?thesis
  proof (cases "nvRunID m = ''''")
    case True
    with A [of "''''" "''''"] assms(2) show ?thesis by (auto simp: RegisterVisitorConn_def split: sum.splits)
  next
    case False
    show ?thesis
    proof (cases "admitVisitorByRunID (nvRunID m) cm")
      case (Some r)
      with A [of "rUser r" "codec r"] assms(2) False show ?thesis
        by (auto simp: RegisterVisitorConn_def split: sum.splits if_splits)
    qed (use assms(2) False in \<open>auto simp: RegisterVisitorConn_def\<close>)
  qed
qed

definition demo_vm :: visitorManager where
  "demo_vm = snd (visitorListen ''p'' ''k'' [''u''] NewVisitorManager)"

definition demo_request :: NewVisitorConn where
  "demo_request = \<lparr>nvRunID = ''r'', nvProxyName = ''p'', nvSignKey = GetAuthKey demo_md5 ''k'' 7, nvTimestamp = 7, nvUseEncryption = False\<rparr>"

theorem visitor_admitted_witness:
  "case RegisterVisitorConn demo_md5 True (\<lambda>_. '''') 3 demo_request (rWireProtocol demo_login) demo_cm demo_vm of
     (x, vm) \<Rightarrow> x = Inr True \<and> map wconn (acceptCh (lnStore vm ! 0)) = [3]"
proof -
  let ?r = "RegisterVisitorConn demo_md5 True (\<lambda>_. '''') 3 demo_request (rWireProtocol demo_login) demo_cm demo_vm"
  have x: "fst ?r = Inr True" and n: "lnStore demo_vm = [NewInternalListener]" "\<And>b. vlisteners demo_vm ''p'' = Some b \<Longrightarrow> bl b = 0"
    by (simp_all add: RegisterVisitorConn_def admitVisitor_def admitVisitorByRunID_def lockCurrentRun_def demo_cm_def demo_running_def ctl_def
        NewControl_def demo_request_def demo_vm_def visitorListen_def visitorNewConn_def NewVisitorManager_def PutConn_def
        NewInternalListener_def acceptCap_def demo_login_def demo_reg_def Let_def)
  have ok: "vm_ok demo_vm" unfolding demo_vm_def by (rule vm_ok_Listen [OF vm_ok_New])
  have e: "?r = (Inr True, snd ?r)" using x by (metis prod.collapse)
  from visitor_admitted [OF ok e] obtain b c where "vlisteners demo_vm ''p'' = Some b" "wconn c = 3"
    "snd ?r = demo_vm\<lparr>lnStore := (lnStore demo_vm)[bl b := (lnStore demo_vm ! bl b)\<lparr>acceptCh := acceptCh (lnStore demo_vm ! bl b) @ [c]\<rparr>]\<rparr>"
    by (auto simp: demo_request_def)
  with e n show ?thesis by (simp add: NewInternalListener_def split: prod.split)
qed

end
