(* ===== verification/Xudp_State.thy ===== *)
theory Xudp_State
  imports Prelude
begin

text \<open>
  The XUDP phase machine of \<^verbatim>\<open>pkg/xudp/state/state.go\<close> and the session table of
  \<^verbatim>\<open>pkg/xudp/session/table.go\<close>.  Every method of the machine but \<open>IsCurrent\<close> holds its lock, so
  a concurrent execution is a sequence of method calls; \<open>IsCurrent\<close> is two separate atomic loads,
  modelled both as one step and as two.  Generations and transport epochs are 64-bit counters
  that wrap around.
\<close>

section \<open>The machine\<close>

datatype phase =
    PhaseInit | PhaseNATHolePrepare | PhasePunching | PhaseQUICHandshake | PhaseP2PReady
  | PhaseRelayConnect | PhaseRelayReady | PhaseRecovering | PhaseClosed

record machine =
  mphase :: phase
  generation :: "64 word"
  transportEpoch :: "64 word"

definition NewMachine :: machine where
  "NewMachine = \<lparr>mphase = PhaseInit, generation = 0, transportEpoch = 0\<rparr>"

definition BeginSession :: "machine \<Rightarrow> 64 word \<times> machine" where
  "BeginSession m =
     (let m1 = m\<lparr>transportEpoch := 0, mphase := PhaseInit, generation := generation m + 1\<rparr>
      in (generation m1, m1))"

definition BeginTransport :: "64 word \<Rightarrow> phase \<Rightarrow> machine \<Rightarrow> (64 word \<times> bool) \<times> machine" where
  "BeginTransport g p m =
     (if g \<noteq> generation m then ((0, False), m)
      else let m1 = m\<lparr>mphase := p, transportEpoch := transportEpoch m + 1\<rparr>
           in ((transportEpoch m1, True), m1))"

definition SetPhase :: "phase \<Rightarrow> machine \<Rightarrow> machine" where
  "SetPhase p m = m\<lparr>mphase := p\<rparr>"

definition SetPhaseForGeneration :: "64 word \<Rightarrow> phase \<Rightarrow> machine \<Rightarrow> bool \<times> machine" where
  "SetPhaseForGeneration g p m =
     (if g \<noteq> generation m then (False, m) else (True, m\<lparr>mphase := p\<rparr>))"

definition SetPhaseForTransport :: "64 word \<Rightarrow> 64 word \<Rightarrow> phase \<Rightarrow> machine \<Rightarrow> bool \<times> machine" where
  "SetPhaseForTransport g e p m =
     (if g \<noteq> generation m \<or> e \<noteq> transportEpoch m then (False, m) else (True, m\<lparr>mphase := p\<rparr>))"

definition Snapshot :: "machine \<Rightarrow> phase \<times> 64 word \<times> 64 word" where
  "Snapshot m = (mphase m, generation m, transportEpoch m)"

definition IsCurrent :: "64 word \<Rightarrow> 64 word \<Rightarrow> machine \<Rightarrow> bool" where
  "IsCurrent g e m \<longleftrightarrow> g = generation m \<and> e = transportEpoch m"

text \<open>
  \<open>IsCurrent\<close> takes no lock: the generation is loaded first and the epoch afterwards, possibly from
  a later state of the machine.
\<close>

definition IsCurrent_loads :: "64 word \<Rightarrow> 64 word \<Rightarrow> machine \<Rightarrow> machine \<Rightarrow> bool" where
  "IsCurrent_loads g e m m' \<longleftrightarrow> g = generation m \<and> e = transportEpoch m'"

section \<open>Executions\<close>

text \<open>The calls that change the machine.\<close>

datatype call =
    CBeginSession
  | CBeginTransport "64 word" phase
  | CSetPhase phase
  | CSetPhaseForGeneration "64 word" phase
  | CSetPhaseForTransport "64 word" "64 word" phase

fun exec :: "call \<Rightarrow> machine \<Rightarrow> machine" where
  "exec CBeginSession m = snd (BeginSession m)"
| "exec (CBeginTransport g p) m = snd (BeginTransport g p m)"
| "exec (CSetPhase p) m = SetPhase p m"
| "exec (CSetPhaseForGeneration g p) m = snd (SetPhaseForGeneration g p m)"
| "exec (CSetPhaseForTransport g e p) m = snd (SetPhaseForTransport g e p m)"

primrec run :: "call list \<Rightarrow> machine \<Rightarrow> machine" where
  "run [] m = m"
| "run (c # cs) m = run cs (exec c m)"

text \<open>The calls that start a session, and those that start a transport in the current one.\<close>

fun starts_session :: "call \<Rightarrow> bool" where
  "starts_session CBeginSession = True"
| "starts_session _ = False"

fun starts_transport :: "machine \<Rightarrow> call \<Rightarrow> bool" where
  "starts_transport m (CBeginTransport g p) = (g = generation m)"
| "starts_transport m _ = False"

primrec sessions :: "call list \<Rightarrow> nat" where
  "sessions [] = 0"
| "sessions (c # cs) = (if starts_session c then 1 else 0) + sessions cs"

primrec transports :: "call list \<Rightarrow> machine \<Rightarrow> nat" where
  "transports [] m = 0"
| "transports (c # cs) m = (if starts_transport m c then 1 else 0) + transports cs (exec c m)"

lemmas machine_defs = BeginSession_def BeginTransport_def SetPhase_def SetPhaseForGeneration_def
  SetPhaseForTransport_def IsCurrent_def Let_def

lemma generation_exec: "generation (exec c m) = generation m + (if starts_session c then 1 else 0)"
  by (cases c) (auto simp: machine_defs)

lemma epoch_exec:
  "\<not> starts_session c \<Longrightarrow>
   transportEpoch (exec c m) = transportEpoch m + (if starts_transport m c then 1 else 0)"
  by (cases c) (auto simp: machine_defs)

lemma generation_run: "generation (run cs m) = generation m + word_of_nat (sessions cs)"
  by (induction cs arbitrary: m) (auto simp: generation_exec)

lemma epoch_run:
  "sessions cs = 0 \<Longrightarrow> transportEpoch (run cs m) = transportEpoch m + word_of_nat (transports cs m)"
  by (induction cs arbitrary: m) (auto simp: epoch_exec split: if_splits)

lemma sessions_le: "sessions cs \<le> length cs"
  by (induction cs) auto

lemma transports_le: "transports cs m \<le> length cs"
  by (induction cs arbitrary: m) (auto intro: le_SucI)

lemma word_add_of_nat_eq: "n < 2 ^ 64 \<Longrightarrow> (w :: 64 word) = w + word_of_nat n \<longleftrightarrow> n = 0"
  by (simp add: word_unat_eq_iff [of "word_of_nat n" 0] unat_of_nat)

lemma current_iff:
  assumes "BeginTransport g p m = ((e, True), m1)" "length cs < 2 ^ 64"
  shows "IsCurrent g e (run cs m1) \<longleftrightarrow> sessions cs = 0 \<and> transports cs m1 = 0"
proof -
  have m1: "g = generation m1" "e = transportEpoch m1"
    using assms(1) by (auto simp: machine_defs split: if_splits)
  have s: "sessions cs < 2 ^ 64" and t: "transports cs m1 < 2 ^ 64"
    using assms(2) sessions_le [of cs] transports_le [of cs m1] by linarith+
  have "g = generation (run cs m1) \<longleftrightarrow> sessions cs = 0"
    using word_add_of_nat_eq [OF s, of g] by (simp add: generation_run m1)
  moreover have "e = transportEpoch (run cs m1) \<longleftrightarrow> transports cs m1 = 0" if "sessions cs = 0"
    using word_add_of_nat_eq [OF t, of e] by (simp add: epoch_run [OF that] m1)
  ultimately show ?thesis by (auto simp: IsCurrent_def)
qed

section \<open>Only the newest transport is current\<close>

text \<open>A transport's token is current exactly until a newer transport or session starts: over
  any interleaving of fewer than 2^64 calls after BeginTransport handed out the token (g, e),
  IsCurrent holds for it if and only if no session began and no transport was started for the
  current generation in between; once superseded, SetPhaseForTransport with it changes nothing.\<close>

theorem transport_token_current_iff:
  assumes "BeginTransport g p m = ((e, True), m1)" "length cs < 2 ^ 64"
  shows "(IsCurrent g e (run cs m1) \<longleftrightarrow> sessions cs = 0 \<and> transports cs m1 = 0) \<and>
         (0 < sessions cs + transports cs m1 \<longrightarrow>
            SetPhaseForTransport g e q (run cs m1) = (False, run cs m1))"
  using current_iff [OF assms] by (auto simp: IsCurrent_def SetPhaseForTransport_def)

theorem transport_token_current_iff_witness:
  "\<not> IsCurrent 1 1 (run [CSetPhase PhaseP2PReady, CBeginTransport 1 PhaseRelayConnect]
       \<lparr>mphase = PhasePunching, generation = 1, transportEpoch = 1\<rparr>)"
proof -
  have b: "BeginTransport 1 PhasePunching \<lparr>mphase = PhaseInit, generation = 1, transportEpoch = 0\<rparr> =
      ((1, True), \<lparr>mphase = PhasePunching, generation = 1, transportEpoch = 1\<rparr>)"
    by (simp add: machine_defs)
  show ?thesis
    using transport_token_current_iff [OF b, of "[CSetPhase PhaseP2PReady, CBeginTransport 1 PhaseRelayConnect]"]
    by (simp add: machine_defs)
qed

text \<open>A late result of an older session has no effect: after a session's generation was handed
  out and between one and 2^64 - 1 newer sessions began, no call that carries the old generation
  changes the machine, and BeginTransport refuses it.\<close>

theorem stale_generation_harmless:
  assumes "BeginSession m = (g, m1)" "length cs < 2 ^ 64" "0 < sessions cs"
  shows "BeginTransport g p (run cs m1) = ((0, False), run cs m1) \<and>
         exec (CSetPhaseForGeneration g p) (run cs m1) = run cs m1 \<and>
         exec (CSetPhaseForTransport g e p) (run cs m1) = run cs m1"
proof -
  have "sessions cs < 2 ^ 64" using assms(2) sessions_le [of cs] by linarith
  then have "g \<noteq> generation (run cs m1)"
    using assms(1,3) word_add_of_nat_eq [of "sessions cs" g] by (auto simp: generation_run machine_defs)
  then show ?thesis by (simp add: machine_defs)
qed

theorem stale_generation_harmless_witness:
  "BeginTransport 1 PhaseP2PReady (run [CBeginSession] \<lparr>mphase = PhaseInit, generation = 1, transportEpoch = 0\<rparr>) =
     ((0, False), run [CBeginSession] \<lparr>mphase = PhaseInit, generation = 1, transportEpoch = 0\<rparr>)"
proof -
  have "BeginSession NewMachine = (1, \<lparr>mphase = PhaseInit, generation = 1, transportEpoch = 0\<rparr>)"
    by (simp add: machine_defs NewMachine_def)
  from stale_generation_harmless [OF this, of "[CBeginSession]" PhaseP2PReady] show ?thesis by simp
qed

text \<open>The lock-free IsCurrent can approve a transport that is not current at any time during
  the call: there are calls that another goroutine makes between the two loads so that the result
  is true although the token is superseded before, between and after them.\<close>

lemma is_current_torn_read:
  "\<exists>g e m cs. IsCurrent_loads g e m (run cs m) \<and>
     list_all (\<lambda>k. \<not> IsCurrent g e (run (take k cs) m)) [0..<Suc (length cs)]"
proof -
  let ?m = "\<lparr>mphase = PhaseRelayReady, generation = 1, transportEpoch = 2\<rparr>"
  let ?cs = "[CBeginSession, CBeginTransport 2 PhaseP2PReady]"
  have "IsCurrent_loads 1 1 ?m (run ?cs ?m) \<and>
      list_all (\<lambda>k. \<not> IsCurrent 1 1 (run (take k ?cs) ?m)) [0..<Suc (length ?cs)]"
    by (simp add: IsCurrent_loads_def machine_defs upt_rec numeral_2_eq_2)
  then show ?thesis by blast
qed

section \<open>The session table\<close>

datatype session_state = StateInit | StatePunching | StateConnected | StateTimeout

record entry =
  SessionID :: string
  ClientAddr :: string
  PeerAddr :: string
  LastActive :: int
  EState :: session_state

type_synonym table = "string \<rightharpoonup> entry"

definition IsExpired :: "int \<Rightarrow> int \<Rightarrow> entry \<Rightarrow> bool" where
  "IsExpired now timeout e \<longleftrightarrow> now - LastActive e > timeout"

definition NewTable :: table where "NewTable = Map.empty"

definition Add :: "int \<Rightarrow> string \<Rightarrow> string \<Rightarrow> table \<Rightarrow> table" where
  "Add now sid clientAddr t =
     t(sid \<mapsto> \<lparr>SessionID = sid, ClientAddr = clientAddr, PeerAddr = '''', LastActive = now, EState = StateInit\<rparr>)"

definition Get :: "string \<Rightarrow> table \<Rightarrow> entry option" where
  "Get sid t = t sid"

definition Update :: "int \<Rightarrow> string \<Rightarrow> session_state \<Rightarrow> table \<Rightarrow> bool \<times> table" where
  "Update now sid st t =
     (case t sid of
        None \<Rightarrow> (False, t)
      | Some e \<Rightarrow> (True, t(sid \<mapsto> e\<lparr>EState := st, LastActive := now\<rparr>)))"

definition Delete :: "string \<Rightarrow> table \<Rightarrow> table" where
  "Delete sid t = t(sid := None)"

text \<open>\<^verbatim>\<open>for sid, e := range t.sessions\<close>: \<open>order\<close> is the order in which the iteration meets the keys.\<close>

fun cleanup_loop :: "int \<Rightarrow> int \<Rightarrow> string list \<Rightarrow> table \<Rightarrow> table" where
  "cleanup_loop now timeout [] t = t"
| "cleanup_loop now timeout (sid # order) t =
     cleanup_loop now timeout order
       (case t sid of
          None \<Rightarrow> t
        | Some e \<Rightarrow> if IsExpired now timeout e then Delete sid t else t)"

definition Cleanup :: "int \<Rightarrow> int \<Rightarrow> string list \<Rightarrow> table \<Rightarrow> table" where
  "Cleanup now timeout order t = cleanup_loop now timeout order t"

lemma cleanup_loop_lookup:
  "cleanup_loop now timeout order t sid =
   (case t sid of
      None \<Rightarrow> None
    | Some e \<Rightarrow> if sid \<in> set order \<and> IsExpired now timeout e then None else Some e)"
  by (induction order arbitrary: t) (auto simp: Delete_def split: option.splits if_splits)

text \<open>A cleanup run removes exactly the sessions that have been idle for longer than the
  timeout: in whatever order the map is iterated, an expired session is gone afterwards and every
  other session is still there with the same contents.\<close>

lemma cleanup_exact:
  assumes "set order = dom t"
  shows "Get sid (Cleanup now timeout order t) =
         (case Get sid t of
            None \<Rightarrow> None
          | Some e \<Rightarrow> if now - LastActive e > timeout then None else Some e)"
  using assms
  by (auto simp: Get_def Cleanup_def cleanup_loop_lookup IsExpired_def split: option.splits)

lemma cleanup_exact_witness:
  "Get ''a'' (Cleanup 100 30 [''b'', ''a''] (Add 80 ''b'' ''y'' (Add 60 ''a'' ''x'' NewTable))) = None"
  using cleanup_exact [of "[''b'', ''a'']" "Add 80 ''b'' ''y'' (Add 60 ''a'' ''x'' NewTable)" "''a''" 100 30]
  by (auto simp: Add_def NewTable_def Get_def)

end
