(* ===== verification/Byte_Codec.thy ===== *)
theory Byte_Codec
  imports Prelude
begin

text \<open>
  The interface between the framing layer and the message codecs: what a decoder that peels one
  value off a byte stream and hands the rest back promises, and what its clients may conclude.
  The reader (\<open>ReadFrame\<close>), and the length-prefixed parts of the crypto transcript, are
  interpreted as instances in their own theories.
\<close>

section \<open>Standard library: readers and writers\<close>

datatype io_error = EOF | ErrUnexpectedEOF | ErrWrite

text \<open>
  \<^verbatim>\<open>io.ReadFull\<close> on a stream given by the bytes it will still deliver: all requested bytes,
  or \<^verbatim>\<open>io.EOF\<close> when none could be read, or \<^verbatim>\<open>io.ErrUnexpectedEOF\<close> when some could.
\<close>

definition ReadFull :: "nat \<Rightarrow> bytes \<Rightarrow> (io_error + bytes) \<times> bytes" where
  "ReadFull n s =
     (if n \<le> length s then (Inr (take n s), drop n s)
      else if s = [] then (Inl EOF, [])
      else (Inl ErrUnexpectedEOF, []))"

lemma ReadFull_append: "ReadFull (length h) (h @ s) = (Inr h, s)"
  by (simp add: ReadFull_def)

lemma ReadFull_Inr: "ReadFull n s = (Inr h, r) \<longleftrightarrow> s = h @ r \<and> length h = n"
  by (auto simp: ReadFull_def)

text \<open>
  An \<^verbatim>\<open>io.Writer\<close>: what it has accepted so far, and the number of bytes after which its
  connection breaks (\<^const>\<open>None\<close>: never).  A write that does not fit delivers what fits
  and fails.
\<close>

record writer =
  wout :: bytes
  wlimit :: "nat option"

definition goWrite :: "bytes \<Rightarrow> writer \<Rightarrow> (io_error + unit) \<times> writer" where
  "goWrite p w =
     (case wlimit w of
        None \<Rightarrow> (Inr (), w\<lparr>wout := wout w @ p\<rparr>)
      | Some k \<Rightarrow>
          if length (wout w) + length p \<le> k then (Inr (), w\<lparr>wout := wout w @ p\<rparr>)
          else (Inl ErrWrite, w\<lparr>wout := wout w @ take (k - length (wout w)) p\<rparr>))"

lemma goWrite_ok: "goWrite p w = (Inr (), w') \<Longrightarrow> w' = w\<lparr>wout := wout w @ p\<rparr>"
  by (auto simp: goWrite_def split: option.splits if_splits)

lemma goWrite_prefix: "goWrite p w = (r, w') \<Longrightarrow> \<exists>q. wout w' = wout w @ q \<and> prefix q p \<and> wlimit w' = wlimit w"
  by (auto simp: goWrite_def take_is_prefix split: option.splits if_splits)

lemma goWrite_unlimited [simp]:
  "wlimit w = None \<Longrightarrow> goWrite p w = (Inr (), w\<lparr>wout := wout w @ p\<rparr>)"
  by (simp add: goWrite_def)

section \<open>Stream codecs\<close>

text \<open>Reading a given number of values, one after the other, stopping at the first error.\<close>

primrec read_n :: "(bytes \<Rightarrow> ('e + 'a) \<times> bytes) \<Rightarrow> nat \<Rightarrow> bytes \<Rightarrow> ('e + 'a list) \<times> bytes" where
  "read_n dec 0 s = (Inr [], s)"
| "read_n dec (Suc n) s =
     (case dec s of
        (Inl e, s') \<Rightarrow> (Inl e, s')
      | (Inr x, s') \<Rightarrow>
          (case read_n dec n s' of
             (Inl e, s'') \<Rightarrow> (Inl e, s'')
           | (Inr xs, s'') \<Rightarrow> (Inr (x # xs), s'')))"

locale stream_decoder =
  fixes enc :: "'a \<Rightarrow> bytes"
    and dec :: "bytes \<Rightarrow> ('e + 'a) \<times> bytes"
    and ok :: "'a \<Rightarrow> bool"
  assumes dec_enc: "ok x \<Longrightarrow> dec (enc x @ rest) = (Inr x, rest)"
begin

lemma prefix_free: "ok x \<Longrightarrow> ok y \<Longrightarrow> enc x @ r = enc y @ s \<Longrightarrow> x = y \<and> r = s"
  by (metis dec_enc prod.inject sum.inject(2))

lemma enc_inject: "ok x \<Longrightarrow> ok y \<Longrightarrow> enc x = enc y \<longleftrightarrow> x = y"
  by (metis prefix_free)

lemma read_n_concat:
  "list_all ok xs \<Longrightarrow> read_n dec (length xs) (concat (map enc xs) @ rest) = (Inr xs, rest)"
  by (induction xs) (auto simp: dec_enc)

lemma concat_inject:
  "list_all ok xs \<Longrightarrow> list_all ok ys \<Longrightarrow> length xs = length ys \<Longrightarrow>
   concat (map enc xs) @ r = concat (map enc ys) @ s \<Longrightarrow> xs = ys \<and> r = s"
  by (metis read_n_concat prod.inject sum.inject(2))

end

text \<open>A canonical codec moreover accepts nothing but encodings of admissible values.\<close>

locale canonical_codec = stream_decoder +
  assumes enc_dec: "dec s = (Inr x, rest) \<Longrightarrow> ok x \<and> s = enc x @ rest"
begin

lemma accepts_iff: "dec s = (Inr x, rest) \<longleftrightarrow> ok x \<and> s = enc x @ rest"
  using dec_enc enc_dec by blast

lemma read_n_accepts:
  "read_n dec n s = (Inr xs, rest) \<Longrightarrow>
   list_all ok xs \<and> length xs = n \<and> s = concat (map enc xs) @ rest"
  by (induction n arbitrary: s xs) (auto split: prod.splits sum.splits simp: accepts_iff)

end

end
