(* ===== verification/Wire_Frame.thy ===== *)
theory Wire_Frame
  imports Byte_Codec
begin

text \<open>
  The wire protocol version 2 framing of \<^verbatim>\<open>pkg/proto/wire/wire.go\<close>: an eight-byte header (type,
  flags, payload length, all big-endian) followed by the payload.  A connection is modelled by
  the bytes it will still deliver (reading) and by a \<^typ>\<open>writer\<close> (writing).
\<close>

section \<open>Constants and data\<close>

definition ProtocolV1 :: string where "ProtocolV1 = ''v1''"
definition ProtocolV2 :: string where "ProtocolV2 = ''v2''"
definition FrameTypeClientHello :: "16 word" where "FrameTypeClientHello = 1"
definition FrameTypeServerHello :: "16 word" where "FrameTypeServerHello = 2"
definition FrameTypeMessage :: "16 word" where "FrameTypeMessage = 16"
definition MessageCodecJSON :: string where "MessageCodecJSON = ''json''"
definition UDPPacketCodecBinary :: string where "UDPPacketCodecBinary = ''binary-v1''"
definition DefaultMaxFramePayloadSize :: nat where "DefaultMaxFramePayloadSize = 64 * 1024"

text \<open>\<^verbatim>\<open>"FRP\x00\x02\r\n"\<close>\<close>

definition MagicV2 :: bytes where "MagicV2 = [0x46, 0x52, 0x50, 0x00, 0x02, 0x0D, 0x0A]"

record frame =
  FType :: "16 word"
  FFlags :: "16 word"
  FPayload :: bytes

record wconn =
  maxFramePayloadSize :: "32 word"

definition NewConn :: wconn where
  "NewConn = \<lparr>maxFramePayloadSize = word_of_nat DefaultMaxFramePayloadSize\<rparr>"

datatype wire_error =
    IOErr io_error
  | UnsupportedFlags "16 word"
  | FrameTooLarge nat "32 word"
  | UnexpectedFrameType "16 word" "16 word"
  | JSONErr

section \<open>Reading and writing frames\<close>

definition ReadFrame :: "wconn \<Rightarrow> bytes \<Rightarrow> (wire_error + frame) \<times> bytes" where
  "ReadFrame c s =
     (case ReadFull 8 s of
        (Inl e, s1) \<Rightarrow> (Inl (IOErr e), s1)
      | (Inr header, s1) \<Rightarrow>
          let frameType = get_u16 (take 2 header);
              flags = get_u16 (take 2 (drop 2 header));
              len = get_u32 (take 4 (drop 4 header))
          in if flags \<noteq> 0 then (Inl (UnsupportedFlags flags), s1)
             else if len > maxFramePayloadSize c
               then (Inl (FrameTooLarge (unat len) (maxFramePayloadSize c)), s1)
             else (case ReadFull (unat len) s1 of
                     (Inl e, s2) \<Rightarrow> (Inl (IOErr e), s2)
                   | (Inr p, s2) \<Rightarrow>
                       (Inr \<lparr>FType = frameType, FFlags = flags, FPayload = p\<rparr>, s2)))"

definition frame_header :: "frame \<Rightarrow> bytes" where
  "frame_header f =
     put_u16 (FType f) @ put_u16 (FFlags f) @ put_u32 (word_of_nat (length (FPayload f)))"

definition WriteFrame :: "wconn \<Rightarrow> frame \<Rightarrow> writer \<Rightarrow> (wire_error + unit) \<times> writer" where
  "WriteFrame c f w =
     (if FFlags f \<noteq> 0 then (Inl (UnsupportedFlags (FFlags f)), w)
      else if length (FPayload f) > unat (maxFramePayloadSize c)
        then (Inl (FrameTooLarge (length (FPayload f)) (maxFramePayloadSize c)), w)
      else (case goWrite (frame_header f) w of
              (Inl e, w1) \<Rightarrow> (Inl (IOErr e), w1)
            | (Inr _, w1) \<Rightarrow>
                (case goWrite (FPayload f) w1 of
                   (Inl e, w2) \<Rightarrow> (Inl (IOErr e), w2)
                 | (Inr _, w2) \<Rightarrow> (Inr (), w2))))"

text \<open>
  JSON frames.  The JSON decoder and encoder of the body are arguments: what they do with a
  particular Go struct is determined by its field tags, which the framing does not look at.
\<close>

definition ReadJSONFrame ::
    "wconn \<Rightarrow> (bytes \<Rightarrow> 'j option) \<Rightarrow> 16 word \<Rightarrow> bytes \<Rightarrow> (wire_error + 'j) \<times> bytes" where
  "ReadJSONFrame c unmarshal frameType s =
     (case ReadFrame c s of
        (Inl e, s1) \<Rightarrow> (Inl e, s1)
      | (Inr f, s1) \<Rightarrow>
          if FType f \<noteq> frameType then (Inl (UnexpectedFrameType (FType f) frameType), s1)
          else (case unmarshal (FPayload f) of
                  None \<Rightarrow> (Inl JSONErr, s1)
                | Some j \<Rightarrow> (Inr j, s1)))"

definition NewJSONFrame :: "('j \<Rightarrow> bytes option) \<Rightarrow> 16 word \<Rightarrow> 'j \<Rightarrow> wire_error + frame" where
  "NewJSONFrame marshal frameType j =
     (case marshal j of
        None \<Rightarrow> Inl JSONErr
      | Some p \<Rightarrow> Inr \<lparr>FType = frameType, FFlags = 0, FPayload = p\<rparr>)"

definition WriteJSONFrame ::
    "wconn \<Rightarrow> ('j \<Rightarrow> bytes option) \<Rightarrow> 16 word \<Rightarrow> 'j \<Rightarrow> writer \<Rightarrow> (wire_error + unit) \<times> writer" where
  "WriteJSONFrame c marshal frameType j w =
     (case NewJSONFrame marshal frameType j of
        Inl e \<Rightarrow> (Inl e, w)
      | Inr f \<Rightarrow> WriteFrame c f w)"

section \<open>The magic prefix\<close>

definition WriteMagic :: "writer \<Rightarrow> (io_error + unit) \<times> writer" where
  "WriteMagic w = goWrite MagicV2 w"

definition WriteMagicIfV2 :: "string \<Rightarrow> writer \<Rightarrow> (io_error + unit) \<times> writer" where
  "WriteMagicIfV2 wireProtocol w =
     (if wireProtocol \<noteq> ProtocolV2 then (Inr (), w) else WriteMagic w)"

text \<open>
  \<open>CheckMagic\<close> returns the stream the caller goes on with.  When the magic does not match, that
  is the shared connection of \<^verbatim>\<open>golib/net\<close>, which delivers the bytes read so far again.
\<close>

definition CheckMagic :: "bytes \<Rightarrow> io_error + (bytes \<times> bool)" where
  "CheckMagic s =
     (case ReadFull (length MagicV2) s of
        (Inl e, _) \<Rightarrow> Inl e
      | (Inr buf, rest) \<Rightarrow> if buf \<noteq> MagicV2 then Inr (s, False) else Inr (rest, True))"

section \<open>Round trip\<close>

definition frame_ok :: "wconn \<Rightarrow> frame \<Rightarrow> bool" where
  "frame_ok c f \<longleftrightarrow> FFlags f = 0 \<and> length (FPayload f) \<le> unat (maxFramePayloadSize c)"

definition frame_bytes :: "frame \<Rightarrow> bytes" where
  "frame_bytes f = frame_header f @ FPayload f"

lemma length_frame_header [simp]: "length (frame_header f) = 8"
  by (simp add: frame_header_def)

lemma frame_header_fields:
  "get_u16 (take 2 (frame_header f)) = FType f"
  "get_u16 (take 2 (drop 2 (frame_header f))) = FFlags f"
  "get_u32 (take 4 (drop 4 (frame_header f))) = word_of_nat (length (FPayload f))"
  "get_u32 (drop 4 (frame_header f)) = word_of_nat (length (FPayload f))"
  by (simp_all add: frame_header_def)

lemma frame_ok_length:
  assumes "frame_ok c f"
  shows "unat (word_of_nat (length (FPayload f)) :: 32 word) = length (FPayload f)"
    and "\<not> maxFramePayloadSize c < word_of_nat (length (FPayload f))"
proof -
  have "length (FPayload f) \<le> unat (maxFramePayloadSize c)"
    using assms by (simp add: frame_ok_def)
  moreover have "unat (maxFramePayloadSize c) < 2 ^ 32"
    using unsigned_less [of "maxFramePayloadSize c", where 'a = nat] by simp
  ultimately show eq: "unat (word_of_nat (length (FPayload f)) :: 32 word) = length (FPayload f)"
    by (simp add: unat_of_nat)
  show "\<not> maxFramePayloadSize c < word_of_nat (length (FPayload f))"
    using \<open>length (FPayload f) \<le> _\<close> by (simp add: word_less_nat_alt eq)
qed

lemma ReadFrame_frame_bytes:
  assumes "frame_ok c f"
  shows "ReadFrame c (frame_bytes f @ rest) = (Inr f, rest)"
proof -
  have "ReadFull 8 (frame_bytes f @ rest) = (Inr (frame_header f), FPayload f @ rest)"
    using ReadFull_append [of "frame_header f" "FPayload f @ rest"] by (simp add: frame_bytes_def)
  moreover have "FFlags f = 0" using assms by (simp add: frame_ok_def)
  moreover note frame_ok_length [OF assms]
  ultimately show ?thesis
    by (simp add: ReadFrame_def frame_header_fields Let_def ReadFull_append)
qed

lemma header_fields_determine:
  assumes "length h = 8" and "get_u16 (take 2 (drop 2 h)) = 0"
  shows "put_u16 (get_u16 (take 2 h)) @ put_u16 0 @ put_u32 (get_u32 (take 4 (drop 4 h))) = h"
proof -
  have "h = take 2 h @ take 2 (drop 2 h) @ take 4 (drop 4 h)"
    using assms(1) by (metis (no_types, lifting) append_take_drop_id drop_drop length_drop
        diff_is_0_eq' drop_all numeral_Bit0 order_refl take_all_iff add_diff_cancel_left')
  moreover have "put_u16 (get_u16 (take 2 h)) = take 2 h"
    "put_u16 0 = take 2 (drop 2 h)" "put_u32 (get_u32 (take 4 (drop 4 h))) = take 4 (drop 4 h)"
    using assms put_get_u16 [of "take 2 h"] put_get_u16 [of "take 2 (drop 2 h)"]
      put_get_u32 [of "take 4 (drop 4 h)"] by simp_all
  ultimately show ?thesis by simp
qed

lemma ReadFrame_accepts:
  assumes "ReadFrame c s = (Inr f, rest)"
  shows "frame_ok c f \<and> s = frame_bytes f @ rest"
proof -
  from assms obtain h p s1 where
    h: "s = h @ s1" "length h = 8" and
    flags: "get_u16 (take 2 (drop 2 h)) = 0" and
    len: "\<not> maxFramePayloadSize c < get_u32 (take 4 (drop 4 h))" and
    p: "s1 = p @ rest" "length p = unat (get_u32 (take 4 (drop 4 h)))" and
    f: "f = \<lparr>FType = get_u16 (take 2 h), FFlags = 0, FPayload = p\<rparr>"
    by (auto simp: ReadFrame_def Let_def ReadFull_Inr split: prod.splits sum.splits if_splits)
  have "frame_header f = h"
    using header_fields_determine [OF h(2) flags] p(2) by (simp add: frame_header_def f)
  with h p show ?thesis
    using len by (simp add: frame_bytes_def f frame_ok_def word_less_nat_alt)
qed

interpretation frames: canonical_codec frame_bytes "ReadFrame c" "frame_ok c" for c
  by unfold_locales (auto simp: ReadFrame_frame_bytes dest: ReadFrame_accepts)

lemma WriteFrame_ok:
  "WriteFrame c f w = (Inr (), w') \<longleftrightarrow>
   frame_ok c f \<and> goWrite (frame_header f) w = (Inr (), w\<lparr>wout := wout w @ frame_header f\<rparr>) \<and>
   goWrite (FPayload f) (w\<lparr>wout := wout w @ frame_header f\<rparr>) = (Inr (), w') "
  by (auto simp: WriteFrame_def frame_ok_def split: prod.splits sum.splits dest: goWrite_ok)

lemma WriteFrame_out: "WriteFrame c f w = (Inr (), w') \<Longrightarrow> wout w' = wout w @ frame_bytes f \<and> frame_ok c f"
  by (auto simp: WriteFrame_ok frame_bytes_def dest: goWrite_ok)

lemma WriteFrame_unlimited:
  "wlimit w = None \<Longrightarrow> frame_ok c f \<Longrightarrow>
   WriteFrame c f w = (Inr (), w\<lparr>wout := wout w @ frame_bytes f\<rparr>)"
  by (simp add: WriteFrame_def frame_ok_def frame_bytes_def)

text \<open>Writing frames one after the other, stopping at the first error.\<close>

primrec write_frames :: "wconn \<Rightarrow> frame list \<Rightarrow> writer \<Rightarrow> (wire_error + unit) \<times> writer" where
  "write_frames c [] w = (Inr (), w)"
| "write_frames c (f # fs) w =
     (case WriteFrame c f w of
        (Inl e, w1) \<Rightarrow> (Inl e, w1)
      | (Inr _, w1) \<Rightarrow> write_frames c fs w1)"

lemma write_frames_unlimited:
  "list_all (frame_ok c) fs \<Longrightarrow> wlimit w = None \<Longrightarrow>
   write_frames c fs w = (Inr (), w\<lparr>wout := wout w @ concat (map frame_bytes fs)\<rparr>)"
  by (induction fs arbitrary: w) (simp_all add: WriteFrame_unlimited)

lemma ReadFrame_strict_prefix:
  assumes "frame_ok c f" "frame_bytes f = s @ t" "t \<noteq> []"
  shows "\<exists>e. ReadFrame c s = (Inl (IOErr e), [])"
proof (cases "8 \<le> length s")
  case False
  then show ?thesis by (simp add: ReadFrame_def ReadFull_def)
next
  case True
  then obtain p where s: "s = frame_header f @ p"
    using assms(2) by (metis (no_types, lifting) append_eq_append_conv2 append_take_drop_id frame_bytes_def
        length_frame_header length_take min.absorb2 append_eq_append_conv)
  then have "FPayload f = p @ t" using assms(2) by (simp add: frame_bytes_def)
  then have "\<not> length (FPayload f) \<le> length p" using assms(3) by simp
  moreover have "ReadFull 8 s = (Inr (frame_header f), p)"
    using ReadFull_append [of "frame_header f" p] s by simp
  moreover have "FFlags f = 0" using assms(1) by (simp add: frame_ok_def)
  moreover note frame_ok_length [OF assms(1)]
  ultimately show ?thesis by (simp add: ReadFrame_def frame_header_fields Let_def ReadFull_def)
qed

lemma WriteFrame_torn:
  assumes "WriteFrame c f w = (Inl (IOErr e), w')"
  shows "frame_ok c f \<and> (\<exists>s t. wout w' = wout w @ s \<and> frame_bytes f = s @ t \<and> t \<noteq> [])"
proof -
  have ok: "frame_ok c f" using assms by (auto simp: WriteFrame_def frame_ok_def split: if_splits)
  obtain k where k: "wlimit w = Some k"
    using assms WriteFrame_unlimited [of w c f] ok by (cases "wlimit w") auto
  show ?thesis
  proof (cases "length (wout w) + 8 \<le> k")
    case True
    then have "wout w' = wout w @ frame_header f @ take (k - length (wout w) - 8) (FPayload f) \<and>
        \<not> length (wout w) + 8 + length (FPayload f) \<le> k"
      using assms k ok by (auto simp: WriteFrame_def frame_ok_def goWrite_def split: if_splits)
    with ok True show ?thesis
      by (intro conjI exI [of _ "frame_header f @ take (k - length (wout w) - 8) (FPayload f)"]
          exI [of _ "drop (k - length (wout w) - 8) (FPayload f)"])
         (auto simp: frame_bytes_def)
  next
    case False
    then have "wout w' = wout w @ take (k - length (wout w)) (frame_header f)"
      using assms k ok by (auto simp: WriteFrame_def frame_ok_def goWrite_def split: if_splits)
    with ok False show ?thesis
      by (intro conjI exI [of _ "take (k - length (wout w)) (frame_header f)"]
          exI [of _ "drop (k - length (wout w)) (frame_header f) @ FPayload f"])
         (auto simp: frame_bytes_def)
  qed
qed

text \<open>Frames survive the wire: admissible frames written to a connection that stays up are
  read back as the same frames in the same order, and what follows them is left untouched.\<close>

lemma frame_stream_roundtrip:
  assumes "list_all (frame_ok c) fs" "wlimit w = None"
  shows "\<exists>out w'. write_frames c fs w = (Inr (), w') \<and> wout w' = wout w @ out \<and>
           read_n (ReadFrame c) (length fs) (out @ rest) = (Inr fs, rest)"
  using write_frames_unlimited [OF assms] frames.read_n_concat [OF assms(1), of rest] by simp

definition demo_frames :: "frame list" where
  "demo_frames = [\<lparr>FType = 1, FFlags = 0, FPayload = [7]\<rparr>, \<lparr>FType = 16, FFlags = 0, FPayload = []\<rparr>]"

lemma frame_stream_roundtrip_witness:
  "\<exists>out w'. write_frames NewConn demo_frames \<lparr>wout = [9], wlimit = None\<rparr> = (Inr (), w') \<and>
      wout w' = wout \<lparr>wout = [9], wlimit = None\<rparr> @ out \<and>
      read_n (ReadFrame NewConn) (length demo_frames) (out @ [4]) = (Inr demo_frames, [4])"
proof (rule frame_stream_roundtrip)
  show "list_all (frame_ok NewConn) demo_frames"
    by (simp add: demo_frames_def frame_ok_def NewConn_def DefaultMaxFramePayloadSize_def)
qed simp

text \<open>The reader accepts exactly the writer's language: ReadFrame returns a frame and a rest
  precisely when the stream is that frame's encoding, with no flags and a payload within the
  limit, followed by the rest.\<close>

theorem ReadFrame_exact:
  "ReadFrame c s = (Inr f, rest) \<longleftrightarrow>
   FFlags f = 0 \<and> length (FPayload f) \<le> unat (maxFramePayloadSize c) \<and> s = frame_bytes f @ rest"
  using frames.accepts_iff [of c s f rest] by (auto simp: frame_ok_def)

text \<open>A torn frame is never mistaken for a message: when the connection breaks inside
  WriteFrame, what did arrive of that frame makes the reader fail with an I/O error.\<close>

theorem torn_frame_detected:
  assumes "WriteFrame c f w = (Inl (IOErr e), w')"
  shows "\<exists>s. wout w' = wout w @ s \<and> (\<exists>e'. ReadFrame c s = (Inl (IOErr e'), []))"
  using WriteFrame_torn [OF assms] ReadFrame_strict_prefix by blast

theorem torn_frame_detected_witness:
  "\<exists>s. [1, 0, 16, 0, 0, 0, 0, 0, 2, 5] = [1] @ s \<and> (\<exists>e'. ReadFrame NewConn s = (Inl (IOErr e'), []))"
proof -
  have "WriteFrame NewConn \<lparr>FType = 16, FFlags = 0, FPayload = [5, 6]\<rparr> \<lparr>wout = [1], wlimit = Some 10\<rparr> =
      (Inl (IOErr ErrWrite), \<lparr>wout = [1, 0, 16, 0, 0, 0, 0, 0, 2, 5], wlimit = Some 10\<rparr>)"
    by (simp add: WriteFrame_def NewConn_def DefaultMaxFramePayloadSize_def frame_header_def put_u16_def
        put_u32_def goWrite_def)
  from torn_frame_detected [OF this] show ?thesis by simp
qed

end
