(* ===== verification/Wire_Hello.thy ===== *)
theory Wire_Hello
  imports Wire_Frame Go_Strings
begin

text \<open>
  Capability and crypto negotiation of wire protocol version 2: the hello structures of
  \<^verbatim>\<open>pkg/proto/wire/wire.go\<close>, the selection and validation functions and the transcript hash of
  \<^verbatim>\<open>pkg/proto/wire/crypto.go\<close>, the server's \<^verbatim>\<open>handleClientHello\<close> (\<^verbatim>\<open>server/service.go\<close>) and
  the client's reading of the server hello (\<^verbatim>\<open>client/control_session.go\<close>).

  Arguments of the definitions stand for what the source takes from elsewhere: the JSON encoding
  of the two hello structures, the system's random source, the processor features and SHA-256.
\<close>

section \<open>Hello structures\<close>

record bootstrap_info =
  BTransport :: string
  BTLS :: bool
  BTCPMux :: bool

record message_caps =
  Codecs :: "string list"
  UDPPacketCodecs :: "string list"

record crypto_caps =
  Algorithms :: "string list"
  ClientRandom :: bytes

record client_caps =
  CMessage :: message_caps
  CCrypto :: crypto_caps

record client_hello =
  Bootstrap :: bootstrap_info
  Capabilities :: client_caps

record message_selection =
  Codec :: string
  UDPPacketCodec :: string

record crypto_selection =
  Algorithm :: string
  ServerRandom :: bytes

record server_selection =
  SMessage :: message_selection
  SCrypto :: crypto_selection

record server_hello =
  Selected :: server_selection
  SError :: string

record crypto_context =
  CtxAlgorithm :: string
  TranscriptHash :: bytes

datatype hello_error =
    UnsupportedMessageCodec
  | BadClientRandom nat
  | NoSupportedCrypto
  | RandomFailed string
  | SelectedCodec string
  | SelectedUDPCodec string
  | UDPCodecNotAdvertised string
  | UnknownAlgorithm string
  | AlgorithmNotAdvertised string
  | BadServerRandom nat

text \<open>What the exchange of the two hellos can fail with.\<close>

datatype exchange_error =
    HelloErr hello_error
  | DecodeClientHello
  | DecodeServerHello
  | EncodeClientHello
  | EncodeServerHello
  | HelloWire wire_error
  | PeerError string

section \<open>Algorithms\<close>

definition AEADAlgorithmAES256GCM :: string where
  "AEADAlgorithmAES256GCM = ''aes-256-gcm''"
definition AEADAlgorithmXChaCha20Poly1305 :: string where
  "AEADAlgorithmXChaCha20Poly1305 = ''xchacha20-poly1305''"
definition CryptoRandomSize :: nat where "CryptoRandomSize = 32"

definition supportedAEADAlgorithms :: "string list" where
  "supportedAEADAlgorithms = [AEADAlgorithmAES256GCM, AEADAlgorithmXChaCha20Poly1305]"

definition Supports :: "string list \<Rightarrow> string \<Rightarrow> bool" where
  "Supports l v \<longleftrightarrow> v \<in> set l"

definition IsSupportedAEADAlgorithm :: "string \<Rightarrow> bool" where
  "IsSupportedAEADAlgorithm a = Supports supportedAEADAlgorithms a"

fun SelectAEADAlgorithm :: "string list \<Rightarrow> string option" where
  "SelectAEADAlgorithm [] = None"
| "SelectAEADAlgorithm (a # as) =
     (if IsSupportedAEADAlgorithm a then Some a else SelectAEADAlgorithm as)"

text \<open>The processor is given by \<^verbatim>\<open>runtime.GOARCH\<close> and the feature flags of \<^verbatim>\<open>x/sys/cpu\<close>.\<close>

definition hasFastAESGCM :: "string \<Rightarrow> (string \<Rightarrow> bool) \<Rightarrow> bool" where
  "hasFastAESGCM goarch cpu =
     (if goarch = ''amd64'' then
        cpu ''X86.HasAES'' \<and> cpu ''X86.HasPCLMULQDQ'' \<and> cpu ''X86.HasSSE41'' \<and> cpu ''X86.HasSSSE3''
      else if goarch = ''arm64'' then cpu ''ARM64.HasAES'' \<and> cpu ''ARM64.HasPMULL''
      else if goarch = ''s390x'' then
        cpu ''S390X.HasAES'' \<and> cpu ''S390X.HasAESCTR'' \<and> cpu ''S390X.HasGHASH''
      else if goarch = ''ppc64'' \<or> goarch = ''ppc64le'' then True
      else False)"

definition PreferredAEADAlgorithms :: "bool \<Rightarrow> string list" where
  "PreferredAEADAlgorithms fast =
     (if fast then [AEADAlgorithmAES256GCM, AEADAlgorithmXChaCha20Poly1305]
      else [AEADAlgorithmXChaCha20Poly1305, AEADAlgorithmAES256GCM])"

section \<open>Building and checking hellos\<close>

text \<open>The system's random source fills a buffer of the requested size or fails with a text.\<close>

definition newCryptoRandom :: "(nat \<Rightarrow> string + bytes) \<Rightarrow> hello_error + bytes" where
  "newCryptoRandom rand = mapErr RandomFailed (rand CryptoRandomSize)"

definition clientHelloWithCryptoRandom :: "bool \<Rightarrow> bootstrap_info \<Rightarrow> bytes \<Rightarrow> client_hello" where
  "clientHelloWithCryptoRandom fast b r =
     \<lparr>Bootstrap = b,
      Capabilities =
        \<lparr>CMessage = \<lparr>Codecs = [MessageCodecJSON], UDPPacketCodecs = [UDPPacketCodecBinary]\<rparr>,
         CCrypto = \<lparr>Algorithms = PreferredAEADAlgorithms fast, ClientRandom = r\<rparr>\<rparr>\<rparr>"

definition NewClientHello ::
    "(nat \<Rightarrow> string + bytes) \<Rightarrow> bool \<Rightarrow> bootstrap_info \<Rightarrow> hello_error + client_hello" where
  "NewClientHello rand fast b =
     bindR (newCryptoRandom rand) (\<lambda>r. Inr (clientHelloWithCryptoRandom fast b r))"

definition DefaultServerHello :: server_hello where
  "DefaultServerHello =
     \<lparr>Selected = \<lparr>SMessage = \<lparr>Codec = MessageCodecJSON, UDPPacketCodec = ''''\<rparr>,
                  SCrypto = \<lparr>Algorithm = '''', ServerRandom = []\<rparr>\<rparr>,
      SError = ''''\<rparr>"

definition ValidateCryptoCapabilities :: "crypto_caps \<Rightarrow> hello_error + unit" where
  "ValidateCryptoCapabilities c =
     (if length (ClientRandom c) \<noteq> CryptoRandomSize then Inl (BadClientRandom (length (ClientRandom c)))
      else if SelectAEADAlgorithm (Algorithms c) = None then Inl NoSupportedCrypto
      else Inr ())"

definition ValidateClientHello :: "client_hello \<Rightarrow> hello_error + unit" where
  "ValidateClientHello h =
     (if \<not> Supports (Codecs (CMessage (Capabilities h))) MessageCodecJSON
        then Inl UnsupportedMessageCodec
      else ValidateCryptoCapabilities (CCrypto (Capabilities h)))"

definition selectUDPPacketCodec :: "string list \<Rightarrow> string" where
  "selectUDPPacketCodec codecs =
     (if Supports codecs UDPPacketCodecBinary then UDPPacketCodecBinary else '''')"

definition NewServerHello ::
    "(nat \<Rightarrow> string + bytes) \<Rightarrow> client_hello \<Rightarrow> hello_error + server_hello" where
  "NewServerHello rand h =
     bindR (ValidateClientHello h) (\<lambda>_.
       (case SelectAEADAlgorithm (Algorithms (CCrypto (Capabilities h))) of
          None \<Rightarrow> Inl NoSupportedCrypto
        | Some a \<Rightarrow>
            bindR (newCryptoRandom rand) (\<lambda>r.
              Inr \<lparr>Selected =
                     \<lparr>SMessage =
                        \<lparr>Codec = MessageCodecJSON,
                         UDPPacketCodec =
                           selectUDPPacketCodec (UDPPacketCodecs (CMessage (Capabilities h)))\<rparr>,
                      SCrypto = \<lparr>Algorithm = a, ServerRandom = r\<rparr>\<rparr>,
                   SError = ''''\<rparr>)))"

definition ValidateServerHelloForClient :: "client_hello \<Rightarrow> server_hello \<Rightarrow> hello_error + unit" where
  "ValidateServerHelloForClient ch sh =
     (let m = SMessage (Selected sh); cs = SCrypto (Selected sh); u = UDPPacketCodec m in
      if Codec m \<noteq> MessageCodecJSON then Inl (SelectedCodec (Codec m))
      else if u \<noteq> '''' \<and> u \<noteq> UDPPacketCodecBinary then Inl (SelectedUDPCodec u)
      else if u \<noteq> '''' \<and> \<not> Supports (UDPPacketCodecs (CMessage (Capabilities ch))) u
        then Inl (UDPCodecNotAdvertised u)
      else if \<not> IsSupportedAEADAlgorithm (Algorithm cs) then Inl (UnknownAlgorithm (Algorithm cs))
      else if \<not> Supports (Algorithms (CCrypto (Capabilities ch))) (Algorithm cs)
        then Inl (AlgorithmNotAdvertised (Algorithm cs))
      else if length (ServerRandom cs) \<noteq> CryptoRandomSize
        then Inl (BadServerRandom (length (ServerRandom cs)))
      else Inr ())"

section \<open>Transcript\<close>

text \<open>A running hash is the list of bytes written to it.\<close>

definition cryptoTranscriptLabel :: string where
  "cryptoTranscriptLabel = ''frp wire v2 crypto transcript''"

definition writeCryptoTranscriptPart :: "bytes \<Rightarrow> string \<Rightarrow> bytes \<Rightarrow> bytes" where
  "writeCryptoTranscriptPart h label p =
     h @ [0] @ bytes_of_string label @ [0] @ put_u64 (word_of_nat (length p)) @ p"

definition transcript :: "bytes \<Rightarrow> bytes \<Rightarrow> bytes" where
  "transcript c s =
     writeCryptoTranscriptPart
       (writeCryptoTranscriptPart (bytes_of_string cryptoTranscriptLabel) ''client hello'' c)
       ''server hello'' s"

definition HashCryptoTranscript :: "(bytes \<Rightarrow> bytes) \<Rightarrow> bytes \<Rightarrow> bytes \<Rightarrow> bytes" where
  "HashCryptoTranscript sha256 c s = sha256 (transcript c s)"

definition NewCryptoContext :: "(bytes \<Rightarrow> bytes) \<Rightarrow> string \<Rightarrow> bytes \<Rightarrow> bytes \<Rightarrow> crypto_context" where
  "NewCryptoContext sha256 a c s =
     \<lparr>CtxAlgorithm = a, TranscriptHash = HashCryptoTranscript sha256 c s\<rparr>"

definition NewClientCryptoContext ::
    "(bytes \<Rightarrow> bytes) \<Rightarrow> (bytes \<Rightarrow> client_hello option) \<Rightarrow> (bytes \<Rightarrow> server_hello option) \<Rightarrow>
     bytes \<Rightarrow> bytes \<Rightarrow> exchange_error + crypto_context" where
  "NewClientCryptoContext sha256 unCH unSH c s =
     (case unCH c of
        None \<Rightarrow> Inl DecodeClientHello
      | Some ch \<Rightarrow>
          (case unSH s of
             None \<Rightarrow> Inl DecodeServerHello
           | Some sh \<Rightarrow>
               bindR (mapErr HelloErr (ValidateServerHelloForClient ch sh)) (\<lambda>_.
                 Inr (NewCryptoContext sha256 (Algorithm (SCrypto (Selected sh))) c s))))"

section \<open>The exchange\<close>

text \<open>The text of an error, as \<^verbatim>\<open>err.Error()\<close> gives it.\<close>

fun hello_error_string :: "hello_error \<Rightarrow> string" where
  "hello_error_string UnsupportedMessageCodec = ''unsupported message codec''"
| "hello_error_string (BadClientRandom n) =
     ''invalid crypto client random length '' @ Itoa (int n) @ '', want 32''"
| "hello_error_string NoSupportedCrypto = ''no supported crypto algorithm''"
| "hello_error_string (RandomFailed e) = ''generate crypto random: '' @ e"
| "hello_error_string (SelectedCodec s) = ''unsupported selected message codec: '' @ s"
| "hello_error_string (SelectedUDPCodec s) = ''unsupported selected UDP packet codec: '' @ s"
| "hello_error_string (UDPCodecNotAdvertised s) =
     ''selected UDP packet codec was not advertised by client: '' @ s"
| "hello_error_string (UnknownAlgorithm s) = ''unknown selected crypto algorithm: '' @ s"
| "hello_error_string (AlgorithmNotAdvertised s) =
     ''selected crypto algorithm was not advertised by client: '' @ s"
| "hello_error_string (BadServerRandom n) =
     ''invalid crypto server random length '' @ Itoa (int n) @ '', want 32''"

text \<open>The client's opening: the magic and the client hello, whose payload it keeps.\<close>

definition sendClientHello ::
    "wconn \<Rightarrow> (nat \<Rightarrow> string + bytes) \<Rightarrow> (client_hello \<Rightarrow> bytes option) \<Rightarrow> bool \<Rightarrow> bootstrap_info \<Rightarrow>
     writer \<Rightarrow> (exchange_error + bytes) \<times> writer" where
  "sendClientHello c rand maCH fast b w =
     (case WriteMagic w of
        (Inl e, w1) \<Rightarrow> (Inl (HelloWire (IOErr e)), w1)
      | (Inr _, w1) \<Rightarrow>
          (case NewClientHello rand fast b of
             Inl e \<Rightarrow> (Inl (HelloErr e), w1)
           | Inr ch \<Rightarrow>
               (case NewJSONFrame maCH FrameTypeClientHello ch of
                  Inl _ \<Rightarrow> (Inl EncodeClientHello, w1)
                | Inr f \<Rightarrow>
                    (case WriteFrame c f w1 of
                       (Inl e, w2) \<Rightarrow> (Inl (HelloWire e), w2)
                     | (Inr _, w2) \<Rightarrow> (Inr (FPayload f), w2)))))"

text \<open>
  The server's side, from a received client hello frame: on success the frame it writes and what
  it records in the accepted connection (the crypto context and the packet codec); on failure the
  error, after writing a hello that carries its text.
\<close>

definition handleClientHello ::
    "wconn \<Rightarrow> (bytes \<Rightarrow> bytes) \<Rightarrow> (nat \<Rightarrow> string + bytes) \<Rightarrow> (bytes \<Rightarrow> client_hello option) \<Rightarrow>
     (server_hello \<Rightarrow> bytes option) \<Rightarrow> frame \<Rightarrow> writer \<Rightarrow>
     (exchange_error + (crypto_context \<times> string)) \<times> writer" where
  "handleClientHello c sha256 rand unCH maSH f w =
     (case unCH (FPayload f) of
        None \<Rightarrow> (Inl DecodeClientHello, w)
      | Some ch \<Rightarrow>
          (case NewServerHello rand ch of
             Inl e \<Rightarrow>
               (let sh = DefaultServerHello\<lparr>SError := hello_error_string e\<rparr> in
                case WriteJSONFrame c maSH FrameTypeServerHello sh w of
                  (_, w1) \<Rightarrow> (Inl (HelloErr e), w1))
           | Inr sh \<Rightarrow>
               (case NewJSONFrame maSH FrameTypeServerHello sh of
                  Inl _ \<Rightarrow> (Inl EncodeServerHello, w)
                | Inr shf \<Rightarrow>
                    let ctx = NewCryptoContext sha256 (Algorithm (SCrypto (Selected sh)))
                                (FPayload f) (FPayload shf) in
                    (case WriteFrame c shf w of
                       (Inl e, w1) \<Rightarrow> (Inl (HelloWire e), w1)
                     | (Inr _, w1) \<Rightarrow> (Inr (ctx, UDPPacketCodec (SMessage (Selected sh))), w1)))))"

text \<open>The client's side: reading and checking the server hello in \<^verbatim>\<open>exchangeLogin\<close>.\<close>

definition readServerHello ::
    "wconn \<Rightarrow> (bytes \<Rightarrow> bytes) \<Rightarrow> (bytes \<Rightarrow> client_hello option) \<Rightarrow> (bytes \<Rightarrow> server_hello option) \<Rightarrow>
     bytes \<Rightarrow> bytes \<Rightarrow> (exchange_error + (crypto_context \<times> string)) \<times> bytes" where
  "readServerHello c sha256 unCH unSH clientHelloPayload s =
     (case ReadFrame c s of
        (Inl e, s1) \<Rightarrow> (Inl (HelloWire e), s1)
      | (Inr f, s1) \<Rightarrow>
          if FType f \<noteq> FrameTypeServerHello
            then (Inl (HelloWire (UnexpectedFrameType (FType f) FrameTypeServerHello)), s1)
          else (case unSH (FPayload f) of
                  None \<Rightarrow> (Inl DecodeServerHello, s1)
                | Some sh \<Rightarrow>
                    if SError sh \<noteq> '''' then (Inl (PeerError (SError sh)), s1)
                    else (bindR (NewClientCryptoContext sha256 unCH unSH clientHelloPayload (FPayload f))
                            (\<lambda>ctx. Inr (ctx, UDPPacketCodec (SMessage (Selected sh)))), s1)))"

section \<open>What the negotiation guarantees\<close>

lemma SelectAEADAlgorithm_SomeD:
  "SelectAEADAlgorithm as = Some a \<Longrightarrow> IsSupportedAEADAlgorithm a \<and> a \<in> set as"
  by (induction as) (auto split: if_splits)

lemma SelectAEADAlgorithm_first:
  "SelectAEADAlgorithm as = Some a \<Longrightarrow>
   \<exists>us vs. as = us @ a # vs \<and> list_all (\<lambda>u. \<not> IsSupportedAEADAlgorithm u) us"
proof (induction as)
  case Nil
  then show ?case by simp
next
  case (Cons x xs)
  show ?case
  proof (cases "IsSupportedAEADAlgorithm x")
    case True
    with Cons.prems show ?thesis by (intro exI [of _ "[]"] exI [of _ xs]) simp
  next
    case False
    with Cons obtain us vs where "xs = us @ a # vs" "list_all (\<lambda>u. \<not> IsSupportedAEADAlgorithm u) us"
      by auto
    with False show ?thesis by (intro exI [of _ "x # us"] exI [of _ vs]) simp
  qed
qed

lemma SelectAEADAlgorithm_None:
  "SelectAEADAlgorithm as = None \<longleftrightarrow> (\<forall>a\<in>set as. \<not> IsSupportedAEADAlgorithm a)"
  by (induction as) auto

lemma NewServerHello_Inr:
  "NewServerHello rand ch = Inr sh \<longleftrightarrow>
   ValidateClientHello ch = Inr () \<and>
   (\<exists>a r. SelectAEADAlgorithm (Algorithms (CCrypto (Capabilities ch))) = Some a \<and>
     rand CryptoRandomSize = Inr r \<and>
     sh = \<lparr>Selected = \<lparr>SMessage = \<lparr>Codec = MessageCodecJSON,
             UDPPacketCodec = selectUDPPacketCodec (UDPPacketCodecs (CMessage (Capabilities ch)))\<rparr>,
             SCrypto = \<lparr>Algorithm = a, ServerRandom = r\<rparr>\<rparr>, SError = ''''\<rparr>)"
  by (auto simp: NewServerHello_def newCryptoRandom_def bindR_eq_Inr split: option.splits)

lemma NewServerHello_accepted:
  assumes "NewServerHello rand ch = Inr sh"
    and "\<And>n b. rand n = Inr b \<Longrightarrow> length b = n"
  shows "ValidateServerHelloForClient ch sh = Inr ()"
proof -
  from assms obtain a r where
    a: "SelectAEADAlgorithm (Algorithms (CCrypto (Capabilities ch))) = Some a" and
    r: "length r = CryptoRandomSize" and
    sh: "sh = \<lparr>Selected = \<lparr>SMessage = \<lparr>Codec = MessageCodecJSON,
             UDPPacketCodec = selectUDPPacketCodec (UDPPacketCodecs (CMessage (Capabilities ch)))\<rparr>,
             SCrypto = \<lparr>Algorithm = a, ServerRandom = r\<rparr>\<rparr>, SError = ''''\<rparr>"
    by (auto simp: NewServerHello_Inr)
  from a have "IsSupportedAEADAlgorithm a" "Supports (Algorithms (CCrypto (Capabilities ch))) a"
    by (auto simp: Supports_def dest: SelectAEADAlgorithm_SomeD)
  with r show ?thesis
    by (auto simp: ValidateServerHelloForClient_def sh selectUDPPacketCodec_def Let_def
        UDPPacketCodecBinary_def)
qed

lemma transcript_eq:
  assumes "length c < 2 ^ 64" "length c' < 2 ^ 64" "transcript c s = transcript c' s'"
  shows "c = c' \<and> s = s'"
proof -
  have len: "(word_of_nat (length c) :: 64 word) = word_of_nat (length c') \<Longrightarrow> length c = length c'"
    using assms(1,2) by (simp add: word_unat_eq_iff unat_of_nat)
  from assms(3) have
    "put_u64 (word_of_nat (length c)) @ c @ [0] @ bytes_of_string ''server hello'' @ [0] @
       put_u64 (word_of_nat (length s)) @ s =
     put_u64 (word_of_nat (length c')) @ c' @ [0] @ bytes_of_string ''server hello'' @ [0] @
       put_u64 (word_of_nat (length s')) @ s'"
    by (simp add: transcript_def writeCryptoTranscriptPart_def)
  then have "put_u64 (word_of_nat (length c)) = put_u64 (word_of_nat (length c'))" and
    tl: "c @ [0] @ bytes_of_string ''server hello'' @ [0] @ put_u64 (word_of_nat (length s)) @ s =
      c' @ [0] @ bytes_of_string ''server hello'' @ [0] @ put_u64 (word_of_nat (length s')) @ s'"
    by (simp_all add: append_eq_append_conv)
  then have "length c = length c'" using len by simp
  with tl show ?thesis by (simp add: append_eq_append_conv)
qed

lemma hello_error_string_nonempty: "hello_error_string e \<noteq> ''''"
  by (cases e) simp_all

lemma handleClientHello_Inr:
  "handleClientHello c sha rand unCH maSH f w = (Inr (ctx, codec), w2) \<longleftrightarrow>
   (\<exists>ch sh p. unCH (FPayload f) = Some ch \<and> NewServerHello rand ch = Inr sh \<and> maSH sh = Some p \<and>
      WriteFrame c \<lparr>FType = FrameTypeServerHello, FFlags = 0, FPayload = p\<rparr> w = (Inr (), w2) \<and>
      ctx = NewCryptoContext sha (Algorithm (SCrypto (Selected sh))) (FPayload f) p \<and>
      codec = UDPPacketCodec (SMessage (Selected sh)))"
  by (auto simp: handleClientHello_def NewJSONFrame_def Let_def
      split: option.splits sum.splits prod.splits)

lemma hello_agree:
  assumes server: "handleClientHello c sha256 rand unCH maSH f w = (Inr (ctx, codec), w')"
    and rand: "\<And>n b. rand n = Inr b \<Longrightarrow> length b = n"
    and json: "\<And>sh p. maSH sh = Some p \<Longrightarrow> unSH p = Some sh"
  shows "\<exists>reply. wout w' = wout w @ reply \<and>
           (\<forall>more. readServerHello c sha256 unCH unSH (FPayload f) (reply @ more) = (Inr (ctx, codec), more))"
proof -
  from server obtain ch sh p where
    ch: "unCH (FPayload f) = Some ch" and sh: "NewServerHello rand ch = Inr sh" and p: "maSH sh = Some p" and
    wr: "WriteFrame c \<lparr>FType = FrameTypeServerHello, FFlags = 0, FPayload = p\<rparr> w = (Inr (), w')" and
    ctx: "ctx = NewCryptoContext sha256 (Algorithm (SCrypto (Selected sh))) (FPayload f) p"
      "codec = UDPPacketCodec (SMessage (Selected sh))"
    unfolding handleClientHello_Inr by blast
  let ?g = "\<lparr>FType = FrameTypeServerHello, FFlags = 0, FPayload = p\<rparr>"
  from WriteFrame_out [OF wr] have out: "wout w' = wout w @ frame_bytes ?g" "frame_ok c ?g" by auto
  have "SError sh = ''''" using sh by (auto simp: NewServerHello_Inr)
  then have "readServerHello c sha256 unCH unSH (FPayload f) (frame_bytes ?g @ more) = (Inr (ctx, codec), more)"
    for more
    using ReadFrame_frame_bytes [OF out(2), of more] json [OF p] NewServerHello_accepted [OF sh rand]
    by (simp add: readServerHello_def NewClientCryptoContext_def ch ctx)
  with out(1) show ?thesis by blast
qed

text \<open>The two ends of the version 2 handshake agree: when the server accepts a client hello
  and writes its reply, the client that sent that payload accepts the reply, whatever follows it
  on the stream, and both hold the same AEAD algorithm, transcript hash and UDP packet codec.\<close>

theorem hello_agreement:
  assumes "handleClientHello c sha256 rand unCH maSH f w = (Inr (ctx, codec), w')"
    and "\<And>n b. rand n = Inr b \<Longrightarrow> length b = n"
    and "\<And>sh p. maSH sh = Some p \<Longrightarrow> unSH p = Some sh"
  shows "\<exists>reply. wout w' = wout w @ reply \<and>
           (\<forall>more. readServerHello c sha256 unCH unSH (FPayload f) (reply @ more) = (Inr (ctx, codec), more))"
  using assms by (rule hello_agree)

text \<open>A concrete instance of the parameters: hellos carried as a tag and the fields that vary.\<close>

definition demo_hello :: client_hello where
  "demo_hello = clientHelloWithCryptoRandom True \<lparr>BTransport = ''tcp'', BTLS = True, BTCPMux = True\<rparr> (replicate 32 7)"

definition demo_rand :: "nat \<Rightarrow> string + bytes" where
  "demo_rand n = Inr (replicate n 9)"

definition demo_unCH :: "bytes \<Rightarrow> client_hello option" where
  "demo_unCH p = (if p = [1] then Some demo_hello else None)"

definition demo_reply :: server_hello where
  "demo_reply = \<lparr>Selected = \<lparr>SMessage = \<lparr>Codec = MessageCodecJSON, UDPPacketCodec = UDPPacketCodecBinary\<rparr>,
       SCrypto = \<lparr>Algorithm = AEADAlgorithmAES256GCM, ServerRandom = replicate 32 9\<rparr>\<rparr>, SError = ''''\<rparr>"

definition demo_maSH :: "server_hello \<Rightarrow> bytes option" where
  "demo_maSH sh = (if sh = demo_reply then Some [2] else None)"

definition demo_unSH :: "bytes \<Rightarrow> server_hello option" where
  "demo_unSH p = (if p = [2] then Some demo_reply else None)"

lemma demo_handle:
  "handleClientHello NewConn (\<lambda>b. take 4 b) demo_rand demo_unCH demo_maSH
     \<lparr>FType = FrameTypeClientHello, FFlags = 0, FPayload = [1]\<rparr> \<lparr>wout = [], wlimit = None\<rparr> =
   (Inr (NewCryptoContext (\<lambda>b. take 4 b) AEADAlgorithmAES256GCM [1] [2], UDPPacketCodecBinary),
    \<lparr>wout = [0, 2, 0, 0, 0, 0, 0, 1, 2], wlimit = None\<rparr>)"
proof -
  have "NewServerHello demo_rand demo_hello = Inr demo_reply"
    by (simp add: NewServerHello_def ValidateClientHello_def ValidateCryptoCapabilities_def demo_hello_def
        clientHelloWithCryptoRandom_def Supports_def PreferredAEADAlgorithms_def IsSupportedAEADAlgorithm_def
        supportedAEADAlgorithms_def CryptoRandomSize_def newCryptoRandom_def demo_rand_def demo_reply_def
        selectUDPPacketCodec_def)
  moreover have "WriteFrame NewConn \<lparr>FType = FrameTypeServerHello, FFlags = 0, FPayload = [2]\<rparr>
      \<lparr>wout = [], wlimit = None\<rparr> = (Inr (), \<lparr>wout = [0, 2, 0, 0, 0, 0, 0, 1, 2], wlimit = None\<rparr>)"
    by (simp add: WriteFrame_def NewConn_def DefaultMaxFramePayloadSize_def frame_header_def put_u16_def
        put_u32_def FrameTypeServerHello_def)
  ultimately show ?thesis
    unfolding handleClientHello_Inr
    by (intro exI [of _ demo_hello] exI [of _ demo_reply] exI [of _ "[2]"])
       (simp add: demo_unCH_def demo_maSH_def, simp add: demo_reply_def)
qed

lemma demo_json: "demo_maSH sh = Some p \<Longrightarrow> demo_unSH p = Some sh"
  by (simp add: demo_maSH_def demo_unSH_def split: if_splits)

lemma demo_rand_length: "demo_rand n = Inr b \<Longrightarrow> length b = n"
  by (auto simp: demo_rand_def)

theorem hello_agreement_witness:
  "\<exists>reply. [0, 2, 0, 0, 0, 0, 0, 1, 2] = [] @ reply \<and>
     (\<forall>more. readServerHello NewConn (\<lambda>b. take 4 b) demo_unCH demo_unSH [1] (reply @ more) =
        (Inr (NewCryptoContext (\<lambda>b. take 4 b) AEADAlgorithmAES256GCM [1] [2], UDPPacketCodecBinary), more))"
  using hello_agreement [OF demo_handle demo_rand_length demo_json] by simp

text \<open>C40. A refused hello is reported: when the server rejects a client hello and its reply goes
  out, the client fails with the text of the server's error and with nothing else.\<close>

theorem hello_rejection_reported:
  assumes server: "handleClientHello c sha256 rand unCH maSH f w = (Inl (HelloErr e), w')"
    and unlimited: "wlimit w = None"
    and json: "\<And>sh p. maSH sh = Some p \<Longrightarrow> unSH p = Some sh"
    and fits: "\<exists>p. maSH (DefaultServerHello\<lparr>SError := hello_error_string e\<rparr>) = Some p \<and>
                  length p \<le> unat (maxFramePayloadSize c)"
  shows "\<exists>reply. wout w' = wout w @ reply \<and>
           (\<forall>more. readServerHello c sha256 unCH unSH (FPayload f) (reply @ more) =
                   (Inl (PeerError (hello_error_string e)), more))"
proof -
  let ?sh = "DefaultServerHello\<lparr>SError := hello_error_string e\<rparr>"
  from fits obtain p where p: "maSH ?sh = Some p" "length p \<le> unat (maxFramePayloadSize c)" by blast
  let ?g = "\<lparr>FType = FrameTypeServerHello, FFlags = 0, FPayload = p\<rparr>"
  have ok: "frame_ok c ?g" using p(2) by (simp add: frame_ok_def)
  have "wout w' = wout w @ frame_bytes ?g"
    using server p(1) WriteFrame_unlimited [OF unlimited ok]
    by (auto simp: handleClientHello_def WriteJSONFrame_def NewJSONFrame_def Let_def
        split: option.splits sum.splits prod.splits)
  moreover have "readServerHello c sha256 unCH unSH (FPayload f) (frame_bytes ?g @ more) =
      (Inl (PeerError (hello_error_string e)), more)" for more
    using ReadFrame_frame_bytes [OF ok, of more] json [OF p(1)] hello_error_string_nonempty [of e]
    by (simp add: readServerHello_def)
  ultimately show ?thesis by blast
qed

definition demo_refusal :: server_hello where
  "demo_refusal = DefaultServerHello\<lparr>SError := hello_error_string UnsupportedMessageCodec\<rparr>"

theorem hello_rejection_reported_witness:
  "\<exists>reply. [0, 2, 0, 0, 0, 0, 0, 1, 3] = [] @ reply \<and>
     (\<forall>more. readServerHello NewConn id (\<lambda>_. Some (demo_hello\<lparr>Capabilities :=
                 \<lparr>CMessage = \<lparr>Codecs = [], UDPPacketCodecs = []\<rparr>, CCrypto = \<lparr>Algorithms = [], ClientRandom = []\<rparr>\<rparr>\<rparr>))
         (\<lambda>p. if p = [3] then Some demo_refusal else None) [1] (reply @ more) =
       (Inl (PeerError ''unsupported message codec''), more))"
proof -
  let ?ch = "demo_hello\<lparr>Capabilities :=
     \<lparr>CMessage = \<lparr>Codecs = [], UDPPacketCodecs = []\<rparr>, CCrypto = \<lparr>Algorithms = [], ClientRandom = []\<rparr>\<rparr>\<rparr>"
  let ?ma = "\<lambda>sh. if sh = demo_refusal then Some [3 :: byte] else None"
  have "handleClientHello NewConn id demo_rand (\<lambda>_. Some ?ch) ?ma
     \<lparr>FType = FrameTypeClientHello, FFlags = 0, FPayload = [1]\<rparr> \<lparr>wout = [], wlimit = None\<rparr> =
     (Inl (HelloErr UnsupportedMessageCodec), \<lparr>wout = [0, 2, 0, 0, 0, 0, 0, 1, 3], wlimit = None\<rparr>)"
    by (simp add: handleClientHello_def NewServerHello_def ValidateClientHello_def Supports_def
        WriteJSONFrame_def NewJSONFrame_def demo_refusal_def Let_def WriteFrame_def NewConn_def
        DefaultMaxFramePayloadSize_def frame_header_def put_u16_def put_u32_def FrameTypeServerHello_def)
  note h = this
  have j: "?ma sh = Some p \<Longrightarrow> (if p = [3] then Some demo_refusal else None) = Some sh" for sh p
    by (simp split: if_splits)
  have f: "\<exists>p. ?ma (DefaultServerHello\<lparr>SError := hello_error_string UnsupportedMessageCodec\<rparr>) = Some p \<and>
      length p \<le> unat (maxFramePayloadSize NewConn)"
    by (simp add: demo_refusal_def NewConn_def DefaultMaxFramePayloadSize_def)
  from hello_rejection_reported [OF h _ j f] show ?thesis by simp
qed

lemma default_client_accepted:
  assumes sent: "sendClientHello c rand maCH fast b \<lparr>wout = [], wlimit = None\<rparr> = (Inr payload, w1)"
    and rand: "\<And>n b. rand n = Inr b \<Longrightarrow> length b = n"
    and rand': "\<And>n. \<exists>b. rand' n = Inr b"
    and json: "\<And>ch p. maCH ch = Some p \<Longrightarrow> unCH p = Some ch"
    and reply: "\<And>ch sh. NewServerHello rand' ch = Inr sh \<Longrightarrow>
                  \<exists>p. maSH sh = Some p \<and> length p \<le> unat (maxFramePayloadSize c)"
  shows "\<exists>f s ctx w2. CheckMagic (wout w1 @ rest) = Inr (s, True) \<and> ReadFrame c s = (Inr f, rest) \<and>
           FType f = FrameTypeClientHello \<and> FPayload f = payload \<and>
           handleClientHello c sha256 rand' unCH maSH f \<lparr>wout = [], wlimit = None\<rparr> =
             (Inr (ctx, UDPPacketCodecBinary), w2) \<and>
           CtxAlgorithm ctx = hd (PreferredAEADAlgorithms fast)"
proof -
  let ?w = "\<lparr>wout = MagicV2, wlimit = None\<rparr>"
  from sent obtain r p where r: "rand CryptoRandomSize = Inr r" and
    p: "maCH (clientHelloWithCryptoRandom fast b r) = Some p" and
    wr: "WriteFrame c \<lparr>FType = FrameTypeClientHello, FFlags = 0, FPayload = p\<rparr> ?w = (Inr (), w1)" and
    pl: "payload = p"
    by (auto simp: sendClientHello_def WriteMagic_def NewClientHello_def newCryptoRandom_def NewJSONFrame_def
        bindR_eq_Inr split: sum.splits option.splits prod.splits)
  let ?ch = "clientHelloWithCryptoRandom fast b r"
  let ?f = "\<lparr>FType = FrameTypeClientHello, FFlags = 0, FPayload = p\<rparr>"
  from WriteFrame_out [OF wr] have out: "wout w1 = MagicV2 @ frame_bytes ?f" "frame_ok c ?f" by auto
  have cm: "CheckMagic (wout w1 @ rest) = Inr (frame_bytes ?f @ rest, True)"
    using ReadFull_append [of MagicV2 "frame_bytes ?f @ rest"] by (simp add: CheckMagic_def out(1))
  have sel: "SelectAEADAlgorithm (PreferredAEADAlgorithms fast) = Some (hd (PreferredAEADAlgorithms fast))"
    by (simp add: PreferredAEADAlgorithms_def IsSupportedAEADAlgorithm_def supportedAEADAlgorithms_def Supports_def)
  from rand' obtain r' where r': "rand' CryptoRandomSize = Inr r'" by blast
  have "\<exists>sh. NewServerHello rand' ?ch = Inr sh \<and> Algorithm (SCrypto (Selected sh)) = hd (PreferredAEADAlgorithms fast)
      \<and> UDPPacketCodec (SMessage (Selected sh)) = UDPPacketCodecBinary"
    by (simp add: NewServerHello_def ValidateClientHello_def ValidateCryptoCapabilities_def
        clientHelloWithCryptoRandom_def Supports_def rand [OF r] sel newCryptoRandom_def r' selectUDPPacketCodec_def)
  then obtain sh where sh: "NewServerHello rand' ?ch = Inr sh"
    "Algorithm (SCrypto (Selected sh)) = hd (PreferredAEADAlgorithms fast)"
    "UDPPacketCodec (SMessage (Selected sh)) = UDPPacketCodecBinary" by blast
  from reply [OF sh(1)] obtain q where q: "maSH sh = Some q" "length q \<le> unat (maxFramePayloadSize c)" by blast
  have "frame_ok c \<lparr>FType = FrameTypeServerHello, FFlags = 0, FPayload = q\<rparr>"
    using q(2) by (simp add: frame_ok_def)
  note wr2 = WriteFrame_unlimited [OF _ this, of "\<lparr>wout = [], wlimit = None\<rparr>"]
  show ?thesis
    using cm ReadFrame_frame_bytes [OF out(2), of rest] json [OF p] sh q(1) wr2 pl
    unfolding handleClientHello_Inr by (fastforce simp: NewCryptoContext_def)
qed

definition demo_maCH :: "client_hello \<Rightarrow> bytes option" where
  "demo_maCH ch = (if ch = demo_hello then Some [1] else None)"

text \<open>The transcript is unambiguous: two handshakes whose client hello payloads have lengths
  that fit the 64-bit length field feed the hash the same bytes only when both hello payloads
  are the same, so moving bytes between the two hellos changes what is hashed.\<close>

theorem transcript_unambiguous:
  assumes "length c < 2 ^ 64" "length c' < 2 ^ 64"
  shows "transcript c s = transcript c' s' \<longleftrightarrow> c = c' \<and> s = s'"
  using transcript_eq [OF assms] by blast

theorem transcript_unambiguous_witness:
  "transcript [1, 2] [3] \<noteq> transcript [1] [2, 3]"
  using transcript_unambiguous [of "[1, 2]" "[1]" "[3]" "[2, 3]"] by simp

end
