(* ===== verification/Go_Slices.thy ===== *)
theory Go_Slices
  imports Prelude
begin

text \<open>
  Go's slice operations with their run-time checks.  An index or a slice expression out of range
  panics; the model returns the panic as an error value of the caller's choice, or \<^const>\<open>None\<close>,
  so that a theorem can say that it never happens.
\<close>

definition index_at :: "'e \<Rightarrow> 'a list \<Rightarrow> nat \<Rightarrow> 'e + 'a" where
  "index_at panic xs i = (if i < length xs then Inr (xs ! i) else Inl panic)"

definition slice_at :: "'e \<Rightarrow> 'a list \<Rightarrow> nat \<Rightarrow> nat \<Rightarrow> 'e + 'a list" where
  "slice_at panic xs i j =
     (if i \<le> j \<and> j \<le> length xs then Inr (take (j - i) (drop i xs)) else Inl panic)"

definition set_at :: "'a list \<Rightarrow> nat \<Rightarrow> 'a \<Rightarrow> 'a list option" where
  "set_at xs i v = (if i < length xs then Some (xs[i := v]) else None)"

text \<open>\<^verbatim>\<open>copy(xs[i:], src)\<close>: as many elements as fit.\<close>

definition copy_at :: "'a list \<Rightarrow> nat \<Rightarrow> 'a list \<Rightarrow> 'a list option" where
  "copy_at xs i src =
     (if i \<le> length xs then Some (take i xs @ take (length xs - i) src @ drop (i + length src) xs)
      else None)"

text \<open>\<^verbatim>\<open>binary.BigEndian.PutUint16(xs[i:i+2], v)\<close>\<close>

definition put_u16_at :: "bytes \<Rightarrow> nat \<Rightarrow> 16 word \<Rightarrow> bytes option" where
  "put_u16_at xs i v = (if i + 2 \<le> length xs then copy_at xs i (put_u16 v) else None)"

lemma index_at_append [simp]: "index_at e (pre @ x # post) (length pre) = Inr x"
  by (simp add: index_at_def)

lemma index_at_Inr: "index_at e xs i = Inr x \<longleftrightarrow> i < length xs \<and> x = xs ! i"
  by (auto simp: index_at_def)

lemma slice_at_append [simp]:
  "slice_at e (pre @ mid @ post) (length pre) (length pre + length mid) = Inr mid"
  by (simp add: slice_at_def)

lemma slice_at_appendI:
  "i = length pre \<Longrightarrow> j = length pre + length mid \<Longrightarrow> slice_at e (pre @ mid @ post) i j = Inr mid"
  by simp

lemma slice_at_Inr:
  "slice_at e xs i j = Inr ys \<longleftrightarrow> i \<le> j \<and> j \<le> length xs \<and> ys = take (j - i) (drop i xs)"
  by (auto simp: slice_at_def)

lemma set_at_append [simp]: "set_at (pre @ x # post) (length pre) v = Some (pre @ v # post)"
  by (simp add: set_at_def)

lemma set_at_appendI: "i = length pre \<Longrightarrow> set_at (pre @ x # post) i v = Some (pre @ v # post)"
  by simp

lemma copy_at_append:
  "length mid = length src \<Longrightarrow> copy_at (pre @ mid @ post) (length pre) src = Some (pre @ src @ post)"
  by (simp add: copy_at_def)

lemma copy_at_appendI:
  "i = length pre \<Longrightarrow> length mid = length src \<Longrightarrow>
   copy_at (pre @ mid @ post) i src = Some (pre @ src @ post)"
  by (simp add: copy_at_append)

lemma put_u16_at_appendI:
  "i = length pre \<Longrightarrow> length mid = 2 \<Longrightarrow>
   put_u16_at (pre @ mid @ post) i v = Some (pre @ put_u16 v @ post)"
  by (simp add: put_u16_at_def copy_at_appendI)

end
