(* ===== verification/Udp_Binary.thy ===== *)
theory Udp_Binary
  imports Wire_Frame Go_Slices
begin

text \<open>
  The binary UDP packet codec of \<^verbatim>\<open>pkg/msg/udp_binary.go\<close>, written with the source's offsets
  into one body buffer and with every slice access checked, so that freedom from panics is a
  theorem.  \<^verbatim>\<open>net.IP\<close> is a byte list with the standard library's \<^verbatim>\<open>To4\<close> and \<^verbatim>\<open>To16\<close>;
  \<^verbatim>\<open>utf8.Valid\<close> is written out.
\<close>

section \<open>Standard library: net.IP and utf8\<close>

definition v4InV6Prefix :: bytes where
  "v4InV6Prefix = [0, 0, 0, 0, 0, 0, 0, 0, 0, 0, 0xFF, 0xFF]"

definition To4 :: "bytes \<Rightarrow> bytes option" where
  "To4 ip =
     (if length ip = 4 then Some ip
      else if length ip = 16 \<and> take 12 ip = v4InV6Prefix then Some (drop 12 ip)
      else None)"

definition To16 :: "bytes \<Rightarrow> bytes option" where
  "To16 ip =
     (if length ip = 4 then Some (v4InV6Prefix @ ip)
      else if length ip = 16 then Some ip
      else None)"

definition utf8_cont :: "byte \<Rightarrow> bool" where
  "utf8_cont b \<longleftrightarrow> 0x80 \<le> b \<and> b \<le> 0xBF"

text \<open>The range of the second byte that a leading byte admits.\<close>

definition utf8_second :: "byte \<Rightarrow> byte \<Rightarrow> bool" where
  "utf8_second b0 b1 \<longleftrightarrow>
     (if b0 = 0xE0 then 0xA0 \<le> b1 \<and> b1 \<le> 0xBF
      else if b0 = 0xED then 0x80 \<le> b1 \<and> b1 \<le> 0x9F
      else if b0 = 0xF0 then 0x90 \<le> b1 \<and> b1 \<le> 0xBF
      else if b0 = 0xF4 then 0x80 \<le> b1 \<and> b1 \<le> 0x8F
      else utf8_cont b1)"

fun utf8_valid :: "bytes \<Rightarrow> bool" where
  "utf8_valid [] = True"
| "utf8_valid (b # bs) =
     (if b < 0x80 then utf8_valid bs
      else if 0xC2 \<le> b \<and> b \<le> 0xDF then
        (case bs of b1 # r \<Rightarrow> utf8_cont b1 \<and> utf8_valid r | _ \<Rightarrow> False)
      else if 0xE0 \<le> b \<and> b \<le> 0xEF then
        (case bs of b1 # b2 # r \<Rightarrow> utf8_second b b1 \<and> utf8_cont b2 \<and> utf8_valid r | _ \<Rightarrow> False)
      else if 0xF0 \<le> b \<and> b \<le> 0xF4 then
        (case bs of
           b1 # b2 # b3 # r \<Rightarrow> utf8_second b b1 \<and> utf8_cont b2 \<and> utf8_cont b3 \<and> utf8_valid r
         | _ \<Rightarrow> False)
      else False)"

section \<open>Data\<close>

definition MaxUDPPayloadSize :: nat where "MaxUDPPayloadSize = 65507"
definition udpPacketFlagLocalAddr :: byte where "udpPacketFlagLocalAddr = 1"
definition udpPacketFlagRemoteAddr :: byte where "udpPacketFlagRemoteAddr = 2"
definition udpPacketValidFlags :: byte where
  "udpPacketValidFlags = udpPacketFlagLocalAddr OR udpPacketFlagRemoteAddr"

record udp_addr =
  IP :: bytes
  Port :: int
  Zone :: string

record udp_packet =
  Content :: bytes
  LocalAddr :: "udp_addr option"
  RemoteAddr :: "udp_addr option"

record binaryUDPAddr =
  bfamily :: byte
  bip :: bytes
  bport :: "16 word"
  bzone :: string

datatype uaddr_error =
    PortOutOfRange int
  | IPv4ZoneForbidden
  | InvalidIP
  | ZoneTooLong
  | ZoneNotUTF8
  | TruncatedFamily
  | UnknownFamily byte
  | TruncatedAddress
  | TruncatedZone
  | AddrPanic

datatype udp_error =
    NilPacket
  | MissingRemoteAddr
  | PayloadTooLarge nat
  | BodyExceedsFrame nat
  | LocalAddrErr uaddr_error
  | RemoteAddrErr uaddr_error
  | BodyTooShort nat
  | ReservedFlags byte
  | TruncatedPayloadLength
  | TruncatedPayload nat nat
  | TrailingBytes nat
  | UdpPanic

section \<open>Encoding\<close>

definition validateBinaryUDPAddr :: "udp_addr \<Rightarrow> uaddr_error + binaryUDPAddr" where
  "validateBinaryUDPAddr a =
     (if Port a < 0 \<or> Port a > 65535 then Inl (PortOutOfRange (Port a))
      else (case To4 (IP a) of
              Some ip4 \<Rightarrow>
                if Zone a \<noteq> '''' then Inl IPv4ZoneForbidden
                else Inr \<lparr>bfamily = 4, bip = ip4, bport = word_of_int (Port a), bzone = ''''\<rparr>
            | None \<Rightarrow>
                (case To16 (IP a) of
                   None \<Rightarrow> Inl InvalidIP
                 | Some ip16 \<Rightarrow>
                     if length (Zone a) > 255 then Inl ZoneTooLong
                     else if \<not> utf8_valid (bytes_of_string (Zone a)) then Inl ZoneNotUTF8
                     else Inr \<lparr>bfamily = 6, bip = ip16, bport = word_of_int (Port a),
                               bzone = Zone a\<rparr>)))"

definition binaryUDPAddrLen :: "binaryUDPAddr \<Rightarrow> nat" where
  "binaryUDPAddrLen a = 1 + length (bip a) + 2 + 1 + length (bzone a)"

definition putBinaryUDPAddr :: "bytes \<Rightarrow> nat \<Rightarrow> binaryUDPAddr \<Rightarrow> (bytes \<times> nat) option" where
  "putBinaryUDPAddr body offset a =
     Option.bind (set_at body offset (bfamily a)) (\<lambda>body.
     let offset = offset + 1 in
     Option.bind (copy_at body offset (bip a)) (\<lambda>body.
     let offset = offset + length (bip a) in
     Option.bind (put_u16_at body offset (bport a)) (\<lambda>body.
     let offset = offset + 2 in
     Option.bind (set_at body offset (word_of_nat (length (bzone a)))) (\<lambda>body.
     let offset = offset + 1 in
     Option.bind (copy_at body offset (bytes_of_string (bzone a))) (\<lambda>body.
     Some (body, offset + length (bzone a)))))))"

text \<open>Filling the body buffer, once the lengths are known: the second half of the encoder.\<close>

definition fillUDPBody ::
    "nat \<Rightarrow> byte \<Rightarrow> binaryUDPAddr option \<Rightarrow> binaryUDPAddr \<Rightarrow> bytes \<Rightarrow> bytes option" where
  "fillUDPBody bodyLen flags localAddr remoteAddr content =
     Option.bind (set_at (replicate bodyLen 0) 0 flags) (\<lambda>body.
     Option.bind (case localAddr of
                    Some l \<Rightarrow> putBinaryUDPAddr body 1 l
                  | None \<Rightarrow> Some (body, 1)) (\<lambda>(body, offset).
     Option.bind (putBinaryUDPAddr body offset remoteAddr) (\<lambda>(body, offset).
     Option.bind (put_u16_at body offset (word_of_nat (length content))) (\<lambda>body.
     copy_at body (offset + 2) content))))"

definition EncodeUDPPacketBinary :: "udp_packet option \<Rightarrow> udp_error + bytes" where
  "EncodeUDPPacketBinary packet =
     (case packet of
        None \<Rightarrow> Inl NilPacket
      | Some p \<Rightarrow>
          (case RemoteAddr p of
             None \<Rightarrow> Inl MissingRemoteAddr
           | Some ra \<Rightarrow>
               if length (Content p) > MaxUDPPayloadSize then Inl (PayloadTooLarge (length (Content p)))
               else
                 bindR (case LocalAddr p of
                          None \<Rightarrow> Inr (0, None, 0)
                        | Some la \<Rightarrow>
                            bindR (mapErr LocalAddrErr (validateBinaryUDPAddr la)) (\<lambda>l.
                              Inr (0 OR udpPacketFlagLocalAddr, Some l, binaryUDPAddrLen l)))
                   (\<lambda>(flags, l, llen).
                 bindR (mapErr RemoteAddrErr (validateBinaryUDPAddr ra)) (\<lambda>r.
                   let bodyLen = 1 + 2 + length (Content p) + llen + binaryUDPAddrLen r in
                   if 2 + bodyLen > DefaultMaxFramePayloadSize then Inl (BodyExceedsFrame (2 + bodyLen))
                   else (case fillUDPBody bodyLen (flags OR udpPacketFlagRemoteAddr) l r (Content p) of
                           None \<Rightarrow> Inl UdpPanic
                         | Some body \<Rightarrow> Inr body)))))"

section \<open>Decoding\<close>

text \<open>A source condition \<^verbatim>\<open>len(body)-offset < n\<close> is written as \<open>length body < offset + n\<close>.\<close>

definition readBinaryUDPAddr :: "bytes \<Rightarrow> nat \<Rightarrow> uaddr_error + (udp_addr \<times> nat)" where
  "readBinaryUDPAddr body offset =
     (if offset \<ge> length body then Inl TruncatedFamily
      else
        bindR (index_at AddrPanic body offset) (\<lambda>family.
        let offset = offset + 1 in
        bindR (if family = 4 then Inr 4 else if family = 6 then Inr 16
               else Inl (UnknownFamily family)) (\<lambda>ipLen.
        if length body < offset + (ipLen + 3) then Inl TruncatedAddress
        else
          bindR (slice_at AddrPanic body offset (offset + ipLen)) (\<lambda>ip.
          let offset = offset + ipLen in
          bindR (slice_at AddrPanic body offset (offset + 2)) (\<lambda>portBytes.
          let offset = offset + 2 in
          bindR (index_at AddrPanic body offset) (\<lambda>zl.
          let zoneLen = unat zl; offset = offset + 1 in
          if length body < offset + zoneLen then Inl TruncatedZone
          else
            bindR (slice_at AddrPanic body offset (offset + zoneLen)) (\<lambda>zoneBytes.
            if family = 4 \<and> zoneLen \<noteq> 0 then Inl IPv4ZoneForbidden
            else if \<not> utf8_valid zoneBytes then Inl ZoneNotUTF8
            else Inr (\<lparr>IP = ip, Port = uint (get_u16 portBytes), Zone = string_of_bytes zoneBytes\<rparr>,
                      offset + zoneLen))))))))"

definition readPayload :: "bytes \<Rightarrow> nat \<Rightarrow> udp_error + bytes" where
  "readPayload body offset =
     (if length body < offset + 2 then Inl TruncatedPayloadLength
      else
        bindR (slice_at UdpPanic body offset (offset + 2)) (\<lambda>lenBytes.
        let payloadLen = unat (get_u16 lenBytes); offset = offset + 2 in
        if payloadLen > MaxUDPPayloadSize then Inl (PayloadTooLarge payloadLen)
        else
          let remaining = length body - offset in
          if remaining < payloadLen then Inl (TruncatedPayload remaining payloadLen)
          else if remaining > payloadLen then Inl (TrailingBytes (remaining - payloadLen))
          else slice_at UdpPanic body offset (offset + payloadLen)))"

definition DecodeUDPPacketBinary :: "bytes \<Rightarrow> udp_error + udp_packet" where
  "DecodeUDPPacketBinary body =
     (if length body < 3 then Inl (BodyTooShort (length body))
      else if 2 + length body > DefaultMaxFramePayloadSize
        then Inl (BodyExceedsFrame (2 + length body))
      else
        bindR (index_at UdpPanic body 0) (\<lambda>flags.
        if flags AND NOT udpPacketValidFlags \<noteq> 0 then Inl (ReservedFlags flags)
        else if flags AND udpPacketFlagRemoteAddr = 0 then Inl MissingRemoteAddr
        else
          bindR (if flags AND udpPacketFlagLocalAddr \<noteq> 0
                 then bindR (mapErr LocalAddrErr (readBinaryUDPAddr body 1)) (\<lambda>(a, off). Inr (Some a, off))
                 else Inr (None, 1)) (\<lambda>(la, offset).
          bindR (mapErr RemoteAddrErr (readBinaryUDPAddr body offset)) (\<lambda>(ra, offset).
          bindR (readPayload body offset) (\<lambda>content.
            Inr \<lparr>Content = content, LocalAddr = la, RemoteAddr = Some ra\<rparr>)))))"

section \<open>Layout of an encoded address\<close>

definition addr_bytes :: "binaryUDPAddr \<Rightarrow> bytes" where
  "addr_bytes a =
     [bfamily a] @ bip a @ put_u16 (bport a) @ [word_of_nat (length (bzone a))] @
     bytes_of_string (bzone a)"

definition addr_wf :: "binaryUDPAddr \<Rightarrow> bool" where
  "addr_wf a \<longleftrightarrow>
     (bfamily a = 4 \<and> length (bip a) = 4 \<and> bzone a = '''') \<or>
     (bfamily a = 6 \<and> length (bip a) = 16 \<and> length (bzone a) \<le> 255 \<and>
      utf8_valid (bytes_of_string (bzone a)))"

definition addr_value :: "binaryUDPAddr \<Rightarrow> udp_addr" where
  "addr_value a = \<lparr>IP = bip a, Port = uint (bport a), Zone = bzone a\<rparr>"

lemma length_addr_bytes [simp]: "length (addr_bytes a) = binaryUDPAddrLen a"
  by (simp add: addr_bytes_def binaryUDPAddrLen_def)

lemma length_v4InV6Prefix [simp]: "length v4InV6Prefix = 12"
  by (simp add: v4InV6Prefix_def)

lemma To4_Some: "To4 ip = Some v \<Longrightarrow> length v = 4"
  by (auto simp: To4_def split: if_splits)

lemma validate_wf: "validateBinaryUDPAddr a = Inr b \<Longrightarrow> addr_wf b"
  by (auto simp: validateBinaryUDPAddr_def addr_wf_def To16_def dest: To4_Some
      split: if_splits option.splits)

lemma putBinaryUDPAddr_layout:
  assumes "length mid = binaryUDPAddrLen a"
  shows "putBinaryUDPAddr (pre @ mid @ post) (length pre) a =
         Some (pre @ addr_bytes a @ post, length pre + binaryUDPAddrLen a)"
proof -
  let ?n = "length (bip a)" and ?z = "bytes_of_string (bzone a)"
  obtain f m1 where m: "mid = f # m1" and m1: "length m1 = ?n + 3 + length (bzone a)"
    using assms by (cases mid) (auto simp: binaryUDPAddrLen_def)
  obtain i m2 where m1': "m1 = i @ m2" "length i = ?n" and m2: "length m2 = 3 + length (bzone a)"
    using m1 by (metis (no_types, lifting) append_take_drop_id length_take length_drop
        add.assoc add_diff_cancel_left' le_add1 min.absorb2)
  obtain p l zs where m2': "m2 = p @ l # zs" "length p = 2" and zs: "length zs = length (bzone a)"
    using m2 by (intro that [of "take 2 m2" "m2 ! 2" "drop 3 m2"])
      (auto simp: numeral_eq_Suc Cons_nth_drop_Suc)
  have s1: "set_at (pre @ mid @ post) (length pre) (bfamily a) =
      Some ((pre @ [bfamily a]) @ i @ (p @ l # zs @ post))"
    by (simp add: m m1' m2')
  have s2: "copy_at ((pre @ [bfamily a]) @ i @ (p @ l # zs @ post)) (length pre + 1) (bip a) =
      Some ((pre @ [bfamily a]) @ bip a @ (p @ l # zs @ post))"
    by (rule copy_at_appendI) (simp_all add: m1')
  have s3: "put_u16_at ((pre @ [bfamily a]) @ bip a @ (p @ l # zs @ post)) (length pre + 1 + ?n) (bport a) =
      Some ((pre @ [bfamily a] @ bip a) @ put_u16 (bport a) @ (l # zs @ post))"
    using put_u16_at_appendI [of _ "pre @ [bfamily a] @ bip a" p "l # zs @ post"] by (simp add: m2')
  have s4: "set_at ((pre @ [bfamily a] @ bip a) @ put_u16 (bport a) @ (l # zs @ post))
      (length pre + 1 + ?n + 2) (word_of_nat (length (bzone a))) =
      Some ((pre @ [bfamily a] @ bip a @ put_u16 (bport a)) @ word_of_nat (length (bzone a)) # zs @ post)"
    using set_at_appendI [of _ "pre @ [bfamily a] @ bip a @ put_u16 (bport a)" l "zs @ post"] by simp
  have s5: "copy_at ((pre @ [bfamily a] @ bip a @ put_u16 (bport a)) @ word_of_nat (length (bzone a)) # zs @ post)
      (length pre + 1 + ?n + 2 + 1) ?z =
      Some (pre @ addr_bytes a @ post)"
    using copy_at_appendI [of "length pre + 1 + ?n + 2 + 1"
        "pre @ [bfamily a] @ bip a @ put_u16 (bport a) @ [word_of_nat (length (bzone a))]" zs ?z post]
    by (simp add: addr_bytes_def zs)
  show ?thesis
    unfolding putBinaryUDPAddr_def s1 Let_def bind.bind_lunit s2 s3 s4 s5
    by (simp add: binaryUDPAddrLen_def)
qed

definition body_bytes :: "binaryUDPAddr option \<Rightarrow> binaryUDPAddr \<Rightarrow> bytes \<Rightarrow> bytes" where
  "body_bytes l r content =
     [(case l of None \<Rightarrow> 0 | Some _ \<Rightarrow> udpPacketFlagLocalAddr) OR udpPacketFlagRemoteAddr] @
     (case l of None \<Rightarrow> [] | Some a \<Rightarrow> addr_bytes a) @ addr_bytes r @
     put_u16 (word_of_nat (length content)) @ content"

lemma fillUDPBody_layout:
  assumes "n = 1 + 2 + length content + (case l of None \<Rightarrow> 0 | Some a \<Rightarrow> binaryUDPAddrLen a) + binaryUDPAddrLen r"
    and "flags = (case l of None \<Rightarrow> 0 | Some _ \<Rightarrow> udpPacketFlagLocalAddr) OR udpPacketFlagRemoteAddr"
  shows "fillUDPBody n flags l r content = Some (body_bytes l r content)"
proof -
  let ?ll = "case l of None \<Rightarrow> 0 | Some a \<Rightarrow> binaryUDPAddrLen a"
  let ?lb = "case l of None \<Rightarrow> [] | Some a \<Rightarrow> addr_bytes a"
  let ?rl = "binaryUDPAddrLen r"
  have ll: "length ?lb = ?ll" by (simp split: option.splits)
  have rep: "replicate n (0::byte) = 0 # replicate ?ll 0 @ replicate ?rl 0 @ replicate 2 0 @ replicate (length content) 0"
    unfolding assms(1) replicate_add [symmetric] replicate_Suc [symmetric] by (simp add: algebra_simps)
  have s1: "set_at (replicate n 0) 0 flags =
      Some ([flags] @ replicate ?ll 0 @ (replicate ?rl 0 @ replicate 2 0 @ replicate (length content) 0))"
    by (simp add: rep set_at_def)
  have s2: "(case l of Some l \<Rightarrow> putBinaryUDPAddr ([flags] @ replicate ?ll 0 @ (replicate ?rl 0 @ replicate 2 0 @ replicate (length content) 0)) 1 l
      | None \<Rightarrow> Some ([flags] @ replicate ?ll 0 @ (replicate ?rl 0 @ replicate 2 0 @ replicate (length content) 0), 1)) =
      Some (([flags] @ ?lb) @ replicate ?rl 0 @ (replicate 2 0 @ replicate (length content) 0), length ([flags] @ ?lb))"
    using putBinaryUDPAddr_layout [of _ _ "[flags]"] by (auto split: option.splits)
  have s3: "putBinaryUDPAddr (([flags] @ ?lb) @ replicate ?rl 0 @ (replicate 2 0 @ replicate (length content) 0)) (length ([flags] @ ?lb)) r =
      Some (([flags] @ ?lb @ addr_bytes r) @ replicate 2 0 @ replicate (length content) 0, length ([flags] @ ?lb @ addr_bytes r))"
    using putBinaryUDPAddr_layout [of "replicate ?rl 0" r "[flags] @ ?lb"] by simp
  have s4: "put_u16_at (([flags] @ ?lb @ addr_bytes r) @ replicate 2 0 @ replicate (length content) 0)
       (length ([flags] @ ?lb @ addr_bytes r)) v =
      Some (([flags] @ ?lb @ addr_bytes r @ put_u16 v) @ replicate (length content) 0 @ [])" for v
    using put_u16_at_appendI [OF refl, of "replicate 2 0" "[flags] @ ?lb @ addr_bytes r"] by simp
  have s5: "copy_at (([flags] @ ?lb @ addr_bytes r @ put_u16 v) @ replicate (length content) 0 @ [])
       (length ([flags] @ ?lb @ addr_bytes r) + 2) content =
      Some (([flags] @ ?lb @ addr_bytes r @ put_u16 v) @ content @ [])" for v
    by (rule copy_at_appendI) simp_all
  show ?thesis
    unfolding fillUDPBody_def s1 bind.bind_lunit s2 prod.case s3 s4 s5
    by (simp add: body_bytes_def assms(2))
qed

lemma length_body_bytes:
  "length (body_bytes l r content) =
   1 + 2 + length content + (case l of None \<Rightarrow> 0 | Some a \<Rightarrow> binaryUDPAddrLen a) + binaryUDPAddrLen r"
  by (auto simp: body_bytes_def split: option.splits)

lemma EncodeUDPPacketBinary_Inr:
  "EncodeUDPPacketBinary (Some p) = Inr body \<longleftrightarrow>
   (\<exists>ra r l. RemoteAddr p = Some ra \<and> length (Content p) \<le> MaxUDPPayloadSize \<and>
      validateBinaryUDPAddr ra = Inr r \<and>
      (case LocalAddr p of None \<Rightarrow> l = None
       | Some la \<Rightarrow> \<exists>b. validateBinaryUDPAddr la = Inr b \<and> l = Some b) \<and>
      body = body_bytes l r (Content p) \<and> 2 + length body \<le> DefaultMaxFramePayloadSize)"
  by (auto simp: EncodeUDPPacketBinary_def bindR_eq_Inr Let_def fillUDPBody_layout length_body_bytes
      not_le not_less split: option.splits if_splits)

lemma EncodeUDPPacketBinary_no_panic: "EncodeUDPPacketBinary p \<noteq> Inl UdpPanic"
  by (auto simp: EncodeUDPPacketBinary_def bindR_eq_Inl Let_def fillUDPBody_layout mapErr_def
      split: option.splits if_splits sum.splits)

section \<open>Decoding an encoded body\<close>

lemma addr_wf_zone: "addr_wf a \<Longrightarrow> unat (word_of_nat (length (bzone a)) :: byte) = length (bzone a)"
  by (auto simp: addr_wf_def unat_of_nat)

lemma readBinaryUDPAddr_layout:
  assumes "addr_wf a"
  shows "readBinaryUDPAddr (pre @ addr_bytes a @ post) (length pre) =
         Inr (addr_value a, length pre + binaryUDPAddrLen a)"
proof -
  let ?b = "pre @ addr_bytes a @ post" and ?z = "bytes_of_string (bzone a)"
  let ?zl = "word_of_nat (length (bzone a)) :: byte"
  have b: "?b = pre @ bfamily a # bip a @ put_u16 (bport a) @ ?zl # ?z @ post"
    by (simp add: addr_bytes_def)
  have i0: "index_at AddrPanic ?b (length pre) = Inr (bfamily a)" unfolding b by simp
  have ipl: "(if bfamily a = 4 then Inr 4 else if bfamily a = 6 then Inr 16
      else Inl (UnknownFamily (bfamily a))) = Inr (length (bip a))"
    using assms by (auto simp: addr_wf_def)
  have s1: "slice_at AddrPanic ?b (length pre + 1) (length pre + 1 + length (bip a)) = Inr (bip a)"
    unfolding b using slice_at_append [of _ "pre @ [bfamily a]" "bip a"] by simp
  have s2: "slice_at AddrPanic ?b (length pre + 1 + length (bip a)) (length pre + 1 + length (bip a) + 2) = Inr (put_u16 (bport a))"
    unfolding b using slice_at_append [of _ "pre @ [bfamily a] @ bip a" "put_u16 (bport a)"] by simp
  have i1: "index_at AddrPanic ?b (length pre + 1 + length (bip a) + 2) = Inr ?zl"
    unfolding b using index_at_append [of _ "pre @ [bfamily a] @ bip a @ put_u16 (bport a)" ?zl] by simp
  have s3: "slice_at AddrPanic ?b (length pre + 1 + length (bip a) + 2 + 1) (length pre + 1 + length (bip a) + 2 + 1 + length (bzone a)) = Inr ?z"
    unfolding b using slice_at_appendI [of "length pre + 1 + length (bip a) + 2 + 1"
        "pre @ [bfamily a] @ bip a @ put_u16 (bport a) @ [?zl]"
        "length pre + 1 + length (bip a) + 2 + 1 + length (bzone a)" ?z AddrPanic post] by simp
  have zone: "\<not> (bfamily a = 4 \<and> length (bzone a) \<noteq> 0)" "utf8_valid ?z"
    using assms by (auto simp: addr_wf_def)
  show ?thesis
    unfolding readBinaryUDPAddr_def i0 bindR_simps Let_def ipl s1 s2 i1 addr_wf_zone [OF assms] s3
    using zone by (simp add: addr_value_def binaryUDPAddrLen_def)
qed

lemma readPayload_layout:
  assumes "length content \<le> MaxUDPPayloadSize"
  shows "readPayload (pre @ put_u16 (word_of_nat (length content)) @ content) (length pre) = Inr content"
proof -
  let ?b = "pre @ put_u16 (word_of_nat (length content)) @ content"
  have len: "unat (word_of_nat (length content) :: 16 word) = length content"
    using assms by (simp add: MaxUDPPayloadSize_def unat_of_nat)
  have s1: "slice_at UdpPanic ?b (length pre) (length pre + 2) = Inr (put_u16 (word_of_nat (length content)))"
    by (rule slice_at_appendI) simp_all
  have s2: "slice_at UdpPanic ?b (length pre + 2) (length pre + 2 + length content) = Inr content"
    using slice_at_append [of _ "pre @ put_u16 (word_of_nat (length content))" content "[]"] by simp
  show ?thesis
    unfolding readPayload_def s1 bindR_simps Let_def get_put_u16_Nil len s2
    using assms by simp
qed

lemma flag_cases:
  "(udpPacketFlagLocalAddr OR udpPacketFlagRemoteAddr) AND NOT udpPacketValidFlags = 0"
  "(0 OR udpPacketFlagRemoteAddr) AND NOT udpPacketValidFlags = 0"
  "(udpPacketFlagLocalAddr OR udpPacketFlagRemoteAddr) AND udpPacketFlagRemoteAddr \<noteq> 0"
  "(0 OR udpPacketFlagRemoteAddr) AND udpPacketFlagRemoteAddr \<noteq> 0"
  "(udpPacketFlagLocalAddr OR udpPacketFlagRemoteAddr) AND udpPacketFlagLocalAddr \<noteq> 0"
  "(0 OR udpPacketFlagRemoteAddr) AND udpPacketFlagLocalAddr = 0"
  by (simp_all add: udpPacketFlagLocalAddr_def udpPacketFlagRemoteAddr_def udpPacketValidFlags_def)

lemma Decode_body_bytes:
  assumes "addr_wf r" "case l of None \<Rightarrow> True | Some a \<Rightarrow> addr_wf a"
    and "length content \<le> MaxUDPPayloadSize"
    and "2 + length (body_bytes l r content) \<le> DefaultMaxFramePayloadSize"
  shows "DecodeUDPPacketBinary (body_bytes l r content) =
         Inr \<lparr>Content = content, LocalAddr = map_option addr_value l, RemoteAddr = Some (addr_value r)\<rparr>"
proof (cases l)
  case None
  let ?f = "0 OR udpPacketFlagRemoteAddr"
  have b: "body_bytes l r content = [?f] @ addr_bytes r @ put_u16 (word_of_nat (length content)) @ content"
    by (simp add: body_bytes_def None)
  have ra: "readBinaryUDPAddr (body_bytes l r content) 1 = Inr (addr_value r, 1 + binaryUDPAddrLen r)"
    unfolding b using readBinaryUDPAddr_layout [OF assms(1), of "[?f]"] by simp
  have pl: "readPayload (body_bytes l r content) (1 + binaryUDPAddrLen r) = Inr content"
    unfolding b using readPayload_layout [OF assms(3), of "[?f] @ addr_bytes r"] by simp
  have i: "index_at UdpPanic (body_bytes l r content) 0 = Inr ?f" by (simp add: b index_at_def)
  have n: "\<not> length (body_bytes l r content) < 3" by (simp add: b)
  show ?thesis
    unfolding DecodeUDPPacketBinary_def i bindR_simps
    using n assms(4) flag_cases by (simp add: ra [unfolded None] pl [unfolded None] None del: One_nat_def)
next
  case (Some a)
  let ?f = "udpPacketFlagLocalAddr OR udpPacketFlagRemoteAddr"
  have wf: "addr_wf a" using assms(2) Some by simp
  have b: "body_bytes l r content =
      [?f] @ addr_bytes a @ addr_bytes r @ put_u16 (word_of_nat (length content)) @ content"
    by (simp add: body_bytes_def Some)
  have la: "readBinaryUDPAddr (body_bytes l r content) 1 = Inr (addr_value a, 1 + binaryUDPAddrLen a)"
    unfolding b using readBinaryUDPAddr_layout [OF wf, of "[?f]"] by simp
  have ra: "readBinaryUDPAddr (body_bytes l r content) (1 + binaryUDPAddrLen a) =
      Inr (addr_value r, 1 + binaryUDPAddrLen a + binaryUDPAddrLen r)"
    unfolding b using readBinaryUDPAddr_layout [OF assms(1), of "[?f] @ addr_bytes a"] by simp
  have pl: "readPayload (body_bytes l r content) (1 + binaryUDPAddrLen a + binaryUDPAddrLen r) = Inr content"
    unfolding b using readPayload_layout [OF assms(3), of "[?f] @ addr_bytes a @ addr_bytes r"] by simp
  have i: "index_at UdpPanic (body_bytes l r content) 0 = Inr ?f" by (simp add: b index_at_def)
  have n: "\<not> length (body_bytes l r content) < 3" by (simp add: b)
  show ?thesis
    unfolding DecodeUDPPacketBinary_def i bindR_simps
    using n assms(4) flag_cases by (simp add: la [unfolded Some] ra [unfolded Some] pl [unfolded Some] Some del: One_nat_def)
qed

section \<open>What the decoder accepts\<close>

lemma take_drop_split: "j \<le> k \<Longrightarrow> drop j xs = take (k - j) (drop j xs) @ drop k xs"
  by (metis append_take_drop_id drop_drop le_add_diff_inverse2)

lemma readBinaryUDPAddr_Inr:
  assumes "readBinaryUDPAddr body offset = Inr (a, offset')"
  shows "\<exists>b. addr_wf b \<and> a = addr_value b \<and> offset' = offset + binaryUDPAddrLen b \<and>
         drop offset body = addr_bytes b @ drop offset' body \<and> offset' \<le> length body"
proof -
  have off: "offset < length body"
    using assms by (simp add: readBinaryUDPAddr_def split: if_splits)
  have "body ! offset = 4 \<or> body ! offset = 6"
    using assms off by (auto simp: readBinaryUDPAddr_def index_at_def split: if_splits)
  then obtain n where n: "(if body ! offset = 4 then Inr 4 else if body ! offset = 6 then Inr 16
      else Inl (UnknownFamily (body ! offset))) = (Inr n :: uaddr_error + nat)"
    and fam: "(body ! offset = 4 \<and> n = 4) \<or> (body ! offset = 6 \<and> n = 16)" by auto
  have big: "offset + 1 + (n + 3) \<le> length body"
    using assms off unfolding readBinaryUDPAddr_def by (simp add: index_at_def Let_def n split: if_splits)
  let ?z = "unat (body ! (offset + 1 + n + 2))"
  let ?zb = "take ?z (drop (offset + 1 + n + 2 + 1) body)"
  have zl: "offset + 1 + n + 2 + 1 + ?z \<le> length body"
    using assms off big unfolding readBinaryUDPAddr_def
    by (simp add: index_at_def slice_at_def Let_def n split: if_splits)
  have eqn: "(if body ! offset = 4 \<and> ?z \<noteq> 0 then Inl IPv4ZoneForbidden
      else if \<not> utf8_valid ?zb then Inl ZoneNotUTF8
      else Inr (\<lparr>IP = take n (drop (offset + 1) body),
             Port = uint (get_u16 (take 2 (drop (offset + 1 + n) body))),
             Zone = string_of_bytes ?zb\<rparr>, offset + 1 + n + 2 + 1 + ?z)) = Inr (a, offset')"
    using assms off big zl unfolding readBinaryUDPAddr_def
    by (simp add: index_at_def slice_at_def Let_def n split del: if_split cong: if_cong)
  from eqn have v4: "\<not> (body ! offset = 4 \<and> ?z \<noteq> 0)" by (auto split: if_splits)
  from eqn v4 have utf: "utf8_valid ?zb" by (auto split: if_splits)
  from eqn v4 utf have a: "a = \<lparr>IP = take n (drop (offset + 1) body),
             Port = uint (get_u16 (take 2 (drop (offset + 1 + n) body))), Zone = string_of_bytes ?zb\<rparr>"
    and off': "offset' = offset + 1 + n + 2 + 1 + ?z" by auto
  define b where "b = \<lparr>bfamily = body ! offset, bip = take n (drop (offset + 1) body),
      bport = get_u16 (take 2 (drop (offset + 1 + n) body)),
      bzone = string_of_bytes (take ?z (drop (offset + 1 + n + 2 + 1) body))\<rparr>"
  have zlen: "length (bzone b) = ?z" using zl by (simp add: b_def)
  have lip: "length (bip b) = n" using big by (simp add: b_def)
  have z255: "?z \<le> 255" using unsigned_less [of "body ! (offset + 1 + n + 2)", where 'a = nat] by simp
  have wf: "addr_wf b"
    using fam v4 utf z255 zlen lip unfolding addr_wf_def by (auto simp: b_def)
  have off_b: "offset' = offset + binaryUDPAddrLen b"
    by (simp add: off' binaryUDPAddrLen_def zlen lip)
  have d0: "drop offset body = body ! offset # drop (offset + 1) body"
    using off by (simp add: Cons_nth_drop_Suc)
  have d1: "drop (offset + 1) body = take n (drop (offset + 1) body) @ drop (offset + 1 + n) body"
    by (rule drop_split)
  have d2: "drop (offset + 1 + n) body = take 2 (drop (offset + 1 + n) body) @ drop (offset + 1 + n + 2) body"
    by (rule drop_split)
  have d3: "drop (offset + 1 + n + 2) body = body ! (offset + 1 + n + 2) # drop (offset + 1 + n + 2 + 1) body"
    using big Cons_nth_drop_Suc [of "offset + 1 + n + 2" body] by (simp add: numeral_3_eq_3)
  have d4: "drop (offset + 1 + n + 2 + 1) body = take ?z (drop (offset + 1 + n + 2 + 1) body) @ drop offset' body"
    unfolding off' by (rule drop_split)
  have pb: "put_u16 (bport b) = take 2 (drop (offset + 1 + n) body)"
    using big by (simp add: b_def put_get_u16)
  have zb: "word_of_nat (length (bzone b)) = body ! (offset + 1 + n + 2)" by (simp add: zlen)
  have "drop offset body = addr_bytes b @ drop offset' body"
    unfolding addr_bytes_def pb zb
    by (subst d0, subst d1, subst d2, subst d3, subst d4) (simp add: b_def)
  moreover have "a = addr_value b" by (simp add: a addr_value_def b_def)
  moreover have "offset' \<le> length body" using zl off' by simp
  ultimately show ?thesis using wf off_b by (intro exI [of _ b] conjI)
qed

lemma readBinaryUDPAddr_no_panic: "readBinaryUDPAddr body offset \<noteq> Inl AddrPanic"
  unfolding readBinaryUDPAddr_def Let_def
  by (intro bindR_not_Inl if_not_Inl) (simp_all add: index_at_def slice_at_def)

lemma readPayload_no_panic: "readPayload body offset \<noteq> Inl UdpPanic"
  unfolding readPayload_def Let_def
  by (intro bindR_not_Inl if_not_Inl) (auto simp add: slice_at_def)

lemma readPayload_Inr:
  assumes "readPayload body offset = Inr content"
  shows "drop offset body = put_u16 (word_of_nat (length content)) @ content \<and>
         length content \<le> MaxUDPPayloadSize"
proof -
  let ?n = "unat (get_u16 (take 2 (drop offset body)))"
  have o: "\<not> length body < offset + 2"
    using assms unfolding readPayload_def by (simp split: if_split_asm)
  have n: "\<not> MaxUDPPayloadSize < ?n"
    using assms o unfolding readPayload_def by (simp add: slice_at_def Let_def split: if_split_asm)
  have l: "length body - (offset + 2) = ?n"
    using assms o n unfolding readPayload_def by (simp add: slice_at_def Let_def split: if_split_asm)
  have c: "content = drop (offset + 2) body"
    using assms o n l unfolding readPayload_def by (simp add: slice_at_def Let_def split: if_split_asm)
  have "length content = ?n" using l c by simp
  then have "(word_of_nat (length content) :: 16 word) = get_u16 (take 2 (drop offset body))"
    by simp
  then have "put_u16 (word_of_nat (length content)) = take 2 (drop offset body)"
    using o by (simp add: put_get_u16)
  then show ?thesis
    using \<open>length content = ?n\<close> n c drop_split [of offset body 2] by simp
qed

lemma mask_split: "(f :: byte) = (f AND NOT (a OR b)) OR ((f AND a) OR (f AND b))"
  by (rule bit_word_eqI) (auto simp: bit_simps)

lemma flags_decide:
  fixes f :: byte
  assumes "f AND NOT udpPacketValidFlags = 0" "f AND udpPacketFlagRemoteAddr \<noteq> 0"
  shows "f = (if f AND udpPacketFlagLocalAddr \<noteq> 0 then udpPacketFlagLocalAddr else 0)
             OR udpPacketFlagRemoteAddr"
proof -
  have "f AND NOT (1 OR 2) = 0" using assms(1)
    unfolding udpPacketValidFlags_def udpPacketFlagLocalAddr_def udpPacketFlagRemoteAddr_def .
  moreover have "f = (f AND NOT (1 OR 2)) OR ((f AND 1) OR (f AND 2))" by (rule mask_split)
  moreover have "f AND 1 = 0 \<or> f AND 1 = 1" by (simp add: and_one_eq mod_2_eq_odd)
  moreover have "f AND 2 = 0 \<or> f AND 2 = 2"
  proof -
    have "f AND push_bit 1 1 = (if bit f 1 then push_bit 1 1 else 0)"
      by (rule bit_word_eqI) (auto simp: bit_simps)
    then show ?thesis by (auto split: if_splits)
  qed
  ultimately show ?thesis
    using assms(2) by (auto simp: udpPacketFlagLocalAddr_def udpPacketFlagRemoteAddr_def)
qed

lemma Decode_Inr:
  assumes "DecodeUDPPacketBinary body = Inr p"
  shows "\<exists>l r. addr_wf r \<and> (case l of None \<Rightarrow> True | Some a \<Rightarrow> addr_wf a) \<and>
     body = body_bytes l r (Content p) \<and> length (Content p) \<le> MaxUDPPayloadSize \<and>
     2 + length body \<le> DefaultMaxFramePayloadSize \<and>
     LocalAddr p = map_option addr_value l \<and> RemoteAddr p = Some (addr_value r)"
proof -
  have len: "\<not> length body < 3" and sz: "\<not> DefaultMaxFramePayloadSize < 2 + length body"
    using assms by (simp_all add: DecodeUDPPacketBinary_def split: if_split_asm)
  then obtain f rest where body: "body = f # rest" by (cases body) auto
  have i0: "index_at UdpPanic body 0 = Inr f" by (simp add: index_at_def body)
  note D = assms [unfolded DecodeUDPPacketBinary_def i0 bindR_simps if_not_P [OF len] if_not_P [OF sz]]
  have f1: "f AND NOT udpPacketValidFlags = 0" using D by (cases "f AND NOT udpPacketValidFlags = 0") simp_all
  have f2: "f AND udpPacketFlagRemoteAddr \<noteq> 0"
    using D f1 by (cases "f AND udpPacketFlagRemoteAddr = 0") simp_all
  note fl = f1 f2
  from D f1 f2 have
    "bindR (if f AND udpPacketFlagLocalAddr \<noteq> 0
         then bindR (mapErr LocalAddrErr (readBinaryUDPAddr body 1)) (\<lambda>(a, off). Inr (Some a, off))
         else Inr (None, 1)) (\<lambda>(la, offset).
          bindR (mapErr RemoteAddrErr (readBinaryUDPAddr body offset)) (\<lambda>(ra, offset).
          bindR (readPayload body offset) (\<lambda>content.
            Inr \<lparr>Content = content, LocalAddr = la, RemoteAddr = Some ra\<rparr>))) = Inr p"
    by (simp split del: if_split)
  then obtain la off ra off2 where
    l: "(if f AND udpPacketFlagLocalAddr \<noteq> 0
         then bindR (mapErr LocalAddrErr (readBinaryUDPAddr body 1)) (\<lambda>(a, off). Inr (Some a, off))
         else Inr (None, 1)) = Inr (la, off)" and
    r: "readBinaryUDPAddr body off = Inr (ra, off2)" and
    c: "readPayload body off2 = Inr (Content p)" and
    p: "LocalAddr p = la" "RemoteAddr p = Some ra"
    by (fastforce simp: bindR_eq_Inr split del: if_split)
  from readBinaryUDPAddr_Inr [OF r] obtain rb where
    rb: "addr_wf rb" "ra = addr_value rb" "drop off body = addr_bytes rb @ drop off2 body" by blast
  from readPayload_Inr [OF c] have
    pl: "drop off2 body = put_u16 (word_of_nat (length (Content p))) @ Content p"
      "length (Content p) \<le> MaxUDPPayloadSize" by auto
  show ?thesis
  proof (cases "f AND udpPacketFlagLocalAddr \<noteq> 0")
    case True
    with l obtain a where "readBinaryUDPAddr body 1 = Inr (a, off)" and la: "la = Some a"
      by (auto simp: bindR_eq_Inr)
    from readBinaryUDPAddr_Inr [OF this(1)] obtain lb where
      lb: "addr_wf lb" "a = addr_value lb" "drop 1 body = addr_bytes lb @ drop off body" by blast
    have "f = udpPacketFlagLocalAddr OR udpPacketFlagRemoteAddr"
      using flags_decide [OF fl] True by simp
    then have "body = body_bytes (Some lb) rb (Content p)"
      using lb(3) rb(3) pl(1) by (simp add: body body_bytes_def)
    then show ?thesis using rb lb la p pl(2) sz by (intro exI [of _ "Some lb"] exI [of _ rb]) simp
  next
    case False
    with l have "la = None" "off = 1" by auto
    moreover have "f = 0 OR udpPacketFlagRemoteAddr"
      using flags_decide [OF fl] False by simp
    ultimately have "body = body_bytes None rb (Content p)"
      using rb(3) pl(1) by (simp add: body body_bytes_def)
    then show ?thesis using rb \<open>la = None\<close> p pl(2) sz by (intro exI [of _ None] exI [of _ rb]) simp
  qed
qed

section \<open>The codec as a whole\<close>

text \<open>The value a codec round trip restores: an address is in its shortest form.\<close>

definition canon_addr :: "udp_addr \<Rightarrow> udp_addr" where
  "canon_addr a = a\<lparr>IP := (case To4 (IP a) of None \<Rightarrow> IP a | Some v4 \<Rightarrow> v4)\<rparr>"

definition canon_packet :: "udp_packet \<Rightarrow> udp_packet" where
  "canon_packet p = p\<lparr>LocalAddr := map_option canon_addr (LocalAddr p),
                      RemoteAddr := map_option canon_addr (RemoteAddr p)\<rparr>"

lemma port_fits: "0 \<le> n \<Longrightarrow> n \<le> 65535 \<Longrightarrow> uint (word_of_int n :: 16 word) = n"
  by (simp add: uint_word_of_int)

lemma validate_value: "validateBinaryUDPAddr a = Inr b \<Longrightarrow> addr_value b = canon_addr a"
  by (cases a) (auto simp: validateBinaryUDPAddr_def addr_value_def canon_addr_def To16_def To4_def port_fits
      split: if_splits option.splits)

lemma addr_value_validate:
  assumes "addr_wf b" "length (bip b) = 16 \<longrightarrow> To4 (bip b) = None"
  shows "validateBinaryUDPAddr (addr_value b) = Inr b"
proof -
  have p: "0 \<le> uint (bport b)" "uint (bport b) \<le> 65535"
    using uint_lt2p [of "bport b"] by simp_all
  show ?thesis
    using assms p by (cases b) (auto simp: addr_wf_def validateBinaryUDPAddr_def addr_value_def To4_def To16_def)
qed

lemma Decode_no_panic:
  "DecodeUDPPacketBinary body \<notin> Inl ` {UdpPanic, LocalAddrErr AddrPanic, RemoteAddrErr AddrPanic}"
proof -
  have m: "mapErr g (readBinaryUDPAddr body k) \<noteq> Inl UdpPanic"
    if "\<And>e. g e \<noteq> UdpPanic" for g k
    using that by (simp add: mapErr_def split: sum.splits)
  have n: "mapErr g (readBinaryUDPAddr body k) \<noteq> Inl (h AddrPanic)"
    if "\<And>e. g e = h AddrPanic \<longrightarrow> e = AddrPanic" for g h k
    using that readBinaryUDPAddr_no_panic [of body k] by (auto simp add: mapErr_def split: sum.splits)
  have r: "readPayload body k \<noteq> Inl (LocalAddrErr e)" "readPayload body k \<noteq> Inl (RemoteAddrErr e)" for k e
    unfolding readPayload_def Let_def
    by (intro bindR_not_Inl if_not_Inl; simp add: slice_at_def)+
  have "DecodeUDPPacketBinary body \<noteq> Inl UdpPanic"
    unfolding DecodeUDPPacketBinary_def case_prod_beta
    by (intro bindR_not_Inl if_not_Inl m readPayload_no_panic) (auto simp: index_at_def)
  moreover have "DecodeUDPPacketBinary body \<noteq> Inl (LocalAddrErr AddrPanic)"
    unfolding DecodeUDPPacketBinary_def case_prod_beta
    by (intro bindR_not_Inl if_not_Inl n r) (auto simp: index_at_def)
  moreover have "DecodeUDPPacketBinary body \<noteq> Inl (RemoteAddrErr AddrPanic)"
    unfolding DecodeUDPPacketBinary_def case_prod_beta
    by (intro bindR_not_Inl if_not_Inl n r) (auto simp: index_at_def)
  ultimately show ?thesis by auto
qed

lemma Encode_Decode:
  assumes "EncodeUDPPacketBinary (Some p) = Inr body"
  shows "DecodeUDPPacketBinary body = Inr (canon_packet p)"
proof -
  from assms obtain ra r l where e: "RemoteAddr p = Some ra" "length (Content p) \<le> MaxUDPPayloadSize"
    "validateBinaryUDPAddr ra = Inr r"
    "case LocalAddr p of None \<Rightarrow> l = None | Some la \<Rightarrow> \<exists>b. validateBinaryUDPAddr la = Inr b \<and> l = Some b"
    "body = body_bytes l r (Content p)" "2 + length body \<le> DefaultMaxFramePayloadSize"
    unfolding EncodeUDPPacketBinary_Inr by blast
  have "case l of None \<Rightarrow> True | Some a \<Rightarrow> addr_wf a"
    using e(4) by (auto dest: validate_wf split: option.splits)
  moreover have "map_option addr_value l = map_option canon_addr (LocalAddr p)"
    using e(4) by (auto dest: validate_value split: option.splits)
  ultimately show ?thesis
    using e(2,5,6) Decode_body_bytes [of r l "Content p"] validate_wf [OF e(3)] validate_value [OF e(3)]
    by (simp add: canon_packet_def e(1))
qed

text \<open>C11. Decoding inverts encoding: a body that EncodeUDPPacketBinary produces is accepted by
  DecodeUDPPacketBinary and gives back the packet, with IPv4-mapped addresses in four-byte form.\<close>

theorem udp_packet_roundtrip:
  "EncodeUDPPacketBinary (Some p) = Inr body \<Longrightarrow> DecodeUDPPacketBinary body = Inr (canon_packet p)"
  by (rule Encode_Decode)

definition sample_packet :: udp_packet where
  "sample_packet = \<lparr>Content = [1, 2, 3],
     LocalAddr = Some \<lparr>IP = v4InV6Prefix @ [127, 0, 0, 1], Port = 6000, Zone = ''''\<rparr>,
     RemoteAddr = Some \<lparr>IP = [0xFE, 0x80, 0, 0, 0, 0, 0, 0, 0, 0, 0, 0, 0, 0, 0, 1], Port = 53, Zone = ''eth0''\<rparr>\<rparr>"

definition sample_body :: bytes where
  "sample_body = [3, 4, 127, 0, 0, 1, 0x17, 0x70, 0,
     6, 0xFE, 0x80, 0, 0, 0, 0, 0, 0, 0, 0, 0, 0, 0, 0, 0, 1, 0, 53, 4, 101, 116, 104, 48, 0, 3, 1, 2, 3]"

lemmas codec_eval = EncodeUDPPacketBinary_def DecodeUDPPacketBinary_def validateBinaryUDPAddr_def To4_def
  To16_def v4InV6Prefix_def binaryUDPAddrLen_def fillUDPBody_layout body_bytes_def addr_bytes_def put_u16_def
  readBinaryUDPAddr_def readPayload_def index_at_def slice_at_def utf8_cont_def MaxUDPPayloadSize_def
  DefaultMaxFramePayloadSize_def udpPacketFlagLocalAddr_def udpPacketFlagRemoteAddr_def
  udpPacketValidFlags_def Let_def bytes_of_string_def byte_of_char_def string_of_bytes_def
  sample_packet_def sample_body_def canon_packet_def canon_addr_def

lemma zone_chars:
  "char_of_byte 101 = CHR ''e''" "char_of_byte 116 = CHR ''t''" "char_of_byte 104 = CHR ''h''"
  "char_of_byte 48 = CHR ''0''" "char_of_byte 97 = CHR ''a''"
  by code_simp+

lemma encode_sample: "EncodeUDPPacketBinary (Some sample_packet) = Inr sample_body"
  by (simp add: codec_eval of_char_def)

theorem udp_packet_roundtrip_witness:
  "EncodeUDPPacketBinary (Some sample_packet) = Inr sample_body \<and>
   DecodeUDPPacketBinary sample_body = Inr (canon_packet sample_packet)"
  using encode_sample udp_packet_roundtrip [OF encode_sample] by blast

text \<open>Neither direction of the codec can panic: no slice or index expression of the encoder
  or of the decoder is out of range, whatever packet or body it is given.\<close>

theorem udp_codec_no_panic:
  "EncodeUDPPacketBinary packet \<noteq> Inl UdpPanic \<and>
   DecodeUDPPacketBinary body \<notin> Inl ` {UdpPanic, LocalAddrErr AddrPanic, RemoteAddrErr AddrPanic}"
  using EncodeUDPPacketBinary_no_panic Decode_no_panic by blast

text \<open>The decoder accepts one body per packet: a body that decodes to addresses that are not
  IPv4-mapped is exactly the body the encoder produces for the decoded packet.\<close>

theorem udp_decode_canonical:
  assumes "DecodeUDPPacketBinary body = Inr p"
    and "\<And>a. LocalAddr p = Some a \<or> RemoteAddr p = Some a \<Longrightarrow> length (IP a) = 16 \<Longrightarrow> To4 (IP a) = None"
  shows "EncodeUDPPacketBinary (Some p) = Inr body"
proof -
  from Decode_Inr [OF assms(1)] obtain l r where d: "addr_wf r"
    "case l of None \<Rightarrow> True | Some a \<Rightarrow> addr_wf a"
    "body = body_bytes l r (Content p)" "length (Content p) \<le> MaxUDPPayloadSize"
    "2 + length body \<le> DefaultMaxFramePayloadSize"
    "LocalAddr p = map_option addr_value l" "RemoteAddr p = Some (addr_value r)" by blast
  have v: "validateBinaryUDPAddr (addr_value b) = Inr b" if "addr_wf b" "b = r \<or> l = Some b" for b
    using that assms(2) [of "addr_value b"] d(6,7)
    by (intro addr_value_validate) (auto simp: addr_value_def)
  show ?thesis unfolding EncodeUDPPacketBinary_Inr
    by (rule exI [of _ "addr_value r"], rule exI [of _ r], rule exI [of _ l])
       (use d v in \<open>auto split: option.splits\<close>)
qed

theorem udp_decode_canonical_witness:
  "EncodeUDPPacketBinary (Some (canon_packet sample_packet)) = Inr sample_body"
proof (rule udp_decode_canonical)
  show "DecodeUDPPacketBinary sample_body = Inr (canon_packet sample_packet)"
    by (simp add: codec_eval zone_chars)
next
  fix a
  assume "LocalAddr (canon_packet sample_packet) = Some a \<or> RemoteAddr (canon_packet sample_packet) = Some a"
    and "length (IP a) = 16"
  then show "To4 (IP a) = None"
    by (auto simp: canon_packet_def canon_addr_def sample_packet_def To4_def v4InV6Prefix_def)
qed

text \<open>The two directions disagree on IPv4-mapped addresses with a zone: the decoder accepts
  a family 6 address that is IPv4-mapped and has a zone, and the packet it returns is one the
  encoder refuses.\<close>

lemma udp_mapped_zone_one_way:
  "\<exists>body p. DecodeUDPPacketBinary body = Inr p \<and>
            EncodeUDPPacketBinary (Some p) = Inl (RemoteAddrErr IPv4ZoneForbidden)"
proof -
  let ?body = "[2, 6] @ v4InV6Prefix @ [10, 0, 0, 1, 0, 53, 1, 97, 0, 1, 7] :: bytes"
  have "(case DecodeUDPPacketBinary ?body of
           Inl _ \<Rightarrow> False
         | Inr p \<Rightarrow> EncodeUDPPacketBinary (Some p) = Inl (RemoteAddrErr IPv4ZoneForbidden))"
    by (simp add: codec_eval zone_chars)
  from case_Inr_ex [OF this] show ?thesis by (rule exI)
qed

end
