(* ===== verification/Msg_V2.thy ===== *)
theory Msg_V2
  imports Wire_Hello Udp_Binary
begin

text \<open>
  Messages on a version 2 connection: the type tables and frame codec of \<^verbatim>\<open>pkg/msg/wire_v2.go\<close>,
  the binary UDP packet reader and writer of \<^verbatim>\<open>pkg/msg/udp_binary.go\<close>, the choice of a codec by
  \<^verbatim>\<open>NewReadWriter\<close> and \<^verbatim>\<open>NewUDPPacketReadWriter\<close>, the read loop of the dispatcher
  (\<^verbatim>\<open>pkg/msg/handler.go\<close>) and the server's reading of a first message (\<^verbatim>\<open>server/service.go\<close>).

  A message is the kind of its Go struct with its field values; a UDP packet is spelled out because
  the binary codec looks inside it.  The JSON encoding of a struct, and the version 1 codec of
  \<^verbatim>\<open>golib/msg/json\<close>, are arguments.
\<close>

section \<open>Message kinds and type ids\<close>

datatype msg_kind =
    Login | LoginResp | NewProxy | NewProxyResp | CloseProxy | NewWorkConn | ReqWorkConn
  | StartWorkConn | NewVisitorConn | NewVisitorConnResp | Ping | Pong | UDPPacket
  | NatHoleVisitor | NatHoleClient | NatHoleResp | NatHoleSid | NatHoleReport

definition V2TypeUDPPacket :: "16 word" where "V2TypeUDPPacket = 13"
definition V2TypeUDPPacketBinary :: "16 word" where "V2TypeUDPPacketBinary = 19"

definition v2MsgTypeMap :: "(16 word \<times> msg_kind) list" where
  "v2MsgTypeMap =
     [(1, Login), (2, LoginResp), (3, NewProxy), (4, NewProxyResp), (5, CloseProxy), (6, NewWorkConn),
      (7, ReqWorkConn), (8, StartWorkConn), (9, NewVisitorConn), (10, NewVisitorConnResp), (11, Ping),
      (12, Pong), (V2TypeUDPPacket, UDPPacket), (14, NatHoleVisitor), (15, NatHoleClient),
      (16, NatHoleResp), (17, NatHoleSid), (18, NatHoleReport)]"

text \<open>The two maps that \<^verbatim>\<open>buildV2MsgTypeMaps\<close> derives from the table.\<close>

definition v2MsgReflectTypeMap :: "16 word \<Rightarrow> msg_kind option" where
  "v2MsgReflectTypeMap = map_of v2MsgTypeMap"

definition v2MsgTypeIDMap :: "msg_kind \<Rightarrow> 16 word option" where
  "v2MsgTypeIDMap = map_of (map (\<lambda>(i, k). (k, i)) v2MsgTypeMap)"

section \<open>Messages\<close>

text \<open>
  A value handed to the codec: nothing, a UDP packet, a message struct of another kind with its
  fields, or a value of a type that is not a message.
\<close>

datatype 'j message = NilMessage | UDPMsg udp_packet | JSONMsg msg_kind 'j | ForeignMsg

fun kind_of :: "'j message \<Rightarrow> msg_kind option" where
  "kind_of NilMessage = None"
| "kind_of (UDPMsg _) = Some UDPPacket"
| "kind_of (JSONMsg k _) = Some k"
| "kind_of ForeignMsg = None"

datatype msg_error =
    WireErr wire_error
  | PayloadTooShort
  | UnknownTypeID "16 word"
  | UnknownGoType
  | NilMsg
  | NotPointer
  | UnexpectedMsgType msg_kind msg_kind
  | UnexpectedTypeID "16 word" "16 word"
  | JSONAfterBinary
  | MsgJSONErr
  | UDPErr udp_error
  | UnsupportedUDPCodec string
  | CodecNeedsV2 string
  | UnsupportedProtocol string
  | V1Err
  | ReadMagic io_error
  | HelloFailed exchange_error

record 'j json =
  Marshal :: "'j message \<Rightarrow> bytes option"
  Unmarshal :: "msg_kind \<Rightarrow> bytes \<Rightarrow> 'j message option"

definition DecodeV2MessageFrame :: "'j json \<Rightarrow> frame \<Rightarrow> msg_error + 'j message" where
  "DecodeV2MessageFrame J f =
     (if FType f \<noteq> FrameTypeMessage then Inl (WireErr (UnexpectedFrameType (FType f) FrameTypeMessage))
      else if length (FPayload f) < 2 then Inl PayloadTooShort
      else
        let typeID = get_u16 (take 2 (FPayload f)) in
        (case v2MsgReflectTypeMap typeID of
           None \<Rightarrow> Inl (UnknownTypeID typeID)
         | Some k \<Rightarrow>
             (case Unmarshal J k (drop 2 (FPayload f)) of
                None \<Rightarrow> Inl MsgJSONErr
              | Some m \<Rightarrow> Inr m)))"

text \<open>The target of \<^verbatim>\<open>ReadMsgInto\<close>: not a pointer, or a pointer to a message kind or to another type.\<close>

datatype msg_target = NonPointer | PointerTo msg_kind | PointerToForeign

definition DecodeV2MessageFrameInto :: "'j json \<Rightarrow> frame \<Rightarrow> msg_target \<Rightarrow> msg_error + 'j message" where
  "DecodeV2MessageFrameInto J f out =
     (if FType f \<noteq> FrameTypeMessage then Inl (WireErr (UnexpectedFrameType (FType f) FrameTypeMessage))
      else if length (FPayload f) < 2 then Inl PayloadTooShort
      else
        let typeID = get_u16 (take 2 (FPayload f)) in
        (case out of
           NonPointer \<Rightarrow> Inl NotPointer
         | PointerToForeign \<Rightarrow> Inl UnknownGoType
         | PointerTo k \<Rightarrow>
             (case v2MsgTypeIDMap k of
                None \<Rightarrow> Inl UnknownGoType
              | Some expectedTypeID \<Rightarrow>
                  if typeID \<noteq> expectedTypeID then
                    (case v2MsgReflectTypeMap typeID of
                       None \<Rightarrow> Inl (UnknownTypeID typeID)
                     | Some actual \<Rightarrow> Inl (UnexpectedMsgType actual k))
                  else (case Unmarshal J k (drop 2 (FPayload f)) of
                          None \<Rightarrow> Inl MsgJSONErr
                        | Some m \<Rightarrow> Inr m))))"

definition EncodeV2MessageFrame :: "'j json \<Rightarrow> 'j message \<Rightarrow> msg_error + frame" where
  "EncodeV2MessageFrame J m =
     (if m = NilMessage then Inl NilMsg
      else
        (case Option.bind (kind_of m) v2MsgTypeIDMap of
           None \<Rightarrow> Inl UnknownGoType
         | Some typeID \<Rightarrow>
             (case Marshal J m of
                None \<Rightarrow> Inl MsgJSONErr
              | Some content \<Rightarrow>
                  Inr \<lparr>FType = FrameTypeMessage, FFlags = 0, FPayload = put_u16 typeID @ content\<rparr>)))"

section \<open>Readers and writers\<close>

definition read_frame :: "wconn \<Rightarrow> bytes \<Rightarrow> (frame \<Rightarrow> msg_error + 'a) \<Rightarrow> (msg_error + 'a) \<times> bytes" where
  "read_frame c s k =
     (case ReadFrame c s of (Inl e, s1) \<Rightarrow> (Inl (WireErr e), s1) | (Inr f, s1) \<Rightarrow> (k f, s1))"

definition write_frame :: "wconn \<Rightarrow> msg_error + frame \<Rightarrow> writer \<Rightarrow> (msg_error + unit) \<times> writer" where
  "write_frame c r w =
     (case r of
        Inl e \<Rightarrow> (Inl e, w)
      | Inr f \<Rightarrow> (case WriteFrame c f w of (Inl e, w1) \<Rightarrow> (Inl (WireErr e), w1) | (Inr _, w1) \<Rightarrow> (Inr (), w1)))"

definition V2_ReadMsg :: "wconn \<Rightarrow> 'j json \<Rightarrow> bytes \<Rightarrow> (msg_error + 'j message) \<times> bytes" where
  "V2_ReadMsg c J s = read_frame c s (DecodeV2MessageFrame J)"

definition V2_ReadMsgInto :: "wconn \<Rightarrow> 'j json \<Rightarrow> msg_target \<Rightarrow> bytes \<Rightarrow> (msg_error + 'j message) \<times> bytes" where
  "V2_ReadMsgInto c J out s = read_frame c s (\<lambda>f. DecodeV2MessageFrameInto J f out)"

definition V2_WriteMsg :: "wconn \<Rightarrow> 'j json \<Rightarrow> 'j message \<Rightarrow> writer \<Rightarrow> (msg_error + unit) \<times> writer" where
  "V2_WriteMsg c J m w = write_frame c (EncodeV2MessageFrame J m) w"

definition isV2MessageType :: "frame \<Rightarrow> 16 word \<Rightarrow> bool" where
  "isV2MessageType f typeID \<longleftrightarrow>
     FType f = FrameTypeMessage \<and> length (FPayload f) \<ge> 2 \<and> get_u16 (take 2 (FPayload f)) = typeID"

definition unexpectedV2UDPPacketType :: "frame \<Rightarrow> msg_error" where
  "unexpectedV2UDPPacketType f =
     (if FType f \<noteq> FrameTypeMessage then WireErr (UnexpectedFrameType (FType f) FrameTypeMessage)
      else if length (FPayload f) < 2 then PayloadTooShort
      else
        let typeID = get_u16 (take 2 (FPayload f)) in
        if typeID = V2TypeUDPPacket then JSONAfterBinary
        else UnexpectedTypeID typeID V2TypeUDPPacketBinary)"

definition decodeV2BinaryUDPPacketFrame :: "frame \<Rightarrow> msg_error + udp_packet" where
  "decodeV2BinaryUDPPacketFrame f =
     (if FType f \<noteq> FrameTypeMessage then Inl (WireErr (UnexpectedFrameType (FType f) FrameTypeMessage))
      else if length (FPayload f) < 2 then Inl PayloadTooShort
      else if get_u16 (take 2 (FPayload f)) \<noteq> V2TypeUDPPacketBinary then Inl (unexpectedV2UDPPacketType f)
      else mapErr UDPErr (DecodeUDPPacketBinary (drop 2 (FPayload f))))"

definition V2B_ReadMsg :: "wconn \<Rightarrow> 'j json \<Rightarrow> bytes \<Rightarrow> (msg_error + 'j message) \<times> bytes" where
  "V2B_ReadMsg c J s =
     read_frame c s (\<lambda>f.
       if isV2MessageType f V2TypeUDPPacketBinary
         then bindR (decodeV2BinaryUDPPacketFrame f) (\<lambda>p. Inr (UDPMsg p))
       else if isV2MessageType f V2TypeUDPPacket then Inl JSONAfterBinary
       else DecodeV2MessageFrame J f)"

definition V2B_ReadMsgInto :: "wconn \<Rightarrow> 'j json \<Rightarrow> msg_target \<Rightarrow> bytes \<Rightarrow> (msg_error + 'j message) \<times> bytes" where
  "V2B_ReadMsgInto c J out s =
     read_frame c s (\<lambda>f.
       if out = PointerTo UDPPacket then
         (if \<not> isV2MessageType f V2TypeUDPPacketBinary then Inl (unexpectedV2UDPPacketType f)
          else bindR (decodeV2BinaryUDPPacketFrame f) (\<lambda>p. Inr (UDPMsg p)))
       else DecodeV2MessageFrameInto J f out)"

definition V2B_WriteMsg :: "wconn \<Rightarrow> 'j json \<Rightarrow> 'j message \<Rightarrow> writer \<Rightarrow> (msg_error + unit) \<times> writer" where
  "V2B_WriteMsg c J m w =
     write_frame c
       (case m of
          UDPMsg p \<Rightarrow>
            bindR (mapErr UDPErr (EncodeUDPPacketBinary (Some p))) (\<lambda>body.
              Inr \<lparr>FType = FrameTypeMessage, FFlags = 0, FPayload = put_u16 V2TypeUDPPacketBinary @ body\<rparr>)
        | _ \<Rightarrow> EncodeV2MessageFrame J m) w"

section \<open>Choosing a codec\<close>

datatype read_writer = V1ReadWriter | V2ReadWriter wconn | V2BinaryUDPPacketReadWriter wconn

definition NewReadWriter :: "string \<Rightarrow> read_writer" where
  "NewReadWriter wireProtocol =
     (if wireProtocol = ProtocolV2 then V2ReadWriter NewConn
      else if wireProtocol = '''' \<or> wireProtocol = ProtocolV1 then V1ReadWriter
      else V1ReadWriter)"

definition NewUDPPacketReadWriter :: "string \<Rightarrow> string \<Rightarrow> msg_error + read_writer" where
  "NewUDPPacketReadWriter wireProtocol udpPacketCodec =
     (if wireProtocol = '''' \<or> wireProtocol = ProtocolV1 then
        (if udpPacketCodec \<noteq> '''' then Inl (CodecNeedsV2 udpPacketCodec) else Inr V1ReadWriter)
      else if wireProtocol = ProtocolV2 then
        (if udpPacketCodec = '''' then Inr (V2ReadWriter NewConn)
         else if udpPacketCodec = UDPPacketCodecBinary then Inr (V2BinaryUDPPacketReadWriter NewConn)
         else Inl (UnsupportedUDPCodec udpPacketCodec))
      else Inl (UnsupportedProtocol wireProtocol))"

record 'j v1_codec =
  V1Read :: "bytes \<Rightarrow> (msg_error + 'j message) \<times> bytes"
  V1Write :: "'j message \<Rightarrow> writer \<Rightarrow> (msg_error + unit) \<times> writer"

definition ReadMsg :: "'j v1_codec \<Rightarrow> 'j json \<Rightarrow> read_writer \<Rightarrow> bytes \<Rightarrow> (msg_error + 'j message) \<times> bytes" where
  "ReadMsg V J rw s =
     (case rw of
        V1ReadWriter \<Rightarrow> V1Read V s
      | V2ReadWriter c \<Rightarrow> V2_ReadMsg c J s
      | V2BinaryUDPPacketReadWriter c \<Rightarrow> V2B_ReadMsg c J s)"

definition WriteMsg ::
    "'j v1_codec \<Rightarrow> 'j json \<Rightarrow> read_writer \<Rightarrow> 'j message \<Rightarrow> writer \<Rightarrow> (msg_error + unit) \<times> writer" where
  "WriteMsg V J rw m w =
     (case rw of
        V1ReadWriter \<Rightarrow> V1Write V m w
      | V2ReadWriter c \<Rightarrow> V2_WriteMsg c J m w
      | V2BinaryUDPPacketReadWriter c \<Rightarrow> V2B_WriteMsg c J m w)"

section \<open>The dispatcher's read loop\<close>

lemma V2_ReadMsg_shorter: "V2_ReadMsg c J s = (Inr m, s1) \<Longrightarrow> length s1 < length s"
  by (auto simp: V2_ReadMsg_def read_frame_def frame_bytes_def dest: ReadFrame_accepts
      split: prod.splits sum.splits)

text \<open>
  The messages handed to handlers until the first read error, which closes \<^verbatim>\<open>doneCh\<close>; handlers
  are registered by message type.
\<close>

function readLoop :: "wconn \<Rightarrow> 'j json \<Rightarrow> (msg_kind \<Rightarrow> bool) \<Rightarrow> bytes \<Rightarrow> 'j message list" where
  "readLoop c J registered s =
     (case V2_ReadMsg c J s of
        (Inl e, s1) \<Rightarrow> []
      | (Inr m, s1) \<Rightarrow>
          (case kind_of m of
             None \<Rightarrow> []
           | Some k \<Rightarrow> if registered k then [m] else []) @ readLoop c J registered s1)"
  by pat_completeness auto
termination
  by (relation "measure (\<lambda>(c, J, r, s). length s)") (auto dest: V2_ReadMsg_shorter [OF sym])

declare readLoop.simps [simp del]

section \<open>Type tables\<close>

lemma type_tables_inverse: "v2MsgReflectTypeMap i = Some k \<longleftrightarrow> v2MsgTypeIDMap k = Some i"
  unfolding v2MsgReflectTypeMap_def v2MsgTypeIDMap_def
proof (subst map_of_eq_Some_iff)
  show "distinct (map fst v2MsgTypeMap)" by (simp add: v2MsgTypeMap_def V2TypeUDPPacket_def)
next
  have "distinct (map fst (map (\<lambda>(i, k). (k, i)) v2MsgTypeMap))" by (simp add: v2MsgTypeMap_def)
  then show "(i, k) \<in> set v2MsgTypeMap \<longleftrightarrow> map_of (map (\<lambda>(i, k). (k, i)) v2MsgTypeMap) k = Some i"
    by (subst map_of_eq_Some_iff) auto
qed

lemma type_id_total: "\<exists>i. v2MsgTypeIDMap k = Some i"
  by (cases k) (simp_all add: v2MsgTypeIDMap_def v2MsgTypeMap_def)

lemma type_id_UDPPacket: "v2MsgTypeIDMap k = Some V2TypeUDPPacket \<longleftrightarrow> k = UDPPacket"
  by (cases k) (simp_all add: v2MsgTypeIDMap_def v2MsgTypeMap_def V2TypeUDPPacket_def)

lemma binary_id_unused: "v2MsgReflectTypeMap V2TypeUDPPacketBinary = None"
  by (simp add: v2MsgReflectTypeMap_def v2MsgTypeMap_def V2TypeUDPPacketBinary_def V2TypeUDPPacket_def)

lemma binary_id_not_issued: "v2MsgTypeIDMap k \<noteq> Some V2TypeUDPPacketBinary"
  using binary_id_unused type_tables_inverse [of V2TypeUDPPacketBinary k] by auto

section \<open>Streams of messages\<close>

definition message_frame :: "16 word \<Rightarrow> bytes \<Rightarrow> frame" where
  "message_frame i b = \<lparr>FType = FrameTypeMessage, FFlags = 0, FPayload = put_u16 i @ b\<rparr>"

lemma message_frame_simps [simp]:
  "FType (message_frame i b) = FrameTypeMessage" "FFlags (message_frame i b) = 0"
  "FPayload (message_frame i b) = put_u16 i @ b"
  by (simp_all add: message_frame_def)

lemma EncodeV2MessageFrame_Inr:
  "EncodeV2MessageFrame J m = Inr f \<longleftrightarrow>
   (\<exists>k i b. kind_of m = Some k \<and> v2MsgTypeIDMap k = Some i \<and> Marshal J m = Some b \<and> f = message_frame i b)"
  by (cases m) (auto simp: EncodeV2MessageFrame_def message_frame_def split: option.splits)

lemma DecodeV2MessageFrame_message_frame:
  "v2MsgTypeIDMap k = Some i \<Longrightarrow>
   DecodeV2MessageFrame J (message_frame i b) =
     (case Unmarshal J k b of None \<Rightarrow> Inl MsgJSONErr | Some m \<Rightarrow> Inr m)"
  by (simp add: DecodeV2MessageFrame_def type_tables_inverse [symmetric])

text \<open>
  A message the JSON codec transports: it marshals, its JSON text unmarshals to it, and the frame
  is within the connection's limit.
\<close>

definition json_ok :: "wconn \<Rightarrow> 'j json \<Rightarrow> 'j message \<Rightarrow> bool" where
  "json_ok c J m \<longleftrightarrow>
     (case kind_of m of
        None \<Rightarrow> False
      | Some k \<Rightarrow>
          (case Marshal J m of
             None \<Rightarrow> False
           | Some b \<Rightarrow> Unmarshal J k b = Some m \<and> 2 + length b \<le> unat (maxFramePayloadSize c)))"

text \<open>A message the binary codec transports: packets are encoded, other kinds go as JSON.\<close>

definition binary_ok :: "wconn \<Rightarrow> 'j json \<Rightarrow> 'j message \<Rightarrow> bool" where
  "binary_ok c J m \<longleftrightarrow>
     (case m of
        UDPMsg p \<Rightarrow>
          (case EncodeUDPPacketBinary (Some p) of
             Inl _ \<Rightarrow> False
           | Inr body \<Rightarrow> canon_packet p = p \<and> 2 + length body \<le> unat (maxFramePayloadSize c))
      | _ \<Rightarrow> kind_of m \<noteq> Some UDPPacket \<and> json_ok c J m)"

definition frame_out :: "msg_error + frame \<Rightarrow> bytes" where
  "frame_out r = (case r of Inl _ \<Rightarrow> [] | Inr f \<Rightarrow> frame_bytes f)"

definition json_bytes :: "'j json \<Rightarrow> 'j message \<Rightarrow> bytes" where
  "json_bytes J m = frame_out (EncodeV2MessageFrame J m)"

definition binary_bytes :: "'j json \<Rightarrow> 'j message \<Rightarrow> bytes" where
  "binary_bytes J m =
     (case m of
        UDPMsg p \<Rightarrow> (case EncodeUDPPacketBinary (Some p) of
                       Inl _ \<Rightarrow> [] | Inr body \<Rightarrow> frame_bytes (message_frame V2TypeUDPPacketBinary body))
      | _ \<Rightarrow> json_bytes J m)"

lemma json_okE:
  assumes "json_ok c J m"
  obtains k i b where "kind_of m = Some k" "v2MsgTypeIDMap k = Some i" "Marshal J m = Some b"
    "Unmarshal J k b = Some m" "frame_ok c (message_frame i b)"
    "EncodeV2MessageFrame J m = Inr (message_frame i b)"
proof -
  from assms obtain k b where kb: "kind_of m = Some k" "Marshal J m = Some b" "Unmarshal J k b = Some m"
    "2 + length b \<le> unat (maxFramePayloadSize c)"
    by (auto simp: json_ok_def split: option.splits)
  obtain i where "v2MsgTypeIDMap k = Some i" using type_id_total by blast
  with kb show thesis by (intro that) (auto simp: frame_ok_def EncodeV2MessageFrame_Inr)
qed

lemma read_frame_message_frame:
  "frame_ok c f \<Longrightarrow> read_frame c (frame_bytes f @ rest) k = (k f, rest)"
  by (simp add: read_frame_def ReadFrame_frame_bytes)

lemma V2_ReadMsg_json_bytes: "json_ok c J m \<Longrightarrow> V2_ReadMsg c J (json_bytes J m @ rest) = (Inr m, rest)"
  by (erule json_okE)
     (simp add: V2_ReadMsg_def json_bytes_def frame_out_def read_frame_message_frame
       DecodeV2MessageFrame_message_frame)

interpretation json_msgs: stream_decoder "json_bytes J" "V2_ReadMsg c J" "json_ok c J" for c J
  by unfold_locales (rule V2_ReadMsg_json_bytes)

lemma isV2MessageType_message_frame [simp]: "isV2MessageType (message_frame i b) j \<longleftrightarrow> i = j"
  by (simp add: isV2MessageType_def)

lemma V2B_ReadMsg_packet:
  assumes "EncodeUDPPacketBinary (Some p) = Inr body" "frame_ok c (message_frame V2TypeUDPPacketBinary body)"
  shows "V2B_ReadMsg c J (frame_bytes (message_frame V2TypeUDPPacketBinary body) @ rest) =
         (Inr (UDPMsg (canon_packet p)), rest)"
proof -
  have "DecodeUDPPacketBinary body = Inr (canon_packet p)"
    using Encode_Decode [OF assms(1)] .
  then show ?thesis
    by (simp add: V2B_ReadMsg_def read_frame_message_frame [OF assms(2)] decodeV2BinaryUDPPacketFrame_def)
qed

lemma V2B_ReadMsg_json:
  assumes "json_ok c J m" "kind_of m \<noteq> Some UDPPacket"
  shows "V2B_ReadMsg c J (json_bytes J m @ rest) = (Inr m, rest)"
proof -
  from assms(1) obtain k i b where m: "kind_of m = Some k" "v2MsgTypeIDMap k = Some i" "Marshal J m = Some b"
    "Unmarshal J k b = Some m" "frame_ok c (message_frame i b)"
    "EncodeV2MessageFrame J m = Inr (message_frame i b)" by (rule json_okE)
  have "i \<noteq> V2TypeUDPPacketBinary" "i \<noteq> V2TypeUDPPacket"
    using m(1,2) assms(2) binary_id_not_issued type_id_UDPPacket by auto
  then show ?thesis
    using m by (simp add: V2B_ReadMsg_def json_bytes_def frame_out_def read_frame_message_frame
        DecodeV2MessageFrame_message_frame)
qed

lemma V2B_ReadMsg_binary_bytes:
  assumes "binary_ok c J m" shows "V2B_ReadMsg c J (binary_bytes J m @ rest) = (Inr m, rest)"
proof (cases m)
  case (UDPMsg p)
  with assms obtain body where e: "EncodeUDPPacketBinary (Some p) = Inr body" "canon_packet p = p"
    "2 + length body \<le> unat (maxFramePayloadSize c)"
    by (auto simp: binary_ok_def split: sum.splits)
  then have "frame_ok c (message_frame V2TypeUDPPacketBinary body)" by (simp add: frame_ok_def)
  from V2B_ReadMsg_packet [OF e(1) this] show ?thesis using e UDPMsg by (simp add: binary_bytes_def)
qed (use assms V2B_ReadMsg_json [of c J m rest] in \<open>auto simp: binary_ok_def binary_bytes_def\<close>)

interpretation binary_msgs: stream_decoder "binary_bytes J" "V2B_ReadMsg c J" "binary_ok c J" for c J
  by unfold_locales (rule V2B_ReadMsg_binary_bytes)

text \<open>Writing messages one after the other, stopping at the first error.\<close>

primrec write_msgs ::
    "('j message \<Rightarrow> writer \<Rightarrow> (msg_error + unit) \<times> writer) \<Rightarrow> 'j message list \<Rightarrow> writer \<Rightarrow>
     (msg_error + unit) \<times> writer" where
  "write_msgs wr [] w = (Inr (), w)"
| "write_msgs wr (m # ms) w =
     (case wr m w of (Inl e, w1) \<Rightarrow> (Inl e, w1) | (Inr _, w1) \<Rightarrow> write_msgs wr ms w1)"

lemma write_msgs_unlimited:
  assumes "\<And>m w. ok m \<Longrightarrow> wlimit w = None \<Longrightarrow> wr m w = (Inr (), w\<lparr>wout := wout w @ enc m\<rparr>)"
  shows "list_all ok ms \<Longrightarrow> wlimit w = None \<Longrightarrow>
    write_msgs wr ms w = (Inr (), w\<lparr>wout := wout w @ concat (map enc ms)\<rparr>)"
  by (induction ms arbitrary: w) (simp_all add: assms)

lemma write_frame_Inr:
  "write_frame c r w = (Inr (), w') \<longleftrightarrow> (\<exists>f. r = Inr f \<and> WriteFrame c f w = (Inr (), w'))"
  by (auto simp: write_frame_def split: sum.splits prod.splits)

lemma write_frame_unlimited:
  "frame_ok c f \<Longrightarrow> wlimit w = None \<Longrightarrow> write_frame c (Inr f) w = (Inr (), w\<lparr>wout := wout w @ frame_bytes f\<rparr>)"
  by (simp add: write_frame_def WriteFrame_unlimited)

lemma V2_WriteMsg_unlimited:
  "json_ok c J m \<Longrightarrow> wlimit w = None \<Longrightarrow> V2_WriteMsg c J m w = (Inr (), w\<lparr>wout := wout w @ json_bytes J m\<rparr>)"
  by (erule json_okE) (simp add: V2_WriteMsg_def json_bytes_def frame_out_def write_frame_unlimited)

lemma V2B_WriteMsg_unlimited:
  assumes "binary_ok c J m" "wlimit w = None"
  shows "V2B_WriteMsg c J m w = (Inr (), w\<lparr>wout := wout w @ binary_bytes J m\<rparr>)"
proof (cases m)
  case (UDPMsg p)
  with assms(1) obtain body where e: "EncodeUDPPacketBinary (Some p) = Inr body"
    "2 + length body \<le> unat (maxFramePayloadSize c)"
    by (auto simp: binary_ok_def split: sum.splits)
  then have "frame_ok c (message_frame V2TypeUDPPacketBinary body)" by (simp add: frame_ok_def)
  from write_frame_unlimited [OF this assms(2)] show ?thesis
    using e UDPMsg by (simp add: V2B_WriteMsg_def binary_bytes_def message_frame_def)
qed (use assms V2_WriteMsg_unlimited [of c J m w] in
      \<open>auto simp: binary_ok_def V2B_WriteMsg_def V2_WriteMsg_def binary_bytes_def\<close>)

lemma readLoop_step:
  "V2_ReadMsg c J s = (Inr m, s1) \<Longrightarrow> kind_of m = Some k \<Longrightarrow>
   readLoop c J R s = (if R k then [m] else []) @ readLoop c J R s1"
  by (subst readLoop.simps) simp

lemma readLoop_stop: "V2_ReadMsg c J s = (Inl e, s1) \<Longrightarrow> readLoop c J R s = []"
  by (subst readLoop.simps) simp

lemma readLoop_messages:
  assumes "list_all (json_ok c J) ms" "V2_ReadMsg c J torn = (Inl e, s1)"
  shows "readLoop c J R (concat (map (json_bytes J) ms) @ torn) =
         filter (\<lambda>m. \<exists>k. kind_of m = Some k \<and> R k) ms"
  using assms(1)
proof (induction ms)
  case Nil
  with readLoop_stop [OF assms(2)] show ?case by simp
next
  case (Cons m ms)
  then obtain k where k: "kind_of m = Some k" by (auto elim: json_okE)
  have "V2_ReadMsg c J (json_bytes J m @ concat (map (json_bytes J) ms) @ torn) =
      (Inr m, concat (map (json_bytes J) ms) @ torn)"
    using Cons.prems by (simp add: V2_ReadMsg_json_bytes)
  from readLoop_step [OF this k] show ?case using Cons by (simp add: k)
qed

text \<open>C33. On a connection with the binary UDP codec, any sequence of transportable messages, UDP
  packets in binary form interleaved with JSON messages of the other kinds, is read back as the
  same sequence, and the bytes after it are left for the next read.\<close>

theorem binary_message_stream_roundtrip:
  assumes "list_all (binary_ok c J) ms" "wlimit w = None"
  shows "\<exists>out w'. write_msgs (V2B_WriteMsg c J) ms w = (Inr (), w') \<and> wout w' = wout w @ out \<and>
           read_n (V2B_ReadMsg c J) (length ms) (out @ rest) = (Inr ms, rest)"
  using write_msgs_unlimited [of "binary_ok c J" "V2B_WriteMsg c J" "binary_bytes J", OF V2B_WriteMsg_unlimited assms]
    binary_msgs.read_n_concat [OF assms(1), of rest] by simp

definition demo_json :: "nat json" where
  "demo_json = \<lparr>Marshal = (\<lambda>m. case m of JSONMsg Ping n \<Rightarrow> Some [word_of_nat n] | _ \<Rightarrow> None),
                Unmarshal = (\<lambda>k b. if k = Ping \<and> length b = 1 then Some (JSONMsg Ping (unat (hd b))) else None)\<rparr>"

definition demo_msgs :: "nat message list" where
  "demo_msgs = [JSONMsg Ping 5, UDPMsg (canon_packet sample_packet), JSONMsg Ping 6]"

lemma demo_msgs_ok: "list_all (binary_ok NewConn demo_json) demo_msgs"
proof -
  have "EncodeUDPPacketBinary (Some (canon_packet sample_packet)) = Inr sample_body"
    by (simp add: codec_eval of_char_def)
  moreover have "canon_packet (canon_packet sample_packet) = canon_packet sample_packet"
    by (simp add: canon_packet_def canon_addr_def sample_packet_def To4_def v4InV6Prefix_def)
  moreover have "length sample_body = 38" by (simp add: sample_body_def)
  ultimately show ?thesis
    by (simp add: demo_msgs_def binary_ok_def json_ok_def demo_json_def NewConn_def DefaultMaxFramePayloadSize_def)
qed

theorem binary_message_stream_roundtrip_witness:
  "\<exists>out w'. write_msgs (V2B_WriteMsg NewConn demo_json) demo_msgs \<lparr>wout = [], wlimit = None\<rparr> = (Inr (), w') \<and>
      wout w' = wout \<lparr>wout = [], wlimit = None\<rparr> @ out \<and>
      read_n (V2B_ReadMsg NewConn demo_json) (length demo_msgs) (out @ [1]) = (Inr demo_msgs, [1])"
  by (rule binary_message_stream_roundtrip [OF demo_msgs_ok]) simp

lemma udp_ids_differ: "V2TypeUDPPacket \<noteq> V2TypeUDPPacketBinary"
  by (simp add: V2TypeUDPPacket_def V2TypeUDPPacketBinary_def)

text \<open>The two UDP packet codecs cannot be confused: a packet written as JSON is refused by a
  binary reader, and a packet written in binary is refused by a JSON reader, each with the error
  that names the mismatch and with the rest of the stream intact.\<close>

theorem udp_codecs_not_confused:
  "(V2_WriteMsg c J (UDPMsg p) w = (Inr (), w') \<longrightarrow>
      (\<exists>out. wout w' = wout w @ out \<and> V2B_ReadMsg c J' (out @ rest) = (Inl JSONAfterBinary, rest))) \<and>
   (V2B_WriteMsg c J (UDPMsg p) w = (Inr (), w') \<longrightarrow>
      (\<exists>out. wout w' = wout w @ out \<and>
             V2_ReadMsg c J' (out @ rest) = (Inl (UnknownTypeID V2TypeUDPPacketBinary), rest)))"
proof (intro conjI impI)
  assume "V2_WriteMsg c J (UDPMsg p) w = (Inr (), w')"
  then obtain b where "WriteFrame c (message_frame V2TypeUDPPacket b) w = (Inr (), w')"
    using type_id_UDPPacket [of UDPPacket]
    by (auto simp: V2_WriteMsg_def write_frame_Inr EncodeV2MessageFrame_Inr)
  from WriteFrame_out [OF this] have out: "wout w' = wout w @ frame_bytes (message_frame V2TypeUDPPacket b)"
    and ok: "frame_ok c (message_frame V2TypeUDPPacket b)" by auto
  have "V2B_ReadMsg c J' (frame_bytes (message_frame V2TypeUDPPacket b) @ rest) = (Inl JSONAfterBinary, rest)"
    by (simp add: V2B_ReadMsg_def read_frame_message_frame [OF ok] udp_ids_differ)
  with out show "\<exists>out. wout w' = wout w @ out \<and> V2B_ReadMsg c J' (out @ rest) = (Inl JSONAfterBinary, rest)"
    by blast
next
  assume "V2B_WriteMsg c J (UDPMsg p) w = (Inr (), w')"
  then obtain b where "WriteFrame c (message_frame V2TypeUDPPacketBinary b) w = (Inr (), w')"
    by (auto simp: V2B_WriteMsg_def write_frame_Inr bindR_eq_Inr message_frame_def)
  from WriteFrame_out [OF this] have out: "wout w' = wout w @ frame_bytes (message_frame V2TypeUDPPacketBinary b)"
    and ok: "frame_ok c (message_frame V2TypeUDPPacketBinary b)" by auto
  have "V2_ReadMsg c J' (frame_bytes (message_frame V2TypeUDPPacketBinary b) @ rest) =
      (Inl (UnknownTypeID V2TypeUDPPacketBinary), rest)"
    by (simp add: V2_ReadMsg_def read_frame_message_frame [OF ok] DecodeV2MessageFrame_def binary_id_unused)
  with out show "\<exists>out. wout w' = wout w @ out \<and>
      V2_ReadMsg c J' (out @ rest) = (Inl (UnknownTypeID V2TypeUDPPacketBinary), rest)" by blast
qed

definition demo_text :: "nat json" where
  "demo_text = \<lparr>Marshal = (\<lambda>m. Some [123, 125]), Unmarshal = (\<lambda>k b. None)\<rparr>"

theorem udp_codecs_not_confused_witness:
  "(\<exists>out. [0, 16, 0, 0, 0, 0, 0, 4, 0, 13, 123, 125] = [] @ out \<and>
      V2B_ReadMsg NewConn demo_text (out @ [1]) = (Inl JSONAfterBinary, [1])) \<and>
   (\<exists>out. frame_bytes (message_frame V2TypeUDPPacketBinary sample_body) = [] @ out \<and>
      V2_ReadMsg NewConn demo_text (out @ [1]) = (Inl (UnknownTypeID V2TypeUDPPacketBinary), [1]))"
proof -
  have a: "V2_WriteMsg NewConn demo_text (UDPMsg sample_packet) \<lparr>wout = [], wlimit = None\<rparr> =
      (Inr (), \<lparr>wout = [0, 16, 0, 0, 0, 0, 0, 4, 0, 13, 123, 125], wlimit = None\<rparr>)"
    by (simp add: V2_WriteMsg_def write_frame_def EncodeV2MessageFrame_def v2MsgTypeIDMap_def v2MsgTypeMap_def
        demo_text_def WriteFrame_def NewConn_def DefaultMaxFramePayloadSize_def frame_header_def put_u16_def
        put_u32_def FrameTypeMessage_def V2TypeUDPPacket_def)
  have "frame_ok NewConn (message_frame V2TypeUDPPacketBinary sample_body)"
    by (simp add: frame_ok_def sample_body_def NewConn_def DefaultMaxFramePayloadSize_def)
  then have b: "V2B_WriteMsg NewConn demo_text (UDPMsg sample_packet) \<lparr>wout = [], wlimit = None\<rparr> =
      (Inr (), \<lparr>wout = frame_bytes (message_frame V2TypeUDPPacketBinary sample_body), wlimit = None\<rparr>)"
    by (simp add: V2B_WriteMsg_def encode_sample write_frame_unlimited message_frame_def [symmetric])
  from a b show ?thesis
    using udp_codecs_not_confused [THEN conjunct1, rule_format, OF a, of demo_text "[1]"]
      udp_codecs_not_confused [THEN conjunct2, rule_format, OF b, of demo_text "[1]"] by simp
qed

text \<open>The dispatcher delivers every message exactly once and in order: on a stream of
  transportable messages that ends in something unreadable (a closed or broken connection), the
  read loop ends and has called handlers for exactly the messages of registered kinds.\<close>

theorem dispatcher_delivers_in_order:
  assumes "list_all (json_ok c J) ms" and "fst (V2_ReadMsg c J torn) = Inl e"
  shows "readLoop c J registered (concat (map (json_bytes J) ms) @ torn) =
         filter (\<lambda>m. \<exists>k. kind_of m = Some k \<and> registered k) ms"
proof -
  obtain s1 where "V2_ReadMsg c J torn = (Inl e, s1)"
    using assms(2) by (cases "V2_ReadMsg c J torn") simp
  then show ?thesis by (rule readLoop_messages [OF assms(1)])
qed

theorem dispatcher_delivers_in_order_witness:
  "readLoop NewConn demo_json (\<lambda>k. k = Ping)
     (concat (map (json_bytes demo_json) [JSONMsg Ping 5, JSONMsg Ping 6]) @ [0, 16]) =
   filter (\<lambda>m. \<exists>k. kind_of m = Some k \<and> k = Ping) [JSONMsg Ping 5, JSONMsg Ping 6]"
proof (rule dispatcher_delivers_in_order)
  show "list_all (json_ok NewConn demo_json) [JSONMsg Ping 5, JSONMsg Ping 6]"
    by (simp add: json_ok_def demo_json_def NewConn_def DefaultMaxFramePayloadSize_def)
  show "fst (V2_ReadMsg NewConn demo_json [0, 16]) = Inl (WireErr (IOErr ErrUnexpectedEOF))"
    by (simp add: V2_ReadMsg_def read_frame_def ReadFrame_def ReadFull_def)
qed

section \<open>Accepting a connection\<close>

record 'j accepted =
  acProtocol :: string
  acHelloPresent :: bool
  acUDPCodec :: string
  acCrypto :: "crypto_context option"
  acFirstMsg :: "'j message"

text \<open>What the server takes from its environment.\<close>

record 'j server_env =
  envSHA256 :: "bytes \<Rightarrow> bytes"
  envRand :: "nat \<Rightarrow> string + bytes"
  envUnmarshalCH :: "bytes \<Rightarrow> client_hello option"
  envMarshalSH :: "server_hello \<Rightarrow> bytes option"
  envJSON :: "'j json"
  envV1 :: "'j v1_codec"

definition readFirstV2Msg ::
    "'j server_env \<Rightarrow> wconn \<Rightarrow> 'j accepted \<Rightarrow> bytes \<Rightarrow> writer \<Rightarrow>
     (msg_error + 'j accepted) \<times> bytes \<times> writer" where
  "readFirstV2Msg E c ac s w =
     (case ReadFrame c s of
        (Inl e, s1) \<Rightarrow> (Inl (WireErr e), s1, w)
      | (Inr f, s1) \<Rightarrow>
          if FType f = FrameTypeClientHello then
            (case handleClientHello c (envSHA256 E) (envRand E) (envUnmarshalCH E) (envMarshalSH E) f w of
               (Inl e, w1) \<Rightarrow> (Inl (HelloFailed e), s1, w1)
             | (Inr (ctx, codec), w1) \<Rightarrow>
                 (case ReadFrame c s1 of
                    (Inl e, s2) \<Rightarrow> (Inl (WireErr e), s2, w1)
                  | (Inr f2, s2) \<Rightarrow>
                      (bindR (DecodeV2MessageFrame (envJSON E) f2) (\<lambda>m.
                         Inr (ac\<lparr>acHelloPresent := True, acCrypto := Some ctx, acUDPCodec := codec,
                                 acFirstMsg := m\<rparr>)), s2, w1)))
          else (bindR (DecodeV2MessageFrame (envJSON E) f) (\<lambda>m. Inr (ac\<lparr>acFirstMsg := m\<rparr>)), s1, w))"

definition acceptConnection ::
    "'j server_env \<Rightarrow> bytes \<Rightarrow> writer \<Rightarrow> (msg_error + 'j accepted) \<times> bytes \<times> writer" where
  "acceptConnection E s w =
     (case CheckMagic s of
        Inl e \<Rightarrow> (Inl (ReadMagic e), [], w)
      | Inr (s1, isV2) \<Rightarrow>
          let ac = \<lparr>acProtocol = (if isV2 then ProtocolV2 else ProtocolV1), acHelloPresent = False,
                    acUDPCodec = '''', acCrypto = None, acFirstMsg = NilMessage\<rparr> in
          if isV2 then readFirstV2Msg E NewConn ac s1 w
          else (case V1Read (envV1 E) s1 of
                  (Inl e, s2) \<Rightarrow> (Inl e, s2, w)
                | (Inr m, s2) \<Rightarrow> (Inr (ac\<lparr>acFirstMsg := m\<rparr>), s2, w)))"

text \<open>C10. A version 2 client and the server come up together: the server accepts the connection
  that a client opens with its magic, hello and first message, takes exactly those bytes, records
  version 2 and the binary packet codec, and the client then reads from the server's reply the
  same crypto context and codec that the server recorded.\<close>

theorem v2_connection_established:
  assumes sent: "sendClientHello NewConn rand maCH fast b \<lparr>wout = [], wlimit = None\<rparr> = (Inr payload, w1)"
    and first: "V2_WriteMsg NewConn (envJSON E) m w1 = (Inr (), w2)" "json_ok NewConn (envJSON E) m"
    and rand: "\<And>n b. rand n = Inr b \<Longrightarrow> length b = n"
    and srand: "\<And>n. \<exists>b. envRand E n = Inr b \<and> length b = n"
    and json: "\<And>ch p. maCH ch = Some p \<Longrightarrow> envUnmarshalCH E p = Some ch"
      "\<And>sh p. envMarshalSH E sh = Some p \<Longrightarrow> unSH p = Some sh"
    and fits: "\<And>ch sh. NewServerHello (envRand E) ch = Inr sh \<Longrightarrow>
                 \<exists>p. envMarshalSH E sh = Some p \<and> length p \<le> DefaultMaxFramePayloadSize"
  shows "\<exists>ac ctx w3. acceptConnection E (wout w2 @ rest) \<lparr>wout = [], wlimit = None\<rparr> = (Inr ac, rest, w3) \<and>
     acProtocol ac = ProtocolV2 \<and> acFirstMsg ac = m \<and> acCrypto ac = Some ctx \<and>
     acUDPCodec ac = UDPPacketCodecBinary \<and>
     readServerHello NewConn (envSHA256 E) (envUnmarshalCH E) unSH payload (wout w3 @ rest') =
       (Inr (ctx, UDPPacketCodecBinary), rest')"
proof -
  let ?c = NewConn and ?w = "\<lparr>wout = [], wlimit = None\<rparr>"
  have max: "unat (maxFramePayloadSize ?c) = DefaultMaxFramePayloadSize"
    by (simp add: NewConn_def DefaultMaxFramePayloadSize_def)
  have out: "wout w2 = wout w1 @ json_bytes (envJSON E) m"
    using first by (auto simp: V2_WriteMsg_def write_frame_Inr json_bytes_def frame_out_def dest: WriteFrame_out)
  have srand': "\<exists>b. envRand E n = Inr b" for n using srand by blast
  have reply: "\<And>ch sh. NewServerHello (envRand E) ch = Inr sh \<Longrightarrow>
      \<exists>p. envMarshalSH E sh = Some p \<and> length p \<le> unat (maxFramePayloadSize ?c)"
    using fits max by metis
  have "\<exists>f s ctx w3. CheckMagic (wout w1 @ json_bytes (envJSON E) m @ rest) = Inr (s, True) \<and>
      ReadFrame ?c s = (Inr f, json_bytes (envJSON E) m @ rest) \<and>
      FType f = FrameTypeClientHello \<and> FPayload f = payload \<and>
      handleClientHello ?c (envSHA256 E) (envRand E) (envUnmarshalCH E) (envMarshalSH E) f ?w =
        (Inr (ctx, UDPPacketCodecBinary), w3) \<and> CtxAlgorithm ctx = hd (PreferredAEADAlgorithms fast)"
    using sent rand srand' json(1) reply by (rule default_client_accepted)
  then obtain f s ctx w3 where
    cm: "CheckMagic (wout w1 @ json_bytes (envJSON E) m @ rest) = Inr (s, True)" and
    rf: "ReadFrame ?c s = (Inr f, json_bytes (envJSON E) m @ rest)" and
    ft: "FType f = FrameTypeClientHello" "FPayload f = payload" and
    hc: "handleClientHello ?c (envSHA256 E) (envRand E) (envUnmarshalCH E) (envMarshalSH E) f ?w =
      (Inr (ctx, UDPPacketCodecBinary), w3)" by blast
  have l: "\<And>n b. envRand E n = Inr b \<Longrightarrow> length b = n" using srand by (metis sum.inject(2))
  have rd: "readServerHello ?c (envSHA256 E) (envUnmarshalCH E) unSH payload (wout w3 @ rest') =
      (Inr (ctx, UDPPacketCodecBinary), rest')"
  proof -
    have "\<exists>reply. wout w3 = wout ?w @ reply \<and> (\<forall>more. readServerHello ?c (envSHA256 E) (envUnmarshalCH E) unSH
        (FPayload f) (reply @ more) = (Inr (ctx, UDPPacketCodecBinary), more))"
      using hc l json(2) by (rule hello_agree)
    then show ?thesis by (auto simp: ft(2))
  qed
  from first(2) obtain k i bb where m: "kind_of m = Some k" "v2MsgTypeIDMap k = Some i"
    "Unmarshal (envJSON E) k bb = Some m" "frame_ok ?c (message_frame i bb)"
    "EncodeV2MessageFrame (envJSON E) m = Inr (message_frame i bb)" by (rule json_okE)
  have "ReadFrame ?c (json_bytes (envJSON E) m @ rest) = (Inr (message_frame i bb), rest)"
    using ReadFrame_frame_bytes [OF m(4)] by (simp add: json_bytes_def frame_out_def m(5))
  moreover have "DecodeV2MessageFrame (envJSON E) (message_frame i bb) = Inr m"
    by (simp add: DecodeV2MessageFrame_message_frame [OF m(2)] m(3))
  ultimately show ?thesis using rd
    by (simp add: acceptConnection_def readFirstV2Msg_def cm out rf ft hc Let_def)
qed

definition demo_marshal_server_hello :: "server_hello \<Rightarrow> bytes option" where
  "demo_marshal_server_hello sh =
     (let cs = SCrypto (Selected sh); u = UDPPacketCodec (SMessage (Selected sh)) in
      if Codec (SMessage (Selected sh)) = MessageCodecJSON \<and> SError sh = '''' \<and> u \<in> {'''', UDPPacketCodecBinary} \<and>
         IsSupportedAEADAlgorithm (Algorithm cs) \<and> ServerRandom cs = replicate 32 9
      then Some [if u = '''' then 0 else 1, if Algorithm cs = AEADAlgorithmAES256GCM then 0 else 1] else None)"

definition demo_unmarshal_server_hello :: "bytes \<Rightarrow> server_hello option" where
  "demo_unmarshal_server_hello p =
     Some \<lparr>Selected = \<lparr>SMessage = \<lparr>Codec = MessageCodecJSON,
              UDPPacketCodec = (if hd p = 0 then '''' else UDPPacketCodecBinary)\<rparr>,
            SCrypto = \<lparr>Algorithm = (if p ! 1 = 0 then AEADAlgorithmAES256GCM else AEADAlgorithmXChaCha20Poly1305),
              ServerRandom = replicate 32 9\<rparr>\<rparr>, SError = ''''\<rparr>"

definition demo_env :: "nat server_env" where
  "demo_env = \<lparr>envSHA256 = (\<lambda>b. take 32 b), envRand = demo_rand, envUnmarshalCH = demo_unCH,
     envMarshalSH = demo_marshal_server_hello, envJSON = demo_json,
     envV1 = \<lparr>V1Read = (\<lambda>s. (Inl V1Err, s)), V1Write = (\<lambda>m w. (Inl V1Err, w))\<rparr>\<rparr>"

lemma demo_server_hello_roundtrip:
  "demo_marshal_server_hello sh = Some p \<Longrightarrow> demo_unmarshal_server_hello p = Some sh"
  by (auto simp: demo_marshal_server_hello_def demo_unmarshal_server_hello_def Let_def
       IsSupportedAEADAlgorithm_def supportedAEADAlgorithms_def Supports_def split: if_splits)

lemma demo_server_hello_fits:
  assumes "NewServerHello demo_rand ch = Inr sh"
  shows "\<exists>p. demo_marshal_server_hello sh = Some p \<and> length p \<le> DefaultMaxFramePayloadSize"
  using assms
  by (auto simp: NewServerHello_Inr demo_rand_def CryptoRandomSize_def demo_marshal_server_hello_def Let_def
      selectUDPPacketCodec_def DefaultMaxFramePayloadSize_def dest: SelectAEADAlgorithm_SomeD)

definition demo_maCH :: "client_hello \<Rightarrow> bytes option" where
  "demo_maCH ch = (if ch = demo_hello then Some [1] else None)"

theorem v2_connection_established_witness:
  "\<exists>ac ctx w3. acceptConnection demo_env
      ((MagicV2 @ [0, 1, 0, 0, 0, 0, 0, 1, 1, 0, 16, 0, 0, 0, 0, 0, 3, 0, 11, 5]) @ [8]) \<lparr>wout = [], wlimit = None\<rparr> =
        (Inr ac, [8], w3) \<and>
     acProtocol ac = ProtocolV2 \<and> acFirstMsg ac = JSONMsg Ping 5 \<and> acCrypto ac = Some ctx \<and>
     acUDPCodec ac = UDPPacketCodecBinary \<and>
     readServerHello NewConn (envSHA256 demo_env) (envUnmarshalCH demo_env) demo_unmarshal_server_hello [1]
       (wout w3 @ [6]) = (Inr (ctx, UDPPacketCodecBinary), [6])"
proof -
  let ?r = "\<lambda>n. Inr (replicate n 7) :: string + bytes"
  let ?w = "\<lparr>wout = MagicV2 @ [0, 1, 0, 0, 0, 0, 0, 1, 1], wlimit = None\<rparr>"
  have s: "sendClientHello NewConn ?r demo_maCH True \<lparr>BTransport = ''tcp'', BTLS = True, BTCPMux = True\<rparr>
      \<lparr>wout = [], wlimit = None\<rparr> = (Inr [1], ?w)"
    by (simp add: sendClientHello_def WriteMagic_def NewClientHello_def newCryptoRandom_def CryptoRandomSize_def
        NewJSONFrame_def demo_maCH_def demo_hello_def WriteFrame_def NewConn_def
        DefaultMaxFramePayloadSize_def frame_header_def put_u16_def put_u32_def FrameTypeClientHello_def)
  let ?w2 = "\<lparr>wout = MagicV2 @ [0, 1, 0, 0, 0, 0, 0, 1, 1, 0, 16, 0, 0, 0, 0, 0, 3, 0, 11, 5], wlimit = None\<rparr>"
  have f: "V2_WriteMsg NewConn (envJSON demo_env) (JSONMsg Ping 5) ?w = (Inr (), ?w2)"
    by (simp add: V2_WriteMsg_def write_frame_def EncodeV2MessageFrame_def v2MsgTypeIDMap_def v2MsgTypeMap_def
        demo_env_def demo_json_def WriteFrame_def NewConn_def DefaultMaxFramePayloadSize_def frame_header_def
        put_u16_def put_u32_def FrameTypeMessage_def V2TypeUDPPacket_def)
  have k: "json_ok NewConn (envJSON demo_env) (JSONMsg Ping 5)"
    by (simp add: json_ok_def demo_env_def demo_json_def NewConn_def DefaultMaxFramePayloadSize_def)
  have l: "?r n = Inr b \<Longrightarrow> length b = n" for n b by auto
  have r: "\<exists>b. envRand demo_env n = Inr b \<and> length b = n" for n by (simp add: demo_env_def demo_rand_def)
  have j: "demo_maCH ch = Some p \<Longrightarrow> envUnmarshalCH demo_env p = Some ch" for ch p
    by (simp add: demo_maCH_def demo_unCH_def demo_env_def split: if_splits)
  have j2: "envMarshalSH demo_env sh = Some p \<Longrightarrow> demo_unmarshal_server_hello p = Some sh" for sh p
    by (simp add: demo_env_def demo_server_hello_roundtrip)
  have t: "\<exists>p. envMarshalSH demo_env sh = Some p \<and> length p \<le> DefaultMaxFramePayloadSize"
    if "NewServerHello (envRand demo_env) ch = Inr sh" for ch sh
    using that demo_server_hello_fits by (simp add: demo_env_def)
  have "\<exists>ac ctx w3. acceptConnection demo_env (wout ?w2 @ [8]) \<lparr>wout = [], wlimit = None\<rparr> = (Inr ac, [8], w3) \<and>
     acProtocol ac = ProtocolV2 \<and> acFirstMsg ac = JSONMsg Ping 5 \<and> acCrypto ac = Some ctx \<and>
     acUDPCodec ac = UDPPacketCodecBinary \<and>
     readServerHello NewConn (envSHA256 demo_env) (envUnmarshalCH demo_env) demo_unmarshal_server_hello [1]
       (wout w3 @ [6]) = (Inr (ctx, UDPPacketCodecBinary), [6])"
    using s f k l r j j2 t by (rule v2_connection_established)
  then show ?thesis by simp
qed

end
