(* ===== verification/Xudp_Visitor.thy ===== *)
theory Xudp_Visitor
  imports Xudp_State Msg_V2
begin

text \<open>
  The visitor side of XUDP: \<^verbatim>\<open>client/visitor/xudp.go\<close>.  Datagrams of local users go into \<^verbatim>\<open>sendCh\<close>; the dispatcher
  opens a session for the first one and carries them over a peer-to-peer QUIC connection or over a relay
  through the server, changing from one to the other while the session lives.

  Many goroutines take part: the dispatcher, the forwarder that owns the users' socket, for every transport its
  main function, a sender, a reader and a watcher, and whoever calls \<^verbatim>\<open>Close\<close>.  Each has a program counter, and a
  step is the code between two accesses to something shared: a channel operation, a critical section, a look at the
  state machine or a call of a transport.  Dialling a peer is one step, because only the dispatcher changes the
  machine.  Transports live in a store, in the order in which their connections were made.  What the network does,
  and which ready branch a \<^verbatim>\<open>select\<close> takes, is chosen by the events.

  Three fields are not the program's: \<open>offered\<close> are the datagrams that entered \<^verbatim>\<open>sendCh\<close>, \<open>sent\<close> what became of
  those that left it, and \<open>delivered\<close> what entered \<^verbatim>\<open>readCh\<close>, with the transports involved.
\<close>

section \<open>Delays\<close>

definition recoveryBackoff :: "int list" where
  "recoveryBackoff = map (\<lambda>n. n * 1000000000) [1, 2, 5, 10, 30]"

definition boundRecoveryDelay :: "int \<Rightarrow> int \<Rightarrow> int" where
  "boundRecoveryDelay base delay =
     (let jitter = base div 5; minDelay = base - jitter; maxDelay = base + jitter in
      if delay < minDelay then minDelay else if delay > maxDelay then maxDelay else delay)"

text \<open>\<open>jitterFn\<close> is the hook \<^verbatim>\<open>recoveryJitter\<close>, \<open>int63n\<close> the random source.\<close>

definition nextRecoveryDelay :: "bool \<Rightarrow> (int \<Rightarrow> int) option \<Rightarrow> (int \<Rightarrow> int) \<Rightarrow> nat \<Rightarrow> int" where
  "nextRecoveryDelay jitterDisabled jitterFn int63n attempt =
     (let attempt1 = (if attempt \<ge> length recoveryBackoff then length recoveryBackoff - 1 else attempt);
          base = recoveryBackoff ! attempt1 in
      if jitterDisabled then base
      else case jitterFn of
             Some f \<Rightarrow> boundRecoveryDelay base (f base)
           | None \<Rightarrow> let jitter = base div 5 in base - jitter + int63n (2 * jitter + 1))"

section \<open>Transports\<close>

datatype send_result = SendOk | SendTooLarge | SendErr

definition ConservativeXUDPDatagramPayloadLimit :: nat where
  "ConservativeXUDPDatagramPayloadLimit = 1150"

definition ValidateDatagramSizeAgainstLimit :: "nat \<Rightarrow> nat \<Rightarrow> send_result" where
  "ValidateDatagramSizeAgainstLimit sz limit = (if sz > limit then SendTooLarge else SendOk)"

text \<open>\<^verbatim>\<open>quicDatagramTransport.SendDatagram\<close>: whether the transport was closed before and after the call of the QUIC
  library, and what that call said.\<close>

definition SendDatagram :: "bool \<Rightarrow> send_result \<Rightarrow> bool \<Rightarrow> bytes \<Rightarrow> send_result" where
  "SendDatagram closedBefore quic closedAfter p =
     (if closedBefore then SendErr
      else if ValidateDatagramSizeAgainstLimit (length p) ConservativeXUDPDatagramPayloadLimit \<noteq> SendOk then SendTooLarge
      else if quic \<noteq> SendOk \<and> closedAfter then SendErr
      else quic)"

definition p2pSendPacket :: "(bytes \<Rightarrow> send_result) \<Rightarrow> udp_packet \<Rightarrow> send_result" where
  "p2pSendPacket sendDatagram pkt =
     (case EncodeUDPPacketBinary (Some pkt) of
        Inl _ \<Rightarrow> SendErr
      | Inr body \<Rightarrow>
          if length body > ConservativeXUDPDatagramPayloadLimit then SendTooLarge else sendDatagram body)"

definition p2pReceivePacket :: "bytes option \<Rightarrow> udp_packet option" where
  "p2pReceivePacket datagram =
     (case datagram of
        None \<Rightarrow> None
      | Some data \<Rightarrow> (case DecodeUDPPacketBinary data of Inl _ \<Rightarrow> None | Inr p \<Rightarrow> Some p))"

text \<open>The codecs of the relay connection.\<close>

record 'j vcfg =
  vjson :: "'j json"
  vv1 :: "'j v1_codec"
  vwire :: string
  vcodec :: string

definition relaySendPacket :: "'j vcfg \<Rightarrow> read_writer \<Rightarrow> writer \<Rightarrow> udp_packet \<Rightarrow> send_result" where
  "relaySendPacket cfg rw conn pkt =
     (case WriteMsg (vv1 cfg) (vjson cfg) rw (UDPMsg pkt) conn of (Inl _, _) \<Rightarrow> SendErr | (Inr _, _) \<Rightarrow> SendOk)"

text \<open>The relay's \<^verbatim>\<open>ReceivePacket\<close> on the results of \<^verbatim>\<open>ReadMsg\<close> one after the other: packets are returned, pings and
  other messages are skipped.  \<^const>\<open>None\<close> says that it is still waiting.\<close>

fun relayReceivePacket :: "(msg_error + 'j message) list \<Rightarrow> udp_packet option option" where
  "relayReceivePacket [] = None"
| "relayReceivePacket (Inl e # rs) = Some None"
| "relayReceivePacket (Inr (UDPMsg p) # rs) = Some (Some p)"
| "relayReceivePacket (Inr m # rs) = relayReceivePacket rs"

datatype tkind = P2P | Relay read_writer

text \<open>What a transport meets when it sends or receives.\<close>

record send_env =
  seClosedBefore :: bool
  seQUIC :: send_result
  seClosedAfter :: bool
  seConn :: writer

record 'j recv_env =
  reDatagram :: "bytes option"
  reMsgs :: "(msg_error + 'j message) list"

definition SendPacket :: "'j vcfg \<Rightarrow> tkind \<Rightarrow> send_env \<Rightarrow> udp_packet \<Rightarrow> send_result" where
  "SendPacket cfg k e pkt =
     (case k of
        P2P \<Rightarrow> p2pSendPacket (SendDatagram (seClosedBefore e) (seQUIC e) (seClosedAfter e)) pkt
      | Relay rw \<Rightarrow> relaySendPacket cfg rw (seConn e) pkt)"

definition ReceivePacket :: "tkind \<Rightarrow> 'j recv_env \<Rightarrow> udp_packet option option" where
  "ReceivePacket k e =
     (case k of P2P \<Rightarrow> Some (p2pReceivePacket (reDatagram e)) | Relay rw \<Rightarrow> relayReceivePacket (reMsgs e))"

section \<open>State\<close>

text \<open>\<^verbatim>\<open>runActiveTransport\<close>: before it is called, registering the closer, the three steps of the first packet, the final
  \<^verbatim>\<open>select\<close>, waiting for the workers, returned.\<close>

datatype main_pc = MCandidate | MRegister | MFirstCheck | MFirstSend | MFirstAfter | MSelect | MJoin | MDone

datatype sender_pc =
    SNone | SSelect | STaken udp_packet | SCheck udp_packet | SSend udp_packet | SAfter | SExit

datatype reader_pc = RNone | RCheck | RRecv | RGot udp_packet | RPut udp_packet | RExit

record active =
  akind :: tkind
  agen :: "64 word"
  aepoch :: "64 word"
  apending :: "udp_packet option"
  ahandoff :: "udp_packet option"
  amain :: main_pc
  asender :: sender_pc
  areader :: reader_pc
  acancel :: bool
  astopped :: bool
  aclosed :: bool

text \<open>The dispatcher: outside a session, at the points of \<^verbatim>\<open>runSession\<close>, and in \<^verbatim>\<open>runRelayWithP2PRecovery\<close>.  Numbers are
  transports and the number of probes.\<close>

datatype disp_pc =
    DNone | DSelect | DTop | DDialing | DActivate nat | DP2P nat | DAfterP2P | DRelayDial
  | DRelay nat nat | DProbe nat nat | DStopRelay nat | DSwap nat nat | DRecovered nat | DPause | DExit

datatype close_pc = CNone | CClosers "nat list" | CWait | CDone

datatype outcome = Sent nat udp_packet | Oversized nat udp_packet

record visitor =
  vclosed :: bool
  vrunOnce :: bool
  mach :: machine
  sendQ :: "udp_packet list"
  readQ :: "udp_packet list"
  fwd :: bool
  dpc :: disp_pc
  sgen :: "64 word"
  spend :: "udp_packet option"
  sbackoff :: int
  acts :: "active list"
  closers :: "nat list"
  cpc :: close_pc
  offered :: "udp_packet list"
  sent :: "outcome list"
  delivered :: "(nat \<times> udp_packet) list"

definition vstart :: visitor where
  "vstart = \<lparr>vclosed = False, vrunOnce = False, mach = NewMachine, sendQ = [], readQ = [], fwd = False, dpc = DNone,
     sgen = 0, spend = None, sbackoff = 0, acts = [], closers = [], cpc = CNone, offered = [], sent = [], delivered = []\<rparr>"

definition act :: "nat \<Rightarrow> visitor \<Rightarrow> active" where
  "act i s = acts s ! i"

definition upd :: "nat \<Rightarrow> (active \<Rightarrow> active) \<Rightarrow> visitor \<Rightarrow> visitor" where
  "upd i f s = s\<lparr>acts := (acts s)[i := f (acts s ! i)]\<rparr>"

definition chanCap :: nat where "chanCap = 1024"

section \<open>A transport's goroutines\<close>

definition newTransport :: "tkind \<Rightarrow> active" where
  "newTransport k = \<lparr>akind = k, agen = 0, aepoch = 0, apending = None, ahandoff = None, amain = MCandidate,
     asender = SNone, areader = RNone, acancel = False, astopped = False, aclosed = False\<rparr>"

definition callRunActive :: "64 word \<Rightarrow> 64 word \<Rightarrow> udp_packet option \<Rightarrow> active \<Rightarrow> active" where
  "callRunActive g e first a = a\<lparr>agen := g, aepoch := e, apending := first, amain := MRegister\<rparr>"

definition closeTransport :: "active \<Rightarrow> active" where
  "closeTransport a = a\<lparr>astopped := True, aclosed := True\<rparr>"

text \<open>\<^verbatim>\<open>transportCtx\<close> is derived from the visitor's context, which \<^verbatim>\<open>Close\<close> cancels.\<close>

definition ctxDone :: "nat \<Rightarrow> visitor \<Rightarrow> bool" where
  "ctxDone i s \<longleftrightarrow> astopped (act i s) \<or> vclosed s"

definition current :: "nat \<Rightarrow> visitor \<Rightarrow> bool" where
  "current i s \<longleftrightarrow> IsCurrent (agen (act i s)) (aepoch (act i s)) (mach s)"

definition registerActiveCloser :: "nat \<Rightarrow> visitor \<Rightarrow> bool \<times> visitor" where
  "registerActiveCloser i s =
     (if vclosed s then (False, upd i closeTransport s) else (True, s\<lparr>closers := closers s @ [i]\<rparr>))"

definition startWorkers :: "nat \<Rightarrow> visitor \<Rightarrow> visitor" where
  "startWorkers i s = upd i (\<lambda>a. a\<lparr>amain := MSelect, asender := SSelect, areader := RCheck\<rparr>) s"

text \<open>Returning runs the deferred \<^verbatim>\<open>unregister\<close>; the transport has been closed before.\<close>

definition returnActive :: "nat \<Rightarrow> visitor \<Rightarrow> visitor" where
  "returnActive i s = (upd i (\<lambda>a. a\<lparr>amain := MDone\<rparr>) s)\<lparr>closers := removeAll i (closers s)\<rparr>"

definition runActiveBegin :: "nat \<Rightarrow> visitor \<Rightarrow> visitor" where
  "runActiveBegin i s =
     (case registerActiveCloser i s of
        (False, s1) \<Rightarrow> upd i (\<lambda>a. a\<lparr>amain := MDone\<rparr>) s1
      | (True, s1) \<Rightarrow>
          if apending (act i s) \<noteq> None then upd i (\<lambda>a. a\<lparr>amain := MFirstCheck\<rparr>) s1 else startWorkers i s1)"

definition firstCheck :: "nat \<Rightarrow> visitor \<Rightarrow> visitor" where
  "firstCheck i s =
     (if current i s then upd i (\<lambda>a. a\<lparr>amain := MFirstSend\<rparr>) s
      else returnActive i (upd i closeTransport s))"

definition firstSend :: "'j vcfg \<Rightarrow> send_env \<Rightarrow> nat \<Rightarrow> visitor \<Rightarrow> visitor" where
  "firstSend cfg e i s =
     (case apending (act i s) of
        None \<Rightarrow> s
      | Some p \<Rightarrow>
          (case SendPacket cfg (akind (act i s)) e p of
             SendTooLarge \<Rightarrow>
               startWorkers i (upd i (\<lambda>a. a\<lparr>apending := None\<rparr>) (s\<lparr>sent := sent s @ [Oversized i p]\<rparr>))
           | SendErr \<Rightarrow> returnActive i (upd i closeTransport s)
           | SendOk \<Rightarrow>
               upd i (\<lambda>a. a\<lparr>apending := None, amain := MFirstAfter\<rparr>) (s\<lparr>sent := sent s @ [Sent i p]\<rparr>)))"

definition firstAfter :: "nat \<Rightarrow> visitor \<Rightarrow> visitor" where
  "firstAfter i s =
     (if current i s then startWorkers i s else returnActive i (upd i closeTransport s))"

text \<open>The reader.\<close>

definition readerCheck :: "nat \<Rightarrow> visitor \<Rightarrow> visitor" where
  "readerCheck i s = upd i (\<lambda>a. a\<lparr>areader := (if current i s then RRecv else RExit)\<rparr>) s"

definition readerReceive :: "'j recv_env \<Rightarrow> nat \<Rightarrow> visitor \<Rightarrow> visitor" where
  "readerReceive e i s =
     (case ReceivePacket (akind (act i s)) e of
        None \<Rightarrow> s
      | Some None \<Rightarrow> upd i (\<lambda>a. a\<lparr>areader := RExit\<rparr>) s
      | Some (Some p) \<Rightarrow> upd i (\<lambda>a. a\<lparr>areader := RGot p\<rparr>) s)"

definition readerRecheck :: "nat \<Rightarrow> visitor \<Rightarrow> visitor" where
  "readerRecheck i s =
     (case areader (act i s) of
        RGot p \<Rightarrow> upd i (\<lambda>a. a\<lparr>areader := (if current i s then RPut p else RExit)\<rparr>) s
      | _ \<Rightarrow> s)"

definition readerPut :: "nat \<Rightarrow> visitor \<Rightarrow> visitor" where
  "readerPut i s =
     (case areader (act i s) of
        RPut p \<Rightarrow>
          upd i (\<lambda>a. a\<lparr>areader := RCheck\<rparr>) (s\<lparr>readQ := readQ s @ [p], delivered := delivered s @ [(i, p)]\<rparr>)
      | _ \<Rightarrow> s)"

definition readerSkip :: "nat \<Rightarrow> visitor \<Rightarrow> visitor" where
  "readerSkip i s = upd i (\<lambda>a. a\<lparr>areader := RCheck\<rparr>) s"

text \<open>The sender.\<close>

definition senderStop :: "nat \<Rightarrow> visitor \<Rightarrow> bool" where
  "senderStop i s \<longleftrightarrow> acancel (act i s) \<or> areader (act i s) = RExit \<or> vclosed s \<or> ctxDone i s"

definition senderTake :: "nat \<Rightarrow> visitor \<Rightarrow> visitor" where
  "senderTake i s =
     (case sendQ s of [] \<Rightarrow> s | p # q \<Rightarrow> upd i (\<lambda>a. a\<lparr>asender := STaken p\<rparr>) (s\<lparr>sendQ := q\<rparr>))"

definition senderQuit :: "nat \<Rightarrow> visitor \<Rightarrow> visitor" where
  "senderQuit i s = upd i (\<lambda>a. a\<lparr>asender := SExit\<rparr>) s"

definition handOff :: "udp_packet \<Rightarrow> active \<Rightarrow> active" where
  "handOff p a = a\<lparr>ahandoff := Some p, asender := SExit\<rparr>"

definition senderRecheck :: "nat \<Rightarrow> visitor \<Rightarrow> visitor" where
  "senderRecheck i s =
     (case asender (act i s) of
        STaken p \<Rightarrow> upd i (if senderStop i s then handOff p else (\<lambda>a. a\<lparr>asender := SCheck p\<rparr>)) s
      | _ \<Rightarrow> s)"

definition senderCheck :: "nat \<Rightarrow> visitor \<Rightarrow> visitor" where
  "senderCheck i s =
     (case asender (act i s) of
        SCheck p \<Rightarrow> upd i (if current i s then (\<lambda>a. a\<lparr>asender := SSend p\<rparr>) else handOff p) s
      | _ \<Rightarrow> s)"

definition senderSend :: "'j vcfg \<Rightarrow> send_env \<Rightarrow> nat \<Rightarrow> visitor \<Rightarrow> visitor" where
  "senderSend cfg e i s =
     (case asender (act i s) of
        SSend p \<Rightarrow>
          (case SendPacket cfg (akind (act i s)) e p of
             SendTooLarge \<Rightarrow> upd i (\<lambda>a. a\<lparr>asender := SSelect\<rparr>) (s\<lparr>sent := sent s @ [Oversized i p]\<rparr>)
           | SendErr \<Rightarrow> upd i (handOff p) s
           | SendOk \<Rightarrow> upd i (\<lambda>a. a\<lparr>asender := SAfter\<rparr>) (s\<lparr>sent := sent s @ [Sent i p]\<rparr>))
      | _ \<Rightarrow> s)"

definition senderAfter :: "nat \<Rightarrow> visitor \<Rightarrow> visitor" where
  "senderAfter i s = upd i (\<lambda>a. a\<lparr>asender := (if current i s then SSelect else SExit)\<rparr>) s"

text \<open>The final \<^verbatim>\<open>select\<close> and the return.\<close>

definition mainReady :: "nat \<Rightarrow> visitor \<Rightarrow> bool" where
  "mainReady i s \<longleftrightarrow> senderStop i s \<or> asender (act i s) = SExit"

definition mainStop :: "nat \<Rightarrow> visitor \<Rightarrow> visitor" where
  "mainStop i s = upd i (\<lambda>a. (closeTransport a)\<lparr>amain := MJoin\<rparr>) s"

definition mainJoin :: "nat \<Rightarrow> visitor \<Rightarrow> visitor" where
  "mainJoin i s = returnActive i (upd i (\<lambda>a. a\<lparr>apending := ahandoff a\<rparr>) s)"

section \<open>Dialling\<close>

text \<open>How an attempt to reach the peer ends.\<close>

datatype dial_end =
    PreCheckFails | PrepareCanceled | PrepareFails | PrepareEmpty | IdentityFails | ExchangeFails | HoleFails
  | TLSFails | QUICFails | PeerRejected | Established

definition setPhase :: "phase \<Rightarrow> 64 word \<Rightarrow> phase \<Rightarrow> machine \<Rightarrow> bool \<times> machine" where
  "setPhase before g nextPhase m =
     (if before = PhaseRecovering then SetPhaseForGeneration g PhaseRecovering m
      else SetPhaseForGeneration g nextPhase m)"

definition dialP2P :: "64 word \<Rightarrow> dial_end \<Rightarrow> machine \<Rightarrow> bool \<times> machine" where
  "dialP2P g r m0 =
     (let before = fst (Snapshot m0); (ok1, m1) = setPhase before g PhaseNATHolePrepare m0 in
      if \<not> ok1 then (False, m1)
      else if r = PreCheckFails then (False, m1)
      else let (ok2, m2) = setPhase before g PhasePunching m1 in
      if \<not> ok2 then (False, m2)
      else if r \<in> {PrepareCanceled, PrepareFails, PrepareEmpty, IdentityFails, ExchangeFails, HoleFails} then (False, m2)
      else let (ok3, m3) = setPhase before g PhaseQUICHandshake m2 in
      if \<not> ok3 then (False, m3)
      else (r \<notin> {TLSFails, QUICFails, PeerRejected}, m3))"

text \<open>\<open>rawOk\<close> and \<open>wrapOk\<close> say whether the server accepted the visitor connection and whether it could be wrapped.\<close>

definition dialRelay ::
    "'j vcfg \<Rightarrow> bool \<Rightarrow> bool \<Rightarrow> 64 word \<Rightarrow> machine \<Rightarrow> (read_writer \<times> 64 word) option \<times> machine" where
  "dialRelay cfg rawOk wrapOk g m =
     (case SetPhaseForGeneration g PhaseRelayConnect m of
        (False, m1) \<Rightarrow> (None, m1)
      | (True, m1) \<Rightarrow>
          if \<not> rawOk \<or> \<not> wrapOk then (None, m1)
          else (case NewUDPPacketReadWriter (vwire cfg) (vcodec cfg) of
                  Inl _ \<Rightarrow> (None, m1)
                | Inr rw \<Rightarrow>
                    (case BeginTransport g PhaseRelayReady m1 of
                       ((e, False), m2) \<Rightarrow> (None, m2)
                     | ((e, True), m2) \<Rightarrow> (Some (rw, e), m2))))"

section \<open>The dispatcher\<close>

definition takeFirst :: "visitor \<Rightarrow> visitor" where
  "takeFirst s =
     (case sendQ s of
        [] \<Rightarrow> s
      | p # q \<Rightarrow>
          let (g, m) = BeginSession (mach s) in
          s\<lparr>sendQ := q, mach := m, sgen := g, spend := Some p, sbackoff := 1000000000, dpc := DTop\<rparr>)"

text \<open>\<open>runSession\<close> leaves when the visitor is closed.\<close>

definition unlessClosed :: "disp_pc \<Rightarrow> visitor \<Rightarrow> visitor" where
  "unlessClosed d s = s\<lparr>dpc := (if vclosed s then DSelect else d)\<rparr>"

definition sessionDial :: "dial_end \<Rightarrow> visitor \<Rightarrow> visitor" where
  "sessionDial r s =
     (case dialP2P (sgen s) r (mach s) of
        (True, m) \<Rightarrow> s\<lparr>mach := m, acts := acts s @ [newTransport P2P], dpc := DActivate (length (acts s))\<rparr>
      | (False, m) \<Rightarrow> s\<lparr>mach := m, dpc := DAfterP2P\<rparr>)"

definition sessionActivate :: "nat \<Rightarrow> visitor \<Rightarrow> visitor" where
  "sessionActivate i s =
     (case BeginTransport (sgen s) PhaseP2PReady (mach s) of
        ((e, False), m) \<Rightarrow> (upd i closeTransport s)\<lparr>mach := m, dpc := DSelect\<rparr>
      | ((e, True), m) \<Rightarrow> (upd i (callRunActive (sgen s) e (spend s)) s)\<lparr>mach := m, dpc := DP2P i\<rparr>)"

definition takeResult :: "nat \<Rightarrow> visitor \<Rightarrow> visitor" where
  "takeResult i s = s\<lparr>spend := apending (act i s)\<rparr>"

definition relayDial :: "'j vcfg \<Rightarrow> bool \<Rightarrow> bool \<Rightarrow> visitor \<Rightarrow> visitor" where
  "relayDial cfg rawOk wrapOk s =
     (case dialRelay cfg rawOk wrapOk (sgen s) (mach s) of
        (None, m) \<Rightarrow> s\<lparr>mach := m, dpc := DPause\<rparr>
      | (Some (rw, e), m) \<Rightarrow>
          s\<lparr>mach := m, acts := acts s @ [callRunActive (sgen s) e (spend s) (newTransport (Relay rw))],
            dpc := DRelay (length (acts s)) 0\<rparr>)"

definition relayStop :: "nat \<Rightarrow> visitor \<Rightarrow> visitor" where
  "relayStop i s = (upd i (\<lambda>a. a\<lparr>acancel := True\<rparr>) s)\<lparr>dpc := DStopRelay i\<rparr>"

definition relayEnded :: "nat \<Rightarrow> visitor \<Rightarrow> visitor" where
  "relayEnded i s =
     (takeResult i s)\<lparr>mach := snd (SetPhaseForTransport (sgen s) (aepoch (act i s)) PhaseClosed (mach s)), dpc := DPause\<rparr>"

definition probe :: "nat \<Rightarrow> nat \<Rightarrow> visitor \<Rightarrow> visitor" where
  "probe i n s =
     s\<lparr>mach := snd (SetPhaseForGeneration (sgen s) PhaseRecovering (mach s)), dpc := DProbe i (Suc n)\<rparr>"

definition probeDial :: "dial_end \<Rightarrow> nat \<Rightarrow> nat \<Rightarrow> visitor \<Rightarrow> visitor" where
  "probeDial r i n s =
     (case dialP2P (sgen s) r (mach s) of
        (False, m) \<Rightarrow>
          s\<lparr>mach := snd (SetPhaseForTransport (sgen s) (aepoch (act i s)) PhaseRelayReady m), dpc := DRelay i n\<rparr>
      | (True, m) \<Rightarrow>
          let s1 = upd i (\<lambda>a. a\<lparr>acancel := True\<rparr>) s in
          s1\<lparr>mach := m, acts := acts s1 @ [newTransport P2P], dpc := DSwap i (length (acts s1))\<rparr>)"

definition swapTransports :: "nat \<Rightarrow> nat \<Rightarrow> visitor \<Rightarrow> visitor" where
  "swapTransports i j s =
     (let s1 = takeResult i s in
      if vclosed s1 then (upd j closeTransport s1)\<lparr>dpc := DPause\<rparr>
      else (case BeginTransport (sgen s1) PhaseP2PReady (mach s1) of
              ((e, False), m) \<Rightarrow> (upd j closeTransport s1)\<lparr>mach := m, dpc := DPause\<rparr>
            | ((e, True), m) \<Rightarrow> (upd j (callRunActive (sgen s1) e (spend s1)) s1)\<lparr>mach := m, dpc := DRecovered j\<rparr>))"

definition pauseEnd :: "visitor \<Rightarrow> visitor" where
  "pauseEnd s =
     s\<lparr>sbackoff := (if sbackoff s < 30 * 1000000000 then sbackoff s * 2 else sbackoff s), dpc := DTop\<rparr>"

section \<open>Run, Close and the users' socket\<close>

datatype visitor_error = ErrVisitorClosed | ErrRunTwice | ErrListenUDP

definition VisitorRun :: "bool \<Rightarrow> visitor \<Rightarrow> (visitor_error + unit) \<times> visitor" where
  "VisitorRun listenOk s =
     (if vclosed s then (Inl ErrVisitorClosed, s)
      else if vrunOnce s then (Inl ErrRunTwice, s)
      else let s1 = s\<lparr>vrunOnce := True\<rparr> in
           if \<not> listenOk then (Inl ErrListenUDP, s1)
           else (Inr (), s1\<lparr>mach := NewMachine, dpc := DSelect, fwd := True\<rparr>))"

text \<open>The critical section of the first \<^verbatim>\<open>Close\<close>; \<open>order\<close> is the order in which the map of closers is iterated.\<close>

definition VisitorClose :: "nat list \<Rightarrow> visitor \<Rightarrow> visitor" where
  "VisitorClose order s =
     (if vclosed s then s else s\<lparr>vclosed := True, closers := [], cpc := CClosers order\<rparr>)"

definition closeNext :: "visitor \<Rightarrow> visitor" where
  "closeNext s =
     (case cpc s of
        CClosers [] \<Rightarrow> s\<lparr>cpc := CWait\<rparr>
      | CClosers (i # is) \<Rightarrow> (upd i closeTransport s)\<lparr>cpc := CClosers is\<rparr>
      | _ \<Rightarrow> s)"

definition forwardFromUser :: "udp_packet \<Rightarrow> visitor \<Rightarrow> visitor" where
  "forwardFromUser p s =
     (if length (sendQ s) < chanCap then s\<lparr>sendQ := sendQ s @ [p], offered := offered s @ [p]\<rparr> else s)"

definition forwardToUser :: "visitor \<Rightarrow> visitor" where
  "forwardToUser s = s\<lparr>readQ := drop 1 (readQ s)\<rparr>"

section \<open>Executions\<close>

datatype 'j vevent =
    VRun bool | VClose "nat list" | VCloseNext | VCloseDone
  | VUser udp_packet | VToUser | VFwdStop
  | VTake | VLeave | VTop | VDial dial_end | VActivate nat | VP2PDone nat | VAfter | VRelayDial bool bool
  | VRelayClosed nat nat | VRelayDone nat nat | VProbe nat nat | VProbeDial dial_end nat nat | VStopped nat
  | VSwap nat nat | VRecovered nat | VPauseEnd | VPauseClosed
  | TBegin nat | TFirstCheck nat | TFirstSend send_env nat | TFirstAfter nat
  | TReaderCheck nat | TReaderRecv "'j recv_env" nat | TReaderRecheck nat | TReaderPut nat | TReaderSkip nat
  | TSenderTake nat | TSenderQuit nat | TSenderRecheck nat | TSenderCheck nat | TSenderSend send_env nat
  | TSenderAfter nat | TMainStop nat | TJoin nat | TWatch nat

definition mainAt :: "nat \<Rightarrow> visitor \<Rightarrow> main_pc" where
  "mainAt i s = (if i < length (acts s) then amain (act i s) else MCandidate)"

definition working :: "nat \<Rightarrow> visitor \<Rightarrow> bool" where
  "working i s \<longleftrightarrow> mainAt i s = MSelect \<or> mainAt i s = MJoin"

text \<open>The points at which a packet is in hand.\<close>

definition inClosers :: "close_pc \<Rightarrow> bool" where
  "inClosers c = (case c of CClosers is \<Rightarrow> True | _ \<Rightarrow> False)"

definition atGot :: "reader_pc \<Rightarrow> bool" where
  "atGot r = (case r of RGot p \<Rightarrow> True | _ \<Rightarrow> False)"

definition atPut :: "reader_pc \<Rightarrow> bool" where
  "atPut r = (case r of RPut p \<Rightarrow> True | _ \<Rightarrow> False)"

definition atTaken :: "sender_pc \<Rightarrow> bool" where
  "atTaken q = (case q of STaken p \<Rightarrow> True | _ \<Rightarrow> False)"

definition atCheck :: "sender_pc \<Rightarrow> bool" where
  "atCheck q = (case q of SCheck p \<Rightarrow> True | _ \<Rightarrow> False)"

definition atSend :: "sender_pc \<Rightarrow> bool" where
  "atSend q = (case q of SSend p \<Rightarrow> True | _ \<Rightarrow> False)"

lemma at_iff [simp]:
  "inClosers c \<longleftrightarrow> (\<exists>is. c = CClosers is)" "atGot r \<longleftrightarrow> (\<exists>p. r = RGot p)" "atPut r \<longleftrightarrow> (\<exists>p. r = RPut p)"
  "atTaken q \<longleftrightarrow> (\<exists>p. q = STaken p)" "atCheck q \<longleftrightarrow> (\<exists>p. q = SCheck p)" "atSend q \<longleftrightarrow> (\<exists>p. q = SSend p)"
  by (auto simp: inClosers_def atGot_def atPut_def atTaken_def atCheck_def atSend_def split: close_pc.split reader_pc.split sender_pc.split)

fun vguard :: "'j vevent \<Rightarrow> visitor \<Rightarrow> bool" where
  "vguard (VRun ok) s \<longleftrightarrow> True"
| "vguard (VClose order) s \<longleftrightarrow> distinct order \<and> set order = set (closers s)"
| "vguard VCloseNext s \<longleftrightarrow> inClosers (cpc s)"
| "vguard VCloseDone s \<longleftrightarrow> cpc s = CWait \<and> (dpc s = DNone \<or> dpc s = DExit) \<and> \<not> fwd s"
| "vguard (VUser p) s \<longleftrightarrow> fwd s"
| "vguard VToUser s \<longleftrightarrow> fwd s"
| "vguard VFwdStop s \<longleftrightarrow> fwd s"
| "vguard VTake s \<longleftrightarrow> dpc s = DSelect \<and> sendQ s \<noteq> []"
| "vguard VLeave s \<longleftrightarrow> dpc s = DSelect \<and> vclosed s"
| "vguard VTop s \<longleftrightarrow> dpc s = DTop"
| "vguard (VDial r) s \<longleftrightarrow> dpc s = DDialing"
| "vguard (VActivate i) s \<longleftrightarrow> dpc s = DActivate i"
| "vguard (VP2PDone i) s \<longleftrightarrow> dpc s = DP2P i \<and> mainAt i s = MDone"
| "vguard VAfter s \<longleftrightarrow> dpc s = DAfterP2P"
| "vguard (VRelayDial a b) s \<longleftrightarrow> dpc s = DRelayDial"
| "vguard (VRelayClosed i n) s \<longleftrightarrow> dpc s = DRelay i n \<and> vclosed s"
| "vguard (VRelayDone i n) s \<longleftrightarrow> dpc s = DRelay i n \<and> mainAt i s = MDone"
| "vguard (VProbe i n) s \<longleftrightarrow> dpc s = DRelay i n"
| "vguard (VProbeDial r i n) s \<longleftrightarrow> dpc s = DProbe i n"
| "vguard (VStopped i) s \<longleftrightarrow> dpc s = DStopRelay i \<and> mainAt i s = MDone"
| "vguard (VSwap i j) s \<longleftrightarrow> dpc s = DSwap i j \<and> mainAt i s = MDone"
| "vguard (VRecovered j) s \<longleftrightarrow> dpc s = DRecovered j \<and> mainAt j s = MDone"
| "vguard VPauseEnd s \<longleftrightarrow> dpc s = DPause"
| "vguard VPauseClosed s \<longleftrightarrow> dpc s = DPause \<and> vclosed s"
| "vguard (TBegin i) s \<longleftrightarrow> mainAt i s = MRegister"
| "vguard (TFirstCheck i) s \<longleftrightarrow> mainAt i s = MFirstCheck"
| "vguard (TFirstSend e i) s \<longleftrightarrow> mainAt i s = MFirstSend"
| "vguard (TFirstAfter i) s \<longleftrightarrow> mainAt i s = MFirstAfter"
| "vguard (TReaderCheck i) s \<longleftrightarrow> working i s \<and> areader (act i s) = RCheck"
| "vguard (TReaderRecv e i) s \<longleftrightarrow> working i s \<and> areader (act i s) = RRecv"
| "vguard (TReaderRecheck i) s \<longleftrightarrow> working i s \<and> atGot (areader (act i s))"
| "vguard (TReaderPut i) s \<longleftrightarrow> working i s \<and> atPut (areader (act i s)) \<and> length (readQ s) < chanCap"
| "vguard (TReaderSkip i) s \<longleftrightarrow> working i s \<and> atPut (areader (act i s)) \<and> ctxDone i s"
| "vguard (TSenderTake i) s \<longleftrightarrow> working i s \<and> asender (act i s) = SSelect \<and> sendQ s \<noteq> []"
| "vguard (TSenderQuit i) s \<longleftrightarrow> working i s \<and> asender (act i s) = SSelect \<and> senderStop i s"
| "vguard (TSenderRecheck i) s \<longleftrightarrow> working i s \<and> atTaken (asender (act i s))"
| "vguard (TSenderCheck i) s \<longleftrightarrow> working i s \<and> atCheck (asender (act i s))"
| "vguard (TSenderSend e i) s \<longleftrightarrow> working i s \<and> atSend (asender (act i s))"
| "vguard (TSenderAfter i) s \<longleftrightarrow> working i s \<and> asender (act i s) = SAfter"
| "vguard (TMainStop i) s \<longleftrightarrow> mainAt i s = MSelect \<and> mainReady i s"
| "vguard (TJoin i) s \<longleftrightarrow> mainAt i s = MJoin \<and> asender (act i s) = SExit \<and> areader (act i s) = RExit"
| "vguard (TWatch i) s \<longleftrightarrow> mainAt i s \<notin> {MCandidate, MRegister, MDone} \<and> (acancel (act i s) \<or> ctxDone i s)"

fun vhappen :: "'j vcfg \<Rightarrow> 'j vevent \<Rightarrow> visitor \<Rightarrow> visitor" where
  "vhappen cfg (VRun ok) s = snd (VisitorRun ok s)"
| "vhappen cfg (VClose order) s = VisitorClose order s"
| "vhappen cfg VCloseNext s = closeNext s"
| "vhappen cfg VCloseDone s = s\<lparr>cpc := CDone\<rparr>"
| "vhappen cfg (VUser p) s = forwardFromUser p s"
| "vhappen cfg VToUser s = forwardToUser s"
| "vhappen cfg VFwdStop s = s\<lparr>fwd := False\<rparr>"
| "vhappen cfg VTake s = takeFirst s"
| "vhappen cfg VLeave s = s\<lparr>dpc := DExit\<rparr>"
| "vhappen cfg VTop s = unlessClosed DDialing s"
| "vhappen cfg (VDial r) s = sessionDial r s"
| "vhappen cfg (VActivate i) s = sessionActivate i s"
| "vhappen cfg (VP2PDone i) s = (takeResult i s)\<lparr>dpc := DAfterP2P\<rparr>"
| "vhappen cfg VAfter s = unlessClosed DRelayDial s"
| "vhappen cfg (VRelayDial rawOk wrapOk) s = relayDial cfg rawOk wrapOk s"
| "vhappen cfg (VRelayClosed i n) s = relayStop i s"
| "vhappen cfg (VRelayDone i n) s = relayEnded i s"
| "vhappen cfg (VProbe i n) s = probe i n s"
| "vhappen cfg (VProbeDial r i n) s = probeDial r i n s"
| "vhappen cfg (VStopped i) s = (takeResult i s)\<lparr>dpc := DPause\<rparr>"
| "vhappen cfg (VSwap i j) s = swapTransports i j s"
| "vhappen cfg (VRecovered j) s = (takeResult j s)\<lparr>dpc := DTop\<rparr>"
| "vhappen cfg VPauseEnd s = pauseEnd s"
| "vhappen cfg VPauseClosed s = s\<lparr>dpc := DSelect\<rparr>"
| "vhappen cfg (TBegin i) s = runActiveBegin i s"
| "vhappen cfg (TFirstCheck i) s = firstCheck i s"
| "vhappen cfg (TFirstSend e i) s = firstSend cfg e i s"
| "vhappen cfg (TFirstAfter i) s = firstAfter i s"
| "vhappen cfg (TReaderCheck i) s = readerCheck i s"
| "vhappen cfg (TReaderRecv e i) s = readerReceive e i s"
| "vhappen cfg (TReaderRecheck i) s = readerRecheck i s"
| "vhappen cfg (TReaderPut i) s = readerPut i s"
| "vhappen cfg (TReaderSkip i) s = readerSkip i s"
| "vhappen cfg (TSenderTake i) s = senderTake i s"
| "vhappen cfg (TSenderQuit i) s = senderQuit i s"
| "vhappen cfg (TSenderRecheck i) s = senderRecheck i s"
| "vhappen cfg (TSenderCheck i) s = senderCheck i s"
| "vhappen cfg (TSenderSend e i) s = senderSend cfg e i s"
| "vhappen cfg (TSenderAfter i) s = senderAfter i s"
| "vhappen cfg (TMainStop i) s = mainStop i s"
| "vhappen cfg (TJoin i) s = mainJoin i s"
| "vhappen cfg (TWatch i) s = upd i closeTransport s"

section \<open>Invariants\<close>

text \<open>The transport the dispatcher runs, and the connection it holds that is not in use yet.\<close>

fun owner :: "disp_pc \<Rightarrow> nat option" where
  "owner (DP2P i) = Some i"
| "owner (DRelay i n) = Some i"
| "owner (DProbe i n) = Some i"
| "owner (DStopRelay i) = Some i"
| "owner (DSwap i j) = Some i"
| "owner (DRecovered i) = Some i"
| "owner _ = None"

fun candidate :: "disp_pc \<Rightarrow> nat option" where
  "candidate (DActivate j) = Some j"
| "candidate (DSwap i j) = Some j"
| "candidate _ = None"

definition in_session :: "disp_pc \<Rightarrow> bool" where
  "in_session d \<longleftrightarrow> d \<notin> {DNone, DSelect, DExit}"

fun aok_at :: "main_pc \<Rightarrow> active \<Rightarrow> bool" where
  "aok_at MCandidate a \<longleftrightarrow> asender a = SNone \<and> areader a = RNone \<and> apending a = None \<and> ahandoff a = None"
| "aok_at MRegister a \<longleftrightarrow> asender a = SNone \<and> areader a = RNone \<and> ahandoff a = None"
| "aok_at MFirstCheck a \<longleftrightarrow> asender a = SNone \<and> areader a = RNone \<and> apending a \<noteq> None \<and> ahandoff a = None"
| "aok_at MFirstSend a \<longleftrightarrow> asender a = SNone \<and> areader a = RNone \<and> apending a \<noteq> None \<and> ahandoff a = None"
| "aok_at MFirstAfter a \<longleftrightarrow> asender a = SNone \<and> areader a = RNone \<and> apending a = None \<and> ahandoff a = None"
| "aok_at MSelect a \<longleftrightarrow> asender a \<noteq> SNone \<and> areader a \<noteq> RNone \<and> apending a = None \<and> (ahandoff a \<noteq> None \<longrightarrow> asender a = SExit)"
| "aok_at MJoin a \<longleftrightarrow> asender a \<noteq> SNone \<and> areader a \<noteq> RNone \<and> apending a = None \<and> (ahandoff a \<noteq> None \<longrightarrow> asender a = SExit) \<and> aclosed a"
| "aok_at MDone a \<longleftrightarrow> aclosed a"

definition aok :: "active \<Rightarrow> bool" where
  "aok a \<longleftrightarrow> aok_at (amain a) a"

definition busy :: "active \<Rightarrow> bool" where
  "busy a \<longleftrightarrow> amain a \<noteq> MCandidate \<and> amain a \<noteq> MDone"

text \<open>Every transport is well formed; the only busy one is the dispatcher's and it is current; a connection that is not in
  use is the dispatcher's or closed.\<close>

definition vshape :: "visitor \<Rightarrow> bool" where
  "vshape s \<longleftrightarrow>
     (\<forall>i < length (acts s). aok (acts s ! i)) \<and>
     (\<forall>i < length (acts s). busy (acts s ! i) \<longrightarrow> owner (dpc s) = Some i) \<and>
     (\<forall>i < length (acts s). amain (acts s ! i) = MCandidate \<longrightarrow> \<not> aclosed (acts s ! i) \<longrightarrow> candidate (dpc s) = Some i) \<and>
     (\<forall>i. owner (dpc s) = Some i \<longrightarrow> i < length (acts s) \<and> amain (acts s ! i) \<noteq> MCandidate \<and>
        agen (acts s ! i) = generation (mach s) \<and> aepoch (acts s ! i) = transportEpoch (mach s)) \<and>
     (\<forall>j. candidate (dpc s) = Some j \<longrightarrow> j < length (acts s) \<and> amain (acts s ! j) = MCandidate) \<and>
     (in_session (dpc s) \<longrightarrow> sgen s = generation (mach s)) \<and>
     (\<not> vrunOnce s \<longrightarrow> dpc s = DNone \<and> sendQ s = [] \<and> \<not> fwd s)"

lemma vshapeI:
  assumes "\<And>i. i < length (acts s) \<Longrightarrow> aok (acts s ! i)"
    "\<And>i. i < length (acts s) \<Longrightarrow> busy (acts s ! i) \<Longrightarrow> owner (dpc s) = Some i"
    "\<And>i. i < length (acts s) \<Longrightarrow> amain (acts s ! i) = MCandidate \<Longrightarrow> \<not> aclosed (acts s ! i) \<Longrightarrow> candidate (dpc s) = Some i"
    "\<And>i. owner (dpc s) = Some i \<Longrightarrow> i < length (acts s) \<and> amain (acts s ! i) \<noteq> MCandidate \<and>
        agen (acts s ! i) = generation (mach s) \<and> aepoch (acts s ! i) = transportEpoch (mach s)"
    "\<And>j. candidate (dpc s) = Some j \<Longrightarrow> j < length (acts s) \<and> amain (acts s ! j) = MCandidate"
    "in_session (dpc s) \<Longrightarrow> sgen s = generation (mach s)"
    "\<not> vrunOnce s \<Longrightarrow> dpc s = DNone \<and> sendQ s = [] \<and> \<not> fwd s"
  shows "vshape s"
  using assms unfolding vshape_def by blast

lemma vshapeD:
  assumes "vshape s"
  shows "\<And>i. i < length (acts s) \<Longrightarrow> aok (acts s ! i)"
    "\<And>i. i < length (acts s) \<Longrightarrow> busy (acts s ! i) \<Longrightarrow> owner (dpc s) = Some i"
    "\<And>i. i < length (acts s) \<Longrightarrow> amain (acts s ! i) = MCandidate \<Longrightarrow> \<not> aclosed (acts s ! i) \<Longrightarrow> candidate (dpc s) = Some i"
    "\<And>i. owner (dpc s) = Some i \<Longrightarrow> i < length (acts s)"
    "\<And>i. owner (dpc s) = Some i \<Longrightarrow> amain (acts s ! i) \<noteq> MCandidate"
    "\<And>i. owner (dpc s) = Some i \<Longrightarrow> agen (acts s ! i) = generation (mach s)"
    "\<And>i. owner (dpc s) = Some i \<Longrightarrow> aepoch (acts s ! i) = transportEpoch (mach s)"
    "\<And>j. candidate (dpc s) = Some j \<Longrightarrow> j < length (acts s)"
    "\<And>j. candidate (dpc s) = Some j \<Longrightarrow> amain (acts s ! j) = MCandidate"
    "in_session (dpc s) \<Longrightarrow> sgen s = generation (mach s)"
    "\<not> vrunOnce s \<Longrightarrow> dpc s = DNone" "\<not> vrunOnce s \<Longrightarrow> sendQ s = []" "\<not> vrunOnce s \<Longrightarrow> \<not> fwd s"
  using assms unfolding vshape_def by blast+

lemma upd_simps [simp]:
  "vclosed (upd i f s) = vclosed s" "vrunOnce (upd i f s) = vrunOnce s" "mach (upd i f s) = mach s"
  "sendQ (upd i f s) = sendQ s" "readQ (upd i f s) = readQ s" "fwd (upd i f s) = fwd s" "dpc (upd i f s) = dpc s"
  "sgen (upd i f s) = sgen s" "spend (upd i f s) = spend s" "sbackoff (upd i f s) = sbackoff s"
  "closers (upd i f s) = closers s" "cpc (upd i f s) = cpc s" "offered (upd i f s) = offered s"
  "sent (upd i f s) = sent s" "delivered (upd i f s) = delivered s"
  "acts (upd i f s) = (acts s)[i := f (acts s ! i)]"
  by (simp_all add: upd_def)

text \<open>A step of one transport that does not begin or end anything of the dispatcher's.\<close>

lemma vshape_local:
  assumes s: "vshape s" and t: "acts t = (acts s)[i := a]" "dpc t = dpc s" "mach t = mach s" "sgen t = sgen s"
      "vrunOnce t = vrunOnce s" "\<not> vrunOnce s \<Longrightarrow> sendQ t = sendQ s \<and> fwd t = fwd s"
    and a: "i < length (acts s) \<Longrightarrow> aok a" "i < length (acts s) \<Longrightarrow> busy a \<Longrightarrow> busy (acts s ! i)"
      "i < length (acts s) \<Longrightarrow> amain a = MCandidate \<longleftrightarrow> amain (acts s ! i) = MCandidate"
      "i < length (acts s) \<Longrightarrow> aclosed (acts s ! i) \<Longrightarrow> aclosed a"
      "i < length (acts s) \<Longrightarrow> agen a = agen (acts s ! i)" "i < length (acts s) \<Longrightarrow> aepoch a = aepoch (acts s ! i)"
  shows "vshape t"
proof (rule vshapeI)
  fix k assume k: "k < length (acts t)"
  then have k': "k < length (acts s)" using t by simp
  show "aok (acts t ! k)" using vshapeD(1) [OF s k'] a(1) k' t(1) by (cases "i = k") simp_all
  show "owner (dpc t) = Some k" if "busy (acts t ! k)"
    using vshapeD(2) [OF s k'] a(2) that k' t(1,2) by (cases "i = k") simp_all
  show "candidate (dpc t) = Some k" if "amain (acts t ! k) = MCandidate" "\<not> aclosed (acts t ! k)"
    using vshapeD(3) [OF s k'] a(3,4) that k' t(1,2) by (cases "i = k") auto
next
  fix k assume k: "owner (dpc t) = Some k"
  then have k': "owner (dpc s) = Some k" using t by simp
  note D = vshapeD(4-7) [OF s k']
  show "k < length (acts t) \<and> amain (acts t ! k) \<noteq> MCandidate \<and>
      agen (acts t ! k) = generation (mach t) \<and> aepoch (acts t ! k) = transportEpoch (mach t)"
    using D a(3,5,6) t by (cases "i = k") auto
next
  fix j assume "candidate (dpc t) = Some j"
  then have k': "candidate (dpc s) = Some j" using t by simp
  show "j < length (acts t) \<and> amain (acts t ! j) = MCandidate"
    using vshapeD(8,9) [OF s k'] a(3) t by (cases "i = j") auto
next
  show "sgen t = generation (mach t)" if "in_session (dpc t)" using vshapeD(10) [OF s] t that by simp
  show "dpc t = DNone \<and> sendQ t = [] \<and> \<not> fwd t" if "\<not> vrunOnce t"
    using vshapeD(11-13) [OF s] t that by simp
qed


lemma mainAtD: "mainAt i s = m \<Longrightarrow> m \<noteq> MCandidate \<Longrightarrow> i < length (acts s) \<and> amain (acts s ! i) = m"
  by (auto simp: mainAt_def act_def split: if_splits)

lemma workingD: "working i s \<Longrightarrow> i < length (acts s) \<and> (amain (acts s ! i) = MSelect \<or> amain (acts s ! i) = MJoin)"
  by (auto simp: working_def mainAt_def act_def split: if_splits)

lemmas reader_defs = readerCheck_def readerReceive_def readerRecheck_def readerPut_def readerSkip_def
lemmas sender_defs = senderTake_def senderQuit_def senderRecheck_def senderCheck_def senderSend_def senderAfter_def handOff_def
lemmas main_defs = runActiveBegin_def registerActiveCloser_def startWorkers_def returnActive_def firstCheck_def firstSend_def
  firstAfter_def mainStop_def mainJoin_def closeTransport_def

lemma aok_working: "vshape s \<Longrightarrow> working i s \<Longrightarrow>
   asender (acts s ! i) \<noteq> SNone \<and> areader (acts s ! i) \<noteq> RNone \<and> apending (acts s ! i) = None \<and>
   (ahandoff (acts s ! i) \<noteq> None \<longrightarrow> asender (acts s ! i) = SExit) \<and> (amain (acts s ! i) = MJoin \<longrightarrow> aclosed (acts s ! i))"
  using vshapeD(1) [of s i] by (auto dest!: workingD simp: aok_def)

lemma aok_main: "vshape s \<Longrightarrow> mainAt i s = m \<Longrightarrow> m \<noteq> MCandidate \<Longrightarrow> i < length (acts s) \<and> amain (acts s ! i) = m \<and> aok_at m (acts s ! i)"
  using vshapeD(1) [of s i] mainAtD [of i s m] by (auto simp: aok_def)

lemma current_running:
  "vshape s \<Longrightarrow> mainAt i s = m \<Longrightarrow> m \<noteq> MCandidate \<Longrightarrow> m \<noteq> MDone \<Longrightarrow> current i s"
  using vshapeD(2) [of s i] vshapeD(6,7) [of s i] mainAtD [of i s m]
  by (auto simp: current_def IsCurrent_def act_def busy_def)

lemma current_working: "vshape s \<Longrightarrow> working i s \<Longrightarrow> current i s"
  using current_running [of s i] by (auto simp: working_def)

lemma vshape_reader:
  assumes "vshape s" "working i s"
  shows "vshape (readerCheck i s)" "vshape (readerReceive e i s)" "vshape (readerRecheck i s)" "vshape (readerPut i s)"
    "vshape (readerSkip i s)"
proof -
  note W = workingD [OF assms(2)] aok_working [OF assms]
  have local: "vshape t" if "acts t = (acts s)[i := (acts s ! i)\<lparr>areader := r\<rparr>]" "r \<noteq> RNone" "dpc t = dpc s" "mach t = mach s"
      "sgen t = sgen s" "vrunOnce t = vrunOnce s" "sendQ t = sendQ s" "fwd t = fwd s" for t r
    by (rule vshape_local [OF assms(1) that(1)]) (use that W in \<open>auto simp: aok_def busy_def\<close>)
  show "vshape (readerCheck i s)" unfolding readerCheck_def by (cases "current i s") (auto intro!: local)
  show "vshape (readerReceive e i s)" unfolding readerReceive_def
    by (auto split: option.splits intro!: local assms)
  show "vshape (readerRecheck i s)" unfolding readerRecheck_def
    by (auto split: reader_pc.splits intro!: local assms)
  show "vshape (readerPut i s)" unfolding readerPut_def
    by (auto split: reader_pc.splits intro!: local assms)
  show "vshape (readerSkip i s)" unfolding readerSkip_def by (rule local) auto
qed

lemma vshape_sender:
  assumes "vshape s" "working i s"
  shows "asender (act i s) = SSelect \<Longrightarrow> vshape (senderTake i s)" "asender (act i s) = SSelect \<Longrightarrow> vshape (senderQuit i s)"
    "vshape (senderRecheck i s)" "vshape (senderCheck i s)" "vshape (senderSend cfg e i s)"
    "asender (act i s) = SAfter \<Longrightarrow> vshape (senderAfter i s)"
proof -
  note W = workingD [OF assms(2)] aok_working [OF assms]
  have run: "vrunOnce s"
    using vshapeD(2) [OF assms(1), of i] vshapeD(11) [OF assms(1)] W(1) by (cases "vrunOnce s") (auto simp: busy_def)
  have local: "vshape t" if "acts t = (acts s)[i := (acts s ! i)\<lparr>asender := r\<rparr>]" "r \<noteq> SNone" "asender (acts s ! i) \<noteq> SExit"
     "dpc t = dpc s" "mach t = mach s" "sgen t = sgen s" "vrunOnce t = vrunOnce s" for t r
    by (rule vshape_local [OF assms(1) that(1)]) (use that W run in \<open>auto simp: aok_def busy_def\<close>)
  have off: "vshape (upd i (handOff p) s)" if "asender (acts s ! i) \<noteq> SExit" for p
    by (rule vshape_local [OF assms(1), of _ i "handOff p (acts s ! i)"]) (use that W in \<open>auto simp: aok_def busy_def handOff_def\<close>)
  show "asender (act i s) = SSelect \<Longrightarrow> vshape (senderTake i s)" unfolding senderTake_def
    by (auto split: list.splits intro!: local assms simp: act_def)
  show "asender (act i s) = SSelect \<Longrightarrow> vshape (senderQuit i s)" unfolding senderQuit_def
    by (auto intro!: local simp: act_def)
  show "vshape (senderRecheck i s)" unfolding senderRecheck_def
    by (auto split: sender_pc.splits intro!: local off assms simp: act_def)
  show "vshape (senderCheck i s)" unfolding senderCheck_def
    by (auto split: sender_pc.splits intro!: local off assms simp: act_def)
  show "vshape (senderSend cfg e i s)" unfolding senderSend_def
    by (auto split: sender_pc.splits send_result.splits intro!: local off assms simp: act_def)
  show "asender (act i s) = SAfter \<Longrightarrow> vshape (senderAfter i s)" unfolding senderAfter_def
    by (cases "current i s") (auto intro!: local simp: act_def)
qed


lemma vshape_main:
  assumes "vshape s"
  shows "mainAt i s = MRegister \<Longrightarrow> vshape (runActiveBegin i s)" "mainAt i s = MFirstCheck \<Longrightarrow> vshape (firstCheck i s)"
    "mainAt i s = MFirstSend \<Longrightarrow> vshape (firstSend cfg e i s)" "mainAt i s = MFirstAfter \<Longrightarrow> vshape (firstAfter i s)"
    "mainAt i s = MSelect \<Longrightarrow> vshape (mainStop i s)" "mainAt i s = MJoin \<Longrightarrow> vshape (mainJoin i s)"
    "vshape (upd i closeTransport s)"
proof -
  have local: "vshape t" if "mainAt i s = m" "m \<noteq> MCandidate" "m \<noteq> MDone" "i < length (acts s) \<Longrightarrow> acts t = (acts s)[i := acts t ! i]"
      "dpc t = dpc s" "mach t = mach s" "sgen t = sgen s" "vrunOnce t = vrunOnce s" "sendQ t = sendQ s" "fwd t = fwd s"
      "i < length (acts s) \<Longrightarrow> aok (acts t ! i) \<and> amain (acts t ! i) \<noteq> MCandidate \<and> (aclosed (acts s ! i) \<longrightarrow> aclosed (acts t ! i)) \<and>
        agen (acts t ! i) = agen (acts s ! i) \<and> aepoch (acts t ! i) = aepoch (acts s ! i)"
    for t m
  proof -
    have i: "i < length (acts s)" "amain (acts s ! i) = m" using aok_main [OF assms that(1,2)] by auto
    show ?thesis by (rule vshape_local [OF assms that(4) [OF i(1)] that(5-8)]) (use that(1-3,9-11) i in \<open>auto simp: busy_def\<close>)
  qed
  note M = aok_main [OF assms]
  show "vshape (runActiveBegin i s)" if m: "mainAt i s = MRegister"
    by (rule local [OF m]) (use M [OF m] in \<open>auto simp: main_defs act_def aok_def\<close>)
  show "vshape (firstCheck i s)" if m: "mainAt i s = MFirstCheck"
    by (rule local [OF m]) (use M [OF m] in \<open>auto simp: main_defs act_def aok_def\<close>)
  show "vshape (firstSend cfg e i s)" if m: "mainAt i s = MFirstSend"
    by (rule local [OF m]) (use M [OF m] in \<open>auto simp: main_defs act_def aok_def split: send_result.splits\<close>)
  show "vshape (firstAfter i s)" if m: "mainAt i s = MFirstAfter"
    by (rule local [OF m]) (use M [OF m] in \<open>auto simp: main_defs act_def aok_def\<close>)
  show "vshape (mainStop i s)" if m: "mainAt i s = MSelect"
    by (rule local [OF m]) (use M [OF m] in \<open>auto simp: main_defs act_def aok_def\<close>)
  show "vshape (mainJoin i s)" if m: "mainAt i s = MJoin"
    by (rule local [OF m]) (use M [OF m] in \<open>auto simp: main_defs act_def aok_def\<close>)
  have "aok (closeTransport a)" if "aok a" for a
    using that by (cases "amain a") (auto simp: aok_def closeTransport_def)
  then show "vshape (upd i closeTransport s)"
    using vshapeD(1) [OF assms]
    by (intro vshape_local [OF assms, of _ i "closeTransport (acts s ! i)"]) (auto simp: closeTransport_def busy_def)
qed

text \<open>A step of the dispatcher while no transport runs and no unused connection is open.\<close>

lemma vshape_quiet:
  assumes "vshape s" "candidate (dpc s) = None" "owner (dpc s) = None \<or> (\<exists>i. owner (dpc s) = Some i \<and> amain (acts s ! i) = MDone)"
    "acts t = acts s" "owner (dpc t) = None" "candidate (dpc t) = None" "in_session (dpc t) \<Longrightarrow> sgen t = generation (mach t)"
    "\<not> vrunOnce t \<Longrightarrow> dpc t = DNone \<and> sendQ t = [] \<and> \<not> fwd t"
  shows "vshape t"
proof (rule vshapeI)
  fix k assume "k < length (acts t)"
  then have k: "k < length (acts s)" using assms(4) by simp
  show "aok (acts t ! k)" using vshapeD(1) [OF assms(1) k] assms(4) by simp
  show "owner (dpc t) = Some k" if "busy (acts t ! k)"
    using vshapeD(2) [OF assms(1) k] assms(3,4) that by (auto simp: busy_def)
  show "candidate (dpc t) = Some k" if "amain (acts t ! k) = MCandidate" "\<not> aclosed (acts t ! k)"
    using vshapeD(3) [OF assms(1) k] assms(2,4) that by auto
qed (use assms(5-8) in auto)

lemma vshape_frame:
  assumes "vshape s" "acts t = acts s" "dpc t = dpc s" "generation (mach t) = generation (mach s)"
    "transportEpoch (mach t) = transportEpoch (mach s)" "sgen t = sgen s"
    "vrunOnce t = vrunOnce s" "vrunOnce s \<or> (sendQ t = sendQ s \<and> fwd t = fwd s)"
  shows "vshape t"
proof -
  have "\<not> vrunOnce s \<longrightarrow> dpc s = DNone \<and> sendQ t = [] \<and> \<not> fwd t"
    using vshapeD(11-13) [OF assms(1)] assms(8) by auto
  then show ?thesis using assms(1) unfolding vshape_def assms(2-7) by (elim conjE) (intro conjI; assumption)
qed

lemma vrunOnce_dpc: "vshape s \<Longrightarrow> dpc s \<noteq> DNone \<Longrightarrow> vrunOnce s"
  using vshapeD(11) by blast

lemma vshape_env:
  assumes "vshape s"
  shows "vshape (snd (VisitorRun ok s))" "vshape (VisitorClose order s)" "vshape (closeNext s)" "vshape (s\<lparr>cpc := c\<rparr>)"
    "fwd s \<Longrightarrow> vshape (forwardFromUser p s)" "vshape (forwardToUser s)" "vshape (s\<lparr>fwd := False\<rparr>)"
proof -
  show "vshape (snd (VisitorRun ok s))"
  proof (cases "vclosed s \<or> vrunOnce s")
    case False
    then show ?thesis using vshapeD(11-13) [OF assms]
      by (intro vshape_quiet [OF assms]) (auto simp: VisitorRun_def in_session_def Let_def)
  qed (use assms in \<open>auto simp: VisitorRun_def\<close>)
  show "vshape (VisitorClose order s)" by (rule vshape_frame [OF assms]) (auto simp: VisitorClose_def)
  show cpc: "vshape (s\<lparr>cpc := c\<rparr>)" for c by (rule vshape_frame [OF assms]) auto
  have "vshape ((upd i closeTransport s)\<lparr>cpc := c\<rparr>)" for i c
    by (rule vshape_frame [OF vshape_main(7) [OF assms]]) auto
  then show "vshape (closeNext s)"
    using assms cpc by (auto simp: closeNext_def split: close_pc.splits list.splits)
  show "vshape (forwardFromUser p s)" if "fwd s"
    by (rule vshape_frame [OF assms]) (use that vshapeD(13) [OF assms] in \<open>auto simp: forwardFromUser_def\<close>)
  show "vshape (forwardToUser s)" by (rule vshape_frame [OF assms]) (auto simp: forwardToUser_def)
  show "vshape (s\<lparr>fwd := False\<rparr>)"
    by (rule vshape_frame [OF assms]) (use vshapeD(13) [OF assms] in auto)
qed

lemma vshape_disp:
  assumes "vshape s"
  shows "dpc s = DSelect \<Longrightarrow> vshape (takeFirst s)" "dpc s = DSelect \<Longrightarrow> vshape (s\<lparr>dpc := DExit\<rparr>)"
    "dpc s = DTop \<Longrightarrow> vshape (unlessClosed DDialing s)" "dpc s = DAfterP2P \<Longrightarrow> vshape (unlessClosed DRelayDial s)"
    "dpc s = DPause \<Longrightarrow> vshape (pauseEnd s)" "dpc s = DPause \<Longrightarrow> vshape (s\<lparr>dpc := DSelect\<rparr>)"
proof -
  note run = vrunOnce_dpc [OF assms] and g = vshapeD(10) [OF assms]
  show "vshape (takeFirst s)" if d: "dpc s = DSelect"
  proof (cases "sendQ s")
    case (Cons p q)
    then show ?thesis using run d
      by (intro vshape_quiet [OF assms]) (auto simp: takeFirst_def BeginSession_def Let_def)
  qed (use assms in \<open>simp add: takeFirst_def\<close>)
  show "vshape (s\<lparr>dpc := DExit\<rparr>)" if "dpc s = DSelect"
    by (rule vshape_quiet [OF assms]) (use that run in \<open>auto simp: in_session_def\<close>)
  show "vshape (unlessClosed DDialing s)" if "dpc s = DTop"
    by (rule vshape_quiet [OF assms]) (use that run g in \<open>auto simp: in_session_def unlessClosed_def\<close>)
  show "vshape (unlessClosed DRelayDial s)" if "dpc s = DAfterP2P"
    by (rule vshape_quiet [OF assms]) (use that run g in \<open>auto simp: in_session_def unlessClosed_def\<close>)
  show "vshape (pauseEnd s)" if "dpc s = DPause"
    by (rule vshape_quiet [OF assms]) (use that run g in \<open>auto simp: in_session_def pauseEnd_def\<close>)
  show "vshape (s\<lparr>dpc := DSelect\<rparr>)" if "dpc s = DPause"
    by (rule vshape_quiet [OF assms]) (use that run in \<open>auto simp: in_session_def\<close>)
qed


lemma dialP2P_machine:
  assumes "dialP2P g r m = (ok, m')"
  shows "generation m' = generation m" "transportEpoch m' = transportEpoch m"
  using assms by (auto simp: dialP2P_def setPhase_def SetPhaseForGeneration_def Let_def split: if_splits prod.splits)

lemma dialRelay_Some:
  "dialRelay cfg a b g m = (Some (rw, e), m') \<longleftrightarrow>
   a \<and> b \<and> g = generation m \<and> NewUDPPacketReadWriter (vwire cfg) (vcodec cfg) = Inr rw \<and>
   e = transportEpoch m + 1 \<and> m' = m\<lparr>mphase := PhaseRelayReady, transportEpoch := e\<rparr>"
  by (auto simp: dialRelay_def machine_defs split: if_splits prod.splits sum.splits)

lemma dialRelay_None:
  assumes "dialRelay cfg a b g m = (None, m')" "g = generation m"
  shows "generation m' = generation m" "transportEpoch m' = transportEpoch m"
  using assms by (auto simp: dialRelay_def machine_defs split: if_splits prod.splits sum.splits)

text \<open>A new transport is appended; if it runs at once it is the dispatcher's.\<close>

lemma vshape_append:
  assumes s: "vshape s" "candidate (dpc s) = None" and t: "acts t = acts s @ [a]" "generation (mach t) = generation (mach s)"
      "sgen t = sgen s" "vrunOnce t" "aok a"
    and old: "owner (dpc t) = owner (dpc s) \<and> transportEpoch (mach t) = transportEpoch (mach s) \<and>
         candidate (dpc t) = Some (length (acts s)) \<and> amain a = MCandidate \<or>
       owner (dpc s) = None \<and> owner (dpc t) = Some (length (acts s)) \<and> candidate (dpc t) = None \<and> busy a \<and>
         agen a = generation (mach t) \<and> aepoch a = transportEpoch (mach t)"
    and g: "in_session (dpc s)"
  shows "vshape t"
proof (rule vshapeI)
  fix k assume "k < length (acts t)"
  then consider "k < length (acts s)" "acts t ! k = acts s ! k" | "k = length (acts s)" "acts t ! k = a"
    using t(1) by (cases "k < length (acts s)") (auto simp: nth_append)
  note K = this
  show "aok (acts t ! k)" by (cases rule: K) (use vshapeD(1) [OF s(1)] t(5) in auto)
  show "owner (dpc t) = Some k" if "busy (acts t ! k)"
    by (cases rule: K) (use vshapeD(2) [OF s(1)] that old in \<open>auto simp: busy_def\<close>)
  show "candidate (dpc t) = Some k" if "amain (acts t ! k) = MCandidate" "\<not> aclosed (acts t ! k)"
    by (cases rule: K) (use vshapeD(3) [OF s(1)] that old s(2) in \<open>auto simp: busy_def\<close>)
next
  fix k assume k: "owner (dpc t) = Some k"
  show "k < length (acts t) \<and> amain (acts t ! k) \<noteq> MCandidate \<and> agen (acts t ! k) = generation (mach t) \<and> aepoch (acts t ! k) = transportEpoch (mach t)"
  proof (cases "k < length (acts s)")
    case True
    then show ?thesis using old k t(1,2) vshapeD(5-7) [OF s(1)] by (auto simp: nth_append)
  next
    case False
    then show ?thesis using old k t(1,2) vshapeD(4) [OF s(1)] by (auto simp: nth_append busy_def)
  qed
next
  fix j assume "candidate (dpc t) = Some j"
  then show "j < length (acts t) \<and> amain (acts t ! j) = MCandidate" using old t(1) by auto
qed (use vshapeD(10) [OF s(1) g] t in auto)

lemma aok_new [simp]: "aok (newTransport k)" "aok (callRunActive g e p (newTransport k))"
  by (simp_all add: aok_def newTransport_def callRunActive_def)

lemma amain_new [simp]: "amain (newTransport k) = MCandidate" "amain (callRunActive g e p a) = MRegister"
  "agen (callRunActive g e p a) = g" "aepoch (callRunActive g e p a) = e" "akind (callRunActive g e p a) = akind a"
  "apending (callRunActive g e p a) = p" "aclosed (newTransport k) = False" "akind (newTransport k) = k"
  by (simp_all add: newTransport_def callRunActive_def)

lemma vshape_dial:
  assumes "vshape s" "dpc s = DDialing" shows "vshape (sessionDial r s)"
proof -
  note run = vrunOnce_dpc [OF assms(1)] and g = vshapeD(10) [OF assms(1)]
  obtain ok m where d: "dialP2P (sgen s) r (mach s) = (ok, m)" by (cases "dialP2P (sgen s) r (mach s)") auto
  note m = dialP2P_machine [OF d]
  show ?thesis
  proof (cases ok)
    case True
    show ?thesis
      by (rule vshape_append [OF assms(1), where a = "newTransport P2P"])
         (use d m True assms(2) run g in \<open>auto simp: sessionDial_def in_session_def\<close>)
  next
    case False
    show ?thesis
      by (rule vshape_quiet [OF assms(1)])
         (use d m False assms(2) run g in \<open>auto simp: sessionDial_def in_session_def\<close>)
  qed
qed

lemma vshape_relayDial:
  assumes "vshape s" "dpc s = DRelayDial" shows "vshape (relayDial cfg a b s)"
proof -
  note run = vrunOnce_dpc [OF assms(1)] and g = vshapeD(10) [OF assms(1)]
  have G: "sgen s = generation (mach s)" using g assms(2) by (simp add: in_session_def)
  obtain r m where d: "dialRelay cfg a b (sgen s) (mach s) = (r, m)" by (cases "dialRelay cfg a b (sgen s) (mach s)") auto
  show ?thesis
  proof (cases r)
    case None
    show ?thesis
      by (rule vshape_quiet [OF assms(1)])
         (use d None assms(2) run G dialRelay_None [OF d [unfolded None]] in \<open>auto simp: relayDial_def in_session_def\<close>)
  next
    case (Some q)
    then obtain rw e where q: "r = Some (rw, e)" by (cases q) auto
    show ?thesis
      by (rule vshape_append [OF assms(1), where a = "callRunActive (sgen s) e (spend s) (newTransport (Relay rw))"])
         (use d q assms(2) run G dialRelay_Some [of cfg a b "sgen s" "mach s" rw e m] in
           \<open>auto simp: relayDial_def in_session_def busy_def\<close>)
  qed
qed


text \<open>The dispatcher moves on but keeps its transport.\<close>

lemma vshape_keep:
  assumes "vshape s" "acts t = acts s" "owner (dpc t) = owner (dpc s)" "candidate (dpc t) = candidate (dpc s)"
    "in_session (dpc s)" "generation (mach t) = generation (mach s)"
    "transportEpoch (mach t) = transportEpoch (mach s)" "sgen t = sgen s" "vrunOnce t"
  shows "vshape t"
proof -
  have "in_session (dpc t) \<longrightarrow> sgen s = generation (mach s)" using vshapeD(10) [OF assms(1,5)] by simp
  moreover have "\<not> vrunOnce t \<longrightarrow> dpc t = DNone \<and> sendQ t = [] \<and> \<not> fwd t" using assms(9) by simp
  ultimately show ?thesis using assms(1) unfolding vshape_def assms(2-4,6-8) by (elim conjE) (intro conjI; assumption)
qed

lemma vshape_cancel: "vshape s \<Longrightarrow> vshape (upd i (\<lambda>a. a\<lparr>acancel := True\<rparr>) s)"
proof (rule vshape_local [of s _ i "(acts s ! i)\<lparr>acancel := True\<rparr>"])
  assume s: "vshape s" and i: "i < length (acts s)"
  show "aok ((acts s ! i)\<lparr>acancel := True\<rparr>)" using vshapeD(1) [OF s i] by (cases "amain (acts s ! i)") (auto simp: aok_def)
qed (auto simp: busy_def)

text \<open>The unused connection becomes the dispatcher's transport, or is closed.\<close>

lemma vshape_activate:
  assumes s: "vshape s" "candidate (dpc s) = Some j" "owner (dpc s) = None \<or> (\<exists>i. owner (dpc s) = Some i \<and> amain (acts s ! i) = MDone)"
    and t: "acts t = (acts s)[j := callRunActive (generation (mach t)) (transportEpoch (mach t)) p (acts s ! j)]"
      "owner (dpc t) = Some j" "candidate (dpc t) = None" "sgen t = generation (mach t)" "vrunOnce t"
  shows "vshape t"
proof (rule vshapeI)
  fix k assume "k < length (acts t)"
  then have k: "k < length (acts s)" using t(1) by simp
  note j = vshapeD(8,9) [OF s(1,2)]
  note A = vshapeD(1-3) [OF s(1) k]
  have aj: "aok (callRunActive g e p (acts s ! j))" for g e
    using vshapeD(1) [OF s(1) j(1)] j(2) by (simp add: aok_def callRunActive_def)
  show "aok (acts t ! k)" using A(1) aj j(1) by (cases "k = j") (simp_all add: t(1))
  show "owner (dpc t) = Some k" if "busy (acts t ! k)"
    using A(2) that s(3) t(2) by (cases "k = j") (auto simp: t(1) busy_def)
  show "candidate (dpc t) = Some k" if "amain (acts t ! k) = MCandidate" "\<not> aclosed (acts t ! k)"
    using A(3) that s(2) j(1) by (cases "k = j") (auto simp: t(1))
qed (use t vshapeD(8) [OF s(1,2)] in auto)

lemma vshape_discard:
  assumes s: "vshape s" "candidate (dpc s) = Some j" "owner (dpc s) = None \<or> (\<exists>i. owner (dpc s) = Some i \<and> amain (acts s ! i) = MDone)"
    and t: "acts t = (acts s)[j := closeTransport (acts s ! j)]" "owner (dpc t) = None" "candidate (dpc t) = None"
      "in_session (dpc t) \<Longrightarrow> sgen t = generation (mach t)" "vrunOnce t"
  shows "vshape t"
proof (rule vshapeI)
  fix k assume "k < length (acts t)"
  then have k: "k < length (acts s)" using t(1) by simp
  note j = vshapeD(8,9) [OF s(1,2)]
  note A = vshapeD(1-3) [OF s(1) k]
  have aj: "aok (closeTransport (acts s ! j))"
    using vshapeD(1) [OF s(1) j(1)] j(2) by (simp add: aok_def closeTransport_def)
  show "aok (acts t ! k)" using A(1) aj j(1) by (cases "k = j") (simp_all add: t(1))
  show "owner (dpc t) = Some k" if "busy (acts t ! k)"
    using A(2) that s(3) j by (cases "k = j") (auto simp: t(1) busy_def closeTransport_def)
  show "candidate (dpc t) = Some k" if "amain (acts t ! k) = MCandidate" "\<not> aclosed (acts t ! k)"
    using A(3) that s(2) j(1) by (cases "k = j") (auto simp: t(1) closeTransport_def)
qed (use t in auto)

lemma BeginTransport_now: "BeginTransport (generation m) p m = ((transportEpoch m + 1, True), m\<lparr>mphase := p, transportEpoch := transportEpoch m + 1\<rparr>)"
  by (simp add: BeginTransport_def)

lemma in_session_gen: "vshape s \<Longrightarrow> dpc s \<notin> {DNone, DSelect, DExit} \<Longrightarrow> sgen s = generation (mach s)"
  using vshapeD(10) by (simp add: in_session_def)

lemma vshape_sessionActivate:
  assumes "vshape s" "dpc s = DActivate i" shows "vshape (sessionActivate i s)"
proof -
  have g: "sgen s = generation (mach s)" by (rule in_session_gen [OF assms(1)]) (simp add: assms(2))
  show ?thesis
    by (rule vshape_activate [OF assms(1), of i _ "spend s"])
       (use assms(2) g vrunOnce_dpc [OF assms(1)] in \<open>auto simp: sessionActivate_def BeginTransport_now\<close>)
qed

lemma vshape_swap:
  assumes "vshape s" "dpc s = DSwap i j" "mainAt i s = MDone" shows "vshape (swapTransports i j s)"
proof -
  have g: "sgen s = generation (mach s)" by (rule in_session_gen [OF assms(1)]) (simp add: assms(2))
  have i: "amain (acts s ! i) = MDone" using mainAtD [OF assms(3)] by simp
  show ?thesis
  proof (cases "vclosed s")
    case True
    show ?thesis
      by (rule vshape_discard [OF assms(1), of j])
         (use assms(2) g i True vrunOnce_dpc [OF assms(1)] in \<open>auto simp: swapTransports_def takeResult_def\<close>)
  next
    case False
    show ?thesis
      by (rule vshape_activate [OF assms(1), of j _ "apending (act i s)"])
         (use assms(2) g i False vrunOnce_dpc [OF assms(1)] in \<open>auto simp: swapTransports_def takeResult_def BeginTransport_now\<close>)
  qed
qed

lemma vshape_relay:
  assumes "vshape s" "dpc s = DRelay i n"
  shows "vshape (relayStop i s)" "mainAt i s = MDone \<Longrightarrow> vshape (relayEnded i s)" "vshape (probe i n s)"
proof -
  have g: "sgen s = generation (mach s)" by (rule in_session_gen [OF assms(1)]) (simp add: assms(2))
  note run = vrunOnce_dpc [OF assms(1)]
  show "vshape (relayStop i s)"
    by (rule vshape_keep [OF vshape_cancel [OF assms(1), of i]])
       (use assms(2) run in \<open>auto simp: relayStop_def in_session_def\<close>)
  show "vshape (relayEnded i s)" if "mainAt i s = MDone"
    by (rule vshape_quiet [OF assms(1)])
       (use mainAtD [OF that] assms(2) g run in \<open>auto simp: relayEnded_def takeResult_def in_session_def machine_defs\<close>)
  show "vshape (probe i n s)"
    by (rule vshape_keep [OF assms(1)]) (use assms(2) g run in \<open>auto simp: probe_def in_session_def machine_defs\<close>)
qed

lemma vshape_probeDial:
  assumes "vshape s" "dpc s = DProbe i n" shows "vshape (probeDial r i n s)"
proof -
  have g: "sgen s = generation (mach s)" by (rule in_session_gen [OF assms(1)]) (simp add: assms(2))
  note run = vrunOnce_dpc [OF assms(1)]
  obtain ok m where d: "dialP2P (sgen s) r (mach s) = (ok, m)" by (cases "dialP2P (sgen s) r (mach s)") auto
  note m = dialP2P_machine [OF d]
  show ?thesis
  proof (cases ok)
    case True
    show ?thesis
      by (rule vshape_append [OF vshape_cancel [OF assms(1), of i], where a = "newTransport P2P"])
         (use d m True assms(2) run g in \<open>auto simp: probeDial_def in_session_def Let_def\<close>)
  next
    case False
    show ?thesis
      by (rule vshape_keep [OF assms(1)])
         (use d m False assms(2) run g in \<open>auto simp: probeDial_def in_session_def machine_defs\<close>)
  qed
qed

lemma vshape_result:
  assumes "vshape s" "owner (dpc s) = Some i" "candidate (dpc s) = None" "mainAt i s = MDone" "owner d = None" "candidate d = None"
    "in_session (dpc s)" "in_session d"
  shows "vshape ((takeResult i s)\<lparr>dpc := d\<rparr>)"
  by (rule vshape_quiet [OF assms(1)])
     (use assms mainAtD [OF assms(4)] vshapeD(10) [OF assms(1)] vrunOnce_dpc [OF assms(1)] in
       \<open>auto simp: takeResult_def in_session_def\<close>)

lemma vshape_start: "vshape vstart"
  by (simp add: vshape_def vstart_def in_session_def)

lemma vshape_event: assumes "vshape s" "vguard e s" shows "vshape (vhappen cfg e s)"
proof (cases e)
  case (VP2PDone i) then show ?thesis using assms vshape_result [OF assms(1), of i DAfterP2P] by (simp add: in_session_def)
next
  case (VStopped i) then show ?thesis using assms vshape_result [OF assms(1), of i DPause] by (simp add: in_session_def)
next
  case (VRecovered i) then show ?thesis using assms vshape_result [OF assms(1), of i DTop] by (simp add: in_session_def)
qed (use assms in \<open>auto simp del: One_nat_def intro: vshape_env vshape_disp vshape_dial vshape_relayDial vshape_sessionActivate vshape_swap
      vshape_relay vshape_probeDial vshape_main vshape_reader vshape_sender\<close>)

section \<open>No datagram is lost, repeated or overtaken\<close>

fun opkt :: "outcome \<Rightarrow> udp_packet" where
  "opkt (Sent i p) = p"
| "opkt (Oversized i p) = p"

fun oact :: "outcome \<Rightarrow> nat" where
  "oact (Sent i p) = i"
| "oact (Oversized i p) = i"

definition opt_list :: "'a option \<Rightarrow> 'a list" where
  "opt_list x = (case x of None \<Rightarrow> [] | Some p \<Rightarrow> [p])"

lemma opt_list_simps [simp]: "opt_list None = []" "opt_list (Some p) = [p]"
  by (simp_all add: opt_list_def)

fun sheld :: "sender_pc \<Rightarrow> udp_packet option \<Rightarrow> udp_packet list" where
  "sheld (STaken p) h = [p]"
| "sheld (SCheck p) h = [p]"
| "sheld (SSend p) h = [p]"
| "sheld _ h = opt_list h"

definition aheld :: "active \<Rightarrow> udp_packet list" where
  "aheld a = (if amain a = MSelect \<or> amain a = MJoin then sheld (asender a) (ahandoff a) else opt_list (apending a))"

text \<open>The datagram that left \<^verbatim>\<open>sendCh\<close> and whose fate is open: with the dispatcher's transport or with the dispatcher.\<close>

definition held :: "visitor \<Rightarrow> udp_packet list" where
  "held s =
     (case owner (dpc s) of
        Some i \<Rightarrow> aheld (acts s ! i)
      | None \<Rightarrow> if in_session (dpc s) then opt_list (spend s) else [])"

definition line :: "visitor \<Rightarrow> udp_packet list" where
  "line s = map opkt (sent s) @ held s @ sendQ s"

definition registered :: "active \<Rightarrow> bool" where
  "registered a \<longleftrightarrow> busy a \<and> amain a \<noteq> MRegister"

text \<open>Once the visitor is closed only a transport that has been registered before can still send.\<close>

definition live :: "visitor \<Rightarrow> bool" where
  "live s \<longleftrightarrow> \<not> vclosed s \<or> (\<exists>i. owner (dpc s) = Some i \<and> registered (acts s ! i))"

definition fifo :: "visitor \<Rightarrow> bool" where
  "fifo s \<longleftrightarrow> (live s \<longrightarrow> line s = offered s) \<and> prefix (map opkt (sent s)) (offered s)"

lemma fifoI: "(live s \<Longrightarrow> line s = offered s) \<Longrightarrow> (\<not> live s \<Longrightarrow> prefix (map opkt (sent s)) (offered s)) \<Longrightarrow> fifo s"
  unfolding fifo_def line_def by (metis prefixI)

lemma fifo_local:
  assumes "fifo s" "owner (dpc s) = Some i" "live s" "dpc t = dpc s" "offered t = offered s"
    "map opkt (sent t) @ aheld (acts t ! i) @ sendQ t = map opkt (sent s) @ aheld (acts s ! i) @ sendQ s"
  shows "fifo t"
proof -
  have "line t = offered t" using assms by (simp add: fifo_def line_def held_def)
  then show ?thesis unfolding fifo_def line_def by (metis prefixI)
qed

lemma fifo_disp:
  assumes "fifo s" "sent t = sent s" "offered t = offered s" "vclosed t = vclosed s"
    "\<not> vclosed s \<or> live t \<Longrightarrow> held t @ sendQ t = held s @ sendQ s" "vclosed s \<Longrightarrow> live t \<Longrightarrow> live s"
  shows "fifo t"
proof (rule fifoI)
  show "line t = offered t" if "live t"
    using assms that unfolding fifo_def line_def live_def by metis
  show "prefix (map opkt (sent t)) (offered t)" using assms(1-3) by (simp add: fifo_def)
qed

lemma working_live:
  assumes "vshape s" "working i s" shows "owner (dpc s) = Some i" "live s"
proof -
  show "owner (dpc s) = Some i" using workingD [OF assms(2)] vshapeD(2) [OF assms(1), of i] by (auto simp: busy_def)
  then show "live s" using workingD [OF assms(2)] by (auto simp: live_def registered_def busy_def)
qed

lemma main_live:
  assumes "vshape s" "mainAt i s = m" "m \<notin> {MCandidate, MRegister, MDone}" shows "owner (dpc s) = Some i" "live s"
proof -
  have i: "i < length (acts s)" "amain (acts s ! i) = m" using mainAtD [OF assms(2)] assms(3) by auto
  show "owner (dpc s) = Some i" using i vshapeD(2) [OF assms(1), of i] assms(3) by (auto simp: busy_def)
  then show "live s" using i assms(3) by (auto simp: live_def registered_def busy_def)
qed

lemma fifo_reader:
  assumes "vshape s" "fifo s" "working i s"
  shows "fifo (readerCheck i s)" "fifo (readerReceive e i s)" "fifo (readerRecheck i s)" "fifo (readerPut i s)" "fifo (readerSkip i s)"
proof -
  note L = working_live [OF assms(1,3)] and W = workingD [OF assms(3)]
  have local: "fifo t" if "acts t = (acts s)[i := (acts s ! i)\<lparr>areader := r\<rparr>]" "dpc t = dpc s" "sendQ t = sendQ s" "offered t = offered s"
      "sent t = sent s" for t r
    by (rule fifo_local [OF assms(2) L]) (use that W in \<open>auto simp: aheld_def\<close>)
  show "fifo (readerCheck i s)" unfolding readerCheck_def by (rule local) auto
  show "fifo (readerReceive e i s)" unfolding readerReceive_def by (auto split: option.splits intro!: local assms)
  show "fifo (readerRecheck i s)" unfolding readerRecheck_def by (auto split: reader_pc.splits intro!: local assms)
  show "fifo (readerPut i s)" unfolding readerPut_def by (auto split: reader_pc.splits intro!: local assms)
  show "fifo (readerSkip i s)" unfolding readerSkip_def by (rule local) auto
qed

lemma fifo_sender:
  assumes "vshape s" "fifo s" "working i s"
  shows "asender (act i s) = SSelect \<Longrightarrow> fifo (senderTake i s)" "asender (act i s) = SSelect \<Longrightarrow> fifo (senderQuit i s)"
    "fifo (senderRecheck i s)" "fifo (senderCheck i s)" "fifo (senderSend cfg e i s)"
    "asender (act i s) = SAfter \<Longrightarrow> fifo (senderAfter i s)"
proof -
  note L = working_live [OF assms(1,3)] and W = workingD [OF assms(3)] aok_working [OF assms(1,3)]
  note local = fifo_local [OF assms(2) L]
  show "asender (act i s) = SSelect \<Longrightarrow> fifo (senderTake i s)"
    by (cases "sendQ s") (use W assms(2) in \<open>auto simp: act_def aheld_def senderTake_def intro!: local\<close>)
  show "asender (act i s) = SSelect \<Longrightarrow> fifo (senderQuit i s)"
    by (rule local) (use W in \<open>auto simp: act_def aheld_def senderQuit_def\<close>)
  show "fifo (senderRecheck i s)"
    by (cases "asender (act i s)") (use W assms(2) in \<open>auto simp: act_def aheld_def sender_defs intro!: local\<close>)
  show "fifo (senderCheck i s)"
    by (cases "asender (act i s)") (use W assms(2) in \<open>auto simp: act_def aheld_def sender_defs intro!: local\<close>)
  show "fifo (senderSend cfg e i s)"
    by (cases "asender (act i s)") (use W assms(2) in \<open>auto simp: act_def aheld_def sender_defs intro!: local split: send_result.splits\<close>)
  show "asender (act i s) = SAfter \<Longrightarrow> fifo (senderAfter i s)"
    by (rule local) (use W in \<open>auto simp: act_def aheld_def senderAfter_def\<close>)
qed


lemma fifo_main:
  assumes "vshape s" "fifo s"
  shows "mainAt i s = MRegister \<Longrightarrow> fifo (runActiveBegin i s)" "mainAt i s = MFirstCheck \<Longrightarrow> fifo (firstCheck i s)"
    "mainAt i s = MFirstSend \<Longrightarrow> fifo (firstSend cfg e i s)" "mainAt i s = MFirstAfter \<Longrightarrow> fifo (firstAfter i s)"
    "mainAt i s = MSelect \<Longrightarrow> fifo (mainStop i s)"
    "mainAt i s = MJoin \<Longrightarrow> asender (act i s) = SExit \<Longrightarrow> fifo (mainJoin i s)"
proof -
  note M = aok_main [OF assms(1)]
  show "fifo (runActiveBegin i s)" if m: "mainAt i s = MRegister"
  proof -
    have i: "i < length (acts s)" "owner (dpc s) = Some i" using M [OF m] vshapeD(2) [OF assms(1), of i] by (auto simp: busy_def)
    show ?thesis
    proof (cases "vclosed s")
      case True
      show ?thesis
        by (rule fifo_disp [OF assms(2)])
           (use True i in \<open>auto simp: runActiveBegin_def registerActiveCloser_def live_def registered_def busy_def\<close>)
    next
      case False
      then have "live s" by (simp add: live_def)
      show ?thesis
        by (rule fifo_local [OF assms(2) i(2) \<open>live s\<close>])
           (use M [OF m] i False in \<open>auto simp: runActiveBegin_def registerActiveCloser_def startWorkers_def aheld_def act_def\<close>)
    qed
  qed
  have local: "fifo t" if "mainAt i s = m" "m \<notin> {MCandidate, MRegister, MDone}" "dpc t = dpc s" "offered t = offered s"
    "map opkt (sent t) @ aheld (acts t ! i) @ sendQ t = map opkt (sent s) @ aheld (acts s ! i) @ sendQ s" for t m
    using fifo_local [OF assms(2) main_live [OF assms(1) that(1,2)]] that by auto
  show "fifo (firstCheck i s)" if m: "mainAt i s = MFirstCheck"
    by (rule local [OF m]) (use M [OF m] in \<open>auto simp: main_defs act_def aheld_def\<close>)
  show "fifo (firstSend cfg e i s)" if m: "mainAt i s = MFirstSend"
    by (rule local [OF m]) (use M [OF m] in \<open>auto simp: main_defs act_def aheld_def split: send_result.splits\<close>)
  show "fifo (firstAfter i s)" if m: "mainAt i s = MFirstAfter"
    by (rule local [OF m]) (use M [OF m] in \<open>auto simp: main_defs act_def aheld_def\<close>)
  show "fifo (mainStop i s)" if m: "mainAt i s = MSelect"
    by (rule local [OF m]) (use M [OF m] in \<open>auto simp: main_defs act_def aheld_def\<close>)
  show "fifo (mainJoin i s)" if m: "mainAt i s = MJoin" "asender (act i s) = SExit"
    by (rule local [OF m(1)]) (use M [OF m(1)] m(2) in \<open>auto simp: main_defs act_def aheld_def\<close>)
qed

lemma aheld_close [simp]: "aheld (closeTransport a) = aheld a" "registered (closeTransport a) = registered a"
  "aheld (a\<lparr>acancel := c\<rparr>) = aheld a" "registered (a\<lparr>acancel := c\<rparr>) = registered a"
  by (simp_all add: aheld_def closeTransport_def registered_def busy_def)

lemma nth_upd: "(acts s)[i := f (acts s ! i)] ! k = (if k = i \<and> i < length (acts s) then f (acts s ! i) else acts s ! k)"
  by (cases "k = i"; cases "i < length (acts s)") (auto simp: list_update_beyond)

lemma fifo_close: assumes "fifo s" shows "fifo (upd i closeTransport s)"
  by (rule fifo_disp [OF assms]) (auto simp: held_def live_def nth_upd split: option.splits if_splits)

lemma held_cong: "acts t = acts s \<Longrightarrow> dpc t = dpc s \<Longrightarrow> spend t = spend s \<Longrightarrow> held t = held s"
  by (simp add: held_def split: option.split)

lemma fifo_cong:
  assumes "fifo s" "sent t = sent s" "offered t = offered s" "vclosed t = vclosed s" "sendQ t = sendQ s" "acts t = acts s" "dpc t = dpc s"
    "spend t = spend s"
  shows "fifo t"
proof -
  have "held t = held s" "live t = live s" unfolding held_def live_def assms(4,6-8) by (rule refl)+
  then show ?thesis by (intro fifo_disp [OF assms(1-4)]) (simp_all add: assms(5))
qed

lemma fifo_env:
  assumes "vshape s" "fifo s"
  shows "fifo (snd (VisitorRun ok s))" "fifo (VisitorClose order s)" "fifo (closeNext s)" "fifo (s\<lparr>cpc := c\<rparr>)"
    "fifo (forwardFromUser p s)" "fifo (forwardToUser s)" "fifo (s\<lparr>fwd := False\<rparr>)"
proof -
  show "fifo (snd (VisitorRun ok s))"
  proof (cases "vclosed s \<or> vrunOnce s")
    case False
    then show ?thesis using vshapeD(11) [OF assms(1)]
      by (intro fifo_disp [OF assms(2)]) (auto simp: VisitorRun_def Let_def held_def in_session_def)
  qed (use assms in \<open>auto simp: VisitorRun_def\<close>)
  show "fifo (VisitorClose order s)"
  proof (cases "vclosed s")
    case False
    then have "line s = offered s" using assms(2) by (simp add: fifo_def live_def)
    moreover have "held (VisitorClose order s) = held s" by (rule held_cong) (simp_all add: VisitorClose_def)
    ultimately show ?thesis using assms(2) by (simp add: VisitorClose_def fifo_def line_def)
  qed (use assms in \<open>simp add: VisitorClose_def\<close>)
  show c: "fifo (s\<lparr>cpc := c\<rparr>)" for c by (rule fifo_cong [OF assms(2)]) auto
  have "fifo ((upd i closeTransport s)\<lparr>cpc := c\<rparr>)" for i c
    by (rule fifo_cong [OF fifo_close [OF assms(2)]]) auto
  with c show "fifo (closeNext s)" using assms by (auto simp: closeNext_def split: close_pc.splits list.splits)
  show "fifo (forwardFromUser p s)"
  proof -
    have "held (forwardFromUser p s) = held s" by (rule held_cong) (simp_all add: forwardFromUser_def)
    then show ?thesis using assms(2) by (auto simp: forwardFromUser_def fifo_def line_def live_def)
  qed
  show "fifo (forwardToUser s)" by (rule fifo_cong [OF assms(2)]) (auto simp: forwardToUser_def)
  show "fifo (s\<lparr>fwd := False\<rparr>)" by (rule fifo_cong [OF assms(2)]) auto
qed

text \<open>The dispatcher between two transports.\<close>

lemma fifo_between:
  assumes "fifo s" "sent t = sent s" "offered t = offered s" "vclosed t = vclosed s" "sendQ t = sendQ s"
    "owner (dpc s) = None" "in_session (dpc s)" "owner (dpc t) = None" "spend t = spend s" "\<not> vclosed s \<Longrightarrow> in_session (dpc t)"
  shows "fifo t"
  by (rule fifo_disp [OF assms(1-4)]) (use assms in \<open>auto simp: held_def live_def\<close>)

lemma fifo_disp_events:
  assumes "vshape s" "fifo s"
  shows "dpc s = DSelect \<Longrightarrow> fifo (takeFirst s)" "dpc s = DSelect \<Longrightarrow> fifo (s\<lparr>dpc := DExit\<rparr>)"
    "dpc s = DTop \<Longrightarrow> fifo (unlessClosed DDialing s)" "dpc s = DAfterP2P \<Longrightarrow> fifo (unlessClosed DRelayDial s)"
    "dpc s = DPause \<Longrightarrow> fifo (pauseEnd s)" "dpc s = DPause \<Longrightarrow> vclosed s \<Longrightarrow> fifo (s\<lparr>dpc := DSelect\<rparr>)"
    "dpc s = DDialing \<Longrightarrow> fifo (sessionDial r s)"
proof -
  note between = fifo_between [OF assms(2)]
  show "dpc s = DSelect \<Longrightarrow> fifo (takeFirst s)"
    by (rule fifo_disp [OF assms(2)])
       (auto simp: takeFirst_def Let_def held_def live_def in_session_def split: list.splits prod.splits)
  show "dpc s = DSelect \<Longrightarrow> fifo (s\<lparr>dpc := DExit\<rparr>)"
    by (rule fifo_disp [OF assms(2)]) (auto simp: held_def live_def in_session_def)
  show "dpc s = DTop \<Longrightarrow> fifo (unlessClosed DDialing s)" by (rule between) (auto simp: unlessClosed_def in_session_def)
  show "dpc s = DAfterP2P \<Longrightarrow> fifo (unlessClosed DRelayDial s)" by (rule between) (auto simp: unlessClosed_def in_session_def)
  show "dpc s = DPause \<Longrightarrow> fifo (pauseEnd s)" by (rule between) (auto simp: pauseEnd_def in_session_def)
  show "dpc s = DPause \<Longrightarrow> vclosed s \<Longrightarrow> fifo (s\<lparr>dpc := DSelect\<rparr>)" by (rule between) (auto simp: in_session_def)
  show "dpc s = DDialing \<Longrightarrow> fifo (sessionDial r s)"
    by (rule between) (auto simp: sessionDial_def in_session_def split: prod.splits bool.splits)
qed


lemma fifo_dispatch:
  assumes "vshape s" "fifo s"
  shows "dpc s = DActivate i \<Longrightarrow> fifo (sessionActivate i s)" "dpc s = DRelayDial \<Longrightarrow> fifo (relayDial cfg a b s)"
    "dpc s = DRelay i n \<Longrightarrow> fifo (relayStop i s)" "dpc s = DRelay i n \<Longrightarrow> fifo (probe i n s)"
    "dpc s = DProbe i n \<Longrightarrow> fifo (probeDial r i n s)"
proof -
  have gen: "sgen s = generation (mach s)" if "in_session (dpc s)" using vshapeD(10) [OF assms(1) that] .
  show "fifo (sessionActivate i s)" if d: "dpc s = DActivate i"
  proof (rule fifo_disp [OF assms(2)])
    have i: "i < length (acts s)" using vshapeD(8) [OF assms(1)] d by simp
    have g: "sgen s = generation (mach s)" using gen d by (simp add: in_session_def)
    show "held (sessionActivate i s) @ sendQ (sessionActivate i s) = held s @ sendQ s"
      using d i g by (simp add: sessionActivate_def BeginTransport_now held_def in_session_def aheld_def)
    show "live (sessionActivate i s) \<Longrightarrow> vclosed s \<Longrightarrow> live s"
      using d i g by (simp add: sessionActivate_def BeginTransport_now live_def registered_def)
  qed (simp_all add: sessionActivate_def split: prod.splits bool.splits)
  show "fifo (relayDial cfg a b s)" if d: "dpc s = DRelayDial"
  proof (cases "dialRelay cfg a b (sgen s) (mach s)")
    case (Pair r m)
    show ?thesis
    proof (cases r)
      case None
      with Pair d show ?thesis by (intro fifo_between [OF assms(2)]) (auto simp: relayDial_def in_session_def)
    next
      case (Some q)
      with Pair d show ?thesis
        by (intro fifo_disp [OF assms(2)])
           (auto simp: relayDial_def held_def in_session_def aheld_def live_def registered_def split: prod.splits)
    qed
  qed
  show "fifo (relayStop i s)" if d: "dpc s = DRelay i n"
    by (rule fifo_disp [OF assms(2)]) (use d in \<open>auto simp: relayStop_def held_def live_def nth_upd split: if_splits\<close>)
  show "fifo (probe i n s)" if d: "dpc s = DRelay i n"
    by (rule fifo_disp [OF assms(2)]) (use d in \<open>auto simp: probe_def held_def live_def\<close>)
  show "fifo (probeDial r i n s)" if d: "dpc s = DProbe i n"
  proof (cases "dialP2P (sgen s) r (mach s)")
    case (Pair ok m)
    have i: "i < length (acts s)" using vshapeD(4) [OF assms(1)] d by simp
    show ?thesis
      by (cases ok; rule fifo_disp [OF assms(2)])
         (use d i Pair in \<open>auto simp: probeDial_def Let_def held_def live_def nth_append\<close>)
  qed
qed

lemma fifo_result:
  assumes "vshape s" "fifo s" "owner (dpc s) = Some i" "mainAt i s = MDone" "owner (dpc t) = None" "in_session (dpc t)"
    "sent t = sent s" "offered t = offered s" "vclosed t = vclosed s" "sendQ t = sendQ s" "spend t = apending (acts s ! i)"
  shows "fifo t"
  by (rule fifo_disp [OF assms(2)]) (use assms mainAtD [OF assms(4)] in \<open>auto simp: held_def live_def aheld_def\<close>)

lemma fifo_swap:
  assumes "vshape s" "fifo s" "dpc s = DSwap i j" "mainAt i s = MDone" shows "fifo (swapTransports i j s)"
proof (cases "vclosed s")
  case True
  show ?thesis
    by (rule fifo_result [OF assms(1,2) _ assms(4)])
       (use True assms(3) in \<open>auto simp: swapTransports_def takeResult_def in_session_def act_def\<close>)
next
  case False
  have g: "sgen s = generation (mach s)" by (rule in_session_gen [OF assms(1)]) (simp add: assms(3))
  have "j < length (acts s)" using vshapeD(8) [OF assms(1)] assms(3) by simp
  then show ?thesis
    by (intro fifo_disp [OF assms(2)])
       (use False assms(3) g mainAtD [OF assms(4)] in
         \<open>auto simp: swapTransports_def takeResult_def BeginTransport_now held_def aheld_def act_def\<close>)
qed

lemma fifo_event: assumes "vshape s" "fifo s" "vguard e s" shows "fifo (vhappen cfg e s)"
proof (cases e)
  case (VP2PDone i)
  with assms show ?thesis by (intro fifo_result [OF assms(1,2), of i]) (auto simp: takeResult_def in_session_def act_def)
next
  case (VStopped i)
  with assms show ?thesis by (intro fifo_result [OF assms(1,2), of i]) (auto simp: takeResult_def in_session_def act_def)
next
  case (VRecovered i)
  with assms show ?thesis by (intro fifo_result [OF assms(1,2), of i]) (auto simp: takeResult_def in_session_def act_def)
next
  case (VRelayDone i n)
  with assms show ?thesis by (intro fifo_result [OF assms(1,2), of i]) (auto simp: relayEnded_def takeResult_def in_session_def act_def)
qed (use assms in \<open>auto intro: fifo_env fifo_disp_events fifo_dispatch fifo_swap fifo_main fifo_reader fifo_sender fifo_close\<close>)

section \<open>Transports take turns\<close>

definition used :: "visitor \<Rightarrow> nat set" where
  "used s = set (map fst (delivered s)) \<union> set (map oact (sent s))"

text \<open>Transports have been used in the order of their connections, and the dispatcher's is the last.\<close>

definition vturns :: "visitor \<Rightarrow> bool" where
  "vturns s \<longleftrightarrow>
     sorted (map fst (delivered s)) \<and> sorted (map oact (sent s)) \<and>
     (\<forall>x \<in> used s. x < length (acts s) \<and> (\<forall>i. owner (dpc s) = Some i \<longrightarrow> x \<le> i) \<and> (\<forall>j. candidate (dpc s) = Some j \<longrightarrow> x < j)) \<and>
     (\<forall>i j. owner (dpc s) = Some i \<longrightarrow> candidate (dpc s) = Some j \<longrightarrow> i < j)"

lemma vturns_same:
  assumes "vturns s" "delivered t = delivered s" "sent t = sent s" "length (acts t) = length (acts s)"
    "owner (dpc t) = owner (dpc s) \<or> owner (dpc t) = None \<or> owner (dpc t) = candidate (dpc s) \<and> candidate (dpc t) = None"
    "candidate (dpc t) = candidate (dpc s) \<or> candidate (dpc t) = None"
  shows "vturns t"
proof -
  have u: "used t = used s" by (simp add: used_def assms(2,3))
  have s: "x < length (acts s)" "owner (dpc s) = Some i \<Longrightarrow> x \<le> i" "candidate (dpc s) = Some j \<Longrightarrow> x < j" if "x \<in> used s" for x i j
    using assms(1) that unfolding vturns_def by auto
  have ij: "owner (dpc s) = Some i \<Longrightarrow> candidate (dpc s) = Some j \<Longrightarrow> i < j" for i j
    using assms(1) unfolding vturns_def by auto
  have "x \<le> i" if "x \<in> used s" "owner (dpc t) = Some i" for x i
    using assms(5) s(2,3) [OF that(1), of i] that(2) by (auto dest: less_imp_le)
  moreover have "x < j" if "x \<in> used s" "candidate (dpc t) = Some j" for x j
    using assms(6) s(3) [OF that(1), of j] that(2) by auto
  moreover have "i < j" if "owner (dpc t) = Some i" "candidate (dpc t) = Some j" for i j
    using assms(5,6) ij [of i j] that by auto
  ultimately show ?thesis using assms(1,4) s(1) unfolding vturns_def u assms(2,3) by auto
qed

lemma vturns_use:
  assumes "vturns s" "owner (dpc s) = Some i" "i < length (acts s)" "dpc t = dpc s" "length (acts t) = length (acts s)"
    "map fst (delivered t) = map fst (delivered s) \<or> map fst (delivered t) = map fst (delivered s) @ [i]"
    "map oact (sent t) = map oact (sent s) \<or> map oact (sent t) = map oact (sent s) @ [i]"
  shows "vturns t"
proof -
  have u: "used t \<subseteq> insert i (used s)" using assms(6,7) unfolding used_def by (elim disjE) (simp_all del: set_map, auto simp del: set_map)
  have le: "x \<le> i" if "x \<in> used s" for x using assms(1,2) that unfolding vturns_def by auto
  then have "sorted (map fst (delivered t))" "sorted (map oact (sent t))"
    using assms(1,6,7) unfolding vturns_def used_def by (auto simp: sorted_append simp del: set_map)
  moreover have "x < length (acts t) \<and> (\<forall>k. owner (dpc t) = Some k \<longrightarrow> x \<le> k) \<and> (\<forall>j. candidate (dpc t) = Some j \<longrightarrow> x < j)"
    if "x \<in> used t" for x
  proof (cases "x = i")
    case True then show ?thesis using assms(1-5) unfolding vturns_def by auto
  next
    case False
    with u that have "x \<in> used s" by auto
    then show ?thesis using assms(1,4,5) unfolding vturns_def by auto
  qed
  moreover have "\<forall>i j. owner (dpc t) = Some i \<longrightarrow> candidate (dpc t) = Some j \<longrightarrow> i < j" using assms(1,4) unfolding vturns_def by simp
  ultimately show ?thesis unfolding vturns_def by blast
qed

lemma vturns_append:
  assumes "vturns s" "vshape s" "candidate (dpc s) = None" "delivered t = delivered s" "sent t = sent s" "length (acts t) = Suc (length (acts s))"
    "owner (dpc t) = owner (dpc s) \<and> candidate (dpc t) = Some (length (acts s)) \<or>
     owner (dpc t) = Some (length (acts s)) \<and> candidate (dpc t) = None"
  shows "vturns t"
proof -
  have *: "i < length (acts s)" if "owner (dpc s) = Some i" for i using vshapeD(4) [OF assms(2) that] .
  have "used t = used s" by (simp add: used_def assms)
  then show ?thesis using assms(1,3-7) * unfolding vturns_def by (auto intro: less_imp_le)
qed

lemma vturns_reader:
  assumes "vturns s" "vshape s" "working i s"
  shows "vturns (readerCheck i s)" "vturns (readerReceive e i s)" "vturns (readerRecheck i s)" "vturns (readerPut i s)" "vturns (readerSkip i s)"
proof -
  note use = vturns_use [OF assms(1) working_live(1) [OF assms(2,3)]] and W = workingD [OF assms(3)]
  show "vturns (readerCheck i s)" by (rule use) (use W in \<open>auto simp: reader_defs\<close>)
  show "vturns (readerReceive e i s)" by (rule use) (use W in \<open>auto simp: reader_defs split: option.splits\<close>)
  show "vturns (readerRecheck i s)" by (rule use) (use W in \<open>auto simp: reader_defs split: reader_pc.splits\<close>)
  show "vturns (readerPut i s)" by (rule use) (use W in \<open>auto simp: reader_defs split: reader_pc.splits\<close>)
  show "vturns (readerSkip i s)" by (rule use) (use W in \<open>auto simp: reader_defs\<close>)
qed

lemma vturns_sender:
  assumes "vturns s" "vshape s" "working i s"
  shows "vturns (senderTake i s)" "vturns (senderQuit i s)" "vturns (senderRecheck i s)" "vturns (senderCheck i s)"
    "vturns (senderSend cfg e i s)" "vturns (senderAfter i s)"
proof -
  note use = vturns_use [OF assms(1) working_live(1) [OF assms(2,3)]] and W = workingD [OF assms(3)]
  show "vturns (senderTake i s)" by (rule use) (use W in \<open>auto simp: sender_defs split: list.splits\<close>)
  show "vturns (senderQuit i s)" by (rule use) (use W in \<open>auto simp: sender_defs\<close>)
  show "vturns (senderRecheck i s)" by (rule use) (use W in \<open>auto simp: sender_defs split: sender_pc.splits\<close>)
  show "vturns (senderCheck i s)" by (rule use) (use W in \<open>auto simp: sender_defs split: sender_pc.splits\<close>)
  show "vturns (senderSend cfg e i s)" by (rule use) (use W in \<open>auto simp: sender_defs split: sender_pc.splits send_result.splits\<close>)
  show "vturns (senderAfter i s)" by (rule use) (use W in \<open>auto simp: sender_defs\<close>)
qed

lemma vturns_main:
  assumes "vturns s" "vshape s"
  shows "mainAt i s = MRegister \<Longrightarrow> vturns (runActiveBegin i s)" "mainAt i s = MFirstCheck \<Longrightarrow> vturns (firstCheck i s)"
    "mainAt i s = MFirstSend \<Longrightarrow> vturns (firstSend cfg e i s)" "mainAt i s = MFirstAfter \<Longrightarrow> vturns (firstAfter i s)"
    "mainAt i s = MSelect \<Longrightarrow> vturns (mainStop i s)" "mainAt i s = MJoin \<Longrightarrow> vturns (mainJoin i s)" "vturns (upd i closeTransport s)"
proof -
  show "mainAt i s = MRegister \<Longrightarrow> vturns (runActiveBegin i s)"
    by (rule vturns_same [OF assms(1)]) (auto simp: main_defs)
  show "mainAt i s = MFirstCheck \<Longrightarrow> vturns (firstCheck i s)"
    by (rule vturns_same [OF assms(1)]) (auto simp: main_defs)
  show "vturns (firstSend cfg e i s)" if m: "mainAt i s = MFirstSend"
    by (rule vturns_use [OF assms(1) main_live(1) [OF assms(2) m]])
       (use aok_main [OF assms(2) m] in \<open>auto simp: main_defs split: option.splits send_result.splits\<close>)
  show "mainAt i s = MFirstAfter \<Longrightarrow> vturns (firstAfter i s)"
    by (rule vturns_same [OF assms(1)]) (auto simp: main_defs)
  show "mainAt i s = MSelect \<Longrightarrow> vturns (mainStop i s)"
    by (rule vturns_same [OF assms(1)]) (auto simp: main_defs)
  show "mainAt i s = MJoin \<Longrightarrow> vturns (mainJoin i s)"
    by (rule vturns_same [OF assms(1)]) (auto simp: main_defs)
  show "vturns (upd i closeTransport s)"
    by (rule vturns_same [OF assms(1)]) auto
qed

lemma vturns_event:
  assumes "vturns s" "vshape s" "vguard e s" shows "vturns (vhappen cfg e s)"
proof -
  note same = vturns_same [OF assms(1)] and app = vturns_append [OF assms(1,2)]
  have gen: "sgen s = generation (mach s)" if "in_session (dpc s)" using vshapeD(10) [OF assms(2) that] .
  show ?thesis
  proof (cases e)
    case (VRun ok) then show ?thesis
    proof (cases "vclosed s \<or> vrunOnce s")
      case True with VRun assms show ?thesis by (auto simp: VisitorRun_def)
    next
      case False with VRun show ?thesis by (intro same) (auto simp: VisitorRun_def Let_def)
    qed
  next
    case VCloseNext then show ?thesis by (intro same) (auto simp: closeNext_def split: close_pc.splits list.splits)
  next
    case VTake with assms(3) show ?thesis by (intro same) (auto simp: takeFirst_def Let_def split: list.splits prod.splits)
  next
    case (VDial r)
    show ?thesis
    proof (cases "dialP2P (sgen s) r (mach s)")
      case (Pair ok m)
      with VDial assms(3) show ?thesis
        by (cases ok) (force simp: sessionDial_def intro!: app, force simp: sessionDial_def intro!: same)
    qed
  next
    case (VActivate i) with assms(3) gen show ?thesis
      by (intro same) (auto simp: sessionActivate_def BeginTransport_now in_session_def)
  next
    case (VRelayDial a b)
    show ?thesis
    proof (cases "dialRelay cfg a b (sgen s) (mach s)")
      case (Pair ok m)
      with VRelayDial assms(3) show ?thesis
        by (cases ok) (force simp: relayDial_def intro!: same, force simp: relayDial_def intro!: app)
    qed
  next
    case (VProbeDial r i n)
    show ?thesis
    proof (cases "dialP2P (sgen s) r (mach s)")
      case (Pair ok m)
      with VProbeDial assms(3) show ?thesis
        by (cases ok) (force simp: probeDial_def Let_def intro!: app, force simp: probeDial_def intro!: same)
    qed
  next
    case (VSwap i j) with assms(3) gen show ?thesis
      by (intro same) (auto simp: swapTransports_def takeResult_def BeginTransport_now in_session_def Let_def)
  qed (((use assms(3) in \<open>auto intro: vturns_main [OF assms(1,2)] vturns_reader [OF assms(1,2)] vturns_sender [OF assms(1,2)]; fail\<close>)
      | (use assms(3) in \<open>simp, intro same;
           auto simp: VisitorClose_def forwardFromUser_def forwardToUser_def unlessClosed_def takeResult_def
            relayStop_def relayEnded_def probe_def pauseEnd_def; fail\<close>))+)
qed

section \<open>What the state machine reports\<close>

fun tells :: "disp_pc \<Rightarrow> phase \<Rightarrow> (nat \<Rightarrow> tkind) \<Rightarrow> bool" where
  "tells (DActivate j) ph k \<longleftrightarrow> k j = P2P"
| "tells (DP2P i) ph k \<longleftrightarrow> ph = PhaseP2PReady \<and> k i = P2P"
| "tells (DRecovered i) ph k \<longleftrightarrow> ph = PhaseP2PReady \<and> k i = P2P"
| "tells (DRelay i n) ph k \<longleftrightarrow> ph = PhaseRelayReady \<and> k i \<noteq> P2P"
| "tells (DProbe i n) ph k \<longleftrightarrow> ph = PhaseRecovering \<and> k i \<noteq> P2P"
| "tells (DStopRelay i) ph k \<longleftrightarrow> ph = PhaseRelayReady \<and> k i \<noteq> P2P"
| "tells (DSwap i j) ph k \<longleftrightarrow> ph = PhaseRecovering \<and> k i \<noteq> P2P \<and> k j = P2P"
| "tells _ ph k \<longleftrightarrow> True"

definition vtells :: "visitor \<Rightarrow> bool" where
  "vtells s \<longleftrightarrow> tells (dpc s) (mphase (mach s)) (\<lambda>i. akind (acts s ! i)) \<and>
     (in_session (dpc s) \<longrightarrow> (\<exists>n \<le> 5. sbackoff s = 2 ^ n * 1000000000)) \<and>
     (vclosed s \<longleftrightarrow> cpc s \<noteq> CNone)"

lemma vtells_local:
  assumes "vtells s" "dpc t = dpc s" "mach t = mach s" "vclosed t = vclosed s" "cpc t = cpc s" "sbackoff t = sbackoff s"
    "\<And>k. akind (acts t ! k) = akind (acts s ! k)"
  shows "vtells t"
  using assms(1) unfolding vtells_def assms(2-7) .

lemma akind_update: "akind (xs[i := a] ! k) = (if k = i \<and> i < length xs then akind a else akind (xs ! k))"
  by (cases "k = i"; cases "i < length xs") (auto simp: list_update_beyond)

lemma vtells_reader:
  assumes "vtells s"
  shows "vtells (readerCheck i s)" "vtells (readerReceive e i s)" "vtells (readerRecheck i s)" "vtells (readerPut i s)" "vtells (readerSkip i s)"
  by (rule vtells_local [OF assms]; auto simp: reader_defs akind_update split: option.splits reader_pc.splits; fail)+

lemma vtells_sender:
  assumes "vtells s"
  shows "vtells (senderTake i s)" "vtells (senderQuit i s)" "vtells (senderRecheck i s)" "vtells (senderCheck i s)"
    "vtells (senderSend cfg e i s)" "vtells (senderAfter i s)"
proof -
  show "vtells (senderSend cfg e i s)"
    by (rule vtells_local [OF assms]; cases "asender (act i s)")
       (auto simp: sender_defs akind_update split: send_result.splits)
qed (rule vtells_local [OF assms]; auto simp: sender_defs akind_update split: list.splits sender_pc.splits; fail)+

lemma akind_closeTransport [simp]: "akind (closeTransport a) = akind a"
  by (simp add: closeTransport_def)

lemma vtells_main:
  assumes "vtells s"
  shows "vtells (runActiveBegin i s)" "vtells (firstCheck i s)" "vtells (firstSend cfg e i s)" "vtells (firstAfter i s)"
    "vtells (mainStop i s)" "vtells (mainJoin i s)" "vtells (upd i closeTransport s)"
proof -
  have ret: "vtells (returnActive i (upd i closeTransport s))"
    by (rule vtells_local [OF assms]) (simp_all add: returnActive_def akind_update)
  show "vtells (runActiveBegin i s)"
    by (rule vtells_local [OF assms])
       (auto simp: runActiveBegin_def registerActiveCloser_def startWorkers_def akind_update)
  show "vtells (firstCheck i s)"
    by (cases "current i s") (simp_all add: firstCheck_def ret, rule vtells_local [OF assms], auto simp: akind_update)
  show "vtells (firstAfter i s)"
    by (cases "current i s") (simp_all add: firstAfter_def ret, rule vtells_local [OF assms], auto simp: akind_update startWorkers_def)
  show "vtells (mainStop i s)" by (rule vtells_local [OF assms]) (auto simp: mainStop_def akind_update)
  show "vtells (mainJoin i s)" by (rule vtells_local [OF assms]) (auto simp: mainJoin_def returnActive_def akind_update)
  show "vtells (upd i closeTransport s)" by (rule vtells_local [OF assms]) (auto simp: akind_update)
  show "vtells (firstSend cfg e i s)"
  proof (cases "apending (act i s)")
    case (Some p)
    then show ?thesis
      by (cases "SendPacket cfg (akind (act i s)) e p")
         (simp_all add: firstSend_def ret, (rule vtells_local [OF assms], auto simp: akind_update startWorkers_def)+)
  qed (simp add: firstSend_def assms)
qed


lemma dialP2P_recovering:
  assumes "dialP2P g r m = (ok, m')" "mphase m = PhaseRecovering" shows "mphase m' = PhaseRecovering"
  using assms by (auto simp: dialP2P_def setPhase_def SetPhaseForGeneration_def Snapshot_def Let_def split: if_splits prod.splits)

lemma vtells_disp:
  assumes "vtells s" "dpc t = d" "in_session (dpc s) \<or> \<not> in_session d" "vclosed t = vclosed s" "cpc t = cpc s" "sbackoff t = sbackoff s"
    "tells d (mphase (mach t)) (\<lambda>i. akind (acts t ! i))"
  shows "vtells t"
  using assms unfolding vtells_def by auto

lemma vtells_relay:
  assumes "vtells s" "vshape s"
  shows "dpc s = DRelay i n \<Longrightarrow> vtells (relayStop i s)" "dpc s = DRelay i n \<Longrightarrow> vtells (relayEnded i s)"
    "dpc s = DRelay i n \<Longrightarrow> vtells (probe i n s)" "dpc s = DProbe i n \<Longrightarrow> vtells (probeDial r i n s)"
    "dpc s = DSwap i j \<Longrightarrow> vtells (swapTransports i j s)" "dpc s = DActivate j \<Longrightarrow> vtells (sessionActivate j s)"
    "dpc s = DRelayDial \<Longrightarrow> vtells (relayDial cfg a b s)" "dpc s = DDialing \<Longrightarrow> vtells (sessionDial r s)"
proof -
  have T: "tells (dpc s) (mphase (mach s)) (\<lambda>i. akind (acts s ! i))" using assms(1) by (simp add: vtells_def)
  note G = in_session_gen [OF assms(2)] and E = vshapeD(4-7) [OF assms(2)] and C = vshapeD(8) [OF assms(2)]
  show "dpc s = DRelay i n \<Longrightarrow> vtells (relayStop i s)"
    by (rule vtells_disp [OF assms(1), of _ "DStopRelay i"]) (use T in \<open>auto simp: relayStop_def in_session_def akind_update\<close>)
  show "dpc s = DRelay i n \<Longrightarrow> vtells (relayEnded i s)"
    by (rule vtells_disp [OF assms(1), of _ DPause]) (use T in \<open>auto simp: relayEnded_def takeResult_def in_session_def\<close>)
  show "dpc s = DRelay i n \<Longrightarrow> vtells (probe i n s)"
    by (rule vtells_disp [OF assms(1), of _ "DProbe i (Suc n)"]) (use T G in \<open>auto simp: probe_def machine_defs in_session_def\<close>)
  show "vtells (probeDial r i n s)" if d: "dpc s = DProbe i n"
  proof (cases "dialP2P (sgen s) r (mach s)")
    case (Pair ok m)
    have m: "mphase m = PhaseRecovering" "generation m = generation (mach s)" "transportEpoch m = transportEpoch (mach s)"
      using dialP2P_recovering [OF Pair] dialP2P_machine [OF Pair] T d by auto
    show ?thesis
    proof (cases ok)
      case True
      with Pair d m T E(1) [of i] show ?thesis
        by (intro vtells_disp [OF assms(1), of _ "DSwap i (length (acts s))"])
           (auto simp: probeDial_def Let_def in_session_def nth_append)
    next
      case False
      with Pair d m T E(3,4) [of i] G show ?thesis
        by (intro vtells_disp [OF assms(1), of _ "DRelay i n"])
           (auto simp: probeDial_def SetPhaseForTransport_def in_session_def act_def)
    qed
  qed
  show "vtells (swapTransports i j s)" if d: "dpc s = DSwap i j"
  proof (cases "vclosed s")
    case True with d show ?thesis
      by (intro vtells_disp [OF assms(1), of _ DPause]) (auto simp: swapTransports_def takeResult_def in_session_def Let_def)
  next
    case False with d T G C [of j] show ?thesis
      by (intro vtells_disp [OF assms(1), of _ "DRecovered j"])
         (auto simp: swapTransports_def takeResult_def in_session_def Let_def BeginTransport_now)
  qed
  show "vtells (sessionActivate j s)" if d: "dpc s = DActivate j"
    by (rule vtells_disp [OF assms(1), of _ "DP2P j"])
       (use d T G C [of j] in \<open>auto simp: sessionActivate_def in_session_def BeginTransport_now\<close>)
  show "vtells (relayDial cfg a b s)" if d: "dpc s = DRelayDial"
  proof (cases "dialRelay cfg a b (sgen s) (mach s)")
    case (Pair q m)
    show ?thesis
    proof (cases q)
      case None with Pair d show ?thesis
        by (intro vtells_disp [OF assms(1), of _ DPause]) (auto simp: relayDial_def in_session_def)
    next
      case (Some p)
      with Pair obtain rw e where D: "dialRelay cfg a b (sgen s) (mach s) = (Some (rw, e), m)" by (cases p) auto
      have "mphase m = PhaseRelayReady" using D unfolding dialRelay_Some by simp
      with d D show ?thesis
        by (intro vtells_disp [OF assms(1), of _ "DRelay (length (acts s)) 0"])
           (auto simp: relayDial_def in_session_def)
    qed
  qed
  show "vtells (sessionDial r s)" if d: "dpc s = DDialing"
  proof (cases "dialP2P (sgen s) r (mach s)")
    case (Pair ok m)
    with d show ?thesis
      by (cases ok; intro vtells_disp [OF assms(1) refl]) (auto simp: sessionDial_def in_session_def)
  qed
qed

lemma vtells_start_session: assumes "vtells s" shows "vtells (takeFirst s)"
proof (cases "sendQ s")
  case (Cons p q)
  have "\<exists>n::nat. n \<le> 5 \<and> (1000000000::int) = 2 ^ n * 1000000000" by (rule exI [of _ 0]) simp
  with assms Cons show ?thesis by (simp add: takeFirst_def vtells_def split: prod.split)
qed (use assms in \<open>simp add: takeFirst_def\<close>)

lemma vtells_pauseEnd: assumes "vtells s" "dpc s = DPause" shows "vtells (pauseEnd s)"
proof -
  from assms obtain n :: nat where n: "n \<le> 5" "sbackoff s = 2 ^ n * 1000000000" by (auto simp: vtells_def in_session_def)
  have "\<exists>k \<le> 5. (if sbackoff s < 30 * 1000000000 then sbackoff s * 2 else sbackoff s) = 2 ^ k * 1000000000"
  proof (cases "sbackoff s < 30 * 1000000000")
    case True
    then have "n \<noteq> 5" using n by auto
    with n True show ?thesis by (intro exI [of _ "Suc n"]) auto
  next
    case False with n show ?thesis by (intro exI [of _ n]) auto
  qed
  with assms show ?thesis by (simp add: pauseEnd_def vtells_def)
qed

lemma vtells_event:
  assumes "vtells s" "vshape s" "vguard e s" shows "vtells (vhappen cfg e s)"
proof (cases e)
  case (VRun ok)
  with assms vshapeD(11) [OF assms(2)] show ?thesis
    by (auto simp: VisitorRun_def Let_def vtells_def in_session_def)
next
  case (VClose order) with assms show ?thesis by (simp add: VisitorClose_def vtells_def)
next
  case VCloseNext
  have *: "vtells (t\<lparr>cpc := c\<rparr>)" if "vtells t" "cpc t \<noteq> CNone" "c \<noteq> CNone" for t c using that by (simp add: vtells_def)
  from VCloseNext assms show ?thesis
    by (auto simp: closeNext_def intro!: * vtells_main split: list.splits)
next
  case VCloseDone with assms show ?thesis by (simp add: vtells_def)
next
  case VTop with assms show ?thesis by (simp add: unlessClosed_def vtells_def in_session_def)
next
  case VAfter with assms show ?thesis by (simp add: unlessClosed_def vtells_def in_session_def)
qed (((use assms in \<open>auto intro: vtells_main vtells_reader vtells_sender vtells_relay vtells_start_session vtells_pauseEnd; fail\<close>)
    | (use assms in \<open>simp add: vtells_def forwardFromUser_def forwardToUser_def takeResult_def in_session_def; fail\<close>))+)

section \<open>Closing\<close>

text \<open>The steps that the visitor takes by itself once it is closed: everything but new datagrams and calls of the users, probes
  and the watcher; a transport that is closed does not receive any more.\<close>

fun winding :: "'j vevent \<Rightarrow> visitor \<Rightarrow> bool" where
  "winding (VRun ok) s \<longleftrightarrow> False"
| "winding (VClose order) s \<longleftrightarrow> False"
| "winding (VUser p) s \<longleftrightarrow> False"
| "winding VToUser s \<longleftrightarrow> False"
| "winding (VProbe i n) s \<longleftrightarrow> False"
| "winding (TWatch i) s \<longleftrightarrow> False"
| "winding (TReaderRecv e i) s \<longleftrightarrow> ReceivePacket (akind (act i s)) e = Some None"
| "winding _ s \<longleftrightarrow> True"

definition closing_step :: "'j vevent \<Rightarrow> visitor \<Rightarrow> bool" where
  "closing_step e s \<longleftrightarrow> vguard e s \<and> winding e s"

text \<open>How many steps are left.\<close>

fun mainWork :: "main_pc \<Rightarrow> nat" where
  "mainWork MRegister = 60"
| "mainWork MFirstCheck = 50"
| "mainWork MFirstSend = 40"
| "mainWork MFirstAfter = 30"
| "mainWork MSelect = 20"
| "mainWork MJoin = 10"
| "mainWork _ = 0"

fun senderWork :: "sender_pc \<Rightarrow> nat" where
  "senderWork (STaken p) = 1"
| "senderWork SSelect = 1"
| "senderWork SAfter = 2"
| "senderWork (SSend p) = 3"
| "senderWork (SCheck p) = 4"
| "senderWork _ = 0"

fun readerWork :: "reader_pc \<Rightarrow> nat" where
  "readerWork (RGot p) = 5"
| "readerWork (RPut p) = 4"
| "readerWork RCheck = 3"
| "readerWork RRecv = 2"
| "readerWork _ = 0"

definition transportWork :: "active \<Rightarrow> nat" where
  "transportWork a =
     mainWork (amain a) + (if amain a = MSelect \<or> amain a = MJoin then senderWork (asender a) + readerWork (areader a) else 0)"

fun dispWork :: "disp_pc \<Rightarrow> nat" where
  "dispWork DNone = 0"
| "dispWork DExit = 0"
| "dispWork DSelect = 100"
| "dispWork DTop = 200"
| "dispWork DAfterP2P = 200"
| "dispWork DPause = 300"
| "dispWork (DP2P i) = 300"
| "dispWork (DRecovered i) = 300"
| "dispWork (DStopRelay i) = 400"
| "dispWork (DSwap i j) = 400"
| "dispWork (DRelay i n) = 500"
| "dispWork (DActivate i) = 500"
| "dispWork (DProbe i n) = 600"
| "dispWork DDialing = 600"
| "dispWork DRelayDial = 700"

fun closeProgress :: "close_pc \<Rightarrow> nat" where
  "closeProgress (CClosers is) = length is + 2"
| "closeProgress CWait = 1"
| "closeProgress _ = 0"

definition closeWork :: "visitor \<Rightarrow> nat" where
  "closeWork s =
     200 * length (sendQ s) + dispWork (dpc s) + (case owner (dpc s) of None \<Rightarrow> 0 | Some i \<Rightarrow> transportWork (acts s ! i)) +
     closeProgress (cpc s) + (if fwd s then 1 else 0)"

lemma transportWork_closeTransport [simp]: "transportWork (closeTransport a) = transportWork a"
  "transportWork (a\<lparr>acancel := c\<rparr>) = transportWork a"
  by (simp_all add: transportWork_def closeTransport_def)

lemma closeWork_local:
  assumes "owner (dpc s) = Some i" "dpc t = dpc s" "cpc t = cpc s" "fwd t = fwd s"
    "200 * length (sendQ t) + transportWork (acts t ! i) < 200 * length (sendQ s) + transportWork (acts s ! i)"
  shows "closeWork t < closeWork s"
  using assms by (simp add: closeWork_def)

lemma closeWork_reader:
  assumes "vshape s" "working i s"
  shows "areader (act i s) = RCheck \<Longrightarrow> closeWork (readerCheck i s) < closeWork s"
    "areader (act i s) = RRecv \<Longrightarrow> ReceivePacket (akind (act i s)) e = Some None \<Longrightarrow> closeWork (readerReceive e i s) < closeWork s"
    "areader (act i s) = RGot p \<Longrightarrow> closeWork (readerRecheck i s) < closeWork s"
    "areader (act i s) = RPut p \<Longrightarrow> closeWork (readerPut i s) < closeWork s"
    "areader (act i s) = RPut p \<Longrightarrow> closeWork (readerSkip i s) < closeWork s"
  by (rule closeWork_local [OF working_live(1) [OF assms]];
      use workingD [OF assms(2)] in \<open>auto simp: reader_defs transportWork_def act_def\<close>)+

lemma closeWork_sender:
  assumes "vshape s" "working i s"
  shows "asender (act i s) = SSelect \<Longrightarrow> sendQ s \<noteq> [] \<Longrightarrow> closeWork (senderTake i s) < closeWork s"
    "asender (act i s) = SSelect \<Longrightarrow> closeWork (senderQuit i s) < closeWork s"
    "asender (act i s) = STaken p \<Longrightarrow> vclosed s \<Longrightarrow> closeWork (senderRecheck i s) < closeWork s"
    "asender (act i s) = SCheck p \<Longrightarrow> closeWork (senderCheck i s) < closeWork s"
    "asender (act i s) = SSend p \<Longrightarrow> closeWork (senderSend cfg e i s) < closeWork s"
    "asender (act i s) = SAfter \<Longrightarrow> closeWork (senderAfter i s) < closeWork s"
  by (rule closeWork_local [OF working_live(1) [OF assms]];
      use workingD [OF assms(2)] in \<open>auto simp: sender_defs transportWork_def act_def senderStop_def split: list.splits send_result.splits\<close>)+

lemma closeWork_main:
  assumes "vshape s" "vclosed s"
  shows "mainAt i s = MRegister \<Longrightarrow> closeWork (runActiveBegin i s) < closeWork s"
    "mainAt i s = MFirstCheck \<Longrightarrow> closeWork (firstCheck i s) < closeWork s"
    "mainAt i s = MFirstSend \<Longrightarrow> closeWork (firstSend cfg e i s) < closeWork s"
    "mainAt i s = MFirstAfter \<Longrightarrow> closeWork (firstAfter i s) < closeWork s"
    "mainAt i s = MSelect \<Longrightarrow> closeWork (mainStop i s) < closeWork s"
    "mainAt i s = MJoin \<Longrightarrow> closeWork (mainJoin i s) < closeWork s"
proof -
  have own: "owner (dpc s) = Some i" if "mainAt i s = m" "m \<notin> {MCandidate, MDone}" for m
    using mainAtD [OF that(1)] that(2) vshapeD(2) [OF assms(1), of i] by (auto simp: busy_def)
  note M = aok_main [OF assms(1)]
  show "closeWork (runActiveBegin i s) < closeWork s" if m: "mainAt i s = MRegister"
    by (rule closeWork_local [OF own [OF m]])
       (use M [OF m] assms(2) in \<open>auto simp: runActiveBegin_def registerActiveCloser_def transportWork_def closeTransport_def\<close>)
  show "closeWork (firstCheck i s) < closeWork s" if m: "mainAt i s = MFirstCheck"
    by (rule closeWork_local [OF own [OF m]]) (use M [OF m] in \<open>auto simp: main_defs transportWork_def\<close>)
  show "closeWork (firstSend cfg e i s) < closeWork s" if m: "mainAt i s = MFirstSend"
    by (rule closeWork_local [OF own [OF m]])
       (use M [OF m] in \<open>auto simp: main_defs transportWork_def act_def split: send_result.splits\<close>)
  show "closeWork (firstAfter i s) < closeWork s" if m: "mainAt i s = MFirstAfter"
    by (rule closeWork_local [OF own [OF m]]) (use M [OF m] in \<open>auto simp: main_defs transportWork_def\<close>)
  show "closeWork (mainStop i s) < closeWork s" if m: "mainAt i s = MSelect"
    by (rule closeWork_local [OF own [OF m]]) (use M [OF m] in \<open>auto simp: main_defs transportWork_def\<close>)
  show "closeWork (mainJoin i s) < closeWork s" if m: "mainAt i s = MJoin"
    by (rule closeWork_local [OF own [OF m]]) (use M [OF m] in \<open>auto simp: main_defs transportWork_def\<close>)
qed


lemma closeWork_disp:
  assumes "vshape s" "vclosed s"
  shows "dpc s = DSelect \<Longrightarrow> sendQ s \<noteq> [] \<Longrightarrow> closeWork (takeFirst s) < closeWork s"
    "dpc s = DDialing \<Longrightarrow> closeWork (sessionDial r s) < closeWork s"
    "dpc s = DActivate i \<Longrightarrow> closeWork (sessionActivate i s) < closeWork s"
    "dpc s = DRelayDial \<Longrightarrow> closeWork (relayDial cfg a b s) < closeWork s"
    "dpc s = DRelay i n \<Longrightarrow> closeWork (relayStop i s) < closeWork s"
    "dpc s = DRelay i n \<Longrightarrow> closeWork (relayEnded i s) < closeWork s"
    "dpc s = DProbe i n \<Longrightarrow> closeWork (probeDial r i n s) < closeWork s"
    "dpc s = DSwap i j \<Longrightarrow> closeWork (swapTransports i j s) < closeWork s"
proof -
  note G = in_session_gen [OF assms(1)] and E = vshapeD(4) [OF assms(1)] and C = vshapeD(8) [OF assms(1)]
  show "dpc s = DSelect \<Longrightarrow> sendQ s \<noteq> [] \<Longrightarrow> closeWork (takeFirst s) < closeWork s"
    by (cases "sendQ s") (auto simp: takeFirst_def closeWork_def split: prod.split)
  show "dpc s = DDialing \<Longrightarrow> closeWork (sessionDial r s) < closeWork s"
    by (simp add: sessionDial_def closeWork_def split: prod.split bool.split)
  show "dpc s = DActivate i \<Longrightarrow> closeWork (sessionActivate i s) < closeWork s"
    using C [of i] G by (simp add: sessionActivate_def closeWork_def BeginTransport_now transportWork_def)
  show "dpc s = DRelayDial \<Longrightarrow> closeWork (relayDial cfg a b s) < closeWork s"
    by (simp add: relayDial_def closeWork_def transportWork_def split: prod.split option.split)
  show "dpc s = DRelay i n \<Longrightarrow> closeWork (relayStop i s) < closeWork s"
    using E [of i] by (simp add: relayStop_def closeWork_def)
  show "dpc s = DRelay i n \<Longrightarrow> closeWork (relayEnded i s) < closeWork s"
    by (simp add: relayEnded_def takeResult_def closeWork_def)
  show "dpc s = DProbe i n \<Longrightarrow> closeWork (probeDial r i n s) < closeWork s"
    using E [of i] by (simp add: probeDial_def closeWork_def Let_def nth_append split: prod.split bool.split)
  show "dpc s = DSwap i j \<Longrightarrow> closeWork (swapTransports i j s) < closeWork s"
    using assms(2) by (simp add: swapTransports_def takeResult_def closeWork_def Let_def)
qed

lemma closeWork_decreases:
  assumes "vshape s" "vclosed s" "closing_step e s" shows "closeWork (vhappen cfg e s) < closeWork s"
proof -
  have g: "vguard e s" "winding e s" using assms(3) by (auto simp: closing_step_def)
  show ?thesis
  proof (cases e)
    case VCloseNext
    then obtain "is" where c: "cpc s = CClosers is" using g(1) by auto
    show ?thesis
    proof (cases "is")
      case Nil with VCloseNext c show ?thesis by (simp add: closeNext_def closeWork_def split: option.split)
    next
      case (Cons i js)
      have "transportWork ((acts s)[i := closeTransport (acts s ! i)] ! k) = transportWork (acts s ! k)" for k
        by (cases "k = i"; cases "i < length (acts s)") (auto simp: list_update_beyond)
      with VCloseNext c Cons show ?thesis by (simp add: closeNext_def closeWork_def split: option.split)
    qed
  qed (((use g assms(2) in \<open>auto intro: closeWork_disp [OF assms(1,2)] closeWork_main [OF assms(1,2)] closeWork_reader [OF assms(1)]
         closeWork_sender [OF assms(1)]; fail\<close>)
      | (use g assms(2) in \<open>auto simp: closeWork_def unlessClosed_def takeResult_def pauseEnd_def split: option.split; fail\<close>))+)
qed

lemma progress_working:
  assumes "vshape s" "vclosed s" "working i s"
  shows "\<exists>e :: 'j vevent. closing_step e s"
proof -
  note W = aok_working [OF assms(1,3)]
  define env :: "'j recv_env" where "env = \<lparr>reDatagram = None, reMsgs = [Inl MsgJSONErr]\<rparr>"
  have recv: "ReceivePacket k env = Some None" for k
    by (cases k) (simp_all add: ReceivePacket_def env_def p2pReceivePacket_def)
  note cs = closing_step_def
  show ?thesis
  proof (cases "areader (act i s)")
    case RCheck then have "closing_step (TReaderCheck i :: 'j vevent) s" using assms(3) by (simp add: cs)
    then show ?thesis ..
  next
    case RRecv then have "closing_step (TReaderRecv env i) s" using assms(3) recv by (simp add: cs)
    then show ?thesis ..
  next
    case (RGot p) then have "closing_step (TReaderRecheck i :: 'j vevent) s" using assms(3) by (simp add: cs)
    then show ?thesis ..
  next
    case (RPut p) then have "closing_step (TReaderSkip i :: 'j vevent) s" using assms(2,3) by (simp add: cs ctxDone_def)
    then show ?thesis ..
  next
    case RExit
    note reader = this
    show ?thesis
    proof (cases "asender (act i s)")
      case SSelect then have "closing_step (TSenderQuit i :: 'j vevent) s" using assms by (simp add: cs senderStop_def)
      then show ?thesis ..
    next
      case (STaken p) then have "closing_step (TSenderRecheck i :: 'j vevent) s" using assms by (simp add: cs)
      then show ?thesis ..
    next
      case (SCheck p) then have "closing_step (TSenderCheck i :: 'j vevent) s" using assms by (simp add: cs)
      then show ?thesis ..
    next
      case (SSend p) then have "closing_step (TSenderSend undefined i :: 'j vevent) s" using assms by (simp add: cs)
      then show ?thesis ..
    next
      case SAfter then have "closing_step (TSenderAfter i :: 'j vevent) s" using assms by (simp add: cs)
      then show ?thesis ..
    next
      case SExit
      then have "closing_step (TMainStop i :: 'j vevent) s \<or> closing_step (TJoin i :: 'j vevent) s"
        using assms reader by (auto simp: cs working_def mainReady_def)
      then show ?thesis by blast
    qed (use W in \<open>simp add: act_def\<close>)
  qed (use W in \<open>simp add: act_def\<close>)
qed

lemma progress_owner:
  assumes "vshape s" "vclosed s" "owner (dpc s) = Some i" "mainAt i s \<noteq> MDone"
  shows "\<exists>e :: 'j vevent. closing_step e s"
proof -
  note cs = closing_step_def
  have i: "mainAt i s \<noteq> MCandidate" using vshapeD(4,5) [OF assms(1,3)] by (simp add: mainAt_def act_def)
  show ?thesis
  proof (cases "mainAt i s")
    case MRegister then have "closing_step (TBegin i :: 'j vevent) s" by (simp add: cs)
    then show ?thesis ..
  next
    case MFirstCheck then have "closing_step (TFirstCheck i :: 'j vevent) s" by (simp add: cs)
    then show ?thesis ..
  next
    case MFirstSend then have "closing_step (TFirstSend undefined i :: 'j vevent) s" by (simp add: cs)
    then show ?thesis ..
  next
    case MFirstAfter then have "closing_step (TFirstAfter i :: 'j vevent) s" by (simp add: cs)
    then show ?thesis ..
  qed (use assms i progress_working [OF assms(1,2), of i] in \<open>auto simp: working_def\<close>)
qed

lemma close_progress:
  assumes "vshape s" "vtells s" "vclosed s" "cpc s \<noteq> CDone"
  shows "\<exists>e :: 'j vevent. closing_step e s"
proof (cases "cpc s")
  case CNone with assms show ?thesis by (simp add: vtells_def)
next
  case (CClosers "is") then have "closing_step (VCloseNext :: 'j vevent) s" by (simp add: closing_step_def)
  then show ?thesis ..
next
  case CWait
  have ex: "\<exists>e :: 'j vevent. closing_step e s" if "vguard e s" "winding e s" for e :: "'j vevent"
    using that by (auto simp: closing_step_def)
  show ?thesis
  proof (cases "\<exists>i. owner (dpc s) = Some i \<and> mainAt i s \<noteq> MDone")
    case True then show ?thesis using progress_owner [OF assms(1,3)] by blast
  next
    case False
    show ?thesis
    proof (cases "fwd s")
      case True then show ?thesis by (intro ex [of VFwdStop]) auto
    next
      case nofwd: False
      show ?thesis
      proof (cases "dpc s")
        case DNone then show ?thesis using CWait nofwd by (intro ex [of VCloseDone]) auto
      next
        case DExit then show ?thesis using CWait nofwd by (intro ex [of VCloseDone]) auto
      next
        case DSelect then show ?thesis using assms by (intro ex [of VLeave]) auto
      next
        case DTop then show ?thesis by (intro ex [of VTop]) auto
      next
        case DDialing then show ?thesis by (intro ex [of "VDial PreCheckFails"]) auto
      next
        case (DActivate i) then show ?thesis by (intro ex [of "VActivate i"]) auto
      next
        case (DP2P i) then show ?thesis using False by (intro ex [of "VP2PDone i"]) auto
      next
        case DAfterP2P then show ?thesis by (intro ex [of VAfter]) auto
      next
        case DRelayDial then show ?thesis by (intro ex [of "VRelayDial False False"]) auto
      next
        case (DRelay i n) then show ?thesis using assms by (intro ex [of "VRelayClosed i n"]) auto
      next
        case (DProbe i n) then show ?thesis by (intro ex [of "VProbeDial PreCheckFails i n"]) auto
      next
        case (DStopRelay i) then show ?thesis using False by (intro ex [of "VStopped i"]) auto
      next
        case (DSwap i j) then show ?thesis using False by (intro ex [of "VSwap i j"]) auto
      next
        case (DRecovered i) then show ?thesis using False by (intro ex [of "VRecovered i"]) auto
      next
        case DPause then show ?thesis by (intro ex [of VPauseEnd]) auto
      qed
    qed
  qed
qed (use assms in simp)

section \<open>Reachable states\<close>

definition vinv :: "visitor \<Rightarrow> bool" where
  "vinv s \<longleftrightarrow> vshape s \<and> fifo s \<and> vturns s \<and> vtells s"

lemma vinv_start: "vinv vstart"
  unfolding vinv_def using vshape_start
  by (simp add: fifo_def line_def held_def vturns_def used_def vtells_def vstart_def in_session_def)

interpretation visitors: event_system vguard "vhappen cfg" vstart vinv for cfg
proof unfold_locales
  show "vinv vstart" by (rule vinv_start)
  show "vinv (vhappen cfg e s)" if "vinv s" "vguard e s" for s e
    using that vshape_event fifo_event vturns_event vtells_event unfolding vinv_def by blast
qed

lemma vinvD: "vinv s \<Longrightarrow> vshape s" "vinv s \<Longrightarrow> fifo s" "vinv s \<Longrightarrow> vturns s" "vinv s \<Longrightarrow> vtells s"
  by (simp_all add: vinv_def)

definition demo_pkt :: udp_packet where
  "demo_pkt = \<lparr>Content = [1, 2], LocalAddr = None, RemoteAddr = Some \<lparr>IP = [127, 0, 0, 1], Port = 53, Zone = []\<rparr>\<rparr>"

definition demo_cfg :: "nat vcfg" where
  "demo_cfg = \<lparr>vjson = demo_json, vv1 = \<lparr>V1Read = (\<lambda>s. (Inl MsgJSONErr, s)), V1Write = (\<lambda>m w. (Inl MsgJSONErr, w))\<rparr>,
     vwire = ProtocolV2, vcodec = UDPPacketCodecBinary\<rparr>"

definition demo_send :: send_env where
  "demo_send = \<lparr>seClosedBefore = False, seQUIC = SendOk, seClosedAfter = False, seConn = \<lparr>wout = [], wlimit = None\<rparr>\<rparr>"

definition demo_events :: "nat vevent list" where
  "demo_events = [VRun True, VUser demo_pkt, VUser demo_pkt, VTake, VTop, VDial ExchangeFails, VAfter, VRelayDial True True, TBegin 0,
     TFirstCheck 0, TFirstSend demo_send 0, TFirstAfter 0, TSenderTake 0, VProbe 0 0, VProbeDial Established 0 1, TSenderRecheck 0,
     TReaderCheck 0, TReaderRecv \<lparr>reDatagram = None, reMsgs = [Inl MsgJSONErr]\<rparr> 0, TMainStop 0, TJoin 0, VSwap 0 1, TBegin 1,
     TFirstCheck 1, TFirstSend demo_send 1]"


definition demo_rw :: read_writer where
  "demo_rw = V2BinaryUDPPacketReadWriter NewConn"

lemma demo_codec: "NewUDPPacketReadWriter (vwire demo_cfg) (vcodec demo_cfg) = Inr demo_rw"
  by (simp add: demo_cfg_def demo_rw_def NewUDPPacketReadWriter_def ProtocolV1_def ProtocolV2_def UDPPacketCodecBinary_def)

lemma demo_SendPacket: "SendPacket demo_cfg P2P demo_send demo_pkt = SendOk" "SendPacket demo_cfg (Relay demo_rw) demo_send demo_pkt = SendOk"
proof -
  have e: "EncodeUDPPacketBinary (Some demo_pkt) = Inr [2, 4, 127, 0, 0, 1, 0, 53, 0, 0, 2, 1, 2]"
    by (simp add: codec_eval demo_pkt_def)
  show "SendPacket demo_cfg P2P demo_send demo_pkt = SendOk"
    by (simp add: SendPacket_def p2pSendPacket_def e demo_send_def SendDatagram_def ValidateDatagramSizeAgainstLimit_def
        ConservativeXUDPDatagramPayloadLimit_def)
  have "canon_packet demo_pkt = demo_pkt" by (simp add: canon_packet_def canon_addr_def demo_pkt_def To4_def)
  then have "binary_ok NewConn (vjson demo_cfg) (UDPMsg demo_pkt)"
    by (simp add: binary_ok_def e NewConn_def DefaultMaxFramePayloadSize_def)
  from V2B_WriteMsg_unlimited [OF this, of "seConn demo_send"]
  show "SendPacket demo_cfg (Relay demo_rw) demo_send demo_pkt = SendOk"
    by (simp add: SendPacket_def relaySendPacket_def WriteMsg_def demo_rw_def demo_send_def)
qed

lemmas visitor_eval = vstart_def NewMachine_def VisitorRun_def forwardFromUser_def chanCap_def takeFirst_def BeginSession_def unlessClosed_def
  sessionDial_def dialP2P_def setPhase_def SetPhaseForGeneration_def Snapshot_def relayDial_def dialRelay_def BeginTransport_def
  runActiveBegin_def registerActiveCloser_def startWorkers_def upd_def act_def mainAt_def working_def firstCheck_def current_def IsCurrent_def
  firstSend_def firstAfter_def senderTake_def probe_def probeDial_def senderRecheck_def senderStop_def ctxDone_def handOff_def
  readerCheck_def readerReceive_def ReceivePacket_def p2pReceivePacket_def mainStop_def mainReady_def closeTransport_def
  mainJoin_def returnActive_def swapTransports_def takeResult_def newTransport_def callRunActive_def Let_def
  sessionActivate_def VisitorClose_def closeNext_def

lemma demo_run: "run_ok vguard (vhappen demo_cfg) demo_events vstart"
  by (simp add: demo_events_def visitor_eval demo_codec demo_SendPacket)

section \<open>Properties\<close>

lemma held_one: "length (held s) \<le> 1"
proof -
  have "length (sheld q h) \<le> 1" for q h by (cases q; cases h) auto
  moreover have "length (opt_list x) \<le> 1" for x :: "udp_packet option" by (cases x) auto
  ultimately show ?thesis by (simp add: held_def aheld_def split: option.split)
qed

text \<open>C1. Datagrams are neither lost, nor repeated, nor reordered by the visitor, however often it changes between a
  peer-to-peer transport and the relay, and wherever a transport breaks: until the visitor is closed, the datagrams that
  were sent or found too large, then at most one that is in hand, then those waiting in \<^verbatim>\<open>sendCh\<close> are exactly the
  datagrams that entered \<^verbatim>\<open>sendCh\<close>, in order; and what was sent is always a prefix of what was offered.\<close>

theorem xudp_no_loss_or_reorder:
  assumes "steps vguard (vhappen cfg) vstart s"
  shows "prefix (map opkt (sent s)) (offered s) \<and>
         (\<not> vclosed s \<longrightarrow> map opkt (sent s) @ held s @ sendQ s = offered s \<and> length (held s) \<le> 1)"
proof -
  have "fifo s" using visitors.good_reached [OF assms] by (rule vinvD)
  then show ?thesis using held_one by (simp add: fifo_def live_def line_def)
qed

lemma demo_reached: "steps vguard (vhappen demo_cfg) vstart (fold (vhappen demo_cfg) demo_events vstart)"
  by (rule steps_run [OF demo_run])

theorem xudp_no_loss_or_reorder_witness:
  "steps vguard (vhappen demo_cfg) vstart (fold (vhappen demo_cfg) demo_events vstart) \<and>
   sent (fold (vhappen demo_cfg) demo_events vstart) = [Sent 0 demo_pkt, Sent 1 demo_pkt] \<and>
   prefix (map opkt (sent (fold (vhappen demo_cfg) demo_events vstart))) (offered (fold (vhappen demo_cfg) demo_events vstart))"
  using xudp_no_loss_or_reorder [OF demo_reached] demo_reached
  by (simp add: demo_events_def visitor_eval demo_codec demo_SendPacket)

text \<open>C21. One data plane at a time: the only transport whose goroutines run is the one the dispatcher waits for; it is the
  current one of the state machine, so no check of the epoch ever stops it, and the machine reports its kind.  Once a
  newer transport has delivered or sent a datagram, no older one ever does again.\<close>

theorem xudp_one_data_plane:
  assumes "steps vguard (vhappen cfg) vstart s" "i < length (acts s)" "busy (acts s ! i)"
  shows "owner (dpc s) = Some i \<and> current i s \<and> (\<forall>j < length (acts s). busy (acts s ! j) \<longrightarrow> j = i) \<and>
         mphase (mach s) \<in> (if akind (acts s ! i) = P2P then {PhaseP2PReady} else {PhaseRelayReady, PhaseRecovering}) \<and>
         sorted (map fst (delivered s)) \<and> sorted (map oact (sent s))"
proof -
  have v: "vinv s" using visitors.good_reached [OF assms(1)] .
  note D = vinvD [OF v]
  have own: "owner (dpc s) = Some i" using vshapeD(2) [OF D(1) assms(2,3)] .
  have "current i s" using vshapeD(6,7) [OF D(1) own] by (simp add: current_def IsCurrent_def act_def)
  moreover have "tells (dpc s) (mphase (mach s)) (\<lambda>i. akind (acts s ! i))" using D(4) by (simp add: vtells_def)
  then have "mphase (mach s) \<in> (if akind (acts s ! i) = P2P then {PhaseP2PReady} else {PhaseRelayReady, PhaseRecovering})"
    using own by (cases "dpc s") auto
  moreover have "\<forall>j < length (acts s). busy (acts s ! j) \<longrightarrow> j = i" using vshapeD(2) [OF D(1)] own by auto
  moreover have "sorted (map fst (delivered s))" "sorted (map oact (sent s))" using D(3) by (simp_all add: vturns_def)
  ultimately show ?thesis using own by blast
qed

theorem xudp_one_data_plane_witness:
  "mphase (mach (fold (vhappen demo_cfg) demo_events vstart)) \<in> {PhaseP2PReady} \<and>
   owner (dpc (fold (vhappen demo_cfg) demo_events vstart)) = Some 1"
  using xudp_one_data_plane [OF demo_reached, of 1]
  by (simp add: demo_events_def visitor_eval demo_codec demo_SendPacket busy_def)

text \<open>Nothing is left open: whenever the dispatcher is between sessions, or has left, every transport it ever
  established has been closed.\<close>

theorem xudp_transports_closed:
  assumes "steps vguard (vhappen cfg) vstart s" "\<not> in_session (dpc s)" "i < length (acts s)"
  shows "aclosed (acts s ! i)"
proof -
  have v: "vshape s" using visitors.good_reached [OF assms(1)] by (rule vinvD)
  have none: "owner (dpc s) = None" "candidate (dpc s) = None" using assms(2) by (auto simp: in_session_def)
  have "\<not> busy (acts s ! i)" using vshapeD(2) [OF v assms(3)] none by auto
  then consider "amain (acts s ! i) = MCandidate" | "amain (acts s ! i) = MDone" by (auto simp: busy_def)
  then show ?thesis
    using vshapeD(1,3) [OF v assms(3)] none by cases (auto simp: aok_def)
qed

definition closing_events :: "nat vevent list" where
  "closing_events = [VRun True, VUser demo_pkt, VTake, VTop, VDial Established, VClose [], VActivate 0, TBegin 0, VP2PDone 0, VAfter]"

lemma closing_run: "run_ok vguard (vhappen demo_cfg) closing_events vstart"
  by (simp add: closing_events_def visitor_eval)

theorem xudp_transports_closed_witness:
  "length (acts (fold (vhappen demo_cfg) closing_events vstart)) = 1 \<and>
   aclosed (acts (fold (vhappen demo_cfg) closing_events vstart) ! 0)"
  using xudp_transports_closed [OF steps_run [OF closing_run], of 0]
  by (simp add: closing_events_def visitor_eval in_session_def)

lemma vclosed_stable: "vclosed s \<Longrightarrow> vclosed (vhappen cfg e s)"
  by (cases e)
     (auto simp: VisitorRun_def VisitorClose_def closeNext_def forwardFromUser_def forwardToUser_def takeFirst_def unlessClosed_def Let_def
        sessionDial_def sessionActivate_def takeResult_def relayDial_def relayStop_def relayEnded_def probe_def probeDial_def swapTransports_def
        pauseEnd_def main_defs reader_defs sender_defs
      split: close_pc.splits list.splits prod.splits bool.splits option.splits send_result.splits reader_pc.splits sender_pc.splits)

lemma closing_bounded:
  assumes "vinv s" "vclosed s" "run_ok closing_step (vhappen cfg) es s"
  shows "length es \<le> closeWork s \<and> vinv (fold (vhappen cfg) es s) \<and> vclosed (fold (vhappen cfg) es s)"
  using assms
proof (induction es arbitrary: s)
  case (Cons e es)
  from Cons.prems have e: "closing_step e s" "run_ok closing_step (vhappen cfg) es (vhappen cfg e s)" by auto
  have "vinv (vhappen cfg e s)" by (rule visitors.good_event [OF Cons.prems(1)]) (use e(1) in \<open>simp add: closing_step_def\<close>)
  from Cons.IH [OF this vclosed_stable [OF Cons.prems(2)] e(2)]
  show ?case using closeWork_decreases [OF vinvD(1) [OF Cons.prems(1)] Cons.prems(2) e(1), of cfg] by auto
qed simp


definition shutdown_events :: "nat vevent list" where
  "shutdown_events = [VLeave, VFwdStop, VCloseNext, VCloseDone]"

lemma shutdown_run: "run_ok closing_step (vhappen demo_cfg) shutdown_events (fold (vhappen demo_cfg) closing_events vstart)"
  by (simp add: closing_events_def shutdown_events_def closing_step_def visitor_eval)



text \<open>The steps in which the peer is never reached and nobody closes the visitor.\<close>

fun without_peer :: "'j vevent \<Rightarrow> bool" where
  "without_peer (VDial r) \<longleftrightarrow> r \<noteq> Established"
| "without_peer (VProbeDial r i n) \<longleftrightarrow> r \<noteq> Established"
| "without_peer (VClose order) \<longleftrightarrow> False"
| "without_peer _ \<longleftrightarrow> True"

fun relay_only :: "disp_pc \<Rightarrow> bool" where
  "relay_only DTop = True"
| "relay_only DDialing = True"
| "relay_only DAfterP2P = True"
| "relay_only DRelayDial = True"
| "relay_only (DRelay i n) = True"
| "relay_only (DProbe i n) = True"
| "relay_only DPause = True"
| "relay_only _ = False"

text \<open>The visitor holds the datagram \<open>p\<close> and uses the relay, whose codec is \<open>rw\<close>.\<close>

definition stuck :: "read_writer \<Rightarrow> udp_packet \<Rightarrow> visitor \<Rightarrow> bool" where
  "stuck rw p s \<longleftrightarrow> held s = [p] \<and> \<not> vclosed s \<and> relay_only (dpc s) \<and>
     (\<forall>i. owner (dpc s) = Some i \<longrightarrow> akind (acts s ! i) = Relay rw)"

lemma relay_too_large:
  assumes "Marshal (vjson cfg) (UDPMsg p) = Some b" "unat (maxFramePayloadSize c) < 2 + length b"
  shows "relaySendPacket cfg (V2ReadWriter c) w p = SendErr"
proof -
  obtain i where "v2MsgTypeIDMap UDPPacket = Some i" using type_id_total by blast
  then have "EncodeV2MessageFrame (vjson cfg) (UDPMsg p) = Inr (message_frame i b)"
    using assms(1) by (simp add: EncodeV2MessageFrame_Inr)
  then show ?thesis using assms(2)
    by (simp add: relaySendPacket_def WriteMsg_def V2_WriteMsg_def write_frame_def WriteFrame_def)
qed


lemmas step_defs = VisitorRun_def VisitorClose_def closeNext_def forwardFromUser_def forwardToUser_def takeFirst_def unlessClosed_def Let_def
  sessionDial_def sessionActivate_def takeResult_def relayDial_def relayStop_def relayEnded_def probe_def probeDial_def swapTransports_def
  pauseEnd_def main_defs reader_defs sender_defs

lemma akind_call [simp]: "akind (callRunActive g e p a) = akind a"
  by (simp add: callRunActive_def)

lemma akind_event: "k < length (acts s) \<Longrightarrow> akind (acts (vhappen cfg e s) ! k) = akind (acts s ! k)"
  by (cases e)
     (auto simp: step_defs akind_update nth_append
      split: close_pc.splits list.splits prod.splits bool.splits option.splits send_result.splits reader_pc.splits sender_pc.splits)


lemma stuck_transport:
  assumes "vinv s" "stuck rw p s" "\<And>w. relaySendPacket cfg rw w p = SendErr"
  shows "mainAt i s = MFirstSend \<Longrightarrow> sent (firstSend cfg e i s) = sent s"
    "working i s \<Longrightarrow> atSend (asender (act i s)) \<Longrightarrow> sent (senderSend cfg e i s) = sent s"
    "working i s \<Longrightarrow> asender (act i s) \<noteq> SSelect"
proof -
  have S: "vshape s" using vinvD(1) [OF assms(1)] .
  have h: "aheld (acts s ! i) = [p]" "akind (acts s ! i) = Relay rw" if "owner (dpc s) = Some i"
    using assms(2) that by (auto simp: stuck_def held_def)
  show "sent (firstSend cfg e i s) = sent s" if m: "mainAt i s = MFirstSend"
  proof -
    have "owner (dpc s) = Some i" by (rule main_live(1) [OF S m]) simp
    from h [OF this] aok_main [OF S m] assms(3) show ?thesis
      by (auto simp: firstSend_def act_def aheld_def SendPacket_def returnActive_def)
  qed
  show "sent (senderSend cfg e i s) = sent s" if "working i s" "atSend (asender (act i s))"
    using h [OF working_live(1) [OF S that(1)]] workingD [OF that(1)] that(2) assms(3)
    by (auto simp: senderSend_def act_def aheld_def SendPacket_def)
  show "asender (act i s) \<noteq> SSelect" if "working i s"
    using h [OF working_live(1) [OF S that]] workingD [OF that] aok_working [OF S that]
    by (auto simp: act_def aheld_def opt_list_def split: option.splits)
qed

lemma stuck_step:
  assumes "vinv s" "stuck rw p s" "\<And>w. relaySendPacket cfg rw w p = SendErr" "vguard e s" "without_peer e"
    "NewUDPPacketReadWriter (vwire cfg) (vcodec cfg) = Inr rw"
  shows "sent (vhappen cfg e s) = sent s \<and> relay_only (dpc (vhappen cfg e s)) \<and> \<not> vclosed (vhappen cfg e s) \<and>
    (\<exists>xs. sendQ (vhappen cfg e s) = sendQ s @ xs \<and> offered (vhappen cfg e s) = offered s @ xs)"
proof -
  note st = stuck_transport [OF assms(1-3)]
  have S: "vshape s" "relay_only (dpc s)" "\<not> vclosed s" using vinvD(1) [OF assms(1)] assms(2) by (auto simp: stuck_def)
  have run: "vrunOnce s" using vrunOnce_dpc [OF S(1)] S(2) by (cases "dpc s") auto
  have dial: "r \<noteq> Established \<Longrightarrow> \<not> fst (dialP2P g r m)" for g r m
    by (cases r) (auto simp: dialP2P_def Let_def split: prod.split)
  show ?thesis
  proof (cases e)
    case (VDial r) with assms(4,5) S dial [of r "sgen s" "mach s"] show ?thesis
      by (auto simp: sessionDial_def split: prod.splits bool.splits)
  next
    case (VProbeDial r i n) with assms(4,5) S dial [of r "sgen s" "mach s"] show ?thesis
      by (auto simp: probeDial_def split: prod.splits bool.splits)
  next
    case (TFirstSend env i) with assms(4) S st(1) [of i env] show ?thesis
      by (auto simp: firstSend_def returnActive_def startWorkers_def split: option.splits send_result.splits)
  next
    case (TSenderSend env i) with assms(4) S st(2) [of i env] show ?thesis
      by (auto simp: senderSend_def split: send_result.splits)
  next
    case (TSenderTake i) with assms(4) st(3) [of i] show ?thesis by auto
  next
    case (VRelayDial a b) with assms(4) S show ?thesis
      by (auto simp: relayDial_def split: prod.splits option.splits)
  qed (use assms(4,5) S run in \<open>auto simp: step_defs split: close_pc.splits list.splits prod.splits bool.splits option.splits send_result.splits reader_pc.splits sender_pc.splits\<close>)
qed

lemma owner_step:
  assumes "owner (dpc (vhappen cfg e s)) = Some i" "relay_only (dpc s)" "relay_only (dpc (vhappen cfg e s))" "vguard e s" "vrunOnce s"
    "NewUDPPacketReadWriter (vwire cfg) (vcodec cfg) = Inr rw"
  shows "owner (dpc s) = Some i \<or> i = length (acts s) \<and> akind (acts (vhappen cfg e s) ! i) = Relay rw"
proof (cases e)
  case (VRelayDial a b)
  with assms(1,4) obtain rw' ep m where "dialRelay cfg a b (sgen s) (mach s) = (Some (rw', ep), m)"
    by (auto simp: relayDial_def split: prod.splits option.splits)
  moreover from this have "rw' = rw" using assms(6) unfolding dialRelay_Some by simp
  ultimately show ?thesis using VRelayDial assms(1) by (simp add: relayDial_def nth_append)
qed (use assms(1-5) in \<open>auto simp: step_defs split: close_pc.splits list.splits prod.splits bool.splits option.splits send_result.splits
      reader_pc.splits sender_pc.splits if_splits\<close>)

lemma stuck_event:
  assumes "vinv s" "stuck rw p s" "\<And>w. relaySendPacket cfg rw w p = SendErr" "vguard e s" "without_peer e"
    "NewUDPPacketReadWriter (vwire cfg) (vcodec cfg) = Inr rw"
  shows "stuck rw p (vhappen cfg e s)" "sent (vhappen cfg e s) = sent s"
proof -
  let ?t = "vhappen cfg e s"
  from stuck_step [OF assms] obtain xs where st: "sent ?t = sent s" "relay_only (dpc ?t)" "\<not> vclosed ?t"
    "sendQ ?t = sendQ s @ xs" "offered ?t = offered s @ xs" by blast
  show "sent ?t = sent s" by (rule st)
  have S: "held s = [p]" "\<not> vclosed s" "relay_only (dpc s)" "\<And>i. owner (dpc s) = Some i \<Longrightarrow> akind (acts s ! i) = Relay rw"
    using assms(2) by (auto simp: stuck_def)
  have vt: "vinv ?t" by (rule visitors.good_event [OF assms(1,4)])
  have "line s = offered s" "line ?t = offered ?t"
    using vinvD(2) [OF assms(1)] vinvD(2) [OF vt] S(2) st(3) by (simp_all add: fifo_def live_def)
  then have "map opkt (sent s) @ held ?t @ sendQ s = map opkt (sent s) @ [p] @ sendQ s" using st S(1) by (simp add: line_def)
  then have "held ?t = [p]" by simp
  moreover have "akind (acts ?t ! i) = Relay rw" if o: "owner (dpc ?t) = Some i" for i
  proof -
    have run: "vrunOnce s" using vrunOnce_dpc [OF vinvD(1) [OF assms(1)]] S(3) by (cases "dpc s") auto
    from owner_step [OF o S(3) st(2) assms(4) run assms(6)] show ?thesis
      using S(4) vshapeD(4) [OF vinvD(1) [OF assms(1)]] akind_event [of i s cfg e] by auto
  qed
  ultimately show "stuck rw p ?t" using st by (simp add: stuck_def)
qed

text \<open>C37. A datagram that the relay cannot carry blocks the visitor.  With the JSON codec on a version 2 connection, a packet
  whose encoding exceeds the frame limit is never dropped: writing it fails, which ends the transport and hands the packet
  to the next one.  As long as the peer cannot be reached directly, every relay connection fails on it again and no
  later datagram is ever sent.\<close>

theorem xudp_oversized_packet_blocks_relay:
  assumes "steps vguard (vhappen cfg) vstart s" "stuck (V2ReadWriter NewConn) p s" "vwire cfg = ProtocolV2" "vcodec cfg = ''''"
    and "Marshal (vjson cfg) (UDPMsg p) = Some b" "DefaultMaxFramePayloadSize < 2 + length b"
    and "steps (\<lambda>e u. vguard e u \<and> without_peer e) (vhappen cfg) s t"
  shows "sent t = sent s \<and> held t = [p]"
proof -
  have max: "unat (maxFramePayloadSize NewConn) = DefaultMaxFramePayloadSize"
    by (simp add: NewConn_def DefaultMaxFramePayloadSize_def)
  have err: "relaySendPacket cfg (V2ReadWriter NewConn) w p = SendErr" for w
    using relay_too_large [OF assms(5), of NewConn w] assms(6) by (simp add: max)
  have rw: "NewUDPPacketReadWriter (vwire cfg) (vcodec cfg) = Inr (V2ReadWriter NewConn)"
    by (simp add: assms(3,4) NewUDPPacketReadWriter_def NewReadWriter_def ProtocolV1_def ProtocolV2_def UDPPacketCodecBinary_def)
  have v: "vinv s" using visitors.good_reached [OF assms(1)] .
  from assms(7) v assms(2) have "vinv t \<and> stuck (V2ReadWriter NewConn) p t \<and> sent t = sent s"
  proof (induction rule: steps.induct)
    case (steps_event s t e)
    then have IH: "vinv t" "stuck (V2ReadWriter NewConn) p t" "sent t = sent s" "vguard e t" "without_peer e" by auto
    show ?case using stuck_event [OF IH(1,2) err IH(4,5) rw] visitors.good_event [OF IH(1,4)] IH(3) by simp
  qed auto
  then show ?thesis by (simp add: stuck_def)
qed

definition big_cfg :: "nat vcfg" where
  "big_cfg = demo_cfg\<lparr>vcodec := '''', vjson := \<lparr>Marshal = (\<lambda>m. Some (replicate 70000 0)), Unmarshal = (\<lambda>k b. None)\<rparr>\<rparr>"

definition big_events :: "nat vevent list" where
  "big_events = [VRun True, VUser demo_pkt, VUser demo_pkt, VTake, VTop, VDial ExchangeFails, VAfter]"

definition retry_events :: "nat vevent list" where
  "retry_events = [VRelayDial True True, TBegin 0, TFirstCheck 0, TFirstSend demo_send 0, VRelayDone 0 0, VPauseEnd, VTop]"

lemma big_codec: "NewUDPPacketReadWriter (vwire big_cfg) (vcodec big_cfg) = Inr (V2ReadWriter NewConn)"
  by (simp add: big_cfg_def demo_cfg_def NewUDPPacketReadWriter_def NewReadWriter_def ProtocolV1_def ProtocolV2_def UDPPacketCodecBinary_def)

lemma big_send: "SendPacket big_cfg (Relay (V2ReadWriter NewConn)) e p = SendErr"
  using relay_too_large [of big_cfg p "replicate 70000 0" NewConn "seConn e"]
  by (simp add: SendPacket_def big_cfg_def NewConn_def DefaultMaxFramePayloadSize_def)

lemma big_run: "run_ok vguard (vhappen big_cfg) big_events vstart"
  by (simp add: big_events_def visitor_eval)

lemma retry_run:
  "run_ok (\<lambda>e u. vguard e u \<and> without_peer e) (vhappen big_cfg) retry_events (fold (vhappen big_cfg) big_events vstart)"
  by (simp add: big_events_def retry_events_def visitor_eval big_codec big_send relayEnded_def SetPhaseForTransport_def pauseEnd_def)

theorem xudp_oversized_packet_blocks_relay_witness:
  "sent (fold (vhappen big_cfg) retry_events (fold (vhappen big_cfg) big_events vstart)) = [] \<and>
   held (fold (vhappen big_cfg) retry_events (fold (vhappen big_cfg) big_events vstart)) = [demo_pkt]"
proof -
  let ?s = "fold (vhappen big_cfg) big_events vstart"
  have s: "stuck (V2ReadWriter NewConn) demo_pkt ?s" "sent ?s = []"
    by (simp_all add: stuck_def held_def in_session_def big_events_def visitor_eval)
  have c: "vwire big_cfg = ProtocolV2" "vcodec big_cfg = ''''" "Marshal (vjson big_cfg) (UDPMsg demo_pkt) = Some (replicate 70000 0)"
    by (simp_all add: big_cfg_def demo_cfg_def)
  have "DefaultMaxFramePayloadSize < 2 + length (replicate 70000 (0 :: 8 word))" by (simp add: DefaultMaxFramePayloadSize_def)
  from xudp_oversized_packet_blocks_relay [OF steps_run [OF big_run] s(1) c this steps_run [OF retry_run]] s(2)
  show ?thesis by simp
qed

text \<open>Probes for a direct path are neither a busy loop nor given up: the delay before every probe lies within a fifth of
  the schedule of 1, 2, 5, 10 and then 30 seconds, whatever the random source or a jitter hook returns, so it is never below
  0.8 seconds and never above 36.\<close>

theorem recovery_delay_bounds:
  assumes "\<And>n. 0 < n \<Longrightarrow> 0 \<le> int63n n \<and> int63n n < n"
  shows "4 * (recoveryBackoff ! min attempt 4) \<le> 5 * nextRecoveryDelay off hook int63n attempt \<and>
         5 * nextRecoveryDelay off hook int63n attempt \<le> 6 * (recoveryBackoff ! min attempt 4) \<and>
         800000000 \<le> nextRecoveryDelay off hook int63n attempt \<and> nextRecoveryDelay off hook int63n attempt \<le> 36000000000"
proof -
  have len: "(if attempt \<ge> length recoveryBackoff then length recoveryBackoff - 1 else attempt) = min attempt 4"
    by (simp add: recoveryBackoff_def)
  have "min attempt 4 \<in> {0, 1, 2, 3, 4}" by auto
  then have base: "recoveryBackoff ! min attempt 4 \<in> {1000000000, 2000000000, 5000000000, 10000000000, 30000000000}"
    by (auto simp: recoveryBackoff_def)
  obtain d where d: "nextRecoveryDelay off hook int63n attempt = d" by blast
  have "4 * (recoveryBackoff ! min attempt 4) \<le> 5 * d \<and> 5 * d \<le> 6 * (recoveryBackoff ! min attempt 4)"
    using base assms [of "2 * (recoveryBackoff ! min attempt 4 div 5) + 1"] d
    unfolding nextRecoveryDelay_def len Let_def boundRecoveryDelay_def
    by (auto split: option.splits if_splits)
  with base d show ?thesis by auto
qed

theorem recovery_delay_bounds_witness:
  "nextRecoveryDelay False None (\<lambda>n. n div 2) 7 = 30000000000 \<and>
   800000000 \<le> nextRecoveryDelay False None (\<lambda>n. if 0 < n then n div 2 else 0) 7"
  using recovery_delay_bounds [of "\<lambda>n. if 0 < n then n div 2 else 0" 7 False None]
  by (simp add: nextRecoveryDelay_def recoveryBackoff_def)

end
