(* ===== verification/Xudp_Proxy.thy ===== *)
theory Xudp_Proxy
  imports Msg_V2 "HOL-Library.AList" "HOL-Library.Sublist"
begin

text \<open>
  The client side of an XUDP proxy: \<^verbatim>\<open>client/proxy/xudp.go\<close>.  The server hands over work connections for two purposes,
  relaying packets of a visitor and telling the session id of a hole-punching attempt; the proxy finds out which, prepares a
  data plane with its sockets and runs its workers until one of them ends or the proxy is closed.

  The first part is how a work connection is classified, on the bytes it delivers.  The second is the lifecycle:
  every call of \<^verbatim>\<open>InWorkConn\<close> is a goroutine with a program counter, as is \<^verbatim>\<open>Close\<close>; a step is a critical section, the use of
  one socket or one call that may fail, and the steps interleave.  Sockets, listeners and connections are numbered
  resources with a flag that says whether they have been closed.
\<close>

section \<open>Classifying a work connection\<close>

definition XUDPWorkConnRoleP2P :: string where "XUDPWorkConnRoleP2P = ''p2p''"
definition XUDPWorkConnRoleRelay :: string where "XUDPWorkConnRoleRelay = ''relay''"

text \<open>A connection is the bytes that arrive before the deadline of the probe and those that arrive later; the flags say whether setting
  and clearing the deadline goes well.  \<open>sidNonce\<close> reads the fields \<^verbatim>\<open>Sid\<close> and \<^verbatim>\<open>Nonce\<close> of a message's JSON value.  The probe
  reads through a buffer that remembers what it gave out; what was consumed is delivered again.\<close>

datatype role_error = UnknownRole string | SetDeadlineErr | ClearDeadlineErr

record work_stream =
  early :: bytes
  late :: bytes
  setOk :: bool
  clearOk :: bool

definition classifyLegacyXUDPWorkConn ::
    "'j v1_codec \<Rightarrow> 'j json \<Rightarrow> ('j \<Rightarrow> string \<times> string) \<Rightarrow> work_stream \<Rightarrow> string \<Rightarrow> role_error + (string \<times> bytes)" where
  "classifyLegacyXUDPWorkConn V J sidNonce conn wireProtocol =
     (if \<not> setOk conn then Inl SetDeadlineErr
      else case ReadMsg V J (NewReadWriter wireProtocol) (early conn) of
        (decoded, rest) \<Rightarrow>
          if \<not> clearOk conn then Inl ClearDeadlineErr
          else let captured = take (length (early conn) - length rest) (early conn); replay = captured @ rest @ late conn in
          (case decoded of
             Inl _ \<Rightarrow> Inr (XUDPWorkConnRoleRelay, replay)
           | Inr (JSONMsg NatHoleSid j) \<Rightarrow>
               if fst (sidNonce j) \<noteq> '''' \<and> snd (sidNonce j) = ''xudp'' then Inr (XUDPWorkConnRoleP2P, replay)
               else Inr (XUDPWorkConnRoleRelay, replay)
           | Inr _ \<Rightarrow> Inr (XUDPWorkConnRoleRelay, replay)))"

definition classifyXUDPWorkConn ::
    "'j v1_codec \<Rightarrow> 'j json \<Rightarrow> ('j \<Rightarrow> string \<times> string) \<Rightarrow> work_stream \<Rightarrow> string option \<Rightarrow> string \<Rightarrow> role_error + (string \<times> bytes)" where
  "classifyXUDPWorkConn V J sidNonce conn m wireProtocol =
     (let role = (case m of None \<Rightarrow> '''' | Some r \<Rightarrow> r) in
      if role = XUDPWorkConnRoleP2P \<or> role = XUDPWorkConnRoleRelay then Inr (role, early conn @ late conn)
      else if role = '''' then classifyLegacyXUDPWorkConn V J sidNonce conn wireProtocol
      else Inl (UnknownRole role))"

section \<open>Lifecycle: state\<close>

text \<open>Who runs the closers of a data plane: one of its workers, the call of \<^verbatim>\<open>InWorkConn\<close>, or \<^verbatim>\<open>Close\<close>.\<close>

datatype runner = ByWorker | ByMain | ByClose

text \<open>\<^verbatim>\<open>xudpConnLifecycle\<close>; \<open>remaining\<close> are the closers that \<^verbatim>\<open>stop\<close> took and has not run yet.\<close>

record lifecycle =
  stopped :: bool
  closers :: "nat list"
  remaining :: "nat list"
  lrunner :: runner

text \<open>The points at which setting up a data plane can fail.\<close>

datatype stage = PIdentity | PExchange | PHole | PTLS | PListen | PAccept | PVerify nat | RWrap | RCodec | Run nat

text \<open>A call of \<^verbatim>\<open>InWorkConn\<close>: registering the connection, classifying it, reading the session id, preparing the NAT traversal,
  promoting the connection (with the socket of the preparation), adding closers, a stage, the workers, the deferred closes of the
  handler, \<^verbatim>\<open>finishActive\<close> before and after \<^verbatim>\<open>stop\<close>, \<^verbatim>\<open>finishPending\<close>, returned.\<close>

datatype work_pc =
    GRegister | GClassify | GReadSid | GPrepare | GPromote "nat option" | GAdd "nat list" stage | GStage stage
  | GWorkers nat | GReturn | GFinish | GFinishing | GPendingEnd | GDone

text \<open>\<open>wlisten\<close> is the socket the data plane listens on, \<open>wdefer\<close> what the handler closes when it returns.\<close>

record work =
  wres :: nat
  wid :: "64 word"
  wlc :: nat
  wlisten :: nat
  wdefer :: "nat list"
  wpc :: work_pc

datatype close_pc =
    CIdle | CPending "nat list" "nat list" | CStop "nat list" | CRun nat "nat list" | CWait | CDone

record xproxy =
  pclosed :: bool
  nextConnID :: "64 word"
  pendingConns :: "(64 word \<times> nat) list"
  activeConns :: "(64 word \<times> nat) list"
  activeWG :: int
  lcs :: "lifecycle list"
  works :: "work list"
  resources :: "bool list"
  closePc :: close_pc

definition newProxy :: xproxy where
  "newProxy = \<lparr>pclosed = False, nextConnID = 0, pendingConns = [], activeConns = [], activeWG = 0, lcs = [],
     works = [], resources = [], closePc = CIdle\<rparr>"

definition wrk :: "nat \<Rightarrow> xproxy \<Rightarrow> work" where
  "wrk g s = works s ! g"

definition setPc :: "nat \<Rightarrow> work_pc \<Rightarrow> xproxy \<Rightarrow> xproxy" where
  "setPc g pc s = s\<lparr>works := (works s)[g := (works s ! g)\<lparr>wpc := pc\<rparr>]\<rparr>"

definition closeRes :: "nat \<Rightarrow> xproxy \<Rightarrow> xproxy" where
  "closeRes r s = s\<lparr>resources := (resources s)[r := True]\<rparr>"

definition newRes :: "xproxy \<Rightarrow> nat \<times> xproxy" where
  "newRes s = (length (resources s), s\<lparr>resources := resources s @ [False]\<rparr>)"

section \<open>Lifecycle: operations\<close>

definition addCloser :: "nat \<Rightarrow> nat \<Rightarrow> xproxy \<Rightarrow> xproxy" where
  "addCloser l r s =
     (if \<not> stopped (lcs s ! l) then s\<lparr>lcs := (lcs s)[l := (lcs s ! l)\<lparr>closers := closers (lcs s ! l) @ [r]\<rparr>]\<rparr>
      else closeRes r s)"

text \<open>The critical section of \<^verbatim>\<open>stop\<close>, called by \<open>who\<close>.\<close>

definition stop :: "runner \<Rightarrow> nat \<Rightarrow> xproxy \<Rightarrow> xproxy" where
  "stop who l s =
     (if stopped (lcs s ! l) then s
      else s\<lparr>lcs := (lcs s)[l := \<lparr>stopped = True, closers = [], remaining = closers (lcs s ! l), lrunner = who\<rparr>]\<rparr>)"

text \<open>Running one of the closers.\<close>

definition runCloser :: "nat \<Rightarrow> xproxy \<Rightarrow> xproxy" where
  "runCloser l s =
     (case remaining (lcs s ! l) of
        [] \<Rightarrow> s
      | r # rs \<Rightarrow> closeRes r (s\<lparr>lcs := (lcs s)[l := (lcs s ! l)\<lparr>remaining := rs\<rparr>]\<rparr>))"

text \<open>\<open>who\<close> is still running the closers of \<open>l\<close>.\<close>

definition running :: "runner \<Rightarrow> nat \<Rightarrow> xproxy \<Rightarrow> bool" where
  "running who l s \<longleftrightarrow> stopped (lcs s ! l) \<and> lrunner (lcs s ! l) = who \<and> remaining (lcs s ! l) \<noteq> []"

definition registerPending :: "nat \<Rightarrow> xproxy \<Rightarrow> (64 word \<times> bool) \<times> xproxy" where
  "registerPending conn s =
     (if pclosed s then ((0, False), s)
      else let cid = nextConnID s + 1 in
           ((cid, True), s\<lparr>nextConnID := cid, pendingConns := AList.update cid conn (pendingConns s)\<rparr>))"

definition finishPending :: "64 word \<Rightarrow> nat \<Rightarrow> xproxy \<Rightarrow> xproxy" where
  "finishPending cid conn s =
     closeRes conn (if map_of (pendingConns s) cid = Some conn then s\<lparr>pendingConns := AList.delete cid (pendingConns s)\<rparr> else s)"

definition promotePending :: "64 word \<Rightarrow> nat \<Rightarrow> xproxy \<Rightarrow> nat option \<times> xproxy" where
  "promotePending cid conn s =
     (if map_of (pendingConns s) cid \<noteq> Some conn then (None, s)
      else let s1 = s\<lparr>pendingConns := AList.delete cid (pendingConns s)\<rparr> in
           if pclosed s1 then (None, s1)
           else (Some (length (lcs s1)),
                 s1\<lparr>activeWG := activeWG s1 + 1, activeConns := AList.update cid (length (lcs s1)) (activeConns s1),
                    lcs := lcs s1 @ [\<lparr>stopped = False, closers = [], remaining = [], lrunner = ByMain\<rparr>]\<rparr>))"

text \<open>\<^verbatim>\<open>finishActive\<close> after \<^verbatim>\<open>stop\<close> has returned.\<close>

definition finishActive :: "64 word \<Rightarrow> nat \<Rightarrow> xproxy \<Rightarrow> xproxy" where
  "finishActive cid l s =
     (let s1 = (if map_of (activeConns s) cid = Some l then s\<lparr>activeConns := AList.delete cid (activeConns s)\<rparr> else s) in
      s1\<lparr>activeWG := activeWG s1 - 1\<rparr>)"

section \<open>A call of InWorkConn\<close>

definition incoming :: "xproxy \<Rightarrow> xproxy" where
  "incoming s =
     (let (r, s1) = newRes s in
      s1\<lparr>works := works s1 @ [\<lparr>wres = r, wid = 0, wlc = 0, wlisten = 0, wdefer = [], wpc = GRegister\<rparr>]\<rparr>)"

definition inRegister :: "nat \<Rightarrow> xproxy \<Rightarrow> xproxy" where
  "inRegister g s =
     (case registerPending (wres (wrk g s)) s of
        ((cid, False), s1) \<Rightarrow> setPc g GDone (closeRes (wres (wrk g s)) s1)
      | ((cid, True), s1) \<Rightarrow> s1\<lparr>works := (works s1)[g := (works s1 ! g)\<lparr>wid := cid, wpc := GClassify\<rparr>]\<rparr>)"

text \<open>How the classification ends.\<close>

datatype work_role = Rejected | RoleP2P | RoleRelay

definition inClassify :: "work_role \<Rightarrow> nat \<Rightarrow> xproxy \<Rightarrow> xproxy" where
  "inClassify role g s =
     setPc g (case role of Rejected \<Rightarrow> GPendingEnd | RoleP2P \<Rightarrow> GReadSid | RoleRelay \<Rightarrow> GPromote None) s"

definition inReadSid :: "bool \<Rightarrow> nat \<Rightarrow> xproxy \<Rightarrow> xproxy" where
  "inReadSid ok g s = setPc g (if ok then GPrepare else GPendingEnd) s"

definition inPrepare :: "bool \<Rightarrow> nat \<Rightarrow> xproxy \<Rightarrow> xproxy" where
  "inPrepare ok g s =
     (if ok then let (r, s1) = newRes s in setPc g (GPromote (Some r)) s1 else setPc g GPendingEnd s)"

definition inPromote :: "nat \<Rightarrow> xproxy \<Rightarrow> xproxy" where
  "inPromote g s =
     (case wpc (wrk g s) of
        GPromote m \<Rightarrow>
          (case promotePending (wid (wrk g s)) (wres (wrk g s)) s of
             (None, s1) \<Rightarrow> setPc g GPendingEnd (case m of None \<Rightarrow> s1 | Some r \<Rightarrow> closeRes r s1)
           | (Some l, s1) \<Rightarrow>
               s1\<lparr>works := (works s1)[g := (works s1 ! g)\<lparr>wlc := l,
                    wlisten := (case m of None \<Rightarrow> 0 | Some r \<Rightarrow> r),
                    wpc := (case m of None \<Rightarrow> GAdd [wres (wrk g s)] RWrap | Some r \<Rightarrow> GAdd [wres (wrk g s), r] PIdentity)\<rparr>]\<rparr>)
      | _ \<Rightarrow> s)"

definition inPendingEnd :: "nat \<Rightarrow> xproxy \<Rightarrow> xproxy" where
  "inPendingEnd g s = setPc g GDone (finishPending (wid (wrk g s)) (wres (wrk g s)) s)"

definition inAdd :: "nat \<Rightarrow> xproxy \<Rightarrow> xproxy" where
  "inAdd g s =
     (case wpc (wrk g s) of
        GAdd [] st \<Rightarrow> setPc g (GStage st) s
      | GAdd (r # rs) st \<Rightarrow> setPc g (GAdd rs st) (addCloser (wlc (wrk g s)) r s)
      | _ \<Rightarrow> s)"

text \<open>How a stage ends: it fails, or it goes well, with or without a new socket.\<close>

datatype stage_end = Fails | Good | GoodNew

definition pushDefer :: "nat \<Rightarrow> nat \<Rightarrow> xproxy \<Rightarrow> xproxy" where
  "pushDefer g r s = s\<lparr>works := (works s)[g := (works s ! g)\<lparr>wdefer := r # wdefer (works s ! g)\<rparr>]\<rparr>"

definition setListen :: "nat \<Rightarrow> nat \<Rightarrow> xproxy \<Rightarrow> xproxy" where
  "setListen g r s = s\<lparr>works := (works s)[g := (works s ! g)\<lparr>wlisten := r\<rparr>]\<rparr>"

text \<open>The stages of \<^verbatim>\<open>handleP2PWorkConn\<close> and \<^verbatim>\<open>listenByQUICDatagram\<close> after promotion.\<close>

definition stageP2P :: "stage \<Rightarrow> stage_end \<Rightarrow> nat \<Rightarrow> xproxy \<Rightarrow> xproxy" where
  "stageP2P st r g s =
     (case st of
        PIdentity \<Rightarrow> setPc g (if r = Fails then GReturn else GStage PExchange) s
      | PExchange \<Rightarrow> setPc g (if r = Fails then GReturn else GStage PHole) s
      | PHole \<Rightarrow>
          (case r of
             Fails \<Rightarrow> setPc g GReturn s
           | Good \<Rightarrow> setPc g (GStage PTLS) (pushDefer g (wlisten (wrk g s)) s)
           | GoodNew \<Rightarrow>
               let (c, s1) = newRes s in setPc g (GAdd [c] PTLS) (pushDefer g c (setListen g c s1)))
      | PTLS \<Rightarrow> setPc g (if r = Fails then GReturn else GStage PListen) s
      | PListen \<Rightarrow>
          if r = Fails then setPc g GReturn (closeRes (wlisten (wrk g s)) s)
          else let (c, s1) = newRes s in setPc g (GAdd [c] PAccept) (pushDefer g c s1)
      | PAccept \<Rightarrow>
          if r = Fails then setPc g GReturn s
          else let (c, s1) = newRes s in setPc g (GStage (PVerify c)) s1
      | PVerify c \<Rightarrow> if r = Fails then setPc g GReturn (closeRes c s) else setPc g (GAdd [c] (Run 3)) s
      | Run n \<Rightarrow> setPc g (GWorkers n) s
      | _ \<Rightarrow> s)"

text \<open>The stages of \<^verbatim>\<open>handleRelayWorkConn\<close>.\<close>

definition stageRelay :: "stage \<Rightarrow> stage_end \<Rightarrow> nat \<Rightarrow> xproxy \<Rightarrow> xproxy" where
  "stageRelay st r g s =
     (case st of
        RWrap \<Rightarrow>
          if r = Fails then setPc g GReturn s
          else let (c, s1) = newRes s in setPc g (GAdd [c] RCodec) (setListen g c s1)
      | RCodec \<Rightarrow>
          if r = Fails then setPc g GReturn (closeRes (wlisten (wrk g s)) s) else setPc g (GStage (Run 4)) s
      | _ \<Rightarrow> s)"

definition inStage :: "stage_end \<Rightarrow> nat \<Rightarrow> xproxy \<Rightarrow> xproxy" where
  "inStage r g s =
     (case wpc (wrk g s) of
        GStage st \<Rightarrow> (if st = RWrap \<or> st = RCodec then stageRelay st r g s else stageP2P st r g s)
      | _ \<Rightarrow> s)"

text \<open>A worker of \<^verbatim>\<open>runXUDPWorkers\<close> ends: its deferred \<^verbatim>\<open>stop\<close> may leave it with the closers to run, otherwise it is done.\<close>

definition workerExit :: "nat \<Rightarrow> xproxy \<Rightarrow> xproxy" where
  "workerExit g s =
     (case wpc (wrk g s) of
        GWorkers n \<Rightarrow>
          let l = wlc (wrk g s); s1 = stop ByWorker l s in
          if \<not> stopped (lcs s ! l) \<and> running ByWorker l s1 then s1 else setPc g (GWorkers (n - 1)) s1
      | _ \<Rightarrow> s)"

definition inReturn :: "nat \<Rightarrow> xproxy \<Rightarrow> xproxy" where
  "inReturn g s =
     (case wdefer (wrk g s) of
        [] \<Rightarrow> setPc g GFinish s
      | r # rs \<Rightarrow> closeRes r (s\<lparr>works := (works s)[g := (works s ! g)\<lparr>wdefer := rs\<rparr>]\<rparr>))"

definition inFinish :: "nat \<Rightarrow> xproxy \<Rightarrow> xproxy" where
  "inFinish g s = setPc g GFinishing (stop ByMain (wlc (wrk g s)) s)"

definition inFinishing :: "nat \<Rightarrow> xproxy \<Rightarrow> xproxy" where
  "inFinishing g s = setPc g GDone (finishActive (wid (wrk g s)) (wlc (wrk g s)) s)"

section \<open>Close\<close>

text \<open>The orders in which the two maps are iterated are arguments.\<close>

definition proxyClose :: "nat list \<Rightarrow> nat list \<Rightarrow> xproxy \<Rightarrow> xproxy" where
  "proxyClose pending active s = s\<lparr>pclosed := True, closePc := CPending pending active\<rparr>"

definition closeStep :: "xproxy \<Rightarrow> xproxy" where
  "closeStep s =
     (case closePc s of
        CPending (p # ps) ls \<Rightarrow> (closeRes p s)\<lparr>closePc := CPending ps ls\<rparr>
      | CPending [] ls \<Rightarrow> s\<lparr>closePc := CStop ls\<rparr>
      | CStop (l # ls) \<Rightarrow> (stop ByClose l s)\<lparr>closePc := CRun l ls\<rparr>
      | CStop [] \<Rightarrow> s\<lparr>closePc := CWait\<rparr>
      | CRun l ls \<Rightarrow> s\<lparr>closePc := CStop ls\<rparr>
      | CWait \<Rightarrow> s\<lparr>closePc := CDone\<rparr>
      | _ \<Rightarrow> s)"

section \<open>Executions\<close>

datatype xevent =
    XIncoming | XRegister nat | XClassify work_role nat | XReadSid bool nat | XPrepare bool nat | XPromote nat | XPendingEnd nat
  | XAdd nat | XStage stage_end nat | XWorkerExit nat | XJoined nat | XReturn nat | XFinish nat | XFinishing nat
  | XCloser nat | XClose "nat list" "nat list" | XCloseStep

definition pcAt :: "nat \<Rightarrow> xproxy \<Rightarrow> work_pc" where
  "pcAt g s = (if g < length (works s) then wpc (wrk g s) else GDone)"

definition lcAt :: "nat \<Rightarrow> xproxy \<Rightarrow> nat" where
  "lcAt g s = wlc (wrk g s)"

fun xguard :: "xevent \<Rightarrow> xproxy \<Rightarrow> bool" where
  "xguard XIncoming s \<longleftrightarrow> True"
| "xguard (XRegister g) s \<longleftrightarrow> pcAt g s = GRegister"
| "xguard (XClassify r g) s \<longleftrightarrow> pcAt g s = GClassify"
| "xguard (XReadSid ok g) s \<longleftrightarrow> pcAt g s = GReadSid"
| "xguard (XPrepare ok g) s \<longleftrightarrow> pcAt g s = GPrepare"
| "xguard (XPromote g) s \<longleftrightarrow> (case pcAt g s of GPromote m \<Rightarrow> True | _ \<Rightarrow> False)"
| "xguard (XPendingEnd g) s \<longleftrightarrow> pcAt g s = GPendingEnd"
| "xguard (XAdd g) s \<longleftrightarrow> (case pcAt g s of GAdd rs st \<Rightarrow> True | _ \<Rightarrow> False)"
| "xguard (XStage r g) s \<longleftrightarrow> (case pcAt g s of GStage st \<Rightarrow> True | _ \<Rightarrow> False)"
| "xguard (XWorkerExit g) s \<longleftrightarrow>
     (case pcAt g s of GWorkers n \<Rightarrow> 0 < n \<and> (running ByWorker (lcAt g s) s \<longrightarrow> 1 < n) | _ \<Rightarrow> False)"
| "xguard (XJoined g) s \<longleftrightarrow> pcAt g s = GWorkers 0"
| "xguard (XReturn g) s \<longleftrightarrow> pcAt g s = GReturn"
| "xguard (XFinish g) s \<longleftrightarrow> pcAt g s = GFinish"
| "xguard (XFinishing g) s \<longleftrightarrow> pcAt g s = GFinishing \<and> \<not> running ByMain (lcAt g s) s"
| "xguard (XCloser l) s \<longleftrightarrow> l < length (lcs s) \<and> remaining (lcs s ! l) \<noteq> []"
| "xguard (XClose ps ls) s \<longleftrightarrow> closePc s = CIdle \<and> set ps = set (map snd (pendingConns s)) \<and> set ls = set (map snd (activeConns s))"
| "xguard XCloseStep s \<longleftrightarrow>
     (case closePc s of CIdle \<Rightarrow> False | CDone \<Rightarrow> False | CWait \<Rightarrow> activeWG s = 0 | CRun l ls \<Rightarrow> \<not> running ByClose l s | _ \<Rightarrow> True)"

fun xhappen :: "xevent \<Rightarrow> xproxy \<Rightarrow> xproxy" where
  "xhappen XIncoming s = incoming s"
| "xhappen (XRegister g) s = inRegister g s"
| "xhappen (XClassify r g) s = inClassify r g s"
| "xhappen (XReadSid ok g) s = inReadSid ok g s"
| "xhappen (XPrepare ok g) s = inPrepare ok g s"
| "xhappen (XPromote g) s = inPromote g s"
| "xhappen (XPendingEnd g) s = inPendingEnd g s"
| "xhappen (XAdd g) s = inAdd g s"
| "xhappen (XStage r g) s = inStage r g s"
| "xhappen (XWorkerExit g) s = workerExit g s"
| "xhappen (XJoined g) s = setPc g GReturn s"
| "xhappen (XReturn g) s = inReturn g s"
| "xhappen (XFinish g) s = inFinish g s"
| "xhappen (XFinishing g) s = inFinishing g s"
| "xhappen (XCloser l) s = runCloser l s"
| "xhappen (XClose ps ls) s = proxyClose ps ls s"
| "xhappen XCloseStep s = closeStep s"

section \<open>Invariants: identifiers and maps\<close>

datatype work_class = KNew | KPre | KAct | KDone

fun class_of :: "work_pc \<Rightarrow> work_class" where
  "class_of GRegister = KNew"
| "class_of GClassify = KPre"
| "class_of GReadSid = KPre"
| "class_of GPrepare = KPre"
| "class_of (GPromote m) = KPre"
| "class_of GPendingEnd = KPre"
| "class_of GDone = KDone"
| "class_of _ = KAct"

definition kind :: "work \<Rightarrow> work_class" where
  "kind w = class_of (wpc w)"

definition core :: "work \<Rightarrow> work_class \<times> 64 word \<times> nat \<times> nat" where
  "core w = (kind w, wid w, wres w, wlc w)"

definition live :: "work \<Rightarrow> bool" where
  "live w \<longleftrightarrow> kind w = KPre \<or> kind w = KAct"

text \<open>Connection ids are unique among the connections that are pending or active, the maps know exactly them until
  the proxy is closed, and the wait group counts the active ones.\<close>

definition ids_ok :: "xproxy \<Rightarrow> bool" where
  "ids_ok s \<longleftrightarrow>
     unat (nextConnID s) \<le> length (filter (\<lambda>w. kind w \<noteq> KNew) (works s)) \<and>
     (\<forall>g < length (works s). live (works s ! g) \<longrightarrow> unat (wid (works s ! g)) \<le> unat (nextConnID s)) \<and>
     (\<forall>g < length (works s). \<forall>h < length (works s). live (works s ! g) \<longrightarrow> live (works s ! h) \<longrightarrow>
        wid (works s ! g) = wid (works s ! h) \<longrightarrow> g = h) \<and>
     (\<forall>g < length (works s). kind (works s ! g) = KPre \<longrightarrow> \<not> pclosed s \<longrightarrow>
        map_of (pendingConns s) (wid (works s ! g)) = Some (wres (works s ! g))) \<and>
     (\<forall>g < length (works s). kind (works s ! g) = KAct \<longrightarrow> \<not> pclosed s \<longrightarrow>
        map_of (activeConns s) (wid (works s ! g)) = Some (wlc (works s ! g)))"

definition counts_ok :: "xproxy \<Rightarrow> bool" where
  "counts_ok s \<longleftrightarrow>
     activeWG s = int (length (filter (\<lambda>w. kind w = KAct) (works s))) \<and>
     (pclosed s \<longleftrightarrow> closePc s \<noteq> CIdle) \<and> (closePc s = CDone \<longrightarrow> activeWG s = 0)"

lemma ids_okD:
  assumes "ids_ok s"
  shows "unat (nextConnID s) \<le> length (filter (\<lambda>w. kind w \<noteq> KNew) (works s))"
    "\<And>g. g < length (works s) \<Longrightarrow> live (works s ! g) \<Longrightarrow> unat (wid (works s ! g)) \<le> unat (nextConnID s)"
    "\<And>g h. g < length (works s) \<Longrightarrow> h < length (works s) \<Longrightarrow> live (works s ! g) \<Longrightarrow> live (works s ! h) \<Longrightarrow>
        wid (works s ! g) = wid (works s ! h) \<Longrightarrow> g = h"
    "\<And>g. g < length (works s) \<Longrightarrow> kind (works s ! g) = KPre \<Longrightarrow> \<not> pclosed s \<Longrightarrow>
        map_of (pendingConns s) (wid (works s ! g)) = Some (wres (works s ! g))"
    "\<And>g. g < length (works s) \<Longrightarrow> kind (works s ! g) = KAct \<Longrightarrow> \<not> pclosed s \<Longrightarrow>
        map_of (activeConns s) (wid (works s ! g)) = Some (wlc (works s ! g))"
  using assms unfolding ids_ok_def by blast+

lemma ids_okI:
  assumes "unat (nextConnID s) \<le> length (filter (\<lambda>w. kind w \<noteq> KNew) (works s))"
    "\<And>g. g < length (works s) \<Longrightarrow> live (works s ! g) \<Longrightarrow> unat (wid (works s ! g)) \<le> unat (nextConnID s)"
    "\<And>g h. g < length (works s) \<Longrightarrow> h < length (works s) \<Longrightarrow> live (works s ! g) \<Longrightarrow> live (works s ! h) \<Longrightarrow>
        wid (works s ! g) = wid (works s ! h) \<Longrightarrow> g = h"
    "\<And>g. g < length (works s) \<Longrightarrow> kind (works s ! g) = KPre \<Longrightarrow> \<not> pclosed s \<Longrightarrow>
        map_of (pendingConns s) (wid (works s ! g)) = Some (wres (works s ! g))"
    "\<And>g. g < length (works s) \<Longrightarrow> kind (works s ! g) = KAct \<Longrightarrow> \<not> pclosed s \<Longrightarrow>
        map_of (activeConns s) (wid (works s ! g)) = Some (wlc (works s ! g))"
  shows "ids_ok s"
  using assms unfolding ids_ok_def by blast

lemma core_nth:
  assumes "map core (works t) = map core (works s)"
  shows "length (works t) = length (works s)"
    "g < length (works s) \<Longrightarrow> kind (works t ! g) = kind (works s ! g) \<and> wid (works t ! g) = wid (works s ! g) \<and>
       wres (works t ! g) = wres (works s ! g) \<and> wlc (works t ! g) = wlc (works s ! g)"
    "map kind (works t) = map kind (works s)"
proof -
  show l: "length (works t) = length (works s)" using map_eq_imp_length_eq [OF assms] .
  show "g < length (works s) \<Longrightarrow> kind (works t ! g) = kind (works s ! g) \<and> wid (works t ! g) = wid (works s ! g) \<and>
       wres (works t ! g) = wres (works s ! g) \<and> wlc (works t ! g) = wlc (works s ! g)"
    using arg_cong [OF assms, of "\<lambda>xs. xs ! g"] l by (simp add: core_def)
  show "map kind (works t) = map kind (works s)"
    using arg_cong [OF assms, of "map fst"] by (simp add: core_def comp_def)
qed

lemma filter_kind: "map kind ws = map kind vs \<Longrightarrow> length (filter (\<lambda>w. P (kind w)) ws) = length (filter (\<lambda>w. P (kind w)) vs)"
proof -
  assume "map kind ws = map kind vs"
  then have "length (filter P (map kind ws)) = length (filter P (map kind vs))" by simp
  then show ?thesis by (simp add: filter_map comp_def)
qed

text \<open>Most steps leave these invariants alone.\<close>

lemma ids_frame:
  assumes "ids_ok s" "map core (works t) = map core (works s)" "nextConnID t = nextConnID s" "pclosed t = pclosed s"
    "pendingConns t = pendingConns s" "activeConns t = activeConns s"
  shows "ids_ok t"
proof -
  note c = core_nth [OF assms(2)]
  have "length (filter (\<lambda>w. kind w \<noteq> KNew) (works t)) = length (filter (\<lambda>w. kind w \<noteq> KNew) (works s))"
    by (rule filter_kind [OF c(3)])
  then show ?thesis
    by (intro ids_okI) (use c(1,2) ids_okD [OF assms(1)] assms(3-6) in \<open>auto simp: live_def\<close>)
qed

lemma counts_frame:
  assumes "counts_ok s" "map core (works t) = map core (works s)" "pclosed t = pclosed s" "activeWG t = activeWG s"
    "closePc t = CIdle \<longleftrightarrow> closePc s = CIdle" "closePc t = CDone \<Longrightarrow> activeWG s = 0"
  shows "counts_ok t"
proof -
  have "length (filter (\<lambda>w. kind w = KAct) (works t)) = length (filter (\<lambda>w. kind w = KAct) (works s))"
    by (rule filter_kind [OF core_nth(3) [OF assms(2)]])
  then show ?thesis using assms(1,3-6) by (auto simp: counts_ok_def)
qed

text \<open>A connection changes its class.\<close>

lemma filter_update:
  assumes "g < length ws"
  shows "length (filter P (ws[g := w])) + (if P (ws ! g) then 1 else 0) = length (filter P ws) + (if P w then 1 else (0 :: nat))"
proof -
  have "length (filter P ws) = length (filter P (take g ws)) + (if P (ws ! g) then 1 else 0) + length (filter P (drop (Suc g) ws))"
    by (subst id_take_nth_drop [OF assms]) simp
  moreover have "length (filter P (ws[g := w])) = length (filter P (take g ws)) + (if P w then 1 else 0) + length (filter P (drop (Suc g) ws))"
    by (simp add: upd_conv_take_nth_drop [OF assms])
  ultimately show ?thesis by simp
qed

lemma conn_ids_update:
  assumes "ids_ok s" "g < length (works s)" "works t = (works s)[g := w]" "kind w \<noteq> KNew" "length (works t) = length (works s)"
    "nextConnID t = nextConnID s" "pclosed t = pclosed s" "live w \<Longrightarrow> live (works s ! g) \<and> wid w = wid (works s ! g)"
    "kind w = KPre \<Longrightarrow> \<not> pclosed s \<Longrightarrow> map_of (pendingConns t) (wid w) = Some (wres w)"
    "kind w = KAct \<Longrightarrow> \<not> pclosed s \<Longrightarrow> map_of (activeConns t) (wid w) = Some (wlc w)"
    "\<And>i. \<not> pclosed s \<Longrightarrow> i \<noteq> wid (works s ! g) \<Longrightarrow> map_of (pendingConns t) i = map_of (pendingConns s) i"
    "\<And>i. \<not> pclosed s \<Longrightarrow> i \<noteq> wid (works s ! g) \<Longrightarrow> map_of (activeConns t) i = map_of (activeConns s) i"
    "live (works s ! g) \<or> pendingConns t = pendingConns s \<and> activeConns t = activeConns s"
  shows "ids_ok t"
proof (rule ids_okI)
  have nth: "works t ! h = (if h = g then w else works s ! h)" for h using assms(2,3) by (simp add: nth_list_update)
  have len: "length (works t) = length (works s)" using assms(3) by simp
  have old: "live (works t ! h) \<Longrightarrow> live (works s ! h) \<and> wid (works t ! h) = wid (works s ! h)" for h
    using assms(8) by (simp add: nth split: if_splits)
  show "unat (nextConnID t) \<le> length (filter (\<lambda>w. kind w \<noteq> KNew) (works t))"
    using filter_update [OF assms(2), of "\<lambda>w. kind w \<noteq> KNew" w] ids_okD(1) [OF assms(1)] assms(3-6) by (simp split: if_splits)
  fix h assume h: "h < length (works t)"
  then have h': "h < length (works s)" using assms(3) by simp
  show "unat (wid (works t ! h)) \<le> unat (nextConnID t)" if "live (works t ! h)"
    using ids_okD(2) [OF assms(1) h'] old [OF that] assms(6) by simp
  show "h = k" if "k < length (works t)" "live (works t ! h)" "live (works t ! k)" "wid (works t ! h) = wid (works t ! k)" for k
    using ids_okD(3) [OF assms(1), of h k] old [of h] old [of k] that h' len by metis
  have other: "wid (works s ! h) \<noteq> wid (works s ! g) \<or> \<not> live (works s ! g)" if "h \<noteq> g" "live (works s ! h)"
    using ids_okD(3) [OF assms(1) h' assms(2)] that by auto
  show "map_of (pendingConns t) (wid (works t ! h)) = Some (wres (works t ! h))" if "kind (works t ! h) = KPre" "\<not> pclosed t"
  proof (cases "h = g")
    case False
    with that have "kind (works s ! h) = KPre" "\<not> pclosed s" "live (works s ! h)" using assms(7) by (auto simp: nth live_def)
    with ids_okD(4) [OF assms(1) h'] other [OF False] assms(11,13) False show ?thesis by (auto simp: nth)
  qed (use that assms(7,9) in \<open>auto simp: nth\<close>)
  show "map_of (activeConns t) (wid (works t ! h)) = Some (wlc (works t ! h))" if "kind (works t ! h) = KAct" "\<not> pclosed t"
  proof (cases "h = g")
    case False
    with that have "kind (works s ! h) = KAct" "\<not> pclosed s" "live (works s ! h)" using assms(7) by (auto simp: nth live_def)
    with ids_okD(5) [OF assms(1) h'] other [OF False] assms(12,13) False show ?thesis by (auto simp: nth)
  qed (use that assms(7,10) in \<open>auto simp: nth\<close>)
qed

lemma counts_update:
  assumes "counts_ok s" "g < length (works s)" "works t = (works s)[g := w]" "pclosed t = pclosed s" "closePc t = closePc s"
    "activeWG t + (if kind (works s ! g) = KAct then 1 else 0) = activeWG s + (if kind w = KAct then 1 else 0)"
    "kind w = KAct \<Longrightarrow> kind (works s ! g) = KAct \<or> \<not> pclosed s"
  shows "counts_ok t"
proof -
  have n: "length (filter (\<lambda>w. kind w = KAct) (works t)) + (if kind (works s ! g) = KAct then 1 else 0) =
      length (filter (\<lambda>w. kind w = KAct) (works s)) + (if kind w = KAct then 1 else 0)"
    using filter_update [OF assms(2), of "\<lambda>w. kind w = KAct" w] assms(3) by simp
  have wg: "activeWG t = int (length (filter (\<lambda>w. kind w = KAct) (works t)))"
    using assms(1,6) n by (auto simp: counts_ok_def split: if_splits)
  moreover have "activeWG t = 0" if "closePc t = CDone"
  proof -
    from that assms(1,5) have z: "activeWG s = 0" "pclosed s" by (auto simp: counts_ok_def)
    then have "length (filter (\<lambda>w. kind w = KAct) (works s)) = 0" using assms(1) by (simp add: counts_ok_def)
    then have "kind (works s ! g) \<noteq> KAct" using assms(2) by (auto simp: filter_empty_conv)
    with z assms(6,7) show ?thesis by auto
  qed
  ultimately show ?thesis using assms(1,4,5) by (simp add: counts_ok_def)
qed

lemma works_simps [simp]:
  "works (closeRes r s) = works s" "works (addCloser l r s) = works s" "works (stop who l s) = works s" "works (runCloser l s) = works s"
  "lcs (closeRes r s) = lcs s" "pclosed (closeRes r s) = pclosed s" "closePc (closeRes r s) = closePc s"
  "nextConnID (closeRes r s) = nextConnID s" "pendingConns (closeRes r s) = pendingConns s" "activeConns (closeRes r s) = activeConns s"
  "activeWG (closeRes r s) = activeWG s" "lcs (setPc g pc s) = lcs s" "resources (setPc g pc s) = resources s"
  "pclosed (setPc g pc s) = pclosed s" "closePc (setPc g pc s) = closePc s"
  "nextConnID (setPc g pc s) = nextConnID s" "pendingConns (setPc g pc s) = pendingConns s" "activeConns (setPc g pc s) = activeConns s"
  "activeWG (setPc g pc s) = activeWG s" "length (works (setPc g pc s)) = length (works s)"
  "resources (closeRes r s) = (resources s)[r := True]"
  by (simp_all add: closeRes_def addCloser_def stop_def runCloser_def setPc_def split: list.split)

lemma proxy_simps [simp]:
  "pclosed (addCloser l r s) = pclosed s" "closePc (addCloser l r s) = closePc s" "nextConnID (addCloser l r s) = nextConnID s"
  "pendingConns (addCloser l r s) = pendingConns s" "activeConns (addCloser l r s) = activeConns s" "activeWG (addCloser l r s) = activeWG s"
  "pclosed (stop who l s) = pclosed s" "closePc (stop who l s) = closePc s" "nextConnID (stop who l s) = nextConnID s"
  "pendingConns (stop who l s) = pendingConns s" "activeConns (stop who l s) = activeConns s" "activeWG (stop who l s) = activeWG s"
  "pclosed (runCloser l s) = pclosed s" "closePc (runCloser l s) = closePc s" "nextConnID (runCloser l s) = nextConnID s"
  "pendingConns (runCloser l s) = pendingConns s" "activeConns (runCloser l s) = activeConns s" "activeWG (runCloser l s) = activeWG s"
  "resources (stop who l s) = resources s"
  by (simp_all add: addCloser_def stop_def runCloser_def split: list.split)

text \<open>Steps that change neither the class of a connection nor a map.\<close>

definition same_maps :: "xproxy \<Rightarrow> xproxy \<Rightarrow> bool" where
  "same_maps s t \<longleftrightarrow> map core (works t) = map core (works s) \<and> nextConnID t = nextConnID s \<and> pclosed t = pclosed s \<and>
     pendingConns t = pendingConns s \<and> activeConns t = activeConns s \<and> activeWG t = activeWG s \<and> closePc t = closePc s"

lemma same_maps_step:
  assumes "ids_ok s \<and> counts_ok s" "same_maps s t"
  shows "ids_ok t \<and> counts_ok t"
proof -
  have "ids_ok s" "counts_ok s" "closePc t = CDone \<longrightarrow> activeWG t = 0" using assms by (auto simp: same_maps_def counts_ok_def)
  with assms(2) show ?thesis using ids_frame [of s t] counts_frame [of s t] by (simp add: same_maps_def)
qed

lemma map_core_update: "g < length ws \<Longrightarrow> core w = core (ws ! g) \<Longrightarrow> map core (ws[g := w]) = map core ws"
  by (simp add: map_update list_update_same_conv)

lemma core_pc: "core (w\<lparr>wpc := pc\<rparr>) = core w \<longleftrightarrow> class_of pc = class_of (wpc w)"
  by (auto simp: core_def kind_def)

lemma same_maps_refl: "same_maps s s" by (simp add: same_maps_def)

lemma same_maps_trans: "same_maps s t \<Longrightarrow> same_maps t u \<Longrightarrow> same_maps s u" by (simp add: same_maps_def)

lemma same_maps_setPc:
  "same_maps s t \<Longrightarrow> g < length (works s) \<Longrightarrow> class_of pc = class_of (wpc (works t ! g)) \<Longrightarrow> same_maps s (setPc g pc t)"
  using map_core_update [of g "works t" "(works t ! g)\<lparr>wpc := pc\<rparr>"] core_nth(1) [of t s]
  by (auto simp: same_maps_def setPc_def core_pc)

lemma same_maps_ops:
  "same_maps s t \<Longrightarrow> same_maps s (closeRes r t)" "same_maps s t \<Longrightarrow> same_maps s (addCloser l r t)"
  "same_maps s t \<Longrightarrow> same_maps s (stop who l t)" "same_maps s t \<Longrightarrow> same_maps s (runCloser l t)"
  "same_maps s t \<Longrightarrow> same_maps s (snd (newRes t))"
  by (simp_all add: same_maps_def newRes_def)

lemma same_maps_pushDefer:
  "same_maps s t \<Longrightarrow> g < length (works s) \<Longrightarrow> same_maps s (pushDefer g r t)"
  "same_maps s t \<Longrightarrow> g < length (works s) \<Longrightarrow> same_maps s (setListen g r t)"
  using map_core_update [of g "works t" "(works t ! g)\<lparr>wdefer := r # wdefer (works t ! g)\<rparr>"]
    map_core_update [of g "works t" "(works t ! g)\<lparr>wlisten := r\<rparr>"] core_nth(1) [of t s]
  by (auto simp: same_maps_def pushDefer_def setListen_def core_def kind_def)

lemma wpc_ops [simp]:
  "g < length (works s) \<Longrightarrow> wpc (works (pushDefer h r s) ! g) = wpc (works s ! g)"
  "g < length (works s) \<Longrightarrow> wpc (works (setListen h r s) ! g) = wpc (works s ! g)"
  "works (snd (newRes s)) = works s"
  "length (works (pushDefer h r s)) = length (works s)" "length (works (setListen h r s)) = length (works s)"
  by (cases "h = g"; simp add: pushDefer_def setListen_def newRes_def)+

lemmas same_maps_intros = same_maps_refl same_maps_setPc same_maps_ops same_maps_pushDefer

lemma newRes_let: "(case newRes s of (r, s1) \<Rightarrow> f r s1) = f (length (resources s)) (snd (newRes s))" by (simp add: newRes_def)

lemma newRes_simps [simp]:
  "resources (snd (newRes s)) = resources s @ [False]" "lcs (snd (newRes s)) = lcs s" "pclosed (snd (newRes s)) = pclosed s"
  "closePc (snd (newRes s)) = closePc s" "activeConns (snd (newRes s)) = activeConns s"
  by (simp_all add: newRes_def)

lemma pcAt_cases:
  "pcAt g s = pc \<Longrightarrow> pc \<noteq> GDone \<Longrightarrow> g < length (works s) \<and> wpc (works s ! g) = pc"
  by (auto simp: pcAt_def wrk_def split: if_splits)

lemma stage_same_maps:
  assumes "g < length (works s)" "wpc (works s ! g) = GStage st"
  shows "same_maps s (inStage r g s)"
proof -
  have "same_maps s (stageP2P st r g s)"
    using assms by (cases st; cases r) (auto simp: stageP2P_def newRes_let intro!: same_maps_intros)
  moreover have "same_maps s (stageRelay st r g s)"
    using assms by (cases st; cases r) (auto simp: stageRelay_def newRes_let intro!: same_maps_intros)
  ultimately show ?thesis using assms by (simp add: inStage_def wrk_def)
qed

fun quiet_event :: "xevent \<Rightarrow> bool" where
  "quiet_event (XClassify r g) = True"
| "quiet_event (XReadSid ok g) = True"
| "quiet_event (XPrepare ok g) = True"
| "quiet_event (XAdd g) = True"
| "quiet_event (XStage r g) = True"
| "quiet_event (XWorkerExit g) = True"
| "quiet_event (XJoined g) = True"
| "quiet_event (XReturn g) = True"
| "quiet_event (XFinish g) = True"
| "quiet_event (XCloser l) = True"
| "quiet_event _ = False"

lemma quiet_same_maps:
  assumes "quiet_event e" "xguard e s"
  shows "same_maps s (xhappen e s)"
proof (cases e)
  case (XClassify r g)
  then show ?thesis using assms pcAt_cases [of g s]
    by (cases r) (auto simp: inClassify_def intro!: same_maps_intros)
next
  case (XReadSid ok g)
  then show ?thesis using assms pcAt_cases [of g s] by (auto simp: inReadSid_def intro!: same_maps_intros)
next
  case (XPrepare ok g)
  then show ?thesis using assms pcAt_cases [of g s] by (auto simp: inPrepare_def newRes_let intro!: same_maps_intros)
next
  case (XAdd g)
  then obtain rs st where "g < length (works s)" "wpc (works s ! g) = GAdd rs st" using assms pcAt_cases [of g s] by (auto split: work_pc.splits)
  then show ?thesis using XAdd by (cases rs) (auto simp: inAdd_def wrk_def intro!: same_maps_intros)
next
  case (XStage r g)
  then obtain st where "g < length (works s)" "wpc (works s ! g) = GStage st" using assms pcAt_cases [of g s] by (auto split: work_pc.splits)
  then show ?thesis using XStage stage_same_maps by simp
next
  case (XWorkerExit g)
  then obtain n where "g < length (works s)" "wpc (works s ! g) = GWorkers n" using assms pcAt_cases [of g s] by (auto split: work_pc.splits)
  then show ?thesis using XWorkerExit by (auto simp: workerExit_def wrk_def Let_def intro!: same_maps_intros)
next
  case (XJoined g)
  then show ?thesis using assms pcAt_cases [of g s] by (auto intro!: same_maps_intros)
next
  case (XReturn g)
  then have g: "g < length (works s)" "wpc (works s ! g) = GReturn" using assms pcAt_cases [of g s] by auto
  show ?thesis
  proof (cases "wdefer (works s ! g)")
    case Nil
    with XReturn g show ?thesis by (auto simp: inReturn_def wrk_def intro!: same_maps_intros)
  next
    case (Cons r rs)
    with XReturn g map_core_update [of g "works s" "(works s ! g)\<lparr>wdefer := rs\<rparr>"] show ?thesis
      by (auto simp: inReturn_def wrk_def same_maps_def core_def kind_def)
  qed
next
  case (XFinish g)
  then show ?thesis using assms pcAt_cases [of g s] by (auto simp: inFinish_def wrk_def intro!: same_maps_intros)
next
  case (XCloser l)
  then show ?thesis by (auto intro!: same_maps_intros)
qed (use assms in auto)

lemma works_setPc: "works (setPc g pc s) = (works s)[g := (works s ! g)\<lparr>wpc := pc\<rparr>]" by (simp add: setPc_def)

lemma kind_pc [simp]: "kind (w\<lparr>wpc := pc\<rparr>) = class_of pc" by (simp add: kind_def)

lemma live_kind: "kind w = KDone \<Longrightarrow> \<not> live w" "kind w = KNew \<Longrightarrow> \<not> live w" "kind w = KPre \<Longrightarrow> live w" "kind w = KAct \<Longrightarrow> live w"
  by (auto simp: live_def)

lemma incoming_ids:
  assumes "ids_ok s \<and> counts_ok s"
  shows "ids_ok (incoming s) \<and> counts_ok (incoming s)"
proof -
  let ?w = "\<lparr>wres = length (resources s), wid = 0, wlc = 0, wlisten = 0, wdefer = [], wpc = GRegister\<rparr>"
  have w: "works (incoming s) = works s @ [?w]" and k: "kind ?w = KNew" by (auto simp: incoming_def newRes_def kind_def)
  have "ids_ok (incoming s)"
    using ids_okD [OF conjunct1 [OF assms]] k
    by (intro ids_okI) (auto simp: w incoming_def newRes_def nth_append less_Suc_eq live_kind split: if_splits)
  moreover have "counts_ok (incoming s)" using assms k by (auto simp: counts_ok_def w incoming_def newRes_def)
  ultimately show ?thesis by simp
qed

text \<open>A connection is done.\<close>

lemma done_update:
  assumes "ids_ok s \<and> counts_ok s" "g < length (works s)" "works t = (works s)[g := w]" "kind w = KDone"
    "nextConnID t = nextConnID s" "pclosed t = pclosed s" "closePc t = closePc s"
    "activeWG t + (if kind (works s ! g) = KAct then 1 else 0) = activeWG s"
    "\<And>i. i \<noteq> wid (works s ! g) \<Longrightarrow> map_of (pendingConns t) i = map_of (pendingConns s) i"
    "\<And>i. i \<noteq> wid (works s ! g) \<Longrightarrow> map_of (activeConns t) i = map_of (activeConns s) i"
    "live (works s ! g) \<or> pendingConns t = pendingConns s \<and> activeConns t = activeConns s"
  shows "ids_ok t \<and> counts_ok t"
  using assms live_kind(1) [OF assms(4)] conn_ids_update [OF conjunct1 [OF assms(1)] assms(2,3)]
    counts_update [OF conjunct2 [OF assms(1)] assms(2,3)] by simp

lemma register_ids:
  assumes "ids_ok s \<and> counts_ok s" "g < length (works s)" "wpc (works s ! g) = GRegister" "length (works s) < 2 ^ 64"
  shows "ids_ok (inRegister g s) \<and> counts_ok (inRegister g s)"
proof (cases "pclosed s")
  case True
  then have t: "inRegister g s = setPc g GDone (closeRes (wres (works s ! g)) s)" by (simp add: inRegister_def registerPending_def wrk_def)
  show ?thesis unfolding t using assms by (intro done_update [OF assms(1,2)]) (auto simp: works_setPc kind_def)
next
  case False
  define w where "w = (works s ! g)\<lparr>wid := nextConnID s + 1, wpc := GClassify\<rparr>"
  define t where "t = inRegister g s"
  have t: "works t = (works s)[g := w]" "nextConnID t = nextConnID s + 1" "pclosed t = pclosed s" "activeConns t = activeConns s"
    "pendingConns t = AList.update (nextConnID s + 1) (wres w) (pendingConns s)" "closePc t = closePc s" "activeWG t = activeWG s"
    using False by (simp_all add: t_def inRegister_def registerPending_def wrk_def Let_def w_def)
  have k: "kind w = KPre" "kind (works s ! g) = KNew" using assms(3) by (auto simp: w_def kind_def)
  have nth: "works t ! h = (if h = g then w else works s ! h)" for h using assms(2) t(1) by (simp add: nth_list_update)
  have cnt: "length (filter (\<lambda>w. kind w \<noteq> KNew) (works t)) = Suc (length (filter (\<lambda>w. kind w \<noteq> KNew) (works s)))"
    using filter_update [OF assms(2), of "\<lambda>w. kind w \<noteq> KNew" w] k t(1) by simp
  then have "length (filter (\<lambda>w. kind w \<noteq> KNew) (works s)) < length (works s)"
    using length_filter_le [of "\<lambda>w. kind w \<noteq> KNew" "works t"] t(1) by simp
  then have n: "unat (nextConnID s) + 1 < 2 ^ 64" using ids_okD(1) [OF conjunct1 [OF assms(1)]] assms(4) by linarith
  then have u: "unat (nextConnID s + 1) = unat (nextConnID s) + 1" by (simp add: unat_word_ariths)
  have old: "unat (wid (works s ! h)) \<le> unat (nextConnID s)" if "h < length (works s)" "live (works s ! h)" for h
    using ids_okD(2) [OF conjunct1 [OF assms(1)] that] .
  have fresh: "wid (works s ! h) \<noteq> nextConnID s + 1" if "h < length (works s)" "live (works s ! h)" for h
    using old [OF that] u by auto
  have "ids_ok t"
  proof (rule ids_okI)
    show "unat (nextConnID t) \<le> length (filter (\<lambda>w. kind w \<noteq> KNew) (works t))"
      using ids_okD(1) [OF conjunct1 [OF assms(1)]] cnt u t(2) by simp
    fix h assume "h < length (works t)"
    then have h: "h < length (works s)" using t(1) by simp
    show "unat (wid (works t ! h)) \<le> unat (nextConnID t)" if "live (works t ! h)"
      using that old [OF h] u t(2) by (auto simp: nth w_def)
    show "h = k" if "k < length (works t)" "live (works t ! h)" "live (works t ! k)" "wid (works t ! h) = wid (works t ! k)" for k
    proof -
      from that(1) have "k < length (works s)" using t(1) by simp
      moreover have "wid w = nextConnID s + 1" by (simp add: w_def)
      ultimately show ?thesis using that(2-4) ids_okD(3) [OF conjunct1 [OF assms(1)] h] fresh [OF h] fresh [of k]
        unfolding nth by (metis (full_types))
    qed
    show "map_of (pendingConns t) (wid (works t ! h)) = Some (wres (works t ! h))" if "kind (works t ! h) = KPre" "\<not> pclosed t"
      using that ids_okD(4) [OF conjunct1 [OF assms(1)] h] fresh [OF h] t(3,5)
      by (auto simp: nth w_def update_conv live_kind split: if_splits)
    show "map_of (activeConns t) (wid (works t ! h)) = Some (wlc (works t ! h))" if "kind (works t ! h) = KAct" "\<not> pclosed t"
      using that ids_okD(5) [OF conjunct1 [OF assms(1)] h] t(3,4) k(1) by (auto simp: nth split: if_splits)
  qed
  moreover have "counts_ok t" by (rule counts_update [OF _ assms(2) t(1)]) (use assms(1) k t in simp_all)
  ultimately show ?thesis by (simp add: t_def)
qed

lemma promote_ids:
  assumes "ids_ok s \<and> counts_ok s" "g < length (works s)" "wpc (works s ! g) = GPromote m"
  shows "ids_ok (inPromote g s) \<and> counts_ok (inPromote g s)"
proof (cases "map_of (pendingConns s) (wid (works s ! g)) = Some (wres (works s ! g)) \<and> \<not> pclosed s")
  case False
  have k: "kind (works s ! g) = KPre" using assms(3) by (simp add: kind_def)
  then have c: "pclosed s" using False ids_okD(4) [OF conjunct1 [OF assms(1)] assms(2)] by blast
  define t where "t = inPromote g s"
  have t: "works t = (works s)[g := (works s ! g)\<lparr>wpc := GPendingEnd\<rparr>]" "nextConnID t = nextConnID s" "pclosed t = pclosed s"
      "closePc t = closePc s" "activeWG t = activeWG s"
    using c assms(3) by (auto simp: t_def inPromote_def wrk_def promotePending_def works_setPc split: option.split)
  have "ids_ok t" using c k t assms(1,2) by (intro conn_ids_update [OF _ assms(2) t(1)]) (auto simp: live_kind live_def)
  moreover have "counts_ok t" by (rule counts_update [OF _ assms(2) t(1)]) (use assms(1) k t in simp_all)
  ultimately show ?thesis by (simp add: t_def)
next
  case True
  have k: "kind (works s ! g) = KPre" using assms(3) by (simp add: kind_def)
  define t where "t = inPromote g s"
  obtain w where t: "works t = (works s)[g := w]" "kind w = KAct" "wid w = wid (works s ! g)" "wlc w = length (lcs s)"
      "nextConnID t = nextConnID s" "pclosed t = pclosed s" "closePc t = closePc s" "activeWG t = activeWG s + 1"
      "pendingConns t = AList.delete (wid (works s ! g)) (pendingConns s)"
      "activeConns t = AList.update (wid (works s ! g)) (length (lcs s)) (activeConns s)"
    using True assms(3) by (fastforce simp: t_def inPromote_def wrk_def promotePending_def Let_def kind_def split: option.split)
  have "ids_ok t" using True k t assms(1,2)
    by (intro conn_ids_update [OF _ assms(2) t(1)]) (auto simp: live_kind live_def update_conv delete_conv)
  moreover have "counts_ok t" by (rule counts_update [OF _ assms(2) t(1)]) (use True assms(1) k t in simp_all)
  ultimately show ?thesis by (simp add: t_def)
qed

lemma pending_end_ids:
  assumes "ids_ok s \<and> counts_ok s" "g < length (works s)" "wpc (works s ! g) = GPendingEnd"
  shows "ids_ok (inPendingEnd g s) \<and> counts_ok (inPendingEnd g s)"
  using assms by (intro done_update [OF assms(1,2)])
    (auto simp: inPendingEnd_def works_setPc finishPending_def wrk_def kind_def live_def delete_conv)

lemma finishing_ids:
  assumes "ids_ok s \<and> counts_ok s" "g < length (works s)" "wpc (works s ! g) = GFinishing"
  shows "ids_ok (inFinishing g s) \<and> counts_ok (inFinishing g s)"
  using assms by (intro done_update [OF assms(1,2)])
    (auto simp: inFinishing_def works_setPc finishActive_def wrk_def kind_def live_def delete_conv Let_def)

lemma close_ids:
  assumes "ids_ok s \<and> counts_ok s"
  shows "ids_ok (proxyClose ps ls s) \<and> counts_ok (proxyClose ps ls s)"
  using ids_okD [OF conjunct1 [OF assms]] assms by (auto simp: proxyClose_def counts_ok_def intro!: ids_okI)

lemma close_step_ids:
  assumes "ids_ok s \<and> counts_ok s" "xguard XCloseStep s"
  shows "ids_ok (closeStep s) \<and> counts_ok (closeStep s)"
proof -
  have w: "works (closeStep s) = works s" "nextConnID (closeStep s) = nextConnID s" "pclosed (closeStep s) = pclosed s"
    "pendingConns (closeStep s) = pendingConns s" "activeConns (closeStep s) = activeConns s" "activeWG (closeStep s) = activeWG s"
    by (auto simp: closeStep_def split: close_pc.split list.split)
  have "ids_ok (closeStep s)" by (rule ids_frame [of s]) (use assms(1) w in simp_all)
  moreover have "closePc (closeStep s) = CIdle \<longleftrightarrow> closePc s = CIdle" "closePc (closeStep s) = CDone \<Longrightarrow> activeWG s = 0"
    using assms(2) by (auto simp: closeStep_def split: close_pc.splits list.splits)
  then have "counts_ok (closeStep s)" using assms(1) w by - (rule counts_frame [of s]; simp)
  ultimately show ?thesis by simp
qed

lemma ids_happen:
  assumes "ids_ok s \<and> counts_ok s" "xguard e s" "length (works s) < 2 ^ 64"
  shows "ids_ok (xhappen e s) \<and> counts_ok (xhappen e s)"
proof (cases "quiet_event e")
  case True
  then show ?thesis using same_maps_step [OF assms(1)] quiet_same_maps assms(2) by blast
next
  case False
  then show ?thesis
  proof (cases e)
    case (XPromote g)
    then show ?thesis using assms promote_ids [OF assms(1)] pcAt_cases [of g s] by (auto split: work_pc.splits)
  next
    case XCloseStep
    then show ?thesis using assms close_step_ids by simp
  qed (use assms incoming_ids register_ids pending_end_ids finishing_ids close_ids in \<open>auto dest!: pcAt_cases\<close>)
qed

section \<open>Classification\<close>

lemma ReadFull_suffix: "suffix (snd (ReadFull n s)) s"
  by (simp add: ReadFull_def suffix_drop)

lemma ReadFrame_suffix: "suffix (snd (ReadFrame c s)) s"
proof -
  obtain r s1 where r: "ReadFull 8 s = (r, s1)" by (cases "ReadFull 8 s")
  then have 1: "suffix s1 s" using ReadFull_suffix [of 8 s] by simp
  have 2: "ReadFull n s1 = (q, s2) \<Longrightarrow> suffix s2 s" for n q s2
    using ReadFull_suffix [of n s1] 1 suffix_order.trans by fastforce
  from 1 r show ?thesis by (auto simp: ReadFrame_def Let_def split: sum.split prod.split dest: 2)
qed

lemma read_frame_suffix: "suffix (snd (read_frame c s k)) s"
  using ReadFrame_suffix [of c s] by (auto simp: read_frame_def split: prod.split sum.split)

lemma take_suffix: "suffix r s \<Longrightarrow> take (length s - length r) s @ r @ q = s @ q"
  by (auto simp: suffix_def)

text \<open>The role that the first message gives a connection.\<close>

definition role_of :: "('j \<Rightarrow> string \<times> string) \<Rightarrow> msg_error + 'j message \<Rightarrow> string" where
  "role_of sidNonce decoded =
     (case decoded of
        Inr (JSONMsg NatHoleSid j) \<Rightarrow> if fst (sidNonce j) \<noteq> [] \<and> snd (sidNonce j) = ''xudp'' then XUDPWorkConnRoleP2P else XUDPWorkConnRoleRelay
      | _ \<Rightarrow> XUDPWorkConnRoleRelay)"

lemma classify_v2:
  assumes "setOk conn" "clearOk conn"
  shows "classifyXUDPWorkConn V J sidNonce conn None ProtocolV2 =
    Inr (role_of sidNonce (fst (V2_ReadMsg NewConn J (early conn))), early conn @ late conn)"
proof -
  obtain d rest where r: "V2_ReadMsg NewConn J (early conn) = (d, rest)" by (cases "V2_ReadMsg NewConn J (early conn)")
  then have "suffix rest (early conn)" using read_frame_suffix [of NewConn "early conn" "DecodeV2MessageFrame J"] by (simp add: V2_ReadMsg_def)
  note s = take_suffix [OF this, of "late conn"]
  have rm: "ReadMsg V J (NewReadWriter ProtocolV2) (early conn) = (d, rest)" using r by (simp add: ReadMsg_def NewReadWriter_def)
  show ?thesis
    using assms by (auto simp: classifyXUDPWorkConn_def classifyLegacyXUDPWorkConn_def rm r s Let_def role_of_def
      XUDPWorkConnRoleP2P_def XUDPWorkConnRoleRelay_def split: sum.split message.split msg_kind.split)
qed

text \<open>Work connections of servers that do not name the role.  A connection that opens with a session id for XUDP is taken for
  hole punching, one that opens with a datagram in either codec, or that stays silent until the deadline, for relaying; in every
  case the handler reads exactly the bytes the server sent, those the probe has consumed included.\<close>

theorem legacy_work_conn_classified:
  assumes "setOk conn" "clearOk conn"
  shows "\<exists>role. classifyXUDPWorkConn V J sidNonce conn None ProtocolV2 = Inr (role, early conn @ late conn) \<and>
    (early conn = json_bytes J (JSONMsg NatHoleSid j) @ rest \<and> json_ok NewConn J (JSONMsg NatHoleSid j) \<and>
       fst (sidNonce j) \<noteq> [] \<and> snd (sidNonce j) = ''xudp'' \<longrightarrow> role = XUDPWorkConnRoleP2P) \<and>
    (early conn = json_bytes J (UDPMsg p) @ rest \<and> json_ok NewConn J (UDPMsg p) \<longrightarrow> role = XUDPWorkConnRoleRelay) \<and>
    (early conn = binary_bytes J (UDPMsg p) @ rest \<and> binary_ok NewConn J (UDPMsg p) \<longrightarrow> role = XUDPWorkConnRoleRelay) \<and>
    (early conn = [] \<longrightarrow> role = XUDPWorkConnRoleRelay)"
proof (intro exI conjI impI)
  have silent: "fst (V2_ReadMsg NewConn J []) = Inl (WireErr (IOErr EOF))" by (simp add: V2_ReadMsg_def read_frame_def ReadFrame_def ReadFull_def)
  show "role_of sidNonce (fst (V2_ReadMsg NewConn J (early conn))) = XUDPWorkConnRoleRelay" if "early conn = []"
    using that silent by (simp add: role_of_def)
  show "classifyXUDPWorkConn V J sidNonce conn None ProtocolV2 =
      Inr (role_of sidNonce (fst (V2_ReadMsg NewConn J (early conn))), early conn @ late conn)"
    by (rule classify_v2 [OF assms])
next
  assume "early conn = binary_bytes J (UDPMsg p) @ rest \<and> binary_ok NewConn J (UDPMsg p)"
  then obtain body where b: "early conn = frame_bytes (message_frame V2TypeUDPPacketBinary body) @ rest"
    "frame_ok NewConn (message_frame V2TypeUDPPacketBinary body)"
    by (auto simp: binary_ok_def binary_bytes_def frame_ok_def split: sum.splits)
  have "V2_ReadMsg NewConn J (early conn) = (Inl (UnknownTypeID V2TypeUDPPacketBinary), rest)"
    unfolding b(1) by (simp add: V2_ReadMsg_def read_frame_message_frame [OF b(2)] DecodeV2MessageFrame_def binary_id_unused)
  then show "role_of sidNonce (fst (V2_ReadMsg NewConn J (early conn))) = XUDPWorkConnRoleRelay" by (simp add: role_of_def)
qed (auto simp: V2_ReadMsg_json_bytes role_of_def)

definition sid_json :: "nat json" where
  "sid_json = \<lparr>Marshal = (\<lambda>m. case m of JSONMsg NatHoleSid n \<Rightarrow> Some [word_of_nat n] | _ \<Rightarrow> None),
               Unmarshal = (\<lambda>k b. if k = NatHoleSid \<and> length b = 1 then Some (JSONMsg NatHoleSid (unat (hd b))) else None)\<rparr>"

definition no_v1 :: "nat v1_codec" where
  "no_v1 = \<lparr>V1Read = (\<lambda>s. (Inl PayloadTooShort, s)), V1Write = (\<lambda>m w. (Inl PayloadTooShort, w))\<rparr>"

definition sid_stream :: work_stream where
  "sid_stream = \<lparr>early = json_bytes sid_json (JSONMsg NatHoleSid 7) @ [1, 2], late = [3], setOk = True, clearOk = True\<rparr>"

theorem legacy_work_conn_classified_witness:
  "classifyXUDPWorkConn no_v1 sid_json (\<lambda>j. (''abc'', ''xudp'')) sid_stream None ProtocolV2 =
     Inr (XUDPWorkConnRoleP2P, json_bytes sid_json (JSONMsg NatHoleSid 7) @ [1, 2, 3])"
proof -
  have ok: "setOk sid_stream" "clearOk sid_stream" "early sid_stream = json_bytes sid_json (JSONMsg NatHoleSid 7) @ [1, 2]"
    "json_ok NewConn sid_json (JSONMsg NatHoleSid 7)" "late sid_stream = [3]"
    by (simp_all add: sid_stream_def json_ok_def sid_json_def NewConn_def DefaultMaxFramePayloadSize_def)
  from legacy_work_conn_classified [OF ok(1,2), of no_v1 sid_json "\<lambda>j. (''abc'', ''xudp'')" 7 "[1, 2]" sample_packet] ok(3-5)
  show ?thesis by auto
qed

end
