(* ===== verification/Xudp_Proxy_Close.thy ===== *)
theory Xudp_Proxy_Close
  imports Xudp_Proxy
begin

text \<open>
  What happens to the sockets of an XUDP proxy (\<open>Xudp_Proxy\<close>): invariants of the data planes' closers and of the
  resources, that nothing stays open when all calls have returned, what holds when \<^verbatim>\<open>Close\<close> has returned, and that
  \<^verbatim>\<open>Close\<close> does return.
\<close>

section \<open>Invariants: closers\<close>

definition owns :: "xproxy \<Rightarrow> nat \<Rightarrow> nat \<Rightarrow> bool" where
  "owns s l g \<longleftrightarrow> g < length (works s) \<and> kind (works s ! g) = KAct \<and> wlc (works s ! g) = l"

fun toStop :: "close_pc \<Rightarrow> nat list" where
  "toStop (CPending ps ls) = ls"
| "toStop (CStop ls) = ls"
| "toStop (CRun l ls) = ls"
| "toStop _ = []"

fun visited :: "close_pc \<Rightarrow> nat set" where
  "visited (CRun l ls) = {l}"
| "visited _ = {}"

text \<open>Whoever took the closers of a data plane is still there to run them.\<close>

definition minded :: "runner \<Rightarrow> nat \<Rightarrow> close_pc \<Rightarrow> work_pc \<Rightarrow> bool" where
  "minded who l cpc pc \<longleftrightarrow>
     (case who of ByClose \<Rightarrow> l \<in> visited cpc | ByWorker \<Rightarrow> (\<exists>n. pc = GWorkers (Suc n)) | ByMain \<Rightarrow> pc = GFinishing)"

definition lc_ok :: "xproxy \<Rightarrow> bool" where
  "lc_ok s \<longleftrightarrow>
     (\<forall>l g. owns s l g \<longrightarrow> l < length (lcs s)) \<and>
     (\<forall>l g h. owns s l g \<longrightarrow> owns s l h \<longrightarrow> g = h) \<and>
     (\<forall>l < length (lcs s). stopped (lcs s ! l) \<longrightarrow> closers (lcs s ! l) = []) \<and>
     (\<forall>l < length (lcs s). \<not> stopped (lcs s ! l) \<longrightarrow> remaining (lcs s ! l) = [] \<and> (\<exists>g. owns s l g \<and> wpc (works s ! g) \<noteq> GFinishing)) \<and>
     (\<forall>l < length (lcs s). remaining (lcs s ! l) \<noteq> [] \<longrightarrow> lrunner (lcs s ! l) = ByClose \<and> l \<in> visited (closePc s) \<or>
        (\<exists>g. owns s l g \<and> minded (lrunner (lcs s ! l)) l (closePc s) (wpc (works s ! g)))) \<and>
     (\<forall>l g. pclosed s \<longrightarrow> owns s l g \<longrightarrow> stopped (lcs s ! l) \<or> l \<in> set (toStop (closePc s))) \<and>
     snd ` set (activeConns s) \<subseteq> {..<length (lcs s)} \<and> visited (closePc s) \<union> set (toStop (closePc s)) \<subseteq> {..<length (lcs s)}"

lemma lc_okD:
  assumes "lc_ok s"
  shows "\<And>l g. owns s l g \<Longrightarrow> l < length (lcs s)"
    "\<And>l g h. owns s l g \<Longrightarrow> owns s l h \<Longrightarrow> g = h"
    "\<And>l. l < length (lcs s) \<Longrightarrow> stopped (lcs s ! l) \<Longrightarrow> closers (lcs s ! l) = []"
    "\<And>l. l < length (lcs s) \<Longrightarrow> \<not> stopped (lcs s ! l) \<Longrightarrow> remaining (lcs s ! l) = [] \<and> (\<exists>g. owns s l g \<and> wpc (works s ! g) \<noteq> GFinishing)"
    "\<And>l. l < length (lcs s) \<Longrightarrow> remaining (lcs s ! l) \<noteq> [] \<Longrightarrow> lrunner (lcs s ! l) = ByClose \<and> l \<in> visited (closePc s) \<or>
        (\<exists>g. owns s l g \<and> minded (lrunner (lcs s ! l)) l (closePc s) (wpc (works s ! g)))"
    "\<And>l g. pclosed s \<Longrightarrow> owns s l g \<Longrightarrow> stopped (lcs s ! l) \<or> l \<in> set (toStop (closePc s))"
    "snd ` set (activeConns s) \<subseteq> {..<length (lcs s)}" "visited (closePc s) \<union> set (toStop (closePc s)) \<subseteq> {..<length (lcs s)}"
proof -
  note a = assms [unfolded lc_ok_def]
  note a2 = a [THEN conjunct2] note a3 = a2 [THEN conjunct2] note a4 = a3 [THEN conjunct2] note a5 = a4 [THEN conjunct2]
  note a6 = a5 [THEN conjunct2] note a7 = a6 [THEN conjunct2]
  show "\<And>l g. owns s l g \<Longrightarrow> l < length (lcs s)" by (rule a [THEN conjunct1, rule_format])
  show "\<And>l g h. owns s l g \<Longrightarrow> owns s l h \<Longrightarrow> g = h" by (rule a2 [THEN conjunct1, rule_format])
  show "\<And>l. l < length (lcs s) \<Longrightarrow> stopped (lcs s ! l) \<Longrightarrow> closers (lcs s ! l) = []" by (rule a3 [THEN conjunct1, rule_format])
  show "\<And>l. l < length (lcs s) \<Longrightarrow> \<not> stopped (lcs s ! l) \<Longrightarrow> remaining (lcs s ! l) = [] \<and> (\<exists>g. owns s l g \<and> wpc (works s ! g) \<noteq> GFinishing)"
    using a4 [THEN conjunct1] by simp
  show "\<And>l. l < length (lcs s) \<Longrightarrow> remaining (lcs s ! l) \<noteq> [] \<Longrightarrow> lrunner (lcs s ! l) = ByClose \<and> l \<in> visited (closePc s) \<or>
        (\<exists>g. owns s l g \<and> minded (lrunner (lcs s ! l)) l (closePc s) (wpc (works s ! g)))"
    using a5 [THEN conjunct1] by simp
  show "\<And>l g. pclosed s \<Longrightarrow> owns s l g \<Longrightarrow> stopped (lcs s ! l) \<or> l \<in> set (toStop (closePc s))"
    using a6 [THEN conjunct1] by blast
  show "snd ` set (activeConns s) \<subseteq> {..<length (lcs s)}" by (rule a7 [THEN conjunct1])
  show "visited (closePc s) \<union> set (toStop (closePc s)) \<subseteq> {..<length (lcs s)}" by (rule a7 [THEN conjunct2])
qed

lemma lc_okI:
  assumes "\<And>l g. owns s l g \<Longrightarrow> l < length (lcs s)"
    "\<And>l g h. owns s l g \<Longrightarrow> owns s l h \<Longrightarrow> g = h"
    "\<And>l. l < length (lcs s) \<Longrightarrow> stopped (lcs s ! l) \<Longrightarrow> closers (lcs s ! l) = []"
    "\<And>l. l < length (lcs s) \<Longrightarrow> \<not> stopped (lcs s ! l) \<Longrightarrow> remaining (lcs s ! l) = [] \<and> (\<exists>g. owns s l g \<and> wpc (works s ! g) \<noteq> GFinishing)"
    "\<And>l. l < length (lcs s) \<Longrightarrow> remaining (lcs s ! l) \<noteq> [] \<Longrightarrow> lrunner (lcs s ! l) = ByClose \<and> l \<in> visited (closePc s) \<or>
        (\<exists>g. owns s l g \<and> minded (lrunner (lcs s ! l)) l (closePc s) (wpc (works s ! g)))"
    "\<And>l g. pclosed s \<Longrightarrow> owns s l g \<Longrightarrow> stopped (lcs s ! l) \<or> l \<in> set (toStop (closePc s))"
    "snd ` set (activeConns s) \<subseteq> {..<length (lcs s)}" "visited (closePc s) \<union> set (toStop (closePc s)) \<subseteq> {..<length (lcs s)}"
  shows "lc_ok s"
  unfolding lc_ok_def by (intro conjI allI impI; (rule assms; assumption)?) (use assms in simp_all)

text \<open>A step of an active connection on its own data plane.\<close>

lemma lc_work:
  assumes "lc_ok s" "owns s l g" "works t = (works s)[g := w]" "kind w = KAct" "wlc w = l" "lcs t = (lcs s)[l := c]"
    "closePc t = closePc s" "pclosed t = pclosed s" "activeConns t = activeConns s"
    "stopped c \<Longrightarrow> closers c = []" "\<not> stopped c \<Longrightarrow> remaining c = [] \<and> wpc w \<noteq> GFinishing" "stopped (lcs s ! l) \<Longrightarrow> stopped c"
    "remaining c \<noteq> [] \<Longrightarrow> minded (lrunner c) l (closePc s) (wpc w)"
  shows "lc_ok t"
proof -
  have g: "g < length (works s)" "kind (works s ! g) = KAct" "wlc (works s ! g) = l" using assms(2) by (auto simp: owns_def)
  have l: "l < length (lcs s)" using lc_okD(1) [OF assms(1,2)] .
  have own: "owns t k h \<longleftrightarrow> owns s k h" for k h
    using g assms(3-5) by (cases "h = g") (auto simp: owns_def)
  have pc: "wpc (works t ! h) = (if h = g then wpc w else wpc (works s ! h))" if "owns s k h" for k h
    using g assms(3) that by (auto simp: owns_def nth_list_update)
  have lc: "lcs t ! k = (if k = l then c else lcs s ! k)" "length (lcs t) = length (lcs s)" for k
    using l assms(6) by (auto simp: nth_list_update)
  have oth: "h \<noteq> g" if "owns s k h" "k \<noteq> l" for k h using that g by (auto simp: owns_def)
  show ?thesis
  proof (rule lc_okI)
    show "stopped (lcs t ! k) \<or> k \<in> set (toStop (closePc t))" if "pclosed t" "owns t k h" for k h
      using that lc_okD(6) [OF assms(1), of k h] own lc assms(7,8,12) by auto
    fix k assume "k < length (lcs t)"
    then have k: "k < length (lcs s)" using lc by simp
    show "remaining (lcs t ! k) = [] \<and> (\<exists>g. owns t k g \<and> wpc (works t ! g) \<noteq> GFinishing)" if ns: "\<not> stopped (lcs t ! k)"
    proof (cases "k = l")
      case True
      then show ?thesis using that assms(2,11) pc lc own by auto
    next
      case False
      then obtain h where "owns s k h" "wpc (works s ! h) \<noteq> GFinishing" "remaining (lcs s ! k) = []"
        using lc_okD(4) [OF assms(1) k] ns lc by auto
      then show ?thesis using False pc oth lc own by metis
    qed
    show "lrunner (lcs t ! k) = ByClose \<and> k \<in> visited (closePc t) \<or>
        (\<exists>g. owns t k g \<and> minded (lrunner (lcs t ! k)) k (closePc t) (wpc (works t ! g)))" if "remaining (lcs t ! k) \<noteq> []"
    proof (cases "k = l")
      case True
      then show ?thesis using that assms(2,7,13) pc lc own by auto
    next
      case False
      then show ?thesis using lc_okD(5) [OF assms(1) k] that lc own pc oth assms(7) by metis
    qed
  qed (use lc_okD [OF assms(1)] own lc assms(7-12) l in \<open>auto split: if_splits\<close>)
qed

text \<open>Steps that leave active connections and their data planes alone.\<close>

lemma lc_frame:
  assumes "lc_ok s" "\<And>l g. owns t l g \<longleftrightarrow> owns s l g" "\<And>l g. owns s l g \<Longrightarrow> wpc (works t ! g) = wpc (works s ! g)"
    "lcs t = lcs s" "closePc t = closePc s" "pclosed t = pclosed s" "snd ` set (activeConns t) \<subseteq> snd ` set (activeConns s)"
  shows "lc_ok t"
proof (rule lc_okI)
  fix l assume "l < length (lcs t)"
  then have l: "l < length (lcs s)" using assms(4) by simp
  show "remaining (lcs t ! l) = [] \<and> (\<exists>g. owns t l g \<and> wpc (works t ! g) \<noteq> GFinishing)" if "\<not> stopped (lcs t ! l)"
    using lc_okD(4) [OF assms(1) l] that assms(2-4) by fastforce
  show "lrunner (lcs t ! l) = ByClose \<and> l \<in> visited (closePc t) \<or>
        (\<exists>g. owns t l g \<and> minded (lrunner (lcs t ! l)) l (closePc t) (wpc (works t ! g)))" if "remaining (lcs t ! l) \<noteq> []"
    using lc_okD(5) [OF assms(1) l] that assms(2-5) by fastforce
  show "closers (lcs t ! l) = []" if "stopped (lcs t ! l)" using lc_okD(3) [OF assms(1) l] that assms(4) by simp
next
  show "stopped (lcs t ! k) \<or> k \<in> set (toStop (closePc t))" if "pclosed t" "owns t k h" for k h
    using that lc_okD(6) [OF assms(1), of k h] assms by simp
qed (use lc_okD(1,2,7,8) [OF assms(1)] assms(2-7) in \<open>auto\<close>)

lemma lc_other:
  assumes "lc_ok s" "works t = (works s)[g := w]" "kind (works s ! g) \<noteq> KAct" "kind w \<noteq> KAct" "lcs t = lcs s" "closePc t = closePc s"
    "pclosed t = pclosed s" "snd ` set (activeConns t) \<subseteq> snd ` set (activeConns s)"
  shows "lc_ok t"
proof (rule lc_frame [OF assms(1) _ _ assms(5-8)])
  show "owns t l h \<longleftrightarrow> owns s l h" for l h using assms(2-4) by (cases "h = g"; cases "g < length (works s)") (auto simp: owns_def)
  show "wpc (works t ! h) = wpc (works s ! h)" if "owns s l h" for l h
    using assms(2,3) that by (cases "h = g") (auto simp: owns_def)
qed

lemma lc_incoming:
  assumes "lc_ok s"
  shows "lc_ok (incoming s)"
proof (rule lc_frame [OF assms])
  let ?w = "\<lparr>wres = length (resources s), wid = 0, wlc = 0, wlisten = 0, wdefer = [], wpc = GRegister\<rparr>"
  have w: "works (incoming s) = works s @ [?w]" and k: "kind ?w = KNew" by (auto simp: incoming_def newRes_def kind_def)
  show "owns (incoming s) l h \<longleftrightarrow> owns s l h" for l h using k by (auto simp: owns_def w nth_append less_Suc_eq)
  show "wpc (works (incoming s) ! h) = wpc (works s ! h)" if "owns s l h" for l h using that by (simp add: owns_def w nth_append)
qed (auto simp: incoming_def newRes_def)

lemma lc_promote:
  assumes "lc_ok s" "g < length (works s)" "kind (works s ! g) \<noteq> KAct" "works t = (works s)[g := w]" "kind w = KAct" "wlc w = length (lcs s)"
    "wpc w \<noteq> GFinishing" "lcs t = lcs s @ [\<lparr>stopped = False, closers = [], remaining = [], lrunner = ByMain\<rparr>]" "closePc t = closePc s"
    "\<not> pclosed t" "snd ` set (activeConns t) \<subseteq> insert (length (lcs s)) (snd ` set (activeConns s))"
  shows "lc_ok t"
proof -
  have own: "owns t l h \<longleftrightarrow> (if h = g then l = length (lcs s) else owns s l h)" for l h
    using assms(2-6) by (cases "h = g") (auto simp: owns_def)
  have notg: "\<not> owns s l g" for l using assms(3) by (simp add: owns_def)
  have pc: "wpc (works t ! h) = (if h = g then wpc w else wpc (works s ! h))" for h using assms(2,4) by (simp add: nth_list_update)
  have bd: "owns s l h \<Longrightarrow> l < length (lcs s)" for l h using lc_okD(1) [OF assms(1)] .
  have len: "length (lcs t) = Suc (length (lcs s))" using assms(8) by simp
  have lc: "lcs t ! l = (if l < length (lcs s) then lcs s ! l else \<lparr>stopped = False, closers = [], remaining = [], lrunner = ByMain\<rparr>)"
    if "l < length (lcs t)" for l using that assms(8) by (auto simp: nth_append less_Suc_eq)
  show ?thesis
  proof (rule lc_okI)
    show "h = k" if "owns t l h" "owns t l k" for l h k
      using that bd lc_okD(2) [OF assms(1), of l h k] by (fastforce simp: own split: if_splits)
    fix l assume l: "l < length (lcs t)"
    show "closers (lcs t ! l) = []" if "stopped (lcs t ! l)" using that lc [OF l] lc_okD(3) [OF assms(1), of l] by (auto split: if_splits)
    show "remaining (lcs t ! l) = [] \<and> (\<exists>g. owns t l g \<and> wpc (works t ! g) \<noteq> GFinishing)" if ns: "\<not> stopped (lcs t ! l)"
    proof (cases "l < length (lcs s)")
      case True
      then obtain h where "owns s l h" "wpc (works s ! h) \<noteq> GFinishing" "remaining (lcs s ! l) = []"
        using lc_okD(4) [OF assms(1) True] ns lc [OF l] by auto
      then show ?thesis using notg lc [OF l] True own pc by metis
    next
      case False
      then show ?thesis using l len lc [OF l] own [of l g] pc [of g] assms(7) by (auto intro!: exI [of _ g])
    qed
    show "lrunner (lcs t ! l) = ByClose \<and> l \<in> visited (closePc t) \<or>
        (\<exists>g. owns t l g \<and> minded (lrunner (lcs t ! l)) l (closePc t) (wpc (works t ! g)))" if rem: "remaining (lcs t ! l) \<noteq> []"
    proof -
      have l': "l < length (lcs s)" "remaining (lcs s ! l) \<noteq> []" "lcs t ! l = lcs s ! l" using rem lc [OF l] by (auto split: if_splits)
      from lc_okD(5) [OF assms(1) this(1,2)] show ?thesis using notg own pc l'(3) assms(9) by metis
    qed
  next
    show "l < length (lcs t)" if "owns t l h" for l h using that bd [of l h] len by (auto simp: own split: if_splits)
    show "snd ` set (activeConns t) \<subseteq> {..<length (lcs t)}" 
    proof
      fix x assume "x \<in> snd ` set (activeConns t)"
      then have "x = length (lcs s) \<or> x \<in> {..<length (lcs s)}" using lc_okD(7) [OF assms(1)] assms(11) by blast
      then show "x \<in> {..<length (lcs t)}" using len by auto
    qed
    show "visited (closePc t) \<union> set (toStop (closePc t)) \<subseteq> {..<length (lcs t)}"
      using lc_okD(8) [OF assms(1)] assms(9) len by (auto simp: subset_iff)
  qed (use assms(10) in simp)
qed

lemma lc_finish:
  assumes "lc_ok s" "owns s l g" "wpc (works s ! g) = GFinishing" "\<not> running ByMain l s" "works t = (works s)[g := w]" "kind w = KDone"
    "lcs t = lcs s" "closePc t = closePc s" "pclosed t = pclosed s" "snd ` set (activeConns t) \<subseteq> snd ` set (activeConns s)"
  shows "lc_ok t"
proof -
  have g: "g < length (works s)" using assms(2) by (simp add: owns_def)
  have own: "owns t k h \<longleftrightarrow> h \<noteq> g \<and> owns s k h" for k h using g assms(5,6) by (cases "h = g") (auto simp: owns_def)
  have pc: "h \<noteq> g \<Longrightarrow> wpc (works t ! h) = wpc (works s ! h)" for h using assms(5) by simp
  have gl: "owns s k g \<Longrightarrow> k = l" for k using assms(2) by (simp add: owns_def)
  show ?thesis
  proof (rule lc_okI)
    show "h = k" if "owns t m h" "owns t m k" for m h k using that own lc_okD(2) [OF assms(1), of m h k] by blast
    show "stopped (lcs t ! k) \<or> k \<in> set (toStop (closePc t))" if "pclosed t" "owns t k h" for k h
      using that own lc_okD(6) [OF assms(1), of k h] assms(7-9) by simp
    fix k assume "k < length (lcs t)"
    then have k: "k < length (lcs s)" using assms(7) by simp
    show "remaining (lcs t ! k) = [] \<and> (\<exists>g. owns t k g \<and> wpc (works t ! g) \<noteq> GFinishing)" if "\<not> stopped (lcs t ! k)"
      using lc_okD(4) [OF assms(1) k] that assms(3,7) own pc by metis
    show "lrunner (lcs t ! k) = ByClose \<and> k \<in> visited (closePc t) \<or>
        (\<exists>g. owns t k g \<and> minded (lrunner (lcs t ! k)) k (closePc t) (wpc (works t ! g)))" if rem: "remaining (lcs t ! k) \<noteq> []"
    proof (cases "lrunner (lcs s ! k) = ByClose \<and> k \<in> visited (closePc s)")
      case False
      then obtain h where h: "owns s k h" "minded (lrunner (lcs s ! k)) k (closePc s) (wpc (works s ! h))"
        using lc_okD(5) [OF assms(1) k] rem assms(7) by auto
      have "h \<noteq> g"
      proof
        assume "h = g"
        then have "k = l" "lrunner (lcs s ! k) = ByMain"
          using h gl assms(3) False by (auto simp: minded_def split: runner.splits)
        then show False using lc_okD(4) [OF assms(1) k] rem assms(4,7) by (auto simp: running_def)
      qed
      then show ?thesis using h own pc assms(7,8) by metis
    qed (use assms(7,8) in simp)
    show "closers (lcs t ! k) = []" if "stopped (lcs t ! k)" using lc_okD(3) [OF assms(1) k] that assms(7) by simp
  qed (use lc_okD(1,7,8) [OF assms(1)] own assms(7-10) in \<open>auto\<close>)
qed

text \<open>One closer is run.\<close>

lemma lc_closer:
  assumes "lc_ok s" "l < length (lcs s)" "remaining (lcs s ! l) \<noteq> []"
  shows "lc_ok (runCloser l s)"
proof -
  obtain r rs where r: "remaining (lcs s ! l) = r # rs" using assms(3) by (cases "remaining (lcs s ! l)") auto
  have st: "stopped (lcs s ! l)" using lc_okD(4) [OF assms(1,2)] assms(3) by blast
  have lc: "lcs (runCloser l s) = (lcs s)[l := (lcs s ! l)\<lparr>remaining := rs\<rparr>]" using r by (simp add: runCloser_def)
  have nth: "stopped (lcs (runCloser l s) ! k) = stopped (lcs s ! k)" "closers (lcs (runCloser l s) ! k) = closers (lcs s ! k)"
    "lrunner (lcs (runCloser l s) ! k) = lrunner (lcs s ! k)" "remaining (lcs (runCloser l s) ! k) = [] \<longleftrightarrow> remaining (lcs s ! k) = [] \<or> k = l \<and> rs = []"
    for k using lc r assms(2) by (auto simp: nth_list_update)
  have own: "owns (runCloser l s) k h \<longleftrightarrow> owns s k h" for k h by (simp add: owns_def)
  have len: "length (lcs (runCloser l s)) = length (lcs s)" using lc by simp
  show ?thesis
  proof (rule lc_okI)
    fix k assume "k < length (lcs (runCloser l s))"
    then have k: "k < length (lcs s)" using len by simp
    show "remaining (lcs (runCloser l s) ! k) = [] \<and> (\<exists>g. owns (runCloser l s) k g \<and> wpc (works (runCloser l s) ! g) \<noteq> GFinishing)"
      if "\<not> stopped (lcs (runCloser l s) ! k)" using lc_okD(4) [OF assms(1) k] that by (auto simp: nth own)
    show "lrunner (lcs (runCloser l s) ! k) = ByClose \<and> k \<in> visited (closePc (runCloser l s)) \<or>
        (\<exists>g. owns (runCloser l s) k g \<and> minded (lrunner (lcs (runCloser l s) ! k)) k (closePc (runCloser l s)) (wpc (works (runCloser l s) ! g)))"
      if "remaining (lcs (runCloser l s) ! k) \<noteq> []" using lc_okD(5) [OF assms(1) k] that by (simp add: nth own)
    show "closers (lcs (runCloser l s) ! k) = []" if "stopped (lcs (runCloser l s) ! k)" using lc_okD(3) [OF assms(1) k] that by (simp add: nth)
  next
    show "stopped (lcs (runCloser l s) ! k) \<or> k \<in> set (toStop (closePc (runCloser l s)))" if "pclosed (runCloser l s)" "owns (runCloser l s) k h" for k h
      using that lc_okD(6) [OF assms(1), of k h] by (simp add: nth own)
  qed (use lc_okD(1,2,7,8) [OF assms(1)] own len in \<open>auto\<close>)
qed

lemma lc_minded:
  assumes "lc_ok s" "owns s l g" "remaining (lcs s ! l) \<noteq> []"
  shows "minded (lrunner (lcs s ! l)) l (closePc s) (wpc (works s ! g))"
  using lc_okD(5) [OF assms(1) lc_okD(1) [OF assms(1,2)] assms(3)] lc_okD(2) [OF assms(1,2)] by (auto simp: minded_def)

text \<open>Program counters at which an active connection does not run closers.\<close>

fun busy :: "work_pc \<Rightarrow> bool" where
  "busy (GWorkers (Suc n)) = True"
| "busy GFinishing = True"
| "busy _ = False"

lemma minded_idle: "minded who l cpc pc \<Longrightarrow> \<not> busy pc \<Longrightarrow> minded who l cpc pc'"
  by (auto simp: minded_def split: runner.splits)

lemma busy_iff: "busy pc \<longleftrightarrow> (\<exists>n. pc = GWorkers (Suc n)) \<or> pc = GFinishing" by (cases pc rule: busy.cases) auto

lemma lc_pc:
  assumes "lc_ok s" "owns s l g" "works t = (works s)[g := w]" "kind w = KAct" "wlc w = l" "lcs t = lcs s"
    "closePc t = closePc s" "pclosed t = pclosed s" "activeConns t = activeConns s" "\<not> busy (wpc (works s ! g))" "wpc w \<noteq> GFinishing"
  shows "lc_ok t"
proof (rule lc_work [OF assms(1-5) _ assms(7-9)])
  have l: "l < length (lcs s)" using lc_okD(1) [OF assms(1,2)] .
  show "lcs t = (lcs s)[l := lcs s ! l]" using assms(6) by simp
  show "remaining (lcs s ! l) \<noteq> [] \<Longrightarrow> minded (lrunner (lcs s ! l)) l (closePc s) (wpc w)"
    using lc_minded [OF assms(1,2)] minded_idle assms(10) by blast
qed (use lc_okD(3,4) [OF assms(1) lc_okD(1) [OF assms(1,2)]] assms(11) in auto)

lemma lc_add:
  assumes "lc_ok s" "owns s l g" "\<not> busy (wpc (works s ! g))" "class_of pc = KAct" "pc \<noteq> GFinishing"
  shows "lc_ok (setPc g pc (addCloser l r s))"
proof (cases "stopped (lcs s ! l)")
  case True
  then show ?thesis using assms by (intro lc_pc [OF assms(1,2)]) (auto simp: addCloser_def works_setPc owns_def)
next
  case False
  show ?thesis
  proof (rule lc_work [OF assms(1,2)])
    show "works (setPc g pc (addCloser l r s)) = (works s)[g := (works s ! g)\<lparr>wpc := pc\<rparr>]" by (simp add: works_setPc)
    show "lcs (setPc g pc (addCloser l r s)) = (lcs s)[l := (lcs s ! l)\<lparr>closers := closers (lcs s ! l) @ [r]\<rparr>]"
      using False by (simp add: addCloser_def)
  qed (use False assms lc_okD(4) [OF assms(1) lc_okD(1) [OF assms(1,2)]] in \<open>auto simp: owns_def\<close>)
qed

lemma stop_lcs:
  "lcs (stop who l s) = (lcs s)[l := if stopped (lcs s ! l) then lcs s ! l
     else \<lparr>stopped = True, closers = [], remaining = closers (lcs s ! l), lrunner = who\<rparr>]"
  by (simp add: stop_def)

lemma lc_stop:
  assumes "lc_ok s" "owns s l g" "works t = (works s)[g := w]" "kind w = KAct" "wlc w = l" "lcs t = lcs (stop who l s)"
    "closePc t = closePc s" "pclosed t = pclosed s" "activeConns t = activeConns s"
    "stopped (lcs s ! l) \<Longrightarrow> remaining (lcs s ! l) \<noteq> [] \<Longrightarrow> minded (lrunner (lcs s ! l)) l (closePc s) (wpc w)"
    "\<not> stopped (lcs s ! l) \<Longrightarrow> closers (lcs s ! l) \<noteq> [] \<Longrightarrow> minded who l (closePc s) (wpc w)"
  shows "lc_ok t"
  by (rule lc_work [OF assms(1-5) assms(6) [unfolded stop_lcs] assms(7-9)])
     (use lc_okD(3,4) [OF assms(1) lc_okD(1) [OF assms(1,2)]] assms(10,11) in \<open>auto split: if_splits\<close>)

lemma lc_worker_exit:
  assumes "lc_ok s" "g < length (works s)" "wpc (works s ! g) = GWorkers n" "0 < n" "running ByWorker (wlc (works s ! g)) s \<longrightarrow> 1 < n"
  shows "lc_ok (workerExit g s)"
proof -
  define l where "l = wlc (works s ! g)"
  have own: "owns s l g" using assms(2,3) by (simp add: owns_def l_def kind_def)
  have m: "minded (lrunner (lcs s ! l)) l (closePc s) (GWorkers n)" if "remaining (lcs s ! l) \<noteq> []"
    using lc_minded [OF assms(1) own that] assms(3) by simp
  show ?thesis
  proof (cases "\<not> stopped (lcs s ! l) \<and> running ByWorker l (stop ByWorker l s)")
    case True
    then have t: "workerExit g s = stop ByWorker l s" using assms(3) by (simp add: workerExit_def wrk_def Let_def l_def)
    show ?thesis unfolding t
      by (rule lc_stop [OF assms(1) own, where w = "works s ! g" and who = ByWorker])
         (use own assms(3,4) m in \<open>auto simp: owns_def minded_def gr0_conv_Suc\<close>)
  next
    case False
    then have t: "workerExit g s = setPc g (GWorkers (n - 1)) (stop ByWorker l s)" using assms(3) by (auto simp: workerExit_def wrk_def Let_def l_def)
    have l: "l < length (lcs s)" using lc_okD(1) [OF assms(1) own] .
    show ?thesis unfolding t
    proof (rule lc_stop [OF assms(1) own, where w = "(works s ! g)\<lparr>wpc := GWorkers (n - 1)\<rparr>" and who = ByWorker])
      show "minded (lrunner (lcs s ! l)) l (closePc s) (wpc ((works s ! g)\<lparr>wpc := GWorkers (n - 1)\<rparr>))"
        if "stopped (lcs s ! l)" "remaining (lcs s ! l) \<noteq> []"
      proof (cases "running ByWorker l s")
        case True
        then have "1 < n" using assms(5) l_def by simp
        then show ?thesis using True by (auto simp: running_def minded_def intro!: exI [of _ "n - 2"])
      next
        case False
        then show ?thesis using m [OF that(2)] that by (auto simp: running_def minded_def split: runner.splits)
      qed
      show "minded ByWorker l (closePc s) (wpc ((works s ! g)\<lparr>wpc := GWorkers (n - 1)\<rparr>))" if "\<not> stopped (lcs s ! l)" "closers (lcs s ! l) \<noteq> []"
        using False that l by (auto simp: running_def stop_lcs)
    qed (use own in \<open>auto simp: works_setPc owns_def\<close>)
  qed
qed

lemma lc_close:
  assumes "lc_ok s" "ids_ok s \<and> counts_ok s" "xguard (XClose ps ls) s"
  shows "lc_ok (proxyClose ps ls s)" (is "lc_ok ?t")
proof -
  have idle: "closePc s = CIdle" "set ls = snd ` set (activeConns s)" "\<not> pclosed s" using assms(2,3) by (auto simp: counts_ok_def)
  have own: "owns ?t l g \<longleftrightarrow> owns s l g" for l g by (simp add: owns_def proxyClose_def)
  have act: "l \<in> set ls" if "owns s l g" for l g
    using that ids_okD(5) [OF conjunct1 [OF assms(2)], of g] idle by (force simp: owns_def dest!: map_of_SomeD)
  have p: "works ?t = works s" "lcs ?t = lcs s" "closePc ?t = CPending ps ls" "activeConns ?t = activeConns s" by (simp_all add: proxyClose_def)
  note d = lc_okD [OF assms(1)]
  show ?thesis
  proof (rule lc_okI)
    fix l assume "l < length (lcs ?t)"
    then have l: "l < length (lcs s)" by (simp add: proxyClose_def)
    show "remaining (lcs ?t ! l) = [] \<and> (\<exists>g. owns ?t l g \<and> wpc (works ?t ! g) \<noteq> GFinishing)"
      if "\<not> stopped (lcs ?t ! l)" using d(4) [OF l] that unfolding p own by simp
    show "lrunner (lcs ?t ! l) = ByClose \<and> l \<in> visited (closePc ?t) \<or>
        (\<exists>g. owns ?t l g \<and> minded (lrunner (lcs ?t ! l)) l (closePc ?t) (wpc (works ?t ! g)))"
      if "remaining (lcs ?t ! l) \<noteq> []" using d(5) [OF l] that idle(1) unfolding p own by (auto simp: minded_def split: runner.splits)
    show "closers (lcs ?t ! l) = []" if "stopped (lcs ?t ! l)" using d(3) [OF l] that unfolding p by simp
  next
    show "stopped (lcs ?t ! k) \<or> k \<in> set (toStop (closePc ?t))" if "owns ?t k h" for k h
      using that act [of k h] unfolding p own by simp
    show "visited (closePc ?t) \<union> set (toStop (closePc ?t)) \<subseteq> {..<length (lcs ?t)}"
      using d(7) idle(2) unfolding p by simp
  qed (use d(1,2,7) own p in \<open>auto\<close>)
qed

text \<open>\<^verbatim>\<open>Close\<close> goes on without touching a data plane.\<close>

lemma lc_close_pc:
  assumes "lc_ok s" "works t = works s" "lcs t = lcs s" "pclosed t = pclosed s" "activeConns t = activeConns s"
    "toStop (closePc t) = toStop (closePc s)" "visited (closePc t) \<subseteq> visited (closePc s)"
    "\<And>l. l \<in> visited (closePc s) \<Longrightarrow> running ByClose l s \<Longrightarrow> l \<in> visited (closePc t)"
  shows "lc_ok t"
proof -
  have own: "owns t l g \<longleftrightarrow> owns s l g" for l g using assms(2) by (simp add: owns_def)
  note d = lc_okD [OF assms(1)]
  show ?thesis
  proof (rule lc_okI)
    fix l assume "l < length (lcs t)"
    then have l: "l < length (lcs s)" using assms(3) by simp
    show "remaining (lcs t ! l) = [] \<and> (\<exists>g. owns t l g \<and> wpc (works t ! g) \<noteq> GFinishing)" if "\<not> stopped (lcs t ! l)"
      using d(4) [OF l] that assms(2,3) own by simp
    show "lrunner (lcs t ! l) = ByClose \<and> l \<in> visited (closePc t) \<or>
        (\<exists>g. owns t l g \<and> minded (lrunner (lcs t ! l)) l (closePc t) (wpc (works t ! g)))" if rem: "remaining (lcs t ! l) \<noteq> []"
    proof -
      have "running ByClose l s" if "lrunner (lcs s ! l) = ByClose" using d(4) [OF l] rem that assms(3) by (auto simp: running_def)
      then show ?thesis using d(5) [OF l] rem assms(2,3,8) own by (auto simp: minded_def split: runner.splits)
    qed
    show "closers (lcs t ! l) = []" if "stopped (lcs t ! l)" using d(3) [OF l] that assms(3) by simp
  next
    show "stopped (lcs t ! k) \<or> k \<in> set (toStop (closePc t))" if "pclosed t" "owns t k h" for k h
      using that d(6) [of k h] assms(3,4,6) own by simp
  qed (use d(1,2,7,8) own assms in \<open>auto\<close>)
qed

lemma lc_close_stop:
  assumes "lc_ok s" "closePc s = CStop (l # ls)"
  shows "lc_ok ((stop ByClose l s)\<lparr>closePc := CRun l ls\<rparr>)" (is "lc_ok ?t")
proof -
  note d = lc_okD [OF assms(1)]
  have l: "l < length (lcs s)" using d(8) assms(2) by auto
  have own: "owns ?t k h \<longleftrightarrow> owns s k h" for k h by (simp add: owns_def)
  have len: "length (lcs ?t) = length (lcs s)" by (simp add: stop_lcs)
  have nth: "lcs ?t ! k = (if k = l \<and> \<not> stopped (lcs s ! l) then \<lparr>stopped = True, closers = [], remaining = closers (lcs s ! l), lrunner = ByClose\<rparr>
      else lcs s ! k)" for k using l by (auto simp: stop_lcs nth_list_update)
  show ?thesis
  proof (rule lc_okI)
    fix k assume "k < length (lcs ?t)"
    then have k: "k < length (lcs s)" using len by simp
    show "remaining (lcs ?t ! k) = [] \<and> (\<exists>g. owns ?t k g \<and> wpc (works ?t ! g) \<noteq> GFinishing)" if "\<not> stopped (lcs ?t ! k)"
      using d(4) [OF k] that unfolding nth own by (auto split: if_splits)
    show "lrunner (lcs ?t ! k) = ByClose \<and> k \<in> visited (closePc ?t) \<or>
        (\<exists>g. owns ?t k g \<and> minded (lrunner (lcs ?t ! k)) k (closePc ?t) (wpc (works ?t ! g)))" if "remaining (lcs ?t ! k) \<noteq> []"
      using d(5) [OF k] that assms(2) unfolding nth own by (auto simp: minded_def split: if_splits runner.splits)
    show "closers (lcs ?t ! k) = []" if "stopped (lcs ?t ! k)" using d(3) [OF k] that unfolding nth by (auto split: if_splits)
  next
    show "stopped (lcs ?t ! k) \<or> k \<in> set (toStop (closePc ?t))" if "pclosed ?t" "owns ?t k h" for k h
      using that d(6) [of k h] assms(2) unfolding nth own by auto
    show "visited (closePc ?t) \<union> set (toStop (closePc ?t)) \<subseteq> {..<length (lcs ?t)}" unfolding len using d(8) assms(2) by auto
  qed (use d(1,2,7) own len in \<open>auto\<close>)
qed

lemma lc_close_step:
  assumes "lc_ok s" "xguard XCloseStep s"
  shows "lc_ok (closeStep s)"
proof (cases "closePc s")
  case (CPending ps ls)
  then show ?thesis by (intro lc_close_pc [OF assms(1)]) (cases ps; simp add: closeStep_def)+
next
  case (CStop ls)
  show ?thesis
  proof (cases ls)
    case Nil
    then show ?thesis using CStop by (intro lc_close_pc [OF assms(1)]) (simp_all add: closeStep_def)
  next
    case (Cons l ls')
    then show ?thesis using CStop lc_close_stop [OF assms(1), of l ls'] by (simp add: closeStep_def)
  qed
next
  case (CRun l ls)
  then show ?thesis using assms(2) by (intro lc_close_pc [OF assms(1)]) (auto simp: closeStep_def)
next
  case CWait
  then show ?thesis by (intro lc_close_pc [OF assms(1)]) (simp_all add: closeStep_def)
qed (use assms(2) in simp_all)

text \<open>What a stage does to the connection and its data plane.\<close>

lemma work_ops:
  "works (pushDefer g r s) = (works s)[g := (works s ! g)\<lparr>wdefer := r # wdefer (works s ! g)\<rparr>]"
  "works (setListen g r s) = (works s)[g := (works s ! g)\<lparr>wlisten := r\<rparr>]"
  "lcs (pushDefer g r s) = lcs s" "lcs (setListen g r s) = lcs s" "closePc (pushDefer g r s) = closePc s" "closePc (setListen g r s) = closePc s"
  "pclosed (pushDefer g r s) = pclosed s" "pclosed (setListen g r s) = pclosed s" "activeConns (pushDefer g r s) = activeConns s"
  "activeConns (setListen g r s) = activeConns s" "resources (pushDefer g r s) = resources s" "resources (setListen g r s) = resources s"
  by (simp_all add: pushDefer_def setListen_def)

lemma stage_shape:
  assumes "g < length (works s)" "wpc (works s ! g) = GStage st"
  obtains w where "works (inStage r g s) = (works s)[g := w]" "kind w = KAct" "wlc w = wlc (works s ! g)" "wres w = wres (works s ! g)" "wpc w \<noteq> GFinishing"
    "lcs (inStage r g s) = lcs s" "closePc (inStage r g s) = closePc s" "pclosed (inStage r g s) = pclosed s"
    "activeConns (inStage r g s) = activeConns s"
proof -
  have "\<exists>w. works (inStage r g s) = (works s)[g := w] \<and> kind w = KAct \<and> wlc w = wlc (works s ! g) \<and> wres w = wres (works s ! g) \<and> wpc w \<noteq> GFinishing \<and>
    lcs (inStage r g s) = lcs s \<and> closePc (inStage r g s) = closePc s \<and> pclosed (inStage r g s) = pclosed s \<and>
    activeConns (inStage r g s) = activeConns s"
  proof (cases "st = RWrap \<or> st = RCodec")
    case True
    then show ?thesis using assms
      by (cases r) (auto simp: inStage_def wrk_def stageRelay_def newRes_let Let_def works_setPc work_ops kind_def)
  next
    case False
    then show ?thesis using assms
      by (intro exI [of _ "works (inStage r g s) ! g"]; cases st; cases r)
         (auto simp: inStage_def wrk_def stageP2P_def newRes_let Let_def works_setPc work_ops kind_def)
  qed
  then show ?thesis using that by blast
qed

lemma promote_shape:
  assumes "ids_ok s" "g < length (works s)" "wpc (works s ! g) = GPromote m" "\<not> pclosed s"
  shows "inPromote g s = s\<lparr>pendingConns := AList.delete (wid (works s ! g)) (pendingConns s), activeWG := activeWG s + 1,
     activeConns := AList.update (wid (works s ! g)) (length (lcs s)) (activeConns s),
     lcs := lcs s @ [\<lparr>stopped = False, closers = [], remaining = [], lrunner = ByMain\<rparr>],
     works := (works s)[g := (works s ! g)\<lparr>wlc := length (lcs s), wlisten := (case m of None \<Rightarrow> 0 | Some r \<Rightarrow> r),
       wpc := (case m of None \<Rightarrow> GAdd [wres (works s ! g)] RWrap | Some r \<Rightarrow> GAdd [wres (works s ! g), r] PIdentity)\<rparr>]\<rparr>"
  using assms ids_okD(4) [OF assms(1,2)] by (simp add: inPromote_def wrk_def promotePending_def Let_def kind_def split: option.split)

lemma promote_closed_shape:
  assumes "wpc (works s ! g) = GPromote m" "pclosed s"
  shows "works (inPromote g s) = (works s)[g := (works s ! g)\<lparr>wpc := GPendingEnd\<rparr>]" "lcs (inPromote g s) = lcs s"
    "closePc (inPromote g s) = closePc s" "pclosed (inPromote g s) = pclosed s" "activeConns (inPromote g s) = activeConns s"
    "resources (inPromote g s) = (case m of None \<Rightarrow> resources s | Some r \<Rightarrow> (resources s)[r := True])"
  using assms by (auto simp: inPromote_def wrk_def promotePending_def Let_def works_setPc split: option.split)

lemma snd_update_delete:
  "snd ` set (AList.update k v al) \<subseteq> insert v (snd ` set al)" "snd ` set (AList.delete k al) \<subseteq> snd ` set al"
  by (induction al) (auto simp: AList.delete_eq)

lemma lc_happen:
  assumes "lc_ok s" "ids_ok s \<and> counts_ok s" "xguard e s"
  shows "lc_ok (xhappen e s)"
proof (cases e)
  case XIncoming
  then show ?thesis using lc_incoming [OF assms(1)] by simp
next
  case (XRegister g)
  then have g: "wpc (works s ! g) = GRegister" "g < length (works s)" using assms(3) pcAt_cases [of g s] by auto
  then show ?thesis using XRegister
    by (cases "pclosed s") (auto simp: inRegister_def wrk_def registerPending_def Let_def works_setPc kind_def intro!: lc_other [OF assms(1), of _ g])
next
  case (XClassify r g)
  then have g: "wpc (works s ! g) = GClassify" "g < length (works s)" using assms(3) pcAt_cases [of g s] by auto
  then show ?thesis using XClassify by (cases r) (auto simp: inClassify_def works_setPc kind_def intro!: lc_other [OF assms(1), of _ g])
next
  case (XReadSid ok g)
  then have g: "wpc (works s ! g) = GReadSid" "g < length (works s)" using assms(3) pcAt_cases [of g s] by auto
  then show ?thesis using XReadSid by (auto simp: inReadSid_def works_setPc kind_def intro!: lc_other [OF assms(1), of _ g])
next
  case (XPrepare ok g)
  then have g: "wpc (works s ! g) = GPrepare" "g < length (works s)" using assms(3) pcAt_cases [of g s] by auto
  then show ?thesis using XPrepare by (auto simp: inPrepare_def newRes_let works_setPc kind_def intro!: lc_other [OF assms(1), of _ g])
next
  case (XPromote g)
  then obtain m where g: "wpc (works s ! g) = GPromote m" "g < length (works s)" using assms(3) pcAt_cases [of g s] by (auto split: work_pc.splits)
  show ?thesis
  proof (cases "pclosed s")
    case True
    then show ?thesis using XPromote g promote_closed_shape [OF g(1) True] by (auto simp: kind_def intro!: lc_other [OF assms(1), of _ g])
  next
    case False
    note p = promote_shape [OF conjunct1 [OF assms(2)] g(2,1) False]
    define w where "w = (works s ! g)\<lparr>wlc := length (lcs s), wlisten := (case m of None \<Rightarrow> 0 | Some r \<Rightarrow> r),
       wpc := (case m of None \<Rightarrow> GAdd [wres (works s ! g)] RWrap | Some r \<Rightarrow> GAdd [wres (works s ! g), r] PIdentity)\<rparr>"
    have w: "kind w = KAct" "wlc w = length (lcs s)" "wpc w \<noteq> GFinishing" by (cases m; simp add: w_def kind_def)+
    have "lc_ok (inPromote g s)"
      by (rule lc_promote [OF assms(1) g(2), where w = w])
         (use g False w in \<open>simp_all add: p w_def [symmetric] snd_update_delete kind_def [of "works s ! g"]\<close>)
    then show ?thesis using XPromote by simp
  qed
next
  case (XPendingEnd g)
  then have g: "wpc (works s ! g) = GPendingEnd" "g < length (works s)" using assms(3) pcAt_cases [of g s] by auto
  then show ?thesis using XPendingEnd
    by (auto simp: inPendingEnd_def finishPending_def wrk_def works_setPc kind_def intro!: lc_other [OF assms(1), of _ g])
next
  case (XAdd g)
  then obtain rs st where g: "wpc (works s ! g) = GAdd rs st" "g < length (works s)" using assms(3) pcAt_cases [of g s] by (auto split: work_pc.splits)
  then have own: "owns s (wlc (works s ! g)) g" by (simp add: owns_def kind_def)
  show ?thesis
  proof (cases rs)
    case Nil
    then show ?thesis using XAdd g by (auto simp: inAdd_def wrk_def works_setPc intro!: lc_pc [OF assms(1) own])
  next
    case (Cons r rs')
    then show ?thesis using XAdd g lc_add [OF assms(1) own, of "GAdd rs' st" r] by (simp add: inAdd_def wrk_def)
  qed
next
  case (XStage r g)
  then obtain st where g: "wpc (works s ! g) = GStage st" "g < length (works s)" using assms(3) pcAt_cases [of g s] by (auto split: work_pc.splits)
  then have own: "owns s (wlc (works s ! g)) g" by (simp add: owns_def kind_def)
  obtain w where "works (inStage r g s) = (works s)[g := w]" "kind w = KAct" "wlc w = wlc (works s ! g)" "wpc w \<noteq> GFinishing"
    "lcs (inStage r g s) = lcs s" "closePc (inStage r g s) = closePc s" "pclosed (inStage r g s) = pclosed s"
    "activeConns (inStage r g s) = activeConns s" by (rule stage_shape [OF g(2,1)])
  then show ?thesis using XStage g by (auto intro!: lc_pc [OF assms(1) own])
next
  case (XWorkerExit g)
  then show ?thesis using assms(3) lc_worker_exit [OF assms(1), of g] pcAt_cases [of g s] by (auto simp: lcAt_def wrk_def split: work_pc.splits)
next
  case (XJoined g)
  then have g: "wpc (works s ! g) = GWorkers 0" "g < length (works s)" using assms(3) pcAt_cases [of g s] by auto
  then have own: "owns s (wlc (works s ! g)) g" by (simp add: owns_def kind_def)
  then show ?thesis using XJoined g by (auto simp: works_setPc intro!: lc_pc [OF assms(1) own])
next
  case (XReturn g)
  then have g: "wpc (works s ! g) = GReturn" "g < length (works s)" using assms(3) pcAt_cases [of g s] by auto
  then have own: "owns s (wlc (works s ! g)) g" by (simp add: owns_def kind_def)
  then show ?thesis using XReturn g
    by (cases "wdefer (works s ! g)") (auto simp: inReturn_def wrk_def works_setPc kind_def intro!: lc_pc [OF assms(1) own])
next
  case (XFinish g)
  then have g: "wpc (works s ! g) = GFinish" "g < length (works s)" using assms(3) pcAt_cases [of g s] by auto
  then have own: "owns s (wlc (works s ! g)) g" by (simp add: owns_def kind_def)
  have t: "xhappen e s = setPc g GFinishing (stop ByMain (wlc (works s ! g)) s)" using XFinish by (simp add: inFinish_def wrk_def)
  show ?thesis unfolding t
  proof (rule lc_stop [OF assms(1) own, where w = "(works s ! g)\<lparr>wpc := GFinishing\<rparr>" and who = ByMain])
    show "minded (lrunner (lcs s ! wlc (works s ! g))) (wlc (works s ! g)) (closePc s) (wpc ((works s ! g)\<lparr>wpc := GFinishing\<rparr>))"
      if "remaining (lcs s ! wlc (works s ! g)) \<noteq> []" using minded_idle [OF lc_minded [OF assms(1) own that]] g by simp
  qed (auto simp: works_setPc minded_def)
next
  case (XFinishing g)
  then have g: "wpc (works s ! g) = GFinishing" "g < length (works s)" "\<not> running ByMain (wlc (works s ! g)) s"
    using assms(3) pcAt_cases [of g s] by (auto simp: lcAt_def wrk_def)
  then have own: "owns s (wlc (works s ! g)) g" by (simp add: owns_def kind_def)
  have t: "xhappen e s = setPc g GDone (finishActive (wid (works s ! g)) (wlc (works s ! g)) s)" using XFinishing by (simp add: inFinishing_def wrk_def)
  show ?thesis unfolding t
    by (rule lc_finish [OF assms(1) own g(1,3)]) (auto simp: works_setPc finishActive_def Let_def snd_update_delete(2))
next
  case (XCloser l)
  then show ?thesis using lc_closer [OF assms(1), of l] assms(3) by simp
next
  case (XClose ps ls)
  then show ?thesis using lc_close [OF assms(1,2), of ps ls] assms(3) by (simp del: xguard.simps)
next
  case XCloseStep
  then show ?thesis using lc_close_step [OF assms(1)] assms(3) by (simp del: xguard.simps)
qed

section \<open>Invariants: resources\<close>

text \<open>What a call of \<^verbatim>\<open>InWorkConn\<close> still has to close or to hand over, and what the closers of a data plane will close.\<close>

fun pc_hand :: "nat \<Rightarrow> work_pc \<Rightarrow> nat list" where
  "pc_hand r GRegister = [r]"
| "pc_hand r GClassify = [r]"
| "pc_hand r GReadSid = [r]"
| "pc_hand r GPrepare = [r]"
| "pc_hand r (GPromote None) = [r]"
| "pc_hand r (GPromote (Some q)) = [r, q]"
| "pc_hand r GPendingEnd = [r]"
| "pc_hand r (GAdd rs st) = rs"
| "pc_hand r (GStage (PVerify c)) = [c]"
| "pc_hand r _ = []"

definition in_hand :: "xproxy \<Rightarrow> nat \<Rightarrow> bool" where
  "in_hand s r \<longleftrightarrow> (\<exists>g < length (works s). r \<in> set (pc_hand (wres (works s ! g)) (wpc (works s ! g))))"

definition in_lcs :: "xproxy \<Rightarrow> nat \<Rightarrow> bool" where
  "in_lcs s r \<longleftrightarrow> (\<exists>l < length (lcs s). r \<in> set (closers (lcs s ! l)) \<union> set (remaining (lcs s ! l)))"

fun toClose :: "close_pc \<Rightarrow> nat list" where
  "toClose (CPending ps ls) = ps"
| "toClose _ = []"

definition res_ok :: "xproxy \<Rightarrow> bool" where
  "res_ok s \<longleftrightarrow>
     (\<forall>g < length (works s). wres (works s ! g) < length (resources s)) \<and>
     (\<forall>r < length (resources s). resources s ! r \<or> in_hand s r \<or> in_lcs s r) \<and>
     (\<forall>g < length (works s). pclosed s \<longrightarrow> kind (works s ! g) = KPre \<longrightarrow>
        resources s ! wres (works s ! g) \<or> wres (works s ! g) \<in> set (toClose (closePc s)))"

lemma res_okD:
  assumes "res_ok s"
  shows "\<And>g. g < length (works s) \<Longrightarrow> wres (works s ! g) < length (resources s)"
    "\<And>r. r < length (resources s) \<Longrightarrow> resources s ! r \<or> in_hand s r \<or> in_lcs s r"
    "\<And>g. g < length (works s) \<Longrightarrow> pclosed s \<Longrightarrow> kind (works s ! g) = KPre \<Longrightarrow>
        resources s ! wres (works s ! g) \<or> wres (works s ! g) \<in> set (toClose (closePc s))"
  using assms unfolding res_ok_def by blast+

lemma res_okI:
  assumes "\<And>g. g < length (works s) \<Longrightarrow> wres (works s ! g) < length (resources s)"
    "\<And>r. r < length (resources s) \<Longrightarrow> resources s ! r \<or> in_hand s r \<or> in_lcs s r"
    "\<And>g. g < length (works s) \<Longrightarrow> pclosed s \<Longrightarrow> kind (works s ! g) = KPre \<Longrightarrow>
        resources s ! wres (works s ! g) \<or> wres (works s ! g) \<in> set (toClose (closePc s))"
  shows "res_ok s"
  using assms unfolding res_ok_def by blast

text \<open>A step of one call, with what becomes of the resources it touches.\<close>

lemma res_update:
  assumes "res_ok s" "g < length (works s)" "works t = (works s)[g := w]" "wres w = wres (works s ! g)"
    "\<And>r. r < length (resources s) \<Longrightarrow> resources s ! r \<Longrightarrow> r < length (resources t) \<and> resources t ! r"
    "length (resources s) \<le> length (resources t)"
    "\<And>r. length (resources s) \<le> r \<Longrightarrow> r < length (resources t) \<Longrightarrow> resources t ! r \<or> r \<in> set (pc_hand (wres w) (wpc w)) \<or> in_lcs t r"
    "\<And>r. r \<in> set (pc_hand (wres (works s ! g)) (wpc (works s ! g))) \<Longrightarrow> r < length (resources s) \<Longrightarrow>
       resources t ! r \<or> r \<in> set (pc_hand (wres w) (wpc w)) \<or> in_lcs t r"
    "\<And>r. in_lcs s r \<Longrightarrow> r < length (resources s) \<Longrightarrow> resources t ! r \<or> in_lcs t r"
    "pclosed t = pclosed s" "closePc t = closePc s" "kind w = KPre \<Longrightarrow> kind (works s ! g) = KPre \<or> \<not> pclosed s"
  shows "res_ok t"
proof (rule res_okI)
  have nth: "works t ! h = (if h = g then w else works s ! h)" for h using assms(2,3) by (simp add: nth_list_update)
  have len: "length (works t) = length (works s)" using assms(3) by simp
  have hand: "in_hand t r" if "r \<in> set (pc_hand (wres w) (wpc w))" for r
    using that assms(2) len nth [of g] by (auto simp: in_hand_def intro!: exI [of _ g])
  show "resources t ! r \<or> in_hand t r \<or> in_lcs t r" if "r < length (resources t)" for r
  proof (cases "r < length (resources s)")
    case False
    then show ?thesis using assms(7) [of r] that hand by auto
  next
    case True
    from res_okD(2) [OF assms(1) True] consider "resources s ! r" | "in_lcs s r" | h where "h < length (works s)"
        "r \<in> set (pc_hand (wres (works s ! h)) (wpc (works s ! h)))" by (auto simp: in_hand_def)
    then show ?thesis
    proof cases
      case 1
      then show ?thesis using assms(5) True by blast
    next
      case 2
      then show ?thesis using assms(9) True by blast
    next
      case (3 h)
      then show ?thesis
      proof (cases "h = g")
        case True
        then show ?thesis using 3 assms(8) [of r] \<open>r < length (resources s)\<close> hand by blast
      next
        case False
        then show ?thesis using 3 len nth [of h] by (auto simp: in_hand_def)
      qed
    qed
  qed
  fix h assume "h < length (works t)"
  then have h: "h < length (works s)" using len by simp
  then have r: "wres (works s ! h) < length (resources s)" using res_okD(1) [OF assms(1)] by blast
  have w: "wres (works t ! h) = wres (works s ! h)" using assms(4) nth [of h] by simp
  show "wres (works t ! h) < length (resources t)" using r w assms(6) by simp
  show "resources t ! wres (works t ! h) \<or> wres (works t ! h) \<in> set (toClose (closePc t))" if "pclosed t" "kind (works t ! h) = KPre"
  proof -
    have "kind (works s ! h) = KPre" "pclosed s" using that nth [of h] assms(10,12) by (auto split: if_splits)
    then show ?thesis using res_okD(3) [OF assms(1) h] assms(5) [OF r] w assms(11) by auto
  qed
qed

lemma res_incoming:
  assumes "res_ok s"
  shows "res_ok (incoming s)"
proof -
  let ?w = "\<lparr>wres = length (resources s), wid = 0, wlc = 0, wlisten = 0, wdefer = [], wpc = GRegister\<rparr>"
  have w: "works (incoming s) = works s @ [?w]" "resources (incoming s) = resources s @ [False]" "lcs (incoming s) = lcs s"
      "pclosed (incoming s) = pclosed s" "closePc (incoming s) = closePc s" and k: "kind ?w = KNew"
    by (auto simp: incoming_def newRes_def kind_def)
  have new: "in_hand (incoming s) (length (resources s))" unfolding in_hand_def w by (intro exI [of _ "length (works s)"]) simp
  have old: "in_hand (incoming s) r" if "in_hand s r" for r
    using that unfolding in_hand_def w by (auto simp: nth_append intro: less_SucI)
  have lc: "in_lcs (incoming s) r \<longleftrightarrow> in_lcs s r" for r by (simp add: in_lcs_def w)
  show ?thesis
    using res_okD [OF assms] new old lc k
    by (intro res_okI) (fastforce simp: w nth_append less_Suc_eq)+
qed

lemma nth_set_true [simp]: "q < length xs \<Longrightarrow> (xs[r := True]) ! q \<longleftrightarrow> xs ! q \<or> q = r" by (cases "r = q") auto

text \<open>Resources held by closers, through the operations on data planes.\<close>

lemma in_lcs_eq: "lcs t = lcs s \<Longrightarrow> in_lcs t r \<longleftrightarrow> in_lcs s r" by (simp add: in_lcs_def)

lemma in_lcs_add:
  assumes "l < length (lcs s)" "r < length (resources s)"
  shows "resources (addCloser l r s) ! r \<or> in_lcs (addCloser l r s) r"
    "in_lcs s q \<Longrightarrow> in_lcs (addCloser l r s) q" "length (resources (addCloser l r s)) = length (resources s)"
    "q < length (resources s) \<Longrightarrow> resources s ! q \<Longrightarrow> resources (addCloser l r s) ! q"
proof -
  show "resources (addCloser l r s) ! r \<or> in_lcs (addCloser l r s) r"
    using assms by (auto simp: addCloser_def in_lcs_def intro!: exI [of _ l])
  show "in_lcs (addCloser l r s) q" if "in_lcs s q"
    using that assms(1) by (auto simp: addCloser_def in_lcs_def nth_list_update)
  show "length (resources (addCloser l r s)) = length (resources s)" by (simp add: addCloser_def)
  show "q < length (resources s) \<Longrightarrow> resources s ! q \<Longrightarrow> resources (addCloser l r s) ! q"
    by (simp add: addCloser_def)
qed

lemma in_lcs_stop:
  assumes "lc_ok s" "in_lcs s r"
  shows "in_lcs (stop who l s) r"
proof -
  from assms(2) obtain k where k: "k < length (lcs s)" "r \<in> set (closers (lcs s ! k)) \<union> set (remaining (lcs s ! k))" by (auto simp: in_lcs_def)
  then have "r \<in> set (closers (lcs (stop who l s) ! k)) \<union> set (remaining (lcs (stop who l s) ! k))"
    using lc_okD(4) [OF assms(1) k(1)] by (cases "l = k") (auto simp: stop_lcs)
  with k(1) show ?thesis by (auto simp: in_lcs_def stop_lcs)
qed

text \<open>A call goes on with nothing but its program counter changed.\<close>

lemma res_pc:
  assumes "res_ok s" "g < length (works s)" "works t = (works s)[g := w]" "wres w = wres (works s ! g)" "resources t = resources s"
    "lcs t = lcs s" "pclosed t = pclosed s" "closePc t = closePc s" "kind w = KPre \<Longrightarrow> kind (works s ! g) = KPre \<or> \<not> pclosed s"
    "set (pc_hand (wres (works s ! g)) (wpc (works s ! g))) \<subseteq> set (pc_hand (wres w) (wpc w))"
  shows "res_ok t"
  by (rule res_update [OF assms(1-4)]) (use assms in_lcs_eq [OF assms(6)] in \<open>auto\<close>)

text \<open>It closes some of what it has.\<close>

lemma res_closing:
  assumes "res_ok s" "g < length (works s)" "works t = (works s)[g := w]" "wres w = wres (works s ! g)" "resources t = (resources s)[q := True]"
    "lcs t = lcs s" "pclosed t = pclosed s" "closePc t = closePc s" "kind w = KPre \<Longrightarrow> kind (works s ! g) = KPre \<or> \<not> pclosed s"
    "set (pc_hand (wres (works s ! g)) (wpc (works s ! g))) \<subseteq> insert q (set (pc_hand (wres w) (wpc w)))"
  shows "res_ok t"
  by (rule res_update [OF assms(1-4)]) (use assms in_lcs_eq [OF assms(6)] in \<open>auto\<close>)

text \<open>It opens a socket.\<close>

lemma res_opening:
  assumes "res_ok s" "g < length (works s)" "works t = (works s)[g := w]" "wres w = wres (works s ! g)" "resources t = resources s @ [False]"
    "lcs t = lcs s" "pclosed t = pclosed s" "closePc t = closePc s" "kind w = KPre \<Longrightarrow> kind (works s ! g) = KPre \<or> \<not> pclosed s"
    "insert (length (resources s)) (set (pc_hand (wres (works s ! g)) (wpc (works s ! g)))) \<subseteq> set (pc_hand (wres w) (wpc w))"
  shows "res_ok t"
  by (rule res_update [OF assms(1-4)]) (use assms in_lcs_eq [OF assms(6)] in \<open>auto simp: nth_append less_Suc_eq\<close>)

lemma res_closer:
  assumes "res_ok s" "l < length (lcs s)" "remaining (lcs s ! l) \<noteq> []"
  shows "res_ok (runCloser l s)"
proof -
  obtain q qs where q: "remaining (lcs s ! l) = q # qs" using assms(3) by (cases "remaining (lcs s ! l)") auto
  have t: "lcs (runCloser l s) = (lcs s)[l := (lcs s ! l)\<lparr>remaining := qs\<rparr>]" "resources (runCloser l s) = (resources s)[q := True]"
    using q by (auto simp: runCloser_def)
  have lc: "r = q \<or> in_lcs (runCloser l s) r" if "in_lcs s r" for r
  proof -
    from that obtain k where k: "k < length (lcs s)" "r \<in> set (closers (lcs s ! k)) \<union> set (remaining (lcs s ! k))" by (auto simp: in_lcs_def)
    then have "r = q \<or> r \<in> set (closers (lcs (runCloser l s) ! k)) \<union> set (remaining (lcs (runCloser l s) ! k))"
      using q assms(2) by (auto simp: t nth_list_update)
    with k(1) t(1) show ?thesis by (auto simp: in_lcs_def)
  qed
  have hand: "in_hand (runCloser l s) r \<longleftrightarrow> in_hand s r" for r by (simp add: in_hand_def)
  note d = res_okD [OF assms(1)]
  show ?thesis
  proof (rule res_okI)
    show "resources (runCloser l s) ! r \<or> in_hand (runCloser l s) r \<or> in_lcs (runCloser l s) r" if "r < length (resources (runCloser l s))" for r
      using d(2) [of r] that lc [of r] by (auto simp: t(2) hand)
  qed (use d(1,3) in \<open>auto simp: t(2)\<close>)
qed

lemma res_close:
  assumes "res_ok s" "ids_ok s \<and> counts_ok s" "xguard (XClose ps ls) s"
  shows "res_ok (proxyClose ps ls s)"
proof (rule res_okI)
  have t: "works (proxyClose ps ls s) = works s" "resources (proxyClose ps ls s) = resources s" "lcs (proxyClose ps ls s) = lcs s"
    "closePc (proxyClose ps ls s) = CPending ps ls" by (simp_all add: proxyClose_def)
  have open': "\<not> pclosed s" "set ps = snd ` set (pendingConns s)" using assms(2,3) by (auto simp: counts_ok_def)
  show "resources (proxyClose ps ls s) ! wres (works (proxyClose ps ls s) ! g) \<or> wres (works (proxyClose ps ls s) ! g) \<in> set (toClose (closePc (proxyClose ps ls s)))"
    if "g < length (works (proxyClose ps ls s))" "kind (works (proxyClose ps ls s) ! g) = KPre" for g
    using ids_okD(4) [OF conjunct1 [OF assms(2)], of g] that open' unfolding t by (force dest!: map_of_SomeD)
  show "resources (proxyClose ps ls s) ! r \<or> in_hand (proxyClose ps ls s) r \<or> in_lcs (proxyClose ps ls s) r" if "r < length (resources (proxyClose ps ls s))" for r
    using res_okD(2) [OF assms(1), of r] that unfolding in_hand_def in_lcs_def t by simp
  show "wres (works (proxyClose ps ls s) ! g) < length (resources (proxyClose ps ls s))" if "g < length (works (proxyClose ps ls s))" for g
    using that res_okD(1) [OF assms(1), of g] unfolding t by simp
qed

lemma res_close_step:
  assumes "res_ok s" "lc_ok s" "xguard XCloseStep s"
  shows "res_ok (closeStep s)"
proof -
  have t: "works (closeStep s) = works s" "length (resources (closeStep s)) = length (resources s)" "pclosed (closeStep s) = pclosed s"
    by (auto simp: closeStep_def split: close_pc.split list.split)
  have mono: "resources (closeStep s) ! r" if "resources s ! r" "r < length (resources s)" for r
    using that by (auto simp: closeStep_def split: close_pc.split list.split)
  have lc: "in_lcs (closeStep s) r" if "in_lcs s r" for r
  proof (cases "\<exists>l ls. closePc s = CStop (l # ls)")
    case True
    then obtain l ls where "closePc s = CStop (l # ls)" by blast
    then have "lcs (closeStep s) = lcs (stop ByClose l s)" by (simp add: closeStep_def)
    then show ?thesis using in_lcs_eq in_lcs_stop [OF assms(2) that] by blast
  next
    case False
    then have "lcs (closeStep s) = lcs s" by (auto simp: closeStep_def split: close_pc.split list.split)
    then show ?thesis using in_lcs_eq that by blast
  qed
  have pend: "resources (closeStep s) ! r \<or> r \<in> set (toClose (closePc (closeStep s)))" if "r \<in> set (toClose (closePc s))" "r < length (resources s)" for r
    using that by (auto simp: closeStep_def split: close_pc.split list.split)
  show ?thesis
  proof (rule res_okI)
    show "resources (closeStep s) ! r \<or> in_hand (closeStep s) r \<or> in_lcs (closeStep s) r" if "r < length (resources (closeStep s))" for r
      using res_okD(2) [OF assms(1), of r] that mono lc unfolding in_hand_def t by auto
    fix g assume g: "g < length (works (closeStep s))"
    show "wres (works (closeStep s) ! g) < length (resources (closeStep s))" using g res_okD(1) [OF assms(1), of g] unfolding t by simp
    show "resources (closeStep s) ! wres (works (closeStep s) ! g) \<or> wres (works (closeStep s) ! g) \<in> set (toClose (closePc (closeStep s)))"
      if "pclosed (closeStep s)" "kind (works (closeStep s) ! g) = KPre"
      using that g res_okD(1,3) [OF assms(1), of g] mono pend unfolding t by blast
  qed
qed

lemmas stage_simps = inStage_def wrk_def stageP2P_def stageRelay_def newRes_let Let_def works_setPc work_ops

lemma res_stage:
  assumes "res_ok s" "g < length (works s)" "wpc (works s ! g) = GStage st"
  shows "res_ok (inStage r g s)"
proof -
  let ?t = "inStage r g s"
  obtain w where w: "works ?t = (works s)[g := w]" "kind w = KAct" "wres w = wres (works s ! g)" "lcs ?t = lcs s" "closePc ?t = closePc s" "pclosed ?t = pclosed s"
    by (rule stage_shape [OF assms(2,3)])
  then have wg: "wpc w = wpc (works ?t ! g)" using assms(2) by simp
  have k: "kind w = KPre \<Longrightarrow> kind (works s ! g) = KPre \<or> \<not> pclosed s" using w(2) by simp
  note pc = res_pc [OF assms(1,2) w(1,3) _ w(4,6,5) k, simplified assms(3) wg]
    and cl = res_closing [OF assms(1,2) w(1,3) _ w(4,6,5) k, simplified assms(3) wg]
    and op = res_opening [OF assms(1,2) w(1,3) _ w(4,6,5) k, simplified assms(3) wg]
  show ?thesis
  proof (cases st)
    case PHole
    then show ?thesis using assms(2,3) by (cases r) ((rule pc; simp add: stage_simps; fail) | (rule op; simp add: stage_simps; fail))+
  next
    case (PVerify c)
    then show ?thesis using assms(2,3) by (cases "r = Fails") ((rule pc; simp add: stage_simps; fail) | (rule cl [of c]; simp add: stage_simps; fail))+
  next
    case PListen
    then show ?thesis using assms(2,3)
      by (cases "r = Fails") ((rule op; simp add: stage_simps; fail) | (rule cl [of "wlisten (works s ! g)"]; simp add: stage_simps; fail))+
  next
    case RCodec
    then show ?thesis using assms(2,3)
      by (cases "r = Fails") ((rule pc; simp add: stage_simps; fail) | (rule cl [of "wlisten (works s ! g)"]; simp add: stage_simps; fail))+
  qed (insert assms(2,3), (cases "r = Fails"; ((rule pc; simp add: stage_simps; fail) | (rule op; simp add: stage_simps; fail)))+)
qed

lemma res_work:
  assumes "res_ok s" "lc_ok s" "ids_ok s \<and> counts_ok s" "g < length (works s)"
  shows "wpc (works s ! g) = GRegister \<Longrightarrow> res_ok (inRegister g s)"
    "wpc (works s ! g) = GPrepare \<Longrightarrow> res_ok (inPrepare ok g s)"
    "wpc (works s ! g) = GPendingEnd \<Longrightarrow> res_ok (inPendingEnd g s)"
    "wpc (works s ! g) = GFinish \<Longrightarrow> res_ok (inFinish g s)"
    "wpc (works s ! g) = GReturn \<Longrightarrow> res_ok (inReturn g s)"
    "wpc (works s ! g) = GFinishing \<Longrightarrow> res_ok (inFinishing g s)"
proof -
  let ?w = "works s ! g"
  show "res_ok (inRegister g s)" if "wpc ?w = GRegister"
  proof (cases "pclosed s")
    case True
    then show ?thesis using that assms(4)
      by (intro res_closing [OF assms(1,4), of _ "?w\<lparr>wpc := GDone\<rparr>" "wres ?w"]) (auto simp: inRegister_def registerPending_def wrk_def works_setPc)
  next
    case False
    then show ?thesis using that assms(4)
      by (intro res_pc [OF assms(1,4), of _ "?w\<lparr>wid := nextConnID s + 1, wpc := GClassify\<rparr>"])
         (auto simp: inRegister_def registerPending_def wrk_def Let_def)
  qed
  show "res_ok (inPrepare ok g s)" if "wpc ?w = GPrepare"
  proof (cases ok)
    case True
    then show ?thesis using that assms(4)
      by (intro res_opening [OF assms(1,4), of _ "?w\<lparr>wpc := GPromote (Some (length (resources s)))\<rparr>"]) (auto simp: inPrepare_def newRes_let works_setPc kind_def)
  next
    case False
    then show ?thesis using that assms(4)
      by (intro res_pc [OF assms(1,4), of _ "?w\<lparr>wpc := GPendingEnd\<rparr>"]) (auto simp: inPrepare_def works_setPc kind_def)
  qed
  show "res_ok (inPendingEnd g s)" if "wpc ?w = GPendingEnd"
    using that assms(4) by (intro res_closing [OF assms(1,4), of _ "?w\<lparr>wpc := GDone\<rparr>" "wres ?w"])
      (auto simp: inPendingEnd_def finishPending_def wrk_def works_setPc)
  show "res_ok (inFinish g s)" if "wpc ?w = GFinish"
    by (rule res_update [OF assms(1,4), of _ "?w\<lparr>wpc := GFinishing\<rparr>"])
       (use that in_lcs_stop [OF assms(2)] in \<open>auto simp: inFinish_def wrk_def works_setPc in_lcs_eq [of "setPc _ _ _"]\<close>)
  show "res_ok (inReturn g s)" if "wpc ?w = GReturn"
  proof (cases "wdefer ?w")
    case Nil
    then show ?thesis using that assms(4)
      by (intro res_pc [OF assms(1,4), of _ "?w\<lparr>wpc := GFinish\<rparr>"]) (auto simp: inReturn_def wrk_def works_setPc)
  next
    case (Cons r rs)
    then show ?thesis using that assms(4)
      by (intro res_closing [OF assms(1,4), of _ "?w\<lparr>wdefer := rs\<rparr>" r]) (auto simp: inReturn_def wrk_def kind_def)
  qed
  show "res_ok (inFinishing g s)" if "wpc ?w = GFinishing"
    using that assms(4) by (intro res_pc [OF assms(1,4), of _ "?w\<lparr>wpc := GDone\<rparr>"])
      (auto simp: inFinishing_def finishActive_def Let_def wrk_def works_setPc)
qed

lemma res_add:
  assumes "res_ok s" "lc_ok s" "g < length (works s)" "wpc (works s ! g) = GAdd rs st"
  shows "res_ok (inAdd g s)"
proof (cases rs)
  case Nil
  then show ?thesis using assms(3,4)
    by (intro res_pc [OF assms(1,3), of _ "(works s ! g)\<lparr>wpc := GStage st\<rparr>"]) (auto simp: inAdd_def wrk_def works_setPc kind_def)
next
  case (Cons r rs')
  define l where "l = wlc (works s ! g)"
  have l: "l < length (lcs s)" using lc_okD(1) [OF assms(2), of l g] assms(3,4) by (simp add: owns_def kind_def l_def)
  have t: "inAdd g s = setPc g (GAdd rs' st) (addCloser l r s)" using Cons assms(4) by (simp add: inAdd_def wrk_def l_def)
  note a = in_lcs_add [OF l]
  have len: "length (resources (addCloser l r s)) = length (resources s)" by (simp add: addCloser_def)
  have mono: "q < length (resources s) \<Longrightarrow> resources s ! q \<Longrightarrow> resources (addCloser l r s) ! q" for q by (simp add: addCloser_def)
  have lcm: "in_lcs s q \<Longrightarrow> in_lcs (addCloser l r s) q" for q using l by (auto simp: addCloser_def in_lcs_def nth_list_update)
  show ?thesis unfolding t
  proof (rule res_update [OF assms(1,3), of _ "(works s ! g)\<lparr>wpc := GAdd rs' st\<rparr>"])
    fix q assume "q \<in> set (pc_hand (wres (works s ! g)) (wpc (works s ! g)))" "q < length (resources s)"
    then show "resources (setPc g (GAdd rs' st) (addCloser l r s)) ! q \<or>
        q \<in> set (pc_hand (wres ((works s ! g)\<lparr>wpc := GAdd rs' st\<rparr>)) (wpc ((works s ! g)\<lparr>wpc := GAdd rs' st\<rparr>))) \<or>
        in_lcs (setPc g (GAdd rs' st) (addCloser l r s)) q"
      using a(1) [of r] Cons assms(4) by (auto simp: in_lcs_eq [of "setPc _ _ _"])
  qed (use len mono lcm assms(3) in \<open>auto simp: works_setPc in_lcs_eq [of "setPc _ _ _"] kind_def\<close>)
qed

lemma res_happen:
  assumes "res_ok s" "lc_ok s" "ids_ok s \<and> counts_ok s" "xguard e s"
  shows "res_ok (xhappen e s)"
proof (cases e)
  case (XClassify r g)
  then have g: "wpc (works s ! g) = GClassify" "g < length (works s)" using assms(4) pcAt_cases [of g s] by auto
  define pc where "pc = (case r of Rejected \<Rightarrow> GPendingEnd | RoleP2P \<Rightarrow> GReadSid | RoleRelay \<Rightarrow> GPromote None)"
  have "class_of pc = KPre" "pc_hand q pc = [q]" for q by (auto simp: pc_def split: work_role.split)
  then show ?thesis using XClassify g
    by (intro res_pc [OF assms(1) g(2), of _ "(works s ! g)\<lparr>wpc := pc\<rparr>"]) (auto simp: inClassify_def works_setPc pc_def kind_def)
next
  case (XReadSid ok g)
  then have g: "wpc (works s ! g) = GReadSid" "g < length (works s)" using assms(4) pcAt_cases [of g s] by auto
  then show ?thesis using XReadSid
    by (intro res_pc [OF assms(1) g(2), of _ "(works s ! g)\<lparr>wpc := (if ok then GPrepare else GPendingEnd)\<rparr>"]) (auto simp: inReadSid_def works_setPc kind_def)
next
  case (XPromote g)
  then obtain m where g: "wpc (works s ! g) = GPromote m" "g < length (works s)" using assms(4) pcAt_cases [of g s] by (auto split: work_pc.splits)
  show ?thesis
  proof (cases "pclosed s")
    case True
    note p = promote_closed_shape [OF g(1) True]
    have "res_ok (inPromote g s)"
    proof (cases m)
      case None
      with g p show ?thesis by (intro res_pc [OF assms(1) g(2) p(1)]) (auto simp: kind_def)
    next
      case (Some r)
      with g p show ?thesis by (intro res_closing [OF assms(1) g(2) p(1), of r]) (auto simp: kind_def)
    qed
    then show ?thesis using XPromote by simp
  next
    case False
    note p = promote_shape [OF conjunct1 [OF assms(3)] g(2,1) False]
    define w where "w = (works s ! g)\<lparr>wlc := length (lcs s), wlisten := (case m of None \<Rightarrow> 0 | Some r \<Rightarrow> r),
       wpc := (case m of None \<Rightarrow> GAdd [wres (works s ! g)] RWrap | Some r \<Rightarrow> GAdd [wres (works s ! g), r] PIdentity)\<rparr>"
    have w: "kind w = KAct" "wres w = wres (works s ! g)" "pc_hand (wres w) (wpc w) = pc_hand (wres (works s ! g)) (wpc (works s ! g))"
      using g by (cases m; simp add: w_def kind_def)+
    have lc: "in_lcs (inPromote g s) r" if "in_lcs s r" for r
      using that unfolding in_lcs_def p by (auto simp: nth_append intro: less_SucI)
    have "res_ok (inPromote g s)"
      by (rule res_update [OF assms(1) g(2), where w = w]) (use w lc in \<open>simp_all add: p w_def [symmetric]\<close>)
    then show ?thesis using XPromote by simp
  qed
next
  case (XStage r g)
  then show ?thesis using assms(4) res_stage [OF assms(1), of g _ r] pcAt_cases [of g s] by (auto split: work_pc.splits)
next
  case (XAdd g)
  then show ?thesis using assms(4) res_add [OF assms(1,2), of g] pcAt_cases [of g s] by (auto split: work_pc.splits)
next
  case (XWorkerExit g)
  then obtain n where g: "wpc (works s ! g) = GWorkers n" "g < length (works s)" using assms(4) pcAt_cases [of g s] by (auto split: work_pc.splits)
  show ?thesis
    by (rule res_update [OF assms(1) g(2), of _ "works (workerExit g s) ! g"])
       (use XWorkerExit g in_lcs_stop [OF assms(2)] in
        \<open>auto simp: workerExit_def wrk_def Let_def works_setPc in_lcs_eq [of "setPc _ _ _"] kind_def split: if_splits\<close>)
next
  case (XJoined g)
  then have g: "wpc (works s ! g) = GWorkers 0" "g < length (works s)" using assms(4) pcAt_cases [of g s] by auto
  then show ?thesis using XJoined
    by (intro res_pc [OF assms(1) g(2), of _ "(works s ! g)\<lparr>wpc := GReturn\<rparr>"]) (auto simp: works_setPc)
next
  case (XClose ps ls)
  then show ?thesis using res_close [OF assms(1,3), of ps ls] assms(4) by (simp del: xguard.simps)
next
  case XCloseStep
  then show ?thesis using res_close_step [OF assms(1,2)] assms(4) by (simp del: xguard.simps)
qed (use assms res_incoming res_work [OF assms(1-3)] res_closer in \<open>auto dest!: pcAt_cases\<close>)

section \<open>Reachable states\<close>

text \<open>Fewer than \<open>2 ^ 64\<close> work connections have come in: ids do not wrap around.\<close>

definition few :: "xproxy \<Rightarrow> bool" where
  "few s \<longleftrightarrow> length (works s) < 2 ^ 64"

definition xinv :: "xproxy \<Rightarrow> bool" where
  "xinv s \<longleftrightarrow> (few s \<longrightarrow> ids_ok s \<and> counts_ok s \<and> lc_ok s \<and> res_ok s)"

lemma works_mono: "length (works s) \<le> length (works (xhappen e s))"
proof (cases e)
  case (XStage r g)
  then show ?thesis
    by (auto simp: inStage_def stageP2P_def stageRelay_def newRes_let Let_def works_setPc work_ops split: work_pc.split stage.split stage_end.split)
next
  case (XRegister g)
  then show ?thesis by (auto simp: inRegister_def registerPending_def Let_def works_setPc)
next
  case (XPromote g)
  then show ?thesis by (auto simp: inPromote_def promotePending_def Let_def works_setPc split: work_pc.split option.split)
qed (auto simp: incoming_def newRes_def works_setPc inClassify_def inReadSid_def inPrepare_def newRes_let inPendingEnd_def finishPending_def
    inAdd_def workerExit_def Let_def inReturn_def inFinish_def inFinishing_def finishActive_def proxyClose_def closeStep_def
    split: work_pc.split list.split close_pc.split)

lemma few_back: "few (xhappen e s) \<Longrightarrow> few s"
  using works_mono [of s e] by (simp add: few_def)

interpretation proxies: event_system xguard xhappen newProxy xinv
proof unfold_locales
  show "xinv newProxy"
    by (simp add: xinv_def newProxy_def ids_ok_def counts_ok_def lc_ok_def res_ok_def owns_def in_hand_def in_lcs_def)
  show "xinv (xhappen e s)" if "xinv s" "xguard e s" for s e
    using that few_back [of e s] ids_happen [of s e] lc_happen [of s e] res_happen [of s e] by (auto simp: xinv_def few_def)
qed

lemma xinvD:
  assumes "steps xguard xhappen newProxy s" "few s"
  shows "ids_ok s" "counts_ok s" "lc_ok s" "res_ok s"
  using proxies.good_reached [OF assms(1)] assms(2) by (auto simp: xinv_def)

definition returned :: "xproxy \<Rightarrow> bool" where
  "returned s \<longleftrightarrow> (\<forall>w \<in> set (works s). wpc w = GDone)"

lemma no_leak_state:
  assumes "lc_ok s" "res_ok s" "returned s" "visited (closePc s) = {}"
  shows "\<forall>c \<in> set (resources s). c"
proof -
  have fin: "wpc (works s ! g) = GDone" if "g < length (works s)" for g using assms(3) that by (auto simp: returned_def)
  have none: "\<not> owns s l g" for l g using fin [of g] by (auto simp: owns_def kind_def)
  have "\<not> in_hand s r" for r using fin by (auto simp: in_hand_def)
  moreover have "\<not> in_lcs s r" for r
  proof
    assume "in_lcs s r"
    then obtain l where l: "l < length (lcs s)" "r \<in> set (closers (lcs s ! l)) \<union> set (remaining (lcs s ! l))" by (auto simp: in_lcs_def)
    have "stopped (lcs s ! l)" using lc_okD(4) [OF assms(1) l(1)] none by blast
    then have "closers (lcs s ! l) = []" "remaining (lcs s ! l) = []"
      using lc_okD(3,5) [OF assms(1) l(1)] none assms(4) by auto
    with l(2) show False by simp
  qed
  ultimately have "resources s ! r" if "r < length (resources s)" for r using res_okD(2) [OF assms(2) that] by blast
  then show ?thesis by (metis in_set_conv_nth)
qed


text \<open>After \<^verbatim>\<open>Close\<close>.  Once \<^verbatim>\<open>Close\<close> has returned no data plane runs and none is started later; a connection that is still being
  prepared has been closed under its handler; and by the time \<^verbatim>\<open>Close\<close> begins to wait every data plane has been told to stop.\<close>

theorem xudp_proxy_closed:
  assumes "steps xguard xhappen newProxy s" "few s" "g < length (works s)"
  shows "(closePc s = CDone \<longrightarrow> kind (works s ! g) \<noteq> KAct) \<and>
    (closePc s \<in> {CWait, CDone} \<longrightarrow> (kind (works s ! g) = KPre \<longrightarrow> resources s ! wres (works s ! g)) \<and>
       (kind (works s ! g) = KAct \<longrightarrow> stopped (lcs s ! wlc (works s ! g))))"
proof (intro conjI impI)
  note i = xinvD [OF assms(1,2)]
  have closed: "pclosed s" if "closePc s \<in> {CWait, CDone}" using i(2) that by (auto simp: counts_ok_def)
  show "kind (works s ! g) \<noteq> KAct" if "closePc s = CDone"
  proof -
    have "filter (\<lambda>w. kind w = KAct) (works s) = []" using i(2) that by (auto simp: counts_ok_def)
    then show ?thesis using assms(3) by (auto simp: filter_empty_conv)
  qed
  show "resources s ! wres (works s ! g)" if "closePc s \<in> {CWait, CDone}" "kind (works s ! g) = KPre"
    using res_okD(3) [OF i(4) assms(3) closed [OF that(1)] that(2)] that(1) by auto
  show "stopped (lcs s ! wlc (works s ! g))" if "closePc s \<in> {CWait, CDone}" "kind (works s ! g) = KAct"
    using lc_okD(6) [OF i(3) closed [OF that(1)], of "wlc (works s ! g)" g] that assms(3) by (auto simp: owns_def)
qed

section \<open>Close returns\<close>

text \<open>What is left to do, in a number that every step but the arrival of a connection decreases.\<close>

fun stage_rank :: "stage \<Rightarrow> nat" where
  "stage_rank PIdentity = 26"
| "stage_rank PExchange = 25"
| "stage_rank PHole = 24"
| "stage_rank PTLS = 19"
| "stage_rank PListen = 18"
| "stage_rank PAccept = 13"
| "stage_rank (PVerify c) = 12"
| "stage_rank RWrap = 14"
| "stage_rank RCodec = 10"
| "stage_rank (Run n) = n + 5"

fun pc_rank :: "work_pc \<Rightarrow> nat" where
  "pc_rank GRegister = 37"
| "pc_rank GClassify = 36"
| "pc_rank GReadSid = 35"
| "pc_rank GPrepare = 34"
| "pc_rank (GPromote m) = 33"
| "pc_rank (GAdd rs st) = stage_rank st + 1 + 2 * length rs"
| "pc_rank (GStage st) = stage_rank st"
| "pc_rank (GWorkers n) = n + 4"
| "pc_rank GReturn = 3"
| "pc_rank GFinish = 2"
| "pc_rank GFinishing = 1"
| "pc_rank GPendingEnd = 1"
| "pc_rank GDone = 0"

definition work_rank :: "work \<Rightarrow> nat" where
  "work_rank w = pc_rank (wpc w) + length (wdefer w)"

definition lc_rank :: "lifecycle \<Rightarrow> nat" where
  "lc_rank c = (if stopped c then 0 else 1) + length (closers c) + length (remaining c)"

fun close_rank :: "close_pc \<Rightarrow> nat" where
  "close_rank CIdle = 0"
| "close_rank (CPending ps ls) = length ps + 2 * length ls + 3"
| "close_rank (CStop ls) = 2 * length ls + 2"
| "close_rank (CRun l ls) = 2 * length ls + 3"
| "close_rank CWait = 1"
| "close_rank CDone = 0"

definition xwork :: "xproxy \<Rightarrow> nat" where
  "xwork s = sum_list (map work_rank (works s)) + sum_list (map lc_rank (lcs s)) + close_rank (closePc s)"

lemma sum_update: "i < length xs \<Longrightarrow> sum_list (map f (xs[i := x])) + f (xs ! i) = sum_list (map f xs) + (f x :: nat)"
  by (induction xs arbitrary: i) (auto split: nat.split)

lemma xwork_work:
  assumes "g < length (works s)" "works t = (works s)[g := w]" "sum_list (map lc_rank (lcs t)) + work_rank w < sum_list (map lc_rank (lcs s)) + work_rank (works s ! g)"
    "closePc t = closePc s"
  shows "xwork t < xwork s"
  using sum_update [OF assms(1), of work_rank w] assms(2-4) by (simp add: xwork_def)

lemma xwork_pc:
  assumes "g < length (works s)" "works t = (works s)[g := w]" "lcs t = lcs s" "work_rank w < work_rank (works s ! g)" "closePc t = closePc s"
  shows "xwork t < xwork s"
  using xwork_work [OF assms(1,2)] assms(3-5) by simp

lemma lc_rank_add: "l < length (lcs s) \<Longrightarrow> sum_list (map lc_rank (lcs (addCloser l r s))) \<le> Suc (sum_list (map lc_rank (lcs s)))"
  using sum_update [of l "lcs s" lc_rank "(lcs s ! l)\<lparr>closers := closers (lcs s ! l) @ [r]\<rparr>"] by (auto simp: addCloser_def lc_rank_def)

lemma lc_rank_stop:
  assumes "lc_ok s" "l < length (lcs s)"
  shows "sum_list (map lc_rank (lcs (stop who l s))) + (if stopped (lcs s ! l) then 0 else 1) = sum_list (map lc_rank (lcs s))"
  using sum_update [OF assms(2), of lc_rank "\<lparr>stopped = True, closers = [], remaining = closers (lcs s ! l), lrunner = who\<rparr>"]
    lc_okD(4) [OF assms] by (auto simp: stop_def lc_rank_def)

lemma stage_work:
  assumes "g < length (works s)" "wpc (works s ! g) = GStage st"
  shows "xwork (inStage r g s) < xwork s"
proof -
  let ?t = "inStage r g s"
  obtain w where w: "works ?t = (works s)[g := w]" "lcs ?t = lcs s" "closePc ?t = closePc s" by (rule stage_shape [OF assms])
  then have wg: "w = works ?t ! g" using assms(1) by simp
  have "work_rank w < work_rank (works s ! g)"
    using assms by (cases st; cases r) (auto simp: stage_simps wg work_rank_def)
  then show ?thesis using xwork_pc [OF assms(1) w(1,2) _ w(3)] by blast
qed

definition ownStep :: "xevent \<Rightarrow> xproxy \<Rightarrow> bool" where
  "ownStep e s \<longleftrightarrow> xguard e s \<and> e \<noteq> XIncoming"

lemma owns_lc: "lc_ok s \<Longrightarrow> g < length (works s) \<Longrightarrow> class_of (wpc (works s ! g)) = KAct \<Longrightarrow> wlc (works s ! g) < length (lcs s)"
  using lc_okD(1) [of s "wlc (works s ! g)" g] by (simp add: owns_def kind_def)

lemma close_step_work: "lc_ok s \<Longrightarrow> xguard XCloseStep s \<Longrightarrow> xwork (closeStep s) < xwork s"
  using lc_okD(8) [of s] lc_rank_stop [of s _ ByClose]
  by (force simp: closeStep_def xwork_def split: close_pc.splits list.splits if_splits)

lemma closer_work:
  assumes "l < length (lcs s)" "remaining (lcs s ! l) \<noteq> []"
  shows "xwork (runCloser l s) < xwork s"
proof -
  obtain q qs where q: "remaining (lcs s ! l) = q # qs" using assms(2) by (cases "remaining (lcs s ! l)") auto
  then show ?thesis using sum_update [OF assms(1), of lc_rank "(lcs s ! l)\<lparr>remaining := qs\<rparr>"]
    by (auto simp: runCloser_def xwork_def lc_rank_def)
qed

lemma own_step_work:
  assumes "lc_ok s" "ids_ok s \<and> counts_ok s" "ownStep e s" "closePc s \<noteq> CIdle"
  shows "xwork (xhappen e s) < xwork s"
proof (cases e)
  case (XRegister g)
  then have g: "wpc (works s ! g) = GRegister" "g < length (works s)" using assms(3) pcAt_cases [of g s] by (auto simp: ownStep_def)
  have "pclosed s" using assms(2,4) by (simp add: counts_ok_def)
  then show ?thesis using XRegister g
    by (intro xwork_pc [OF g(2), of _ "(works s ! g)\<lparr>wpc := GDone\<rparr>"]) (auto simp: inRegister_def registerPending_def wrk_def works_setPc work_rank_def)
next
  case (XClassify r g)
  then have g: "wpc (works s ! g) = GClassify" "g < length (works s)" using assms(3) pcAt_cases [of g s] by (auto simp: ownStep_def)
  then show ?thesis using XClassify
    by (cases r) (auto intro!: xwork_pc [OF g(2)] simp: inClassify_def works_setPc work_rank_def)
next
  case (XReadSid ok g)
  then have g: "wpc (works s ! g) = GReadSid" "g < length (works s)" using assms(3) pcAt_cases [of g s] by (auto simp: ownStep_def)
  then show ?thesis using XReadSid by (auto intro!: xwork_pc [OF g(2)] simp: inReadSid_def works_setPc work_rank_def)
next
  case (XPrepare ok g)
  then have g: "wpc (works s ! g) = GPrepare" "g < length (works s)" using assms(3) pcAt_cases [of g s] by (auto simp: ownStep_def)
  then show ?thesis using XPrepare by (auto intro!: xwork_pc [OF g(2)] simp: inPrepare_def newRes_let works_setPc work_rank_def)
next
  case (XPromote g)
  then obtain m where g: "wpc (works s ! g) = GPromote m" "g < length (works s)" using assms(3) pcAt_cases [of g s] by (auto simp: ownStep_def split: work_pc.splits)
  have "pclosed s" using assms(2,4) by (simp add: counts_ok_def)
  note p = promote_closed_shape [OF g(1) this]
  show ?thesis using XPromote g p by (auto intro!: xwork_pc [OF g(2)] simp: work_rank_def)
next
  case (XPendingEnd g)
  then have g: "wpc (works s ! g) = GPendingEnd" "g < length (works s)" using assms(3) pcAt_cases [of g s] by (auto simp: ownStep_def)
  then show ?thesis using XPendingEnd
    by (auto intro!: xwork_pc [OF g(2)] simp: inPendingEnd_def finishPending_def wrk_def works_setPc work_rank_def)
next
  case (XAdd g)
  then obtain rs st where g: "wpc (works s ! g) = GAdd rs st" "g < length (works s)" using assms(3) pcAt_cases [of g s] by (auto simp: ownStep_def split: work_pc.splits)
  have l: "wlc (works s ! g) < length (lcs s)" using owns_lc [OF assms(1) g(2)] g(1) by simp
  show ?thesis
  proof (cases rs)
    case Nil
    then show ?thesis using XAdd g by (auto intro!: xwork_pc [OF g(2)] simp: inAdd_def wrk_def works_setPc work_rank_def)
  next
    case (Cons r rs')
    then show ?thesis using XAdd g lc_rank_add [OF l, of r]
      by (intro xwork_work [OF g(2), of _ "(works s ! g)\<lparr>wpc := GAdd rs' st\<rparr>"]) (auto simp: inAdd_def wrk_def works_setPc work_rank_def)
  qed
next
  case (XStage r g)
  then show ?thesis using assms(3) stage_work [of g s _ r] pcAt_cases [of g s] by (auto simp: ownStep_def split: work_pc.splits)
next
  case (XWorkerExit g)
  then obtain n where g: "wpc (works s ! g) = GWorkers n" "g < length (works s)" "0 < n"
    using assms(3) pcAt_cases [of g s] by (auto simp: ownStep_def split: work_pc.splits)
  have l: "wlc (works s ! g) < length (lcs s)" using owns_lc [OF assms(1) g(2)] g(1) by simp
  show ?thesis using XWorkerExit g lc_rank_stop [OF assms(1) l, of ByWorker]
    by (intro xwork_work [OF g(2), of _ "works (workerExit g s) ! g"])
       (auto simp: workerExit_def wrk_def Let_def works_setPc work_rank_def split: if_splits)
next
  case (XJoined g)
  then have g: "wpc (works s ! g) = GWorkers 0" "g < length (works s)" using assms(3) pcAt_cases [of g s] by (auto simp: ownStep_def)
  then show ?thesis using XJoined by (auto intro!: xwork_pc [OF g(2)] simp: works_setPc work_rank_def)
next
  case (XReturn g)
  then have g: "wpc (works s ! g) = GReturn" "g < length (works s)" using assms(3) pcAt_cases [of g s] by (auto simp: ownStep_def)
  then show ?thesis using XReturn
    by (cases "wdefer (works s ! g)") (auto intro!: xwork_pc [OF g(2)] simp: inReturn_def wrk_def works_setPc work_rank_def)
next
  case (XFinish g)
  then have g: "wpc (works s ! g) = GFinish" "g < length (works s)" using assms(3) pcAt_cases [of g s] by (auto simp: ownStep_def)
  have l: "wlc (works s ! g) < length (lcs s)" using owns_lc [OF assms(1) g(2)] g(1) by simp
  show ?thesis using XFinish g lc_rank_stop [OF assms(1) l, of ByMain]
    by (intro xwork_work [OF g(2), of _ "(works s ! g)\<lparr>wpc := GFinishing\<rparr>"]) (auto simp: inFinish_def wrk_def works_setPc work_rank_def split: if_splits)
next
  case (XFinishing g)
  then have g: "wpc (works s ! g) = GFinishing" "g < length (works s)" using assms(3) pcAt_cases [of g s] by (auto simp: ownStep_def)
  then show ?thesis using XFinishing by (auto intro!: xwork_pc [OF g(2)] simp: inFinishing_def finishActive_def Let_def wrk_def works_setPc work_rank_def)
next
  case (XCloser l)
  then show ?thesis using assms(3) closer_work by (simp add: ownStep_def)
next
  case XCloseStep
  then show ?thesis using assms(3) close_step_work [OF assms(1)] by (simp add: ownStep_def del: xguard.simps)
qed (use assms in \<open>auto simp: ownStep_def\<close>)

text \<open>Something can be done as long as a call or \<^verbatim>\<open>Close\<close> has not returned.\<close>

lemma work_progress:
  assumes "lc_ok s" "g < length (works s)" "wpc (works s ! g) \<noteq> GDone"
  shows "\<exists>e. ownStep e s"
proof -
  have at: "pcAt g s = wpc (works s ! g)" using assms(2) by (simp add: pcAt_def wrk_def)
  have closer: "ownStep (XCloser (wlc (works s ! g))) s" if "class_of (wpc (works s ! g)) = KAct" "running who (wlc (works s ! g)) s" for who
    using that owns_lc [OF assms(1,2)] by (simp add: ownStep_def running_def)
  show ?thesis
  proof (cases "wpc (works s ! g)")
    case GRegister then show ?thesis using at by (intro exI [of _ "XRegister g"]) (simp add: ownStep_def)
  next
    case GClassify then show ?thesis using at by (intro exI [of _ "XClassify Rejected g"]) (simp add: ownStep_def)
  next
    case GReadSid then show ?thesis using at by (intro exI [of _ "XReadSid False g"]) (simp add: ownStep_def)
  next
    case GPrepare then show ?thesis using at by (intro exI [of _ "XPrepare False g"]) (simp add: ownStep_def)
  next
    case (GPromote m) then show ?thesis using at by (intro exI [of _ "XPromote g"]) (simp add: ownStep_def)
  next
    case (GAdd rs st) then show ?thesis using at by (intro exI [of _ "XAdd g"]) (simp add: ownStep_def)
  next
    case (GStage st) then show ?thesis using at by (intro exI [of _ "XStage Fails g"]) (simp add: ownStep_def)
  next
    case (GWorkers n)
    show ?thesis
    proof (cases "running ByWorker (wlc (works s ! g)) s")
      case True
      with GWorkers closer show ?thesis by auto
    next
      case False
      then show ?thesis using GWorkers at
        by (intro exI [of _ "if n = 0 then XJoined g else XWorkerExit g"]) (simp add: ownStep_def lcAt_def wrk_def)
    qed
  next
    case GReturn then show ?thesis using at by (intro exI [of _ "XReturn g"]) (simp add: ownStep_def)
  next
    case GFinish then show ?thesis using at by (intro exI [of _ "XFinish g"]) (simp add: ownStep_def)
  next
    case GFinishing
    show ?thesis
    proof (cases "running ByMain (wlc (works s ! g)) s")
      case True
      with GFinishing closer show ?thesis by auto
    next
      case False
      then show ?thesis using GFinishing at by (intro exI [of _ "XFinishing g"]) (simp add: ownStep_def lcAt_def wrk_def)
    qed
  next
    case GPendingEnd then show ?thesis using at by (intro exI [of _ "XPendingEnd g"]) (simp add: ownStep_def)
  qed (use assms(3) in simp)
qed

lemma close_progress_proxy:
  assumes "lc_ok s" "counts_ok s" "returned s" "closePc s \<noteq> CIdle" "closePc s \<noteq> CDone"
  shows "\<exists>e. ownStep e s"
proof -
  have "filter (\<lambda>w. kind w = KAct) (works s) = []" using assms(3) by (auto simp: returned_def filter_empty_conv kind_def)
  then have wg: "activeWG s = 0" using assms(2) by (simp add: counts_ok_def)
  show ?thesis
  proof (cases "\<exists>l ls. closePc s = CRun l ls \<and> running ByClose l s")
    case True
    then obtain l ls where "closePc s = CRun l ls" "running ByClose l s" by blast
    then show ?thesis using lc_okD(8) [OF assms(1)] by (intro exI [of _ "XCloser l"]) (auto simp: ownStep_def running_def)
  next
    case False
    then show ?thesis using assms(4,5) wg by (intro exI [of _ XCloseStep]) (auto simp: ownStep_def split: close_pc.split)
  qed
qed

lemma own_step_stays:
  assumes "ownStep e s" "closePc s \<noteq> CIdle"
  shows "closePc (xhappen e s) \<noteq> CIdle" "length (works (xhappen e s)) = length (works s)"
proof -
  have g: "xguard e s" "e \<noteq> XIncoming" using assms(1) by (auto simp: ownStep_def)
  show "closePc (xhappen e s) \<noteq> CIdle"
  proof (cases e)
    case (XStage r g)
    then show ?thesis using assms(2)
      by (auto simp: inStage_def stageP2P_def stageRelay_def newRes_let Let_def work_ops split: work_pc.split stage.split stage_end.split)
  next
    case (XPromote g)
    then show ?thesis using assms(2) by (auto simp: inPromote_def promotePending_def Let_def split: work_pc.split option.split)
  qed (use g assms(2) in \<open>auto simp: inRegister_def registerPending_def Let_def inClassify_def inReadSid_def inPrepare_def newRes_let
    inPendingEnd_def finishPending_def inAdd_def workerExit_def inReturn_def inFinish_def inFinishing_def finishActive_def closeStep_def
    split: work_pc.split list.split close_pc.splits\<close>)
  show "length (works (xhappen e s)) = length (works s)"
  proof (cases e)
    case (XStage r g)
    then show ?thesis
      by (auto simp: inStage_def stageP2P_def stageRelay_def newRes_let Let_def works_setPc work_ops split: work_pc.split stage.split stage_end.split)
  next
    case (XPromote g)
    then show ?thesis by (auto simp: inPromote_def promotePending_def Let_def works_setPc split: work_pc.split option.split)
  qed (use g in \<open>auto simp: works_setPc inRegister_def registerPending_def Let_def inClassify_def inReadSid_def inPrepare_def newRes_let
    inPendingEnd_def finishPending_def inAdd_def workerExit_def inReturn_def inFinish_def inFinishing_def finishActive_def proxyClose_def closeStep_def
    split: work_pc.split list.split close_pc.split\<close>)
qed

lemma own_steps_bounded:
  assumes "xinv s" "few s" "closePc s \<noteq> CIdle" "run_ok ownStep xhappen es s"
  shows "length es \<le> xwork s \<and> xinv (fold xhappen es s) \<and> few (fold xhappen es s) \<and> closePc (fold xhappen es s) \<noteq> CIdle"
  using assms
proof (induction es arbitrary: s)
  case (Cons e es)
  from Cons.prems(4) have e: "ownStep e s" "run_ok ownStep xhappen es (xhappen e s)" by auto
  have i: "ids_ok s \<and> counts_ok s" "lc_ok s" using Cons.prems(1,2) by (auto simp: xinv_def)
  have "xinv (xhappen e s)" by (rule proxies.good_event [OF Cons.prems(1)]) (use e(1) in \<open>simp add: ownStep_def\<close>)
  moreover have "few (xhappen e s)" using own_step_stays(2) [OF e(1) Cons.prems(3)] Cons.prems(2) by (simp add: few_def)
  ultimately show ?case
    using Cons.IH [OF _ _ own_step_stays(1) [OF e(1) Cons.prems(3)] e(2)] own_step_work [OF i(2,1) e(1) Cons.prems(3)] by auto
qed simp


section \<open>A run\<close>

text \<open>One relayed connection with its workers running, one that waits for a session id; then \<^verbatim>\<open>Close\<close>.\<close>

definition serving_events :: "xevent list" where
  "serving_events = [XIncoming, XRegister 0, XClassify RoleRelay 0, XPromote 0, XAdd 0, XAdd 0, XStage GoodNew 0, XAdd 0, XAdd 0,
     XStage Good 0, XStage Good 0, XIncoming, XRegister 1, XClassify RoleP2P 1]"

definition stopping_events :: "xevent list" where
  "stopping_events = serving_events @ [XClose [2] [0], XCloseStep, XCloseStep, XCloseStep, XCloser 0, XCloser 0, XCloseStep, XCloseStep]"

definition ending_events :: "xevent list" where
  "ending_events = [XReadSid False 1, XWorkerExit 0, XWorkerExit 0, XWorkerExit 0, XWorkerExit 0, XJoined 0, XReturn 0, XFinish 0,
     XFinishing 0, XCloseStep, XPendingEnd 1]"

lemmas xproxy_eval = newProxy_def incoming_def newRes_def inRegister_def registerPending_def wrk_def Let_def setPc_def inClassify_def
  inPromote_def promotePending_def inAdd_def addCloser_def inStage_def stageRelay_def stageP2P_def setListen_def proxyClose_def
  closeStep_def stop_def runCloser_def closeRes_def running_def pcAt_def lcAt_def inReadSid_def workerExit_def inReturn_def
  inFinish_def inFinishing_def finishActive_def inPendingEnd_def finishPending_def few_def returned_def ownStep_def kind_def

lemma serving_run: "run_ok xguard xhappen serving_events newProxy"
  by (simp add: serving_events_def xproxy_eval)

lemma stopping_run: "run_ok xguard xhappen stopping_events newProxy"
  by (simp add: serving_events_def stopping_events_def xproxy_eval)

lemma ending_run: "run_ok ownStep xhappen ending_events (fold xhappen stopping_events newProxy)"
  by (simp add: serving_events_def stopping_events_def ending_events_def xproxy_eval)

lemma ended_run: "run_ok xguard xhappen (stopping_events @ ending_events) newProxy"
  by (simp add: serving_events_def stopping_events_def ending_events_def xproxy_eval)


theorem xudp_proxy_closed_witness:
  "closePc (fold xhappen stopping_events newProxy) = CWait \<and> kind (works (fold xhappen stopping_events newProxy) ! 1) = KPre \<and>
   resources (fold xhappen stopping_events newProxy) ! wres (works (fold xhappen stopping_events newProxy) ! 1)"
proof -
  let ?s = "fold xhappen stopping_events newProxy"
  have e: "few ?s" "1 < length (works ?s)" "closePc ?s = CWait" "kind (works ?s ! 1) = KPre"
    by (simp_all add: serving_events_def stopping_events_def xproxy_eval)
  with xudp_proxy_closed [OF steps_run [OF stopping_run] e(1,2)] show ?thesis by simp
qed


end
