(* ===== verification/Conn_Request.thy ===== *)
theory Conn_Request
  imports Prelude
begin

text \<open>
  Requests that cannot be cancelled: \<^verbatim>\<open>udpWorkConnRequest\<close> of \<^verbatim>\<open>server/proxy/udp.go\<close>, which waits for a work connection, and
  \<^verbatim>\<open>xudpPrepareRequest\<close> of \<^verbatim>\<open>client/visitor/xudp.go\<close>, which waits for a punched socket.  A producer calls something that
  takes its time and delivers the result through a channel of capacity one; a consumer waits for the result or
  for the end of its owner, whichever comes first, and in the second case cancels the request.  The two are the same protocol on
  different results; a result carries at most one socket, and that socket must be handed to the consumer or be
  closed, but never both.

  Producer and consumer interleave; a critical section is one step.  \<open>closings\<close> counts how often a result's socket was closed.
\<close>

section \<open>The protocol\<close>

text \<open>The producer: calling, holding the result, closing a result that nobody wants, finished.\<close>

datatype 'r producer = Calling | Produced 'r | Unwanted 'r | Finished

text \<open>The consumer: in the outer \<^verbatim>\<open>select\<close>, with a result before the inner one, cancelling (with a result it took from the
  channel, one to close after cancelling), closing what it found in the channel, closing the result it had, and returned.\<close>

datatype 'r consumer =
    Waiting | Received 'r | Cancelling "'r option" | Drained 'r "'r option" | Discarding 'r | Returned "'r option"

record 'r request =
  canceled :: bool
  resultCh :: "'r option"
  producer :: "'r producer"
  consumer :: "'r consumer"
  ended :: bool
  closings :: "'r \<Rightarrow> nat"

definition newRequest :: "'r request" where
  "newRequest = \<lparr>canceled = False, resultCh = None, producer = Calling, consumer = Waiting, ended = False, closings = (\<lambda>_. 0)\<rparr>"

definition closeResult :: "'r \<Rightarrow> 'r request \<Rightarrow> 'r request" where
  "closeResult x s = s\<lparr>closings := (closings s)(x := closings s x + 1)\<rparr>"

definition produce :: "'r \<Rightarrow> 'r request \<Rightarrow> 'r request" where
  "produce x s = s\<lparr>producer := Produced x\<rparr>"

text \<open>The producer's critical section.\<close>

definition deliver :: "'r request \<Rightarrow> 'r request" where
  "deliver s =
     (case producer s of
        Produced x \<Rightarrow>
          if canceled s then s\<lparr>producer := Unwanted x\<rparr>
          else (case resultCh s of
                  None \<Rightarrow> s\<lparr>resultCh := Some x, producer := Finished\<rparr>
                | Some _ \<Rightarrow> s\<lparr>producer := Unwanted x\<rparr>)
      | _ \<Rightarrow> s)"

definition dropUnwanted :: "'r request \<Rightarrow> 'r request" where
  "dropUnwanted s =
     (case producer s of Unwanted x \<Rightarrow> (closeResult x s)\<lparr>producer := Finished\<rparr> | _ \<Rightarrow> s)"

text \<open>The consumer's \<^verbatim>\<open>wait\<close>: receiving, seeing the end, and the inner \<^verbatim>\<open>select\<close>.\<close>

definition receive :: "'r request \<Rightarrow> 'r request" where
  "receive s = (case resultCh s of None \<Rightarrow> s | Some x \<Rightarrow> s\<lparr>resultCh := None, consumer := Received x\<rparr>)"

definition seeEnd :: "'r request \<Rightarrow> 'r request" where
  "seeEnd s = s\<lparr>consumer := Cancelling None\<rparr>"

definition innerSelect :: "'r request \<Rightarrow> 'r request" where
  "innerSelect s =
     (case consumer s of
        Received x \<Rightarrow> s\<lparr>consumer := (if ended s then Cancelling (Some x) else Returned (Some x))\<rparr>
      | _ \<Rightarrow> s)"

text \<open>\<^verbatim>\<open>cancel\<close>: its critical section, and closing what was in the channel.\<close>

definition afterCancel :: "'r option \<Rightarrow> 'r consumer" where
  "afterCancel hand = (case hand of None \<Rightarrow> Returned None | Some x \<Rightarrow> Discarding x)"

definition cancel :: "'r request \<Rightarrow> 'r request" where
  "cancel s =
     (case consumer s of
        Cancelling hand \<Rightarrow>
          (case resultCh s of
             None \<Rightarrow> s\<lparr>canceled := True, consumer := afterCancel hand\<rparr>
           | Some y \<Rightarrow> s\<lparr>canceled := True, resultCh := None, consumer := Drained y hand\<rparr>)
      | _ \<Rightarrow> s)"

definition closeDrained :: "'r request \<Rightarrow> 'r request" where
  "closeDrained s =
     (case consumer s of Drained y hand \<Rightarrow> (closeResult y s)\<lparr>consumer := afterCancel hand\<rparr> | _ \<Rightarrow> s)"

definition discard :: "'r request \<Rightarrow> 'r request" where
  "discard s =
     (case consumer s of Discarding x \<Rightarrow> (closeResult x s)\<lparr>consumer := Returned None\<rparr> | _ \<Rightarrow> s)"

datatype 'r revent =
    RProduce 'r | RDeliver | RDropUnwanted | REnd | RReceive | RSeeEnd | RInner | RCancel | RCloseDrained | RDiscard

fun rguard :: "'r revent \<Rightarrow> 'r request \<Rightarrow> bool" where
  "rguard (RProduce x) s \<longleftrightarrow> producer s = Calling"
| "rguard RDeliver s \<longleftrightarrow> (case producer s of Produced x \<Rightarrow> True | _ \<Rightarrow> False)"
| "rguard RDropUnwanted s \<longleftrightarrow> (case producer s of Unwanted x \<Rightarrow> True | _ \<Rightarrow> False)"
| "rguard REnd s \<longleftrightarrow> True"
| "rguard RReceive s \<longleftrightarrow> consumer s = Waiting \<and> resultCh s \<noteq> None"
| "rguard RSeeEnd s \<longleftrightarrow> consumer s = Waiting \<and> ended s"
| "rguard RInner s \<longleftrightarrow> (case consumer s of Received x \<Rightarrow> True | _ \<Rightarrow> False)"
| "rguard RCancel s \<longleftrightarrow> (case consumer s of Cancelling h \<Rightarrow> True | _ \<Rightarrow> False)"
| "rguard RCloseDrained s \<longleftrightarrow> (case consumer s of Drained y h \<Rightarrow> True | _ \<Rightarrow> False)"
| "rguard RDiscard s \<longleftrightarrow> (case consumer s of Discarding x \<Rightarrow> True | _ \<Rightarrow> False)"

fun rhappen :: "'r revent \<Rightarrow> 'r request \<Rightarrow> 'r request" where
  "rhappen (RProduce x) s = produce x s"
| "rhappen RDeliver s = deliver s"
| "rhappen RDropUnwanted s = dropUnwanted s"
| "rhappen REnd s = s\<lparr>ended := True\<rparr>"
| "rhappen RReceive s = receive s"
| "rhappen RSeeEnd s = seeEnd s"
| "rhappen RInner s = innerSelect s"
| "rhappen RCancel s = cancel s"
| "rhappen RCloseDrained s = closeDrained s"
| "rhappen RDiscard s = discard s"

section \<open>Every result goes one way\<close>

text \<open>Where the result is: one place at most, and closed otherwise.\<close>

fun in_producer :: "'r producer \<Rightarrow> 'r list" where
  "in_producer (Produced x) = [x]"
| "in_producer (Unwanted x) = [x]"
| "in_producer _ = []"

fun in_consumer :: "'r consumer \<Rightarrow> 'r list" where
  "in_consumer (Received x) = [x]"
| "in_consumer (Cancelling h) = (case h of None \<Rightarrow> [] | Some x \<Rightarrow> [x])"
| "in_consumer (Drained y h) = y # (case h of None \<Rightarrow> [] | Some x \<Rightarrow> [x])"
| "in_consumer (Discarding x) = [x]"
| "in_consumer (Returned r) = (case r of None \<Rightarrow> [] | Some x \<Rightarrow> [x])"
| "in_consumer Waiting = []"

definition places :: "'r request \<Rightarrow> 'r list" where
  "places s = in_producer (producer s) @ (case resultCh s of None \<Rightarrow> [] | Some x \<Rightarrow> [x]) @ in_consumer (consumer s)"

definition closed_results :: "'r request \<Rightarrow> 'r set" where
  "closed_results s = {x. closings s x > 0}"

definition rinv :: "'r request \<Rightarrow> bool" where
  "rinv s \<longleftrightarrow>
     (if producer s = Calling then places s = [] \<and> closings s = (\<lambda>_. 0)
      else (\<exists>x. (places s = [x] \<and> closings s = (\<lambda>_. 0) \<or> places s = [] \<and> closings s = (\<lambda>_. 0)(x := 1)))) \<and>
     ((consumer s = Returned None \<or> (\<exists>h. consumer s = Discarding h) \<or> (\<exists>y h. consumer s = Drained y h)) = canceled s) \<and>
     (canceled s \<longrightarrow> resultCh s = None)"

text \<open>The two uses: the result of a work connection request, and of a preparation; what closing a result closes.\<close>

record udpWorkConnResult =
  rconn :: "nat option"
  rerr :: bool

definition udpResultClose :: "udpWorkConnResult \<Rightarrow> nat list" where
  "udpResultClose r = (case rconn r of None \<Rightarrow> [] | Some c \<Rightarrow> [c])"

definition newUDPWorkConnRequest :: "udpWorkConnResult request" where
  "newUDPWorkConnRequest = newRequest"

record xudpPrepareResult =
  presult :: "nat option option"
  perr :: bool

definition recycle :: "xudpPrepareResult \<Rightarrow> nat list" where
  "recycle r = (case presult r of Some (Some c) \<Rightarrow> [c] | _ \<Rightarrow> [])"

definition newXUDPPrepareRequest :: "xudpPrepareResult request" where
  "newXUDPPrepareRequest = newRequest"

lemma rinv_start: "rinv newRequest"
  by (simp add: rinv_def newRequest_def places_def)

lemma rinv_event: assumes "rinv s" "rguard e s" shows "rinv (rhappen e s)"
proof (cases e)
  case (RProduce x)
  with assms show ?thesis
    by (auto simp: rinv_def produce_def places_def split: if_splits)
next
  case RDeliver
  with assms obtain x where "producer s = Produced x" by (auto split: producer.splits)
  with RDeliver assms show ?thesis
    by (auto simp: rinv_def deliver_def places_def split: option.splits if_splits)
next
  case RDropUnwanted
  with assms obtain x where "producer s = Unwanted x" by (auto split: producer.splits)
  with RDropUnwanted assms show ?thesis
    by (auto simp: rinv_def dropUnwanted_def places_def closeResult_def split: option.splits if_splits)
next
  case REnd
  moreover have "places (s\<lparr>ended := True\<rparr>) = places s" by (simp add: places_def)
  ultimately show ?thesis using assms by (auto simp: rinv_def split: if_splits)
next
  case RReceive
  with assms show ?thesis by (auto simp: rinv_def receive_def places_def split: option.splits if_splits)
next
  case RSeeEnd
  with assms show ?thesis by (auto simp: rinv_def seeEnd_def places_def)
next
  case RInner
  with assms obtain x where "consumer s = Received x" by (auto split: consumer.splits)
  with RInner assms show ?thesis by (auto simp: rinv_def innerSelect_def places_def split: option.splits if_splits)
next
  case RCancel
  with assms obtain h where "consumer s = Cancelling h" by (auto split: consumer.splits)
  with RCancel assms show ?thesis
    by (auto simp: rinv_def cancel_def places_def afterCancel_def split: option.splits if_splits)
next
  case RCloseDrained
  with assms obtain y h where "consumer s = Drained y h" by (auto split: consumer.splits)
  with RCloseDrained assms show ?thesis
    by (auto simp: rinv_def closeDrained_def places_def afterCancel_def closeResult_def split: option.splits if_splits)
next
  case RDiscard
  with assms obtain x where "consumer s = Discarding x" by (auto split: consumer.splits)
  with RDiscard assms show ?thesis
    by (auto simp: rinv_def discard_def places_def closeResult_def split: option.splits if_splits)
qed

interpretation requests: event_system rguard rhappen newRequest rinv
  by unfold_locales (auto simp: rinv_start rinv_event)

text \<open>A result that arrives late is neither leaked nor closed under its user.  However the producer, the consumer and the
  end of the owner interleave, a result given to the consumer is never closed by the request, and once both sides have
  finished the result was either given to the consumer or closed exactly once.\<close>

theorem request_result_once:
  assumes "steps rguard rhappen newRequest s"
  shows "(consumer s = Returned (Some x) \<longrightarrow> closings s = (\<lambda>_. 0)) \<and>
         (producer s = Finished \<longrightarrow> consumer s = Returned r \<longrightarrow>
            (\<exists>y. r = Some y \<and> closings s = (\<lambda>_. 0) \<or> r = None \<and> closings s = (\<lambda>_. 0)(y := 1)))"
proof -
  have inv: "rinv s" using requests.good_reached [OF assms] .
  show ?thesis
  proof (intro conjI impI)
    assume "consumer s = Returned (Some x)"
    with inv show "closings s = (\<lambda>_. 0)" by (auto simp: rinv_def places_def split: if_splits)
  next
    assume p: "producer s = Finished" and c: "consumer s = Returned r"
    from inv p c show "\<exists>y. r = Some y \<and> closings s = (\<lambda>_. 0) \<or> r = None \<and> closings s = (\<lambda>_. 0)(y := 1)"
      by (cases r; cases "resultCh s") (auto simp: rinv_def places_def)
  qed
qed

definition late_result :: "nat revent list" where
  "late_result = [REnd, RSeeEnd, RProduce 7, RDeliver, RCancel, RCloseDrained]"

theorem request_result_once_witness:
  "closings (fold rhappen late_result newRequest) = (\<lambda>_. 0)(7 := 1) \<and> consumer (fold rhappen late_result newRequest) = Returned None"
proof -
  have "run_ok rguard rhappen late_result newRequest"
    by (simp add: late_result_def newRequest_def produce_def deliver_def seeEnd_def cancel_def)
  from request_result_once [OF steps_run [OF this]] show ?thesis
    by (simp add: late_result_def newRequest_def produce_def deliver_def seeEnd_def cancel_def closeDrained_def afterCancel_def closeResult_def)
qed

end
