(* ===== verification/Proxy_Control.thy ===== *)
theory Proxy_Control
  imports Prelude
begin

text \<open>
  Registering and closing proxies: \<^verbatim>\<open>RegisterProxy\<close>, \<^verbatim>\<open>CloseProxy\<close>, \<^verbatim>\<open>closeProxy\<close> and the proxy part of
  \<^verbatim>\<open>worker\<close> in \<^verbatim>\<open>server/control.go\<close>, on the proxy manager of \<^verbatim>\<open>server/proxy/proxy.go\<close> that all clients
  share.  A control handles its own messages one after the other, but controls interleave with
  each other, so a registration is two steps (the checks, and running the proxy and adding it) and
  a close is two steps (leaving the control's map, and leaving the shared manager).  \<open>running\<close>
  counts, per control and name, the proxies that were started and not closed.
\<close>

section \<open>Data\<close>

record proxy =
  GetName :: string
  GetUsedPortsNum :: nat

record pcontrol =
  proxies :: "string \<rightharpoonup> proxy"
  portsUsedNum :: int
  registering :: "proxy option"
  closing :: "proxy list"
  stopped :: bool

record pserver =
  pxys :: "string \<rightharpoonup> nat"
  pcs :: "nat \<Rightarrow> pcontrol"
  running :: "nat \<Rightarrow> string \<Rightarrow> nat"

datatype proxy_error = ExceedMaxPorts | AlreadyExists | RunFailed | NameInUse

definition emptyControl :: pcontrol where
  "emptyControl = \<lparr>proxies = Map.empty, portsUsedNum = 0, registering = None, closing = [], stopped = False\<rparr>"

definition emptyServer :: pserver where
  "emptyServer = \<lparr>pxys = Map.empty, pcs = (\<lambda>_. emptyControl), running = (\<lambda>_ _. 0)\<rparr>"

definition updc :: "nat \<Rightarrow> (pcontrol \<Rightarrow> pcontrol) \<Rightarrow> pserver \<Rightarrow> pserver" where
  "updc c f sv = sv\<lparr>pcs := (pcs sv)(c := f (pcs sv c))\<rparr>"

section \<open>The proxy manager\<close>

definition ManagerAdd :: "string \<Rightarrow> nat \<Rightarrow> pserver \<Rightarrow> (proxy_error + unit) \<times> pserver" where
  "ManagerAdd name c sv =
     (if pxys sv name \<noteq> None then (Inl NameInUse, sv) else (Inr (), sv\<lparr>pxys := (pxys sv)(name \<mapsto> c)\<rparr>))"

definition ManagerExist :: "string \<Rightarrow> pserver \<Rightarrow> bool" where
  "ManagerExist name sv \<longleftrightarrow> pxys sv name \<noteq> None"

definition ManagerDel :: "string \<Rightarrow> pserver \<Rightarrow> pserver" where
  "ManagerDel name sv = sv\<lparr>pxys := (pxys sv)(name := None)\<rparr>"

section \<open>Registration\<close>

definition pxyRun :: "nat \<Rightarrow> proxy \<Rightarrow> pserver \<Rightarrow> pserver" where
  "pxyRun c p sv = sv\<lparr>running := (running sv)(c := (running sv c)(GetName p := running sv c (GetName p) + 1))\<rparr>"

definition pxyClose :: "nat \<Rightarrow> proxy \<Rightarrow> pserver \<Rightarrow> pserver" where
  "pxyClose c p sv = sv\<lparr>running := (running sv)(c := (running sv c)(GetName p := running sv c (GetName p) - 1))\<rparr>"

definition reservePorts :: "int \<Rightarrow> proxy \<Rightarrow> pcontrol \<Rightarrow> pcontrol" where
  "reservePorts maxPorts p pc =
     (if maxPorts > 0 then pc\<lparr>portsUsedNum := portsUsedNum pc + int (GetUsedPortsNum p)\<rparr> else pc)"

definition returnPorts :: "int \<Rightarrow> proxy \<Rightarrow> pcontrol \<Rightarrow> pcontrol" where
  "returnPorts maxPorts p pc =
     (if maxPorts > 0 then pc\<lparr>portsUsedNum := portsUsedNum pc - int (GetUsedPortsNum p)\<rparr> else pc)"

text \<open>Up to the check that the name is free.\<close>

definition registerBegin :: "int \<Rightarrow> nat \<Rightarrow> proxy \<Rightarrow> pserver \<Rightarrow> (proxy_error + unit) \<times> pserver" where
  "registerBegin maxPorts c p sv =
     (if maxPorts > 0 \<and> portsUsedNum (pcs sv c) + int (GetUsedPortsNum p) > maxPorts
        then (Inl ExceedMaxPorts, sv)
      else
        let sv1 = updc c (reservePorts maxPorts p) sv in
        if ManagerExist (GetName p) sv1
          then (Inl AlreadyExists, updc c (returnPorts maxPorts p) sv1)
        else (Inr (), updc c (\<lambda>pc. pc\<lparr>registering := Some p\<rparr>) sv1))"

text \<open>From running the proxy on; \<open>runOk\<close> says whether it could be started.\<close>

definition registerCommit :: "int \<Rightarrow> nat \<Rightarrow> proxy \<Rightarrow> bool \<Rightarrow> pserver \<Rightarrow> (proxy_error + unit) \<times> pserver" where
  "registerCommit maxPorts c p runOk sv0 =
     (let sv = updc c (\<lambda>pc. pc\<lparr>registering := None\<rparr>) sv0 in
      if \<not> runOk then (Inl RunFailed, updc c (returnPorts maxPorts p) sv)
      else
        let sv1 = pxyRun c p sv in
        (case ManagerAdd (GetName p) c sv1 of
           (Inl e, sv2) \<Rightarrow> (Inl e, updc c (returnPorts maxPorts p) (pxyClose c p sv2))
         | (Inr _, sv2) \<Rightarrow>
             (Inr (), updc c (\<lambda>pc. pc\<lparr>proxies := (proxies pc)(GetName p \<mapsto> p)\<rparr>) sv2)))"

section \<open>Closing\<close>

definition closeBegin :: "int \<Rightarrow> nat \<Rightarrow> string \<Rightarrow> pserver \<Rightarrow> pserver" where
  "closeBegin maxPorts c name sv =
     (case proxies (pcs sv c) name of
        None \<Rightarrow> sv
      | Some p \<Rightarrow>
          updc c (\<lambda>pc. (returnPorts maxPorts p pc)\<lparr>proxies := (proxies pc)(name := None), closing := closing pc @ [p]\<rparr>) sv)"

text \<open>\<^verbatim>\<open>closeProxy\<close> of the next proxy that has left the control's map.\<close>

definition closeProxy :: "nat \<Rightarrow> pserver \<Rightarrow> pserver" where
  "closeProxy c sv =
     (case closing (pcs sv c) of
        [] \<Rightarrow> sv
      | p # ps \<Rightarrow> ManagerDel (GetName p) (pxyClose c p (updc c (\<lambda>pc. pc\<lparr>closing := ps\<rparr>) sv)))"

text \<open>The end of a control: its whole map leaves; \<open>order\<close> is the order the map is iterated in.\<close>

definition stopControl :: "nat \<Rightarrow> string list \<Rightarrow> pserver \<Rightarrow> pserver" where
  "stopControl c order sv =
     updc c (\<lambda>pc. pc\<lparr>proxies := Map.empty, closing := closing pc @ map (\<lambda>n. the (proxies pc n)) order, stopped := True\<rparr>) sv"

section \<open>Executions\<close>

datatype pevent =
    PRegisterBegin nat proxy
  | PRegisterCommit nat bool
  | PCloseBegin nat string
  | PCloseProxy nat
  | PStop nat "string list"

fun penabled :: "pevent \<Rightarrow> pserver \<Rightarrow> bool" where
  "penabled (PRegisterBegin c p) sv \<longleftrightarrow> registering (pcs sv c) = None \<and> \<not> stopped (pcs sv c)"
| "penabled (PRegisterCommit c ok) sv \<longleftrightarrow> registering (pcs sv c) \<noteq> None"
| "penabled (PCloseBegin c name) sv \<longleftrightarrow> registering (pcs sv c) = None \<and> \<not> stopped (pcs sv c)"
| "penabled (PCloseProxy c) sv \<longleftrightarrow> True"
| "penabled (PStop c order) sv \<longleftrightarrow> registering (pcs sv c) = None \<and> \<not> stopped (pcs sv c) \<and>
     distinct order \<and> set order = dom (proxies (pcs sv c))"

fun phappen :: "int \<Rightarrow> pevent \<Rightarrow> pserver \<Rightarrow> pserver" where
  "phappen m (PRegisterBegin c p) sv = snd (registerBegin m c p sv)"
| "phappen m (PRegisterCommit c ok) sv =
     (case registering (pcs sv c) of None \<Rightarrow> sv | Some p \<Rightarrow> snd (registerCommit m c p ok sv))"
| "phappen m (PCloseBegin c name) sv = closeBegin m c name sv"
| "phappen m (PCloseProxy c) sv = closeProxy c sv"
| "phappen m (PStop c order) sv = stopControl c order sv"

inductive preachable :: "int \<Rightarrow> pserver \<Rightarrow> bool" for m where
  init: "preachable m emptyServer"
| step: "preachable m sv \<Longrightarrow> penabled ev sv \<Longrightarrow> preachable m (phappen m ev sv)"

section \<open>Invariants\<close>

definition ports_of :: "(string \<rightharpoonup> proxy) \<Rightarrow> int" where
  "ports_of m = (\<Sum>n\<in>dom m. int (GetUsedPortsNum (the (m n))))"

definition pending_ports :: "pcontrol \<Rightarrow> int" where
  "pending_ports pc = (case registering pc of None \<Rightarrow> 0 | Some p \<Rightarrow> int (GetUsedPortsNum p))"

definition pc_ok :: "int \<Rightarrow> pcontrol \<Rightarrow> bool" where
  "pc_ok m pc \<longleftrightarrow>
     finite (dom (proxies pc)) \<and> (\<forall>n p. proxies pc n = Some p \<longrightarrow> GetName p = n) \<and>
     (m > 0 \<longrightarrow> portsUsedNum pc \<le> m \<and> (\<not> stopped pc \<longrightarrow> portsUsedNum pc = ports_of (proxies pc) + pending_ports pc)) \<and>
     (stopped pc \<longrightarrow> registering pc = None \<and> proxies pc = Map.empty)"

text \<open>
  Of one name at one control: at most one open proxy, which the shared manager knows as this
  control's, and which is in the control's map or on its way out.
\<close>

definition name_ok :: "nat \<Rightarrow> bool \<Rightarrow> bool \<Rightarrow> nat \<Rightarrow> bool" where
  "name_ok open owned present leaving \<longleftrightarrow>
     open \<le> 1 \<and> (open = 1 \<longleftrightarrow> owned) \<and> open = (if present then 1 else 0) + leaving"

definition names_ok :: "pserver \<Rightarrow> bool" where
  "names_ok sv \<longleftrightarrow>
     (\<forall>c n. name_ok (running sv c n) (pxys sv n = Some c) (proxies (pcs sv c) n \<noteq> None)
              (count_list (map GetName (closing (pcs sv c))) n))"

definition pinv :: "int \<Rightarrow> pserver \<Rightarrow> bool" where
  "pinv m sv \<longleftrightarrow> (\<forall>c. pc_ok m (pcs sv c)) \<and> names_ok sv"

lemma ports_of_insert:
  assumes "finite (dom m)" "m n = None"
  shows "ports_of (m(n \<mapsto> p)) = ports_of m + int (GetUsedPortsNum p)"
proof -
  have "n \<notin> dom m" using assms(2) by auto
  moreover have "(\<Sum>k\<in>dom m. int (GetUsedPortsNum (the ((m(n \<mapsto> p)) k)))) = ports_of m"
    unfolding ports_of_def using \<open>n \<notin> dom m\<close> by (intro sum.cong) auto
  ultimately show ?thesis using assms(1) by (simp add: ports_of_def)
qed

lemma ports_of_delete:
  assumes "finite (dom m)" "m n = Some p"
  shows "ports_of (m(n := None)) = ports_of m - int (GetUsedPortsNum p)"
proof -
  have "m = (m(n := None))(n \<mapsto> p)" using assms(2) by auto
  then have "ports_of m = ports_of (m(n := None)) + int (GetUsedPortsNum p)"
    using ports_of_insert [of "m(n := None)" n p] assms(1) by simp
  then show ?thesis by simp
qed

lemma ports_of_nonneg: "ports_of m \<ge> 0"
  unfolding ports_of_def by (rule sum_nonneg) simp

lemma pinv_init: "pinv m emptyServer"
  by (simp add: pinv_def pc_ok_def names_ok_def name_ok_def emptyServer_def emptyControl_def ports_of_def pending_ports_def)

lemma updc_simps [simp]:
  "pcs (updc c f sv) = (pcs sv)(c := f (pcs sv c))" "pxys (updc c f sv) = pxys sv"
  "running (updc c f sv) = running sv"
  by (simp_all add: updc_def)

lemma updc_updc: "updc c f (updc c g sv) = updc c (\<lambda>pc. f (g pc)) sv"
  by (simp add: updc_def)

lemma pc_okD:
  assumes "pinv m sv"
  shows "finite (dom (proxies (pcs sv c)))" "proxies (pcs sv c) n = Some p \<Longrightarrow> GetName p = n"
    "m > 0 \<Longrightarrow> portsUsedNum (pcs sv c) \<le> m"
    "m > 0 \<Longrightarrow> \<not> stopped (pcs sv c) \<Longrightarrow>
       portsUsedNum (pcs sv c) = ports_of (proxies (pcs sv c)) + pending_ports (pcs sv c)"
    "stopped (pcs sv c) \<Longrightarrow> registering (pcs sv c) = None \<and> proxies (pcs sv c) = Map.empty"
  using assms unfolding pinv_def pc_ok_def by blast+

lemma namesD:
  assumes "pinv m sv"
  shows "running sv c n \<le> 1" "running sv c n = 1 \<longleftrightarrow> pxys sv n = Some c"
    "running sv c n = (if proxies (pcs sv c) n \<noteq> None then 1 else 0) + count_list (map GetName (closing (pcs sv c))) n"
  using assms unfolding pinv_def names_ok_def name_ok_def by blast+

text \<open>A change of one control's bookkeeping that leaves names alone.\<close>

lemma pinv_updc:
  assumes "pinv m sv" "pc_ok m (f (pcs sv c))"
    and "proxies (f (pcs sv c)) = proxies (pcs sv c)" "closing (f (pcs sv c)) = closing (pcs sv c)"
  shows "pinv m (updc c f sv)"
  using assms unfolding pinv_def names_ok_def by simp

lemma pinv_registerBegin:
  assumes "pinv m sv" "registering (pcs sv c) = None" "\<not> stopped (pcs sv c)"
  shows "pinv m (snd (registerBegin m c p sv))"
proof -
  let ?pc = "pcs sv c"
  have ok: "pc_ok m ?pc" using assms(1) by (simp add: pinv_def)
  have "returnPorts m p (reservePorts m p ?pc) = ?pc" by (simp add: returnPorts_def reservePorts_def)
  then have "updc c (returnPorts m p) (updc c (reservePorts m p) sv) = sv" by (simp add: updc_def)
  moreover have "pinv m (updc c (\<lambda>pc. (reservePorts m p pc)\<lparr>registering := Some p\<rparr>) sv)"
    if "\<not> (m > 0 \<and> portsUsedNum ?pc + int (GetUsedPortsNum p) > m)"
    by (rule pinv_updc [OF assms(1)])
       (use ok assms(2,3) that in \<open>auto simp: reservePorts_def pc_ok_def pending_ports_def\<close>)
  ultimately show ?thesis using assms(1) by (auto simp: registerBegin_def Let_def updc_updc)
qed

lemma pinv_registerCommit:
  assumes "pinv m sv" "registering (pcs sv c) = Some p"
  shows "pinv m (snd (registerCommit m c p ok sv))"
proof -
  let ?pc = "pcs sv c"
  let ?sv = "updc c (\<lambda>pc. pc\<lparr>registering := None\<rparr>) sv"
  let ?undone = "updc c (returnPorts m p) ?sv"
  have pok: "pc_ok m ?pc" using assms(1) by (simp add: pinv_def)
  have st: "\<not> stopped ?pc" using pc_okD(5) [OF assms(1)] assms(2) by auto
  have rolled: "pinv m ?undone"
  proof -
    have "pinv m (updc c (\<lambda>pc. returnPorts m p (pc\<lparr>registering := None\<rparr>)) sv)"
      by (rule pinv_updc [OF assms(1)])
         (use pok st assms(2) ports_of_nonneg [of "proxies ?pc"] in \<open>auto simp: returnPorts_def pc_ok_def pending_ports_def\<close>)
    then show ?thesis by (simp add: updc_updc)
  qed
  have undo: "pxyClose c p (pxyRun c p ?sv) = ?sv" by (simp add: pxyClose_def pxyRun_def)
  show ?thesis
  proof (cases "ok \<and> pxys sv (GetName p) = None")
    case False
    then show ?thesis using rolled undo by (auto simp: registerCommit_def ManagerAdd_def Let_def pxyRun_def)
  next
    case True
    let ?n = "GetName p"
    let ?f = "\<lambda>pc. pc\<lparr>registering := None, proxies := (proxies pc)(?n \<mapsto> p)\<rparr>"
    let ?new = "(updc c ?f sv)\<lparr>pxys := (pxys sv)(?n \<mapsto> c), running := (running sv)(c := (running sv c)(?n := running sv c ?n + 1))\<rparr>"
    have "running sv c ?n = 0" using namesD(1,2) [OF assms(1), of c ?n] True by auto
    then have z: "running sv c ?n = 0" "proxies ?pc ?n = None" "count_list (map GetName (closing ?pc)) ?n = 0"
      using namesD(3) [OF assms(1), of c ?n] by (auto split: if_splits)
    have "pc_ok m (?f ?pc)"
      using pok st assms(2) z(2) ports_of_insert [of "proxies ?pc" ?n p] by (auto simp: pc_ok_def pending_ports_def)
    moreover have "names_ok ?new"
      unfolding names_ok_def
    proof (intro allI)
      fix d k
      show "name_ok (running ?new d k) (pxys ?new k = Some d) (proxies (pcs ?new d) k \<noteq> None)
          (count_list (map GetName (closing (pcs ?new d))) k)"
        using namesD [OF assms(1), of d k] z True by (cases "k = ?n"; cases "d = c") (auto simp: name_ok_def)
    qed
    ultimately have "pinv m ?new" using assms(1) by (simp add: pinv_def)
    moreover have "snd (registerCommit m c p ok sv) = ?new"
      using True by (cases sv) (simp add: registerCommit_def ManagerAdd_def Let_def pxyRun_def updc_def)
    ultimately show ?thesis by simp
  qed
qed

lemma pinv_closeBegin:
  assumes "pinv m sv" "registering (pcs sv c) = None" "\<not> stopped (pcs sv c)"
  shows "pinv m (closeBegin m c name sv)"
proof (cases "proxies (pcs sv c) name")
  case (Some p)
  let ?pc = "pcs sv c"
  let ?f = "\<lambda>pc. (returnPorts m p pc)\<lparr>proxies := (proxies pc)(name := None), closing := closing pc @ [p]\<rparr>"
  have n: "GetName p = name" using pc_okD(2) [OF assms(1) Some] .
  have "pc_ok m ?pc" using assms(1) by (simp add: pinv_def)
  then have "pc_ok m (?f ?pc)"
    using assms(2,3) Some ports_of_delete [OF pc_okD(1) [OF assms(1)] Some]
    by (auto simp: pc_ok_def returnPorts_def pending_ports_def)
  moreover have "names_ok (updc c ?f sv)"
    unfolding names_ok_def
  proof (intro allI)
    fix d k
    show "name_ok (running (updc c ?f sv) d k) (pxys (updc c ?f sv) k = Some d)
        (proxies (pcs (updc c ?f sv) d) k \<noteq> None) (count_list (map GetName (closing (pcs (updc c ?f sv) d))) k)"
      using namesD [OF assms(1), of d k] Some n
      by (cases "k = name"; cases "d = c") (auto simp: returnPorts_def name_ok_def)
  qed
  ultimately show ?thesis using assms(1) Some by (simp add: closeBegin_def pinv_def)
qed (simp add: closeBegin_def assms(1))

lemma pinv_closeProxy:
  assumes "pinv m sv" shows "pinv m (closeProxy c sv)"
proof (cases "closing (pcs sv c)")
  case (Cons p ps)
  let ?n = "GetName p" and ?s = "closeProxy c sv"
  have r: "running sv c ?n = 1" "proxies (pcs sv c) ?n = None" "count_list (map GetName ps) ?n = 0"
    using namesD(1,3) [OF assms, of c ?n] Cons by (auto split: if_splits)
  have own: "pxys sv ?n = Some c" using namesD(2) [OF assms, of c ?n] r(1) by simp
  have s: "pxys ?s = (pxys sv)(?n := None)" "running ?s = (running sv)(c := (running sv c)(?n := 0))"
    "pcs ?s = (pcs sv)(c := (pcs sv c)\<lparr>closing := ps\<rparr>)"
    by (simp_all add: closeProxy_def Cons ManagerDel_def pxyClose_def r(1))
  have "names_ok ?s"
    unfolding names_ok_def s
  proof (intro allI)
    fix d k
    show "name_ok (((running sv)(c := (running sv c)(?n := 0))) d k) (((pxys sv)(?n := None)) k = Some d)
        (proxies (((pcs sv)(c := (pcs sv c)\<lparr>closing := ps\<rparr>)) d) k \<noteq> None)
        (count_list (map GetName (closing (((pcs sv)(c := (pcs sv c)\<lparr>closing := ps\<rparr>)) d))) k)"
      using namesD [OF assms, of d k] namesD(2) [OF assms, of d ?n] r own Cons
      by (cases "k = ?n"; cases "d = c") (auto simp: name_ok_def)
  qed
  moreover have "pc_ok m (pcs ?s d)" for d
    using assms unfolding s by (auto simp: pinv_def pc_ok_def pending_ports_def)
  ultimately show ?thesis by (simp add: pinv_def)
qed (simp add: closeProxy_def assms)

lemma count_names:
  assumes "distinct order" "set order = dom m" "\<And>n p. m n = Some p \<Longrightarrow> GetName p = n"
  shows "count_list (map GetName (map (\<lambda>n. the (m n)) order)) k = (if m k = None then 0 else 1)"
proof -
  have "map GetName (map (\<lambda>n. the (m n)) order) = order"
    using assms(2,3) by (auto intro!: map_idI simp: dom_def)
  moreover have "count_list order k = (if k \<in> set order then 1 else 0)"
    using assms(1) by (induction order) auto
  ultimately show ?thesis using assms(2) by auto
qed


lemma pinv_stopControl:
  assumes "pinv m sv" "registering (pcs sv c) = None" "distinct order" "set order = dom (proxies (pcs sv c))"
  shows "pinv m (stopControl c order sv)"
proof -
  let ?f = "\<lambda>pc. pc\<lparr>proxies := Map.empty, closing := closing pc @ map (\<lambda>n. the (proxies pc n)) order, stopped := True\<rparr>"
  have cn: "count_list (map GetName (map (\<lambda>n. the (proxies (pcs sv c) n)) order)) k =
      (if proxies (pcs sv c) k = None then 0 else 1)" for k
    using assms(3,4) pc_okD(2) [OF assms(1)] by (rule count_names)
  have "names_ok (updc c ?f sv)"
    unfolding names_ok_def
  proof (intro allI)
    fix d k
    show "name_ok (running (updc c ?f sv) d k) (pxys (updc c ?f sv) k = Some d)
        (proxies (pcs (updc c ?f sv) d) k \<noteq> None) (count_list (map GetName (closing (pcs (updc c ?f sv) d))) k)"
      using namesD [OF assms(1), of d k] cn [of k]
      by (cases "d = c") (auto simp: name_ok_def split: if_splits)
  qed
  moreover have "pc_ok m (?f (pcs sv c))"
    using assms(1,2) by (auto simp: pinv_def pc_ok_def)
  ultimately show ?thesis using assms(1) by (simp add: pinv_def stopControl_def)
qed

lemma preachable_pinv: "preachable m sv \<Longrightarrow> pinv m sv"
proof (induction rule: preachable.induct)
  case init
  show ?case by (rule pinv_init)
next
  case (step sv ev)
  then show ?case
    by (cases ev)
       (auto intro: pinv_registerBegin pinv_registerCommit pinv_closeBegin pinv_closeProxy pinv_stopControl)
qed

section \<open>Guarantees\<close>

text \<open>C31. The port quota is kept exactly: whatever clients register and close, and however they
  interleave, a live control's counter is the number of ports of its registered proxies plus the
  one being registered, and it never exceeds the configured maximum; failed registrations give
  their ports back.\<close>

theorem port_quota_exact:
  assumes "preachable m sv" "m > 0"
  shows "portsUsedNum (pcs sv c) \<le> m \<and>
         (\<not> stopped (pcs sv c) \<longrightarrow>
            portsUsedNum (pcs sv c) = ports_of (proxies (pcs sv c)) + pending_ports (pcs sv c))"
  using pc_okD(3,4) [OF preachable_pinv [OF assms(1)] assms(2)] by blast

definition demo_proxy :: proxy where
  "demo_proxy = \<lparr>GetName = ''web'', GetUsedPortsNum = 1\<rparr>"

definition demo_sv :: pserver where
  "demo_sv = phappen 2 (PRegisterCommit 0 True) (phappen 2 (PRegisterBegin 0 demo_proxy) emptyServer)"

lemma demo_sv_fields:
  "portsUsedNum (pcs demo_sv 0) = 1" "\<not> stopped (pcs demo_sv 0)" "pxys demo_sv ''web'' = Some 0"
  "running demo_sv 0 ''web'' = 1"
  by (simp_all add: demo_sv_def demo_proxy_def emptyServer_def emptyControl_def registerBegin_def registerCommit_def
      ManagerExist_def ManagerAdd_def pxyRun_def reservePorts_def returnPorts_def Let_def)

lemma demo_sv_reachable: "preachable 2 demo_sv"
  unfolding demo_sv_def
  by (intro preachable.step preachable.init)
     (simp_all add: demo_proxy_def emptyServer_def emptyControl_def registerBegin_def ManagerExist_def
       reservePorts_def Let_def)

theorem port_quota_exact_witness:
  "portsUsedNum (pcs demo_sv 0) = 1 \<and>
   portsUsedNum (pcs demo_sv 0) = ports_of (proxies (pcs demo_sv 0)) + pending_ports (pcs demo_sv 0)"
  using port_quota_exact [OF demo_sv_reachable, of 0] demo_sv_fields by simp



text \<open>Two clients that race for one proxy name are resolved by the manager: both pass the check
  that the name is free, both proxies are started, the second to be added is refused, closed and
  has its ports returned, and the first keeps the name.\<close>

theorem name_race_resolved:
  assumes "preachable m sv" "pxys sv (GetName p) = None" "GetName q = GetName p" "c \<noteq> d"
    and "registering (pcs sv c) = Some p" "registering (pcs sv d) = Some q"
  shows "\<exists>sv1 sv2. registerCommit m c p True sv = (Inr (), sv1) \<and>
           registerCommit m d q True sv1 = (Inl NameInUse, sv2) \<and>
           pxys sv2 (GetName p) = Some c \<and> running sv2 c (GetName p) = 1 \<and> running sv2 d (GetName p) = 0 \<and>
           portsUsedNum (pcs sv2 d) =
             (if m > 0 then portsUsedNum (pcs sv d) - int (GetUsedPortsNum q) else portsUsedNum (pcs sv d))"
proof -
  note i = preachable_pinv [OF assms(1)]
  have z: "running sv e (GetName p) = 0" for e using namesD(1,2) [OF i, of e "GetName p"] assms(2) by auto
  show ?thesis
    using assms z
    by (simp add: registerCommit_def ManagerAdd_def pxyRun_def pxyClose_def returnPorts_def Let_def)
qed

definition demo_race :: pserver where
  "demo_race = phappen 2 (PRegisterBegin 1 demo_proxy) (phappen 2 (PRegisterBegin 0 demo_proxy) emptyServer)"

theorem name_race_resolved_witness:
  "\<exists>sv1 sv2. registerCommit 2 0 demo_proxy True demo_race = (Inr (), sv1) \<and>
     registerCommit 2 1 demo_proxy True sv1 = (Inl NameInUse, sv2) \<and> pxys sv2 (GetName demo_proxy) = Some 0 \<and>
     running sv2 0 (GetName demo_proxy) = 1 \<and> running sv2 1 (GetName demo_proxy) = 0 \<and>
     portsUsedNum (pcs sv2 1) = (if (2 :: int) > 0 then portsUsedNum (pcs demo_race 1) - int (GetUsedPortsNum demo_proxy)
       else portsUsedNum (pcs demo_race 1))"
proof (rule name_race_resolved)
  show "preachable 2 demo_race"
    unfolding demo_race_def
    by (intro preachable.step preachable.init)
       (simp_all add: demo_proxy_def emptyServer_def emptyControl_def registerBegin_def ManagerExist_def
         reservePorts_def Let_def)
qed (simp_all add: demo_race_def demo_proxy_def emptyServer_def emptyControl_def registerBegin_def ManagerExist_def
    reservePorts_def Let_def)

end
