(* ===== verification/Spec2Isabelle.thy ===== *)
theory Spec2Isabelle
  imports Udp_Proxy Server_Api Client_Service Visitor_Admission Xudp_Visitor Xudp_Proxy_Close Conn_Request Port_Manager Control_Manager Proxy_Control Http_Group Listener_Group Nat_Controller
begin

text \<open>
  frp is a reverse proxy: \<^verbatim>\<open>frpc\<close> logs in to \<^verbatim>\<open>frps\<close> over a control connection, registers proxies, and
  \<^verbatim>\<open>frps\<close> passes what users send to a proxy's port, host name or peer on to the client that owns it.  This fork
  adds proxies that carry UDP between clients (\<^verbatim>\<open>xudp\<close>).  This library models the parts of the program that
  decide something: what is put on and read from the wire, who owns a run id, a name, a port or a route, and
  what two peers behind NATs are told to do.  File names below are relative to \<^verbatim>\<open>src/\<close>.

  \<^bold>\<open>Bytes on the wire.\<close>
  \<^item> \<open>Wire_Frame\<close> (\<^verbatim>\<open>pkg/proto/wire/wire.go\<close>): \<^verbatim>\<open>ReadFrame\<close>, \<^verbatim>\<open>WriteFrame\<close>, the JSON frames and the magic prefix.
    Shown: the reader accepts exactly the encodings of frames, a stream of frames is read back, and a torn
    frame is reported.
  \<^item> \<open>Wire_Hello\<close> (\<^verbatim>\<open>wire.go\<close>, \<^verbatim>\<open>crypto.go\<close>, \<^verbatim>\<open>server/service.go\<close>, \<^verbatim>\<open>client/control_session.go\<close>): capabilities, selection,
    validation, the transcript, and both ends of the hello exchange.  Shown: both ends agree on the result, a
    rejection is reported to the client, and transcripts of different exchanges differ.
  \<^item> \<open>Udp_Binary\<close> (\<^verbatim>\<open>pkg/msg/udp_binary.go\<close>): the binary packet codec with the source's offsets and checked
    accesses.  Shown: no access is out of range for any input, packets are read back, and every accepted byte
    string is the encoding of the packet it decodes to.
  \<^item> \<open>Msg_V2\<close> (\<^verbatim>\<open>pkg/msg/wire_v2.go\<close>, \<^verbatim>\<open>handler.go\<close>, \<^verbatim>\<open>acceptConnection\<close> of \<^verbatim>\<open>server/service.go\<close>): type tables, frame
    codec, choice of a packet codec, the dispatcher's read loop, and the first message of a connection.
    Shown: a client and a server that follow the code establish a connection and exchange the login, messages
    are delivered in order, and the two packet codecs cannot be mistaken for each other.
  \<open>Byte_Codec\<close> holds the locales \<open>stream_decoder\<close> and \<open>canonical_codec\<close> that these theories interpret; \<open>Go_Slices\<close>
  and \<open>Go_Strings\<close> hold what is used of Go's slices, \<^verbatim>\<open>strings\<close>, \<^verbatim>\<open>strconv\<close> and \<^verbatim>\<open>net\<close>.

  \<^bold>\<open>Who owns what on the server.\<close>
  \<^item> \<open>Client_Registry\<close> (\<^verbatim>\<open>server/registry/registry.go\<close>): clients by key and by run id.  Shown: the two indexes agree
    after every sequence of operations, and an old control cannot mark a newer one offline.
  \<^item> \<open>Control_Manager\<close> (\<^verbatim>\<open>server/control.go\<close>, \<^verbatim>\<open>RegisterControl\<close> and \<^verbatim>\<open>handleLogin\<close> of \<^verbatim>\<open>server/service.go\<close>): controls in a store,
    each manager method one step, the worker of a control several.  Shown for every interleaving: one worker
    per run id at a time, work connections only go to the current control, channels are closed once.
  \<^item> \<open>Proxy_Control\<close> (\<^verbatim>\<open>RegisterProxy\<close>, \<^verbatim>\<open>CloseProxy\<close>, \<^verbatim>\<open>worker\<close> of \<^verbatim>\<open>control.go\<close>; the manager of
    \<^verbatim>\<open>server/proxy/proxy.go\<close>).  Shown: names are exclusive, the port quota is exact, a race for a name has one winner.
  \<^item> \<open>Port_Manager\<close> (\<^verbatim>\<open>server/ports/ports.go\<close>).  Shown: free and used ports partition the allowed ones, a request
    that can be met is granted, and a name gets its reserved port back.
  \<^item> \<open>Vhost_Router\<close> (\<^verbatim>\<open>pkg/util/vhost/router.go\<close>, \<^verbatim>\<open>vhost.go\<close>).  Shown: the router refines a finite map, and the precedence
    of routes.  \<open>Http_Group\<close> (\<^verbatim>\<open>server/group/http.go\<close>) and \<open>Listener_Group\<close> (\<^verbatim>\<open>base.go\<close>, \<^verbatim>\<open>tcp.go\<close>, \<^verbatim>\<open>https.go\<close>, \<^verbatim>\<open>tcpmux.go\<close>)
    use it through the locale \<open>route_index\<close>.  Shown for every interleaving of the goroutines that look
    groups up: a group with members holds its route or port, and an empty one has given it back.

  \<^item> \<open>Visitor_Manager\<close> (\<^verbatim>\<open>server/visitor/visitor.go\<close>, \<^verbatim>\<open>pkg/util/net/listener.go\<close>) and \<open>Visitor_Admission\<close> (\<^verbatim>\<open>RegisterVisitorConn\<close>).
    Shown: a visitor is queued only at the proxy whose key it signed with, as an allowed user of its current control.
  \<^item> \<open>Server_Resources\<close> (\<^verbatim>\<open>server/controller/resource.go\<close>) and \<open>Server_Proxy\<close> (\<^verbatim>\<open>server/proxy/*.go\<close>): all of the above as one
    store of resources with the locale \<open>lease\<close>, and \<^verbatim>\<open>Run\<close> and \<^verbatim>\<open>Close\<close> of every proxy type on it.  Shown: \<^verbatim>\<open>Run\<close> takes
    everything or nothing, with one exception that is proved to be a leak; a resource is taken exactly if one proxy holds it.
  \<^item> \<open>Udp_Proxy\<close> (\<^verbatim>\<open>server/proxy/udp.go\<close>, \<^verbatim>\<open>pkg/proto/udp/udp.go\<close>): the goroutines of a UDP proxy.  Shown: datagrams are carried in order and
    once across reconnections, \<^verbatim>\<open>Close\<close> returns and leaves nothing open without a bandwidth limiter, and not with one.
  \<^item> \<open>Server_Metrics\<close> (\<^verbatim>\<open>pkg/util/metric\<close>, \<^verbatim>\<open>pkg/metrics/mem\<close>) and \<open>Server_Api\<close> (\<^verbatim>\<open>server/http/controller_v2.go\<close>): the statistics and the lists of the
    dashboard.  Shown: the collector keeps a ledger as long as days have 24 hours, paging is exact for every accepted parameter, and lists are complete
    and do not depend on the order of maps.
  \<^item> \<open>Conn_Request\<close> (\<^verbatim>\<open>udpWorkConnRequest\<close>, \<^verbatim>\<open>xudpPrepareRequest\<close>): a request that outlives its owner.  Shown: its socket is handed over
    or closed once.

  \<^bold>\<open>Configuration and the client.\<close>
  \<^item> \<open>Proxy_Config\<close> (\<^verbatim>\<open>pkg/config/v1/proxy.go\<close>, \<^verbatim>\<open>validation/\<close>, \<^verbatim>\<open>NewProxyConfigurerFromMsg\<close>).  Shown: a configuration survives the way from the
    client over the message to the server, and accepted domains do not overlap.
  \<^item> \<open>Config_Source\<close> (\<^verbatim>\<open>pkg/config/source/\<close>, \<^verbatim>\<open>pkg/config/v1/visitor.go\<close>, \<^verbatim>\<open>load.go\<close>): the file and the store as sources, merging, filtering and
    completing.  Every operation of saving can fail.  Shown: the store refines two maps, it survives a crash at any point, and what is
    loaded does not depend on the order of maps.  The locale \<open>store_entries\<close> serves proxies and visitors alike.
  \<^item> \<open>Client_Proxy\<close> (\<^verbatim>\<open>client/proxy/proxy_wrapper.go\<close>, \<^verbatim>\<open>proxy_manager.go\<close>, \<^verbatim>\<open>client/health/health.go\<close>, \<^verbatim>\<open>pkg/naming\<close>).  Shown: an update brings the
    manager in line with a configuration and touches nothing else; client and server agree on what runs while answers are in
    time, and can disagree for ever after a late one.
  \<^item> \<open>Client_Visitors\<close> (\<^verbatim>\<open>client/visitor/visitor_manager.go\<close>): the same for visitors and the goroutine that restarts them.
  \<^item> \<open>Client_Service\<close> (\<^verbatim>\<open>client/service.go\<close>, \<^verbatim>\<open>config_manager.go\<close>, \<^verbatim>\<open>control.go\<close>): reloads and the store API on top of these, and logins, updates and a stop
    with their locks.  Shown: an API call changes the store and what runs together; a service runs its configuration if logins and updates
    do not overlap, and a reload can be lost if they do.

  \<^bold>\<open>Peers.\<close>
  \<^item> \<open>Xudp_State\<close> (\<^verbatim>\<open>pkg/xudp/state/state.go\<close>, \<^verbatim>\<open>pkg/xudp/session/table.go\<close>).  Shown: a token is current exactly until
    the next change, and what a stale generation does has no effect.
  \<^item> \<open>Nat_Hole\<close> (\<^verbatim>\<open>pkg/nathole/classify.go\<close>, \<^verbatim>\<open>analysis.go\<close>) and \<open>Nat_Controller\<close> (\<^verbatim>\<open>controller.go\<close>).  Shown: the classification
    is exact, recommendations have one sender and one receiver and are tried fairly, the two peers of a
    session get instructions that fit together, and sessions are opened only with the proxy's key.
  \<^item> \<open>Xudp_Visitor\<close> (\<^verbatim>\<open>client/visitor/xudp.go\<close>): dispatcher, forwarder and the goroutines of every transport.  Shown: no datagram is lost or reordered by
    a change of transport, one transport is current at a time, \<^verbatim>\<open>Close\<close> returns, and a packet that no frame can hold blocks a relay.
  \<^item> \<open>Xudp_Proxy\<close> and \<open>Xudp_Proxy_Close\<close> (\<^verbatim>\<open>client/proxy/xudp.go\<close>): classification of work connections and the life of their sockets.
    Shown: nothing stays open when all calls have returned, and \<^verbatim>\<open>Close\<close> returns.

  \<^bold>\<open>Conventions.\<close>  A method that holds a lock throughout is one step; where the code lets go of the lock the
  model has several steps and the theorems hold for every interleaving (\<open>steps\<close> and the locale \<open>event_system\<close> of
  \<open>Prelude\<close>).  Objects shared by pointer live in a store.  Errors are left injections.  A map whose iteration order
  matters is iterated in an order given as an argument.  Loops are structural recursions or have a termination
  proof; no definition takes fuel.  Machine integers are words where they can wrap around.

  \<^bold>\<open>Arguments.\<close>  JSON encodings, SHA-256, MD5, HMAC keys, random sources, clocks, the version 1 codec of golib and the
  operating system's answer to a bind are arguments; what a theorem needs of them is a named hypothesis, and
  its witness instantiates it.

  \<^bold>\<open>Not modelled.\<close>  The other handlers of the dashboards render state that is modelled elsewhere.  Configuration files, command-line flags and the
  legacy formats are parsed by libraries through reflection; the result of parsing is an argument.  The data planes of the other client
  proxies and visitors copy bytes between connections of libraries (encryption, compression, KCP, QUIC, yamux), as do TLS,
  websocket, SSH and the reverse HTTP proxy.  OIDC, plugins, the virtual network and STUN depend on external programs, servers or
  devices.  Logging and the assets decide nothing.  Tickers and timeouts appear only as the calls they
  make, at any time, and backoff delays not at all.
\<close>

end
